(* ===== verification/Prelude.thy ===== *)
theory Prelude
  imports Main "HOL-Library.Word"
begin

section \<open>Shared types, arithmetic and text\<close>

text \<open>
  What the components share: the machine types of the firmware, millisecond clocks that wrap
  at 2 to the power 32, little-endian fields, the FNV-1a checksum of every persisted record,
  the C character classes and the printf conversions the sources use, and the collections of
  facts the component proofs draw on.
\<close>

unbundle bit_operations_syntax

type_synonym byte = "8 word"
type_synonym u16 = "16 word"
type_synonym u32 = "32 word"
type_synonym u64 = "64 word"
type_synonym bytes = "byte list"

named_theorems le_simps \<open>length and decoding facts of little-endian fields\<close>
named_theorems fs_simps \<open>effects of file-system operations on file contents\<close>

subsection \<open>Wrapping millisecond clocks\<close>

text \<open>\<open>uint32_t(now - start) >= duration\<close>: the age test every periodic activity uses.\<close>

definition since :: "u32 \<Rightarrow> u32 \<Rightarrow> u32" where
  "since now start = now - start"

text \<open>
  A clock reading \<open>d\<close> milliseconds after \<open>start\<close> has age \<open>d\<close>, whether or not the counter has
  wrapped in between, as long as \<open>d\<close> itself fits in the counter.
\<close>

lemma since_later [simp]: "since (start + d) start = d"
  by (simp add: since_def)

lemma unat_since_later:
  "d < 2 ^ 32 \<Longrightarrow> unat (since (start + of_nat d) start) = d"
  by (simp add: unat_of_nat take_bit_nat_eq_self)

lemma since_refl [simp]: "since t t = 0"
  by (simp add: since_def)

text \<open>A reading taken before \<open>start\<close> looks almost a full period old.\<close>

lemma since_earlier:
  assumes "0 < d" "d < 2 ^ 32"
  shows "unat (since t (t + of_nat d)) = 2 ^ 32 - d"
proof -
  have "since t (t + of_nat d) = - (of_nat d :: u32)"
    by (simp add: since_def)
  moreover have "uint (- (of_nat d :: u32)) = 2 ^ 32 - int d"
    using assms by (simp add: uint_word_ariths unsigned_of_nat take_bit_int_eq_self zmod_zminus1_eq_if
        take_bit_nat_eq_self nat_less_iff)
  then have "unat (- (of_nat d :: u32)) = 2 ^ 32 - d"
    using assms by (simp add: nat_diff_distrib flip: nat_uint_eq)
  ultimately show ?thesis by simp
qed

subsection \<open>Saturating addition of counters\<close>

lemma unat_u32_lt [simp]: "unat (x :: u32) < 4294967296"
proof -
  have "unat x < 2 ^ LENGTH(32)" by (rule unsigned_less)
  then show ?thesis by simp
qed

lemma unat_u32_le: "unat (x :: u32) \<le> 4294967295"
  using unat_u32_lt [of x] by linarith

lemma unat_add_no_wrap:
  "unat (x :: u32) + unat y < 4294967296 \<Longrightarrow> unat (x + y) = unat x + unat y"
  by (simp add: unat_word_ariths)

subsection \<open>Little-endian fields\<close>

definition put16 :: "u16 \<Rightarrow> bytes" where
  "put16 v = [ucast v, ucast (drop_bit 8 v)]"

definition put32 :: "u32 \<Rightarrow> bytes" where
  "put32 v = [ucast v, ucast (drop_bit 8 v), ucast (drop_bit 16 v), ucast (drop_bit 24 v)]"

fun get16 :: "bytes \<Rightarrow> u16" where
  "get16 (a # b # _) = ucast a OR push_bit 8 (ucast b)"
| "get16 _ = 0"

fun get32 :: "bytes \<Rightarrow> u32" where
  "get32 (a # b # c # d # _) =
     ucast a OR push_bit 8 (ucast b) OR push_bit 16 (ucast c) OR push_bit 24 (ucast d)"
| "get32 _ = 0"

lemma length_put16 [le_simps, simp]: "length (put16 v) = 2"
  by (simp add: put16_def)

lemma length_put32 [le_simps, simp]: "length (put32 v) = 4"
  by (simp add: put32_def)

lemma get16_put16 [le_simps]: "get16 (put16 v @ rest) = v"
proof (rule bit_word_eqI)
  fix n assume "n < LENGTH(16)"
  then show "bit (get16 (put16 v @ rest)) n = bit v n"
    by (cases "n < 8") (auto simp: put16_def bit_simps not_less)
qed

lemma get32_put32 [le_simps]: "get32 (put32 v @ rest) = v"
proof (rule bit_word_eqI)
  fix n assume n: "n < LENGTH(32)"
  consider "n < 8" | "8 \<le> n" "n < 16" | "16 \<le> n" "n < 24" | "24 \<le> n" "n < 32"
    using n by force
  then show "bit (get32 (put32 v @ rest)) n = bit v n"
    by cases (auto simp: put32_def bit_simps)
qed

lemma get32_put32_Nil [le_simps]: "get32 (put32 v) = v"
  using get32_put32 [of v "[]"] by simp

lemma put32_inject: "put32 v = put32 w \<longleftrightarrow> v = w"
  by (metis get32_put32_Nil)

lemma put32_get32:
  assumes "length bs = 4"
  shows "put32 (get32 bs) = bs"
proof -
  obtain a b c d where bs: "bs = [a, b, c, d]"
    using assms by (auto simp: numeral_eq_Suc length_Suc_conv)
  have "ucast (get32 [a, b, c, d]) = a"
    by (rule bit_word_eqI) (auto simp: bit_simps)
  moreover have "ucast (drop_bit 8 (get32 [a, b, c, d])) = b"
    by (rule bit_word_eqI) (auto simp: bit_simps dest: bit_imp_le_length)
  moreover have "ucast (drop_bit 16 (get32 [a, b, c, d])) = c"
    by (rule bit_word_eqI) (auto simp: bit_simps dest: bit_imp_le_length)
  moreover have "ucast (drop_bit 24 (get32 [a, b, c, d])) = d"
    by (rule bit_word_eqI) (auto simp: bit_simps dest: bit_imp_le_length)
  ultimately show ?thesis by (simp add: bs put32_def)
qed

lemma get32_take [le_simps]: "4 \<le> length bs \<Longrightarrow> get32 (take 4 bs) = get32 bs"
  by (cases bs rule: get32.cases) simp_all

subsection \<open>The FNV-1a checksum of persisted records\<close>

fun fnv1a_from :: "u32 \<Rightarrow> bytes \<Rightarrow> u32" where
  "fnv1a_from value [] = value"
| "fnv1a_from value (b # bs) = fnv1a_from ((value XOR ucast b) * 16777619) bs"

definition fnv1a :: "bytes \<Rightarrow> u32" where
  "fnv1a bs = fnv1a_from 2166136261 bs"

lemma fnv1a_from_append [simp]:
  "fnv1a_from v (xs @ ys) = fnv1a_from (fnv1a_from v xs) ys"
  by (induction xs arbitrary: v) simp_all

subsection \<open>C character classes and text\<close>

definition code :: "char \<Rightarrow> nat" where
  "code c = of_char c"

definition is_space :: "char \<Rightarrow> bool" where
  "is_space c \<longleftrightarrow> code c = 32 \<or> (9 \<le> code c \<and> code c \<le> 13)"

definition is_digit :: "char \<Rightarrow> bool" where
  "is_digit c \<longleftrightarrow> 48 \<le> code c \<and> code c \<le> 57"

definition is_lower :: "char \<Rightarrow> bool" where
  "is_lower c \<longleftrightarrow> 97 \<le> code c \<and> code c \<le> 122"

definition is_upper :: "char \<Rightarrow> bool" where
  "is_upper c \<longleftrightarrow> 65 \<le> code c \<and> code c \<le> 90"

definition is_alnum :: "char \<Rightarrow> bool" where
  "is_alnum c \<longleftrightarrow> is_digit c \<or> is_lower c \<or> is_upper c"

definition to_lower :: "char \<Rightarrow> char" where
  "to_lower c = (if is_upper c then char_of (code c + 32) else c)"

lemma code_lt [simp]: "code c < 256"
  by (simp add: code_def)

lemma code_char_of [simp]: "n < 256 \<Longrightarrow> code (char_of n) = n"
  by (simp add: code_def)

lemma code_inject: "code c = code d \<longleftrightarrow> c = d"
  by (metis code_def char_of_char)

lemma char_code [simp]: "char_of (code c) = c"
  by (simp add: code_def)

lemma code_to_lower: "code (to_lower c) = (if is_upper c then code c + 32 else code c)"
  by (simp add: to_lower_def is_upper_def)

lemma to_lower_idem [simp]: "to_lower (to_lower c) = to_lower c"
  by (auto simp: to_lower_def is_upper_def)

lemma is_alnum_to_lower [simp]: "is_alnum (to_lower c) = is_alnum c"
  by (auto simp: is_alnum_def is_digit_def is_lower_def is_upper_def code_to_lower split: if_splits)

subsection \<open>printf conversions\<close>

definition digit_char :: "nat \<Rightarrow> char" where
  "digit_char d = char_of (48 + d)"

fun dec :: "nat \<Rightarrow> string" where
  "dec n = (if n < 10 then [digit_char n] else dec (n div 10) @ [digit_char (n mod 10)])"

declare dec.simps [simp del]

definition pad0 :: "nat \<Rightarrow> string \<Rightarrow> string" where
  "pad0 w s = replicate (w - length s) (CHR ''0'') @ s"

text \<open>\<open>%0wd\<close> of an \<open>int\<close> and \<open>%0wllu\<close> of an unsigned value.\<close>

definition fmt_d :: "nat \<Rightarrow> int \<Rightarrow> string" where
  "fmt_d w v = (if v < 0 then CHR ''-'' # pad0 (w - 1) (dec (nat (- v))) else pad0 w (dec (nat v)))"

definition fmt_u :: "nat \<Rightarrow> nat \<Rightarrow> string" where
  "fmt_u w v = pad0 w (dec v)"

text \<open>\<open>snprintf\<close> into a buffer of \<open>n\<close> bytes keeps the first \<open>n - 1\<close> characters.\<close>

definition snprintf :: "nat \<Rightarrow> string \<Rightarrow> string" where
  "snprintf n s = take (n - 1) s"

definition hex_char :: "nat \<Rightarrow> char" where
  "hex_char d = (if d < 10 then char_of (48 + d) else char_of (87 + d))"

text \<open>\<open>%0kllx\<close> of a value below \<open>16 ^ k\<close>, most significant nibble first.\<close>

fun hex_digits :: "nat \<Rightarrow> nat \<Rightarrow> string" where
  "hex_digits 0 v = []"
| "hex_digits (Suc k) v = hex_digits k (v div 16) @ [hex_char (v mod 16)]"

lemma dec_not_Nil [simp]: "dec n \<noteq> []"
  by (subst dec.simps) simp

lemma length_hex_digits [simp]: "length (hex_digits k v) = k"
  by (induction k v rule: hex_digits.induct) simp_all

lemma length_pad0: "length (pad0 w s) = max w (length s)"
  by (simp add: pad0_def)

lemma is_digit_digit_char: "d < 10 \<Longrightarrow> is_digit (digit_char d)"
  by (simp add: is_digit_def digit_char_def)

lemma dec_digits: "c \<in> set (dec n) \<Longrightarrow> is_digit c"
proof (induction n rule: dec.induct)
  case (1 n)
  then show ?case
    by (subst (asm) (2) dec.simps)
      (auto simp: is_digit_digit_char split: if_splits)
qed

fun val_of :: "string \<Rightarrow> nat" where
  "val_of [] = 0"
| "val_of (c # cs) = (code c - 48) * 10 ^ length cs + val_of cs"

lemma val_of_snoc: "val_of (cs @ [c]) = val_of cs * 10 + (code c - 48)"
  by (induction cs) (simp_all add: algebra_simps)

lemma val_of_append: "val_of (xs @ ys) = val_of xs * 10 ^ length ys + val_of ys"
  by (induction xs) (simp_all add: algebra_simps power_add)

lemma val_of_dec: "val_of (dec n) = n"
proof (induction n rule: dec.induct)
  case (1 n)
  show ?case
  proof (cases "n < 10")
    case True
    then show ?thesis by (subst dec.simps) (simp add: digit_char_def)
  next
    case False
    then have "val_of (dec n) = n div 10 * 10 + n mod 10"
      using 1 by (subst dec.simps) (simp add: val_of_snoc digit_char_def)
    then show ?thesis by simp
  qed
qed

lemma dec_inject [simp]: "dec m = dec n \<longleftrightarrow> m = n"
  by (metis val_of_dec)

lemma val_of_pad0 [simp]: "val_of (pad0 w s) = val_of s"
proof -
  have "val_of (replicate k (CHR ''0'') @ s) = val_of s" for k
    by (induction k) (simp_all add: code_def)
  then show ?thesis by (simp add: pad0_def)
qed

lemma length_dec: "0 < k \<Longrightarrow> n < 10 ^ k \<Longrightarrow> length (dec n) \<le> k"
proof (induction k arbitrary: n)
  case 0
  then show ?case by simp
next
  case (Suc k)
  show ?case
  proof (cases "n < 10")
    case True
    then show ?thesis by (subst dec.simps) simp
  next
    case False
    then have "0 < k" using Suc.prems by (cases k) auto
    moreover have "n div 10 < 10 ^ k" using Suc.prems by auto
    ultimately have "length (dec (n div 10)) \<le> k" by (rule Suc.IH)
    with False show ?thesis by (subst dec.simps) simp
  qed
qed

subsection \<open>Positions in a ring buffer\<close>

lemma mod_window_inj:
  assumes "i < n" "j < n" "(a + i) mod n = (a + j) mod (n :: nat)"
  shows "i = j"
proof -
  have "i mod n = j mod n" using assms(3) unfolding nat_mod_eq_iff by (auto simp: add.assoc)
  then show ?thesis using assms(1,2) by simp
qed

subsection \<open>Texts as bytes\<close>

text \<open>A text that is stored or sent byte for byte, and a buffer read as a text.\<close>

definition raw :: "string \<Rightarrow> bytes" where
  "raw s = map (\<lambda>c. of_nat (code c)) s"

definition unraw :: "bytes \<Rightarrow> string" where
  "unraw bs = map (\<lambda>b. char_of (unat b)) bs"

lemma unraw_raw [simp]: "unraw (raw s) = s"
proof -
  have "unat (of_nat (code c) :: byte) = code c" for c
    using code_lt [of c] by (simp add: unat_of_nat take_bit_nat_eq_self)
  then show ?thesis by (induction s) (simp_all add: raw_def unraw_def)
qed

lemma raw_unraw [simp]: "raw (unraw bs) = bs"
proof -
  have "(of_nat (code (char_of (unat b))) :: byte) = b" for b :: byte
  proof -
    have "unat b < 2 ^ LENGTH(8)" by (rule unsigned_less)
    then have "code (char_of (unat b)) = unat b" by simp
    then show ?thesis by simp
  qed
  then show ?thesis by (induction bs) (simp_all add: raw_def unraw_def)
qed

lemma raw_inject [simp]: "raw a = raw b \<longleftrightarrow> a = b"
  by (metis unraw_raw)

lemma raw_Nil [simp]: "raw s = [] \<longleftrightarrow> s = []"
  by (simp add: raw_def)

subsection \<open>Prefixes and suffixes\<close>

definition starts_with :: "string \<Rightarrow> string \<Rightarrow> bool" where
  "starts_with p s \<longleftrightarrow> take (length p) s = p"

definition ends_with :: "string \<Rightarrow> string \<Rightarrow> bool" where
  "ends_with p s \<longleftrightarrow> length p \<le> length s \<and> drop (length s - length p) s = p"

end
