(* ===== verification/Flash.thy ===== *)
theory Flash
  imports Prelude
begin

section \<open>The LittleFS file system as a parameter\<close>

text \<open>
  The Arduino \<open>LittleFS\<close> library is not part of the repository. What the sources use of it is a
  record of operations on a file-system state \<open>'fs\<close>: a file is named by its path, opening for
  writing truncates or creates it, opening for appending keeps it, every write goes to its end
  and returns how many bytes it took, a read at a position returns at most what was asked for.
  Reading does not change the state; \<open>open_read\<close> is the test of the opened handle.
\<close>

record 'fs lfs_ops =
  lfs_begin :: "string \<Rightarrow> 'fs \<Rightarrow> bool \<times> 'fs"
  lfs_format :: "'fs \<Rightarrow> bool \<times> 'fs"
  lfs_totalBytes :: "'fs \<Rightarrow> nat"
  lfs_exists :: "string \<Rightarrow> 'fs \<Rightarrow> bool"
  lfs_remove :: "string \<Rightarrow> 'fs \<Rightarrow> bool \<times> 'fs"
  lfs_rename :: "string \<Rightarrow> string \<Rightarrow> 'fs \<Rightarrow> bool \<times> 'fs"
  open_read :: "string \<Rightarrow> 'fs \<Rightarrow> bool"
  open_write :: "string \<Rightarrow> 'fs \<Rightarrow> bool \<times> 'fs"
  open_append :: "string \<Rightarrow> 'fs \<Rightarrow> bool \<times> 'fs"
  f_size :: "string \<Rightarrow> 'fs \<Rightarrow> nat"
  f_seek :: "string \<Rightarrow> nat \<Rightarrow> 'fs \<Rightarrow> bool"
  f_read :: "string \<Rightarrow> nat \<Rightarrow> nat \<Rightarrow> 'fs \<Rightarrow> bytes"
  f_write :: "string \<Rightarrow> bytes \<Rightarrow> 'fs \<Rightarrow> nat \<times> 'fs"

text \<open>
  What the library documents, with \<open>files\<close> the content of the volume. Any operation may fail; a
  write that fails may have stored a prefix, a rename is atomic.
\<close>

locale flash =
  fixes L :: "'fs lfs_ops" and files :: "'fs \<Rightarrow> string \<Rightarrow> bytes option"
  assumes exists_law: "lfs_exists L p fs \<longleftrightarrow> files fs p \<noteq> None"
    and remove_law: "lfs_remove L p fs = (b, fs') \<Longrightarrow>
      files fs' = (if b then (files fs)(p := None) else files fs)"
    and rename_law: "lfs_rename L p q fs = (b, fs') \<Longrightarrow>
      (if b then files fs p \<noteq> None \<and> files fs' = (files fs)(q := files fs p, p := None)
       else files fs' = files fs)"
    and open_read_law: "open_read L p fs \<Longrightarrow> files fs p \<noteq> None"
    and open_write_law: "open_write L p fs = (b, fs') \<Longrightarrow>
      files fs' = (if b then (files fs)(p := Some []) else files fs)"
    and open_append_law: "open_append L p fs = (b, fs') \<Longrightarrow>
      files fs' = (if b then (files fs)(p := Some (case files fs p of None \<Rightarrow> [] | Some c \<Rightarrow> c))
        else files fs)"
    and size_law: "open_read L p fs \<Longrightarrow> files fs p = Some c \<Longrightarrow> f_size L p fs = length c"
    and read_law: "open_read L p fs \<Longrightarrow> files fs p = Some c \<Longrightarrow>
      \<exists>m. f_read L p pos n fs = take m (take n (drop pos c))"
    and write_law: "files fs p = Some c \<Longrightarrow> f_write L p d fs = (n, fs') \<Longrightarrow>
      n \<le> length d \<and> files fs' = (files fs)(p := Some (c @ take n d))"
begin

lemma read_full:
  assumes "open_read L p fs" "files fs p = Some c" "length (f_read L p pos n fs) = n"
  shows "f_read L p pos n fs = take n (drop pos c)" "pos + n \<le> length c \<or> n = 0"
proof -
  obtain m where m: "f_read L p pos n fs = take m (take n (drop pos c))"
    using read_law [OF assms(1,2)] by blast
  then have "n \<le> length (take n (drop pos c))" using assms(3) by (metis length_take min.bounded_iff order_refl)
  then show "pos + n \<le> length c \<or> n = 0" by auto
  show "f_read L p pos n fs = take n (drop pos c)"
    using m assms(3) by (metis length_take min.absorb2 nle_le take_all_iff take_take)
qed

lemma write_full:
  assumes "files fs p = Some c" "f_write L p d fs = (length d, fs')"
  shows "files fs' = (files fs)(p := Some (c @ d))"
  using write_law [OF assms] by simp

end

subsection \<open>A volume in memory\<close>

text \<open>
  The volume of the repository's host tests (\<open>src/tests/storage_fakes/LittleFS.cpp\<close>): an
  association of paths with contents, a limit for the next write and a switch that makes the
  next rename fail.
\<close>

record fake_fs =
  fs_files :: "(string \<times> bytes) list"
  fs_writeLimit :: "nat option"
  fs_failRename :: bool
  fs_total :: nat
  fs_mount :: bool

definition fs_content :: "fake_fs \<Rightarrow> string \<Rightarrow> bytes option" where
  "fs_content fs p = map_of (fs_files fs) p"

definition fs_put :: "string \<Rightarrow> bytes \<Rightarrow> fake_fs \<Rightarrow> fake_fs" where
  "fs_put p c fs = fs\<lparr>fs_files := (p, c) # filter (\<lambda>f. fst f \<noteq> p) (fs_files fs)\<rparr>"

definition fs_drop :: "string \<Rightarrow> fake_fs \<Rightarrow> fake_fs" where
  "fs_drop p fs = fs\<lparr>fs_files := filter (\<lambda>f. fst f \<noteq> p) (fs_files fs)\<rparr>"

definition fake_lfs :: "fake_fs lfs_ops" where
  "fake_lfs = \<lparr>
     lfs_begin = (\<lambda>label fs. (fs_mount fs, fs)),
     lfs_format = (\<lambda>fs. (True, fs\<lparr>fs_files := [], fs_mount := True\<rparr>)),
     lfs_totalBytes = fs_total,
     lfs_exists = (\<lambda>p fs. fs_content fs p \<noteq> None),
     lfs_remove = (\<lambda>p fs. if fs_content fs p = None then (False, fs) else (True, fs_drop p fs)),
     lfs_rename = (\<lambda>p q fs. if fs_failRename fs then (False, fs\<lparr>fs_failRename := False\<rparr>)
       else case fs_content fs p of None \<Rightarrow> (False, fs)
         | Some c \<Rightarrow> (True, if p = q then fs_drop p fs else fs_drop p (fs_put q c fs))),
     open_read = (\<lambda>p fs. fs_content fs p \<noteq> None),
     open_write = (\<lambda>p fs. (True, fs_put p [] fs)),
     open_append = (\<lambda>p fs. (True, case fs_content fs p of None \<Rightarrow> fs_put p [] fs | Some c \<Rightarrow> fs)),
     f_size = (\<lambda>p fs. case fs_content fs p of None \<Rightarrow> 0 | Some c \<Rightarrow> length c),
     f_seek = (\<lambda>p pos fs. case fs_content fs p of None \<Rightarrow> False | Some c \<Rightarrow> pos \<le> length c),
     f_read = (\<lambda>p pos n fs. case fs_content fs p of None \<Rightarrow> [] | Some c \<Rightarrow> take n (drop pos c)),
     f_write = (\<lambda>p d fs. case fs_content fs p of None \<Rightarrow> (0, fs)
       | Some c \<Rightarrow> let n = (case fs_writeLimit fs of None \<Rightarrow> length d | Some l \<Rightarrow> min l (length d))
           in (n, fs_put p (c @ take n d) (fs\<lparr>fs_writeLimit := None\<rparr>)))\<rparr>"

lemma map_of_filter_key: "map_of (filter (\<lambda>f. fst f \<noteq> p) xs) q = (if q = p then None else map_of xs q)"
  by (induction xs) auto

lemma fs_content_put: "fs_content (fs_put p c fs) = (fs_content fs)(p := Some c)"
  by (rule ext) (simp add: fs_content_def fs_put_def map_of_filter_key)

lemma fs_content_drop: "fs_content (fs_drop p fs) = (fs_content fs)(p := None)"
  by (rule ext) (simp add: fs_content_def fs_drop_def map_of_filter_key)

lemma fs_content_flags [simp]:
  "fs_content (fs\<lparr>fs_writeLimit := l\<rparr>) = fs_content fs" "fs_content (fs\<lparr>fs_failRename := b\<rparr>) = fs_content fs"
  by (rule ext, simp add: fs_content_def)+

interpretation fake_volume: flash fake_lfs fs_content
proof (unfold_locales, goal_cases)
  case (3 p q fs b fs')
  then show ?case
    by (auto simp: fake_lfs_def fs_content_put fs_content_drop split: if_splits option.splits)
next
  case (9 fs p c d n fs')
  then show ?case
    by (auto simp: fake_lfs_def fs_content_put Let_def split: option.splits)
next
  case (8 p fs c pos n)
  then have "f_read fake_lfs p pos n fs = take n (take n (drop pos c))" by (simp add: fake_lfs_def)
  then show ?case by blast
qed (auto simp: fake_lfs_def fs_content_put fs_content_drop fun_upd_idem split: if_splits option.splits)

definition blank_volume :: "nat \<Rightarrow> fake_fs" where
  "blank_volume capacity = \<lparr>fs_files = [], fs_writeLimit = None, fs_failRename = False, fs_total = capacity,
     fs_mount = True\<rparr>"

end
