(* ===== verification/Json.thy ===== *)
theory Json
  imports Prelude
begin

section \<open>The JSON library as a parameter\<close>

text \<open>
  ArduinoJson is not part of the repository. The sources use it through a few calls, collected
  here as a record of operations that every definition working on a document takes as its
  first argument: parsing into a document of a given capacity (the \<open>StaticJsonDocument\<close> size,
  with the member names of a filter document, if any), reading a member (the unbound value for
  a missing one), the typed accessors, where \<open>None\<close> stands for \<open>is<T>()\<close> being false, the text
  \<open>as<String>()\<close> makes of any value, the elements of an array, and the text of an object that is built
  field by field (with whether it overflows the document's capacity), the converting accessors \<open>as<int>()\<close> and
  \<open>as<uint32_t>()\<close> (0 for what does not convert), the member names of an object, and the text of a parsed value.
\<close>

datatype jval = JStr string | JBool bool | JNum u32

record 'd json_ops =
  deserialize :: "nat \<Rightarrow> string list option \<Rightarrow> string \<Rightarrow> 'd option"
  member :: "'d \<Rightarrow> string \<Rightarrow> 'd"
  is_object :: "'d \<Rightarrow> bool"
  as_bool :: "'d \<Rightarrow> bool option"
  as_str :: "'d \<Rightarrow> string option"
  as_unsigned :: "'d \<Rightarrow> u32 option"
  as_int64 :: "'d \<Rightarrow> int option"
  is_null :: "'d \<Rightarrow> bool"
  as_text :: "'d \<Rightarrow> string"
  elements :: "'d \<Rightarrow> 'd list"
  contains_key :: "'d \<Rightarrow> string \<Rightarrow> bool"
  serialize :: "(string \<times> jval) list \<Rightarrow> string"
  overflowed :: "nat \<Rightarrow> (string \<times> jval) list \<Rightarrow> bool"
  to_int :: "'d \<Rightarrow> int"
  to_unsigned :: "'d \<Rightarrow> u32"
  keys :: "'d \<Rightarrow> string list"
  render :: "'d \<Rightarrow> string"

definition str_is :: "'d json_ops \<Rightarrow> 'd \<Rightarrow> string \<Rightarrow> bool" where
  "str_is J v s \<longleftrightarrow> as_str J v = Some s"

text \<open>\<open>member | default\<close> of a text and of an \<open>int\<close>.\<close>

definition str_or :: "'d json_ops \<Rightarrow> 'd \<Rightarrow> string \<Rightarrow> string" where
  "str_or J v d = (case as_str J v of Some s \<Rightarrow> s | None \<Rightarrow> d)"

definition int_or :: "'d json_ops \<Rightarrow> 'd \<Rightarrow> int \<Rightarrow> int" where
  "int_or J v d = (case as_int64 J v of Some n \<Rightarrow> if - (2 ^ 31) \<le> n \<and> n < 2 ^ 31 then n else d | None \<Rightarrow> d)"

definition bool_true :: "'d json_ops \<Rightarrow> 'd \<Rightarrow> bool" where
  "bool_true J v \<longleftrightarrow> as_bool J v = Some True"

text \<open>
  A small concrete document type for examples: a scalar, an object or an array, with a parser that is a
  finite table from texts to documents.
\<close>

datatype sample_doc =
    Missing
  | SBool bool
  | SStr string
  | SNum int
  | SObj "(string \<times> sample_doc) list"
  | SArr "sample_doc list"

definition sample_member :: "sample_doc \<Rightarrow> string \<Rightarrow> sample_doc" where
  "sample_member v k = (case v of SObj kvs \<Rightarrow> (case map_of kvs k of Some w \<Rightarrow> w | None \<Rightarrow> Missing)
     | _ \<Rightarrow> Missing)"

definition sample_json :: "(string \<times> sample_doc) list \<Rightarrow> sample_doc json_ops" where
  "sample_json texts = \<lparr>
     deserialize = (\<lambda>_ _ body. map_of texts body),
     member = sample_member,
     is_object = (\<lambda>v. case v of SObj _ \<Rightarrow> True | _ \<Rightarrow> False),
     as_bool = (\<lambda>v. case v of SBool b \<Rightarrow> Some b | _ \<Rightarrow> None),
     as_str = (\<lambda>v. case v of SStr s \<Rightarrow> Some s | _ \<Rightarrow> None),
     as_unsigned = (\<lambda>v. case v of SNum n \<Rightarrow> if 0 \<le> n \<and> n < 4294967296 then Some (word_of_int n) else None
       | _ \<Rightarrow> None),
     as_int64 = (\<lambda>v. case v of SNum n \<Rightarrow> Some n | _ \<Rightarrow> None),
     is_null = (\<lambda>v. v = Missing),
     as_text = (\<lambda>v. case v of SStr s \<Rightarrow> s | SNum n \<Rightarrow> fmt_d 1 n | SBool b \<Rightarrow> (if b then ''true'' else ''false'')
       | Missing \<Rightarrow> ''null'' | _ \<Rightarrow> ''{}''),
     elements = (\<lambda>v. case v of SArr vs \<Rightarrow> vs | _ \<Rightarrow> []),
     contains_key = (\<lambda>v k. case v of SObj kvs \<Rightarrow> map_of kvs k \<noteq> None | _ \<Rightarrow> False),
     serialize = (\<lambda>kvs. []),
     overflowed = (\<lambda>n kvs. False),
     to_int = (\<lambda>v. case v of SNum n \<Rightarrow> if - (2 ^ 31) \<le> n \<and> n < 2 ^ 31 then n else 0 | SBool b \<Rightarrow> of_bool b | _ \<Rightarrow> 0),
     to_unsigned = (\<lambda>v. case v of SNum n \<Rightarrow> if 0 \<le> n \<and> n < 4294967296 then word_of_int n else 0
       | SBool b \<Rightarrow> of_bool b | _ \<Rightarrow> 0),
     keys = (\<lambda>v. case v of SObj kvs \<Rightarrow> map fst kvs | _ \<Rightarrow> []),
     render = (\<lambda>v. case List.find (\<lambda>t. snd t = v) texts of Some (t, _) \<Rightarrow> t | None \<Rightarrow> [])\<rparr>"


subsection \<open>Objects that are written and read back\<close>

definition field_reads :: "'d json_ops \<Rightarrow> 'd \<Rightarrow> jval \<Rightarrow> bool" where
  "field_reads J d v = (case v of
      JStr s \<Rightarrow> as_text J d = s \<and> as_str J d = Some s
    | JBool b \<Rightarrow> as_bool J d = Some b
    | JNum n \<Rightarrow> as_unsigned J d = Some n \<and> as_int64 J d = Some (uint n))"

text \<open>An object that fits its document parses to one that has exactly its fields.\<close>

locale json_objects =
  fixes J :: "'d json_ops"
  assumes serialize_law: "distinct (map fst kvs) \<Longrightarrow> \<not> overflowed J n kvs \<Longrightarrow>
      \<exists>d. deserialize J n None (serialize J kvs) = Some d \<and>
        (\<forall>k. contains_key J d k \<longleftrightarrow> map_of kvs k \<noteq> None) \<and>
        (\<forall>k v. map_of kvs k = Some v \<longrightarrow> field_reads J (member J d k) v) \<and>
        (\<forall>k. map_of kvs k = None \<longrightarrow> as_str J (member J d k) = None)"
    and serialize_not_empty: "serialize J kvs \<noteq> []"
begin

lemma read_back:
  assumes "distinct (map fst kvs)" "\<not> overflowed J n kvs"
  obtains d where "deserialize J n None (serialize J kvs) = Some d"
    "\<And>k. contains_key J d k \<longleftrightarrow> map_of kvs k \<noteq> None"
    "\<And>k s. map_of kvs k = Some (JStr s) \<Longrightarrow> as_text J (member J d k) = s \<and> as_str J (member J d k) = Some s"
    "\<And>k b. map_of kvs k = Some (JBool b) \<Longrightarrow> as_bool J (member J d k) = Some b"
    "\<And>k m. map_of kvs k = Some (JNum m) \<Longrightarrow> as_unsigned J (member J d k) = Some m \<and> as_int64 J (member J d k) = Some (uint m)"
    "\<And>k. map_of kvs k = None \<Longrightarrow> as_str J (member J d k) = None"
proof -
  from serialize_law [OF assms] obtain d where d: "deserialize J n None (serialize J kvs) = Some d"
    "\<forall>k. contains_key J d k \<longleftrightarrow> map_of kvs k \<noteq> None"
    "\<forall>k v. map_of kvs k = Some v \<longrightarrow> field_reads J (member J d k) v"
    "\<forall>k. map_of kvs k = None \<longrightarrow> as_str J (member J d k) = None" by blast
  have r: "field_reads J (member J d k) v" if "map_of kvs k = Some v" for k v using d(3) that by blast
  show ?thesis
    by (rule that [OF d(1)]) (use d(2,4) in \<open>auto dest: r simp: field_reads_def\<close>)
qed

end

text \<open>
  A format that has this law: every text is preceded by its length in unary, an object by the
  number of its fields.
\<close>

definition wire_text :: "string \<Rightarrow> string" where
  "wire_text s = replicate (length s) (CHR ''1'') @ CHR ''0'' # s"

definition unwire_count :: "string \<Rightarrow> nat \<times> string" where
  "unwire_count cs = (let k = length (takeWhile (\<lambda>c. c = CHR ''1'') cs) in (k, drop (Suc k) cs))"

definition unwire_text :: "string \<Rightarrow> string \<times> string" where
  "unwire_text cs = (case unwire_count cs of (k, rest) \<Rightarrow> (take k rest, drop k rest))"

definition wire_val :: "jval \<Rightarrow> string" where
  "wire_val v = (case v of JStr s \<Rightarrow> CHR ''s'' # s | JBool b \<Rightarrow> [if b then CHR ''t'' else CHR ''f'']
     | JNum n \<Rightarrow> CHR ''n'' # dec (unat n))"

definition unwire_val :: "string \<Rightarrow> sample_doc" where
  "unwire_val cs = (case cs of [] \<Rightarrow> Missing | c # s \<Rightarrow> if c = CHR ''s'' then SStr s
     else if c = CHR ''n'' then SNum (int (val_of s)) else SBool (c = CHR ''t''))"

definition wire_object :: "(string \<times> jval) list \<Rightarrow> string" where
  "wire_object kvs = replicate (length kvs) (CHR ''1'') @ CHR ''0'' #
     concat (map (\<lambda>(k, v). wire_text k @ wire_text (wire_val v)) kvs)"

fun unwire_fields :: "nat \<Rightarrow> string \<Rightarrow> (string \<times> sample_doc) list" where
  "unwire_fields 0 cs = []"
| "unwire_fields (Suc n) cs = (case unwire_text cs of (k, cs) \<Rightarrow> case unwire_text cs of (v, cs) \<Rightarrow>
     (k, unwire_val v) # unwire_fields n cs)"

definition wire_json :: "sample_doc json_ops" where
  "wire_json = (sample_json [])\<lparr>
     deserialize := (\<lambda>_ _ cs. case unwire_count cs of (n, rest) \<Rightarrow> Some (SObj (unwire_fields n rest))),
     serialize := wire_object\<rparr>"

lemma unwire_count: "unwire_count (replicate n (CHR ''1'') @ CHR ''0'' # r) = (n, r)"
proof -
  have "takeWhile (\<lambda>c. c = CHR ''1'') (replicate n (CHR ''1'') @ CHR ''0'' # r) = replicate n (CHR ''1'')"
    by (subst takeWhile_append2) auto
  then show ?thesis by (simp add: unwire_count_def)
qed

lemma unwire_text: "unwire_text (wire_text s @ r) = (s, r)"
  by (simp add: unwire_text_def wire_text_def unwire_count)

definition doc_of :: "jval \<Rightarrow> sample_doc" where
  "doc_of v = (case v of JStr s \<Rightarrow> SStr s | JBool b \<Rightarrow> SBool b | JNum n \<Rightarrow> SNum (uint n))"

lemma unwire_val: "unwire_val (wire_val v) = doc_of v"
  by (cases v) (simp_all add: unwire_val_def wire_val_def doc_of_def val_of_dec)

lemma unwire_fields: "unwire_fields (length kvs)
    (concat (map (\<lambda>(k, v). wire_text k @ wire_text (wire_val v)) kvs)) = map (\<lambda>(k, v). (k, doc_of v)) kvs"
  by (induction kvs) (auto simp: unwire_text unwire_val)

lemma unwire_object: "deserialize wire_json n f (serialize wire_json kvs) = Some (SObj (map (\<lambda>(k, v). (k, doc_of v)) kvs))"
  by (simp add: wire_json_def wire_object_def unwire_count unwire_fields)

lemma map_of_doc_of: "map_of (map (\<lambda>(k, v). (k, doc_of v)) kvs) k = map_option doc_of (map_of kvs k)"
  by (induction kvs) auto

interpretation wire: json_objects wire_json
proof (unfold_locales, goal_cases)
  case (1 kvs n)
  define d where "d = SObj (map (\<lambda>(k, v). (k, doc_of v)) kvs)"
  have m: "member wire_json d k = (case map_of kvs k of Some v \<Rightarrow> doc_of v | None \<Rightarrow> Missing)" for k
    by (simp add: wire_json_def sample_json_def sample_member_def d_def map_of_doc_of split: option.split)
  have "contains_key wire_json d k \<longleftrightarrow> map_of kvs k \<noteq> None" for k
    by (simp add: wire_json_def sample_json_def d_def map_of_doc_of)
  moreover have "field_reads wire_json (doc_of v) v" for v
    by (cases v) (simp_all add: field_reads_def doc_of_def wire_json_def sample_json_def uint_lt2p [where 'a = 32, simplified])
  ultimately show ?case
    by (intro exI [of _ d]) (auto simp: m unwire_object d_def [symmetric], auto simp: wire_json_def sample_json_def)
qed (simp add: wire_json_def wire_object_def)

end
