(* ===== verification/UploadPolicy.thy ===== *)
theory UploadPolicy
  imports Json
begin

section \<open>Delivery policy: recovery, evidence, acknowledgements, pacing\<close>

text \<open>
  The header-only policies the uploader consults: how a rejected batch is split
  (\<open>UploadRecovery.h\<close>), what counts as evidence of delivery (\<open>UploadEvidence.h\<close>,
  \<open>UploadAcknowledgement.h\<close>, \<open>BatchAcknowledgement.h\<close>) and when the worker sends a heartbeat
  (\<open>HttpsPacing.h\<close>). The callables \<open>save\<close> and \<open>advance\<close> act on a state \<open>'w\<close> they share.
\<close>

subsection \<open>UploadRecovery.h\<close>

record UploadRecovery =
  singlesRemaining :: nat

datatype Resolution = Retained | Archived | ArchiveFailed | AdvanceFailed

definition fresh_recovery :: UploadRecovery where
  "fresh_recovery = \<lparr>singlesRemaining = 0\<rparr>"

definition payloadRejected :: "int \<Rightarrow> bool" where
  "payloadRejected status \<longleftrightarrow> status = 400 \<or> status = 413 \<or> status = 422"

definition batchRejected :: "nat \<Rightarrow> UploadRecovery \<Rightarrow> UploadRecovery" where
  "batchRejected count r = r\<lparr>singlesRemaining := count\<rparr>"

definition allowBatch :: "UploadRecovery \<Rightarrow> bool" where
  "allowBatch r \<longleftrightarrow> singlesRemaining r = 0"

definition recordResolved :: "bool \<Rightarrow> UploadRecovery \<Rightarrow> UploadRecovery" where
  "recordResolved advanced r =
     (if advanced \<and> singlesRemaining r \<noteq> 0 then r\<lparr>singlesRemaining := singlesRemaining r - 1\<rparr> else r)"

definition resolveRejected ::
  "('w \<Rightarrow> bool \<times> 'w) \<Rightarrow> ('w \<Rightarrow> bool \<times> 'w) \<Rightarrow> int \<Rightarrow> bool \<Rightarrow> UploadRecovery \<Rightarrow> 'w \<Rightarrow>
   Resolution \<times> UploadRecovery \<times> 'w" where
  "resolveRejected save advance status permanent r w =
     (if \<not> permanent \<or> \<not> payloadRejected status then (Retained, r, w)
      else case save w of
        (False, w1) \<Rightarrow> (ArchiveFailed, r, w1)
      | (True, w1) \<Rightarrow>
          (case advance w1 of
             (False, w2) \<Rightarrow> (AdvanceFailed, r, w2)
           | (True, w2) \<Rightarrow> (Archived, recordResolved True r, w2)))"

lemma payloadRejected_not_retryable: "payloadRejected s \<Longrightarrow> 400 \<le> s \<and> s < 500"
  by (auto simp: payloadRejected_def)

lemma recordResolved_simps [simp]:
  "recordResolved False r = r"
  "singlesRemaining (recordResolved True r) = singlesRemaining r - 1"
  by (simp_all add: recordResolved_def)

text \<open>
  A batch of \<open>count\<close> records that was rejected is sent one record at a time until \<open>count\<close> records
  have been resolved, and no longer.
\<close>

lemma singles_after:
  "singlesRemaining ((recordResolved True ^^ k) (batchRejected n r)) = n - k"
  by (induction k) (simp_all add: batchRejected_def)

lemma allowBatch_after: "allowBatch ((recordResolved True ^^ k) (batchRejected n r)) \<longleftrightarrow> n \<le> k"
  by (simp add: allowBatch_def singles_after)

text \<open>
  The contract of the two callables for a submitted payload \<open>x\<close>, and what it gives. \<open>queue\<close> holds
  the payloads waiting, \<open>kept\<close> the archived ones. Saving leaves the queue alone, whatever happens,
  and has archived \<open>x\<close> when it reports success; advancing leaves the archive alone and removes
  the head of the queue only if it is \<open>x\<close>.
\<close>

locale archive_then_advance =
  fixes save :: "'w \<Rightarrow> bool \<times> 'w" and advance :: "'w \<Rightarrow> bool \<times> 'w"
    and queue :: "'w \<Rightarrow> 'r list \<Rightarrow> bool" and kept :: "'w \<Rightarrow> 'r set" and x :: 'r
  assumes save_queue: "queue w rs \<Longrightarrow> save w = (b, w') \<Longrightarrow> queue w' rs"
    and save_kept: "queue w rs \<Longrightarrow> save w = (b, w') \<Longrightarrow> kept w \<subseteq> kept w'"
    and save_saved: "queue w rs \<Longrightarrow> save w = (True, w') \<Longrightarrow> x \<in> kept w'"
    and advance_kept: "queue w rs \<Longrightarrow> advance w = (b, w') \<Longrightarrow> kept w' = kept w"
    and advance_queue: "queue w rs \<Longrightarrow> advance w = (b, w') \<Longrightarrow>
      \<exists>rs'. queue w' rs' \<and> (rs' = rs \<or> rs = x # rs')"
    and advance_done: "queue w rs \<Longrightarrow> advance w = (True, w') \<Longrightarrow> rs \<noteq> [] \<Longrightarrow> hd rs = x \<Longrightarrow>
      queue w' (tl rs)"
begin

lemma nothing_lost:
  assumes "queue w rs" "resolveRejected save advance status permanent r w = (res, r', w')"
  shows "\<exists>rs'. queue w' rs' \<and> kept w \<subseteq> kept w' \<and> (rs' = rs \<or> (rs = x # rs' \<and> x \<in> kept w'))"
proof (cases "permanent \<and> payloadRejected status")
  case False
  then show ?thesis using assms by (auto simp: resolveRejected_def)
next
  case True
  obtain b w1 where s: "save w = (b, w1)" by (cases "save w")
  note S = save_queue [OF assms(1) s] save_kept [OF assms(1) s]
  show ?thesis
  proof (cases b)
    case False
    then show ?thesis using assms(2) True s S by (auto simp: resolveRejected_def)
  next
    case b: True
    obtain c w2 where a: "advance w1 = (c, w2)" by (cases "advance w1")
    have "w' = w2" using assms(2) True s b a by (auto simp: resolveRejected_def split: bool.splits)
    then show ?thesis
      using advance_queue [OF S(1) a] advance_kept [OF S(1) a] save_saved [OF assms(1)] s b S(2) by auto
  qed
qed

lemma archived_done:
  assumes "queue w rs" "resolveRejected save advance status permanent r w = (Archived, r', w')"
  shows "x \<in> kept w'" "r' = recordResolved True r" "rs \<noteq> [] \<Longrightarrow> hd rs = x \<Longrightarrow> queue w' (tl rs)"
proof -
  obtain b w1 where s: "save w = (b, w1)" by (cases "save w")
  obtain c w2 where a: "advance w1 = (c, w2)" by (cases "advance w1")
  have b: "b" "c" "w' = w2" "r' = recordResolved True r"
    using assms(2) s a by (auto simp: resolveRejected_def split: if_splits bool.splits)
  note S = save_queue [OF assms(1) s] save_saved [OF assms(1)]
  show "x \<in> kept w'" using S s b advance_kept [OF S(1) a] by simp
  show "r' = recordResolved True r" by (rule b)
  show "queue w' (tl rs)" if "rs \<noteq> []" "hd rs = x"
    using advance_done [OF S(1) _ that] a b by simp
qed

lemma not_archived_unresolved:
  "resolveRejected save advance status permanent r w = (res, r', w') \<Longrightarrow> res \<noteq> Archived \<Longrightarrow> r' = r"
  by (auto simp: resolveRejected_def split: if_splits bool.splits prod.splits)

end

subsection \<open>UploadEvidence.h\<close>

datatype Evidence = Unknown | Disabled | Failed | ServerAccepted | TransportSent

record EvidenceStatus =
  evState :: Evidence
  evTransport :: byte
  evAgeMs :: u32
  evIntervalMs :: u32

record EvidenceTracker =
  attempted :: bool
  failed :: bool
  succeeded :: bool
  successMs :: u32

definition fresh_tracker :: EvidenceTracker where
  "fresh_tracker = \<lparr>attempted = False, failed = False, succeeded = False, successMs = 0\<rparr>"

definition record_attempt :: "bool \<Rightarrow> u32 \<Rightarrow> EvidenceTracker \<Rightarrow> EvidenceTracker" where
  "record_attempt success now t =
     (let t = t\<lparr>attempted := True, failed := \<not> success\<rparr>
      in if success then t\<lparr>succeeded := True, successMs := now\<rparr> else t)"

definition evidence_status ::
  "bool \<Rightarrow> bool \<Rightarrow> bool \<Rightarrow> u32 \<Rightarrow> u32 \<Rightarrow> EvidenceTracker \<Rightarrow> EvidenceStatus" where
  "evidence_status enabled available https now interval t =
     \<lparr>evState = (if \<not> enabled then Disabled else if \<not> available \<or> failed t then Failed
                 else if \<not> attempted t then Unknown
                 else if https then ServerAccepted else TransportSent),
      evTransport = (if https then 1 else 2),
      evAgeMs = (if succeeded t then now - successMs t else 0xFFFFFFFF),
      evIntervalMs = interval\<rparr>"

definition run_attempts :: "(bool \<times> u32) list \<Rightarrow> EvidenceTracker" where
  "run_attempts log = foldl (\<lambda>t (ok, now). record_attempt ok now t) fresh_tracker log"

definition last_success :: "(bool \<times> u32) list \<Rightarrow> u32 option" where
  "last_success log =
     (if filter fst log = [] then None else Some (snd (last (filter fst log))))"

lemma run_attempts_snoc: "run_attempts (log @ [(ok, now)]) = record_attempt ok now (run_attempts log)"
  by (simp add: run_attempts_def)

text \<open>What the tracker remembers of a history of attempts.\<close>

lemma run_attempts_facts:
  "attempted (run_attempts log) \<longleftrightarrow> log \<noteq> []"
  "failed (run_attempts log) \<longleftrightarrow> log \<noteq> [] \<and> \<not> fst (last log)"
  "succeeded (run_attempts log) \<longleftrightarrow> last_success log \<noteq> None"
  "last_success log = Some t \<Longrightarrow> successMs (run_attempts log) = t"
proof (induction log arbitrary: t rule: rev_induct)
  case Nil
  { case 1 show ?case by (simp add: run_attempts_def fresh_tracker_def)
  next case 2 show ?case by (simp add: run_attempts_def fresh_tracker_def)
  next case 3 show ?case by (simp add: run_attempts_def fresh_tracker_def last_success_def)
  next case 4 then show ?case by (simp add: last_success_def) }
next
  case (snoc x log)
  obtain ok now where x: "x = (ok, now)" by (cases x)
  have ls: "last_success (log @ [x]) = (if ok then Some now else last_success log)"
    by (simp add: last_success_def x)
  { case 1 show ?case by (simp add: x run_attempts_snoc record_attempt_def Let_def)
  next case 2 show ?case by (simp add: x run_attempts_snoc record_attempt_def Let_def)
  next case 3 show ?case
      using snoc.IH(3) by (simp add: x run_attempts_snoc record_attempt_def Let_def ls [unfolded x])
  next case 4 then show ?case
      using snoc.IH(4) by (auto simp: x run_attempts_snoc record_attempt_def Let_def ls [unfolded x]
        split: if_splits) }
qed

subsection \<open>UploadAcknowledgement.h and BatchAcknowledgement.h\<close>

definition acceptedResponse :: "'d json_ops \<Rightarrow> int \<Rightarrow> string \<Rightarrow> bool" where
  "acceptedResponse J status body =
     (if status \<noteq> 200 then False
      else case deserialize J 512 (Some [''accepted'', ''status'']) body of
        None \<Rightarrow> False
      | Some doc \<Rightarrow> is_object J doc \<and> bool_true J (member J doc ''accepted'') \<and>
          str_is J (member J doc ''status'') ''ok'')"

definition batch_accepted :: "'d json_ops \<Rightarrow> int \<Rightarrow> string \<Rightarrow> string option \<Rightarrow> nat \<Rightarrow> bool" where
  "batch_accepted J status body batchId count =
     (if status \<noteq> 200 \<or> count = 0 \<or> 8 < count then False
      else case batchId of None \<Rightarrow> False
      | Some bid \<Rightarrow>
          if length bid \<noteq> 32 then False
          else case deserialize J 384 (Some [''status'', ''accepted'', ''batch_id'', ''accepted_count'']) body of
            None \<Rightarrow> False
          | Some doc \<Rightarrow> str_is J (member J doc ''status'') ''ok'' \<and>
              bool_true J (member J doc ''accepted'') \<and>
              str_is J (member J doc ''batch_id'') bid \<and>
              (case as_unsigned J (member J doc ''accepted_count'') of
                 None \<Rightarrow> False | Some n \<Rightarrow> unat n = count))"

lemma batch_accepted_unique:
  "batch_accepted J status body (Some a) m \<Longrightarrow> batch_accepted J status body (Some b) n \<Longrightarrow> a = b \<and> m = n"
  by (auto simp: batch_accepted_def str_is_def split: if_splits option.splits)

lemma accepted_status_200:
  "acceptedResponse J status body \<Longrightarrow> status = 200"
  "batch_accepted J status body b n \<Longrightarrow> status = 200 \<and> 0 < n \<and> n \<le> 8"
  by (auto simp: acceptedResponse_def batch_accepted_def split: if_splits)

subsection \<open>HttpsPacing.h\<close>

datatype Work = Wait | StatusWork | SnapshotWork

record HttpsPacing =
  statusAttempted :: bool
  lastStatusAttempt :: u32

definition fresh_pacing :: HttpsPacing where
  "fresh_pacing = \<lparr>statusAttempted = False, lastStatusAttempt = 0\<rparr>"

definition next_work ::
  "u32 \<Rightarrow> bool \<Rightarrow> bool \<Rightarrow> bool \<Rightarrow> u32 \<Rightarrow> u32 \<Rightarrow> bool \<Rightarrow> bool \<Rightarrow> HttpsPacing \<Rightarrow> Work" where
  "next_work now busy connected backoff lastCompletion retryMs statusRequested hasSnapshot p =
     (if busy \<or> \<not> connected \<or> (backoff \<and> since now lastCompletion < retryMs) then Wait
      else if statusRequested \<or> \<not> statusAttempted p \<or> 30000 \<le> since now (lastStatusAttempt p)
      then StatusWork
      else if hasSnapshot then SnapshotWork else Wait)"

definition statusCompleted :: "u32 \<Rightarrow> HttpsPacing \<Rightarrow> HttpsPacing" where
  "statusCompleted now p = p\<lparr>statusAttempted := True, lastStatusAttempt := now\<rparr>"

text \<open>
  For thirty seconds after a completed heartbeat, whatever its outcome, a waiting snapshot is
  what an idle connected worker sends.
\<close>

lemma snapshot_after_status:
  assumes "d < 30000"
  shows "next_work (t + of_nat d) False True False lc rm False True (statusCompleted t p) = SnapshotWork"
  using assms by (simp add: next_work_def statusCompleted_def word_le_nat_alt unat_of_nat
      take_bit_nat_eq_self)

end
