(* ===== verification/StoreForwardQueue.thy ===== *)
theory StoreForwardQueue
  imports Flash UploadPolicy
begin

section \<open>StoreForwardQueue: the durable upload queue\<close>

text \<open>
  \<open>logger/firmware/src/StoreForwardQueue.cpp\<close>: upload records wait in two segment files, oldest
  first; a metadata file holds the active segment, the read positions and the loss counters.
  This theory has the code: record and metadata layout, every operation, the recovery scan.
  A segment number is a \<open>bool\<close> (\<open>False\<close> for 0), positions and sizes are \<open>nat\<close> (files are
  smaller than 2 to the power 32), the counters keep their 32 bits, payloads are byte lists.
\<close>

subsection \<open>Constants, records, metadata\<close>

definition kMetadataMagic :: u32 where "kMetadataMagic = 0x5346514D"
definition kMetadataVersion :: u16 where "kMetadataVersion = 2"
definition kRecordMagic :: u32 where "kRecordMagic = 0x53465131"
definition kMaximumPayloadBytes :: nat where "kMaximumPayloadBytes = 4096"
definition kFilesystemReserveBytes :: nat where "kFilesystemReserveBytes = 512 * 1024"
definition kMetadataPath :: string where "kMetadataPath = ''/sfq.meta''"
definition kMetadataTemporaryPath :: string where "kMetadataTemporaryPath = ''/sfq.meta.tmp''"
definition kSegmentRepairPath :: string where "kSegmentRepairPath = ''/sfq.repair.tmp''"

definition segmentPath :: "bool \<Rightarrow> string" where
  "segmentPath s = (if s then ''/sfq-1.log'' else ''/sfq-0.log'')"

definition quarantinePath :: "bool \<Rightarrow> string" where
  "quarantinePath s = (if s then ''/sfq-1.corrupt'' else ''/sfq-0.corrupt'')"

record Metadata =
  activeSegment :: bool
  md_reserved :: byte
  md_head :: "bool \<Rightarrow> nat"
  droppedRecords :: u32
  corruptionEvents :: u32
  quarantinedBytes :: u32

definition empty_metadata :: Metadata where
  "empty_metadata = \<lparr>activeSegment = False, md_reserved = 0, md_head = (\<lambda>s. 0), droppedRecords = 0,
     corruptionEvents = 0, quarantinedBytes = 0\<rparr>"

text \<open>The 32 bytes of the packed little-endian \<open>Metadata\<close> with its checksum.\<close>

definition metadata_body :: "Metadata \<Rightarrow> bytes" where
  "metadata_body m = put32 kMetadataMagic @ put16 kMetadataVersion @ [of_bool (activeSegment m), md_reserved m] @
     put32 (of_nat (md_head m False)) @ put32 (of_nat (md_head m True)) @ put32 (droppedRecords m) @
     put32 (corruptionEvents m) @ put32 (quarantinedBytes m)"

definition metadata_bytes :: "Metadata \<Rightarrow> bytes" where
  "metadata_bytes m = metadata_body m @ put32 (fnv1a (metadata_body m))"

definition parse_metadata :: "bytes \<Rightarrow> Metadata option" where
  "parse_metadata bs =
     (if get32 bs = kMetadataMagic \<and> get16 (drop 4 bs) = kMetadataVersion \<and> bs ! 6 < 2 \<and>
         get32 (drop 28 bs) = fnv1a (take 28 bs)
      then Some \<lparr>activeSegment = (bs ! 6 = 1), md_reserved = bs ! 7,
        md_head = (\<lambda>s. if s then unat (get32 (drop 12 bs)) else unat (get32 (drop 8 bs))),
        droppedRecords = get32 (drop 16 bs), corruptionEvents = get32 (drop 20 bs),
        quarantinedBytes = get32 (drop 24 bs)\<rparr>
      else None)"

text \<open>The 24 bytes of version 1 had no corruption counters.\<close>

definition parse_legacy :: "bytes \<Rightarrow> Metadata option" where
  "parse_legacy bs =
     (if get32 bs = kMetadataMagic \<and> get16 (drop 4 bs) = 1 \<and> bs ! 6 < 2 \<and>
         get32 (drop 20 bs) = fnv1a (take 20 bs)
      then Some (empty_metadata\<lparr>activeSegment := (bs ! 6 = 1),
        md_head := (\<lambda>s. if s then unat (get32 (drop 12 bs)) else unat (get32 (drop 8 bs))),
        droppedRecords := get32 (drop 16 bs)\<rparr>)
      else None)"

definition record_header :: "bytes \<Rightarrow> bytes" where
  "record_header payload = put32 kRecordMagic @ put32 (of_nat (length payload)) @ put32 (fnv1a payload)"

definition record_bytes :: "bytes \<Rightarrow> bytes" where
  "record_bytes payload = record_header payload @ payload"

text \<open>The tests every reader makes on the 12 bytes of a record header; the length it holds.\<close>

definition header_ok :: "bytes \<Rightarrow> bool" where
  "header_ok h \<longleftrightarrow> length h = 12 \<and> get32 h = kRecordMagic \<and> get32 (drop 4 h) \<noteq> 0 \<and>
     unat (get32 (drop 4 h)) \<le> kMaximumPayloadBytes"

definition header_length :: "bytes \<Rightarrow> nat" where
  "header_length h = unat (get32 (drop 4 h))"

record Queue =
  q_meta :: Metadata
  q_tail :: "bool \<Rightarrow> nat"
  q_count :: "bool \<Rightarrow> nat"
  q_segmentMaximumBytes :: nat
  q_enabled :: bool
  q_ready :: bool
  q_rejectedRecords :: nat
  q_lastError :: string

definition saturatingAdd :: "u32 \<Rightarrow> u32 \<Rightarrow> u32" where
  "saturatingAdd v increment = (if increment > 0xFFFFFFFF - v then 0xFFFFFFFF else v + increment)"

subsection \<open>Metadata file\<close>

definition loadMetadata :: "'fs lfs_ops \<Rightarrow> 'fs \<Rightarrow> Metadata option" where
  "loadMetadata L fs =
     (if \<not> open_read L kMetadataPath fs then None
      else if f_size L kMetadataPath fs = 32 \<and> length (f_read L kMetadataPath 0 32 fs) = 32
      then parse_metadata (f_read L kMetadataPath 0 32 fs)
      else if \<not> f_seek L kMetadataPath 0 fs \<or> f_size L kMetadataPath fs \<noteq> 24 then None
      else if length (f_read L kMetadataPath 0 24 fs) \<noteq> 24 then None
      else parse_legacy (f_read L kMetadataPath 0 24 fs))"

definition fail :: "string \<Rightarrow> Queue \<Rightarrow> 'fs \<Rightarrow> bool \<times> Queue \<times> 'fs" where
  "fail msg q fs = (False, q\<lparr>q_lastError := msg\<rparr>, fs)"

definition remove_if_exists :: "'fs lfs_ops \<Rightarrow> string \<Rightarrow> 'fs \<Rightarrow> 'fs" where
  "remove_if_exists L p fs = (if lfs_exists L p fs then snd (lfs_remove L p fs) else fs)"

definition saveMetadata :: "'fs lfs_ops \<Rightarrow> Queue \<Rightarrow> 'fs \<Rightarrow> bool \<times> Queue \<times> 'fs" where
  "saveMetadata L q fs =
     (let bs = metadata_bytes (q_meta q);
          fs = remove_if_exists L kMetadataTemporaryPath fs
      in case open_write L kMetadataTemporaryPath fs of
           (False, fs) \<Rightarrow> fail ''Queue metadata write failed'' q fs
         | (True, fs) \<Rightarrow>
             (case f_write L kMetadataTemporaryPath bs fs of (n, fs) \<Rightarrow>
                if n \<noteq> length bs then fail ''Queue metadata write failed'' q fs
                else case lfs_rename L kMetadataTemporaryPath kMetadataPath fs of
                  (False, fs) \<Rightarrow> fail ''Queue metadata commit failed'' q fs
                | (True, fs) \<Rightarrow> (True, q, fs)))"

subsection \<open>Segments\<close>

definition oldestSegment :: "Queue \<Rightarrow> bool" where
  "oldestSegment q =
     (let inactive = (\<not> activeSegment (q_meta q))
      in if q_count q inactive > 0 then inactive else activeSegment (q_meta q))"

definition reset_segment :: "bool \<Rightarrow> Queue \<Rightarrow> Queue" where
  "reset_segment s q = q\<lparr>q_meta := (q_meta q)\<lparr>md_head := (md_head (q_meta q))(s := 0)\<rparr>,
     q_tail := (q_tail q)(s := 0), q_count := (q_count q)(s := 0)\<rparr>"

definition truncateSegment :: "'fs lfs_ops \<Rightarrow> bool \<Rightarrow> Queue \<Rightarrow> 'fs \<Rightarrow> bool \<times> Queue \<times> 'fs" where
  "truncateSegment L s q fs =
     (case open_write L (segmentPath s) fs of
        (False, fs) \<Rightarrow> fail ''Queue segment reset failed'' q fs
      | (True, fs) \<Rightarrow> (True, reset_segment s q, fs))"

definition set_dropped :: "u32 \<Rightarrow> Queue \<Rightarrow> Queue" where
  "set_dropped d q = q\<lparr>q_meta := (q_meta q)\<lparr>droppedRecords := d\<rparr>\<rparr>"

definition rotateSegment :: "'fs lfs_ops \<Rightarrow> Queue \<Rightarrow> 'fs \<Rightarrow> bool \<times> Queue \<times> 'fs" where
  "rotateSegment L q fs =
     (let nxt = (\<not> activeSegment (q_meta q));
          recordsToDrop = q_count q nxt;
          previousDropped = droppedRecords (q_meta q);
          (ok, q, fs) =
            (if 0 < recordsToDrop
             then saveMetadata L (set_dropped (saturatingAdd previousDropped (of_nat recordsToDrop)) q) fs
             else (True, q, fs))
      in if \<not> ok then (False, set_dropped previousDropped q, fs)
         else case truncateSegment L nxt q fs of
           (False, q, fs) \<Rightarrow> (False, q, fs)
         | (True, q, fs) \<Rightarrow>
             saveMetadata L (q\<lparr>q_meta := (q_meta q)\<lparr>activeSegment := nxt\<rparr>\<rparr>) fs)"

subsection \<open>Enqueue\<close>

text \<open>Two writes, header and payload; the second only if the first was complete.\<close>

definition append_record :: "'fs lfs_ops \<Rightarrow> string \<Rightarrow> bytes \<Rightarrow> 'fs \<Rightarrow> bool \<times> 'fs" where
  "append_record L p payload fs =
     (case f_write L p (record_header payload) fs of (n, fs) \<Rightarrow>
        if n \<noteq> length (record_header payload) then (False, fs)
        else case f_write L p payload fs of (k, fs) \<Rightarrow> (k = length payload, fs))"

definition enqueue :: "'fs lfs_ops \<Rightarrow> bytes \<Rightarrow> Queue \<Rightarrow> 'fs \<Rightarrow> bool \<times> Queue \<times> 'fs" where
  "enqueue L payload q fs =
     (if \<not> q_ready q \<or> payload = [] \<or> length payload > kMaximumPayloadBytes
      then fail (if q_ready q then ''Queued payload size invalid'' else ''Store-and-forward unavailable'') q fs
      else let recordBytes = 12 + length payload in
        if recordBytes > q_segmentMaximumBytes q
        then fail ''Queued payload exceeds segment capacity'' q fs
        else let (ok, q, fs) =
                   (if q_tail q (activeSegment (q_meta q)) + recordBytes > q_segmentMaximumBytes q
                    then rotateSegment L q fs else (True, q, fs))
          in if \<not> ok then (False, q, fs)
             else let s = activeSegment (q_meta q) in
               case open_append L (segmentPath s) fs of
                 (False, fs) \<Rightarrow> fail ''Queue segment open failed'' q fs
               | (True, fs) \<Rightarrow>
                   (case append_record L (segmentPath s) payload fs of
                      (False, fs) \<Rightarrow> fail ''Queue append failed'' q fs
                    | (True, fs) \<Rightarrow>
                        (True, q\<lparr>q_tail := (q_tail q)(s := q_tail q s + recordBytes),
                           q_count := (q_count q)(s := q_count q s + 1), q_lastError := []\<rparr>, fs)))"

subsection \<open>Peek\<close>

definition pendingRecords :: "Queue \<Rightarrow> nat" where
  "pendingRecords q = q_count q False + q_count q True"

text \<open>
  The reading loop in chunks of 256 bytes. \<open>peek\<close> also stops at the end of the file
  (\<open>file.available()\<close>), \<open>peekBatch\<close> does not ask.
\<close>

function read_payload :: "'fs lfs_ops \<Rightarrow> bool \<Rightarrow> string \<Rightarrow> nat \<Rightarrow> nat \<Rightarrow> 'fs \<Rightarrow> bytes" where
  "read_payload L ask p pos wanted fs =
     (if wanted = 0 \<or> (ask \<and> f_size L p fs \<le> pos) then []
      else let d = f_read L p pos (min 256 wanted) fs
           in if d = [] then [] else d @ read_payload L ask p (pos + length d) (wanted - length d) fs)"
  by auto
termination by (relation "measure (\<lambda>(L, ask, p, pos, wanted, fs). wanted)") auto

declare read_payload.simps [simp del]

definition peek :: "'fs lfs_ops \<Rightarrow> Queue \<Rightarrow> 'fs \<Rightarrow> bytes option \<times> Queue" where
  "peek L q fs =
     (if \<not> q_ready q \<or> pendingRecords q = 0 then (None, q)
      else let s = oldestSegment q; p = segmentPath s; pos = md_head (q_meta q) s in
        if \<not> open_read L p fs \<or> \<not> f_seek L p pos fs
        then (None, q\<lparr>q_lastError := ''Queue read seek failed''\<rparr>)
        else let h = f_read L p pos 12 fs in
          if \<not> header_ok h then (None, q\<lparr>q_lastError := ''Queue record header invalid''\<rparr>)
          else let payload = read_payload L True p (pos + 12) (header_length h) fs in
            if length payload \<noteq> header_length h \<or> fnv1a payload \<noteq> get32 (drop 8 h)
            then (None, q\<lparr>q_lastError := ''Queue record checksum invalid''\<rparr>)
            else (Some payload, q\<lparr>q_lastError := []\<rparr>))"

subsection \<open>Batches\<close>

text \<open>
  The records of one segment, at most \<open>n\<close> of them: the payloads read, the bytes they add to the
  batch (a separator each), and how the loop ended: \<open>None\<close> when it ran out of records to take,
  \<open>Some\<close> with the new error text when it returned early (empty for the byte limit, which leaves
  the error text alone).
\<close>

fun batch_segment ::
  "'fs lfs_ops \<Rightarrow> string \<Rightarrow> nat \<Rightarrow> nat \<Rightarrow> nat \<Rightarrow> nat \<Rightarrow> 'fs \<Rightarrow> bytes list \<times> nat \<times> string option" where
  "batch_segment L p maximumBytes 0 pos used fs = ([], used, None)"
| "batch_segment L p maximumBytes (Suc n) pos used fs =
     (let h = f_read L p pos 12 fs in
      if \<not> header_ok h then ([], used, Some ''Queue batch header invalid'')
      else if used + header_length h + 1 > maximumBytes then ([], used, Some [])
      else let payload = read_payload L False p (pos + 12) (header_length h) fs in
        if length payload \<noteq> header_length h \<or> fnv1a payload \<noteq> get32 (drop 8 h)
        then ([], used, Some ''Queue batch checksum invalid'')
        else case batch_segment L p maximumBytes n (pos + 12 + length payload)
               (used + length payload + 1) fs of
          (ps, t, e) \<Rightarrow> (payload # ps, t, e))"

text \<open>One pass of the outer loop: the records of segment \<open>s\<close> that still fit, after \<open>got\<close> of them.\<close>

definition seg_opens :: "'fs lfs_ops \<Rightarrow> Queue \<Rightarrow> 'fs \<Rightarrow> bool \<Rightarrow> bool" where
  "seg_opens L q fs s \<longleftrightarrow>
     open_read L (segmentPath s) fs \<and> f_seek L (segmentPath s) (md_head (q_meta q) s) fs"

definition batch_pass ::
  "'fs lfs_ops \<Rightarrow> nat \<Rightarrow> nat \<Rightarrow> Queue \<Rightarrow> 'fs \<Rightarrow> bool \<Rightarrow> nat \<Rightarrow> nat \<Rightarrow> bytes list \<times> nat \<times> string option" where
  "batch_pass L maximumRecords maximumBytes q fs s got used =
     batch_segment L (segmentPath s) maximumBytes (min (q_count q s) (maximumRecords - got))
       (md_head (q_meta q) s) used fs"

text \<open>After the loop, and the three ways out of it.\<close>

definition batch_done :: "Queue \<Rightarrow> bytes list \<Rightarrow> bytes list \<times> Queue" where
  "batch_done q ps = (ps, if ps = [] then q else q\<lparr>q_lastError := []\<rparr>)"

definition batch_early :: "Queue \<Rightarrow> bytes list \<Rightarrow> string \<Rightarrow> bytes list \<times> Queue" where
  "batch_early q ps e = (ps, if e = [] then q else q\<lparr>q_lastError := e\<rparr>)"

definition batch_seek_error :: "Queue \<Rightarrow> bytes list \<Rightarrow> bytes list \<times> Queue" where
  "batch_seek_error q ps = batch_done (q\<lparr>q_lastError := ''Queue batch seek failed''\<rparr>) ps"

definition peekBatch :: "'fs lfs_ops \<Rightarrow> nat \<Rightarrow> nat \<Rightarrow> Queue \<Rightarrow> 'fs \<Rightarrow> bytes list \<times> Queue" where
  "peekBatch L maximumRecords maximumBytes q fs =
     (if \<not> q_ready q \<or> pendingRecords q = 0 \<or> maximumRecords = 0 then ([], q)
      else let m = min maximumRecords 8; first = oldestSegment q; other = (\<not> first) in
        if q_count q first \<noteq> 0 \<and> \<not> seg_opens L q fs first then batch_seek_error q []
        else case (if q_count q first = 0 then ([], 0, None)
                   else batch_pass L m maximumBytes q fs first 0 0) of
          (ps, used, Some e) \<Rightarrow> batch_early q ps e
        | (ps, used, None) \<Rightarrow>
            if length ps \<ge> m \<or> q_count q other = 0 then batch_done q ps
            else if \<not> seg_opens L q fs other then batch_seek_error q ps
            else case batch_pass L m maximumBytes q fs other (length ps) used of
              (ps2, used, Some e) \<Rightarrow> batch_early q (ps @ ps2) e
            | (ps2, used, None) \<Rightarrow> batch_done q (ps @ ps2))"

subsection \<open>Pop\<close>

definition advance_head :: "bool \<Rightarrow> nat \<Rightarrow> bool \<Rightarrow> Queue \<Rightarrow> Queue" where
  "advance_head s n discarded q =
     (let m = q_meta q in
      q\<lparr>q_meta := m\<lparr>md_head := (md_head m)(s := md_head m s + n),
           droppedRecords := (if discarded then saturatingAdd (droppedRecords m) 1 else droppedRecords m)\<rparr>,
        q_count := (q_count q)(s := q_count q s - 1)\<rparr>)"

text \<open>The acknowledgement of the record at the head is committed before its segment is reclaimed.\<close>

definition pop_commit :: "'fs lfs_ops \<Rightarrow> bool \<Rightarrow> nat \<Rightarrow> bool \<Rightarrow> Queue \<Rightarrow> 'fs \<Rightarrow> bool \<times> Queue \<times> 'fs" where
  "pop_commit L s n discarded q fs =
     (case saveMetadata L (advance_head s (12 + n) discarded q) fs of
        (False, q', fs) \<Rightarrow> (False, q\<lparr>q_lastError := q_lastError q'\<rparr>, fs)
      | (True, q', fs) \<Rightarrow>
          if q_count q' s = 0
          then (case truncateSegment L s q' fs of
                  (False, q', fs) \<Rightarrow> (False, q', fs)
                | (True, q', fs) \<Rightarrow>
                    (case saveMetadata L q' fs of
                       (False, q', fs) \<Rightarrow> (False, q', fs)
                     | (True, q', fs) \<Rightarrow> (True, q'\<lparr>q_lastError := []\<rparr>, fs)))
          else (True, q'\<lparr>q_lastError := []\<rparr>, fs))"

definition pop :: "'fs lfs_ops \<Rightarrow> bool \<Rightarrow> Queue \<Rightarrow> 'fs \<Rightarrow> bool \<times> Queue \<times> 'fs" where
  "pop L discarded q fs =
     (if \<not> q_ready q \<or> pendingRecords q = 0 then (False, q, fs)
      else let s = oldestSegment q; p = segmentPath s; pos = md_head (q_meta q) s in
        if \<not> open_read L p fs \<or> \<not> f_seek L p pos fs then fail ''Queue pop seek failed'' q fs
        else let h = f_read L p pos 12 fs in
          if \<not> header_ok h then fail ''Queue pop header invalid'' q fs
          else pop_commit L s (header_length h) discarded q fs)"

definition popIfMatches :: "'fs lfs_ops \<Rightarrow> bytes \<Rightarrow> bool \<Rightarrow> Queue \<Rightarrow> 'fs \<Rightarrow> bool \<times> Queue \<times> 'fs" where
  "popIfMatches L submitted discarded q fs =
     (case peek L q fs of
        (None, q) \<Rightarrow> (pendingRecords q = 0, q, fs)
      | (Some current, q) \<Rightarrow> if current \<noteq> submitted then (True, q, fs) else pop L discarded q fs)"

definition pendingBytes :: "Queue \<Rightarrow> nat" where
  "pendingBytes q = (q_tail q False - md_head (q_meta q) False) + (q_tail q True - md_head (q_meta q) True)"

definition capacityBytes :: "Queue \<Rightarrow> nat" where
  "capacityBytes q = q_segmentMaximumBytes q * 2"

definition droppedRecordsKnown :: "Queue \<Rightarrow> bool" where
  "droppedRecordsKnown q \<longleftrightarrow> q_ready q \<and> md_reserved (q_meta q) = 0"

subsection \<open>Recovery\<close>

text \<open>\<open>file.read()\<close>, one byte at a time, until a read fails.\<close>

fun read_bytes :: "'fs lfs_ops \<Rightarrow> string \<Rightarrow> nat \<Rightarrow> nat \<Rightarrow> 'fs \<Rightarrow> bytes" where
  "read_bytes L p pos 0 fs = []"
| "read_bytes L p pos (Suc n) fs =
     (case f_read L p pos 1 fs of [] \<Rightarrow> [] | b # _ \<Rightarrow> b # read_bytes L p (pos + 1) n fs)"

function scan_from :: "'fs lfs_ops \<Rightarrow> string \<Rightarrow> nat \<Rightarrow> nat \<Rightarrow> nat \<Rightarrow> 'fs \<Rightarrow> nat \<times> nat" where
  "scan_from L p fileSize offset cnt fs =
     (if offset + 12 \<le> fileSize \<and> f_seek L p offset fs
      then let h = f_read L p offset 12 fs in
        if \<not> header_ok h \<or> offset + 12 + header_length h > fileSize then (offset, cnt)
        else let bs = read_bytes L p (offset + 12) (header_length h) fs;
                 v = (if length bs = header_length h then fnv1a bs else 0) in
          if v \<noteq> get32 (drop 8 h) then (offset, cnt)
          else scan_from L p fileSize (offset + 12 + header_length h) (cnt + 1) fs
      else (offset, cnt))"
  by auto
termination by (relation "measure (\<lambda>(L, p, fileSize, offset, cnt, fs). fileSize - offset)") auto

declare scan_from.simps [simp del]

text \<open>Copying \<open>remaining\<close> bytes from one file, from a position, to the end of another.\<close>

function copy_range ::
  "'fs lfs_ops \<Rightarrow> string \<Rightarrow> nat \<Rightarrow> string \<Rightarrow> nat \<Rightarrow> 'fs \<Rightarrow> bool \<times> 'fs" where
  "copy_range L src pos dst remaining fs =
     (if remaining = 0 then (True, fs)
      else let chunk = min remaining 256; d = f_read L src pos chunk fs in
        if length d \<noteq> chunk then (False, fs)
        else case f_write L dst d fs of (n, fs') \<Rightarrow>
          if n \<noteq> chunk then (False, fs') else copy_range L src (pos + chunk) dst (remaining - chunk) fs')"
  by auto
termination by (relation "measure (\<lambda>(L, src, pos, dst, remaining, fs). remaining)") auto

declare copy_range.simps [simp del]

definition quarantine_tail :: "'fs lfs_ops \<Rightarrow> bool \<Rightarrow> nat \<Rightarrow> nat \<Rightarrow> 'fs \<Rightarrow> bool \<times> 'fs" where
  "quarantine_tail L s tail corruptBytes fs =
     (let src = segmentPath s;
          source = open_read L src fs;
          fs = remove_if_exists L kSegmentRepairPath fs;
          (repair, fs) = open_write L kSegmentRepairPath fs;
          (ok, fs) = (if source \<and> repair then copy_range L src 0 kSegmentRepairPath tail fs else (False, fs));
          (quarantine, fs) = open_append L (quarantinePath s) fs;
          (ok, fs) = (if ok \<and> 0 < corruptBytes
                      then (if quarantine then copy_range L src tail (quarantinePath s) corruptBytes fs
                            else (False, fs))
                      else (ok, fs))
      in if \<not> ok then (False, fs) else lfs_rename L kSegmentRepairPath src fs)"

definition scanSegment :: "'fs lfs_ops \<Rightarrow> bool \<Rightarrow> Queue \<Rightarrow> 'fs \<Rightarrow> bool \<times> Queue \<times> 'fs" where
  "scanSegment L s q fs =
     (let p = segmentPath s in
      if \<not> open_read L p fs
      then (case open_write L p fs of
              (False, fs) \<Rightarrow> fail ''Queue segment create failed'' q fs
            | (True, fs) \<Rightarrow> (True, reset_segment s q, fs))
      else let fileSize = f_size L p fs;
               start = min (md_head (q_meta q) s) fileSize;
               (tail, cnt) = scan_from L p fileSize start 0 fs;
               q = q\<lparr>q_meta := (q_meta q)\<lparr>md_head := (md_head (q_meta q))(s := start)\<rparr>,
                     q_tail := (q_tail q)(s := tail), q_count := (q_count q)(s := cnt)\<rparr>;
               (ok, q, fs) =
                 (if tail < fileSize
                  then (case quarantine_tail L s tail (fileSize - tail) fs of
                          (False, fs) \<Rightarrow> fail ''Queue tail repair failed'' q fs
                        | (True, fs) \<Rightarrow>
                            (True, q\<lparr>q_meta := (q_meta q)\<lparr>corruptionEvents := corruptionEvents (q_meta q) + 1,
                                quarantinedBytes := quarantinedBytes (q_meta q) + of_nat (fileSize - tail)\<rparr>,
                              q_lastError := ''Queue tail corruption quarantined''\<rparr>, fs))
                  else (True, q, fs))
           in if \<not> ok then (False, q, fs)
              else if cnt = 0 then truncateSegment L s q fs
              else (True, q, fs))"

subsection \<open>Start\<close>

text \<open>\<open>BlankPartition.h\<close>: every byte of a partition is 0xff, read in pieces of 256.\<close>

function blank_from :: "(nat \<Rightarrow> nat \<Rightarrow> bytes option) \<Rightarrow> nat \<Rightarrow> nat \<Rightarrow> bool" where
  "blank_from read offset extent =
     (if offset < extent
      then let n = (if extent - offset < 256 then extent - offset else 256) in
        case read offset n of None \<Rightarrow> False
        | Some bs \<Rightarrow> list_all (\<lambda>b. b = 0xff) (take n bs) \<and> blank_from read (offset + n) extent
      else True)"
  by auto
termination by (relation "measure (\<lambda>(read, offset, extent). extent - offset)") auto

declare blank_from.simps [simp del]

definition blank_verify :: "nat \<Rightarrow> (nat \<Rightarrow> nat \<Rightarrow> bytes option) \<Rightarrow> bool" where
  "blank_verify extent read \<longleftrightarrow> extent \<noteq> 0 \<and> blank_from read 0 extent"

text \<open>
  The partition table and the raw partition reads of the ESP-IDF, as parameters: the partition of
  a label with its extent, and the bytes at an offset.
\<close>

record esp_flash =
  find_partition :: "string \<Rightarrow> nat option"
  partition_read :: "string \<Rightarrow> nat \<Rightarrow> nat \<Rightarrow> bytes option"

definition mount :: "esp_flash \<Rightarrow> 'fs lfs_ops \<Rightarrow> 'fs \<Rightarrow> string option \<times> 'fs" where
  "mount P L fs =
     (let label = (if find_partition P ''littlefs'' \<noteq> None then ''littlefs'' else ''spiffs'') in
      case find_partition P label of
        None \<Rightarrow> (Some ''Filesystem partition missing'', fs)
      | Some extent \<Rightarrow>
          (case lfs_begin L label fs of
             (True, fs) \<Rightarrow> (None, fs)
           | (False, fs) \<Rightarrow>
               if \<not> blank_verify extent (partition_read P label)
               then (Some ''LittleFS mount failed; nonblank or unreadable data preserved'', fs)
               else (case lfs_format L fs of
                       (False, fs) \<Rightarrow> (Some ''Blank LittleFS initialization failed'', fs)
                     | (True, fs) \<Rightarrow>
                         (case lfs_begin L label fs of
                            (False, fs) \<Rightarrow> (Some ''Blank LittleFS initialization failed'', fs)
                          | (True, fs) \<Rightarrow> (None, fs)))))"

text \<open>Metadata that cannot be loaded are rebuilt from what is on the volume.\<close>

definition count_quarantine :: "'fs lfs_ops \<Rightarrow> 'fs \<Rightarrow> bool \<Rightarrow> Metadata \<Rightarrow> Metadata" where
  "count_quarantine L fs s m =
     (let p = quarantinePath s in
      if open_read L p fs \<and> f_size L p fs > 0
      then m\<lparr>corruptionEvents := corruptionEvents m + 1,
             quarantinedBytes := quarantinedBytes m + of_nat (f_size L p fs)\<rparr> else m)"

definition rebuild_metadata :: "'fs lfs_ops \<Rightarrow> 'fs \<Rightarrow> Metadata" where
  "rebuild_metadata L fs =
     count_quarantine L fs True (count_quarantine L fs False
       (empty_metadata\<lparr>md_reserved :=
          (if lfs_exists L kMetadataPath fs \<or> lfs_exists L (segmentPath False) fs \<or>
              lfs_exists L (segmentPath True) fs \<or> lfs_exists L (quarantinePath False) fs \<or>
              lfs_exists L (quarantinePath True) fs then 1 else 0)\<rparr>))"

text \<open>The volume is mounted and large enough: load, scan both segments, save.\<close>

definition recover :: "'fs lfs_ops \<Rightarrow> Queue \<Rightarrow> 'fs \<Rightarrow> bool \<times> Queue \<times> 'fs" where
  "recover L q fs =
     (let fs = remove_if_exists L kMetadataTemporaryPath fs;
          fs = remove_if_exists L kSegmentRepairPath fs;
          q = q\<lparr>q_meta := (case loadMetadata L fs of Some m \<Rightarrow> m | None \<Rightarrow> rebuild_metadata L fs)\<rparr>
      in case scanSegment L False q fs of
           (False, q, fs) \<Rightarrow> (False, q, fs)
         | (True, q, fs) \<Rightarrow>
             (case scanSegment L True q fs of
                (False, q, fs) \<Rightarrow> (False, q, fs)
              | (True, q, fs) \<Rightarrow> saveMetadata L q fs))"

definition rejected_slot_path :: "nat \<Rightarrow> string" where
  "rejected_slot_path slot = snprintf 40 (''/upload-rejected-'' @ fmt_u 2 slot @ ''.bin'')"

definition kRejectedSlots :: nat where "kRejectedSlots = 16"

definition rejectedSlotPresent :: "'fs lfs_ops \<Rightarrow> nat \<Rightarrow> Queue \<Rightarrow> 'fs \<Rightarrow> bool" where
  "rejectedSlotPresent L slot q fs \<longleftrightarrow>
     q_ready q \<and> slot < kRejectedSlots \<and> lfs_exists L (rejected_slot_path slot) fs"

definition begin_queue ::
  "esp_flash \<Rightarrow> 'fs lfs_ops \<Rightarrow> bool \<Rightarrow> nat \<Rightarrow> Queue \<Rightarrow> 'fs \<Rightarrow> bool \<times> Queue \<times> 'fs" where
  "begin_queue P L enabled maximumBytes q fs =
     (let q = q\<lparr>q_enabled := enabled, q_ready := False, q_rejectedRecords := 0, q_lastError := []\<rparr> in
      if \<not> enabled then (True, q\<lparr>q_lastError := ''Onboard store-and-forward disabled''\<rparr>, fs)
      else case mount P L fs of
        (Some e, fs) \<Rightarrow> fail e q fs
      | (None, fs) \<Rightarrow>
          let extent = lfs_totalBytes L fs in
          if extent \<le> kFilesystemReserveBytes + 24 then fail ''LittleFS partition too small'' q fs
          else let q = q\<lparr>q_segmentMaximumBytes := min maximumBytes (extent - kFilesystemReserveBytes) div 2\<rparr> in
            if q_segmentMaximumBytes q \<le> 13 then fail ''Store-and-forward capacity too small'' q fs
            else case recover L q fs of
              (False, q, fs) \<Rightarrow> (False, q, fs)
            | (True, q, fs) \<Rightarrow>
                let q = q\<lparr>q_ready := True\<rparr> in
                (True, q\<lparr>q_rejectedRecords :=
                   length (filter (\<lambda>slot. rejectedSlotPresent L slot q fs) [0..<kRejectedSlots])\<rparr>, fs))"

definition new_queue :: Queue where
  "new_queue = \<lparr>q_meta = empty_metadata, q_tail = (\<lambda>s. 0), q_count = (\<lambda>s. 0),
     q_segmentMaximumBytes = 0, q_enabled = False, q_ready = False, q_rejectedRecords = 0, q_lastError = []\<rparr>"

end
