(* ===== verification/StoreForwardRefine.thy ===== *)
theory StoreForwardRefine
  imports StoreForwardQueue
begin

section \<open>The durable queue as a list of payloads\<close>

text \<open>
  The abstract view of the store-and-forward queue is the list of pending payloads. This theory
  relates it to the bytes in the two segment files and shows what every operation of
  StoreForwardQueue does to the list, for any file system that keeps the documented laws.
\<close>

subsection \<open>Records\<close>

definition record_ok :: "bytes \<Rightarrow> bool" where
  "record_ok p \<longleftrightarrow> p \<noteq> [] \<and> length p \<le> kMaximumPayloadBytes"

definition records :: "bytes list \<Rightarrow> bytes" where
  "records ps = concat (map record_bytes ps)"

lemma records_simps [simp]:
  "records [] = []" "records (p # ps) = record_bytes p @ records ps" "records (ps @ qs) = records ps @ records qs"
  by (simp_all add: records_def)

lemma length_record_header [simp]: "length (record_header p) = 12"
  by (simp add: record_header_def)

lemma length_record_bytes [simp]: "length (record_bytes p) = 12 + length p"
  by (simp add: record_bytes_def)

lemma record_header_fields:
  assumes "record_ok p"
  shows "header_ok (record_header p)" "header_length (record_header p) = length p"
    "get32 (drop 8 (record_header p)) = fnv1a p"
proof -
  have "length p < 4294967296" using assms by (simp add: record_ok_def kMaximumPayloadBytes_def)
  then have n: "unat (of_nat (length p) :: u32) = length p"
    by (simp add: unat_of_nat take_bit_nat_eq_self)
  have d: "drop 4 (record_header p) = put32 (of_nat (length p)) @ put32 (fnv1a p)"
    "drop 8 (record_header p) = put32 (fnv1a p)" by (simp_all add: record_header_def)
  have "(of_nat (length p) :: u32) \<noteq> 0" using n assms by (metis length_0_conv record_ok_def unat_0)
  then show "header_ok (record_header p)"
    using assms n d(1) by (simp add: header_ok_def record_ok_def get32_put32)
      (simp add: record_header_def get32_put32)
  show "header_length (record_header p) = length p" using n d by (simp add: header_length_def get32_put32)
  show "get32 (drop 8 (record_header p)) = fnv1a p" using d by (simp add: get32_put32_Nil)
qed

lemma length_metadata_body [simp]: "length (metadata_body m) = 28"
  by (simp add: metadata_body_def)

lemma length_metadata_bytes [simp]: "length (metadata_bytes m) = 32"
  by (simp add: metadata_bytes_def)

text \<open>The metadata come back from their bytes, as long as the positions fit in 32 bits.\<close>

lemma parse_metadata_bytes:
  assumes "md_head m False < 4294967296" "md_head m True < 4294967296"
  shows "parse_metadata (metadata_bytes m) = Some m"
proof -
  let ?r = "put32 (fnv1a (metadata_body m))"
  have d: "drop 4 (metadata_bytes m) = put16 kMetadataVersion @ drop 6 (metadata_bytes m)"
    "drop 8 (metadata_bytes m) = put32 (of_nat (md_head m False)) @ drop 12 (metadata_bytes m)"
    "drop 12 (metadata_bytes m) = put32 (of_nat (md_head m True)) @ drop 16 (metadata_bytes m)"
    "drop 16 (metadata_bytes m) = put32 (droppedRecords m) @ drop 20 (metadata_bytes m)"
    "drop 20 (metadata_bytes m) = put32 (corruptionEvents m) @ drop 24 (metadata_bytes m)"
    "drop 24 (metadata_bytes m) = put32 (quarantinedBytes m) @ drop 28 (metadata_bytes m)"
    "drop 28 (metadata_bytes m) = ?r"
    "metadata_bytes m = put32 kMetadataMagic @ drop 4 (metadata_bytes m)"
    "metadata_bytes m ! 6 = of_bool (activeSegment m)" "metadata_bytes m ! 7 = md_reserved m"
    by (simp_all add: metadata_bytes_def metadata_body_def nth_append)
  have g: "get32 (metadata_bytes m) = kMetadataMagic" "get16 (drop 4 (metadata_bytes m)) = kMetadataVersion"
    "get32 (drop 8 (metadata_bytes m)) = of_nat (md_head m False)"
    "get32 (drop 12 (metadata_bytes m)) = of_nat (md_head m True)"
    "get32 (drop 16 (metadata_bytes m)) = droppedRecords m"
    "get32 (drop 20 (metadata_bytes m)) = corruptionEvents m"
    "get32 (drop 24 (metadata_bytes m)) = quarantinedBytes m"
    "get32 (drop 28 (metadata_bytes m)) = fnv1a (metadata_body m)"
    by (subst d; simp only: get32_put32 get16_put16 get32_put32_Nil)+
  have t: "take 28 (metadata_bytes m) = metadata_body m" by (simp add: metadata_bytes_def)
  have h: "(\<lambda>s. if s then unat (get32 (drop 12 (metadata_bytes m))) else unat (get32 (drop 8 (metadata_bytes m))))
      = md_head m"
    using assms unfolding g by (auto simp: unat_of_nat take_bit_nat_eq_self)
  show ?thesis
    unfolding parse_metadata_def h by (cases "activeSegment m") (simp_all add: g(1,2,5-8) t d(9,10))
qed

subsection \<open>The relation\<close>

definition seg_ok :: "(string \<Rightarrow> bytes option) \<Rightarrow> Queue \<Rightarrow> bool \<Rightarrow> bytes list \<Rightarrow> bool" where
  "seg_ok F q s ps \<longleftrightarrow>
     (\<exists>gone. F (segmentPath s) = Some (gone @ records ps) \<and> length gone = md_head (q_meta q) s) \<and>
     list_all record_ok ps \<and> q_count q s = length ps \<and>
     q_tail q s = md_head (q_meta q) s + length (records ps) \<and> q_tail q s \<le> q_segmentMaximumBytes q"

text \<open>
  \<open>holds F q old new\<close>: the volume and the state in memory hold the payloads \<open>old\<close> in the
  inactive segment and \<open>new\<close> in the active one; nothing follows the last record of a segment.
\<close>

definition holds :: "(string \<Rightarrow> bytes option) \<Rightarrow> Queue \<Rightarrow> bytes list \<Rightarrow> bytes list \<Rightarrow> bool" where
  "holds F q old new \<longleftrightarrow> q_ready q \<and> q_segmentMaximumBytes q < 4294967296 \<and>
     seg_ok F q (\<not> activeSegment (q_meta q)) old \<and> seg_ok F q (activeSegment (q_meta q)) new"

lemma holds_pending: "holds F q old new \<Longrightarrow> pendingRecords q = length (old @ new)"
  by (cases "activeSegment (q_meta q)") (auto simp: holds_def seg_ok_def pendingRecords_def)

lemma holds_oldest:
  assumes "holds F q old new" "old @ new = p # ps"
  shows "seg_ok F q (oldestSegment q) (if old \<noteq> [] then old else new)"
    "hd (if old \<noteq> [] then old else new) = p" "(if old \<noteq> [] then old else new) \<noteq> []"
proof -
  have "q_count q (\<not> activeSegment (q_meta q)) = length old" using assms(1) by (simp add: holds_def seg_ok_def)
  then show "seg_ok F q (oldestSegment q) (if old \<noteq> [] then old else new)"
    using assms(1) by (auto simp: oldestSegment_def Let_def holds_def)
  show "hd (if old \<noteq> [] then old else new) = p" "(if old \<noteq> [] then old else new) \<noteq> []"
    using assms(2) by (cases old; auto)+
qed

lemma paths [simp]:
  "segmentPath s \<noteq> kMetadataPath" "kMetadataPath \<noteq> segmentPath s" "segmentPath s \<noteq> kMetadataTemporaryPath"
  "segmentPath s \<noteq> kSegmentRepairPath" "segmentPath s \<noteq> quarantinePath t"
  "kMetadataPath \<noteq> kMetadataTemporaryPath" "kMetadataTemporaryPath \<noteq> kMetadataPath"
  "segmentPath s = segmentPath t \<longleftrightarrow> s = t"
  by (cases s; cases t; simp add: segmentPath_def kMetadataPath_def kMetadataTemporaryPath_def
      kSegmentRepairPath_def quarantinePath_def)+

lemma holds_head:
  assumes "holds F q old new" "old @ new = p # ps"
  obtains ys where "seg_ok F q (oldestSegment q) (p # ys)"
  using holds_oldest [OF assms] by (cases "if old \<noteq> [] then old else new") auto

text \<open>The error text plays no part.\<close>

lemma seg_ok_error [simp]: "seg_ok F (q\<lparr>q_lastError := e\<rparr>) s ps \<longleftrightarrow> seg_ok F q s ps"
  by (simp add: seg_ok_def)

lemma holds_error [simp]: "holds F (q\<lparr>q_lastError := e\<rparr>) old new \<longleftrightarrow> holds F q old new"
  by (simp add: holds_def)

lemma seg_ok_files:
  "F' (segmentPath s) = F (segmentPath s) \<Longrightarrow> seg_ok F' q s ps \<longleftrightarrow> seg_ok F q s ps"
  by (simp add: seg_ok_def)

text \<open>Operations that touch no segment file.\<close>

definition keeps_segments :: "(string \<Rightarrow> bytes option) \<Rightarrow> (string \<Rightarrow> bytes option) \<Rightarrow> bool" where
  "keeps_segments F F' \<longleftrightarrow> (\<forall>s. F' (segmentPath s) = F (segmentPath s))"

lemma keeps_holds: "keeps_segments F F' \<Longrightarrow> holds F' q old new \<longleftrightarrow> holds F q old new"
  by (simp add: keeps_segments_def holds_def seg_ok_def)

text \<open>The metadata on the volume are the ones in memory.\<close>

definition stored :: "(string \<Rightarrow> bytes option) \<Rightarrow> Queue \<Rightarrow> bool" where
  "stored F q \<longleftrightarrow> F kMetadataPath = Some (metadata_bytes (q_meta q))"

lemma stored_error [simp]: "stored F (q\<lparr>q_lastError := e\<rparr>) \<longleftrightarrow> stored F q"
  by (simp add: stored_def)

context flash
begin

lemma remove_if_exists_law:
  "files (remove_if_exists L p fs) = files fs \<or> files (remove_if_exists L p fs) = (files fs)(p := None)"
proof -
  obtain b fs' where r: "lfs_remove L p fs = (b, fs')" by fastforce
  from remove_law [OF r] show ?thesis by (cases b) (auto simp: remove_if_exists_def r)
qed

lemma saveMetadata_law:
  assumes "saveMetadata L q fs = (b, q', fs')"
  shows "\<exists>e. q' = q\<lparr>q_lastError := e\<rparr>" "b \<Longrightarrow> q' = q"
    "\<forall>p. p \<noteq> kMetadataPath \<and> p \<noteq> kMetadataTemporaryPath \<longrightarrow> files fs' p = files fs p"
    "files fs' kMetadataPath = (if b then Some (metadata_bytes (q_meta q)) else files fs kMetadataPath)"
proof -
  let ?t = kMetadataTemporaryPath
  let ?bs = "metadata_bytes (q_meta q)"
  define f0 where "f0 = remove_if_exists L ?t fs"
  obtain o1 f1 where w: "open_write L ?t f0 = (o1, f1)" by fastforce
  obtain n f2 where k: "f_write L ?t ?bs f1 = (n, f2)" by fastforce
  obtain r f3 where m: "lfs_rename L ?t kMetadataPath f2 = (r, f3)" by fastforce
  have eq: "saveMetadata L q fs =
      (if \<not> o1 then fail ''Queue metadata write failed'' q f1
       else if n \<noteq> length ?bs then fail ''Queue metadata write failed'' q f2
       else if \<not> r then fail ''Queue metadata commit failed'' q f3 else (True, q, f3))"
    by (simp add: saveMetadata_def f0_def [symmetric] Let_def w k m split: bool.split)
  have 0: "files f0 p = files fs p" if "p \<noteq> ?t" for p
    using remove_if_exists_law [of ?t fs] that by (auto simp: f0_def)
  note 1 = open_write_law [OF w]
  have 2: "o1 \<Longrightarrow> files f2 = (files f1)(?t := Some (take n ?bs))" using write_law [OF _ k] 1 by simp
  note 3 = rename_law [OF m]
  show "\<exists>e. q' = q\<lparr>q_lastError := e\<rparr>" "b \<Longrightarrow> q' = q"
    using assms unfolding eq by (auto simp: fail_def split: if_splits intro: exI [of _ "q_lastError q"])
  show "\<forall>p. p \<noteq> kMetadataPath \<and> p \<noteq> kMetadataTemporaryPath \<longrightarrow> files fs' p = files fs p"
    using assms 0 1 2 3 unfolding eq by (auto simp: fail_def split: if_splits)
  show "files fs' kMetadataPath = (if b then Some (metadata_bytes (q_meta q)) else files fs kMetadataPath)"
    using assms 0 1 2 3 unfolding eq by (auto simp: fail_def split: if_splits)
qed

lemma saveMetadata_stored:
  "saveMetadata L q fs = (True, q', fs') \<Longrightarrow> stored (files fs') q'"
  using saveMetadata_law(2,4) by (fastforce simp: stored_def)

lemma saveMetadata_keeps:
  assumes "saveMetadata L q fs = (b, q', fs')"
  shows "keeps_segments (files fs) (files fs')"
  using saveMetadata_law(3) [OF assms] by (simp add: keeps_segments_def)

lemma truncate_law:
  assumes "truncateSegment L s q fs = (b, q', fs')"
  shows "if b then q' = reset_segment s q \<and> files fs' = (files fs)(segmentPath s := Some [])
    else (\<exists>e. q' = q\<lparr>q_lastError := e\<rparr>) \<and> files fs' = files fs"
proof -
  obtain o1 f1 where w: "open_write L (segmentPath s) fs = (o1, f1)" by fastforce
  show ?thesis using assms open_write_law [OF w]
    by (auto simp: truncateSegment_def w fail_def split: bool.splits)
qed

lemma append_record_law:
  assumes "append_record L p payload fs = (b, fs')" "files fs p = Some c"
  shows "\<exists>k. files fs' = (files fs)(p := Some (c @ take k (record_bytes payload))) \<and>
    (b \<longrightarrow> files fs' = (files fs)(p := Some (c @ record_bytes payload)))"
proof -
  obtain n f1 where w: "f_write L p (record_header payload) fs = (n, f1)" by fastforce
  obtain k f2 where v: "f_write L p payload f1 = (k, f2)" by fastforce
  note 1 = write_law [OF assms(2) w]
  have 2: "k \<le> length payload \<and> files f2 = (files f1)(p := Some (c @ take n (record_header payload) @ take k payload))"
    using write_law [OF _ v] 1 by simp
  show ?thesis
  proof (cases "n = 12")
    case False
    then have "files fs' = (files fs)(p := Some (c @ take n (record_bytes payload)))" "\<not> b"
      using assms(1) 1 by (simp_all add: append_record_def w record_bytes_def)
    then show ?thesis by blast
  next
    case True
    then have f: "b = (k = length payload)" "fs' = f2" using assms(1) by (simp_all add: append_record_def w v)
    then have "files fs' = (files fs)(p := Some (c @ take (12 + k) (record_bytes payload)))"
      using 1 2 True by (simp add: record_bytes_def)
    moreover have "b \<Longrightarrow> take (12 + k) (record_bytes payload) = record_bytes payload" using f by simp
    ultimately show ?thesis by metis
  qed
qed

end

subsection \<open>Peek\<close>

lemma records_at:
  assumes "length gone = pos"
  shows "take 12 (drop pos (gone @ records (x # xs))) = record_header x"
    "take (length x) (drop (pos + 12) (gone @ records (x # xs))) = x"
  using assms by (simp_all add: record_bytes_def)

context flash
begin

lemma read_payload_law:
  assumes "open_read L p fs" "files fs p = Some c"
  shows "\<exists>m. read_payload L ask p pos wanted fs = take m (take wanted (drop pos c))"
proof (induction wanted arbitrary: pos rule: less_induct)
  case (less wanted)
  let ?d = "f_read L p pos (min 256 wanted) fs"
  obtain m where m: "?d = take m (take (min 256 wanted) (drop pos c))"
    using read_law [OF assms] by blast
  show ?case
  proof (cases "wanted = 0 \<or> (ask \<and> f_size L p fs \<le> pos) \<or> ?d = []")
    case True
    then have "read_payload L ask p pos wanted fs = []"
      by (subst read_payload.simps) (auto simp: Let_def)
    then show ?thesis by (metis take0)
  next
    case False
    then have eq: "read_payload L ask p pos wanted fs =
        ?d @ read_payload L ask p (pos + length ?d) (wanted - length ?d) fs"
      by (subst read_payload.simps) (auto simp: Let_def)
    have len: "length ?d \<le> wanted" "0 < length ?d" using False unfolding m by auto
    then have "wanted - length ?d < wanted" by linarith
    from less [OF this] obtain k where
      k: "read_payload L ask p (pos + length ?d) (wanted - length ?d) fs =
        take k (take (wanted - length ?d) (drop (pos + length ?d) c))" by blast
    have d: "?d = take (length ?d) (drop pos c)" unfolding m by (simp add: min_def)
    have "read_payload L ask p pos wanted fs =
        take (length ?d) (drop pos c) @ take (min k (wanted - length ?d)) (drop (length ?d) (drop pos c))"
      using eq k d by (simp add: add.commute)
    also have "\<dots> = take (length ?d + min k (wanted - length ?d)) (drop pos c)"
      by (simp add: take_add)
    also have "\<dots> = take (length ?d + k) (take wanted (drop pos c))"
      using len(1) by (simp add: min_def)
    finally show ?thesis by blast
  qed
qed

lemma read_payload_full:
  assumes "open_read L p fs" "files fs p = Some c" "length (read_payload L ask p pos wanted fs) = wanted"
  shows "read_payload L ask p pos wanted fs = take wanted (drop pos c)"
proof -
  obtain m where m: "read_payload L ask p pos wanted fs = take m (take wanted (drop pos c))"
    using read_payload_law [OF assms(1,2)] by blast
  with assms(3) show ?thesis by (metis length_take min.absorb2 nle_le take_all_iff take_take)
qed

text \<open>The header read at the head of a nonempty segment is that of its first record.\<close>

lemma head_header:
  assumes "seg_ok (files fs) q s (x # xs)" "open_read L (segmentPath s) fs"
    "header_ok (f_read L (segmentPath s) (md_head (q_meta q) s) 12 fs)"
  shows "f_read L (segmentPath s) (md_head (q_meta q) s) 12 fs = record_header x"
proof -
  obtain gone where g: "files fs (segmentPath s) = Some (gone @ records (x # xs))"
    "length gone = md_head (q_meta q) s" using assms(1) by (auto simp: seg_ok_def)
  have "length (f_read L (segmentPath s) (md_head (q_meta q) s) 12 fs) = 12"
    using assms(3) by (simp add: header_ok_def)
  from read_full(1) [OF assms(2) g(1) this] show ?thesis
    using records_at(1) [OF g(2)] by simp
qed

lemma peek_law:
  assumes "holds (files fs) q old new" "peek L q fs = (r, q')"
  shows "\<exists>e. q' = q\<lparr>q_lastError := e\<rparr>" "r = Some p \<Longrightarrow> \<exists>ps. old @ new = p # ps"
proof -
  show "\<exists>e. q' = q\<lparr>q_lastError := e\<rparr>"
    using assms(2) by (auto simp: peek_def Let_def split: if_splits intro: exI [of _ "q_lastError q"])
  assume r: "r = Some p"
  define s where "s = oldestSegment q"
  define pos where "pos = md_head (q_meta q) s"
  define h where "h = f_read L (segmentPath s) pos 12 fs"
  define b where "b = read_payload L True (segmentPath s) (pos + 12) (header_length h) fs"
  have eq: "peek L q fs =
      (if \<not> q_ready q \<or> pendingRecords q = 0 then (None, q)
       else if \<not> open_read L (segmentPath s) fs \<or> \<not> f_seek L (segmentPath s) pos fs
       then (None, q\<lparr>q_lastError := ''Queue read seek failed''\<rparr>)
       else if \<not> header_ok h then (None, q\<lparr>q_lastError := ''Queue record header invalid''\<rparr>)
       else if length b \<noteq> header_length h \<or> fnv1a b \<noteq> get32 (drop 8 h)
       then (None, q\<lparr>q_lastError := ''Queue record checksum invalid''\<rparr>)
       else (Some b, q\<lparr>q_lastError := []\<rparr>))"
    unfolding peek_def Let_def s_def pos_def h_def b_def by (rule refl)
  have R: "pendingRecords q \<noteq> 0" "open_read L (segmentPath s) fs" "header_ok h"
    "length b = header_length h" "b = p"
    using assms(2) r unfolding eq by (auto split: if_splits)
  then obtain x xs where x: "old @ new = x # xs" using holds_pending [OF assms(1)] by (cases "old @ new") auto
  obtain ys where seg: "seg_ok (files fs) q s (x # ys)"
    using holds_head [OF assms(1) x] by (auto simp: s_def)
  then obtain gone where g: "files fs (segmentPath s) = Some (gone @ records (x # ys))" "length gone = pos"
    by (auto simp: seg_ok_def pos_def)
  have rx: "record_ok x" using seg by (simp add: seg_ok_def)
  have "h = record_header x"
    using head_header [OF seg R(2)] R(3) by (simp add: h_def pos_def)
  then have hl: "header_length h = length x" using record_header_fields [OF rx] by simp
  have "b = take (header_length h) (drop (pos + 12) (gone @ records (x # ys)))"
    unfolding b_def by (rule read_payload_full [OF R(2) g(1)]) (use R(4) b_def in simp)
  then have "b = x" using records_at(2) [OF g(2)] hl by simp
  then show "\<exists>ps. old @ new = p # ps" using R(5) x by blast
qed

end

subsection \<open>Pop\<close>

lemma seg_ok_advance:
  assumes "seg_ok F q s (x # xs)"
  shows "seg_ok F (advance_head s (12 + length x) d q) s xs"
proof -
  obtain gone where g: "F (segmentPath s) = Some (gone @ records (x # xs))" "length gone = md_head (q_meta q) s"
    using assms by (auto simp: seg_ok_def)
  then have "F (segmentPath s) = Some ((gone @ record_bytes x) @ records xs)"
    "length (gone @ record_bytes x) = md_head (q_meta q) s + (12 + length x)" by simp_all
  moreover have "md_head (q_meta (advance_head s (12 + length x) d q)) s = md_head (q_meta q) s + (12 + length x)"
    by (simp add: advance_head_def Let_def)
  ultimately show ?thesis
    using assms by (auto simp: seg_ok_def advance_head_def Let_def)
qed

lemma seg_ok_advance_other:
  "t \<noteq> s \<Longrightarrow> seg_ok F (advance_head s n d q) t ps \<longleftrightarrow> seg_ok F q t ps"
  by (simp add: seg_ok_def advance_head_def Let_def)

lemma advance_facts [simp]:
  "q_ready (advance_head s n d q) = q_ready q" "activeSegment (q_meta (advance_head s n d q)) = activeSegment (q_meta q)"
  "q_segmentMaximumBytes (advance_head s n d q) = q_segmentMaximumBytes q"
  by (simp_all add: advance_head_def Let_def)

lemma advance_more:
  "droppedRecords (q_meta (advance_head s n d q)) =
     (if d then saturatingAdd (droppedRecords (q_meta q)) 1 else droppedRecords (q_meta q))"
  by (simp add: advance_head_def Let_def)

lemma seg_ok_reset: "seg_ok (F(segmentPath s := Some [])) (reset_segment s q) s []"
  by (simp add: seg_ok_def reset_segment_def)

lemma seg_ok_reset_other:
  "t \<noteq> s \<Longrightarrow> seg_ok (F(segmentPath s := Some [])) (reset_segment s q) t ps \<longleftrightarrow> seg_ok F q t ps"
  by (simp add: seg_ok_def reset_segment_def)

lemma reset_facts [simp]:
  "q_ready (reset_segment s q) = q_ready q" "activeSegment (q_meta (reset_segment s q)) = activeSegment (q_meta q)"
  "q_segmentMaximumBytes (reset_segment s q) = q_segmentMaximumBytes q"
  by (simp_all add: reset_segment_def)

lemma reset_more: "droppedRecords (q_meta (reset_segment s q)) = droppedRecords (q_meta q)"
  by (simp add: reset_segment_def)

text \<open>Removing the first record from the oldest segment removes the first pending payload.\<close>

lemma holds_advance:
  assumes "holds F q old new" "old @ new = x # ps"
  shows "holds F (advance_head (oldestSegment q) (12 + length x) d q) (tl old) (if old = [] then tl new else new)"
    "tl old @ (if old = [] then tl new else new) = ps"
proof -
  show "tl old @ (if old = [] then tl new else new) = ps" using assms(2) by (cases old) auto
  have c: "q_count q (\<not> activeSegment (q_meta q)) = length old" using assms(1) by (simp add: holds_def seg_ok_def)
  show "holds F (advance_head (oldestSegment q) (12 + length x) d q) (tl old) (if old = [] then tl new else new)"
  proof (cases old)
    case Nil
    then obtain xs where n: "new = x # xs" using assms(2) by auto
    have "oldestSegment q = activeSegment (q_meta q)" using c Nil by (simp add: oldestSegment_def)
    then show ?thesis
      using assms(1) Nil n seg_ok_advance [of F q _ x xs d]
      by (auto simp: holds_def seg_ok_advance_other)
  next
    case (Cons y xs)
    then have y: "y = x" using assms(2) by simp
    have "oldestSegment q = (\<not> activeSegment (q_meta q))" using c Cons by (simp add: oldestSegment_def)
    then show ?thesis
      using assms(1) Cons y seg_ok_advance [of F q _ x xs d]
      by (auto simp: holds_def seg_ok_advance_other)
  qed
qed

text \<open>Truncating a segment that holds nothing changes nothing that is pending.\<close>

lemma holds_reset:
  assumes "holds F q old new" "q_count q s = 0"
  shows "holds (F(segmentPath s := Some [])) (reset_segment s q) old new"
proof -
  have "(s = (\<not> activeSegment (q_meta q)) \<and> old = []) \<or> (s = activeSegment (q_meta q) \<and> new = [])"
    using assms by (cases s; cases "activeSegment (q_meta q)") (auto simp: holds_def seg_ok_def)
  then show ?thesis
    using assms(1) seg_ok_reset [of F s q] by (auto simp: holds_def seg_ok_reset_other)
qed

context flash
begin

lemma pop_law:
  assumes "holds (files fs) q old new" "pop L d q fs = (b, q', fs')"
  shows "\<exists>old' new'. holds (files fs') q' old' new' \<and>
    (if b then old @ new \<noteq> [] \<and> old' @ new' = tl (old @ new) \<and> stored (files fs') q' \<and>
       q_segmentMaximumBytes q' = q_segmentMaximumBytes q \<and>
       droppedRecords (q_meta q') =
         (if d then saturatingAdd (droppedRecords (q_meta q)) 1 else droppedRecords (q_meta q))
     else old' @ new' = old @ new \<or> old' @ new' = tl (old @ new))"
proof -
  define s where "s = oldestSegment q"
  define pos where "pos = md_head (q_meta q) s"
  define h where "h = f_read L (segmentPath s) pos 12 fs"
  have eq0: "pop L d q fs =
      (if \<not> q_ready q \<or> pendingRecords q = 0 then (False, q, fs)
       else if \<not> open_read L (segmentPath s) fs \<or> \<not> f_seek L (segmentPath s) pos fs
       then fail ''Queue pop seek failed'' q fs
       else if \<not> header_ok h then fail ''Queue pop header invalid'' q fs
       else pop_commit L s (header_length h) d q fs)"
    unfolding pop_def Let_def s_def pos_def h_def by (rule refl)
  consider (no) "\<exists>e. pop L d q fs = (False, q\<lparr>q_lastError := e\<rparr>, fs)"
    | (go) "pendingRecords q \<noteq> 0" "open_read L (segmentPath s) fs" "header_ok h"
        "pop L d q fs = pop_commit L s (header_length h) d q fs"
  proof (cases "q_ready q \<and> pendingRecords q \<noteq> 0")
    case False
    then have "pop L d q fs = (False, q\<lparr>q_lastError := q_lastError q\<rparr>, fs)" using eq0 by simp
    then show ?thesis by (intro no exI)
  next
    case 1: True
    show ?thesis
    proof (cases "open_read L (segmentPath s) fs \<and> f_seek L (segmentPath s) pos fs")
      case False
      then have "pop L d q fs = (False, q\<lparr>q_lastError := ''Queue pop seek failed''\<rparr>, fs)"
        using eq0 1 by (simp add: fail_def)
      then show ?thesis by (intro no exI)
    next
      case 2: True
      show ?thesis
      proof (cases "header_ok h")
        case False
        then have "pop L d q fs = (False, q\<lparr>q_lastError := ''Queue pop header invalid''\<rparr>, fs)"
          using eq0 1 2 by (simp add: fail_def)
        then show ?thesis by (intro no exI)
      next
        case True
        then show ?thesis using eq0 1 2 by (intro go) simp_all
      qed
    qed
  qed
  then show ?thesis
  proof cases
    case no
    then have "holds (files fs') q' old new" "\<not> b" using assms by auto
    then show ?thesis by auto
  next
    case go
    then obtain x ps where x: "old @ new = x # ps"
      using holds_pending [OF assms(1)] by (cases "old @ new") auto
    obtain ys where seg: "seg_ok (files fs) q s (x # ys)"
      using holds_head [OF assms(1) x] by (auto simp: s_def)
    have "h = record_header x" using head_header [OF seg go(2)] go(3) by (simp add: h_def pos_def)
    then have hl: "header_length h = length x"
      using record_header_fields seg by (simp add: seg_ok_def)
    define q1 where "q1 = advance_head s (12 + length x) d q"
    obtain b1 q2 f1 where s1: "saveMetadata L q1 fs = (b1, q2, f1)" by (metis prod.collapse)
    obtain b2 q3 f2 where t: "truncateSegment L s q2 f1 = (b2, q3, f2)" by (metis prod.collapse)
    obtain b3 q4 f3 where s2: "saveMetadata L q3 f2 = (b3, q4, f3)" by (metis prod.collapse)
    have eq: "pop L d q fs =
       (if \<not> b1 then (False, q\<lparr>q_lastError := q_lastError q2\<rparr>, f1)
        else if q_count q2 s = 0
        then if \<not> b2 then (False, q3, f2)
             else if \<not> b3 then (False, q4, f3) else (True, q4\<lparr>q_lastError := []\<rparr>, f3)
        else (True, q2\<lparr>q_lastError := []\<rparr>, f1))"
      unfolding go(4) pop_commit_def hl q1_def [symmetric] by (simp add: s1 t s2 split: bool.split)
    define old' new' where "old' = tl old" and "new' = (if old = [] then tl new else new)"
    have H1: "holds (files fs) q1 old' new'" "old' @ new' = ps"
      using holds_advance(1) [OF assms(1) x, of d] holds_advance(2) [OF assms(1) x] by (simp_all add: q1_def s_def old'_def new'_def)
    have k1: "keeps_segments (files fs) (files f1)" by (rule saveMetadata_keeps [OF s1])
    obtain e2 where q2: "q2 = q1\<lparr>q_lastError := e2\<rparr>" using saveMetadata_law(1) [OF s1] by blast
    have H2: "holds (files f1) q2 old' new'" using H1(1) q2 keeps_holds [OF k1] by simp
    have H3: "if b2 then holds (files f2) q3 old' new' else (\<exists>e. q3 = q2\<lparr>q_lastError := e\<rparr>) \<and> files f2 = files f1"
      if "q_count q2 s = 0" using truncate_law [OF t] holds_reset [OF H2 that] by auto
    have k3: "keeps_segments (files f2) (files f3)" by (rule saveMetadata_keeps [OF s2])
    obtain e4 where q4: "q4 = q3\<lparr>q_lastError := e4\<rparr>" using saveMetadata_law(1) [OF s2] by blast
    have H4: "q_count q2 s = 0 \<Longrightarrow> b2 \<Longrightarrow> holds (files f3) q4 old' new'"
      using H3 q4 keeps_holds [OF k3] by simp
    have H0: "holds (files f1) q old new" using assms(1) keeps_holds [OF k1] by simp
    have tl: "tl (old @ new) = ps" "old @ new \<noteq> []" using x by simp_all
    show ?thesis
    proof (cases b1)
      case False
      then have "\<not> b" "holds (files fs') q' old new" using assms(2) H0 unfolding eq by auto
      then show ?thesis by auto
    next
      case True
      have "holds (files fs') q' old' new'"
        using assms(2) True H2 H3 H4 unfolding eq by (auto split: if_splits)
      moreover have "b \<Longrightarrow> stored (files fs') q' \<and> q_segmentMaximumBytes q' = q_segmentMaximumBytes q \<and>
          droppedRecords (q_meta q') =
            (if d then saturatingAdd (droppedRecords (q_meta q)) 1 else droppedRecords (q_meta q))"
        using assms(2) True saveMetadata_stored [of q1 fs q2 f1] saveMetadata_stored [of q3 f2 q4 f3] s1 s2
          truncate_law [OF t] q2 q4 unfolding eq
        by (auto simp: reset_more q1_def advance_more split: if_splits)
      ultimately show ?thesis using H1(2) tl by (metis (full_types))
    qed
  qed
qed

lemma popIfMatches_law:
  assumes "holds (files fs) q old new" "popIfMatches L p d q fs = (b, q', fs')"
  shows "\<exists>old' new'. holds (files fs') q' old' new' \<and>
    (old' @ new' = old @ new \<or> (old @ new \<noteq> [] \<and> hd (old @ new) = p \<and> old' @ new' = tl (old @ new))) \<and>
    (b \<longrightarrow> ((old @ new = [] \<or> hd (old @ new) \<noteq> p) \<and> old' @ new' = old @ new \<and> fs' = fs \<and>
        (\<exists>e. q' = q\<lparr>q_lastError := e\<rparr>)) \<or>
      (old @ new \<noteq> [] \<and> hd (old @ new) = p \<and> old' @ new' = tl (old @ new) \<and> stored (files fs') q' \<and>
       q_segmentMaximumBytes q' = q_segmentMaximumBytes q \<and>
       droppedRecords (q_meta q') =
         (if d then saturatingAdd (droppedRecords (q_meta q)) 1 else droppedRecords (q_meta q))))"
proof -
  obtain r q1 where pk: "peek L q fs = (r, q1)" by fastforce
  obtain e where q1: "q1 = q\<lparr>q_lastError := e\<rparr>" using peek_law(1) [OF assms(1) pk] by blast
  have H1: "holds (files fs) q1 old new" using assms(1) q1 by simp
  show ?thesis
  proof (cases r)
    case None
    then have "b = (pendingRecords q1 = 0)" "q' = q1" "fs' = fs" using assms(2) by (auto simp: popIfMatches_def pk)
    then show ?thesis using H1 holds_pending [OF H1] q1 by auto
  next
    case (Some x)
    then obtain ps where x: "old @ new = x # ps" using peek_law(2) [OF assms(1) pk] by blast
    show ?thesis
    proof (cases "x = p")
      case False
      then have "b" "q' = q1" "fs' = fs" using assms(2) Some by (auto simp: popIfMatches_def pk)
      then show ?thesis using H1 x False q1 by auto
    next
      case True
      then have "pop L d q1 fs = (b, q', fs')" using assms(2) Some by (simp add: popIfMatches_def pk)
      from pop_law [OF H1 this] obtain old' new' where P: "holds (files fs') q' old' new'"
        "if b then old @ new \<noteq> [] \<and> old' @ new' = tl (old @ new) \<and> stored (files fs') q' \<and>
           q_segmentMaximumBytes q' = q_segmentMaximumBytes q1 \<and>
           droppedRecords (q_meta q') =
             (if d then saturatingAdd (droppedRecords (q_meta q1)) 1 else droppedRecords (q_meta q1))
         else old' @ new' = old @ new \<or> old' @ new' = tl (old @ new)" by blast
      have "hd (old @ new) = p" "old @ new \<noteq> []" using x True by simp_all
      then show ?thesis using P q1 by (intro exI [of _ old'] exI [of _ new']) (auto split: if_splits)
    qed
  qed
qed

end

subsection \<open>Enqueue\<close>

definition with_active :: "bool \<Rightarrow> Queue \<Rightarrow> Queue" where
  "with_active s q = q\<lparr>q_meta := (q_meta q)\<lparr>activeSegment := s\<rparr>\<rparr>"

lemma seg_ok_with_active [simp]: "seg_ok F (with_active a q) s ps \<longleftrightarrow> seg_ok F q s ps"
  by (simp add: seg_ok_def with_active_def)

lemma seg_ok_set_dropped [simp]: "seg_ok F (set_dropped d q) s ps \<longleftrightarrow> seg_ok F q s ps"
  by (simp add: seg_ok_def set_dropped_def)

lemma set_dropped_facts [simp]:
  "q_ready (set_dropped d q) = q_ready q" "activeSegment (q_meta (set_dropped d q)) = activeSegment (q_meta q)"
  "q_segmentMaximumBytes (set_dropped d q) = q_segmentMaximumBytes q"
  "q_count (set_dropped d q) = q_count q" "droppedRecords (q_meta (set_dropped d q)) = d"
  by (simp_all add: set_dropped_def)

lemma with_active_facts [simp]:
  "q_ready (with_active a q) = q_ready q" "activeSegment (q_meta (with_active a q)) = a"
  "q_segmentMaximumBytes (with_active a q) = q_segmentMaximumBytes q"
  "droppedRecords (q_meta (with_active a q)) = droppedRecords (q_meta q)"
  by (simp_all add: with_active_def)

lemma holds_set_dropped [simp]: "holds F (set_dropped d q) old new \<longleftrightarrow> holds F q old new"
  by (simp add: holds_def)

text \<open>Reclaiming the inactive segment and making it the active one drops the older half.\<close>

lemma holds_switch:
  assumes "holds F q old new" "s = (\<not> activeSegment (q_meta q))"
  shows "holds (F(segmentPath s := Some [])) (with_active s (reset_segment s q)) new []"
proof -
  have "activeSegment (q_meta q) \<noteq> s" using assms(2) by auto
  then have "seg_ok (F(segmentPath s := Some [])) (reset_segment s q) (activeSegment (q_meta q)) new"
    using assms(1) by (simp add: seg_ok_reset_other holds_def)
  moreover have "(\<not> s) = activeSegment (q_meta q)" using assms(2) by simp
  ultimately show ?thesis
    using assms(1) seg_ok_reset [of F s q] by (simp add: holds_def)
qed

lemma reset_tail: "q_tail (with_active a (reset_segment s q)) s = 0"
  by (simp add: reset_segment_def with_active_def)

definition dropped_after :: "u32 \<Rightarrow> bytes list \<Rightarrow> u32" where
  "dropped_after d old = (if old = [] then d else saturatingAdd d (of_nat (length old)))"

lemma seg_ok_append:
  assumes "seg_ok F q s ps" "F (segmentPath s) = Some c" "record_ok p"
    "q_tail q s + (12 + length p) \<le> q_segmentMaximumBytes q"
  shows "seg_ok (F(segmentPath s := Some (c @ record_bytes p)))
    (q\<lparr>q_tail := (q_tail q)(s := q_tail q s + (12 + length p)), q_count := (q_count q)(s := q_count q s + 1),
       q_lastError := e\<rparr>) s (ps @ [p])"
  using assms by (auto simp: seg_ok_def)

context flash
begin

lemma rotate_law:
  assumes "holds (files fs) q old new" "rotateSegment L q fs = (b, q', fs')"
  shows "if b then holds (files fs') q' new [] \<and>
      droppedRecords (q_meta q') = dropped_after (droppedRecords (q_meta q)) old \<and>
      q_tail q' (activeSegment (q_meta q')) = 0 \<and> q_segmentMaximumBytes q' = q_segmentMaximumBytes q \<and>
      stored (files fs') q'
    else holds (files fs') q' old new \<or> holds (files fs') q' new []"
proof -
  define s where "s = (\<not> activeSegment (q_meta q))"
  define d where "d = droppedRecords (q_meta q)"
  have cnt: "q_count q s = length old" using assms(1) by (simp add: holds_def seg_ok_def s_def)
  define q0 where "q0 = set_dropped (saturatingAdd d (of_nat (q_count q s))) q"
  define g where "g = (if 0 < q_count q s then saveMetadata L q0 fs else (True, q, fs))"
  obtain o1 q1 f1 where g: "g = (o1, q1, f1)" by (metis prod.collapse)
  obtain o2 q2 f2 where t: "truncateSegment L s q1 f1 = (o2, q2, f2)" by (metis prod.collapse)
  obtain o3 q3 f3 where v: "saveMetadata L (with_active s q2) f2 = (o3, q3, f3)" by (metis prod.collapse)
  have "rotateSegment L q fs = (case g of (ok, q, fs) \<Rightarrow>
         if \<not> ok then (False, set_dropped d q, fs)
         else case truncateSegment L s q fs of
           (False, q, fs) \<Rightarrow> (False, q, fs)
         | (True, q, fs) \<Rightarrow> saveMetadata L (with_active s q) fs)"
    unfolding rotateSegment_def s_def [symmetric] d_def [symmetric] Let_def g_def q0_def with_active_def
    by (rule refl)
  then have eq: "rotateSegment L q fs =
      (if \<not> o1 then (False, set_dropped d q1, f1) else if \<not> o2 then (False, q2, f2) else (o3, q3, f3))"
    by (simp add: g t v split: bool.split)
  have H1: "holds (files f1) q1 old new \<and> s = (\<not> activeSegment (q_meta q1)) \<and>
      q_segmentMaximumBytes q1 = q_segmentMaximumBytes q \<and>
      (o1 \<longrightarrow> droppedRecords (q_meta q1) = dropped_after d old)"
  proof (cases "0 < q_count q s")
    case True
    then have m: "saveMetadata L q0 fs = (o1, q1, f1)" using g g_def by simp
    obtain e where e: "q1 = q0\<lparr>q_lastError := e\<rparr>" using saveMetadata_law(1) [OF m] by blast
    then show ?thesis
      using assms(1) keeps_holds [OF saveMetadata_keeps [OF m]] True cnt
      by (auto simp: q0_def dropped_after_def s_def)
  next
    case False
    then show ?thesis using g assms(1) cnt by (simp add: g_def dropped_after_def d_def s_def)
  qed
  then have H1': "holds (files f1) q1 old new" "s = (\<not> activeSegment (q_meta q1))"
    "q_segmentMaximumBytes q1 = q_segmentMaximumBytes q" by simp_all
  have H2: "if o2 then q2 = reset_segment s q1 \<and> holds (files f2) (with_active s q2) new []
      else holds (files f2) q2 old new"
    using truncate_law [OF t] H1'(1) holds_switch [OF H1'(1,2)] by (auto split: if_splits)
  obtain e where e: "q3 = (with_active s q2)\<lparr>q_lastError := e\<rparr>" using saveMetadata_law(1) [OF v] by blast
  have H3: "o2 \<Longrightarrow> holds (files f3) q3 new [] \<and> droppedRecords (q_meta q3) = droppedRecords (q_meta q1) \<and>
      q_tail q3 (activeSegment (q_meta q3)) = 0 \<and> q_segmentMaximumBytes q3 = q_segmentMaximumBytes q"
    using H2 e keeps_holds [OF saveMetadata_keeps [OF v]] H1'(3) by (auto simp: reset_more reset_tail)
  have "holds (files f1) (set_dropped d q1) old new" using H1'(1) by simp
  note st = saveMetadata_stored [of "with_active s q2" f2 q3 f3]
  then show ?thesis
    using assms(2) H1 H2 H3 st v unfolding eq d_def [symmetric] by (cases o1; cases o2; auto)
qed

lemma append_law:
  assumes "holds (files fs) q old new" "record_ok p"
    "open_append L (segmentPath (activeSegment (q_meta q))) fs = (True, f1)"
    "append_record L (segmentPath (activeSegment (q_meta q))) p f1 = (b, fs')"
  shows "files f1 = files fs"
    "b \<Longrightarrow> q_tail q (activeSegment (q_meta q)) + (12 + length p) \<le> q_segmentMaximumBytes q \<Longrightarrow> holds (files fs')
       (q\<lparr>q_tail := (q_tail q)(activeSegment (q_meta q) := q_tail q (activeSegment (q_meta q)) + (12 + length p)),
          q_count := (q_count q)(activeSegment (q_meta q) := q_count q (activeSegment (q_meta q)) + 1),
          q_lastError := []\<rparr>) old (new @ [p])"
    "\<exists>c k. files fs (segmentPath (activeSegment (q_meta q))) = Some c \<and>
       files fs' = (files fs)(segmentPath (activeSegment (q_meta q)) := Some (c @ take k (record_bytes p)))"
proof -
  let ?a = "activeSegment (q_meta q)"
  obtain c where c: "files fs (segmentPath ?a) = Some c" using assms(1) by (auto simp: holds_def seg_ok_def)
  show f1: "files f1 = files fs" using open_append_law [OF assms(3)] c by (auto simp: fun_upd_idem)
  obtain k where k: "files fs' = (files f1)(segmentPath ?a := Some (c @ take k (record_bytes p)))"
    "b \<longrightarrow> files fs' = (files f1)(segmentPath ?a := Some (c @ record_bytes p))"
    using append_record_law [OF assms(4)] c f1 by auto
  then show "\<exists>c k. files fs (segmentPath ?a) = Some c \<and>
       files fs' = (files fs)(segmentPath ?a := Some (c @ take k (record_bytes p)))" using c f1 by auto
  assume b and fits: "q_tail q ?a + (12 + length p) \<le> q_segmentMaximumBytes q"
  then have F: "files fs' = (files fs)(segmentPath ?a := Some (c @ record_bytes p))" using k f1 by simp
  have "seg_ok (files fs') (q\<lparr>q_tail := (q_tail q)(?a := q_tail q ?a + (12 + length p)),
      q_count := (q_count q)(?a := q_count q ?a + 1), q_lastError := []\<rparr>) ?a (new @ [p])"
    unfolding F using assms(1,2) c fits by (intro seg_ok_append) (simp_all add: holds_def)
  moreover have "seg_ok (files fs') (q\<lparr>q_tail := (q_tail q)(?a := q_tail q ?a + (12 + length p)),
      q_count := (q_count q)(?a := q_count q ?a + 1), q_lastError := []\<rparr>) (\<not> ?a) old"
    using assms(1) by (auto simp: F holds_def seg_ok_def)
  ultimately show "holds (files fs') (q\<lparr>q_tail := (q_tail q)(?a := q_tail q ?a + (12 + length p)),
      q_count := (q_count q)(?a := q_count q ?a + 1), q_lastError := []\<rparr>) old (new @ [p])"
    using assms(1) by (simp add: holds_def)
qed

lemma enqueue_law:
  assumes "holds (files fs) q old new" "enqueue L p q fs = (True, q', fs')"
  shows "record_ok p \<and> (stored (files fs) q \<longrightarrow> stored (files fs') q') \<and>
    q_segmentMaximumBytes q' = q_segmentMaximumBytes q \<and>
    ((holds (files fs') q' old (new @ [p]) \<and> droppedRecords (q_meta q') = droppedRecords (q_meta q)) \<or>
     (holds (files fs') q' new [p] \<and>
      droppedRecords (q_meta q') = dropped_after (droppedRecords (q_meta q)) old))"
proof -
  define full where "full = (q_tail q (activeSegment (q_meta q)) + (12 + length p) > q_segmentMaximumBytes q)"
  define g where "g = (if full then rotateSegment L q fs else (True, q, fs))"
  obtain o1 q1 f1 where g: "g = (o1, q1, f1)" by (metis prod.collapse)
  define s where "s = activeSegment (q_meta q1)"
  obtain o2 f2 where a: "open_append L (segmentPath s) f1 = (o2, f2)" by fastforce
  obtain o3 f3 where r: "append_record L (segmentPath s) p f2 = (o3, f3)" by fastforce
  define q4 where "q4 = q1\<lparr>q_tail := (q_tail q1)(s := q_tail q1 s + (12 + length p)),
      q_count := (q_count q1)(s := q_count q1 s + 1), q_lastError := []\<rparr>"
  have ok: "record_ok p" "12 + length p \<le> q_segmentMaximumBytes q"
    using assms(2) by (auto simp: enqueue_def fail_def record_ok_def Let_def split: if_splits)
  have "enqueue L p q fs = (case g of (ok, q, fs) \<Rightarrow> if \<not> ok then (False, q, fs)
             else let s = activeSegment (q_meta q) in
               case open_append L (segmentPath s) fs of
                 (False, fs) \<Rightarrow> fail ''Queue segment open failed'' q fs
               | (True, fs) \<Rightarrow>
                   (case append_record L (segmentPath s) p fs of
                      (False, fs) \<Rightarrow> fail ''Queue append failed'' q fs
                    | (True, fs) \<Rightarrow>
                        (True, q\<lparr>q_tail := (q_tail q)(s := q_tail q s + (12 + length p)),
                           q_count := (q_count q)(s := q_count q s + 1), q_lastError := []\<rparr>, fs)))"
    unfolding g_def full_def using assms(2) ok
    by (simp add: enqueue_def fail_def record_ok_def Let_def split: if_splits)
  then have "enqueue L p q fs =
      (if \<not> o1 then (False, q1, f1) else if \<not> o2 then fail ''Queue segment open failed'' q1 f2
       else if \<not> o3 then fail ''Queue append failed'' q1 f3 else (True, q4, f3))"
    by (simp add: g s_def [symmetric] a r q4_def split: bool.split)
  then have R: "o1" "o2" "o3" "fs' = f3" "q' = q4"
    using assms(2) by (auto simp: fail_def split: if_splits)
  have dq: "droppedRecords (q_meta q') = droppedRecords (q_meta q1)" by (simp add: R(5) q4_def)
  have A: "holds (files fs') q' o' (n' @ [p])"
    if "holds (files f1) q1 o' n'" "q_tail q1 s + (12 + length p) \<le> q_segmentMaximumBytes q1" for o' n'
    using append_law(2) [OF that(1) ok(1) _ _ TrueI, of f2 f3] that(2) a r R
    unfolding s_def [symmetric] q4_def by simp
  have S: "stored (files fs') q'" if "holds (files f1) q1 o' n'" "stored (files f1) q1" for o' n'
  proof -
    have "files fs' kMetadataPath = files f1 kMetadataPath"
      using append_law(3) [OF that(1) ok(1), of f2 o3 f3] a r R(2,4) by (auto simp: s_def)
    then show ?thesis using that(2) R(5) by (simp add: stored_def q4_def)
  qed
  show ?thesis
  proof (cases full)
    case True
    then have "rotateSegment L q fs = (True, q1, f1)" using g g_def R(1) by simp
    from rotate_law [OF assms(1) this] show ?thesis
      using A [of new "[]"] S [of new "[]"] ok dq R(5) by (simp add: s_def q4_def)
  next
    case False
    then have "q1 = q" "f1 = fs" using g g_def by simp_all
    then show ?thesis using A [of old new] S [of old new] assms(1) False ok dq R(5)
      by (simp add: s_def full_def q4_def)
  qed
qed

end

end
