(* ===== verification/StoreForwardDurable.thy ===== *)
theory StoreForwardDurable
  imports StoreForwardRefine "HOL-Library.Multiset" "HOL-Library.Sublist"
begin

section \<open>Durability of the upload queue\<close>

text \<open>
  Sequences of operations on the queue against the abstract view, the recovery scan after a
  restart or a power loss in the middle of an append, and batches.
\<close>

subsection \<open>Sequences of operations\<close>

datatype QueueOp = Enqueue bytes | Acknowledge bytes bool

fun queue_op :: "'fs lfs_ops \<Rightarrow> QueueOp \<Rightarrow> Queue \<Rightarrow> 'fs \<Rightarrow> bool \<times> Queue \<times> 'fs" where
  "queue_op L (Enqueue p) q fs = enqueue L p q fs"
| "queue_op L (Acknowledge p d) q fs = popIfMatches L p d q fs"

text \<open>All of them succeed.\<close>

fun queue_run :: "'fs lfs_ops \<Rightarrow> QueueOp list \<Rightarrow> Queue \<Rightarrow> 'fs \<Rightarrow> (Queue \<times> 'fs) option" where
  "queue_run L [] q fs = Some (q, fs)"
| "queue_run L (x # xs) q fs =
     (case queue_op L x q fs of (True, q, fs) \<Rightarrow> queue_run L xs q fs | (False, q, fs) \<Rightarrow> None)"

fun enqueued :: "QueueOp list \<Rightarrow> bytes list" where
  "enqueued [] = []"
| "enqueued (Enqueue p # xs) = p # enqueued xs"
| "enqueued (Acknowledge p d # xs) = enqueued xs"

fun acknowledged :: "QueueOp list \<Rightarrow> (bytes \<times> bool) list" where
  "acknowledged [] = []"
| "acknowledged (Enqueue p # xs) = acknowledged xs"
| "acknowledged (Acknowledge p d # xs) = (p, d) # acknowledged xs"

text \<open>
  What a sequence of operations does to the list of pending payloads and to the loss counter: the
  list is shortened only at its front and extended only at its end; every payload that is gone
  was acknowledged, or evicted and counted.
\<close>

definition conserved :: "bytes list \<Rightarrow> u32 \<Rightarrow> QueueOp list \<Rightarrow> bytes list \<Rightarrow> u32 \<Rightarrow> bool" where
  "conserved before d xs after d' \<longleftrightarrow>
     (\<exists>gone acked evicted. before @ enqueued xs = gone @ after \<and>
        mset gone = mset (map fst acked) + mset evicted \<and> subseq acked (acknowledged xs) \<and>
        unat d' = min 4294967295 (unat d + length evicted + length (filter snd acked)))"

lemma unat32_le: "unat (w :: u32) \<le> 4294967295"
proof -
  have "unat w < 2 ^ LENGTH(32)" by (rule unsigned_less)
  moreover have "(2 :: nat) ^ LENGTH(32) = 4294967296" by simp
  ultimately show ?thesis by linarith
qed

lemma unat_saturatingAdd: "unat (saturatingAdd a b) = min 4294967295 (unat a + unat b)"
proof -
  have "a \<le> 0xFFFFFFFF" by (simp add: word_le_nat_alt unat32_le)
  then have "unat (0xFFFFFFFF - a) = 4294967295 - unat a" by (simp add: unat_sub)
  moreover have "unat (a + b) = unat a + unat b" if "unat a + unat b \<le> 4294967295"
    using that by (subst unat_add_lem [THEN iffD1]) simp_all
  ultimately show ?thesis
    using unat32_le [of a] by (auto simp: saturatingAdd_def word_less_nat_alt min_def)
qed

lemma conserved_Nil: "conserved ps d [] ps d"
  unfolding conserved_def using unat32_le [of d]
  by (intro exI [of _ "[]"]) simp

lemma conserved_Cons:
  assumes "conserved ps d [x] ps1 d1" "conserved ps1 d1 xs ps2 d2"
  shows "conserved ps d (x # xs) ps2 d2"
proof -
  obtain g a e where 1: "ps @ enqueued [x] = g @ ps1" "mset g = mset (map fst a) + mset e"
    "subseq a (acknowledged [x])" "unat d1 = min 4294967295 (unat d + length e + length (filter snd a))"
    using assms(1) unfolding conserved_def by blast
  obtain g' a' e' where 2: "ps1 @ enqueued xs = g' @ ps2" "mset g' = mset (map fst a') + mset e'"
    "subseq a' (acknowledged xs)" "unat d2 = min 4294967295 (unat d1 + length e' + length (filter snd a'))"
    using assms(2) unfolding conserved_def by blast
  have e: "enqueued (x # xs) = enqueued [x] @ enqueued xs" "acknowledged (x # xs) = acknowledged [x] @ acknowledged xs"
    by (cases x; simp)+
  have "ps @ enqueued (x # xs) = (g @ g') @ ps2" using 1(1) 2(1) e by (metis append.assoc)
  moreover have "subseq (a @ a') (acknowledged (x # xs))" using 1(3) 2(3) e by (simp add: list_emb_append_mono)
  ultimately show ?thesis
    unfolding conserved_def using 1(2,4) 2(2,4)
    by (intro exI [of _ "g @ g'"] exI [of _ "a @ a'"] exI [of _ "e @ e'"]) simp
qed

text \<open>The payloads pending on a volume that agrees with the state in memory.\<close>

definition durable :: "(string \<Rightarrow> bytes option) \<Rightarrow> Queue \<Rightarrow> bytes list \<Rightarrow> bool" where
  "durable F q ps \<longleftrightarrow> (\<exists>old new. holds F q old new \<and> ps = old @ new) \<and> stored F q"

lemma length_records: "list_all record_ok ps \<Longrightarrow> length ps \<le> length (records ps)"
  by (induction ps) auto

lemma conserved_evict:
  assumes "holds F q old new" "d' = dropped_after d old"
  shows "conserved (old @ new) d [Enqueue p] (new @ [p]) d'"
proof -
  have "length old < 4294967296"
    using assms(1) length_records [of old] by (auto simp: holds_def seg_ok_def)
  then have "unat (of_nat (length old) :: u32) = length old" by (simp add: unat_of_nat take_bit_nat_eq_self)
  moreover have "unat d \<le> 4294967295" by (rule unat32_le)
  ultimately have "unat d' = min 4294967295 (unat d + length old)"
    using assms(2) by (simp add: dropped_after_def unat_saturatingAdd)
  then show ?thesis
    unfolding conserved_def by (intro exI [of _ old] exI [of _ "[]"]) simp
qed

lemma conserved_ack:
  assumes "ps = p # ps'" "d' = (if disc then saturatingAdd d 1 else d)"
  shows "conserved ps d [Acknowledge p disc] ps' d'"
proof -
  have "unat d \<le> 4294967295" by (rule unat32_le)
  then have "unat d' = min 4294967295 (unat d + length (filter snd [(p, disc)]))"
    using assms(2) by (simp add: unat_saturatingAdd)
  then show ?thesis
    unfolding conserved_def using assms(1) by (intro exI [of _ "[p]"] exI [of _ "[(p, disc)]"] exI [of _ "[]"]) simp
qed

lemma conserved_same: "conserved ps d [Acknowledge p disc] ps d"
  unfolding conserved_def using unat32_le [of d]
  by (intro exI [of _ "[]"]) simp

lemma conserved_append: "conserved ps d [Enqueue p] (ps @ [p]) d"
  unfolding conserved_def using unat32_le [of d]
  by (intro exI [of _ "[]"]) simp

context flash
begin

lemma op_conserved:
  assumes "durable (files fs) q ps" "queue_op L x q fs = (True, q', fs')"
  shows "\<exists>ps'. durable (files fs') q' ps' \<and> q_segmentMaximumBytes q' = q_segmentMaximumBytes q \<and>
    conserved ps (droppedRecords (q_meta q)) [x] ps' (droppedRecords (q_meta q'))"
proof -
  obtain old new where H: "holds (files fs) q old new" "ps = old @ new" "stored (files fs) q"
    using assms(1) by (auto simp: durable_def)
  show ?thesis
  proof (cases x)
    case (Enqueue p)
    then have "enqueue L p q fs = (True, q', fs')" using assms(2) by simp
    from enqueue_law [OF H(1) this] H(2,3) conserved_evict [OF H(1) refl] conserved_append [of "old @ new"]
    show ?thesis unfolding Enqueue durable_def by (metis append.assoc)
  next
    case (Acknowledge p d)
    then have "popIfMatches L p d q fs = (True, q', fs')" using assms(2) by simp
    from popIfMatches_law [OF H(1) this] obtain old' new' where P: "holds (files fs') q' old' new'"
      "(old' @ new' = ps \<and> fs' = fs \<and> (\<exists>e. q' = q\<lparr>q_lastError := e\<rparr>)) \<or>
       (ps \<noteq> [] \<and> hd ps = p \<and> old' @ new' = tl ps \<and> stored (files fs') q' \<and>
        q_segmentMaximumBytes q' = q_segmentMaximumBytes q \<and>
        droppedRecords (q_meta q') =
          (if d then saturatingAdd (droppedRecords (q_meta q)) 1 else droppedRecords (q_meta q)))"
      unfolding H(2) by blast
    from P(2) show ?thesis
    proof
      assume s: "old' @ new' = ps \<and> fs' = fs \<and> (\<exists>e. q' = q\<lparr>q_lastError := e\<rparr>)"
      then show ?thesis using P(1) H(3) conserved_same Acknowledge
        by (intro exI [of _ ps]) (auto simp: durable_def)
    next
      assume s: "ps \<noteq> [] \<and> hd ps = p \<and> old' @ new' = tl ps \<and> stored (files fs') q' \<and>
        q_segmentMaximumBytes q' = q_segmentMaximumBytes q \<and>
        droppedRecords (q_meta q') =
          (if d then saturatingAdd (droppedRecords (q_meta q)) 1 else droppedRecords (q_meta q))"
      then have "ps = p # (old' @ new')" by (metis list.collapse)
      from conserved_ack [OF this] s P(1) show ?thesis unfolding Acknowledge durable_def by blast
    qed
  qed
qed

lemma run_conserved:
  assumes "durable (files fs) q ps" "queue_run L xs q fs = Some (q', fs')"
  shows "\<exists>ps'. durable (files fs') q' ps' \<and> q_segmentMaximumBytes q' = q_segmentMaximumBytes q \<and>
    conserved ps (droppedRecords (q_meta q)) xs ps' (droppedRecords (q_meta q'))"
  using assms
proof (induction xs arbitrary: q fs ps)
  case Nil
  then show ?case using conserved_Nil by auto
next
  case (Cons x xs)
  obtain q1 f1 where 1: "queue_op L x q fs = (True, q1, f1)" "queue_run L xs q1 f1 = Some (q', fs')"
    using Cons.prems(2) by (auto split: prod.splits bool.splits)
  obtain ps1 where 2: "durable (files f1) q1 ps1" "q_segmentMaximumBytes q1 = q_segmentMaximumBytes q"
    "conserved ps (droppedRecords (q_meta q)) [x] ps1 (droppedRecords (q_meta q1))"
    using op_conserved [OF Cons.prems(1) 1(1)] by blast
  from Cons.IH [OF 2(1) 1(2)] show ?case using 2(2) conserved_Cons [OF 2(3)] by metis
qed

end

subsection \<open>Copying and quarantine\<close>

context flash
begin

lemma copy_range_law:
  assumes "copy_range L src pos dst n fs = (True, fs')" "src \<noteq> dst"
    "files fs src = Some c" "files fs dst = Some d" "open_read L src fs" "pos + n \<le> length c"
    "\<And>fs. files fs src = Some c \<Longrightarrow> open_read L src fs"
  shows "files fs' = (files fs)(dst := Some (d @ take n (drop pos c)))"
  using assms
proof (induction n arbitrary: pos d fs rule: less_induct)
  case (less n)
  show ?case
  proof (cases "n = 0")
    case True
    then show ?thesis using less.prems by (subst (asm) copy_range.simps) (simp add: fun_upd_idem)
  next
    case False
    define chunk where "chunk = min n 256"
    define b where "b = f_read L src pos chunk fs"
    obtain m f1 where w: "f_write L dst b fs = (m, f1)" by fastforce
    have R: "length b = chunk" "m = chunk" "copy_range L src (pos + chunk) dst (n - chunk) f1 = (True, fs')"
      using less.prems(1) False
      by (subst (asm) copy_range.simps, simp add: Let_def chunk_def [symmetric] b_def [symmetric] w split: if_splits)+
    have b: "b = take chunk (drop pos c)"
      using read_full(1) [OF less.prems(5,3)] R(1) by (simp add: b_def)
    have f1: "files f1 = (files fs)(dst := Some (d @ b))"
      using write_full [OF less.prems(4)] w R(1,2) by simp
    have c: "files f1 src = Some c" using f1 less.prems(2,3) by simp
    have "n - chunk < n" using False by (simp add: chunk_def)
    from less.IH [OF this R(3) less.prems(2) c _ less.prems(7) [OF c] _ less.prems(7), of "d @ b"]
    have "files fs' = (files f1)(dst := Some ((d @ b) @ take (n - chunk) (drop (pos + chunk) c)))"
      using f1 less.prems(6) by (auto simp: chunk_def)
    then have "files fs' = (files fs)(dst := Some (d @ b @ take (n - chunk) (drop (pos + chunk) c)))"
      using f1 by (simp add: fun_upd_def fun_eq_iff)
    moreover have "b @ take (n - chunk) (drop (pos + chunk) c) = take n (drop pos c)"
      unfolding b using take_add [of chunk "n - chunk" "drop pos c"]
      by (simp add: chunk_def add.commute)
    ultimately show ?thesis by simp
  qed
qed

end

subsection \<open>A volume whose reads succeed\<close>

text \<open>
  On top of the laws of \<open>flash\<close>: a file that exists opens, seeks inside it succeed, a read returns
  all there is of what was asked, and mounting does not change the content.
\<close>

locale sound_flash = flash +
  assumes begin_law: "lfs_begin L label fs = (b, fs') \<Longrightarrow> files fs' = files fs"
    and open_ok: "files fs p = Some c \<Longrightarrow> open_read L p fs"
    and seek_ok: "files fs p = Some c \<Longrightarrow> pos \<le> length c \<Longrightarrow> f_seek L p pos fs"
    and read_ok: "files fs p = Some c \<Longrightarrow> f_read L p pos n fs = take n (drop pos c)"

interpretation fake_volume: sound_flash fake_lfs fs_content
  by unfold_locales (auto simp: fake_lfs_def split: option.splits)

text \<open>What a record append leaves when the power fails: a proper prefix of the record.\<close>

definition torn :: "bytes \<Rightarrow> bool" where
  "torn bs \<longleftrightarrow> (\<exists>p k. record_ok p \<and> k < 12 + length p \<and> bs = take k (record_bytes p))"

lemma torn_Nil: "torn []"
  unfolding torn_def by (intro exI [of _ "[0]"] exI [of _ 0]) (simp add: record_ok_def kMaximumPayloadBytes_def)

context sound_flash
begin

lemma read_bytes_law:
  "files fs p = Some c \<Longrightarrow> read_bytes L p pos n fs = take n (drop pos c)"
proof (induction n arbitrary: pos)
  case (Suc n)
  then show ?case
  proof (cases "drop pos c")
    case Nil
    then show ?thesis using Suc by (simp add: read_ok)
  next
    case (Cons b bs)
    then have "drop (pos + 1) c = bs" by (metis drop_drop drop0 drop_Suc_Cons plus_1_eq_Suc One_nat_def add.commute)
    then show ?thesis using Suc Cons by (simp add: read_ok)
  qed
qed simp

lemma scan_torn:
  assumes "files fs p = Some (gone @ junk)" "torn junk"
  shows "scan_from L p (length gone + length junk) (length gone) cnt fs = (length gone, cnt)"
proof (cases "12 \<le> length junk")
  case False
  then show ?thesis by (subst scan_from.simps) simp
next
  case True
  obtain x k where x: "record_ok x" "k < 12 + length x" "junk = take k (record_bytes x)"
    using assms(2) by (auto simp: torn_def)
  then have k: "length junk = k" by simp
  then have h: "f_read L p (length gone) 12 fs = record_header x"
    using True x by (simp add: read_ok [OF assms(1)] record_bytes_def)
  show ?thesis
    by (subst scan_from.simps) (use x k h record_header_fields [OF x(1)] in \<open>simp add: Let_def\<close>)
qed

lemma scan_records:
  assumes "files fs p = Some (gone @ records ps @ junk)" "list_all record_ok ps" "torn junk"
  shows "scan_from L p (length (gone @ records ps @ junk)) (length gone) cnt fs =
    (length gone + length (records ps), cnt + length ps)"
  using assms
proof (induction ps arbitrary: gone cnt)
  case Nil
  then show ?case using scan_torn [of fs p gone junk cnt] by simp
next
  case (Cons x ps)
  note F = Cons.prems(1)
  have x: "record_ok x" using Cons.prems by simp
  have h: "f_read L p (length gone) 12 fs = record_header x"
    by (simp add: read_ok [OF F] record_bytes_def)
  have b: "read_bytes L p (length gone + 12) (length x) fs = x"
    by (simp add: read_bytes_law [OF F] record_bytes_def)
  have s: "f_seek L p (length gone) fs" by (rule seek_ok [OF F]) simp
  have "scan_from L p (length (gone @ records (x # ps) @ junk)) (length gone) cnt fs =
      scan_from L p (length (gone @ records (x # ps) @ junk)) (length gone + 12 + length x) (cnt + 1) fs"
    by (subst scan_from.simps) (simp add: Let_def h b s record_header_fields [OF x])
  also have "\<dots> = (length gone + 12 + length x + length (records ps), cnt + 1 + length ps)"
    using Cons.IH [of "gone @ record_bytes x" "cnt + 1"] Cons.prems by (simp add: add.assoc)
  finally show ?case by simp
qed

lemma quarantine_law:
  assumes "quarantine_tail L s (length keep) (length junk) fs = (True, fs')" "junk \<noteq> []"
    "files fs (segmentPath s) = Some (keep @ junk)"
  shows "files fs' = (files fs)(quarantinePath s := Some ((case files fs (quarantinePath s) of None \<Rightarrow> [] | Some x \<Rightarrow> x) @ junk),
    segmentPath s := Some keep, kSegmentRepairPath := None)"
proof -
  let ?p = "segmentPath s" and ?r = kSegmentRepairPath and ?z = "quarantinePath s"
  have ne: "?p \<noteq> ?r" "?p \<noteq> ?z" "?z \<noteq> ?r"
    by (simp_all add: segmentPath_def kSegmentRepairPath_def quarantinePath_def)
  define f0 where "f0 = remove_if_exists L ?r fs"
  obtain o1 f1 where w: "open_write L ?r f0 = (o1, f1)" by fastforce
  obtain o2 f2 where c: "copy_range L ?p 0 ?r (length keep) f1 = (o2, f2)" by fastforce
  define o3 f3 where "o3 = (open_read L ?p fs \<and> o1 \<and> o2)" and "f3 = (if open_read L ?p fs \<and> o1 then f2 else f1)"
  obtain o4 f4 where a: "open_append L ?z f3 = (o4, f4)" by fastforce
  obtain o5 f5 where z: "copy_range L ?p (length keep) ?z (length junk) f4 = (o5, f5)" by fastforce
  have g: "(if open_read L ?p fs \<and> o1 then copy_range L ?p 0 ?r (length keep) f1 else (False, f1)) = (o3, f3)"
    by (auto simp: c o3_def f3_def)
  have "quarantine_tail L s (length keep) (length junk) fs =
      (if o3 then if o4 then if o5 then lfs_rename L ?r ?p f5 else (False, f5) else (False, f4) else (False, f4))"
    unfolding quarantine_tail_def f0_def [symmetric] Let_def w prod.case g a using assms(2)
    by (simp add: z)
  then have R: "o3" "o4" "o5" "lfs_rename L ?r ?p f5 = (True, fs')" using assms(1) by (auto split: if_splits)
  then have R': "open_read L ?p fs" "o1" "o2" "f3 = f2" by (simp_all add: o3_def f3_def)
  have 0: "files f0 = files fs \<or> files f0 = (files fs)(?r := None)"
    unfolding f0_def by (rule remove_if_exists_law)
  have 1: "files f1 = (files fs)(?r := Some [])" using open_write_law [OF w] R'(2) 0 by auto
  have 2: "files f2 = (files fs)(?r := Some keep)"
    using copy_range_law [OF c [unfolded R'(3)[THEN eqTrueI]] ne(1), of "keep @ junk" "[]"] open_ok [of _ ?p] ne 1 assms(3)
      R'(3) c by simp
  have 4: "files f4 = (files fs)(?r := Some keep, ?z := Some (case files fs ?z of None \<Rightarrow> [] | Some x \<Rightarrow> x))"
    using open_append_law [OF a] R(2) R'(4) 2 ne by simp
  have 5: "files f5 = (files f4)(?z := Some ((case files fs ?z of None \<Rightarrow> [] | Some x \<Rightarrow> x) @ junk))"
    using copy_range_law [of ?p "length keep" ?z "length junk" f4 f5 "keep @ junk"
        "case files fs ?z of None \<Rightarrow> [] | Some x \<Rightarrow> x"] open_ok [of _ ?p] ne 4 assms(3) z R(3) by simp
  show ?thesis
    using rename_law [OF R(4)] 4 5 ne by (auto simp: fun_eq_iff)
qed

end

subsection \<open>The recovery scan\<close>

text \<open>
  A segment on the volume before the scan: what was read already, the pending records, and a torn
  record behind them.
\<close>

definition disk_seg :: "(string \<Rightarrow> bytes option) \<Rightarrow> Queue \<Rightarrow> bool \<Rightarrow> bytes list \<Rightarrow> bytes \<Rightarrow> bool" where
  "disk_seg F q s ps junk \<longleftrightarrow>
     (\<exists>gone. F (segmentPath s) = Some (gone @ records ps @ junk) \<and> length gone = md_head (q_meta q) s) \<and>
     list_all record_ok ps \<and> torn junk \<and>
     md_head (q_meta q) s + length (records ps) \<le> q_segmentMaximumBytes q"

definition same_seg :: "bool \<Rightarrow> Queue \<Rightarrow> Queue \<Rightarrow> bool" where
  "same_seg s q q' \<longleftrightarrow> md_head (q_meta q') s = md_head (q_meta q) s \<and> q_tail q' s = q_tail q s \<and>
     q_count q' s = q_count q s \<and> activeSegment (q_meta q') = activeSegment (q_meta q) \<and>
     droppedRecords (q_meta q') = droppedRecords (q_meta q) \<and>
     q_segmentMaximumBytes q' = q_segmentMaximumBytes q"

definition old_quarantine :: "(string \<Rightarrow> bytes option) \<Rightarrow> bool \<Rightarrow> bytes" where
  "old_quarantine F s = (case F (quarantinePath s) of None \<Rightarrow> [] | Some x \<Rightarrow> x)"

definition scanned :: "Queue \<Rightarrow> bool \<Rightarrow> bytes list \<Rightarrow> Queue" where
  "scanned q s ps = q\<lparr>q_tail := (q_tail q)(s := md_head (q_meta q) s + length (records ps)),
     q_count := (q_count q)(s := length ps)\<rparr>"

lemma seg_ok_counters [simp]:
  "seg_ok F (q\<lparr>q_meta := (q_meta q)\<lparr>corruptionEvents := a, quarantinedBytes := b\<rparr>\<rparr>) s ps \<longleftrightarrow> seg_ok F q s ps"
  by (simp add: seg_ok_def)

lemma more_paths [simp]:
  "segmentPath s \<noteq> quarantinePath t" "quarantinePath t \<noteq> segmentPath s"
  "kSegmentRepairPath \<noteq> segmentPath s" "kSegmentRepairPath \<noteq> quarantinePath t" "quarantinePath t \<noteq> kSegmentRepairPath"
  "kMetadataPath \<noteq> quarantinePath t" "quarantinePath t \<noteq> kMetadataPath" "kMetadataPath \<noteq> kSegmentRepairPath"
  "kMetadataTemporaryPath \<noteq> quarantinePath t" "quarantinePath t \<noteq> kMetadataTemporaryPath"
  "kMetadataTemporaryPath \<noteq> segmentPath s"
  "quarantinePath s = quarantinePath t \<longleftrightarrow> s = t"
  by (cases s; cases t; simp add: segmentPath_def kMetadataPath_def kMetadataTemporaryPath_def
      kSegmentRepairPath_def quarantinePath_def)+

context sound_flash
begin

lemma scan_law:
  assumes "disk_seg (files fs) q s ps junk" "scanSegment L s q fs = (True, q', fs')"
  shows "seg_ok (files fs') q' s ps \<and> same_seg (\<not> s) q q' \<and> activeSegment (q_meta q') = activeSegment (q_meta q) \<and>
    (\<forall>p. p \<noteq> segmentPath s \<and> p \<noteq> quarantinePath s \<and> p \<noteq> kSegmentRepairPath \<longrightarrow> files fs' p = files fs p) \<and>
    old_quarantine (files fs') s = old_quarantine (files fs) s @ junk"
proof -
  obtain gone where F: "files fs (segmentPath s) = Some (gone @ records ps @ junk)"
    and g: "length gone = md_head (q_meta q) s" and ok: "list_all record_ok ps" "torn junk"
    and fits: "md_head (q_meta q) s + length (records ps) \<le> q_segmentMaximumBytes q"
    using assms(1) by (auto simp: disk_seg_def)
  let ?size = "length (gone @ records ps @ junk)"
  have size: "f_size L (segmentPath s) fs = ?size" by (rule size_law [OF open_ok [OF F] F])
  have start: "min (md_head (q_meta q) s) ?size = md_head (q_meta q) s" using g by simp
  have scan: "scan_from L (segmentPath s) ?size (md_head (q_meta q) s) 0 fs =
      (md_head (q_meta q) s + length (records ps), length ps)"
    using scan_records [OF F ok, of 0] g by simp
  define q1 where "q1 = scanned q s ps"
  obtain o2 f2 where qt: "quarantine_tail L s (md_head (q_meta q) s + length (records ps)) (length junk) fs = (o2, f2)"
    by fastforce
  define q2 where "q2 = (if junk = [] then q1 else q1\<lparr>q_meta := (q_meta q1)\<lparr>
      corruptionEvents := corruptionEvents (q_meta q1) + 1,
      quarantinedBytes := quarantinedBytes (q_meta q1) + of_nat (length junk)\<rparr>,
      q_lastError := ''Queue tail corruption quarantined''\<rparr>)"
  define f3 where "f3 = (if junk = [] then fs else f2)"
  have e: "q\<lparr>q_meta := (q_meta q)\<lparr>md_head := (md_head (q_meta q))(s := md_head (q_meta q) s)\<rparr>,
      q_tail := (q_tail q)(s := md_head (q_meta q) s + length (records ps)),
      q_count := (q_count q)(s := length ps)\<rparr> = q1"
    by (simp add: q1_def scanned_def)
  have d: "?size - (md_head (q_meta q) s + length (records ps)) = length junk" using g by simp
  have lt: "md_head (q_meta q) s + length (records ps) < ?size \<longleftrightarrow> junk \<noteq> []" using g by simp
  have eq: "scanSegment L s q fs =
      (if junk \<noteq> [] \<and> \<not> o2 then fail ''Queue tail repair failed'' q1 f2
       else if ps = [] then truncateSegment L s q2 f3 else (True, q2, f3))"
    unfolding scanSegment_def Let_def size start scan prod.case e d lt using qt
    by (cases "ps = []") (simp_all add: open_ok [OF F] fail_def q2_def f3_def split: bool.split)
  then have R: "junk \<noteq> [] \<Longrightarrow> o2"
    "if ps = [] then truncateSegment L s q2 f3 = (True, q', fs') else q' = q2 \<and> fs' = f3"
    using assms(2) by (auto simp: fail_def split: if_splits)
  have f3: "files f3 (segmentPath s) = Some (gone @ records ps)"
    "\<forall>p. p \<noteq> segmentPath s \<and> p \<noteq> quarantinePath s \<and> p \<noteq> kSegmentRepairPath \<longrightarrow> files f3 p = files fs p"
    "old_quarantine (files f3) s = old_quarantine (files fs) s @ junk"
  proof (atomize (full), cases "junk = []")
    case True
    then show "files f3 (segmentPath s) = Some (gone @ records ps) \<and>
        (\<forall>p. p \<noteq> segmentPath s \<and> p \<noteq> quarantinePath s \<and> p \<noteq> kSegmentRepairPath \<longrightarrow> files f3 p = files fs p) \<and>
        old_quarantine (files f3) s = old_quarantine (files fs) s @ junk"
      using F by (simp add: f3_def)
  next
    case False
    then have q: "quarantine_tail L s (length (gone @ records ps)) (length junk) fs = (True, f2)" "f3 = f2"
      using qt R(1) g by (simp_all add: f3_def)
    from quarantine_law [OF q(1) False] F show "files f3 (segmentPath s) = Some (gone @ records ps) \<and>
        (\<forall>p. p \<noteq> segmentPath s \<and> p \<noteq> quarantinePath s \<and> p \<noteq> kSegmentRepairPath \<longrightarrow> files f3 p = files fs p) \<and>
        old_quarantine (files f3) s = old_quarantine (files fs) s @ junk"
      unfolding q(2) by (simp add: old_quarantine_def)
  qed
  have q1: "seg_ok (files f3) q1 s ps" "same_seg (\<not> s) q q1" "activeSegment (q_meta q1) = activeSegment (q_meta q)"
    using f3(1) g ok(1) fits by (auto simp: q1_def scanned_def seg_ok_def same_seg_def)
  have q2: "seg_ok (files f3) q2 s ps" "same_seg (\<not> s) q q2" "activeSegment (q_meta q2) = activeSegment (q_meta q)"
    using q1 by (auto simp: q2_def seg_ok_def same_seg_def)
  show ?thesis
  proof (cases "ps = []")
    case False
    then show ?thesis using R(2) q2 f3 by simp
  next
    case True
    then have t: "q' = reset_segment s q2" "files fs' = (files f3)(segmentPath s := Some [])"
      using R(2) truncate_law [of s q2 f3 True q' fs'] by simp_all
    have "seg_ok (files fs') q' s ps" unfolding t True by (rule seg_ok_reset)
    then show ?thesis using q2(2,3) f3(2,3) unfolding t
      by (auto simp: same_seg_def reset_segment_def old_quarantine_def)
  qed
qed

end

lemma disk_seg_files:
  "F' (segmentPath s) = F (segmentPath s) \<Longrightarrow> disk_seg F' q s ps junk \<longleftrightarrow> disk_seg F q s ps junk"
  by (simp add: disk_seg_def)

lemma disk_seg_same: "same_seg s q q' \<Longrightarrow> disk_seg F q' s ps junk \<longleftrightarrow> disk_seg F q s ps junk"
  by (simp add: disk_seg_def same_seg_def)

lemma seg_ok_same: "same_seg s q q' \<Longrightarrow> seg_ok F q' s ps \<longleftrightarrow> seg_ok F q s ps"
  by (simp add: seg_ok_def same_seg_def)

context sound_flash
begin

lemma loadMetadata_law:
  assumes "files fs kMetadataPath = Some (metadata_bytes m)" "\<forall>s. md_head m s < 4294967296"
  shows "loadMetadata L fs = Some m"
  using assms size_law [OF open_ok [OF assms(1)] assms(1)] parse_metadata_bytes [of m]
  by (simp add: loadMetadata_def open_ok read_ok)

lemma recover_law:
  assumes "files fs kMetadataPath = Some (metadata_bytes m)" "\<forall>s. md_head m s < 4294967296"
    "\<forall>s. disk_seg (files fs) (q\<lparr>q_meta := m\<rparr>) s (ps s) (junk s)"
    "recover L q fs = (True, q', fs')"
  shows "(\<forall>s. seg_ok (files fs') q' s (ps s)) \<and> activeSegment (q_meta q') = activeSegment m \<and>
    droppedRecords (q_meta q') = droppedRecords m \<and>
    q_segmentMaximumBytes q' = q_segmentMaximumBytes q \<and> stored (files fs') q' \<and>
    (\<forall>s. old_quarantine (files fs') s = old_quarantine (files fs) s @ junk s)"
proof -
  define f0 where "f0 = remove_if_exists L kMetadataTemporaryPath fs"
  define f1 where "f1 = remove_if_exists L kSegmentRepairPath f0"
  have f1: "files f1 p = files fs p" if "p \<noteq> kMetadataTemporaryPath" "p \<noteq> kSegmentRepairPath" for p
    using remove_if_exists_law [of kMetadataTemporaryPath fs] remove_if_exists_law [of kSegmentRepairPath f0] that
    by (auto simp: f0_def f1_def)
  have ld: "loadMetadata L f1 = Some m"
    using f1 [of kMetadataPath] assms(1,2) by (intro loadMetadata_law) simp_all
  define q1 where "q1 = q\<lparr>q_meta := m\<rparr>"
  obtain o2 q2 f2 where s0: "scanSegment L False q1 f1 = (o2, q2, f2)" by (metis prod.collapse)
  obtain o3 q3 f3 where s1: "scanSegment L True q2 f2 = (o3, q3, f3)" by (metis prod.collapse)
  have eq: "recover L q fs = (if \<not> o2 then (False, q2, f2) else if \<not> o3 then (False, q3, f3) else saveMetadata L q3 f3)"
    unfolding recover_def Let_def f0_def [symmetric] f1_def [symmetric] ld option.case q1_def [symmetric]
    by (simp add: s0 s1 split: bool.split)
  then have R: "o2" "o3" "saveMetadata L q3 f3 = (True, q', fs')" using assms(4) by (auto split: if_splits)
  have d: "disk_seg (files f1) q1 s (ps s) (junk s)" for s
    using assms(3) f1 [of "segmentPath s"] by (simp add: q1_def disk_seg_files [of "files f1" s "files fs"])
  have "disk_seg (files f1) q1 False (ps False) (junk False)" by (rule d)
  from scan_law [OF this, of q2 f2] have A: "seg_ok (files f2) q2 False (ps False)" "same_seg True q1 q2"
    "activeSegment (q_meta q2) = activeSegment m"
    "\<forall>p. p \<noteq> segmentPath False \<and> p \<noteq> quarantinePath False \<and> p \<noteq> kSegmentRepairPath \<longrightarrow> files f2 p = files f1 p"
    "old_quarantine (files f2) False = old_quarantine (files f1) False @ junk False"
    using s0 R(1) by (simp_all add: q1_def)
  have "disk_seg (files f2) q2 True (ps True) (junk True)"
    using d [of True] A(4) by (simp add: disk_seg_same [OF A(2)] disk_seg_files [of "files f2" True "files f1"])
  from scan_law [OF this, of q3 f3] have B: "seg_ok (files f3) q3 True (ps True)" "same_seg False q2 q3"
    "activeSegment (q_meta q3) = activeSegment (q_meta q2)"
    "\<forall>p. p \<noteq> segmentPath True \<and> p \<noteq> quarantinePath True \<and> p \<noteq> kSegmentRepairPath \<longrightarrow> files f3 p = files f2 p"
    "old_quarantine (files f3) True = old_quarantine (files f2) True @ junk True"
    using s1 R(2) by simp_all
  have C: "seg_ok (files f3) q3 False (ps False)"
    using A(1) B(4) by (simp add: seg_ok_same [OF B(2)] seg_ok_files [of "files f3" False "files f2"])
  have D: "old_quarantine (files f3) s = old_quarantine (files fs) s @ junk s" for s
    using A(4,5) B(4,5) f1 by (cases s) (simp_all add: old_quarantine_def)
  obtain e where q': "q' = q3\<lparr>q_lastError := e\<rparr>" using saveMetadata_law(1) [OF R(3)] by blast
  have E: "files fs' (segmentPath s) = files f3 (segmentPath s)" "files fs' (quarantinePath s) = files f3 (quarantinePath s)" for s
    using saveMetadata_law(3) [OF R(3)] by simp_all
  have "seg_ok (files fs') q' s (ps s)" for s
    using B(1) C E(1) [of s] by (cases s) (simp_all add: q' seg_ok_files [of "files fs'" _ "files f3"])
  moreover have "old_quarantine (files fs') s = old_quarantine (files fs) s @ junk s" for s
    using D [of s] E(2) [of s] by (simp add: old_quarantine_def)
  ultimately show ?thesis
    using A(2,3) B(2,3) saveMetadata_stored [OF R(3)] by (simp add: q' same_seg_def q1_def)
qed

lemma recover_capacity:
  assumes "recover L q fs = (True, q', fs')"
  shows "q_segmentMaximumBytes q' = q_segmentMaximumBytes q"
proof -
  have t: "q_segmentMaximumBytes q' = q_segmentMaximumBytes q" if "truncateSegment L s q fs = (b, q', fs')"
    for s q fs b q' fs'
    using truncate_law [OF that] by (auto split: if_splits)
  have s: "q_segmentMaximumBytes q' = q_segmentMaximumBytes q" if "scanSegment L s q fs = (b, q', fs')"
    for s q fs b q' fs'
    using that by (auto simp: scanSegment_def Let_def fail_def dest!: t split: prod.splits if_splits bool.splits)
  have v: "q_segmentMaximumBytes q' = q_segmentMaximumBytes q" if "saveMetadata L q fs = (b, q', fs')"
    for q fs b q' fs'
    using saveMetadata_law(1) [OF that] by auto
  show ?thesis
    using assms by (auto simp: recover_def Let_def dest!: s v split: prod.splits bool.splits)
qed

text \<open>Starting on a volume that mounts.\<close>

lemma begin_recovers:
  assumes "begin_queue P L True maxb q0 fs = (True, q', fs')" "\<forall>label. fst (lfs_begin L label fs)"
  obtains q1 q2 f1 where "files f1 = files fs" "recover L q1 f1 = (True, q2, fs')"
    "q' = q2\<lparr>q_ready := True, q_rejectedRecords := q_rejectedRecords q'\<rparr>"
proof -
  have m: "files (snd (mount P L fs)) = files fs"
    using assms(2) begin_law
    by (auto simp: mount_def Let_def split: option.splits prod.splits bool.splits)
      (metis fst_conv begin_law)+
  obtain e f1 where mo: "mount P L fs = (e, f1)" by fastforce
  show ?thesis
    using assms(1) mo m that
    by (auto simp: begin_queue_def fail_def Let_def split: if_splits option.splits prod.splits bool.splits)
qed

end

subsection \<open>Batches\<close>

text \<open>The room a batch takes, a separator for each record included.\<close>

definition batch_bytes :: "bytes list \<Rightarrow> nat" where
  "batch_bytes xs = sum_list (map (\<lambda>x. length x + 1) xs)"

context flash
begin

lemma record_read:
  assumes "open_read L p fs" "files fs p = Some (gone @ records (x # xs))" "length gone = pos" "record_ok x"
    "header_ok (f_read L p pos 12 fs)"
  shows "header_length (f_read L p pos 12 fs) = length x"
    "length (read_payload L ask p (pos + 12) (length x) fs) = length x \<Longrightarrow>
     read_payload L ask p (pos + 12) (length x) fs = x"
proof -
  have "length (f_read L p pos 12 fs) = 12" using assms(5) by (simp add: header_ok_def)
  from read_full(1) [OF assms(1,2) this] have "f_read L p pos 12 fs = record_header x"
    using records_at(1) [OF assms(3)] by simp
  then show "header_length (f_read L p pos 12 fs) = length x" using record_header_fields [OF assms(4)] by simp
  assume "length (read_payload L ask p (pos + 12) (length x) fs) = length x"
  from read_payload_full [OF assms(1,2) this] show "read_payload L ask p (pos + 12) (length x) fs = x"
    using records_at(2) [OF assms(3)] by simp
qed

lemma batch_law:
  assumes "open_read L p fs" "files fs p = Some (gone @ records ps)" "list_all record_ok ps" "n \<le> length ps"
    "batch_segment L p maxb n (length gone) used fs = (xs, t, e)"
  shows "\<exists>k \<le> n. xs = take k ps \<and> (e = None \<longrightarrow> k = n) \<and> t = used + batch_bytes xs \<and> (xs \<noteq> [] \<longrightarrow> t \<le> maxb)"
  using assms
proof (induction n arbitrary: gone ps used xs)
  case 0
  then show ?case by (auto simp: batch_bytes_def)
next
  case (Suc n)
  then obtain x ps' where ps: "ps = x # ps'" by (cases ps) auto
  define h where "h = f_read L p (length gone) 12 fs"
  define b where "b = read_payload L False p (length gone + 12) (header_length h) fs"
  obtain ys t' e' where r: "batch_segment L p maxb n (length gone + 12 + length b) (used + length b + 1) fs = (ys, t', e')"
    by (metis prod.collapse)
  have eq: "batch_segment L p maxb (Suc n) (length gone) used fs =
      (if \<not> header_ok h then ([], used, Some ''Queue batch header invalid'')
       else if used + header_length h + 1 > maxb then ([], used, Some [])
       else if length b \<noteq> header_length h \<or> fnv1a b \<noteq> get32 (drop 8 h)
       then ([], used, Some ''Queue batch checksum invalid'') else (b # ys, t', e'))"
    by (simp only: batch_segment.simps Let_def h_def [symmetric] b_def [symmetric] r prod.case)
  have nil: "?case" if "xs = []" "t = used" "e \<noteq> None"
    using that by (intro exI [of _ 0]) (simp add: batch_bytes_def)
  show ?case
  proof (cases "header_ok h \<and> used + header_length h + 1 \<le> maxb \<and> length b = header_length h \<and> fnv1a b = get32 (drop 8 h)")
    case False
    then show ?thesis using Suc.prems(5) nil unfolding eq by (auto split: if_splits)
  next
    case True
    have x: "record_ok x" using Suc.prems(3) ps by simp
    note rr = record_read [OF Suc.prems(1) Suc.prems(2)[unfolded ps] refl x]
    have hl: "header_length h = length x" using rr(1) True by (simp add: h_def)
    have b: "b = x" using rr(2) [of False] True hl by (simp add: b_def h_def)
    have E: "xs = x # ys" "t = t'" "e = e'" using Suc.prems(5) True unfolding eq by (auto simp: b)
    have F: "files fs p = Some ((gone @ record_bytes x) @ records ps')" using Suc.prems(2) by (simp add: ps)
    have "\<exists>k \<le> n. ys = take k ps' \<and> (e' = None \<longrightarrow> k = n) \<and> t' = (used + length x + 1) + batch_bytes ys \<and> (ys \<noteq> [] \<longrightarrow> t' \<le> maxb)"
      using Suc.IH [OF Suc.prems(1) F, of "used + length x + 1" ys] Suc.prems(3,4) r E
      by (simp add: ps b add.assoc)
    then obtain k where "k \<le> n" "ys = take k ps'" "e' = None \<longrightarrow> k = n"
      "t' = used + length x + 1 + batch_bytes ys" "ys \<noteq> [] \<longrightarrow> t' \<le> maxb" by blast
    moreover have "t \<le> maxb"
      using calculation(4,5) E True hl by (cases "ys = []") (simp_all add: batch_bytes_def)
    ultimately show ?thesis using E by (intro exI [of _ "Suc k"]) (auto simp: ps batch_bytes_def)
  qed
qed

lemma peekBatch_law:
  assumes "holds (files fs) q old new" "peekBatch L n maxb q fs = (xs, q')"
  shows "prefix xs (old @ new) \<and> length xs \<le> min n 8 \<and> (xs \<noteq> [] \<longrightarrow> batch_bytes xs \<le> maxb) \<and>
    (\<exists>e. q' = q\<lparr>q_lastError := e\<rparr>)"
proof -
  define m where "m = min n 8"
  define first where "first = oldestSegment q"
  define A B where "A = (if old \<noteq> [] then old else new)" and "B = (if old \<noteq> [] then new else [])"
  have AB: "A @ B = old @ new" by (simp add: A_def B_def)
  have cnt: "q_count q (\<not> activeSegment (q_meta q)) = length old" using assms(1) by (simp add: holds_def seg_ok_def)
  have segA: "seg_ok (files fs) q first A" and segB: "B \<noteq> [] \<Longrightarrow> seg_ok (files fs) q (\<not> first) B" and
    cB: "q_count q (\<not> first) = length B"
    using assms(1) cnt by (auto simp: first_def oldestSegment_def A_def B_def holds_def seg_ok_def Let_def)
  have cA: "q_count q first = length A" using segA by (simp add: seg_ok_def)
  define T where "T = batch_pass L m maxb q fs"
  have law: "\<exists>k \<le> min (length ps) (m - got). ys = take k ps \<and>
      (e = None \<longrightarrow> k = min (length ps) (m - got)) \<and>
      t = used + batch_bytes ys \<and> (ys \<noteq> [] \<longrightarrow> t \<le> maxb)"
    if "seg_ok (files fs) q s ps" "open_read L (segmentPath s) fs" "T s got used = (ys, t, e)" for s ps got used ys t e
  proof -
    note S = that
    obtain gone where "files fs (segmentPath s) = Some (gone @ records ps)" "length gone = md_head (q_meta q) s"
      "list_all record_ok ps" "q_count q s = length ps" using S(1) by (auto simp: seg_ok_def)
    then show ?thesis using batch_law [OF S(2), of gone ps "min (length ps) (m - got)" maxb used ys t e] S(3)
      by (simp add: T_def batch_pass_def)
  qed
  obtain ps t e where 1: "T first 0 0 = (ps, t, e)" by (metis prod.collapse)
  obtain ps2 t2 e2 where 2: "T (\<not> first) (length ps) t = (ps2, t2, e2)" by (metis prod.collapse)
  let ?o = "seg_opens L q fs"
  define out where "out = (if \<not> q_ready q \<or> pendingRecords q = 0 \<or> n = 0 \<or> length A = 0 \<or> \<not> ?o first then []
       else if e \<noteq> None \<or> length ps \<ge> m \<or> length B = 0 \<or> \<not> ?o (\<not> first) then ps else ps @ ps2)"
  have pend: "pendingRecords q = length A + length B" using holds_pending [OF assms(1)] AB by (metis length_append)
  have bA: "length A = 0 \<Longrightarrow> length B = 0" by (simp add: A_def B_def split: if_splits)
  have ways: "\<exists>er. batch_done q ys = (ys, q\<lparr>q_lastError := er\<rparr>)" "\<exists>er. batch_early q ys msg = (ys, q\<lparr>q_lastError := er\<rparr>)"
    "\<exists>er. batch_seek_error q ys = (ys, q\<lparr>q_lastError := er\<rparr>)" "\<exists>er. ([], q) = ([], q\<lparr>q_lastError := er\<rparr>)"
    for ys msg
    by (auto simp: batch_done_def batch_early_def batch_seek_error_def intro: exI [of _ "q_lastError q"])
  have eq: "peekBatch L n maxb q fs =
      (if \<not> q_ready q \<or> pendingRecords q = 0 \<or> n = 0 then ([], q)
       else if \<not> ?o first then batch_seek_error q []
       else case e of Some er \<Rightarrow> batch_early q ps er
       | None \<Rightarrow> if length ps \<ge> m \<or> length B = 0 then batch_done q ps
           else if \<not> ?o (\<not> first) then batch_seek_error q ps
           else case e2 of Some er \<Rightarrow> batch_early q (ps @ ps2) er | None \<Rightarrow> batch_done q (ps @ ps2))"
  proof (cases "pendingRecords q = 0")
    case True
    then show ?thesis by (simp add: peekBatch_def)
  next
    case False
    then have "length A \<noteq> 0" using pend bA by linarith
    then show ?thesis
      unfolding peekBatch_def first_def [symmetric] m_def [symmetric] Let_def T_def [symmetric] cA cB 1
      by (simp add: 2 split: option.split)
  qed
  have "\<exists>er. peekBatch L n maxb q fs = (out, q\<lparr>q_lastError := er\<rparr>)"
  proof (cases "\<not> q_ready q \<or> pendingRecords q = 0 \<or> n = 0 \<or> \<not> ?o first \<or> length A = 0")
    case True
    then show ?thesis using ways(3) [of "[]"] ways(4) pend bA unfolding eq out_def by auto
  next
    case False
    then show ?thesis using ways(1-3) [of ps] ways(1-3) [of "ps @ ps2"] unfolding eq out_def
      by (cases e; cases e2) simp_all
  qed
  then have xs: "xs = out" "\<exists>e. q' = q\<lparr>q_lastError := e\<rparr>" using assms(2) by auto
  have 3: "prefix out (A @ B) \<and> length out \<le> m \<and> (out \<noteq> [] \<longrightarrow> batch_bytes out \<le> maxb)"
  proof (cases "?o first")
    case False
    then show ?thesis by (simp add: out_def)
  next
    case True
    have "open_read L (segmentPath first) fs" using True by (simp add: seg_opens_def)
    from law [OF segA this 1, unfolded diff_zero add_0] obtain k where k: "k \<le> min (length A) m" "ps = take k A"
      "e = None \<longrightarrow> k = min (length A) m" "t = batch_bytes ps" "ps \<noteq> [] \<longrightarrow> t \<le> maxb" by blast
    have P: "prefix ps (A @ B) \<and> length ps \<le> m \<and> (ps \<noteq> [] \<longrightarrow> batch_bytes ps \<le> maxb)"
      using k by (auto simp: take_is_prefix prefix_prefix)
    have Q: "prefix (ps @ ps2) (A @ B) \<and> length (ps @ ps2) \<le> m \<and> batch_bytes (ps @ ps2) \<le> maxb"
      if c: "e = None" "length ps < m" "B \<noteq> []" "?o (\<not> first)" "length A \<noteq> 0"
    proof -
      have "k = length A" using k(1-3) c(1,2) by auto
      then have ps: "ps = A" using k(2) by simp
      have "open_read L (segmentPath (\<not> first)) fs" using c(4) by (simp add: seg_opens_def)
      from law [OF segB [OF c(3)] this 2] obtain k2 where "k2 \<le> min (length B) (m - length ps)" "ps2 = take k2 B"
        "t2 = t + batch_bytes ps2" "ps2 \<noteq> [] \<longrightarrow> t2 \<le> maxb" by blast
      then show ?thesis using ps k(4,5) c(2,5) by (auto simp: take_is_prefix batch_bytes_def)
    qed
    show ?thesis using P Q by (auto simp: out_def)
  qed
  then show ?thesis using xs unfolding AB m_def by blast
qed
end

context sound_flash
begin

lemma read_payload_sound:
  "files fs p = Some c \<Longrightarrow> read_payload L ask p pos wanted fs = take wanted (drop pos c)"
proof (induction wanted arbitrary: pos rule: less_induct)
  case (less wanted)
  have d: "f_read L p pos (min 256 wanted) fs = take (min 256 wanted) (drop pos c)" by (rule read_ok [OF less.prems])
  have size: "f_size L p fs = length c" by (rule size_law [OF open_ok [OF less.prems] less.prems])
  show ?case
  proof (cases "wanted = 0 \<or> length c \<le> pos")
    case True
    then show ?thesis by (subst read_payload.simps) (auto simp: Let_def size d)
  next
    case False
    define k where "k = length (take (min 256 wanted) (drop pos c))"
    have kc: "min (length c - pos) k = k" by (simp add: k_def)
    have k: "0 < k" "k \<le> wanted" "take (min 256 wanted) (drop pos c) = take k (drop pos c)"
      using False by (simp_all add: k_def min_def)
    have "read_payload L ask p pos wanted fs =
        take k (drop pos c) @ read_payload L ask p (pos + k) (wanted - k) fs"
      using False k(1) by (subst read_payload.simps) (auto simp: Let_def size d k(3) k_def [symmetric] kc)
    also have "\<dots> = take k (drop pos c) @ take (wanted - k) (drop (pos + k) c)"
      using less.IH [of "wanted - k" "pos + k"] less.prems k(1,2) by simp
    also have "\<dots> = take wanted (drop pos c)"
      using k(2) take_add [of k "wanted - k" "drop pos c"] by (simp add: add.commute)
    finally show ?thesis .
  qed
qed

lemma peek_sound:
  assumes "holds (files fs) q old new" "old @ new = x # ps"
  shows "fst (peek L q fs) = Some x"
proof -
  obtain ys where "seg_ok (files fs) q (oldestSegment q) (x # ys)" by (rule holds_head [OF assms])
  then obtain gone where F: "files fs (segmentPath (oldestSegment q)) = Some (gone @ records (x # ys))"
    and g: "length gone = md_head (q_meta q) (oldestSegment q)" and x: "record_ok x" by (auto simp: seg_ok_def)
  have "q_ready q" "pendingRecords q \<noteq> 0"
    using assms holds_pending [OF assms(1)] by (auto simp: holds_def)
  moreover have "f_read L (segmentPath (oldestSegment q)) (md_head (q_meta q) (oldestSegment q)) 12 fs = record_header x"
    using records_at(1) [OF g] by (simp only: read_ok [OF F])
  moreover have "read_payload L True (segmentPath (oldestSegment q)) (md_head (q_meta q) (oldestSegment q) + 12) (length x) fs = x"
    using records_at(2) [OF g] by (simp only: read_payload_sound [OF F])
  ultimately show ?thesis
    using open_ok [OF F] seek_ok [OF F, of "md_head (q_meta q) (oldestSegment q)"] g record_header_fields [OF x]
    by (simp add: peek_def Let_def)
qed

end

subsection \<open>A concrete volume\<close>

text \<open>Segments that hold one record of one byte each, on the volume of the host tests.\<close>

definition small_queue :: Queue where
  "small_queue = new_queue\<lparr>q_segmentMaximumBytes := 14, q_ready := True\<rparr>"

definition small_volume :: "nat \<Rightarrow> fake_fs" where
  "small_volume n = (blank_volume n)\<lparr>fs_files :=
     [(segmentPath False, []), (segmentPath True, []), (kMetadataPath, metadata_bytes empty_metadata)]\<rparr>"

definition small_ops :: "QueueOp list" where
  "small_ops = [Enqueue [1], Enqueue [2], Enqueue [3], Acknowledge [2] False]"

lemma small_durable: "durable (fs_content (small_volume n)) small_queue []"
proof -
  have F: "fs_content (small_volume n) (segmentPath s) = Some []"
    "fs_content (small_volume n) kMetadataPath = Some (metadata_bytes empty_metadata)" for s
    by (cases s; simp add: small_volume_def fs_content_def segmentPath_def kMetadataPath_def)+
  have "holds (fs_content (small_volume n)) small_queue [] []"
    by (simp add: holds_def seg_ok_def F small_queue_def new_queue_def empty_metadata_def)
  then show ?thesis by (simp add: durable_def stored_def F small_queue_def new_queue_def)
qed

definition one_record :: "nat \<Rightarrow> Queue \<times> fake_fs" where
  "one_record n = the (queue_run fake_lfs [Enqueue [1]] small_queue (small_volume n))"

lemma one_record_run:
  "queue_run fake_lfs [Enqueue [1]] small_queue (small_volume n) = Some (fst (one_record n), snd (one_record n))"
proof -
  have "queue_run fake_lfs [Enqueue [1]] small_queue (small_volume n) \<noteq> None" by code_simp
  then show ?thesis by (auto simp: one_record_def)
qed

lemma one_record_durable:
  "\<exists>ps. durable (fs_content (snd (one_record n))) (fst (one_record n)) ps"
  using fake_volume.run_conserved [OF small_durable one_record_run] by blast

definition small_result :: "nat \<Rightarrow> Queue \<times> fake_fs" where
  "small_result n = the (queue_run fake_lfs small_ops small_queue (small_volume n))"

lemma small_run:
  "queue_run fake_lfs small_ops small_queue (small_volume n) = Some (fst (small_result n), snd (small_result n))"
proof -
  have "queue_run fake_lfs small_ops small_queue (small_volume n) \<noteq> None" by code_simp
  then show ?thesis by (auto simp: small_result_def)
qed

lemma small_result_durable:
  "\<exists>ps. durable (fs_content (snd (small_result n))) (fst (small_result n)) ps"
  using fake_volume.run_conserved [OF small_durable small_run] by blast

text \<open>The power fails five bytes into the append of one more record; the same volume, started again.\<close>

definition crashed_volume :: "nat \<Rightarrow> fake_fs" where
  "crashed_volume n = (let (q, fs) = one_record n; p = segmentPath (activeSegment (q_meta q))
     in fs_put p (the (fs_content fs p) @ take 5 (record_bytes [9])) fs)"

definition small_partition :: esp_flash where
  "small_partition = \<lparr>find_partition = (\<lambda>label. Some 600000), partition_read = (\<lambda>label offset n. None)\<rparr>"

lemma crashed_recovers:
  "fst (recover fake_lfs (new_queue\<lparr>q_segmentMaximumBytes := 14, q_enabled := True\<rparr>) (crashed_volume n))"
  "fs_mount (crashed_volume n)" "fs_total (crashed_volume n) = n"
  by code_simp+

lemma crashed_begins:
  obtains q' fs'' where "begin_queue small_partition fake_lfs True 28 new_queue (crashed_volume 600000) = (True, q', fs'')"
    "q_segmentMaximumBytes q' = 14"
proof -
  obtain q2 f2 where r: "recover fake_lfs (new_queue\<lparr>q_segmentMaximumBytes := 14, q_enabled := True\<rparr>)
      (crashed_volume 600000) = (True, q2, f2)"
    using crashed_recovers(1) [of 600000] by (metis fst_conv prod.exhaust)
  have "mount small_partition fake_lfs (crashed_volume 600000) = (None, crashed_volume 600000)"
    by (simp add: mount_def small_partition_def fake_lfs_def crashed_recovers)
  moreover have "lfs_totalBytes fake_lfs (crashed_volume 600000) = 600000"
    by (simp add: fake_lfs_def crashed_recovers)
  moreover have "new_queue\<lparr>q_enabled := True, q_ready := False, q_rejectedRecords := 0, q_lastError := [],
      q_segmentMaximumBytes := 14\<rparr> = new_queue\<lparr>q_segmentMaximumBytes := 14, q_enabled := True\<rparr>"
    by (simp add: new_queue_def)
  moreover have "q_segmentMaximumBytes q2 = 14"
    using fake_volume.recover_capacity [OF r] by simp
  ultimately show ?thesis
    using r that by (auto simp: begin_queue_def kFilesystemReserveBytes_def Let_def)
qed

subsection \<open>The properties\<close>

text \<open>
  C3: A sequence of successful operations keeps every accepted payload until it is acknowledged or
  counted as dropped: the list of pending payloads changes only by appending what is enqueued at
  its end and removing from its front, each removed payload was named by an acknowledgement (in
  order) or evicted with its half of the queue, and the loss counter grows, saturating, by exactly
  the evicted and the discarded ones; the metadata on the volume follow.
\<close>

theorem queue_conserves:
  assumes "flash L files" "durable (files fs) q ps" "queue_run L xs q fs = Some (q', fs')"
  shows "\<exists>ps'. durable (files fs') q' ps' \<and>
    conserved ps (droppedRecords (q_meta q)) xs ps' (droppedRecords (q_meta q'))"
  using flash.run_conserved [OF assms] by blast

theorem queue_conserves_witness:
  "\<exists>ps'. durable (fs_content (snd (small_result 100))) (fst (small_result 100)) ps' \<and>
    conserved [] 0 small_ops ps' (droppedRecords (q_meta (fst (small_result 100))))"
  using queue_conserves [OF fake_volume.flash_axioms small_durable small_run]
  by (simp add: small_queue_def new_queue_def empty_metadata_def)

text \<open>
  C23: No call of \<open>popIfMatches\<close>, whatever fails in it, removes anything but the head of the queue,
  and that only if it is the payload submitted.
\<close>

theorem ack_removes_only_submitted:
  assumes "flash L files" "holds (files fs) q old new" "popIfMatches L submitted d q fs = (b, q', fs')"
  shows "\<exists>old' new'. holds (files fs') q' old' new' \<and>
    (old' @ new' = old @ new \<or> old @ new = submitted # old' @ new')"
proof -
  obtain old' new' where "holds (files fs') q' old' new'"
    "old' @ new' = old @ new \<or> (old @ new \<noteq> [] \<and> hd (old @ new) = submitted \<and> old' @ new' = tl (old @ new))"
    using flash.popIfMatches_law [OF assms] by blast
  then show ?thesis by (metis list.collapse)
qed

theorem ack_removes_only_submitted_witness:
  "\<exists>q' fs' old' new' old new b.
    popIfMatches fake_lfs [2] False (fst (small_result 100)) (snd (small_result 100)) = (b, q', fs') \<and>
    holds (fs_content fs') q' old' new' \<and> (old' @ new' = old @ new \<or> old @ new = [2] # old' @ new')"
proof -
  obtain old new where H: "holds (fs_content (snd (small_result 100))) (fst (small_result 100)) old new"
    using small_result_durable [of 100] by (auto simp: durable_def)
  show ?thesis
    using ack_removes_only_submitted [OF fake_volume.flash_axioms H]
    by (metis prod.collapse)
qed

text \<open>
  C4: A power loss in the middle of an append loses nothing that was accepted: starting again on a
  volume where the active segment ends in a proper prefix of a record, the queue holds the same
  payloads in the same order, with the loss counter it had, and the torn bytes are at the end of
  the quarantine file.
\<close>

theorem queue_survives_power_loss:
  fixes files :: "'fs \<Rightarrow> string \<Rightarrow> bytes option"
  assumes "sound_flash L files" "durable (files fs) q ps" "torn junk"
    and "files fs' = (files fs)(segmentPath (activeSegment (q_meta q)) :=
      Some (the (files fs (segmentPath (activeSegment (q_meta q)))) @ junk))"
    and "\<forall>label. fst (lfs_begin L label fs')" "begin_queue P L True maxb q0 fs' = (True, q', fs'')"
    and "q_segmentMaximumBytes q' = q_segmentMaximumBytes q"
  shows "durable (files fs'') q' ps \<and> droppedRecords (q_meta q') = droppedRecords (q_meta q) \<and>
    old_quarantine (files fs'') (activeSegment (q_meta q)) =
      old_quarantine (files fs') (activeSegment (q_meta q)) @ junk"
proof -
  let ?a = "activeSegment (q_meta q)"
  obtain old new where H: "holds (files fs) q old new" "ps = old @ new" "stored (files fs) q"
    using assms(2) by (auto simp: durable_def)
  obtain q1 q2 f1 where R: "files f1 = files fs'" "recover L q1 f1 = (True, q2, fs'')"
    "q' = q2\<lparr>q_ready := True, q_rejectedRecords := q_rejectedRecords q'\<rparr>"
    using sound_flash.begin_recovers [OF assms(1,6,5)] by blast
  have q2: "q_segmentMaximumBytes q2 = q_segmentMaximumBytes q" "q_meta q' = q_meta q2"
    using assms(7) by (subst (asm) R(3), simp) (subst R(3), simp)
  define pss where "pss = (\<lambda>s. if s = ?a then new else old)"
  define js where "js = (\<lambda>s. if s = ?a then junk else [])"
  have seg: "seg_ok (files fs) q s (pss s)" for s
    using H(1) by (cases s; cases ?a) (simp_all add: holds_def pss_def)
  have small: "q_segmentMaximumBytes q < 4294967296" using H(1) by (simp add: holds_def)
  have heads: "\<forall>s. md_head (q_meta q) s < 4294967296"
  proof
    fix s show "md_head (q_meta q) s < 4294967296" using seg [of s] small by (simp add: seg_ok_def)
  qed
  have meta: "files f1 kMetadataPath = Some (metadata_bytes (q_meta q))"
    using H(3) assms(4) by (simp add: R(1) stored_def)
  have same: "q_segmentMaximumBytes q1 = q_segmentMaximumBytes q2"
    using sound_flash.recover_capacity [OF assms(1) R(2)] by simp
  have disk: "disk_seg (files f1) (q1\<lparr>q_meta := q_meta q\<rparr>) s (pss s) (js s)" for s
    using seg [of s] assms(3,4) torn_Nil same q2(1)
    by (cases "s = ?a") (auto simp: disk_seg_def seg_ok_def js_def R(1))
  from sound_flash.recover_law [OF assms(1) meta heads _ R(2), of pss js] disk
  have P: "\<And>s. seg_ok (files fs'') q2 s (pss s)" "activeSegment (q_meta q2) = ?a"
    "droppedRecords (q_meta q2) = droppedRecords (q_meta q)" "stored (files fs'') q2"
    "\<And>s. old_quarantine (files fs'') s = old_quarantine (files f1) s @ js s" by simp_all
  have seg': "seg_ok (files fs'') q' s (pss s)" for s
    using P(1) [of s] by (subst R(3)) (simp add: seg_ok_def)
  have "q_ready q'" by (subst R(3)) simp
  then have "holds (files fs'') q' old new"
    using seg' [of ?a] seg' [of "\<not> ?a"] P(2) small assms(7) by (simp add: holds_def q2(2) pss_def)
  moreover have "stored (files fs'') q'" using P(4) by (simp add: stored_def q2(2))
  ultimately show ?thesis
    using H(2) P(3) P(5) [of ?a] by (auto simp: durable_def q2(2) R(1) js_def)
qed

theorem queue_survives_power_loss_witness:
  "\<exists>q' fs'' ps. begin_queue small_partition fake_lfs True 28 new_queue (crashed_volume 600000) = (True, q', fs'') \<and>
    durable (fs_content (snd (one_record 600000))) (fst (one_record 600000)) ps \<and>
    durable (fs_content fs'') q' ps"
proof -
  let ?q = "fst (one_record 600000)" and ?fs = "snd (one_record 600000)"
  obtain ps where D: "durable (fs_content ?fs) ?q ps" using one_record_durable by blast
  have t: "torn (take 5 (record_bytes [9]))"
    unfolding torn_def by (intro exI [of _ "[9]"] exI [of _ 5]) (simp add: record_ok_def kMaximumPayloadBytes_def)
  have F: "fs_content (crashed_volume 600000) = (fs_content ?fs)(segmentPath (activeSegment (q_meta ?q)) :=
      Some (the (fs_content ?fs (segmentPath (activeSegment (q_meta ?q)))) @ take 5 (record_bytes [9])))"
    by (simp add: crashed_volume_def Let_def fs_content_put split: prod.split)
  have b: "\<forall>label. fst (lfs_begin fake_lfs label (crashed_volume 600000))"
    by (simp add: fake_lfs_def crashed_recovers)
  have cap: "q_segmentMaximumBytes ?q = 14"
    using fake_volume.run_conserved [OF small_durable one_record_run] by (auto simp: small_queue_def)
  obtain q' fs'' where R: "begin_queue small_partition fake_lfs True 28 new_queue (crashed_volume 600000) = (True, q', fs'')"
    "q_segmentMaximumBytes q' = 14" by (rule crashed_begins)
  show ?thesis
    using queue_survives_power_loss [OF fake_volume.sound_flash_axioms D t F b R(1)] R D cap by auto
qed

text \<open>
  C28: A batch is a prefix of what is pending, of at most eight records, that fits in the room given
  with a separator for each; looking does not change the queue.
\<close>

theorem batch_is_prefix:
  assumes "flash L files" "holds (files fs) q old new" "peekBatch L n maxb q fs = (xs, q')"
  shows "prefix xs (old @ new) \<and> length xs \<le> min n 8 \<and> (xs \<noteq> [] \<longrightarrow> batch_bytes xs \<le> maxb) \<and>
    (\<exists>e. q' = q\<lparr>q_lastError := e\<rparr>)"
  by (rule flash.peekBatch_law [OF assms])

theorem batch_is_prefix_witness:
  "\<exists>xs q' ps. peekBatch fake_lfs 3 40 (fst (small_result 100)) (snd (small_result 100)) = (xs, q') \<and> prefix xs ps"
proof -
  obtain old new where H: "holds (fs_content (snd (small_result 100))) (fst (small_result 100)) old new"
    using small_result_durable [of 100] by (auto simp: durable_def)
  show ?thesis using batch_is_prefix [OF fake_volume.flash_axioms H] by (metis prod.collapse)
qed

text \<open>
  On a volume whose reads succeed, the queue shows the oldest pending payload exactly as it was
  enqueued.
\<close>

theorem peek_shows_head:
  assumes "sound_flash L files" "holds (files fs) q old new" "old @ new = x # ps"
  shows "fst (peek L q fs) = Some x"
  by (rule sound_flash.peek_sound [OF assms])

theorem peek_shows_head_witness:
  "fst (peek fake_lfs (fst (small_result 100)) (snd (small_result 100))) = Some [3]"
proof -
  obtain old new where H: "holds (fs_content (snd (small_result 100))) (fst (small_result 100)) old new"
    using small_result_durable [of 100] by (auto simp: durable_def)
  have 1: "fst (peek fake_lfs (fst (small_result 100)) (snd (small_result 100))) = Some [3]" by code_simp
  have "pendingRecords (fst (small_result 100)) = 1" by code_simp
  then obtain x where x: "old @ new = [x]" using holds_pending [OF H] by (metis Suc_length_conv length_0_conv One_nat_def)
  from peek_shows_head [OF fake_volume.sound_flash_axioms H x] 1 show ?thesis by simp
qed

subsection \<open>Where acceptance is not durable\<close>

text \<open>
  An append that is cut short leaves its bytes in the segment while the position in memory stays:
  the next record, reported as accepted, lands behind them, cannot be read, and is moved to the
  quarantine file at the next start.
\<close>

lemma torn_append_loses_next_record:
  "case enqueue fake_lfs [1] small_queue ((small_volume 100)\<lparr>fs_writeLimit := Some 8\<rparr>) of (b1, q1, fs1) \<Rightarrow>
   case enqueue fake_lfs [2] q1 fs1 of (b2, q2, fs2) \<Rightarrow>
   case recover fake_lfs q2 fs2 of (b3, q3, fs3) \<Rightarrow>
     \<not> b1 \<and> b2 \<and> pendingRecords q2 = 1 \<and> fst (peek fake_lfs q2 fs2) = None \<and> b3 \<and> pendingRecords q3 = 0"
  by code_simp

text \<open>
  A volume on which a rename fails while the first segment is empty: the acknowledgement of the
  last record commits, the segment is truncated, saving the new position fails. The position on
  the volume then points behind the next accepted record, which a restart skips.
\<close>

definition failing_rename :: "fake_fs lfs_ops" where
  "failing_rename = fake_lfs\<lparr>lfs_rename := (\<lambda>p q fs.
     if fs_content fs (segmentPath False) = Some [] then (False, fs) else lfs_rename fake_lfs p q fs)\<rparr>"

lemma failing_rename_flash: "flash failing_rename fs_content"
  using fake_volume.flash_axioms unfolding flash_def failing_rename_def by (auto split: if_splits)

lemma stale_position_skips_record:
  "case enqueue fake_lfs [1] small_queue (small_volume 100) of (b1, q1, fs1) \<Rightarrow>
   case popIfMatches failing_rename [1] False q1 fs1 of (b2, q2, fs2) \<Rightarrow>
   case enqueue fake_lfs [2] q2 fs2 of (b3, q3, fs3) \<Rightarrow>
   case recover fake_lfs q3 fs3 of (b4, q4, fs4) \<Rightarrow>
     b1 \<and> \<not> b2 \<and> b3 \<and> pendingRecords q3 = 1 \<and> fst (peek fake_lfs q3 fs3) = Some [2] \<and> b4 \<and> pendingRecords q4 = 0"
  by code_simp

end
