(* ===== verification/RejectedArchive.thy ===== *)
theory RejectedArchive
  imports StoreForwardDurable
begin

section \<open>RejectedUploads.cpp: the archive of rejected uploads\<close>

text \<open>
  A payload that the server rejects for good is written to one of sixteen numbered files before
  it leaves the queue; a file is never overwritten.
\<close>

definition kRejectedMagic :: u32 where "kRejectedMagic = 0x52454A31"
definition kPayloadLimit :: nat where "kPayloadLimit = 4096"
definition kRejectedTemporaryPath :: string where "kRejectedTemporaryPath = ''/upload-rejected.tmp''"

text \<open>The header of an archive file.\<close>

record RejectedHeader =
  rh_length :: nat
  rh_checksum :: u32
  rh_httpStatus :: u32

definition rejected_header :: "bytes \<Rightarrow> int \<Rightarrow> bytes" where
  "rejected_header payload status = put32 kRejectedMagic @ put32 (of_nat (length payload)) @
     put32 (fnv1a payload) @ put32 (word_of_int status)"

text \<open>The loop that reads the payload: a read that gives nothing fails.\<close>

function read_exact :: "'fs lfs_ops \<Rightarrow> string \<Rightarrow> nat \<Rightarrow> nat \<Rightarrow> 'fs \<Rightarrow> bytes option" where
  "read_exact L p pos wanted fs =
     (if wanted = 0 then Some []
      else let d = f_read L p pos (min 256 wanted) fs in
        if d = [] then None
        else case read_exact L p (pos + length d) (wanted - length d) fs of
          None \<Rightarrow> None | Some ds \<Rightarrow> Some (d @ ds))"
  by auto
termination by (relation "measure (\<lambda>(L, p, pos, wanted, fs). wanted)") auto

declare read_exact.simps [simp del]

definition readFile :: "'fs lfs_ops \<Rightarrow> string \<Rightarrow> 'fs \<Rightarrow> (bytes \<times> RejectedHeader) option" where
  "readFile L p fs =
     (if \<not> open_read L p fs then None
      else let h = f_read L p 0 16 fs; n = unat (get32 (drop 4 h)) in
        if length h \<noteq> 16 \<or> get32 h \<noteq> kRejectedMagic \<or> get32 (drop 4 h) = 0 \<or> n > kPayloadLimit \<or>
           f_size L p fs \<noteq> 16 + n then None
        else case read_exact L p 16 n fs of
          None \<Rightarrow> None
        | Some payload \<Rightarrow> Some (payload, \<lparr>rh_length = n, rh_checksum = get32 (drop 8 h), rh_httpStatus = get32 (drop 12 h)\<rparr>))"

definition readRejected :: "'fs lfs_ops \<Rightarrow> nat \<Rightarrow> Queue \<Rightarrow> 'fs \<Rightarrow> (bytes \<times> int) option" where
  "readRejected L slot q fs =
     (if \<not> q_ready q \<or> kRejectedSlots \<le> slot then None
      else case readFile L (rejected_slot_path slot) fs of
        None \<Rightarrow> None
      | Some (payload, h) \<Rightarrow>
          if fnv1a payload \<noteq> rh_checksum h then None else Some (payload, sint (rh_httpStatus h)))"

text \<open>The search over the slots: found already, a free slot, or none.\<close>

datatype SlotSearch = AlreadySaved | FreeSlot nat | ArchiveFull

fun find_slot :: "'fs lfs_ops \<Rightarrow> bytes \<Rightarrow> Queue \<Rightarrow> 'fs \<Rightarrow> nat option \<Rightarrow> nat list \<Rightarrow> SlotSearch" where
  "find_slot L payload q fs free [] = (case free of None \<Rightarrow> ArchiveFull | Some s \<Rightarrow> FreeSlot s)"
| "find_slot L payload q fs free (slot # slots) =
     (if \<not> rejectedSlotPresent L slot q fs
      then find_slot L payload q fs (if free = None then Some slot else free) slots
      else if (case readRejected L slot q fs of None \<Rightarrow> False | Some (saved, status) \<Rightarrow> saved = payload)
      then AlreadySaved
      else find_slot L payload q fs free slots)"

definition write_rejected :: "'fs lfs_ops \<Rightarrow> bytes \<Rightarrow> int \<Rightarrow> 'fs \<Rightarrow> bool \<times> 'fs" where
  "write_rejected L payload status fs =
     (case open_write L kRejectedTemporaryPath fs of
        (False, fs) \<Rightarrow> (False, fs)
      | (True, fs) \<Rightarrow>
          (case f_write L kRejectedTemporaryPath (rejected_header payload status) fs of (n, fs) \<Rightarrow>
             if n \<noteq> 16 then (False, fs)
             else case f_write L kRejectedTemporaryPath payload fs of (k, fs) \<Rightarrow> (k = length payload, fs)))"

definition preserveRejected :: "'fs lfs_ops \<Rightarrow> bytes \<Rightarrow> int \<Rightarrow> Queue \<Rightarrow> 'fs \<Rightarrow> bool \<times> Queue \<times> 'fs" where
  "preserveRejected L payload status q fs =
     (if \<not> q_ready q \<or> payload = [] \<or> length payload > kPayloadLimit \<or> \<not> payloadRejected status
      then fail ''Rejected upload cannot be archived; replay retained'' q fs
      else case find_slot L payload q fs None [0..<kRejectedSlots] of
        AlreadySaved \<Rightarrow> (True, q\<lparr>q_lastError := []\<rparr>, fs)
      | ArchiveFull \<Rightarrow>
          fail ''Rejected upload archive full; replay retained; export recovery records'' q fs
      | FreeSlot slot \<Rightarrow>
          (case write_rejected L payload status fs of (written, fs) \<Rightarrow>
             let verified = (case readFile L kRejectedTemporaryPath fs of
                   None \<Rightarrow> False
                 | Some (saved, h) \<Rightarrow> saved = payload \<and> rh_checksum h = fnv1a payload \<and>
                     rh_httpStatus h = word_of_int status)
             in if \<not> (written \<and> verified)
                then fail ''Rejected upload archive write failed; replay retained'' q fs
                else case lfs_rename L kRejectedTemporaryPath (rejected_slot_path slot) fs of
                  (False, fs) \<Rightarrow> fail ''Rejected upload archive write failed; replay retained'' q fs
                | (True, fs) \<Rightarrow>
                    (True, q\<lparr>q_rejectedRecords := q_rejectedRecords q + 1, q_lastError := []\<rparr>, fs)))"

subsection \<open>What the archive holds\<close>

definition archived :: "(string \<Rightarrow> bytes option) \<Rightarrow> bytes set" where
  "archived F = {x. \<exists>slot < kRejectedSlots. \<exists>h. F (rejected_slot_path slot) = Some (h @ x) \<and> length h = 16 \<and>
     get32 h = kRejectedMagic \<and> unat (get32 (drop 4 h)) = length x \<and> x \<noteq> [] \<and> length x \<le> kPayloadLimit \<and>
     get32 (drop 8 h) = fnv1a x}"

lemma slot_paths:
  "distinct (map rejected_slot_path [0..<kRejectedSlots])"
  "list_all (\<lambda>slot. rejected_slot_path slot \<notin> {segmentPath False, segmentPath True, kMetadataPath,
     kMetadataTemporaryPath, kRejectedTemporaryPath}) [0..<kRejectedSlots]"
  by code_simp+

lemma slot_path_inj:
  "a < kRejectedSlots \<Longrightarrow> b < kRejectedSlots \<Longrightarrow> rejected_slot_path a = rejected_slot_path b \<longleftrightarrow> a = b"
  using slot_paths(1) by (auto simp: distinct_map inj_on_def)

lemma slot_path_other:
  assumes "slot < kRejectedSlots"
  shows "rejected_slot_path slot \<noteq> segmentPath s" "rejected_slot_path slot \<noteq> kMetadataPath"
    "rejected_slot_path slot \<noteq> kMetadataTemporaryPath" "rejected_slot_path slot \<noteq> kRejectedTemporaryPath"
  using slot_paths(2) assms by (cases s; simp add: list_all_iff)+

lemma tmp_path_other:
  "kRejectedTemporaryPath \<noteq> segmentPath s" "kRejectedTemporaryPath \<noteq> kMetadataPath"
  by (cases s; simp add: kRejectedTemporaryPath_def segmentPath_def kMetadataPath_def)+

lemma archived_mono:
  assumes "\<And>slot. slot < kRejectedSlots \<Longrightarrow> F (rejected_slot_path slot) \<noteq> None \<Longrightarrow>
    F' (rejected_slot_path slot) = F (rejected_slot_path slot)"
  shows "archived F \<subseteq> archived F'"
  using assms unfolding archived_def by fastforce

lemma find_slot_free:
  "find_slot L payload q fs free slots = FreeSlot s \<Longrightarrow>
   free = Some s \<or> (s \<in> set slots \<and> \<not> rejectedSlotPresent L s q fs)"
  by (induction slots arbitrary: free) (auto split: option.splits if_splits prod.splits)

lemma find_slot_saved:
  "find_slot L payload q fs free slots = AlreadySaved \<Longrightarrow>
   \<exists>slot \<in> set slots. \<exists>status. readRejected L slot q fs = Some (payload, status)"
  by (induction slots arbitrary: free) (auto split: option.splits if_splits prod.splits)

lemma err_only: "\<exists>e' n. q\<lparr>q_lastError := e\<rparr> = q\<lparr>q_rejectedRecords := n, q_lastError := e'\<rparr>"
  by (intro exI [of _ e] exI [of _ "q_rejectedRecords q"]) simp

context flash
begin

lemma read_exact_law:
  assumes "open_read L p fs" "files fs p = Some c"
  shows "read_exact L p pos wanted fs = Some ds \<Longrightarrow> ds = take wanted (drop pos c) \<and> length ds = wanted"
proof (induction wanted arbitrary: pos ds rule: less_induct)
  case (less wanted)
  let ?d = "f_read L p pos (min 256 wanted) fs"
  show ?case
  proof (cases "wanted = 0")
    case True
    then show ?thesis using less.prems by (subst (asm) read_exact.simps) simp
  next
    case False
    obtain m where m: "?d = take m (take (min 256 wanted) (drop pos c))" using read_law [OF assms] by blast
    obtain rest where r: "?d \<noteq> []" "read_exact L p (pos + length ?d) (wanted - length ?d) fs = Some rest" "ds = ?d @ rest"
      using less.prems False by (subst (asm) read_exact.simps) (auto simp: Let_def split: if_splits option.splits)
    have len: "0 < length ?d" "length ?d \<le> wanted" using r(1) m by auto
    have d: "?d = take (length ?d) (drop pos c)" unfolding m by (simp add: min_def)
    have IH: "rest = take (wanted - length ?d) (drop (pos + length ?d) c) \<and> length rest = wanted - length ?d"
      by (rule less.IH [OF _ r(2)]) (use len in linarith)
    have "ds = take (length ?d) (drop pos c) @ take (wanted - length ?d) (drop (length ?d) (drop pos c))"
      using r(3) d IH by (simp add: add.commute)
    also have "\<dots> = take wanted (drop pos c)" using len(2) by (metis le_add_diff_inverse take_add)
    finally have "ds = take wanted (drop pos c)" .
    moreover have "length ds = length ?d + length rest" using r(3) by simp
    ultimately show ?thesis using IH len(2) by linarith
  qed
qed

lemma readFile_law:
  assumes "readFile L p fs = Some (x, h)"
  shows "\<exists>hd. files fs p = Some (hd @ x) \<and> length hd = 16 \<and> get32 hd = kRejectedMagic \<and> rh_checksum h = get32 (drop 8 hd) \<and>
    unat (get32 (drop 4 hd)) = length x \<and> x \<noteq> [] \<and> length x \<le> kPayloadLimit"
proof -
  define hd where "hd = f_read L p 0 16 fs"
  define n where "n = unat (get32 (drop 4 hd))"
  have R: "open_read L p fs" "length hd = 16" "get32 hd = kRejectedMagic" "f_size L p fs = 16 + n"
    "read_exact L p 16 n fs = Some x" "rh_checksum h = get32 (drop 8 hd)" "get32 (drop 4 hd) \<noteq> 0" "n \<le> kPayloadLimit"
    using assms by (auto simp: readFile_def Let_def hd_def n_def split: if_splits option.splits)
  obtain c where c: "files fs p = Some c" using open_read_law [OF R(1)] by blast
  have "hd = take 16 c" using read_full(1) [OF R(1) c, of 0 16] R(2) by (simp add: hd_def)
  moreover have "length c = 16 + n" using size_law [OF R(1) c] R(4) by simp
  moreover have x: "x = take n (drop 16 c)" "length x = n" using read_exact_law [OF R(1) c R(5)] by blast+
  ultimately have "c = hd @ x" by simp
  moreover have "x \<noteq> []" using x(2) R(7) by (auto simp: n_def unat_eq_0)
  ultimately show ?thesis using c R(2,3,6,8) x(2) by (intro exI [of _ hd]) (simp add: n_def)
qed

lemma readRejected_law:
  assumes "readRejected L slot q fs = Some (x, status)"
  shows "x \<in> archived (files fs)"
proof -
  obtain h where R: "slot < kRejectedSlots" "readFile L (rejected_slot_path slot) fs = Some (x, h)" "fnv1a x = rh_checksum h"
    using assms by (auto simp: readRejected_def split: if_splits option.splits)
  then show ?thesis using readFile_law [OF R(2)] unfolding archived_def by auto
qed

lemma write_rejected_law:
  assumes "write_rejected L payload status fs = (b, fs')"
  shows "\<forall>p. p \<noteq> kRejectedTemporaryPath \<longrightarrow> files fs' p = files fs p"
proof -
  let ?t = kRejectedTemporaryPath
  obtain o1 f1 where w: "open_write L ?t fs = (o1, f1)" by fastforce
  obtain n f2 where h: "f_write L ?t (rejected_header payload status) f1 = (n, f2)" by fastforce
  obtain k f3 where p: "f_write L ?t payload f2 = (k, f3)" by fastforce
  have eq: "write_rejected L payload status fs =
      (if \<not> o1 then (False, f1) else if n \<noteq> 16 then (False, f2) else (k = length payload, f3))"
    by (simp add: write_rejected_def w h p split: bool.split)
  have 1: "files f1 = (if o1 then (files fs)(?t := Some []) else files fs)" by (rule open_write_law [OF w])
  have 2: "o1 \<Longrightarrow> files f2 = (files f1)(?t := Some (take n (rejected_header payload status)))"
    using write_law [OF _ h] 1 by simp
  have 3: "o1 \<Longrightarrow> files f3 = (files f2)(?t := Some (take n (rejected_header payload status) @ take k payload))"
    using write_law [OF _ p] 2 by simp
  show ?thesis using assms 1 2 3 unfolding eq by (auto split: if_splits)
qed

lemma preserveRejected_law:
  assumes "preserveRejected L x status q fs = (b, q', fs')"
  shows "\<exists>e n. q' = q\<lparr>q_rejectedRecords := n, q_lastError := e\<rparr>" "keeps_segments (files fs) (files fs')"
    "files fs' kMetadataPath = files fs kMetadataPath"
    "archived (files fs) \<subseteq> archived (files fs')" "b \<Longrightarrow> x \<in> archived (files fs')"
proof -
  let ?t = kRejectedTemporaryPath
  have P: "(\<exists>e n. q' = q\<lparr>q_rejectedRecords := n, q_lastError := e\<rparr>) \<and> keeps_segments (files fs) (files fs') \<and>
      files fs' kMetadataPath = files fs kMetadataPath \<and> archived (files fs) \<subseteq> archived (files fs') \<and>
      (b \<longrightarrow> x \<in> archived (files fs'))"
  proof (cases "\<not> q_ready q \<or> x = [] \<or> length x > kPayloadLimit \<or> \<not> payloadRejected status")
    case True
    then show ?thesis using assms
      by (auto simp: preserveRejected_def fail_def keeps_segments_def intro!: exI [of _ "q_rejectedRecords q"])
  next
    case ok: False
    show ?thesis
    proof (cases "find_slot L x q fs None [0..<kRejectedSlots]")
      case AlreadySaved
      then have "b" "fs' = fs" "q' = q\<lparr>q_lastError := []\<rparr>" using assms ok by (auto simp: preserveRejected_def)
      moreover have "x \<in> archived (files fs)" using find_slot_saved [OF AlreadySaved] readRejected_law by blast
      ultimately show ?thesis by (auto simp: keeps_segments_def intro!: exI [of _ "q_rejectedRecords q"])
    next
      case ArchiveFull
      then show ?thesis using assms ok
        by (auto simp: preserveRejected_def fail_def keeps_segments_def intro!: exI [of _ "q_rejectedRecords q"])
    next
      case (FreeSlot slot)
      then have slot: "slot < kRejectedSlots" and free: "files fs (rejected_slot_path slot) = None"
        using find_slot_free [OF FreeSlot] ok by (auto simp: rejectedSlotPresent_def exists_law)
      obtain w f1 where wr: "write_rejected L x status fs = (w, f1)" by fastforce
      obtain r f2 where rn: "lfs_rename L ?t (rejected_slot_path slot) f1 = (r, f2)" by fastforce
      define v where "v = (case readFile L ?t f1 of None \<Rightarrow> False
         | Some (saved, h) \<Rightarrow> saved = x \<and> rh_checksum h = fnv1a x \<and> rh_httpStatus h = word_of_int status)"
      have eq: "preserveRejected L x status q fs =
          (if \<not> (w \<and> v) then fail ''Rejected upload archive write failed; replay retained'' q f1
           else if \<not> r then fail ''Rejected upload archive write failed; replay retained'' q f2
           else (True, q\<lparr>q_rejectedRecords := q_rejectedRecords q + 1, q_lastError := []\<rparr>, f2))"
        using ok by (simp add: preserveRejected_def FreeSlot wr v_def [symmetric] rn Let_def split: bool.split)
      have 1: "\<forall>p. p \<noteq> ?t \<longrightarrow> files f1 p = files fs p" by (rule write_rejected_law [OF wr])
      note 2 = rename_law [OF rn]
      have frame: "\<forall>p. p \<noteq> ?t \<and> p \<noteq> rejected_slot_path slot \<longrightarrow> files fs' p = files fs p"
        using assms 1 2 unfolding eq by (auto simp: fail_def split: if_splits)
      have "\<exists>e n. q' = q\<lparr>q_rejectedRecords := n, q_lastError := e\<rparr>"
        using assms err_only [where q = q] unfolding eq by (auto simp: fail_def split: if_splits)
      moreover have "keeps_segments (files fs) (files fs')" "files fs' kMetadataPath = files fs kMetadataPath"
        using frame tmp_path_other slot_path_other [OF slot] by (metis keeps_segments_def)+
      moreover have "archived (files fs) \<subseteq> archived (files fs')"
        using frame free slot_path_other(4) by (intro archived_mono) metis
      moreover have "x \<in> archived (files fs')" if b
      proof -
        have R: "v" "r" "fs' = f2" using assms that unfolding eq by (auto simp: fail_def split: if_splits)
        obtain h where "readFile L ?t f1 = Some (x, h)" "rh_checksum h = fnv1a x"
          using R(1) by (auto simp: v_def split: option.splits)
        then obtain hd where "files f1 ?t = Some (hd @ x)" "length hd = 16" "get32 hd = kRejectedMagic" "get32 (drop 8 hd) = fnv1a x"
          "unat (get32 (drop 4 hd)) = length x" "x \<noteq> []" "length x \<le> kPayloadLimit"
          using readFile_law by metis
        moreover have "files fs' (rejected_slot_path slot) = files f1 ?t"
          using 2 R(2,3) slot_path_other(4) [OF slot] by simp
        ultimately show ?thesis unfolding archived_def using slot by auto
      qed
      ultimately show ?thesis by blast
    qed
  qed
  then show "\<exists>e n. q' = q\<lparr>q_rejectedRecords := n, q_lastError := e\<rparr>" "keeps_segments (files fs) (files fs')"
    "files fs' kMetadataPath = files fs kMetadataPath"
    "archived (files fs) \<subseteq> archived (files fs')" "b \<Longrightarrow> x \<in> archived (files fs')" by blast+
qed

end

subsection \<open>Archive, then advance the queue\<close>

text \<open>An acknowledgement touches only the files of the queue.\<close>

definition queue_file :: "string \<Rightarrow> bool" where
  "queue_file p \<longleftrightarrow> p \<in> {segmentPath False, segmentPath True, kMetadataPath, kMetadataTemporaryPath}"

lemma queue_file_paths [simp]: "queue_file (segmentPath s)" "queue_file kMetadataPath" "queue_file kMetadataTemporaryPath"
  by (cases s; simp add: queue_file_def)+

context flash
begin

lemma saveMetadata_frame: "saveMetadata L q fs = (b, q', fs') \<Longrightarrow> \<not> queue_file p \<Longrightarrow> files fs' p = files fs p"
  using saveMetadata_law(3) by (metis queue_file_paths(2,3))

lemma truncate_frame: "truncateSegment L s q fs = (b, q', fs') \<Longrightarrow> \<not> queue_file p \<Longrightarrow> files fs' p = files fs p"
  using truncate_law [of s q fs b q' fs'] by (auto split: if_splits)

lemma pop_frame:
  assumes "pop L d q fs = (b, q', fs')" "\<not> queue_file p"
  shows "files fs' p = files fs p"
  using assms(1)
  by (auto simp: pop_def pop_commit_def Let_def fail_def
      dest!: saveMetadata_frame [OF _ assms(2)] truncate_frame [OF _ assms(2)]
      split: if_splits prod.splits bool.splits)

lemma popIfMatches_frame:
  "popIfMatches L x d q fs = (b, q', fs') \<Longrightarrow> \<not> queue_file p \<Longrightarrow> files fs' p = files fs p"
  by (auto simp: popIfMatches_def dest: pop_frame split: prod.splits option.splits if_splits)

lemma popIfMatches_archived:
  assumes "popIfMatches L x d q fs = (b, q', fs')"
  shows "archived (files fs') = archived (files fs)"
proof -
  have "files fs' (rejected_slot_path slot) = files fs (rejected_slot_path slot)" if "slot < kRejectedSlots" for slot
    using popIfMatches_frame [OF assms] slot_path_other [OF that] by (simp add: queue_file_def)
  then show ?thesis using archived_mono [of "files fs" "files fs'"] archived_mono [of "files fs'" "files fs"] by auto
qed

lemma rejected_contract:
  "archive_then_advance (\<lambda>(q, fs). preserveRejected L x status q fs) (\<lambda>(q, fs). popIfMatches L x False q fs)
     (\<lambda>(q, fs) ps. \<exists>old new. holds (files fs) q old new \<and> ps = old @ new) (\<lambda>(q, fs). archived (files fs)) x"
proof (unfold_locales, goal_cases)
  case (1 w rs b w')
  then show ?case using preserveRejected_law(1,2) keeps_holds
    by (fastforce simp: holds_def seg_ok_def split: prod.splits)
next
  case (2 w rs b w')
  then show ?case by (auto split: prod.splits dest: preserveRejected_law(4) [THEN subsetD])
next
  case (3 w rs w')
  then show ?case using preserveRejected_law(5) by (auto split: prod.splits)
next
  case (4 w rs b w')
  then show ?case using popIfMatches_archived by (auto split: prod.splits)
next
  case (5 w rs b w')
  obtain q fs q' fs' where w: "w = (q, fs)" "w' = (q', fs')" by fastforce
  then obtain old new where "holds (files fs) q old new" "rs = old @ new" "popIfMatches L x False q fs = (b, q', fs')"
    using 5 by auto
  then show ?case using popIfMatches_law [of fs q old new x False b q' fs'] w
    by (auto; metis append_Nil hd_Cons_tl append_is_Nil_conv)
next
  case (6 w rs w')
  obtain q fs q' fs' where w: "w = (q, fs)" "w' = (q', fs')" by fastforce
  then obtain old new where H: "holds (files fs) q old new" "rs = old @ new" "popIfMatches L x False q fs = (True, q', fs')"
    using 6 by auto
  from popIfMatches_law [OF H(1,3)] obtain old' new' where "holds (files fs') q' old' new'" "old' @ new' = tl (old @ new)"
    using 6(3,4) H(2) by auto
  then show ?case using w H(2) by (simp; metis)
qed

end

interpretation fake_archive: archive_then_advance
  "\<lambda>(q, fs). preserveRejected fake_lfs x status q fs" "\<lambda>(q, fs). popIfMatches fake_lfs x False q fs"
  "\<lambda>(q, fs) ps. \<exists>old new. holds (fs_content fs) q old new \<and> ps = old @ new" "\<lambda>(q, fs). archived (fs_content fs)" x
  for x status
  by (rule fake_volume.rejected_contract)

subsection \<open>The properties\<close>

text \<open>
  C21: Handling a rejected upload, whatever fails, removes at most the submitted payload from the
  head of the queue, and only when the archive holds it byte for byte; no archived payload is lost.
\<close>

theorem rejected_upload_archived_first:
  assumes "flash L files" "holds (files fs) q old new"
    and "resolveRejected (\<lambda>(q, fs). preserveRejected L x status q fs) (\<lambda>(q, fs). popIfMatches L x False q fs)
      status permanent r (q, fs) = (res, r', (q', fs'))"
  shows "archived (files fs) \<subseteq> archived (files fs') \<and>
    (\<exists>old' new'. holds (files fs') q' old' new' \<and>
      (old' @ new' = old @ new \<or> (old @ new = x # old' @ new' \<and> x \<in> archived (files fs'))))"
proof -
  have "\<exists>old' new'. holds (files fs) q old' new' \<and> old @ new = old' @ new'" using assms(2) by blast
  then show ?thesis
    using archive_then_advance.nothing_lost [OF flash.rejected_contract [OF assms(1)] _ assms(3), of "old @ new"]
    by auto
qed

text \<open>The queue with one record, which the server rejected with status 422.\<close>

definition rejected_once :: "UploadRecovery \<Rightarrow> Resolution \<times> UploadRecovery \<times> (Queue \<times> fake_fs)" where
  "rejected_once r = resolveRejected (\<lambda>(q, fs). preserveRejected fake_lfs [1] 422 q fs)
     (\<lambda>(q, fs). popIfMatches fake_lfs [1] False q fs) 422 True r (one_record 100)"

theorem rejected_upload_archived_first_witness:
  "archived (fs_content (snd (one_record 100))) \<subseteq> archived (fs_content (snd (snd (snd (rejected_once fresh_recovery)))))"
proof -
  obtain q fs where w: "one_record 100 = (q, fs)" by fastforce
  obtain res r' q' fs' where e: "rejected_once fresh_recovery = (res, r', (q', fs'))" by (metis prod.collapse)
  obtain old new where H: "holds (fs_content fs) q old new"
    using one_record_durable [of 100] w by (auto simp: durable_def)
  show ?thesis
    using rejected_upload_archived_first [OF fake_volume.flash_axioms H e [unfolded rejected_once_def w]] w e by simp
qed

lemma find_slot_present:
  "slot \<in> set slots \<Longrightarrow> rejectedSlotPresent L slot q fs \<Longrightarrow> readRejected L slot q fs = Some (x, st) \<Longrightarrow>
   find_slot L x q fs free slots = AlreadySaved"
  by (induction slots arbitrary: free) auto

context sound_flash
begin

lemma read_exact_sound:
  "files fs p = Some c \<Longrightarrow> pos + wanted \<le> length c \<Longrightarrow> read_exact L p pos wanted fs = Some (take wanted (drop pos c))"
proof (induction wanted arbitrary: pos rule: less_induct)
  case (less wanted)
  show ?case
  proof (cases "wanted = 0")
    case True
    then show ?thesis by (subst read_exact.simps) simp
  next
    case False
    define k where "k = min 256 wanted"
    have d: "f_read L p pos k fs = take k (drop pos c)" by (rule read_ok [OF less.prems(1)])
    have k: "0 < k" "k \<le> wanted" "length (take k (drop pos c)) = k" "take k (drop pos c) \<noteq> []"
      using False less.prems(2) by (auto simp: k_def)
    have "read_exact L p (pos + k) (wanted - k) fs = Some (take (wanted - k) (drop (pos + k) c))"
      using less.IH [of "wanted - k" "pos + k"] less.prems k(1,2) by simp
    moreover have "take k (drop pos c) @ take (wanted - k) (drop (pos + k) c) = take wanted (drop pos c)"
      using k(2) take_add [of k "wanted - k" "drop pos c"] by (simp add: add.commute)
    ultimately show ?thesis
      using False k by (subst read_exact.simps) (simp only: k_def [symmetric] d k(3) Let_def if_False option.case)
  qed
qed

lemma archived_found:
  assumes "x \<in> archived (files fs)" "q_ready q"
  shows "find_slot L x q fs None [0..<kRejectedSlots] = AlreadySaved"
proof -
  obtain slot h where S: "slot < kRejectedSlots" "files fs (rejected_slot_path slot) = Some (h @ x)" "length h = 16"
    "get32 h = kRejectedMagic" "unat (get32 (drop 4 h)) = length x" "x \<noteq> []" "length x \<le> kPayloadLimit"
    "get32 (drop 8 h) = fnv1a x"
    using assms(1) unfolding archived_def by blast
  have "get32 (drop 4 h) \<noteq> 0" using S(5,6) by (auto simp: unat_eq_0 [symmetric])
  moreover have "f_read L (rejected_slot_path slot) 0 16 fs = h" using S(3) by (simp add: read_ok [OF S(2)])
  moreover have "f_size L (rejected_slot_path slot) fs = 16 + length x"
    using size_law [OF open_ok [OF S(2)] S(2)] S(3) by simp
  moreover have "read_exact L (rejected_slot_path slot) 16 (length x) fs = Some x"
    using read_exact_sound [OF S(2), of 16 "length x"] S(3) by simp
  ultimately have "\<exists>st. readRejected L slot q fs = Some (x, st)"
    using S assms(2) by (auto simp: readRejected_def readFile_def Let_def open_ok [OF S(2)])
  moreover have "rejectedSlotPresent L slot q fs" using S(1,2) assms(2) by (simp add: rejectedSlotPresent_def exists_law)
  ultimately show ?thesis using S(1) by (auto intro: find_slot_present)
qed

end

text \<open>
  C27: Saving a rejected payload twice, as after a power loss between archiving and advancing the
  queue, succeeds the second time without writing to the volume.
\<close>

theorem archive_idempotent:
  assumes "sound_flash L files" "preserveRejected L x status q fs = (True, q1, fs1)"
  shows "preserveRejected L x status q1 fs1 = (True, q1\<lparr>q_lastError := []\<rparr>, fs1)"
proof -
  have F: "flash L files" using assms(1) by (rule sound_flash.axioms)
  have "q_ready q" "x \<noteq> []" "length x \<le> kPayloadLimit" "payloadRejected status"
    using assms(2) by (auto simp: preserveRejected_def fail_def split: if_splits)
  moreover obtain e n where "q1 = q\<lparr>q_rejectedRecords := n, q_lastError := e\<rparr>"
    using flash.preserveRejected_law(1) [OF F assms(2)] by blast
  ultimately show ?thesis
    using sound_flash.archived_found [OF assms(1) flash.preserveRejected_law(5) [OF F assms(2) TrueI], of q1]
    by (simp add: preserveRejected_def)
qed

theorem archive_idempotent_witness:
  "case preserveRejected fake_lfs [1] 422 small_queue (small_volume 100) of (b, q1, fs1) \<Rightarrow>
     b \<and> preserveRejected fake_lfs [1] 422 q1 fs1 = (True, q1\<lparr>q_lastError := []\<rparr>, fs1)"
proof -
  obtain b q1 fs1 where e: "preserveRejected fake_lfs [1] 422 small_queue (small_volume 100) = (b, q1, fs1)"
    by (metis prod.collapse)
  have b: "fst (preserveRejected fake_lfs [1] 422 small_queue (small_volume 100))" by code_simp
  then have "preserveRejected fake_lfs [1] 422 q1 fs1 = (True, q1\<lparr>q_lastError := []\<rparr>, fs1)"
    using archive_idempotent [OF fake_volume.sound_flash_axioms, of "[1]" 422 small_queue "small_volume 100" q1 fs1] e by simp
  then show ?thesis using e b by simp
qed

end
