(* ===== verification/Preferences.thy ===== *)
theory Preferences
  imports Prelude
begin

section \<open>The Preferences library as a parameter\<close>

text \<open>
  The Arduino \<open>Preferences\<close> library keeps typed values under keys of a namespace in the
  non-volatile storage of the ESP32. It is not part of the repository: what the sources call is a
  record of operations on a state \<open>'w\<close>. A put returns the number of bytes stored, 0 when it failed.
\<close>

datatype pval = PBool bool | PUChar byte | PUShort u16 | PUInt u32 | PString string

record 'w prefs_ops =
  pr_begin :: "string \<Rightarrow> bool \<Rightarrow> 'w \<Rightarrow> bool \<times> 'w"
  pr_get :: "string \<Rightarrow> string \<Rightarrow> 'w \<Rightarrow> pval option"
  pr_put :: "string \<Rightarrow> string \<Rightarrow> pval \<Rightarrow> 'w \<Rightarrow> nat \<times> 'w"
  pr_remove :: "string \<Rightarrow> string \<Rightarrow> 'w \<Rightarrow> bool \<times> 'w"
  pr_clear :: "string \<Rightarrow> 'w \<Rightarrow> bool \<times> 'w"

text \<open>The typed getters, with the default for a missing key or one of another type.\<close>

definition getString :: "'w prefs_ops \<Rightarrow> string \<Rightarrow> string \<Rightarrow> string \<Rightarrow> 'w \<Rightarrow> string" where
  "getString P ns key d w = (case pr_get P ns key w of Some (PString s) \<Rightarrow> s | _ \<Rightarrow> d)"

definition getUInt :: "'w prefs_ops \<Rightarrow> string \<Rightarrow> string \<Rightarrow> u32 \<Rightarrow> 'w \<Rightarrow> u32" where
  "getUInt P ns key d w = (case pr_get P ns key w of Some (PUInt v) \<Rightarrow> v | _ \<Rightarrow> d)"

definition getUShort :: "'w prefs_ops \<Rightarrow> string \<Rightarrow> string \<Rightarrow> u16 \<Rightarrow> 'w \<Rightarrow> u16" where
  "getUShort P ns key d w = (case pr_get P ns key w of Some (PUShort v) \<Rightarrow> v | _ \<Rightarrow> d)"

definition getUChar :: "'w prefs_ops \<Rightarrow> string \<Rightarrow> string \<Rightarrow> byte \<Rightarrow> 'w \<Rightarrow> byte" where
  "getUChar P ns key d w = (case pr_get P ns key w of Some (PUChar v) \<Rightarrow> v | _ \<Rightarrow> d)"

definition getBool :: "'w prefs_ops \<Rightarrow> string \<Rightarrow> string \<Rightarrow> bool \<Rightarrow> 'w \<Rightarrow> bool" where
  "getBool P ns key d w = (case pr_get P ns key w of Some (PBool v) \<Rightarrow> v | _ \<Rightarrow> d)"

lemmas getters = getString_def getUInt_def getUShort_def getUChar_def getBool_def

text \<open>The chains \<open>saved = saved && store.put...(...) > 0\<close>, and removals whose results are ignored.\<close>

fun put_seq :: "'w prefs_ops \<Rightarrow> string \<Rightarrow> (string \<times> pval) list \<Rightarrow> 'w \<Rightarrow> bool \<times> 'w" where
  "put_seq P ns [] w = (True, w)"
| "put_seq P ns ((k, v) # kvs) w =
     (case pr_put P ns k v w of (n, w) \<Rightarrow> if 0 < n then put_seq P ns kvs w else (False, w))"

fun remove_seq :: "'w prefs_ops \<Rightarrow> string \<Rightarrow> string list \<Rightarrow> 'w \<Rightarrow> 'w" where
  "remove_seq P ns [] w = w"
| "remove_seq P ns (k # ks) w = remove_seq P ns ks (snd (pr_remove P ns k w))"

definition pref_upd :: "string \<Rightarrow> string \<Rightarrow> pval option \<Rightarrow> (string \<Rightarrow> string \<Rightarrow> pval option) \<Rightarrow> string \<Rightarrow> string \<Rightarrow> pval option" where
  "pref_upd ns k v F = F(ns := (F ns)(k := v))"

lemma pref_upd_simps [simp]:
  "pref_upd ns k v F ns k = v" "k' \<noteq> k \<Longrightarrow> pref_upd ns k v F ns k' = F ns k'"
  "ns' \<noteq> ns \<Longrightarrow> pref_upd ns k v F ns' = F ns'"
  by (simp_all add: pref_upd_def)

lemma fold_pref_upd: "fold (\<lambda>(k, v). pref_upd ns k (Some v)) kvs F ns = F ns ++ map_of (rev kvs)"
proof (induction kvs arbitrary: F)
  case (Cons kv kvs)
  then show ?case by (cases kv) (simp add: pref_upd_def map_add_def fun_eq_iff split: option.splits)
qed simp

lemma fold_pref_upd_other: "ns' \<noteq> ns \<Longrightarrow> fold (\<lambda>(k, v). pref_upd ns k (Some v)) kvs F ns' = F ns'"
  by (induction kvs arbitrary: F) auto

text \<open>
  What the library documents. Any operation may fail; one that reports failure has done nothing or
  all of it (the value was set and the commit reported an error), one that reports success is durable.
\<close>

locale preferences =
  fixes P :: "'w prefs_ops" and saved :: "'w \<Rightarrow> string \<Rightarrow> string \<Rightarrow> pval option"
  assumes begin_law: "pr_begin P ns ro w = (b, w') \<Longrightarrow> saved w' = saved w"
    and get_law: "pr_get P ns k w = saved w ns k"
    and put_law: "pr_put P ns k v w = (n, w') \<Longrightarrow>
      saved w' = pref_upd ns k (Some v) (saved w) \<or> (n = 0 \<and> saved w' = saved w)"
    and remove_law: "pr_remove P ns k w = (b, w') \<Longrightarrow>
      saved w' = pref_upd ns k None (saved w) \<or> (\<not> b \<and> saved w' = saved w)"
    and clear_law: "pr_clear P ns w = (b, w') \<Longrightarrow>
      saved w' = (saved w)(ns := (\<lambda>k. None)) \<or> (\<not> b \<and> saved w' = saved w)"
begin

lemma put_seq_keeps:
  "put_seq P ns kvs w = (b, w') \<Longrightarrow> k \<notin> fst ` set kvs \<or> ns' \<noteq> ns \<Longrightarrow> saved w' ns' k = saved w ns' k"
proof (induction kvs arbitrary: w)
  case (Cons kv kvs)
  obtain key v n w1 where kv: "kv = (key, v)" "pr_put P ns key v w = (n, w1)" by (metis prod.exhaust)
  have "saved w1 ns' k = saved w ns' k" using put_law [OF kv(2)] Cons.prems(2) kv(1) by (cases "ns' = ns") auto
  then show ?case using Cons kv by (auto split: if_splits)
qed simp

lemma put_seq_stored:
  "put_seq P ns kvs w = (True, w') \<Longrightarrow> distinct (map fst kvs) \<Longrightarrow> (k, v) \<in> set kvs \<Longrightarrow> saved w' ns k = Some v"
proof (induction kvs arbitrary: w)
  case (Cons kv kvs)
  obtain key x n w1 where kv: "kv = (key, x)" "pr_put P ns key x w = (n, w1)" by (metis prod.exhaust)
  then have n: "0 < n" "put_seq P ns kvs w1 = (True, w')" using Cons.prems(1) by (auto split: if_splits)
  show ?case
  proof (cases "(k, v) \<in> set kvs")
    case True
    then show ?thesis using Cons.IH [OF n(2)] Cons.prems(2) by simp
  next
    case False
    then have "k = key" "v = x" "k \<notin> fst ` set kvs" using Cons.prems(2,3) kv(1) by auto
    then show ?thesis using put_seq_keeps [OF n(2)] put_law [OF kv(2)] n(1) by auto
  qed
qed simp

text \<open>A chain that fails stops at a put: it stored a prefix of the values.\<close>

lemma put_seq_prefix:
  "put_seq P ns kvs w = (b, w') \<Longrightarrow>
   \<exists>m \<le> length kvs. saved w' = fold (\<lambda>(k, v). pref_upd ns k (Some v)) (take m kvs) (saved w) \<and> (b \<longrightarrow> m = length kvs)"
proof (induction kvs arbitrary: w)
  case (Cons kv kvs)
  obtain key x n w1 where kv: "kv = (key, x)" "pr_put P ns key x w = (n, w1)" by (metis prod.exhaust)
  note F = put_law [OF kv(2)]
  show ?case
  proof (cases "0 < n")
    case True
    then have "put_seq P ns kvs w1 = (b, w')" using Cons.prems kv by simp
    from Cons.IH [OF this] obtain m where "m \<le> length kvs"
      "saved w' = fold (\<lambda>(k, v). pref_upd ns k (Some v)) (take m kvs) (saved w1)" "b \<longrightarrow> m = length kvs" by blast
    then show ?thesis using F True kv(1) by (intro exI [of _ "Suc m"]) simp
  next
    case False
    then have "\<not> b" "w' = w1" using Cons.prems kv by simp_all
    then show ?thesis using F kv(1) by (metis (no_types, lifting) One_nat_def case_prod_conv fold.simps(1) fold_Cons
          length_Cons less_eq_nat.simps(1) o_apply take0 take_Suc_Cons id_apply Suc_le_mono)
  qed
qed simp

lemma remove_seq_law:
  "saved (remove_seq P ns ks w) ns' k = saved w ns' k \<or>
   (ns' = ns \<and> k \<in> set ks \<and> saved (remove_seq P ns ks w) ns' k = None)"
proof (induction ks arbitrary: w)
  case (Cons key ks)
  obtain b w1 where r: "pr_remove P ns key w = (b, w1)" by fastforce
  show ?case using Cons.IH [of w1] remove_law [OF r] by (cases "ns' = ns"; cases "k = key") (auto simp: r)
qed simp

end

subsection \<open>A store in memory\<close>

text \<open>An association list and the number of writes that still succeed.\<close>

record fake_prefs =
  fp_entries :: "((string \<times> string) \<times> pval) list"
  fp_writes :: nat

definition fp_saved :: "fake_prefs \<Rightarrow> string \<Rightarrow> string \<Rightarrow> pval option" where
  "fp_saved w ns k = map_of (fp_entries w) (ns, k)"

definition pval_bytes :: "pval \<Rightarrow> nat" where
  "pval_bytes v = (case v of PBool _ \<Rightarrow> 1 | PUChar _ \<Rightarrow> 1 | PUShort _ \<Rightarrow> 2 | PUInt _ \<Rightarrow> 4 | PString s \<Rightarrow> length s)"

definition fake_prefs_ops :: "fake_prefs prefs_ops" where
  "fake_prefs_ops = \<lparr>
     pr_begin = (\<lambda>ns ro w. (True, w)),
     pr_get = (\<lambda>ns k w. fp_saved w ns k),
     pr_put = (\<lambda>ns k v w. case fp_writes w of 0 \<Rightarrow> (0, w)
       | Suc n \<Rightarrow> (pval_bytes v, w\<lparr>fp_entries := ((ns, k), v) # fp_entries w, fp_writes := n\<rparr>)),
     pr_remove = (\<lambda>ns k w. case fp_writes w of 0 \<Rightarrow> (False, w)
       | Suc n \<Rightarrow> (True, w\<lparr>fp_entries := filter (\<lambda>e. fst e \<noteq> (ns, k)) (fp_entries w), fp_writes := n\<rparr>)),
     pr_clear = (\<lambda>ns w. case fp_writes w of 0 \<Rightarrow> (False, w)
       | Suc n \<Rightarrow> (True, w\<lparr>fp_entries := filter (\<lambda>e. fst (fst e) \<noteq> ns) (fp_entries w), fp_writes := n\<rparr>))\<rparr>"

lemma map_of_filter_fst:
  "map_of (filter (\<lambda>e. Q (fst e)) xs) x = (if Q x then map_of xs x else None)"
  by (induction xs) auto

interpretation fake_store: preferences fake_prefs_ops fp_saved
proof (unfold_locales, goal_cases)
  case (3 ns k v w n w')
  then show ?case by (auto simp: fake_prefs_ops_def pref_upd_def fp_saved_def fun_eq_iff split: nat.splits)
next
  case (4 ns k w b w')
  then show ?case
    by (auto simp: fake_prefs_ops_def pref_upd_def fp_saved_def fun_eq_iff map_of_filter_fst [where Q = "\<lambda>x. x \<noteq> (ns, k)"]
        split: nat.splits)
next
  case (5 ns w b w')
  then show ?case
    by (auto simp: fake_prefs_ops_def fp_saved_def fun_eq_iff map_of_filter_fst [where Q = "\<lambda>x. fst x \<noteq> ns"]
        split: nat.splits)
qed (simp_all add: fake_prefs_ops_def)

end
