(* ===== verification/AppBearerRotation.thy ===== *)
theory AppBearerRotation
  imports Preferences
begin

section \<open>AppBearerRotation: replacing the app credential\<close>

text \<open>
  \<open>logger/firmware/src/AppBearerRotation.cpp\<close>: the server hands out a new bearer token; it is
  staged in non-volatile storage, acknowledged, proved by a heartbeat and only then made the
  active one. Storage may fail and the power may go between any two writes.
\<close>

definition kAuthNamespace :: string where "kAuthNamespace = ''apexi_auth''"
definition kMaximumBearerLength :: nat where "kMaximumBearerLength = 511"
definition kMaximumNonceLength :: nat where "kMaximumNonceLength = 96"
definition kMaximumExpiryLength :: nat where "kMaximumExpiryLength = 40"

definition validSecret :: "string \<Rightarrow> nat \<Rightarrow> nat \<Rightarrow> bool" where
  "validSecret value maximum minimum \<longleftrightarrow> minimum \<le> length value \<and> length value \<le> maximum \<and>
     list_all (\<lambda>c. \<not> (of_char c < (0x21 :: nat) \<or> of_char c = (0x7f :: nat))) value"

datatype StageResult = Staged | AlreadyPending | AlreadyApplied | Rejected | StorageFault

text \<open>The phase is the byte that is stored: 0 none, 1 staged, 2 acknowledged.\<close>

definition phaseNone :: byte where "phaseNone = 0"
definition phaseStaged :: byte where "phaseStaged = 1"
definition phaseAcknowledged :: byte where "phaseAcknowledged = 2"

lemmas phases = phaseNone_def phaseStaged_def phaseAcknowledged_def

record AppBearerRotation =
  activeBearer :: string
  candidateBearer :: string
  ab_nonce :: string
  overlapExpiresAt :: string
  appliedNonce :: string
  ab_lastError :: string
  ab_version :: u32
  appliedVersion :: u32
  ab_phase :: byte

definition fresh_rotation :: AppBearerRotation where
  "fresh_rotation = \<lparr>activeBearer = [], candidateBearer = [], ab_nonce = [], overlapExpiresAt = [],
     appliedNonce = [], ab_lastError = [], ab_version = 0, appliedVersion = 0, ab_phase = phaseNone\<rparr>"

definition hasCandidate :: "AppBearerRotation \<Rightarrow> bool" where
  "hasCandidate r \<longleftrightarrow> ab_phase r \<noteq> phaseNone \<and> candidateBearer r \<noteq> []"

definition clearCandidateMemory :: "AppBearerRotation \<Rightarrow> AppBearerRotation" where
  "clearCandidateMemory r = r\<lparr>candidateBearer := [], ab_nonce := [], overlapExpiresAt := [],
     ab_version := 0, ab_phase := phaseNone\<rparr>"

definition clearCandidatePersistent :: "'w prefs_ops \<Rightarrow> 'w \<Rightarrow> 'w" where
  "clearCandidatePersistent P w =
     (case pr_begin P kAuthNamespace False w of
        (False, w) \<Rightarrow> w
      | (True, w) \<Rightarrow> remove_seq P kAuthNamespace
          [''cand_ready'', ''candidate'', ''cand_ver'', ''cand_nonce'', ''overlap_at'', ''phase''] w)"

definition load_candidate :: "'w prefs_ops \<Rightarrow> 'w \<Rightarrow> AppBearerRotation \<Rightarrow> AppBearerRotation" where
  "load_candidate P w r = r\<lparr>ab_version := getUInt P kAuthNamespace ''cand_ver'' 0 w,
     ab_nonce := getString P kAuthNamespace ''cand_nonce'' [] w,
     candidateBearer := getString P kAuthNamespace ''candidate'' [] w,
     overlapExpiresAt := getString P kAuthNamespace ''overlap_at'' [] w,
     ab_phase := getUChar P kAuthNamespace ''phase'' 0 w\<rparr>"

definition candidate_valid :: "AppBearerRotation \<Rightarrow> bool" where
  "candidate_valid r \<longleftrightarrow> ab_version r \<noteq> 0 \<and> validSecret (ab_nonce r) kMaximumNonceLength 8 \<and>
     validSecret (candidateBearer r) kMaximumBearerLength 16 \<and>
     validSecret (overlapExpiresAt r) kMaximumExpiryLength 20 \<and>
     (ab_phase r = phaseStaged \<or> ab_phase r = phaseAcknowledged)"

definition rotation_begin ::
  "'w prefs_ops \<Rightarrow> string option \<Rightarrow> AppBearerRotation \<Rightarrow> 'w \<Rightarrow> bool \<times> AppBearerRotation \<times> 'w" where
  "rotation_begin P provisioned r w =
     (let r = (clearCandidateMemory (r\<lparr>activeBearer := (case provisioned of None \<Rightarrow> [] | Some b \<Rightarrow> b)\<rparr>))
            \<lparr>appliedVersion := 0, appliedNonce := [], ab_lastError := []\<rparr>
      in case pr_begin P kAuthNamespace True w of
           (False, w) \<Rightarrow> (False, r\<lparr>ab_lastError := ''credential rotation store unavailable''\<rparr>, w)
         | (True, w) \<Rightarrow>
             (let persisted = getString P kAuthNamespace ''active'' [] w;
                  r = (if persisted \<noteq> [] then r\<lparr>activeBearer := persisted\<rparr> else r);
                  r = r\<lparr>appliedVersion := getUInt P kAuthNamespace ''applied_ver'' 0 w,
                        appliedNonce := getString P kAuthNamespace ''applied_nonce'' [] w\<rparr>;
                  ready = getBool P kAuthNamespace ''cand_ready'' False w;
                  r = (if ready then load_candidate P w r else r)
              in if ready \<and> \<not> candidate_valid r
                 then (False, (clearCandidateMemory r)\<lparr>ab_lastError := ''credential rotation record is invalid''\<rparr>,
                       clearCandidatePersistent P w)
                 else (activeBearer r \<noteq> [], r, w)))"

definition persistCandidate ::
  "'w prefs_ops \<Rightarrow> byte \<Rightarrow> AppBearerRotation \<Rightarrow> 'w \<Rightarrow> bool \<times> AppBearerRotation \<times> 'w" where
  "persistCandidate P phase r w =
     (case pr_begin P kAuthNamespace False w of
        (False, w) \<Rightarrow> (False, r\<lparr>ab_lastError := ''credential rotation store unavailable''\<rparr>, w)
      | (True, w) \<Rightarrow>
          (case put_seq P kAuthNamespace
             [(''cand_ready'', PBool False), (''cand_ver'', PUInt (ab_version r)),
              (''cand_nonce'', PString (ab_nonce r)), (''candidate'', PString (candidateBearer r)),
              (''overlap_at'', PString (overlapExpiresAt r)), (''phase'', PUChar phase),
              (''cand_ready'', PBool True)] w of
             (True, w) \<Rightarrow> (True, r, w)
           | (False, w) \<Rightarrow> (False, r\<lparr>ab_lastError := ''credential rotation persistence failed''\<rparr>, w)))"

definition rotation_error :: "string \<Rightarrow> StageResult \<Rightarrow> AppBearerRotation \<Rightarrow> 'w \<Rightarrow> StageResult \<times> AppBearerRotation \<times> 'w" where
  "rotation_error msg res r w = (res, r\<lparr>ab_lastError := msg\<rparr>, w)"

definition stage ::
  "'w prefs_ops \<Rightarrow> u32 \<Rightarrow> string \<Rightarrow> string \<Rightarrow> string \<Rightarrow> AppBearerRotation \<Rightarrow> 'w \<Rightarrow> StageResult \<times> AppBearerRotation \<times> 'w" where
  "stage P version nonce token expires r w =
     (if version = 0 \<or> \<not> validSecret nonce kMaximumNonceLength 8 \<or>
         \<not> validSecret token kMaximumBearerLength 16 \<or> \<not> validSecret expires kMaximumExpiryLength 20
      then rotation_error ''invalid credential rotation request'' Rejected r w
      else if version = appliedVersion r
      then if nonce = appliedNonce r \<and> token = activeBearer r then (AlreadyApplied, r, w)
           else rotation_error ''credential rotation version was reused'' Rejected r w
      else if hasCandidate r
      then if version = ab_version r \<and> nonce = ab_nonce r \<and> token = candidateBearer r
           then (AlreadyPending, r, w)
           else rotation_error (if version \<le> ab_version r then ''credential rotation is stale''
                  else ''credential rotation already pending'') Rejected r w
      else if version < appliedVersion r then rotation_error ''credential rotation is stale'' Rejected r w
      else if token = activeBearer r
      then rotation_error ''credential rotation token is already active'' Rejected r w
      else let r = r\<lparr>ab_version := version, ab_nonce := nonce, candidateBearer := token,
                     overlapExpiresAt := expires, ab_phase := phaseStaged\<rparr>
        in case persistCandidate P phaseStaged r w of
             (False, r, w) \<Rightarrow> (StorageFault, clearCandidateMemory r, w)
           | (True, r, w) \<Rightarrow> (Staged, r\<lparr>ab_lastError := []\<rparr>, w))"

definition markAcknowledged :: "'w prefs_ops \<Rightarrow> AppBearerRotation \<Rightarrow> 'w \<Rightarrow> bool \<times> AppBearerRotation \<times> 'w" where
  "markAcknowledged P r w =
     (if \<not> hasCandidate r then (False, r, w)
      else case pr_begin P kAuthNamespace False w of
        (False, w) \<Rightarrow> (False, r\<lparr>ab_lastError := ''credential rotation store unavailable''\<rparr>, w)
      | (True, w) \<Rightarrow>
          (case pr_put P kAuthNamespace ''phase'' (PUChar phaseAcknowledged) w of (n, w) \<Rightarrow>
             if n = 0
             then (False, r\<lparr>ab_lastError := ''credential rotation acknowledgement persistence failed''\<rparr>, w)
             else (True, r\<lparr>ab_phase := phaseAcknowledged, ab_lastError := []\<rparr>, w)))"

definition promoteCandidate :: "'w prefs_ops \<Rightarrow> AppBearerRotation \<Rightarrow> 'w \<Rightarrow> bool \<times> AppBearerRotation \<times> 'w" where
  "promoteCandidate P r w =
     (if \<not> hasCandidate r \<or> ab_phase r \<noteq> phaseAcknowledged then (False, r, w)
      else case pr_begin P kAuthNamespace False w of
        (False, w) \<Rightarrow> (False, r\<lparr>ab_lastError := ''credential rotation store unavailable''\<rparr>, w)
      | (True, w) \<Rightarrow>
          (case put_seq P kAuthNamespace
             [(''active'', PString (candidateBearer r)), (''applied_ver'', PUInt (ab_version r)),
              (''applied_nonce'', PString (ab_nonce r))] w of
             (False, w) \<Rightarrow> (False, r\<lparr>ab_lastError := ''credential rotation promotion failed''\<rparr>, w)
           | (True, w) \<Rightarrow>
               (case pr_remove P kAuthNamespace ''cand_ready'' w of
                  (False, w) \<Rightarrow> (False, r\<lparr>ab_lastError := ''credential rotation promotion failed''\<rparr>, w)
                | (True, w) \<Rightarrow>
                    (True,
                     (clearCandidateMemory (r\<lparr>activeBearer := candidateBearer r, appliedVersion := ab_version r,
                        appliedNonce := ab_nonce r\<rparr>))\<lparr>ab_lastError := []\<rparr>,
                     remove_seq P kAuthNamespace
                       [''candidate'', ''cand_ver'', ''cand_nonce'', ''overlap_at'', ''phase''] w))))"

definition abandonCandidate :: "'w prefs_ops \<Rightarrow> AppBearerRotation \<Rightarrow> 'w \<Rightarrow> AppBearerRotation \<times> 'w" where
  "abandonCandidate P r w = (clearCandidateMemory r, clearCandidatePersistent P w)"

definition rotation_factoryReset :: "'w prefs_ops \<Rightarrow> 'w \<Rightarrow> bool \<times> 'w" where
  "rotation_factoryReset P w =
     (case pr_begin P kAuthNamespace False w of
        (False, w) \<Rightarrow> (False, w)
      | (True, w) \<Rightarrow> pr_clear P kAuthNamespace w)"

definition rotation_version :: "AppBearerRotation \<Rightarrow> u32" where
  "rotation_version r = (if hasCandidate r then ab_version r else appliedVersion r)"

definition rotation_nonce :: "AppBearerRotation \<Rightarrow> string" where
  "rotation_nonce r = (if hasCandidate r then ab_nonce r else appliedNonce r)"

definition hasAppliedAcknowledgement :: "AppBearerRotation \<Rightarrow> bool" where
  "hasAppliedAcknowledgement r \<longleftrightarrow> hasCandidate r \<and> ab_phase r = phaseStaged"

subsection \<open>Histories\<close>

text \<open>
  A history of calls and restarts. Every call may fail at any of its writes, so a power loss inside
  a call is the call that fails there, followed by a restart. The last component collects the
  tokens whose acknowledgement the server accepted while they were the candidate.
\<close>

datatype RotationOp = BootOp "string option" | StageOp u32 string string string | AckOp | PromoteOp | AbandonOp | ResetOp

fun rotation_op :: "'w prefs_ops \<Rightarrow> RotationOp \<Rightarrow> AppBearerRotation \<Rightarrow> 'w \<Rightarrow> AppBearerRotation \<times> 'w" where
  "rotation_op P (BootOp provisioned) r w = snd (rotation_begin P provisioned fresh_rotation w)"
| "rotation_op P (StageOp v n t e) r w = snd (stage P v n t e r w)"
| "rotation_op P AckOp r w = snd (markAcknowledged P r w)"
| "rotation_op P PromoteOp r w = snd (promoteCandidate P r w)"
| "rotation_op P AbandonOp r w = abandonCandidate P r w"
| "rotation_op P ResetOp r w = (r, snd (rotation_factoryReset P w))"

definition acked_now :: "RotationOp \<Rightarrow> AppBearerRotation \<Rightarrow> string set" where
  "acked_now x r = (if x = AckOp \<and> hasCandidate r then {candidateBearer r} else {})"

fun rotation_run ::
  "'w prefs_ops \<Rightarrow> RotationOp list \<Rightarrow> AppBearerRotation \<times> 'w \<times> string set \<Rightarrow> AppBearerRotation \<times> 'w \<times> string set" where
  "rotation_run P [] s = s"
| "rotation_run P (x # xs) (r, w, acked) =
     (case rotation_op P x r w of (r', w') \<Rightarrow> rotation_run P xs (r', w', acked \<union> acked_now x r))"

definition staged_tokens :: "RotationOp list \<Rightarrow> string set" where
  "staged_tokens xs = {t. \<exists>v n e. StageOp v n t e \<in> set xs \<and> v \<noteq> 0 \<and> validSecret t kMaximumBearerLength 16}"

subsection \<open>The invariant\<close>

definition auth_store_ok :: "string set \<Rightarrow> string set \<Rightarrow> (string \<Rightarrow> pval option) \<Rightarrow> bool" where
  "auth_store_ok S A F \<longleftrightarrow> (\<forall>t. F ''active'' = Some (PString t) \<longrightarrow> t \<in> A) \<and>
     (F ''cand_ready'' = Some (PBool True) \<longrightarrow>
      (\<forall>c. F ''candidate'' = Some (PString c) \<longrightarrow>
         c \<in> S \<and> (F ''phase'' = Some (PUChar phaseAcknowledged) \<longrightarrow> c \<in> A)))"

definition auth_agrees :: "AppBearerRotation \<Rightarrow> (string \<Rightarrow> pval option) \<Rightarrow> bool" where
  "auth_agrees r F \<longleftrightarrow> (hasCandidate r \<and> F ''cand_ready'' = Some (PBool True) \<longrightarrow>
     (\<forall>c. F ''candidate'' = Some (PString c) \<longrightarrow> c = candidateBearer r))"

definition auth_memory_ok :: "string set \<Rightarrow> string set \<Rightarrow> string set \<Rightarrow> AppBearerRotation \<Rightarrow> bool" where
  "auth_memory_ok S A V r \<longleftrightarrow> activeBearer r \<in> A \<union> V \<union> {[]} \<and>
     (hasCandidate r \<longrightarrow> candidateBearer r \<in> S \<and> (ab_phase r = phaseAcknowledged \<longrightarrow> candidateBearer r \<in> A))"

definition auth_inv :: "string set \<Rightarrow> string set \<Rightarrow> string set \<Rightarrow> AppBearerRotation \<Rightarrow> (string \<Rightarrow> pval option) \<Rightarrow> bool" where
  "auth_inv S A V r F \<longleftrightarrow> auth_store_ok S A F \<and> auth_agrees r F \<and> auth_memory_ok S A V r"

lemma hasCandidate_simps [simp]:
  "\<not> hasCandidate (clearCandidateMemory r)" "hasCandidate (r\<lparr>ab_lastError := e\<rparr>) = hasCandidate r"
  by (simp_all add: hasCandidate_def clearCandidateMemory_def)

lemma auth_inv_error [simp]: "auth_inv S A V (r\<lparr>ab_lastError := e\<rparr>) F \<longleftrightarrow> auth_inv S A V r F"
  by (simp add: auth_inv_def auth_agrees_def auth_memory_ok_def)

lemma auth_inv_clear: "auth_inv S A V r F \<Longrightarrow> auth_inv S A V (clearCandidateMemory r) F"
  by (simp add: auth_inv_def auth_agrees_def auth_memory_ok_def) (simp add: clearCandidateMemory_def)

text \<open>Removing values cannot hurt.\<close>

lemma auth_inv_shrink:
  assumes "auth_inv S A V r F" "\<And>k. F' k = F k \<or> F' k = None"
  shows "auth_inv S A V r F'"
proof -
  have "F' k = Some v \<Longrightarrow> F k = Some v" for k v using assms(2) [of k] by auto
  then show ?thesis using assms(1) by (auto simp: auth_inv_def auth_store_ok_def auth_agrees_def)
qed

lemma auth_inv_mono:
  "auth_inv S A V r F \<Longrightarrow> S \<subseteq> S' \<Longrightarrow> A \<subseteq> A' \<Longrightarrow> V \<subseteq> V' \<Longrightarrow> auth_inv S' A' V' r F"
  by (auto simp: auth_inv_def auth_store_ok_def auth_agrees_def auth_memory_ok_def)

context preferences
begin

abbreviation auth :: "'w \<Rightarrow> string \<Rightarrow> pval option" where
  "auth w \<equiv> saved w kAuthNamespace"

lemma remove_seq_shrinks: "auth_inv S A V r (auth w) \<Longrightarrow> auth_inv S A V r (auth (remove_seq P kAuthNamespace ks w))"
  by (erule auth_inv_shrink) (metis remove_seq_law)

lemma clearPersistent_inv:
  "auth_inv S A V r (auth w) \<Longrightarrow> auth_inv S A V r (auth (clearCandidatePersistent P w))"
proof -
  assume a: "auth_inv S A V r (auth w)"
  obtain b w1 where w1: "pr_begin P kAuthNamespace False w = (b, w1)" by fastforce
  then have "auth_inv S A V r (auth w1)" using begin_law a by simp
  then show ?thesis using remove_seq_shrinks
    by (simp add: clearCandidatePersistent_def w1 del: remove_seq.simps split: bool.split)
qed

lemma begin_inv:
  assumes "auth_store_ok S A (auth w)" "\<And>b. provisioned = Some b \<Longrightarrow> b \<in> V"
    "rotation_begin P provisioned r0 w = (b, r', w')"
  shows "auth_inv S A V r' (auth w')"
proof -
  define r1 where "r1 = (clearCandidateMemory (r0\<lparr>activeBearer := (case provisioned of None \<Rightarrow> [] | Some b \<Rightarrow> b)\<rparr>))
            \<lparr>appliedVersion := 0, appliedNonce := [], ab_lastError := []\<rparr>"
  obtain o1 w1 where w1: "pr_begin P kAuthNamespace True w = (o1, w1)" by fastforce
  have F: "auth w1 = auth w" using begin_law [OF w1] by simp
  define persisted where "persisted = getString P kAuthNamespace ''active'' [] w1"
  define r2 where "r2 = (if persisted \<noteq> [] then r1\<lparr>activeBearer := persisted\<rparr> else r1)
     \<lparr>appliedVersion := getUInt P kAuthNamespace ''applied_ver'' 0 w1,
      appliedNonce := getString P kAuthNamespace ''applied_nonce'' [] w1\<rparr>"
  define ready where "ready = getBool P kAuthNamespace ''cand_ready'' False w1"
  define r3 where "r3 = (if ready then load_candidate P w1 r2 else r2)"
  have eq: "rotation_begin P provisioned r0 w =
      (if \<not> o1 then (False, r1\<lparr>ab_lastError := ''credential rotation store unavailable''\<rparr>, w1)
       else if ready \<and> \<not> candidate_valid r3
       then (False, (clearCandidateMemory r3)\<lparr>ab_lastError := ''credential rotation record is invalid''\<rparr>,
             clearCandidatePersistent P w1)
       else (activeBearer r3 \<noteq> [], r3, w1))"
    unfolding rotation_begin_def Let_def r1_def [symmetric]
    by (simp add: w1 r2_def r3_def persisted_def ready_def split: bool.split)
  have act1: "activeBearer r1 \<in> A \<union> V \<union> {[]}" "\<not> hasCandidate r1"
    using assms(2) by (auto simp: r1_def clearCandidateMemory_def hasCandidate_def phases split: option.split)
  have "persisted = [] \<or> persisted \<in> A"
    using assms(1) F by (auto simp: persisted_def getString_def get_law auth_store_ok_def split: option.splits pval.splits)
  then have act2: "activeBearer r2 \<in> A \<union> V \<union> {[]}" "\<not> hasCandidate r2"
    using act1 by (auto simp: r2_def hasCandidate_def)
  have act3: "activeBearer r3 \<in> A \<union> V \<union> {[]}" using act2(1) by (auto simp: r3_def load_candidate_def)
  have none: "auth_inv S A V x (auth w1)" if "\<not> hasCandidate x" "activeBearer x \<in> A \<union> V \<union> {[]}" for x
    using that assms(1) F by (simp add: auth_inv_def auth_agrees_def auth_memory_ok_def)
  have ok: "auth_inv S A V r3 (auth w1)" if "ready" "candidate_valid r3"
  proof -
    have l: "r3 = load_candidate P w1 r2" using that(1) by (simp add: r3_def)
    have "validSecret (candidateBearer r3) kMaximumBearerLength 16" using that(2) by (simp add: candidate_valid_def)
    then have "candidateBearer r3 \<noteq> []" by (auto simp: validSecret_def)
    then have c: "auth w1 ''candidate'' = Some (PString (candidateBearer r3))"
      by (auto simp: l load_candidate_def getString_def get_law split: option.splits pval.splits)
    have "ab_phase r3 \<noteq> 0" using that(2) by (auto simp: candidate_valid_def phases)
    then have p: "auth w1 ''phase'' = Some (PUChar (ab_phase r3))"
      by (auto simp: l load_candidate_def getUChar_def get_law split: option.splits pval.splits)
    have "auth w1 ''cand_ready'' = Some (PBool True)"
      using that(1) by (auto simp: ready_def getBool_def get_law split: option.splits pval.splits)
    then show ?thesis using assms(1) c p act3 F
      by (auto simp: auth_inv_def auth_store_ok_def auth_agrees_def auth_memory_ok_def)
  qed
  have A1: "auth_inv S A V (r1\<lparr>ab_lastError := e\<rparr>) (auth w1)" for e using none act1 by simp
  have A2: "auth_inv S A V ((clearCandidateMemory r3)\<lparr>ab_lastError := e\<rparr>) (auth (clearCandidatePersistent P w1))" for e
    using clearPersistent_inv [OF none [of "clearCandidateMemory r3"]] act3 by (simp add: clearCandidateMemory_def hasCandidate_def phases)
  have A3: "\<not> ready \<Longrightarrow> auth_inv S A V r3 (auth w1)" using none act2 by (simp add: r3_def)
  show ?thesis using assms(3) A1 A2 A3 ok unfolding eq by (auto split: if_splits)
qed

lemma persist_partial:
  assumes "auth_inv S A V (clearCandidateMemory r) (auth w)" "candidateBearer r \<in> S"
    "persistCandidate P phaseStaged r w = (b, r', w')"
  shows "\<exists>e. r' = r\<lparr>ab_lastError := e\<rparr>" "auth_inv S A V (clearCandidateMemory r) (auth w')"
    "b \<Longrightarrow> auth_agrees r (auth w')"
proof -
  obtain o1 w1 where w1: "pr_begin P kAuthNamespace False w = (o1, w1)" by fastforce
  have F: "saved w1 = saved w" using begin_law [OF w1] .
  define kvs where "kvs = [(''cand_ready'', PBool False), (''cand_ver'', PUInt (ab_version r)),
              (''cand_nonce'', PString (ab_nonce r)), (''candidate'', PString (candidateBearer r)),
              (''overlap_at'', PString (overlapExpiresAt r)), (''phase'', PUChar phaseStaged),
              (''cand_ready'', PBool True)]"
  obtain o2 w2 where w2: "put_seq P kAuthNamespace kvs w1 = (o2, w2)" by fastforce
  have eq: "persistCandidate P phaseStaged r w =
      (if \<not> o1 then (False, r\<lparr>ab_lastError := ''credential rotation store unavailable''\<rparr>, w1)
       else if o2 then (True, r, w2) else (False, r\<lparr>ab_lastError := ''credential rotation persistence failed''\<rparr>, w2))"
    unfolding persistCandidate_def w1 prod.case kvs_def [symmetric] w2 by (simp split: bool.split)
  show "\<exists>e. r' = r\<lparr>ab_lastError := e\<rparr>"
    using assms(3) unfolding eq by (auto split: if_splits intro: exI [of _ "ab_lastError r"])
  have len: "length kvs = 7" by (simp add: kvs_def)
  from put_seq_prefix [OF w2, unfolded len F] obtain m where m: "m \<le> 7"
    "saved w2 = fold (\<lambda>(k, v). pref_upd kAuthNamespace k (Some v)) (take m kvs) (saved w)" "o2 \<longrightarrow> m = 7"
    by blast
  have st: "auth_store_ok S A (auth w)" using assms(1) by (simp add: auth_inv_def)
  have "m = 0 \<or> m = 1 \<or> m = 2 \<or> m = 3 \<or> m = 4 \<or> m = 5 \<or> m = 6 \<or> m = 7" using m(1) by linarith
  then have ok: "auth_store_ok S A (auth w2)"
    using st assms(2) unfolding m(2) kvs_def by (elim disjE) (simp_all add: auth_store_ok_def phases)
  show "auth_inv S A V (clearCandidateMemory r) (auth w')"
    using assms(1,3) ok F unfolding eq by (auto simp: auth_inv_def auth_agrees_def split: if_splits)
  show "auth_agrees r (auth w')" if b
  proof -
    have "o2" "w' = w2" using assms(3) that unfolding eq by (auto split: if_splits)
    then have "auth w' ''candidate'' = Some (PString (candidateBearer r))" using m(2,3) by (simp add: kvs_def)
    then show ?thesis by (simp add: auth_agrees_def)
  qed
qed

lemma persist_stored:
  assumes "persistCandidate P phase r w = (True, r', w')"
  shows "auth w' ''cand_ready'' = Some (PBool True)" "auth w' ''cand_ver'' = Some (PUInt (ab_version r))"
    "auth w' ''cand_nonce'' = Some (PString (ab_nonce r))" "auth w' ''candidate'' = Some (PString (candidateBearer r))"
    "auth w' ''overlap_at'' = Some (PString (overlapExpiresAt r))" "auth w' ''phase'' = Some (PUChar phase)"
proof -
  define kvs where "kvs = [(''cand_ready'', PBool False), (''cand_ver'', PUInt (ab_version r)),
              (''cand_nonce'', PString (ab_nonce r)), (''candidate'', PString (candidateBearer r)),
              (''overlap_at'', PString (overlapExpiresAt r)), (''phase'', PUChar phase),
              (''cand_ready'', PBool True)]"
  obtain w1 where "put_seq P kAuthNamespace kvs w1 = (True, w')"
    using assms unfolding persistCandidate_def kvs_def [symmetric] by (auto split: prod.splits bool.splits)
  from put_seq_prefix [OF this]
  have "saved w' = fold (\<lambda>(k, v). pref_upd kAuthNamespace k (Some v)) kvs (saved w1)" by auto
  then show "auth w' ''cand_ready'' = Some (PBool True)" "auth w' ''cand_ver'' = Some (PUInt (ab_version r))"
    "auth w' ''cand_nonce'' = Some (PString (ab_nonce r))" "auth w' ''candidate'' = Some (PString (candidateBearer r))"
    "auth w' ''overlap_at'' = Some (PString (overlapExpiresAt r))" "auth w' ''phase'' = Some (PUChar phase)"
    by (simp_all add: kvs_def)
qed

lemma stage_inv:
  assumes "auth_inv S A V r (auth w)" "stage P v n t e r w = (res, r', w')"
    "v \<noteq> 0 \<Longrightarrow> validSecret t kMaximumBearerLength 16 \<Longrightarrow> t \<in> S"
  shows "auth_inv S A V r' (auth w')"
proof -
  define r1 where "r1 = r\<lparr>ab_version := v, ab_nonce := n, candidateBearer := t, overlapExpiresAt := e, ab_phase := phaseStaged\<rparr>"
  obtain b r2 w2 where p: "persistCandidate P phaseStaged r1 w = (b, r2, w2)" by (metis prod.collapse)
  have same: "auth_inv S A V r' (auth w')" if "(\<exists>msg. r' = r\<lparr>ab_lastError := msg\<rparr>) \<or> r' = r" "w' = w"
    using that assms(1) by auto
  show ?thesis
  proof (cases "v \<noteq> 0 \<and> validSecret t kMaximumBearerLength 16 \<and> \<not> hasCandidate r \<and>
      stage P v n t e r w = (if b then (Staged, r2\<lparr>ab_lastError := []\<rparr>, w2) else (StorageFault, clearCandidateMemory r2, w2))")
    case False
    then have "((\<exists>msg. r' = r\<lparr>ab_lastError := msg\<rparr>) \<or> r' = r) \<and> w' = w"
      using assms(2) p
      by (auto simp: stage_def rotation_error_def Let_def r1_def split: if_splits bool.splits)
    then show ?thesis using same by blast
  next
    case True
    have tS: "t \<in> S" using assms(3) True by blast
    have "clearCandidateMemory r1 = clearCandidateMemory r" by (simp add: r1_def clearCandidateMemory_def)
    then have inv1: "auth_inv S A V (clearCandidateMemory r1) (auth w)" using auth_inv_clear [OF assms(1)] by simp
    note P = persist_partial [OF inv1 _ p]
    have c: "candidateBearer r1 \<in> S" using tS by (simp add: r1_def)
    obtain msg where r2: "r2 = r1\<lparr>ab_lastError := msg\<rparr>" using P(1) [OF c] by blast
    have cl: "auth_inv S A V (clearCandidateMemory r1) (auth w2)" by (rule P(2) [OF c])
    have m: "auth_memory_ok S A V r1"
      using assms(1) tS by (auto simp: auth_inv_def auth_memory_ok_def r1_def phases)
    show ?thesis
    proof (cases b)
      case True
      have "auth_inv S A V r1 (auth w2)"
        using cl m P(3) [OF c True] by (simp add: auth_inv_def)
      then show ?thesis using assms(2) \<open>v \<noteq> 0 \<and> _\<close> True r2 by auto
    next
      case False
      have "clearCandidateMemory r2 = (clearCandidateMemory r1)\<lparr>ab_lastError := msg\<rparr>"
        by (simp add: r2 clearCandidateMemory_def)
      then have cl: "auth_inv S A V (clearCandidateMemory r2) (auth w2)" using cl by simp
      then show ?thesis using assms(2) \<open>v \<noteq> 0 \<and> _\<close> False cl by auto
    qed
  qed
qed

lemma ack_inv:
  assumes "auth_inv S A V r (auth w)" "markAcknowledged P r w = (b, r', w')"
  shows "auth_inv S (A \<union> acked_now AckOp r) V r' (auth w')"
proof (cases "hasCandidate r")
  case False
  then show ?thesis using assms by (simp add: markAcknowledged_def acked_now_def)
next
  case True
  obtain o1 w1 where w1: "pr_begin P kAuthNamespace False w = (o1, w1)" by fastforce
  obtain n w2 where w2: "pr_put P kAuthNamespace ''phase'' (PUChar phaseAcknowledged) w1 = (n, w2)" by fastforce
  have eq: "markAcknowledged P r w =
      (if \<not> o1 then (False, r\<lparr>ab_lastError := ''credential rotation store unavailable''\<rparr>, w1)
       else if n = 0 then (False, r\<lparr>ab_lastError := ''credential rotation acknowledgement persistence failed''\<rparr>, w2)
       else (True, r\<lparr>ab_phase := phaseAcknowledged, ab_lastError := []\<rparr>, w2))"
    using True by (simp add: markAcknowledged_def w1 w2 split: bool.split)
  have inv: "auth_inv S (A \<union> {candidateBearer r}) V r (auth w1)"
    using auth_inv_mono [OF assms(1), of S "A \<union> {candidateBearer r}" V] begin_law [OF w1] by auto
  have 2: "auth_inv S (A \<union> {candidateBearer r}) V r (auth w2)"
    using inv put_law [OF w2] True by (auto simp: auth_inv_def auth_store_ok_def auth_agrees_def)
  then have "auth_inv S (A \<union> {candidateBearer r}) V (r\<lparr>ab_phase := phaseAcknowledged\<rparr>) (auth w2)"
    using True by (auto simp: auth_inv_def auth_agrees_def auth_memory_ok_def hasCandidate_def phases)
  then show ?thesis using assms(2) inv 2 True unfolding eq by (auto simp: acked_now_def split: if_splits)
qed

lemma promote_inv:
  assumes "auth_inv S A V r (auth w)" "promoteCandidate P r w = (b, r', w')"
  shows "auth_inv S A V r' (auth w')"
proof (cases "hasCandidate r \<and> ab_phase r = phaseAcknowledged")
  case False
  then show ?thesis using assms by (auto simp: promoteCandidate_def)
next
  case True
  obtain o1 w1 where w1: "pr_begin P kAuthNamespace False w = (o1, w1)" by fastforce
  define kvs where "kvs = [(''active'', PString (candidateBearer r)), (''applied_ver'', PUInt (ab_version r)),
              (''applied_nonce'', PString (ab_nonce r))]"
  obtain o2 w2 where w2: "put_seq P kAuthNamespace kvs w1 = (o2, w2)" by fastforce
  obtain o3 w3 where w3: "pr_remove P kAuthNamespace ''cand_ready'' w2 = (o3, w3)" by fastforce
  define w4 where "w4 = remove_seq P kAuthNamespace [''candidate'', ''cand_ver'', ''cand_nonce'', ''overlap_at'', ''phase''] w3"
  define r1 where "r1 = clearCandidateMemory (r\<lparr>activeBearer := candidateBearer r, appliedVersion := ab_version r, appliedNonce := ab_nonce r\<rparr>)"
  have eq: "promoteCandidate P r w =
      (if \<not> o1 then (False, r\<lparr>ab_lastError := ''credential rotation store unavailable''\<rparr>, w1)
       else if \<not> o2 then (False, r\<lparr>ab_lastError := ''credential rotation promotion failed''\<rparr>, w2)
       else if \<not> o3 then (False, r\<lparr>ab_lastError := ''credential rotation promotion failed''\<rparr>, w3)
       else (True, r1\<lparr>ab_lastError := []\<rparr>, w4))"
    using True unfolding promoteCandidate_def kvs_def [symmetric] w4_def r1_def
    by (simp add: w1 w2 w3 del: remove_seq.simps split: bool.split)
  have cA: "candidateBearer r \<in> A" using assms(1) True by (simp add: auth_inv_def auth_memory_ok_def)
  have 1: "auth_inv S A V r (auth w1)" using assms(1) begin_law [OF w1] by simp
  have len: "length kvs = 3" by (simp add: kvs_def)
  from put_seq_prefix [OF w2, unfolded len] obtain m where m: "m \<le> 3"
    "saved w2 = fold (\<lambda>(k, v). pref_upd kAuthNamespace k (Some v)) (take m kvs) (saved w1)" by blast
  have "m = 0 \<or> m = 1 \<or> m = 2 \<or> m = 3" using m(1) by linarith
  then have 2: "auth_inv S A V r (auth w2)"
    using 1 cA unfolding auth_inv_def m(2) kvs_def by (elim disjE) (simp_all add: auth_store_ok_def auth_agrees_def)
  have 3: "auth_inv S A V r (auth w3)"
    by (rule auth_inv_shrink [OF 2]) (use remove_law [OF w3] in \<open>auto simp: pref_upd_def split: if_splits\<close>)
  moreover have "activeBearer r1 = candidateBearer r" "\<not> hasCandidate r1"
    by (simp_all add: r1_def clearCandidateMemory_def hasCandidate_def)
  ultimately have "auth_inv S A V r1 (auth w3)"
    using cA by (simp add: auth_inv_def auth_agrees_def auth_memory_ok_def)
  then have "auth_inv S A V r1 (auth w4)" unfolding w4_def by (rule remove_seq_shrinks)
  then show ?thesis using assms(2) 1 2 3 unfolding eq by (auto split: if_splits)
qed

lemma factoryReset_inv:
  assumes "auth_inv S A V r (auth w)" "rotation_factoryReset P w = (b, w')"
  shows "auth_inv S A V r (auth w')"
proof -
  obtain o1 w1 where w1: "pr_begin P kAuthNamespace False w = (o1, w1)" by fastforce
  obtain o2 w2 where w2: "pr_clear P kAuthNamespace w1 = (o2, w2)" by fastforce
  have "auth w' k = auth w k \<or> auth w' k = None" for k
    using assms(2) begin_law [OF w1] clear_law [OF w2]
    by (auto simp: rotation_factoryReset_def w1 w2 split: bool.splits)
  then show ?thesis by (rule auth_inv_shrink [OF assms(1)])
qed

lemma op_inv:
  assumes "auth_inv S A V r (auth w)" "rotation_op P x r w = (r', w')"
    "staged_tokens [x] \<subseteq> S" "\<And>b. x = BootOp (Some b) \<Longrightarrow> b \<in> V"
  shows "auth_inv S (A \<union> acked_now x r) V r' (auth w')"
proof (cases x)
  case (BootOp provisioned)
  obtain b where "rotation_begin P provisioned fresh_rotation w = (b, r', w')"
    using assms(2) BootOp by (metis prod.collapse rotation_op.simps(1))
  then show ?thesis
    using begin_inv [of S A w provisioned V fresh_rotation b r' w'] assms(1,4) BootOp
    by (auto simp: acked_now_def auth_inv_def)
next
  case (StageOp v n t e)
  obtain b where "stage P v n t e r w = (b, r', w')" using assms(2) StageOp by (metis prod.collapse rotation_op.simps(2))
  moreover have "v \<noteq> 0 \<Longrightarrow> validSecret t kMaximumBearerLength 16 \<Longrightarrow> t \<in> S"
    using assms(3) StageOp by (auto simp: staged_tokens_def)
  ultimately show ?thesis using stage_inv [OF assms(1)] StageOp by (simp add: acked_now_def)
next
  case AckOp
  then obtain b where "markAcknowledged P r w = (b, r', w')" using assms(2) by (metis prod.collapse rotation_op.simps(3))
  then show ?thesis using ack_inv [OF assms(1)] AckOp by simp
next
  case PromoteOp
  then obtain b where "promoteCandidate P r w = (b, r', w')" using assms(2) by (metis prod.collapse rotation_op.simps(4))
  then show ?thesis using promote_inv [OF assms(1)] PromoteOp by (simp add: acked_now_def)
next
  case AbandonOp
  then show ?thesis using clearPersistent_inv [OF auth_inv_clear [OF assms(1)]] assms(2)
    by (auto simp: acked_now_def abandonCandidate_def)
next
  case ResetOp
  then have "r' = r" "rotation_factoryReset P w = (fst (rotation_factoryReset P w), w')" using assms(2) by auto
  then show ?thesis using factoryReset_inv [OF assms(1)] ResetOp by (simp add: acked_now_def)
qed

lemma run_inv:
  assumes "auth_inv S A V r (auth w)" "rotation_run P xs (r, w, A) = (r', w', A')"
    "staged_tokens xs \<subseteq> S" "\<And>b. BootOp (Some b) \<in> set xs \<Longrightarrow> b \<in> V"
  shows "auth_inv S A' V r' (auth w')"
  using assms
proof (induction xs arbitrary: r w A)
  case (Cons x xs)
  obtain r1 w1 where 1: "rotation_op P x r w = (r1, w1)" by fastforce
  have "staged_tokens [x] \<subseteq> S" "staged_tokens xs \<subseteq> S" using Cons.prems(3) by (auto simp: staged_tokens_def)
  then show ?case
    using Cons.IH [OF op_inv [OF Cons.prems(1) 1]] Cons.prems(2,4) 1 by simp
qed simp

lemma acked_staged:
  assumes "auth_inv S A V r (auth w)" "A \<subseteq> S" "rotation_run P xs (r, w, A) = (r', w', A')"
    "staged_tokens xs \<subseteq> S" "\<And>b. BootOp (Some b) \<in> set xs \<Longrightarrow> b \<in> V"
  shows "A' \<subseteq> S"
  using assms
proof (induction xs arbitrary: r w A)
  case (Cons x xs)
  obtain r1 w1 where 1: "rotation_op P x r w = (r1, w1)" by fastforce
  have "staged_tokens [x] \<subseteq> S" "staged_tokens xs \<subseteq> S" using Cons.prems(4) by (auto simp: staged_tokens_def)
  moreover have "acked_now x r \<subseteq> S" using Cons.prems(1) by (auto simp: acked_now_def auth_inv_def auth_memory_ok_def)
  ultimately show ?case
    using Cons.IH [OF op_inv [OF Cons.prems(1) 1]] Cons.prems(2,3,5) 1 by simp
qed simp

end

subsection \<open>The properties\<close>

text \<open>
  C24: Starting from an empty store, whatever calls, storage failures and restarts follow, the
  logger only ever authenticates with the credential it was provisioned with or with a token that
  the server handed out as a valid rotation, whose staging was durable enough to be acknowledged,
  and whose acknowledgement the server accepted.
\<close>

theorem rotation_bearer_earned:
  assumes "preferences P saved" "\<forall>k. saved w kAuthNamespace k = None"
    and "rotation_run P xs (fresh_rotation, w, {}) = (r', w', acked)"
  shows "(activeBearer r' = [] \<or> BootOp (Some (activeBearer r')) \<in> set xs \<or> activeBearer r' \<in> acked) \<and>
    acked \<subseteq> staged_tokens xs"
proof -
  define V where "V = {b. BootOp (Some b) \<in> set xs}"
  have "auth_inv (staged_tokens xs) {} V fresh_rotation (saved w kAuthNamespace)"
    using assms(2) by (simp add: auth_inv_def auth_store_ok_def auth_agrees_def auth_memory_ok_def fresh_rotation_def hasCandidate_def)
  then show ?thesis
    using preferences.run_inv [OF assms(1) _ assms(3), of "staged_tokens xs" V]
      preferences.acked_staged [OF assms(1) _ _ assms(3), of "staged_tokens xs" V]
    by (auto simp: V_def auth_inv_def auth_memory_ok_def)
qed

definition rotation_history :: "RotationOp list" where
  "rotation_history = [BootOp (Some ''provisioned-bearer''),
     StageOp 4 ''nonce-0001'' ''rotated-token-0001'' ''2030-01-01T00:00:00Z'', AckOp, PromoteOp,
     BootOp (Some ''provisioned-bearer'')]"

definition rotation_store :: fake_prefs where
  "rotation_store = \<lparr>fp_entries = [], fp_writes = 12\<rparr>"

theorem rotation_bearer_earned_witness:
  "case rotation_run fake_prefs_ops rotation_history (fresh_rotation, rotation_store, {}) of (r', w', acked) \<Rightarrow>
     activeBearer r' = ''rotated-token-0001'' \<and> activeBearer r' \<in> acked \<and> acked \<subseteq> staged_tokens rotation_history"
proof -
  obtain r' w' acked where R: "rotation_run fake_prefs_ops rotation_history (fresh_rotation, rotation_store, {}) = (r', w', acked)"
    by (metis prod.collapse)
  have "activeBearer (fst (rotation_run fake_prefs_ops rotation_history (fresh_rotation, rotation_store, {}))) = ''rotated-token-0001''"
    by code_simp
  then have a: "activeBearer r' = ''rotated-token-0001''" using R by simp
  have blank: "\<forall>k. fp_saved rotation_store kAuthNamespace k = None" by (simp add: fp_saved_def rotation_store_def)
  show ?thesis using rotation_bearer_earned [OF fake_store.preferences_axioms blank R] R a
    by (simp add: rotation_history_def)
qed

text \<open>
  C25: A rotation is staged only if it is newer than the one applied last and hands out a new token,
  and once staging reports success a restart brings back exactly this candidate, unacknowledged.
\<close>

theorem staged_rotation_survives_restart:
  assumes "preferences P saved" "stage P v n t e r w = (Staged, r', w')"
    and "fst (pr_begin P kAuthNamespace True w')"
    and "rotation_begin P provisioned r0 w' = (b, r'', w'')"
  shows "appliedVersion r < v \<and> t \<noteq> activeBearer r \<and> hasCandidate r'' \<and> hasAppliedAcknowledgement r'' \<and>
    candidateBearer r'' = t \<and> ab_nonce r'' = n \<and> overlapExpiresAt r'' = e \<and> ab_version r'' = v"
proof -
  define r1 where "r1 = r\<lparr>ab_version := v, ab_nonce := n, candidateBearer := t, overlapExpiresAt := e, ab_phase := phaseStaged\<rparr>"
  obtain ok r2 w2 where p: "persistCandidate P phaseStaged r1 w = (ok, r2, w2)" by (metis prod.collapse)
  have S: "v \<noteq> 0" "validSecret n kMaximumNonceLength 8" "validSecret t kMaximumBearerLength 16"
    "validSecret e kMaximumExpiryLength 20" "v \<noteq> appliedVersion r" "\<not> v < appliedVersion r" "t \<noteq> activeBearer r" "ok" "w' = w2"
    using assms(2) p
    by (auto simp: stage_def rotation_error_def Let_def r1_def [symmetric] split: if_splits bool.splits)
  have F: "saved w' kAuthNamespace ''cand_ready'' = Some (PBool True)" "saved w' kAuthNamespace ''cand_ver'' = Some (PUInt v)"
    "saved w' kAuthNamespace ''cand_nonce'' = Some (PString n)" "saved w' kAuthNamespace ''candidate'' = Some (PString t)"
    "saved w' kAuthNamespace ''overlap_at'' = Some (PString e)" "saved w' kAuthNamespace ''phase'' = Some (PUChar phaseStaged)"
    using preferences.persist_stored [OF assms(1)] p S(8,9) by (simp_all add: r1_def)
  obtain w3 where b: "pr_begin P kAuthNamespace True w' = (True, w3)" using assms(3) by (metis prod.collapse)
  have F3: "pr_get P kAuthNamespace k w3 = saved w' kAuthNamespace k" for k
    using preferences.begin_law [OF assms(1) b] preferences.get_law [OF assms(1)] by simp
  have "t \<noteq> []" using S(3) by (auto simp: validSecret_def)
  then have "hasCandidate r'' \<and> hasAppliedAcknowledgement r'' \<and> candidateBearer r'' = t \<and> ab_nonce r'' = n \<and>
      overlapExpiresAt r'' = e \<and> ab_version r'' = v"
    using assms(4) S(1-4)
    by (auto simp: rotation_begin_def b Let_def getters F3 F load_candidate_def candidate_valid_def hasCandidate_def
        hasAppliedAcknowledgement_def phases split: if_splits)
  then show ?thesis using S(5-7) by auto
qed

theorem staged_rotation_survives_restart_witness:
  "case stage fake_prefs_ops 4 ''nonce-0001'' ''rotated-token-0001'' ''2030-01-01T00:00:00Z'' fresh_rotation rotation_store of
     (res, r', w') \<Rightarrow> res = Staged \<and>
       (case rotation_begin fake_prefs_ops None fresh_rotation w' of (b, r'', w'') \<Rightarrow> candidateBearer r'' = ''rotated-token-0001'')"
proof -
  obtain res r' w' where s: "stage fake_prefs_ops 4 ''nonce-0001'' ''rotated-token-0001'' ''2030-01-01T00:00:00Z''
      fresh_rotation rotation_store = (res, r', w')" by (metis prod.collapse)
  have "fst (stage fake_prefs_ops 4 ''nonce-0001'' ''rotated-token-0001'' ''2030-01-01T00:00:00Z''
      fresh_rotation rotation_store) = Staged" by code_simp
  then have res: "res = Staged" using s by simp
  obtain b r'' w'' where g: "rotation_begin fake_prefs_ops None fresh_rotation w' = (b, r'', w'')" by (metis prod.collapse)
  have "fst (pr_begin fake_prefs_ops kAuthNamespace True w')" by (simp add: fake_prefs_ops_def)
  from staged_rotation_survives_restart [OF fake_store.preferences_axioms s [unfolded res] this g]
  show ?thesis using s res g by simp
qed

end
