(* ===== verification/LoggerLogic.thy ===== *)
theory LoggerLogic
  imports Prelude
begin

section \<open>Logic.cpp: intervals, status classes and text normalisation\<close>

text \<open>
  The pure helpers of \<open>logger/firmware/src/Logic.cpp\<close> that work on integers and text: interval
  tests, HTTP status classes, time formatting, log file names, topic segments, session
  identifiers and pairing codes. \<open>std::string\<close> is \<open>string\<close>, \<open>int\<close> arguments are \<open>int\<close>, counters
  keep their width. The floating-point helpers of the same file are not part of this theory.
\<close>

subsection \<open>Intervals and status classes\<close>

definition intervalElapsed :: "u32 \<Rightarrow> u32 \<Rightarrow> u32 \<Rightarrow> bool" where
  "intervalElapsed nowMs previousMs intervalMs \<longleftrightarrow> intervalMs \<le> since nowMs previousMs"

definition isRetryableHttpStatus :: "int \<Rightarrow> bool" where
  "isRetryableHttpStatus status \<longleftrightarrow>
     status < 0 \<or> status = 408 \<or> status = 425 \<or> status = 429 \<or> 500 \<le> status"

definition shouldDiscardQueuedHttpStatus :: "int \<Rightarrow> bool" where
  "shouldDiscardQueuedHttpStatus status \<longleftrightarrow>
     status = 400 \<or> status = 404 \<or> status = 413 \<or> status = 422"

definition productionSecurityAllowsNetwork :: "bool \<Rightarrow> bool \<Rightarrow> bool \<Rightarrow> bool" where
  "productionSecurityAllowsNetwork required secureBootEnabled flashEncryptionReleaseMode \<longleftrightarrow>
     \<not> required \<or> (secureBootEnabled \<and> flashEncryptionReleaseMode)"

definition isValidRecorderAssignmentStatus :: "string \<Rightarrow> bool" where
  "isValidRecorderAssignmentStatus status \<longleftrightarrow>
     status = ''unassigned'' \<or> status = ''armed'' \<or> status = ''claimed'' \<or>
     status = ''finished'' \<or> status = ''revoked'' \<or> status = ''expired''"

subsection \<open>Time formatting\<close>

definition fallbackTimestamp :: "u32 \<Rightarrow> string" where
  "fallbackTimestamp uptimeMs = ''boot+'' @ dec (unat uptimeMs)"

definition formatUptime :: "u64 \<Rightarrow> string" where
  "formatUptime uptimeMs =
     (let totalSeconds = unat uptimeMs div 1000;
          days = totalSeconds div 86400;
          hours = (totalSeconds div 3600) mod 24;
          minutes = (totalSeconds div 60) mod 60;
          seconds = totalSeconds mod 60
      in snprintf 32 (fmt_u 2 days @ '':'' @ fmt_u 2 hours @ '':'' @ fmt_u 2 minutes @ '':'' @
           fmt_u 2 seconds))"

definition formatTimestamp :: "int \<Rightarrow> int \<Rightarrow> int \<Rightarrow> int \<Rightarrow> int \<Rightarrow> int \<Rightarrow> string" where
  "formatTimestamp year month day hour minute second =
     snprintf 24 (fmt_d 4 year @ ''-'' @ fmt_d 2 month @ ''-'' @ fmt_d 2 day @ '' '' @
       fmt_d 2 hour @ '':'' @ fmt_d 2 minute @ '':'' @ fmt_d 2 second)"

definition formatDateStamp :: "int \<Rightarrow> int \<Rightarrow> int \<Rightarrow> string" where
  "formatDateStamp year month day = snprintf 16 (fmt_d 4 year @ fmt_d 2 month @ fmt_d 2 day)"

subsection \<open>File names and topics\<close>

definition trimWhitespace :: "string \<Rightarrow> string" where
  "trimWhitespace input = rev (dropWhile is_space (rev (dropWhile is_space input)))"

fun contains_dotdot :: "string \<Rightarrow> bool" where
  "contains_dotdot (a # b # cs) \<longleftrightarrow> (a = CHR ''.'' \<and> b = CHR ''.'') \<or> contains_dotdot (b # cs)"
| "contains_dotdot _ \<longleftrightarrow> False"

definition file_name_char :: "char \<Rightarrow> bool" where
  "file_name_char ch \<longleftrightarrow>
     is_alnum ch \<or> ch = CHR ''/'' \<or> ch = CHR ''-'' \<or> ch = CHR ''_'' \<or> ch = CHR ''.''"

definition normalizeLogFileName :: "string \<Rightarrow> string" where
  "normalizeLogFileName rawName =
     (let candidate = trimWhitespace rawName
      in if candidate = [] then []
         else let candidate = (if hd candidate \<noteq> CHR ''/'' then CHR ''/'' # candidate else candidate)
              in if \<not> list_all file_name_char candidate then []
                 else if contains_dotdot candidate then []
                 else candidate)"

definition topic_step :: "string \<Rightarrow> char \<Rightarrow> string" where
  "topic_step normalized ch =
     (if is_alnum ch \<or> ch = CHR ''-'' \<or> ch = CHR ''_'' then normalized @ [to_lower ch]
      else if ch = CHR '' '' \<or> ch = CHR ''/'' \<or> ch = CHR ''.''
      then (if normalized = [] \<or> last normalized = CHR ''-'' then normalized
            else normalized @ [CHR ''-''])
      else normalized)"

definition strip_trailing :: "char \<Rightarrow> string \<Rightarrow> string" where
  "strip_trailing c s = rev (dropWhile (\<lambda>x. x = c) (rev s))"

definition normalizeTopicSegment :: "string \<Rightarrow> string" where
  "normalizeTopicSegment rawSegment =
     strip_trailing (CHR ''-'') (foldl topic_step [] (trimWhitespace rawSegment))"

definition mqttIdentityMatches :: "string \<Rightarrow> string \<Rightarrow> bool" where
  "mqttIdentityMatches deviceId username \<longleftrightarrow>
     (if username = [] then True
      else let normalizedDevice = normalizeTopicSegment deviceId;
               normalizedDevice = (if normalizedDevice = [] then ''mda-logger'' else normalizedDevice)
           in username = normalizedDevice)"

definition formatUploadTopic :: "string \<Rightarrow> string \<Rightarrow> string \<Rightarrow> string" where
  "formatUploadTopic prefix deviceId leaf =
     (let normalizedPrefix = trimWhitespace prefix;
          normalizedPrefix = dropWhile (\<lambda>c. c = CHR ''/'') normalizedPrefix;
          normalizedPrefix = strip_trailing (CHR ''/'') normalizedPrefix;
          normalizedDevice = normalizeTopicSegment deviceId;
          normalizedLeaf = normalizeTopicSegment leaf;
          topic = (if normalizedPrefix = [] then ''motorsport'' else normalizedPrefix);
          topic = (if normalizedDevice \<noteq> [] then topic @ ''/'' @ normalizedDevice else topic)
      in if normalizedLeaf \<noteq> [] then topic @ ''/'' @ normalizedLeaf else topic)"

definition formatSessionId :: "string \<Rightarrow> u32 \<Rightarrow> string" where
  "formatSessionId deviceId bootCounter =
     (let normalizedDevice = normalizeTopicSegment deviceId;
          prefix = (if normalizedDevice = [] then ''logger'' else normalizedDevice)
      in prefix @ ''-boot-'' @ dec (unat bootCounter))"

definition pairingAlphabet :: string where
  "pairingAlphabet = ''ABCDEFGHJKLMNPQRSTUVWXYZ23456789''"

definition pairing_char :: "u64 \<Rightarrow> nat \<Rightarrow> char" where
  "pairing_char entropy index = pairingAlphabet ! unat (drop_bit (5 * index) entropy AND 0x1F)"

definition formatPairingCode :: "u64 \<Rightarrow> string" where
  "formatPairingCode entropy =
     map (pairing_char entropy) [0..<4] @ ''-'' @ map (pairing_char entropy) [4..<8]"

subsection \<open>Lemmas on intervals\<close>

lemma intervalElapsed_later:
  "d < 2 ^ 32 \<Longrightarrow> intervalElapsed (t + of_nat d) t i \<longleftrightarrow> unat i \<le> d"
  by (simp add: intervalElapsed_def word_le_nat_alt unat_of_nat take_bit_nat_eq_self)

lemma retryable_not_discarded: "\<not> (isRetryableHttpStatus s \<and> shouldDiscardQueuedHttpStatus s)"
  by (auto simp: isRetryableHttpStatus_def shouldDiscardQueuedHttpStatus_def)

lemma retryable_not_success: "isRetryableHttpStatus s \<Longrightarrow> \<not> (200 \<le> s \<and> s < 300)"
  by (auto simp: isRetryableHttpStatus_def)

subsection \<open>Lemmas on trimming\<close>

lemma dropWhile_id: "xs = [] \<or> \<not> P (hd xs) \<Longrightarrow> dropWhile P xs = xs"
  by (cases xs) auto

lemma trim_ends:
  assumes "trimWhitespace s \<noteq> []"
  shows "\<not> is_space (hd (trimWhitespace s))" "\<not> is_space (last (trimWhitespace s))"
proof -
  define t where "t = dropWhile is_space s"
  define u where "u = dropWhile is_space (rev t)"
  have u: "trimWhitespace s = rev u" by (simp add: trimWhitespace_def t_def u_def)
  with assms have "u \<noteq> []" by simp
  then have "\<not> is_space (hd u)" unfolding u_def by (rule hd_dropWhile)
  with \<open>u \<noteq> []\<close> u show "\<not> is_space (last (trimWhitespace s))" by (simp add: last_rev)
  obtain ys where "rev t = ys @ u" using takeWhile_dropWhile_id [of is_space "rev t"] u_def by metis
  then have t: "t = rev u @ rev ys" by (metis rev_append rev_rev_ident)
  with \<open>u \<noteq> []\<close> have "t \<noteq> []" by simp
  then have "\<not> is_space (hd t)" unfolding t_def by (rule hd_dropWhile)
  with t \<open>u \<noteq> []\<close> u show "\<not> is_space (hd (trimWhitespace s))" by simp
qed

lemma trim_id:
  assumes "s = [] \<or> (\<not> is_space (hd s) \<and> \<not> is_space (last s))"
  shows "trimWhitespace s = s"
proof -
  have "dropWhile is_space s = s" using assms by (intro dropWhile_id) auto
  moreover have "dropWhile is_space (rev s) = rev s"
    using assms by (intro dropWhile_id) (auto simp: hd_rev)
  ultimately show ?thesis by (simp add: trimWhitespace_def)
qed

lemma trim_idem [simp]: "trimWhitespace (trimWhitespace s) = trimWhitespace s"
  using trim_ends by (intro trim_id) blast

lemma strip_trailing_id: "s = [] \<or> last s \<noteq> c \<Longrightarrow> strip_trailing c s = s"
  by (auto simp: strip_trailing_def hd_rev dropWhile_id)

lemma strip_trailing_last: "strip_trailing c s \<noteq> [] \<Longrightarrow> last (strip_trailing c s) \<noteq> c"
  unfolding strip_trailing_def
  by (metis (mono_tags, lifting) hd_dropWhile last_rev rev_is_Nil_conv)

lemma set_strip_trailing: "set (strip_trailing c s) \<subseteq> set s"
  unfolding strip_trailing_def by (metis set_dropWhileD set_rev subsetI)

lemma strip_trailing_prefix: "\<exists>k. s = strip_trailing c s @ replicate k c"
proof -
  define k where "k = length (takeWhile (\<lambda>x. x = c) (rev s))"
  have "takeWhile (\<lambda>x. x = c) (rev s) = replicate k c"
    by (auto simp: k_def intro!: replicate_eqI dest: set_takeWhileD)
  then have "rev s = replicate k c @ dropWhile (\<lambda>x. x = c) (rev s)"
    using takeWhile_dropWhile_id [of "\<lambda>x. x = c" "rev s"] by metis
  then have "s = rev (dropWhile (\<lambda>x. x = c) (rev s)) @ replicate k c"
    by (metis rev_append rev_replicate rev_rev_ident)
  then show ?thesis unfolding strip_trailing_def by blast
qed

subsection \<open>Lemmas on topic segments\<close>

definition segment_char :: "char \<Rightarrow> bool" where
  "segment_char c \<longleftrightarrow> (is_alnum c \<and> to_lower c = c) \<or> c = CHR ''-'' \<or> c = CHR ''_''"

lemma segment_char_not_space: "segment_char c \<Longrightarrow> \<not> is_space c"
  by (auto simp: segment_char_def is_space_def is_alnum_def is_digit_def is_lower_def is_upper_def
      code_def)

lemma to_lower_dash [simp]: "to_lower (CHR ''-'') = CHR ''-''" "to_lower (CHR ''_'') = CHR ''_''"
  by (simp_all add: to_lower_def is_upper_def code_def)

lemma topic_step_segment: "list_all segment_char s \<Longrightarrow> list_all segment_char (topic_step s c)"
  by (auto simp: topic_step_def segment_char_def)

lemma foldl_topic_segment:
  "list_all segment_char acc \<Longrightarrow> list_all segment_char (foldl topic_step acc s)"
  by (induction s arbitrary: acc) (simp_all add: topic_step_segment)

lemma foldl_topic_id:
  "list_all segment_char s \<Longrightarrow> foldl topic_step acc s = acc @ s"
proof (induction s arbitrary: acc)
  case Nil
  then show ?case by simp
next
  case (Cons c s)
  then have "topic_step acc c = acc @ [c]"
    by (auto simp: topic_step_def segment_char_def)
  with Cons show ?case by simp
qed

lemma normalizeTopicSegment_chars: "list_all segment_char (normalizeTopicSegment s)"
proof -
  have "list_all segment_char (foldl topic_step [] (trimWhitespace s))"
    by (rule foldl_topic_segment) simp
  then show ?thesis
    unfolding normalizeTopicSegment_def list_all_iff using set_strip_trailing by blast
qed

lemma normalizeTopicSegment_last:
  "normalizeTopicSegment s \<noteq> [] \<Longrightarrow> last (normalizeTopicSegment s) \<noteq> CHR ''-''"
  unfolding normalizeTopicSegment_def by (rule strip_trailing_last)

lemma normalizeTopicSegment_fixed:
  assumes "list_all segment_char s" "s = [] \<or> last s \<noteq> CHR ''-''"
  shows "normalizeTopicSegment s = s"
proof -
  have "trimWhitespace s = s"
    using assms(1) by (intro trim_id) (metis hd_in_set last_in_set list_all_iff segment_char_not_space)
  then show ?thesis
    using assms by (simp add: normalizeTopicSegment_def foldl_topic_id strip_trailing_id)
qed

subsection \<open>Lemmas on file names\<close>

lemma normalizeLogFileName_ok:
  assumes "normalizeLogFileName name = f" "f \<noteq> []"
  shows "hd f = CHR ''/'' \<and> list_all file_name_char f \<and> \<not> contains_dotdot f"
  using assms by (auto simp: normalizeLogFileName_def Let_def split: if_splits)

lemma file_name_char_not_space: "file_name_char c \<Longrightarrow> \<not> is_space c"
  by (auto simp: file_name_char_def is_space_def is_alnum_def is_digit_def is_lower_def is_upper_def
      code_def)

lemma normalizeLogFileName_fixed:
  assumes "f \<noteq> []" "hd f = CHR ''/''" "list_all file_name_char f" "\<not> contains_dotdot f"
  shows "normalizeLogFileName f = f"
proof -
  have "trimWhitespace f = f"
    using assms(1,3) by (intro trim_id) (auto simp: file_name_char_not_space list_all_iff)
  then show ?thesis using assms by (simp add: normalizeLogFileName_def)
qed

subsection \<open>Lemmas on pairing codes\<close>

lemma pairing_nth_inject:
  "i < 32 \<Longrightarrow> j < 32 \<Longrightarrow> pairingAlphabet ! i = pairingAlphabet ! j \<longleftrightarrow> i = j"
proof -
  have "distinct pairingAlphabet" "length pairingAlphabet = 32"
    by (simp_all add: pairingAlphabet_def)
  then show "i < 32 \<Longrightarrow> j < 32 \<Longrightarrow> ?thesis" by (simp add: nth_eq_iff_index_eq)
qed

lemma and_31_lt: "unat ((x :: u64) AND 0x1F) < 32"
proof -
  have "x AND 0x1F \<le> 0x1F" by (rule word_and_le1)
  then show ?thesis by (simp add: word_le_nat_alt)
qed

lemma pairing_char_eq:
  "pairing_char a i = pairing_char b i \<longleftrightarrow>
     drop_bit (5 * i) a AND 0x1F = drop_bit (5 * i) b AND 0x1F"
  by (simp add: pairing_char_def pairing_nth_inject and_31_lt flip: word_unat_eq_iff)

lemma take_bit_40_eqI:
  assumes "\<And>i. i < 8 \<Longrightarrow> drop_bit (5 * i) a AND 0x1F = drop_bit (5 * i) (b :: u64) AND 0x1F"
  shows "take_bit 40 a = take_bit 40 b"
proof (rule bit_word_eqI)
  fix n assume "n < LENGTH(64)"
  have m: "x AND 0x1F = take_bit 5 x" for x :: u64
    by (simp add: take_bit_eq_mask mask_eq_exp_minus_1)
  show "bit (take_bit 40 a) n = bit (take_bit 40 b) n"
  proof (cases "n < 40")
    case True
    then have "n div 5 < 8" by simp
    from assms [OF this] have
      "bit (take_bit 5 (drop_bit (5 * (n div 5)) a)) (n mod 5) =
       bit (take_bit 5 (drop_bit (5 * (n div 5)) b)) (n mod 5)"
      by (simp only: m)
    then show ?thesis using True by (simp add: bit_simps)
  qed (simp add: bit_simps)
qed

lemma formatPairingCode_inject:
  "formatPairingCode a = formatPairingCode b \<longleftrightarrow> take_bit 40 a = take_bit 40 (b :: u64)"
proof
  assume eq: "formatPairingCode a = formatPairingCode b"
  have "pairing_char a i = pairing_char b i" if "i < 8" for i
  proof (cases "i < 4")
    case True
    then show ?thesis using eq by (auto simp: formatPairingCode_def)
  next
    case False
    then have "i \<in> {4, 5, 6, 7}" using that by auto
    then show ?thesis using eq by (auto simp: formatPairingCode_def)
  qed
  then show "take_bit 40 a = take_bit 40 b" by (intro take_bit_40_eqI) (simp add: pairing_char_eq)
next
  assume eq: "take_bit 40 a = take_bit 40 b"
  have "drop_bit (5 * i) a AND 0x1F = drop_bit (5 * i) b AND 0x1F" if "i < 8" for i
  proof (rule bit_word_eqI)
    fix n assume "n < LENGTH(64)"
    have m: "x AND 0x1F = take_bit 5 x" for x :: u64
      by (simp add: take_bit_eq_mask mask_eq_exp_minus_1)
    have "bit a (5 * i + n) = bit b (5 * i + n)" if "n < 5"
      using arg_cong [OF eq, of "\<lambda>w. bit w (5 * i + n)"] that \<open>i < 8\<close> by (simp add: bit_simps)
    then show "bit (drop_bit (5 * i) a AND 0x1F) n = bit (drop_bit (5 * i) b AND 0x1F) n"
      unfolding m by (auto simp: bit_simps)
  qed
  then have chars: "pairing_char a i = pairing_char b i" if "i < 8" for i
    using that by (simp add: pairing_char_eq)
  have "map (pairing_char a) [0..<4] = map (pairing_char b) [0..<4]"
       "map (pairing_char a) [4..<8] = map (pairing_char b) [4..<8]"
    by (intro map_cong refl chars; force)+
  then show "formatPairingCode a = formatPairingCode b"
    by (simp only: formatPairingCode_def)
qed

end
