(* ===== verification/QueueAge.thy ===== *)
theory QueueAge
  imports LoggerLogic
begin

section \<open>QueueAge.h: ages of queued records\<close>

text \<open>
  \<open>logger/firmware/include/QueueAge.h\<close>: the parser of the one timestamp format the firmware
  writes and the age of a record against the wall clock. A \<open>const char *\<close> is \<open>string option\<close>
  (\<open>None\<close> for a null pointer); the arithmetic on calendar fields is on \<open>int\<close>, where no value
  leaves the range of the C++ types, and the result is cut to 32 bits as in the code.
\<close>

subsection \<open>The parser\<close>

fun digits_value :: "int \<Rightarrow> string \<Rightarrow> int option" where
  "digits_value acc [] = Some acc"
| "digits_value acc (c # cs) =
     (if code c < 48 \<or> 57 < code c then None
      else digits_value (acc * 10 + int (code c) - 48) cs)"

definition field :: "string \<Rightarrow> nat \<Rightarrow> nat \<Rightarrow> int option" where
  "field value start len = digits_value 0 (take len (drop start value))"

definition month_days :: "int list" where
  "month_days = [31, 28, 31, 30, 31, 30, 31, 31, 30, 31, 30, 31]"

definition leap_year :: "int \<Rightarrow> bool" where
  "leap_year y \<longleftrightarrow> y mod 4 = 0 \<and> (y mod 100 \<noteq> 0 \<or> y mod 400 = 0)"

definition civil_days :: "int \<Rightarrow> int \<Rightarrow> int \<Rightarrow> int" where
  "civil_days y mo d =
     (let y = (if mo \<le> 2 then y - 1 else y);
          era = y div 400;
          year = y - era * 400;
          doy = (153 * (mo + (if mo > 2 then -3 else 9)) + 2) div 5 + d - 1;
          doe = year * 365 + year div 4 - year div 100 + doy
      in era * 146097 + doe - 719468)"

definition valid_fields :: "int \<Rightarrow> int \<Rightarrow> int \<Rightarrow> int \<Rightarrow> int \<Rightarrow> int \<Rightarrow> bool" where
  "valid_fields y mo d h mi s \<longleftrightarrow>
     \<not> (y < 2024 \<or> y > 2099 \<or> mo < 1 \<or> mo > 12 \<or> h > 23 \<or> mi > 59 \<or> s > 59) \<and>
     \<not> (d < 1 \<or> d > month_days ! nat (mo - 1) + (if mo = 2 \<and> leap_year y then 1 else 0))"

definition epoch_of_fields :: "int \<Rightarrow> int \<Rightarrow> int \<Rightarrow> int \<Rightarrow> int \<Rightarrow> int \<Rightarrow> u32" where
  "epoch_of_fields y mo d h mi s =
     (if valid_fields y mo d h mi s
      then word_of_int (civil_days y mo d * 86400 + h * 3600 + mi * 60 + s) else 0)"

definition epoch :: "string option \<Rightarrow> u32" where
  "epoch value =
     (case value of None \<Rightarrow> 0
      | Some v \<Rightarrow>
          if length v \<noteq> 20 \<or> v ! 4 \<noteq> CHR ''-'' \<or> v ! 7 \<noteq> CHR ''-'' \<or> v ! 10 \<noteq> CHR ''T'' \<or>
             v ! 13 \<noteq> CHR '':'' \<or> v ! 16 \<noteq> CHR '':'' \<or> v ! 19 \<noteq> CHR ''Z'' then 0
          else (case (field v 0 4, field v 5 2, field v 8 2, field v 11 2, field v 14 2, field v 17 2)
                of (Some y, Some mo, Some d, Some h, Some mi, Some s) \<Rightarrow> epoch_of_fields y mo d h mi s
                 | _ \<Rightarrow> 0))"

text \<open>\<open>age\<close> returns its verdict and, on success, writes the out-parameter \<open>seconds\<close>.\<close>

definition age :: "u32 \<Rightarrow> int \<Rightarrow> u32 option" where
  "age recordEpoch now =
     (if recordEpoch = 0 \<or> now < uint recordEpoch \<or> now - uint recordEpoch > 4294967295 then None
      else Some (word_of_int (now - uint recordEpoch)))"

subsection \<open>Reference calendar\<close>

text \<open>Days since 1970-01-01 by counting whole years and whole months.\<close>

definition days_in_month :: "int \<Rightarrow> int \<Rightarrow> int" where
  "days_in_month y mo = month_days ! nat (mo - 1) + (if mo = 2 \<and> leap_year y then 1 else 0)"

definition days_before_year :: "int \<Rightarrow> int" where
  "days_before_year y = (\<Sum>i\<leftarrow>[1970..y - 1]. if leap_year i then 366 else 365)"

definition days_before_month :: "int \<Rightarrow> int \<Rightarrow> int" where
  "days_before_month y mo = (\<Sum>m\<leftarrow>[1..mo - 1]. days_in_month y m)"

definition calendar_seconds :: "int \<Rightarrow> int \<Rightarrow> int \<Rightarrow> int \<Rightarrow> int \<Rightarrow> int \<Rightarrow> int" where
  "calendar_seconds y mo d h mi s =
     ((days_before_year y + days_before_month y mo + (d - 1)) * 24 + h) * 3600 + mi * 60 + s"

lemma days_before_year_Suc:
  "1970 \<le> y \<Longrightarrow> days_before_year (y + 1) = days_before_year y + (if leap_year y then 366 else 365)"
  by (simp add: days_before_year_def upto_rec2)

lemma days_before_month_Suc:
  "1 \<le> mo \<Longrightarrow> days_before_month y (mo + 1) = days_before_month y mo + days_in_month y mo"
  by (simp add: days_before_month_def upto_rec2)

lemma civil_days_first: "civil_days y mo d = civil_days y mo 1 + (d - 1)"
  by (simp add: civil_days_def Let_def)

definition year_origin :: "int \<Rightarrow> int" where
  "year_origin y = 365 * y + y div 4 - y div 100 + y div 400"

lemma civil_days_closed:
  "civil_days y mo d =
     year_origin (if mo \<le> 2 then y - 1 else y) +
     (153 * (mo + (if mo > 2 then -3 else 9)) + 2) div 5 + d - 1 - 719468"
proof -
  have origin: "(z div 400) * 146097 + (z - z div 400 * 400) * 365 + (z - z div 400 * 400) div 4 -
      (z - z div 400 * 400) div 100 = year_origin z" for z :: int
  proof -
    define q r where "q = z div 400" and "r = z mod 400"
    have z: "z = r + q * 400" by (simp add: q_def r_def)
    have "z - z div 400 * 400 = r" by (simp add: r_def minus_div_mult_eq_mod)
    moreover have "z div 4 = r div 4 + q * 100"
      using div_mult_self1 [of 4 r "q * 100"] by (simp add: z algebra_simps)
    moreover have "z div 100 = r div 100 + q * 4"
      using div_mult_self1 [of 100 r "q * 4"] by (simp add: z algebra_simps)
    ultimately show ?thesis
      unfolding year_origin_def using z by (simp add: algebra_simps flip: q_def)
  qed
  show ?thesis
    using origin [of "if mo \<le> 2 then y - 1 else y"] by (simp add: civil_days_def Let_def)
qed

lemma year_origin_Suc: "year_origin (y + 1) = year_origin y + (if leap_year (y + 1) then 366 else 365)"
proof -
  have step: "(y + 1) div k = y div k + (if (y + 1) mod k = 0 then 1 else 0)" if "1 < k" for k :: int
  proof -
    have k: "1 div k = 0" "1 mod k = 1" "0 \<le> y mod k" "y mod k < k"
      using that by simp_all
    have div: "(y mod k + 1) div k = (if y mod k + 1 = k then 1 else 0)"
    proof (cases "y mod k + 1 = k")
      case False
      then have "0 \<le> y mod k + 1" "y mod k + 1 < k" using k by linarith+
      then show ?thesis using False by simp
    qed (use that in simp)
    have "(y + 1) mod k = 0 \<longleftrightarrow> y mod k + 1 = k"
    proof (cases "y mod k + 1 = k")
      case True
      then show ?thesis using that mod_add_left_eq [of y k 1] by simp
    next
      case False
      then have "y mod k + 1 < k" "0 < y mod k + 1" using k by linarith+
      then have "(y mod k + 1) mod k = y mod k + 1" by simp
      then show ?thesis using False \<open>0 < y mod k + 1\<close> mod_add_left_eq [of y k 1] by simp
    qed
    then show ?thesis using div div_add1_eq [of y 1 k] k by simp
  qed
  define p q r where "p \<longleftrightarrow> (y + 1) mod 4 = 0" and "q \<longleftrightarrow> (y + 1) mod 100 = 0"
    and "r \<longleftrightarrow> (y + 1) mod 400 = 0"
  have sub: "q \<longrightarrow> p" "r \<longrightarrow> q"
    unfolding p_def q_def r_def
    using dvd_trans [of 4 100 "y + 1"] dvd_trans [of 100 400 "y + 1"] by (simp_all add: dvd_eq_mod_eq_0)
  have E: "(y + 1) div 4 = y div 4 + (if p then 1 else 0)"
    "(y + 1) div 100 = y div 100 + (if q then 1 else 0)"
    "(y + 1) div 400 = y div 400 + (if r then 1 else 0)"
    unfolding p_def q_def r_def by (rule step; simp)+
  have L: "leap_year (y + 1) \<longleftrightarrow> p \<and> (\<not> q \<or> r)"
    by (simp add: leap_year_def p_def q_def r_def)
  have "365 * (y + 1) + (a + (if p then 1 else 0)) - (b + (if q then 1 else 0)) +
      (c + (if r then 1 else 0)) = 365 * y + a - b + c + (if p \<and> (\<not> q \<or> r) then 366 else 365)"
    for a b c :: int
    using sub by (cases p; cases q; cases r) simp_all
  then show ?thesis by (simp only: year_origin_def L E)
qed

lemma civil_year_start:
  "1970 \<le> y \<Longrightarrow> civil_days y 1 1 = days_before_year y"
proof (induction y rule: int_ge_induct)
  case base
  show ?case by code_simp
next
  case (step y)
  then show ?case
    using year_origin_Suc [of "y - 1"] by (simp add: civil_days_closed days_before_year_Suc)
qed

definition month_start :: "int \<Rightarrow> int" where
  "month_start mo = (153 * (mo - 3) + 2) div 5"

lemma days_before_month_table:
  "days_before_month y 1 = 0" "days_before_month y 2 = 31"
  "days_before_month y mo = 59 + (if leap_year y then 1 else 0) + month_start mo"
  if "mo \<in> {3, 4, 5, 6, 7, 8, 9, 10, 11, 12}"
proof -
  have 1: "days_before_month y 1 = 0" by (simp add: days_before_month_def)
  note S = days_before_month_Suc [of _ y, unfolded days_in_month_def month_days_def]
  have 2: "days_before_month y 2 = 31" using S [of 1] 1 by simp
  have 3: "days_before_month y 3 = 59 + (if leap_year y then 1 else 0)" using S [of 2] 2 by simp
  have 4: "days_before_month y 4 = 90 + (if leap_year y then 1 else 0)" using S [of 3] 3 by simp
  have 5: "days_before_month y 5 = 120 + (if leap_year y then 1 else 0)" using S [of 4] 4 by simp
  have 6: "days_before_month y 6 = 151 + (if leap_year y then 1 else 0)" using S [of 5] 5 by simp
  have 7: "days_before_month y 7 = 181 + (if leap_year y then 1 else 0)" using S [of 6] 6 by simp
  have 8: "days_before_month y 8 = 212 + (if leap_year y then 1 else 0)" using S [of 7] 7 by simp
  have 9: "days_before_month y 9 = 243 + (if leap_year y then 1 else 0)" using S [of 8] 8 by simp
  have 10: "days_before_month y 10 = 273 + (if leap_year y then 1 else 0)" using S [of 9] 9 by simp
  have 11: "days_before_month y 11 = 304 + (if leap_year y then 1 else 0)" using S [of 10] 10 by simp
  have 12: "days_before_month y 12 = 334 + (if leap_year y then 1 else 0)" using S [of 11] 11 by simp
  show "days_before_month y 1 = 0" "days_before_month y 2 = 31" by (fact 1 2)+
  show "days_before_month y mo = 59 + (if leap_year y then 1 else 0) + month_start mo"
    using that 3 4 5 6 7 8 9 10 11 12 by (elim insertE emptyE) (simp_all add: month_start_def)
qed

lemma civil_month_start:
  assumes "1 \<le> mo" "mo \<le> 12"
  shows "civil_days y mo 1 = civil_days y 1 1 + days_before_month y mo"
proof -
  consider "mo = 1" | "mo = 2" | "3 \<le> mo" using assms by linarith
  then show ?thesis
  proof cases
    case 3
    consider "mo \<le> 7" | "8 \<le> mo" by linarith
    then have m: "mo \<in> {3, 4, 5, 6, 7, 8, 9, 10, 11, 12}"
      using 3 assms by cases (simp; linarith)+
    with 3 show ?thesis
      using year_origin_Suc [of "y - 1"] days_before_month_table(3) [OF m, of y]
      by (simp add: civil_days_closed month_start_def)
  qed (simp_all add: civil_days_closed days_before_month_table(1,2) [of 3])
qed

lemma civil_days_calendar:
  assumes "1970 \<le> y" "1 \<le> mo" "mo \<le> 12"
  shows "civil_days y mo d = days_before_year y + days_before_month y mo + (d - 1)"
  using civil_days_first [of y mo d] civil_month_start [OF assms(2,3), of y]
    civil_year_start [OF assms(1)] by linarith

subsection \<open>The texts the parser accepts\<close>

text \<open>
  The canonical UTC text of a date and time: what the transport timestamp of the logger is
  built from, with \<open>T\<close> at index 10 and \<open>Z\<close> at the end.
\<close>

definition utc_text :: "int \<Rightarrow> int \<Rightarrow> int \<Rightarrow> int \<Rightarrow> int \<Rightarrow> int \<Rightarrow> string" where
  "utc_text y mo d h mi s =
     fmt_d 4 y @ ''-'' @ fmt_d 2 mo @ ''-'' @ fmt_d 2 d @ ''T'' @
     fmt_d 2 h @ '':'' @ fmt_d 2 mi @ '':'' @ fmt_d 2 s @ ''Z''"

lemma digits_value_val_of:
  "list_all is_digit cs \<Longrightarrow> digits_value acc cs = Some (acc * 10 ^ length cs + int (val_of cs))"
proof (induction cs arbitrary: acc)
  case (Cons c cs)
  then have "48 \<le> code c" "code c \<le> 57" "list_all is_digit cs" by (simp_all add: is_digit_def [of c])
  moreover then obtain e where "code c = 48 + e" using le_Suc_ex by blast
  ultimately show ?case using Cons.IH [of "acc * 10 + int e"] by (simp add: algebra_simps)
qed simp

lemma digits_value_digits: "digits_value acc cs = Some v \<Longrightarrow> list_all is_digit cs"
  by (induction cs arbitrary: acc) (auto simp: is_digit_def split: if_splits)

lemma digits_value_eq:
  "digits_value 0 cs = Some v \<longleftrightarrow> list_all is_digit cs \<and> v = int (val_of cs)"
  using digits_value_val_of [of cs 0] digits_value_digits [of 0 cs v] by auto

lemma val_of_bound: "list_all is_digit cs \<Longrightarrow> val_of cs < 10 ^ length cs"
proof (induction cs)
  case (Cons c cs)
  then have "code c - 48 \<le> 9" "val_of cs < 10 ^ length cs" by (auto simp: is_digit_def)
  then have "(code c - 48) * 10 ^ length cs \<le> 9 * 10 ^ length cs" by (intro mult_right_mono) auto
  moreover have "val_of (c # cs) = (code c - 48) * 10 ^ length cs + val_of cs" by simp
  moreover have "(10 :: nat) ^ length (c # cs) = 9 * 10 ^ length cs + 10 ^ length cs" by simp
  ultimately show ?case using \<open>val_of cs < 10 ^ length cs\<close> by linarith
qed simp

lemma val_of_inject:
  "list_all is_digit xs \<Longrightarrow> list_all is_digit ys \<Longrightarrow> length xs = length ys \<Longrightarrow>
   val_of xs = val_of ys \<Longrightarrow> xs = ys"
proof (induction xs arbitrary: ys rule: rev_induct)
  case (snoc c cs)
  then obtain d ds where ys: "ys = ds @ [d]" by (cases ys rule: rev_cases) auto
  from snoc.prems have c: "code c - 48 < 10" "code d - 48 < 10" and "48 \<le> code c" "48 \<le> code d"
    by (auto simp: ys is_digit_def)
  from snoc.prems have "val_of cs * 10 + (code c - 48) = val_of ds * 10 + (code d - 48)"
    by (simp add: ys val_of_snoc)
  then have "(val_of cs * 10 + (code c - 48)) div 10 = (val_of ds * 10 + (code d - 48)) div 10"
    "(val_of cs * 10 + (code c - 48)) mod 10 = (val_of ds * 10 + (code d - 48)) mod 10" by simp_all
  with c have "val_of cs = val_of ds" "code c - 48 = code d - 48" by simp_all
  with \<open>48 \<le> code c\<close> \<open>48 \<le> code d\<close> have "code c = code d" by linarith
  moreover have "cs = ds" using snoc \<open>val_of cs = val_of ds\<close> by (simp add: ys)
  ultimately show ?case by (simp add: ys code_inject)
qed simp

lemma fmt_d_fits:
  assumes "0 \<le> v" "v < 10 ^ w" "0 < w"
  shows "length (fmt_d w v) = w" "list_all is_digit (fmt_d w v)" "val_of (fmt_d w v) = nat v"
proof -
  have "nat v < 10 ^ w" using assms by (simp add: nat_less_iff)
  then have "length (dec (nat v)) \<le> w" using assms(3) by (intro length_dec)
  then show "length (fmt_d w v) = w" using assms by (simp add: fmt_d_def length_pad0)
  have "is_digit (CHR ''0'')" by (simp add: is_digit_def code_def)
  then show "list_all is_digit (fmt_d w v)"
    using assms by (auto simp: fmt_d_def pad0_def list_all_iff dest: dec_digits)
  show "val_of (fmt_d w v) = nat v" using assms by (simp add: fmt_d_def val_of_dec)
qed

lemma digits_value_fmt_d:
  "0 \<le> v \<Longrightarrow> v < 10 ^ w \<Longrightarrow> 0 < w \<Longrightarrow> digits_value 0 (fmt_d w v) = Some v"
  by (simp add: digits_value_eq fmt_d_fits)

lemma fmt_d_of_digits:
  assumes "digits_value 0 cs = Some v" "length cs = w" "0 < w"
  shows "cs = fmt_d w v"
proof -
  from assms have d: "list_all is_digit cs" and v: "v = int (val_of cs)"
    by (auto simp: digits_value_eq)
  then have "v < 10 ^ w" "0 \<le> v" using val_of_bound [OF d] assms(2) by auto
  then show ?thesis
    using fmt_d_fits [of v w] assms(2,3) d v by (intro val_of_inject) auto
qed

lemma valid_fields_bounds:
  assumes "valid_fields y mo d h mi s" "0 \<le> h" "0 \<le> mi" "0 \<le> s"
  shows "0 \<le> y" "y < 10 ^ 4" "0 \<le> mo" "mo < 10 ^ 2" "0 \<le> d" "d < 10 ^ 2" "h < 10 ^ 2" "mi < 10 ^ 2"
    "s < 10 ^ 2"
proof -
  have "k < 12 \<Longrightarrow> month_days ! k \<le> 31" for k
  proof -
    assume "k < 12"
    then have "month_days ! k \<in> set month_days" by (intro nth_mem) (simp add: month_days_def)
    then show "month_days ! k \<le> 31" by (auto simp: month_days_def)
  qed
  moreover have "nat (mo - 1) < 12" using assms by (auto simp: valid_fields_def)
  ultimately have "month_days ! nat (mo - 1) \<le> 31" by blast
  then show "0 \<le> y" "y < 10 ^ 4" "0 \<le> mo" "mo < 10 ^ 2" "0 \<le> d"
    "d < 10 ^ 2" "h < 10 ^ 2" "mi < 10 ^ 2" "s < 10 ^ 2"
    using assms by (auto simp: valid_fields_def split: if_splits)
qed

lemma epoch_utc_text:
  assumes "valid_fields y mo d h mi s" "0 \<le> h" "0 \<le> mi" "0 \<le> s"
  shows "epoch (Some (utc_text y mo d h mi s)) = epoch_of_fields y mo d h mi s"
proof -
  note B = valid_fields_bounds [OF assms]
  have len: "length (fmt_d 4 y) = 4" "length (fmt_d 2 mo) = 2" "length (fmt_d 2 d) = 2"
    "length (fmt_d 2 h) = 2" "length (fmt_d 2 mi) = 2" "length (fmt_d 2 s) = 2"
    using B assms by (simp_all add: fmt_d_fits)
  have dv: "digits_value 0 (fmt_d 4 y) = Some y" "digits_value 0 (fmt_d 2 mo) = Some mo"
    "digits_value 0 (fmt_d 2 d) = Some d" "digits_value 0 (fmt_d 2 h) = Some h"
    "digits_value 0 (fmt_d 2 mi) = Some mi" "digits_value 0 (fmt_d 2 s) = Some s"
    using B assms by (simp_all add: digits_value_fmt_d)
  show ?thesis
    by (simp add: epoch_def utc_text_def field_def nth_append len dv)
qed

lemma length_20_split:
  assumes "length v = 20" "v ! 4 = CHR ''-''" "v ! 7 = CHR ''-''" "v ! 10 = CHR ''T''"
    "v ! 13 = CHR '':''" "v ! 16 = CHR '':''" "v ! 19 = CHR ''Z''"
  shows "v = take 4 v @ ''-'' @ take 2 (drop 5 v) @ ''-'' @ take 2 (drop 8 v) @ ''T'' @
    take 2 (drop 11 v) @ '':'' @ take 2 (drop 14 v) @ '':'' @ take 2 (drop 17 v) @ ''Z''"
  by (rule nth_equalityI)
    (use assms in \<open>auto simp: nth_append nth_Cons' less_Suc_eq numeral_eq_Suc\<close>)

lemma epoch_nonzero_text:
  assumes "epoch (Some v) \<noteq> 0"
  shows "\<exists>y mo d h mi s. valid_fields y mo d h mi s \<and> 0 \<le> h \<and> 0 \<le> mi \<and> 0 \<le> s \<and>
    v = utc_text y mo d h mi s"
proof -
  from assms obtain y mo d h mi s where
    seps: "length v = 20" "v ! 4 = CHR ''-''" "v ! 7 = CHR ''-''" "v ! 10 = CHR ''T''"
      "v ! 13 = CHR '':''" "v ! 16 = CHR '':''" "v ! 19 = CHR ''Z''" and
    F: "field v 0 4 = Some y" "field v 5 2 = Some mo" "field v 8 2 = Some d" "field v 11 2 = Some h"
      "field v 14 2 = Some mi" "field v 17 2 = Some s" and
    "epoch_of_fields y mo d h mi s \<noteq> 0"
    by (auto simp: epoch_def split: if_splits option.splits)
  then have valid: "valid_fields y mo d h mi s" by (auto simp: epoch_of_fields_def split: if_splits)
  have parts: "take 4 v = fmt_d 4 y" "take 2 (drop 5 v) = fmt_d 2 mo" "take 2 (drop 8 v) = fmt_d 2 d"
    "take 2 (drop 11 v) = fmt_d 2 h" "take 2 (drop 14 v) = fmt_d 2 mi" "take 2 (drop 17 v) = fmt_d 2 s"
    using F seps(1) by (auto simp: field_def intro!: fmt_d_of_digits)
  have "0 \<le> h" "0 \<le> mi" "0 \<le> s" using F by (auto simp: field_def digits_value_eq)
  moreover have "v = utc_text y mo d h mi s"
    using length_20_split [OF seps] by (simp add: parts utc_text_def)
  ultimately show ?thesis using valid by blast
qed

lemma uint_epoch_of_fields:
  assumes "valid_fields y mo d h mi s" "0 \<le> h" "0 \<le> mi" "0 \<le> s"
  shows "uint (epoch_of_fields y mo d h mi s) = calendar_seconds y mo d h mi s"
    "0 < calendar_seconds y mo d h mi s"
proof -
  have civil: "civil_days y mo d = days_before_year y + days_before_month y mo + (d - 1)"
    using assms(1) by (intro civil_days_calendar) (auto simp: valid_fields_def)
  then have eq: "civil_days y mo d * 86400 + h * 3600 + mi * 60 + s = calendar_seconds y mo d h mi s"
    by (simp add: calendar_seconds_def algebra_simps)
  have range: "19400 \<le> civil_days y mo d" "civil_days y mo d \<le> 47800"
  proof -
    note B = valid_fields_bounds [OF assms]
    have y: "2024 \<le> y" "y \<le> 2099" "1 \<le> mo" "mo \<le> 12" "1 \<le> d"
      using assms(1) by (auto simp: valid_fields_def)
    define z where "z = (if mo \<le> 2 then y - 1 else y)"
    define m where "m = mo + (if mo > 2 then -3 else 9)"
    have "2023 \<le> z" "z \<le> 2099" "0 \<le> m" "m \<le> 11" using y by (auto simp: z_def m_def)
    then have "505 \<le> z div 4" "z div 4 \<le> 524" "z div 100 = 20" "z div 400 = 5" by linarith+
    then have "year_origin z \<ge> 365 * 2023 + 505 - 20 + 5" "year_origin z \<le> 365 * 2099 + 524 - 20 + 5"
      unfolding year_origin_def using \<open>2023 \<le> z\<close> \<open>z \<le> 2099\<close> by simp_all
    moreover have "0 \<le> (153 * m + 2) div 5" "(153 * m + 2) div 5 \<le> 337"
      using \<open>0 \<le> m\<close> \<open>m \<le> 11\<close> by linarith+
    moreover have "civil_days y mo d = year_origin z + (153 * m + 2) div 5 + d - 1 - 719468"
      by (simp add: civil_days_closed z_def m_def)
    ultimately show "19400 \<le> civil_days y mo d" "civil_days y mo d \<le> 47800"
      using B(6) y(5) by simp_all
  qed
  have hms: "h \<le> 23" "mi \<le> 59" "s \<le> 59" using assms(1) by (auto simp: valid_fields_def)
  with range assms eq have "0 < calendar_seconds y mo d h mi s" "calendar_seconds y mo d h mi s < 4294967296"
    by linarith+
  then show "uint (epoch_of_fields y mo d h mi s) = calendar_seconds y mo d h mi s"
    "0 < calendar_seconds y mo d h mi s"
    using assms(1) by (simp_all add: epoch_of_fields_def eq unsigned_of_int take_bit_int_eq_self)
qed

subsection \<open>Properties\<close>

text \<open>
  C33: the parser of record timestamps accepts exactly the canonical UTC texts of the valid dates
  from 2024 to 2099, and the number it returns is the count of seconds since 1970-01-01 of the
  calendar: whole years and whole months, leap days included. Every other text gives 0.
\<close>

theorem epoch_calendar:
  assumes "e \<noteq> 0"
  shows "epoch (Some v) = e \<longleftrightarrow>
    (\<exists>y mo d h mi s. valid_fields y mo d h mi s \<and> 0 \<le> h \<and> 0 \<le> mi \<and> 0 \<le> s \<and>
       v = utc_text y mo d h mi s \<and> uint e = calendar_seconds y mo d h mi s)"
proof
  assume e: "epoch (Some v) = e"
  with assms obtain y mo d h mi s where
    F: "valid_fields y mo d h mi s" "0 \<le> h" "0 \<le> mi" "0 \<le> s" and v: "v = utc_text y mo d h mi s"
    using epoch_nonzero_text [of v] by blast
  then have "uint e = calendar_seconds y mo d h mi s"
    using e uint_epoch_of_fields(1) [OF F] by (simp add: epoch_utc_text)
  with F v show "\<exists>y mo d h mi s. valid_fields y mo d h mi s \<and> 0 \<le> h \<and> 0 \<le> mi \<and> 0 \<le> s \<and>
       v = utc_text y mo d h mi s \<and> uint e = calendar_seconds y mo d h mi s" by blast
next
  assume "\<exists>y mo d h mi s. valid_fields y mo d h mi s \<and> 0 \<le> h \<and> 0 \<le> mi \<and> 0 \<le> s \<and>
       v = utc_text y mo d h mi s \<and> uint e = calendar_seconds y mo d h mi s"
  then obtain y mo d h mi s where
    F: "valid_fields y mo d h mi s" "0 \<le> h" "0 \<le> mi" "0 \<le> s" and
    v: "v = utc_text y mo d h mi s" "uint e = calendar_seconds y mo d h mi s" by blast
  then have "uint (epoch (Some v)) = uint e"
    using uint_epoch_of_fields(1) [OF F] by (simp add: epoch_utc_text [OF F])
  then show "epoch (Some v) = e" by (simp only: word_uint_eq_iff)
qed

lemma epoch_calendar_witness:
  "epoch (Some ''2026-02-28T12:00:00Z'') = 1772280000 \<and>
   calendar_seconds 2026 2 28 12 0 0 = 1772280000"
proof -
  have a: "calendar_seconds 2026 2 28 12 0 0 = 1772280000" by code_simp
  have b: "valid_fields 2026 2 28 12 0 0" by code_simp
  have c: "''2026-02-28T12:00:00Z'' = utc_text 2026 2 28 12 0 0" by code_simp
  have "epoch (Some ''2026-02-28T12:00:00Z'') = 1772280000"
    by (rule iffD2 [OF epoch_calendar]) (simp, rule exI, rule exI, rule exI, rule exI, rule exI,
      rule exI, use a b c in auto)
  with a show ?thesis by blast
qed

end
