(* ===== verification/HttpsTransport.thy ===== *)
theory HttpsTransport
  imports UploadPolicy
begin

section \<open>The HTTPS worker: exchange, arbiter, slot and task\<close>

text \<open>
  \<open>HttpsExchange.h\<close> hands one request at a time from the main task to the worker task,
  \<open>HttpsArbiter.h\<close> decides whose turn it is, \<open>HttpsSlot.h\<close> guards the one TLS session, and
  \<open>HttpsWorker.cpp\<close> puts them together. A fixed buffer \<open>char x[N]\<close> is the text it holds (shorter
  than \<open>N\<close>), a \<open>const char *\<close> argument a \<open>string option\<close>. The HTTP client is a parameter: the
  function \<open>transact\<close> from the call the worker makes to what the library reports, with the
  library's copy of the body into the worker's sink as a function that takes the sink's
  \<open>write\<close>.
\<close>

subsection \<open>HttpsExchange.h\<close>

datatype XState = Idle | Requested | Complete

definition kBodyLimit :: nat where "kBodyLimit = 6144"

record Request =
  rq_get :: bool
  rq_url :: string
  rq_payload :: string
  rq_bearer :: string
  rq_accessId :: string
  rq_accessSecret :: string

record Result =
  rs_status :: int
  rs_tlsError :: int
  rs_durationMs :: u32
  rs_reused :: bool
  rs_permanentRejection :: bool
  rs_body :: string

record HttpsExchange =
  xrequest :: Request
  xresult :: Result
  xstate :: XState

definition fresh_exchange :: HttpsExchange where
  "fresh_exchange =
     \<lparr>xrequest = \<lparr>rq_get = False, rq_url = [], rq_payload = [], rq_bearer = [], rq_accessId = [],
                  rq_accessSecret = []\<rparr>,
      xresult = \<lparr>rs_status = 0, rs_tlsError = 0, rs_durationMs = 0, rs_reused = False,
                 rs_permanentRejection = False, rs_body = []\<rparr>,
      xstate = Idle\<rparr>"

definition fits :: "string option \<Rightarrow> nat \<Rightarrow> bool" where
  "fits v n = (case v of None \<Rightarrow> False | Some s \<Rightarrow> length s < n)"

definition xsubmit ::
  "string option \<Rightarrow> string option \<Rightarrow> string option \<Rightarrow> string option \<Rightarrow> string option \<Rightarrow> bool \<Rightarrow>
   HttpsExchange \<Rightarrow> bool \<times> HttpsExchange" where
  "xsubmit url payload bearer accessId accessSecret isGet x =
     (if xstate x \<noteq> Idle then (False, x)
      else if \<not> fits url 513 \<or> \<not> fits payload (kBodyLimit + 1) \<or> \<not> fits bearer 2049 \<or>
              \<not> fits accessId 257 \<or> \<not> fits accessSecret 513 then (False, x)
      else (True, x\<lparr>xrequest := \<lparr>rq_get = isGet, rq_url = the url, rq_payload = the payload,
                 rq_bearer = the bearer, rq_accessId = the accessId, rq_accessSecret = the accessSecret\<rparr>,
               xstate := Requested\<rparr>))"

definition xrequested :: "HttpsExchange \<Rightarrow> Request option" where
  "xrequested x = (if xstate x = Requested then Some (xrequest x) else None)"

definition xcomplete :: "HttpsExchange \<Rightarrow> HttpsExchange" where
  "xcomplete x = x\<lparr>xstate := Complete\<rparr>"

definition xresult_of :: "HttpsExchange \<Rightarrow> Result option" where
  "xresult_of x = (if xstate x = Complete then Some (xresult x) else None)"

definition xrelease :: "HttpsExchange \<Rightarrow> HttpsExchange" where
  "xrelease x = x\<lparr>xrequest := (xrequest x)\<lparr>rq_url := [], rq_payload := [], rq_bearer := [],
      rq_accessId := [], rq_accessSecret := []\<rparr>, xresult := (xresult x)\<lparr>rs_body := []\<rparr>, xstate := Idle\<rparr>"

definition xidle :: "HttpsExchange \<Rightarrow> bool" where
  "xidle x \<longleftrightarrow> xstate x = Idle"

text \<open>No text of a finished transaction is kept, and every buffer holds its terminator.\<close>

definition wiped :: "HttpsExchange \<Rightarrow> bool" where
  "wiped x \<longleftrightarrow> rq_url (xrequest x) = [] \<and> rq_payload (xrequest x) = [] \<and> rq_bearer (xrequest x) = [] \<and>
     rq_accessId (xrequest x) = [] \<and> rq_accessSecret (xrequest x) = [] \<and> rs_body (xresult x) = []"

definition request_fits :: "Request \<Rightarrow> bool" where
  "request_fits r \<longleftrightarrow> length (rq_url r) \<le> 512 \<and> length (rq_payload r) \<le> kBodyLimit \<and>
     length (rq_bearer r) \<le> 2048 \<and> length (rq_accessId r) \<le> 256 \<and> length (rq_accessSecret r) \<le> 512"

lemma xsubmit_cases:
  assumes "xsubmit u p b i s g x = (ok, x')"
  shows "ok \<Longrightarrow> xstate x = Idle \<and> xstate x' = Requested \<and> request_fits (xrequest x') \<and>
      xresult x' = xresult x \<and> rq_get (xrequest x') = g \<and> u = Some (rq_url (xrequest x')) \<and>
      p = Some (rq_payload (xrequest x')) \<and> b = Some (rq_bearer (xrequest x'))"
    and "\<not> ok \<Longrightarrow> x' = x"
  using assms
  by (auto simp: xsubmit_def fits_def request_fits_def kBodyLimit_def split: if_splits option.splits)

lemma xrelease_wiped [simp]: "wiped (xrelease x)" "xstate (xrelease x) = Idle"
  by (simp_all add: wiped_def xrelease_def)

subsection \<open>HttpsArbiter.h\<close>

datatype Owner = NoOwner | Authorization | Logs | Telemetry

primrec owner_bit :: "Owner \<Rightarrow> byte" where
  "owner_bit NoOwner = 0"
| "owner_bit Authorization = 1"
| "owner_bit Logs = 2"
| "owner_bit Telemetry = 4"

type_synonym arbiter = byte

definition arb_request :: "Owner \<Rightarrow> bool \<Rightarrow> arbiter \<Rightarrow> bool \<times> arbiter" where
  "arb_request owner idle pending =
     (let b = owner_bit owner
      in if b = 0 then (False, pending)
         else let pending = pending OR b
              in (idle \<and> pending AND (0 - pending) = b, pending))"

definition arb_cancel :: "Owner \<Rightarrow> arbiter \<Rightarrow> arbiter" where
  "arb_cancel owner pending = pending AND NOT (owner_bit owner)"

text \<open>The arbiter as a set of waiting owners with a fixed priority.\<close>

definition waiting :: "arbiter \<Rightarrow> Owner set" where
  "waiting pending = {ow. ow \<noteq> NoOwner \<and> pending AND owner_bit ow \<noteq> 0}"

definition outranks :: "Owner \<Rightarrow> Owner \<Rightarrow> bool" where
  "outranks a b \<longleftrightarrow> owner_bit a < owner_bit b"

definition arb_ok :: "arbiter \<Rightarrow> bool" where
  "arb_ok pending \<longleftrightarrow> pending < 8"

lemma arb_ok_cases:
  assumes "arb_ok p"
  shows "p = 0 \<or> p = 1 \<or> p = 2 \<or> p = 3 \<or> p = 4 \<or> p = 5 \<or> p = 6 \<or> p = 7"
proof -
  have "unat p < 8" using assms by (simp add: arb_ok_def word_less_nat_alt)
  then have "unat p \<in> {0, 1, 2, 3, 4, 5, 6, 7}" by auto
  then show ?thesis by (auto simp: word_unat_eq_iff)
qed

lemma arb_ok_0 [simp]: "arb_ok 0"
  by (simp add: arb_ok_def)

lemma arb_request_ok: "arb_ok p \<Longrightarrow> arb_ok (snd (arb_request ow idle p))"
  by (cases ow; drule arb_ok_cases) (auto simp: arb_request_def arb_ok_def)

lemma arb_cancel_ok: "arb_ok p \<Longrightarrow> arb_ok (arb_cancel ow p)"
  by (cases ow; drule arb_ok_cases) (auto simp: arb_cancel_def arb_ok_def)

lemma waiting_request:
  assumes "arb_ok p" "ow \<noteq> NoOwner"
  shows "waiting (snd (arb_request ow idle p)) = insert ow (waiting p)"
  using assms(2) arb_ok_cases [OF assms(1)]
  by (cases ow; elim disjE; auto simp: waiting_def arb_request_def split: if_splits;
      rename_tac z; case_tac z; simp)

lemma waiting_cancel:
  assumes "arb_ok p" "ow \<noteq> NoOwner"
  shows "waiting (arb_cancel ow p) = waiting p - {ow}"
  using assms(2) arb_ok_cases [OF assms(1)]
  by (cases ow; elim disjE; auto simp: waiting_def arb_cancel_def split: if_splits;
      rename_tac z; case_tac z; simp)

lemma arb_granted:
  assumes "arb_ok p" "ow \<noteq> NoOwner"
  shows "fst (arb_request ow idle p) \<longleftrightarrow> idle \<and> (\<forall>w \<in> waiting p. \<not> outranks w ow)"
proof -
  have all: "(\<forall>w. P w) \<longleftrightarrow> P NoOwner \<and> P Authorization \<and> P Logs \<and> P Telemetry" for P
    by (metis Owner.exhaust)
  show ?thesis
    using assms(2) arb_ok_cases [OF assms(1)]
    by (cases ow; elim disjE; simp add: arb_request_def waiting_def outranks_def Ball_def all)
qed

subsection \<open>HttpsSlot.h\<close>

text \<open>
  Constructing a slot tries to take the shared flag, destroying it gives the flag back if this
  slot holds it. The state is the flag and the slots that are alive, with their \<open>owned_\<close>.
\<close>

record slots =
  slot_busy :: bool
  slot_owned :: "nat \<Rightarrow> bool option"

definition slot_open :: "nat \<Rightarrow> slots \<Rightarrow> slots" where
  "slot_open i s = \<lparr>slot_busy = True, slot_owned = (slot_owned s)(i \<mapsto> \<not> slot_busy s)\<rparr>"

definition slot_close :: "nat \<Rightarrow> slots \<Rightarrow> slots" where
  "slot_close i s = \<lparr>slot_busy = (if slot_owned s i = Some True then False else slot_busy s),
     slot_owned = (slot_owned s)(i := None)\<rparr>"

inductive slots_reach :: "slots \<Rightarrow> bool" where
  slots_init: "slots_reach \<lparr>slot_busy = False, slot_owned = Map.empty\<rparr>"
| slots_open: "slots_reach s \<Longrightarrow> slot_owned s i = None \<Longrightarrow> slots_reach (slot_open i s)"
| slots_close: "slots_reach s \<Longrightarrow> slot_owned s i \<noteq> None \<Longrightarrow> slots_reach (slot_close i s)"

lemma slots_unique_owner:
  "slots_reach s \<Longrightarrow>
     (slot_busy s \<longleftrightarrow> (\<exists>i. slot_owned s i = Some True)) \<and>
     (\<forall>i j. slot_owned s i = Some True \<longrightarrow> slot_owned s j = Some True \<longrightarrow> i = j)"
proof (induction rule: slots_reach.induct)
  case (slots_open s i)
  then show ?case
    by (cases "slot_busy s") (auto simp: slot_open_def, metis option.distinct(1))
next
  case (slots_close s i)
  then show ?case by (auto simp: slot_close_def)
qed simp

subsection \<open>HttpsWorker.cpp: the bounded response sink\<close>

record ResponseSink =
  sink_buffer :: string

definition sink_write :: "string \<Rightarrow> ResponseSink \<Rightarrow> nat \<times> ResponseSink" where
  "sink_write chunk s =
     (if length chunk > kBodyLimit - length (sink_buffer s) then (0, s)
      else (length chunk, s\<lparr>sink_buffer := sink_buffer s @ chunk\<rparr>))"

definition sink_ok :: "ResponseSink \<Rightarrow> bool" where
  "sink_ok s \<longleftrightarrow> length (sink_buffer s) \<le> kBodyLimit"

lemma sink_write_ok: "sink_ok s \<Longrightarrow> sink_ok (snd (sink_write c s))"
  by (auto simp: sink_write_def sink_ok_def)

text \<open>
  The library's \<open>writeToStream\<close>: given the sink's \<open>write\<close>, it returns a count or a negative
  error. It reaches the sink through \<open>write\<close> only, so it keeps what every \<open>write\<close> keeps.
\<close>

type_synonym stream_copy =
  "(string \<Rightarrow> ResponseSink \<Rightarrow> nat \<times> ResponseSink) \<Rightarrow> ResponseSink \<Rightarrow> int \<times> ResponseSink"

definition only_writes :: "stream_copy \<Rightarrow> bool" where
  "only_writes f \<longleftrightarrow> (\<forall>P wr s. (\<forall>c t. P t \<longrightarrow> P (snd (wr c t))) \<longrightarrow> P s \<longrightarrow> P (snd (f wr s)))"

text \<open>A copy that sends the chunks it received and stops at the first short write.\<close>

fun copy_chunks :: "string list \<Rightarrow> stream_copy" where
  "copy_chunks [] wr s = (0, s)"
| "copy_chunks (c # cs) wr s =
     (case wr c s of (n, s') \<Rightarrow>
        if n < length c then (- 10, s')
        else case copy_chunks cs wr s' of (m, s'') \<Rightarrow> (if m < 0 then m else m + int n, s''))"

lemma only_writes_copy_chunks: "only_writes (copy_chunks cs)"
proof -
  have "P (snd (copy_chunks cs wr s))" if "\<And>c t. P t \<Longrightarrow> P (snd (wr c t))" "P s" for P wr s
    using that(2)
  proof (induction cs arbitrary: s)
    case (Cons c cs)
    then have "P (snd (wr c s))" using that(1) by simp
    with Cons show ?case by (simp split: prod.splits) (metis snd_conv)
  qed simp
  then show ?thesis by (auto simp: only_writes_def)
qed

subsection \<open>HttpsWorker.cpp: one transaction\<close>

record HttpCall =
  call_get :: bool
  call_url :: string
  call_payload :: string
  call_authorization :: "string option"
  call_accessId :: string
  call_accessSecret :: string

record HttpReply =
  began :: bool
  reply_status :: int
  retryable_header :: string
  copy_body :: stream_copy
  last_error :: int
  started_at :: u32
  finished_at :: u32
  still_connected :: bool

record WorkerLocal =
  previousOrigin :: string
  connected :: bool
  completedAt :: u32

definition origin_of :: "string \<Rightarrow> string" where
  "origin_of url = take 8 url @ takeWhile (\<lambda>c. c \<noteq> CHR ''/'') (drop 8 url)"

definition http_call :: "Request \<Rightarrow> HttpCall" where
  "http_call r = \<lparr>call_get = rq_get r, call_url = rq_url r,
     call_payload = (if rq_get r then [] else rq_payload r),
     call_authorization = (if rq_bearer r = [] then None else Some (''Bearer '' @ rq_bearer r)),
     call_accessId = rq_accessId r, call_accessSecret = rq_accessSecret r\<rparr>"

definition reset_result :: "Result \<Rightarrow> Result" where
  "reset_result r = r\<lparr>rs_status := - 1, rs_permanentRejection := False, rs_tlsError := 0, rs_body := []\<rparr>"

definition run_transaction ::
  "(HttpCall \<Rightarrow> HttpReply) \<Rightarrow> Request \<Rightarrow> Result \<Rightarrow> WorkerLocal \<Rightarrow> Result \<times> WorkerLocal" where
  "run_transaction transact rq result0 loc =
     (let result = reset_result result0;
          origin = origin_of (rq_url rq);
          live = (if previousOrigin loc \<noteq> origin then False else connected loc);
          result = result\<lparr>rs_reused := live\<rparr>;
          reply = transact (http_call rq);
          result =
            (if began reply then
               let result = result\<lparr>rs_status := reply_status reply,
                     rs_permanentRejection := payloadRejected (reply_status reply) \<and>
                       retryable_header reply = ''false''\<rparr>
               in if 0 < rs_status result then
                    case copy_body reply sink_write \<lparr>sink_buffer = []\<rparr> of (n, sink) \<Rightarrow>
                      if n < 0 then result\<lparr>rs_status := - 1, rs_permanentRejection := False, rs_body := []\<rparr>
                      else result\<lparr>rs_body := sink_buffer sink\<rparr>
                  else result
             else result);
          failed = rs_status result \<le> 0;
          result = (if failed then result\<lparr>rs_tlsError := last_error reply\<rparr> else result);
          result = result\<lparr>rs_durationMs := finished_at reply - started_at reply\<rparr>
      in (result, \<lparr>previousOrigin = origin, connected = (if failed then False else still_connected reply),
                   completedAt = finished_at reply\<rparr>))"

text \<open>A wake-up without a notification: the idle connection is closed after 15 seconds.\<close>

definition idle_tick :: "u32 \<Rightarrow> WorkerLocal \<Rightarrow> WorkerLocal" where
  "idle_tick now loc = (if 15000 < since now (completedAt loc) then loc\<lparr>connected := False\<rparr> else loc)"

definition result_ok :: "Result \<Rightarrow> bool" where
  "result_ok r \<longleftrightarrow> length (rs_body r) \<le> kBodyLimit \<and>
     (rs_status r \<le> 0 \<longrightarrow> rs_body r = [] \<and> \<not> rs_permanentRejection r) \<and>
     (rs_permanentRejection r \<longrightarrow> payloadRejected (rs_status r))"

lemma copy_body_bounded:
  assumes "only_writes f" "f sink_write \<lparr>sink_buffer = []\<rparr> = (n, s)"
  shows "length (sink_buffer s) \<le> kBodyLimit"
proof -
  have "sink_ok (snd (f sink_write \<lparr>sink_buffer = []\<rparr>))"
    using assms(1) [unfolded only_writes_def, rule_format, of sink_ok sink_write "\<lparr>sink_buffer = []\<rparr>"]
    by (simp add: sink_write_ok) (simp add: sink_ok_def)
  then show ?thesis by (simp add: assms(2) sink_ok_def)
qed

lemma run_transaction_ok:
  assumes "only_writes (copy_body (transact (http_call rq)))"
  shows "result_ok (fst (run_transaction transact rq result0 loc))"
proof -
  obtain n sink where c: "copy_body (transact (http_call rq)) sink_write \<lparr>sink_buffer = []\<rparr> = (n, sink)"
    by fastforce
  have "length (sink_buffer sink) \<le> kBodyLimit" by (rule copy_body_bounded [OF assms c])
  then show ?thesis
    by (auto simp: run_transaction_def Let_def c result_ok_def reset_result_def payloadRejected_def)
qed

subsection \<open>HttpsWorker.cpp: the object and its two tasks\<close>

text \<open>
  \<open>phase\<close> says where the worker task is in its loop: waiting for a notification, holding a
  request whose result is being written, or about to publish. The main task's calls and the
  worker's segments interleave freely; a wake-up is the notification of \<open>xTaskNotifyGive\<close>.
\<close>

datatype Phase = Waiting | Holding | Ready

record HttpsWorker =
  task :: bool
  exchange :: HttpsExchange
  owner :: Owner
  arbiter :: arbiter
  notified :: bool
  phase :: Phase
  local :: WorkerLocal

definition fresh_worker :: "WorkerLocal \<Rightarrow> HttpsWorker" where
  "fresh_worker loc = \<lparr>task = False, exchange = fresh_exchange, owner = NoOwner, arbiter = 0,
     notified = False, phase = Waiting, local = loc\<rparr>"

definition worker_begin :: "bool \<Rightarrow> HttpsWorker \<Rightarrow> bool \<times> HttpsWorker" where
  "worker_begin created w = (if task w then (True, w) else (created, w\<lparr>task := created\<rparr>))"

definition worker_submit ::
  "Owner \<Rightarrow> string option \<Rightarrow> string option \<Rightarrow> string option \<Rightarrow> string option \<Rightarrow> string option \<Rightarrow> bool \<Rightarrow>
   HttpsWorker \<Rightarrow> bool \<times> HttpsWorker" where
  "worker_submit ow url payload bearer accessId accessSecret isGet w =
     (if ow = NoOwner \<or> \<not> task w then (False, w)
      else case arb_request ow (xidle (exchange w)) (arbiter w) of
        (False, a) \<Rightarrow> (False, w\<lparr>arbiter := a\<rparr>)
      | (True, a) \<Rightarrow>
          (case xsubmit url payload bearer accessId accessSecret isGet (exchange w) of
             (False, x) \<Rightarrow> (False, w\<lparr>arbiter := arb_cancel ow a, exchange := x\<rparr>)
           | (True, x) \<Rightarrow> (True, w\<lparr>arbiter := arb_cancel ow a, exchange := x, owner := ow, notified := True\<rparr>)))"

definition worker_result :: "Owner \<Rightarrow> HttpsWorker \<Rightarrow> Result option" where
  "worker_result ow w = (if owner w = ow then xresult_of (exchange w) else None)"

definition worker_release :: "Owner \<Rightarrow> HttpsWorker \<Rightarrow> HttpsWorker" where
  "worker_release ow w =
     (if owner w = ow \<and> xresult_of (exchange w) \<noteq> None
      then w\<lparr>exchange := xrelease (exchange w), owner := NoOwner\<rparr> else w)"

definition worker_cancel :: "Owner \<Rightarrow> HttpsWorker \<Rightarrow> HttpsWorker" where
  "worker_cancel ow w = w\<lparr>arbiter := arb_cancel ow (arbiter w)\<rparr>"

text \<open>The worker's loop in three segments: take, perform, publish.\<close>

definition worker_take :: "u32 \<Rightarrow> HttpsWorker \<Rightarrow> HttpsWorker" where
  "worker_take now w =
     (if \<not> notified w then w\<lparr>local := idle_tick now (local w)\<rparr>
      else case xrequested (exchange w) of
        None \<Rightarrow> w\<lparr>notified := False\<rparr>
      | Some rq \<Rightarrow> w\<lparr>notified := False, phase := Holding\<rparr>)"

definition worker_perform :: "(HttpCall \<Rightarrow> HttpReply) \<Rightarrow> HttpsWorker \<Rightarrow> HttpsWorker" where
  "worker_perform transact w =
     (case run_transaction transact (xrequest (exchange w)) (xresult (exchange w)) (local w) of
        (res, loc) \<Rightarrow> w\<lparr>exchange := (exchange w)\<lparr>xresult := res\<rparr>, local := loc, phase := Ready\<rparr>)"

definition worker_publish :: "HttpsWorker \<Rightarrow> HttpsWorker" where
  "worker_publish w = w\<lparr>exchange := xcomplete (exchange w), phase := Waiting\<rparr>"

definition good_library :: "(HttpCall \<Rightarrow> HttpReply) \<Rightarrow> bool" where
  "good_library transact \<longleftrightarrow> (\<forall>call. only_writes (copy_body (transact call)))"

inductive worker_step :: "HttpsWorker \<Rightarrow> HttpsWorker \<Rightarrow> bool" where
  w_begin: "worker_step w (snd (worker_begin created w))"
| w_submit: "worker_step w (snd (worker_submit ow u p b i s g w))"
| w_release: "worker_step w (worker_release ow w)"
| w_cancel: "worker_step w (worker_cancel ow w)"
| w_take: "task w \<Longrightarrow> phase w = Waiting \<Longrightarrow> worker_step w (worker_take now w)"
| w_perform: "phase w = Holding \<Longrightarrow> good_library transact \<Longrightarrow> worker_step w (worker_perform transact w)"
| w_publish: "phase w = Ready \<Longrightarrow> worker_step w (worker_publish w)"

definition worker_reach :: "HttpsWorker \<Rightarrow> bool" where
  "worker_reach w \<longleftrightarrow> (\<exists>loc. worker_step\<^sup>*\<^sup>* (fresh_worker loc) w)"

text \<open>The result is what the library reported for the request that is still in the buffer.\<close>

definition answers :: "Result \<Rightarrow> Request \<Rightarrow> bool" where
  "answers res rq \<longleftrightarrow>
     (\<exists>transact r0 loc. good_library transact \<and> res = fst (run_transaction transact rq r0 loc))"

definition worker_inv :: "HttpsWorker \<Rightarrow> bool" where
  "worker_inv w \<longleftrightarrow>
     (owner w = NoOwner \<longleftrightarrow> xstate (exchange w) = Idle) \<and>
     (xstate (exchange w) = Idle \<longrightarrow> wiped (exchange w)) \<and>
     request_fits (xrequest (exchange w)) \<and>
     (notified w \<or> phase w \<noteq> Waiting \<longleftrightarrow> xstate (exchange w) = Requested) \<and>
     (notified w \<longrightarrow> phase w = Waiting) \<and>
     (xstate (exchange w) = Complete \<or> phase w = Ready \<longrightarrow>
        answers (xresult (exchange w)) (xrequest (exchange w))) \<and>
     arb_ok (arbiter w) \<and> (\<not> task w \<longrightarrow> xstate (exchange w) = Idle)"

lemma answers_ok: "answers res rq \<Longrightarrow> result_ok res"
  by (auto simp: answers_def good_library_def intro: run_transaction_ok)

lemma fresh_worker_inv: "worker_inv (fresh_worker loc)"
  by (simp add: worker_inv_def fresh_worker_def fresh_exchange_def wiped_def request_fits_def)

lemma submit_inv: "worker_inv w \<Longrightarrow> worker_inv (snd (worker_submit ow u p b i s g w))"
proof -
  assume inv: "worker_inv w"
  obtain ok a where a: "arb_request ow (xidle (exchange w)) (arbiter w) = (ok, a)" by fastforce
  obtain ok2 x where x: "xsubmit u p b i s g (exchange w) = (ok2, x)" by fastforce
  have "arb_ok a" using inv arb_request_ok [of "arbiter w" ow "xidle (exchange w)"] a
    by (simp add: worker_inv_def)
  then have "arb_ok (arb_cancel ow a)" by (rule arb_cancel_ok)
  moreover have "ok2 \<Longrightarrow> xstate (exchange w) = Idle \<and> xstate x = Requested \<and> request_fits (xrequest x)"
    "\<not> ok2 \<Longrightarrow> x = exchange w" using xsubmit_cases [OF x] by blast+
  moreover have "snd (worker_submit ow u p b i s g w) =
      (if ow = NoOwner \<or> \<not> task w then w
       else if \<not> ok then w\<lparr>arbiter := a\<rparr>
       else if \<not> ok2 then w\<lparr>arbiter := arb_cancel ow a, exchange := x\<rparr>
       else w\<lparr>arbiter := arb_cancel ow a, exchange := x, owner := ow, notified := True\<rparr>)"
    by (simp add: worker_submit_def a x split: bool.split)
  ultimately show ?thesis
    using inv \<open>arb_ok a\<close> by (cases ok2) (auto simp: worker_inv_def)
qed

lemma release_inv: "worker_inv w \<Longrightarrow> worker_inv (worker_release ow w)"
  by (auto simp: worker_release_def worker_inv_def xresult_of_def xrelease_def wiped_def
      request_fits_def split: if_splits)

lemma take_inv: "worker_inv w \<Longrightarrow> phase w = Waiting \<Longrightarrow> worker_inv (worker_take now w)"
  by (auto simp: worker_take_def worker_inv_def xrequested_def)

lemma perform_inv:
  assumes "worker_inv w" "phase w = Holding" "good_library transact"
  shows "worker_inv (worker_perform transact w)"
proof -
  obtain res loc where r:
    "run_transaction transact (xrequest (exchange w)) (xresult (exchange w)) (local w) = (res, loc)"
    by fastforce
  then have "answers res (xrequest (exchange w))"
    using assms(3) unfolding answers_def by (metis fst_conv)
  then show ?thesis using assms by (auto simp: worker_perform_def worker_inv_def r wiped_def)
qed

lemma publish_inv: "worker_inv w \<Longrightarrow> phase w = Ready \<Longrightarrow> worker_inv (worker_publish w)"
  by (auto simp: worker_publish_def worker_inv_def xcomplete_def)

lemma worker_step_inv: "worker_step w w' \<Longrightarrow> worker_inv w \<Longrightarrow> worker_inv w'"
proof (induction rule: worker_step.induct)
  case (w_begin w created)
  then show ?case by (auto simp: worker_begin_def worker_inv_def)
next
  case (w_cancel w ow)
  then show ?case by (simp add: worker_cancel_def worker_inv_def arb_cancel_ok)
qed (simp_all add: submit_inv release_inv take_inv perform_inv publish_inv)

lemma worker_reach_inv: "worker_reach w \<Longrightarrow> worker_inv w"
proof -
  assume "worker_reach w"
  then obtain loc where "worker_step\<^sup>*\<^sup>* (fresh_worker loc) w" by (auto simp: worker_reach_def)
  then show ?thesis
    by (induction rule: rtranclp_induct) (simp_all add: fresh_worker_inv worker_step_inv)
qed

subsection \<open>A run of the two tasks\<close>

definition sample_reply :: "HttpCall \<Rightarrow> HttpReply" where
  "sample_reply call = \<lparr>began = True, reply_status = 200, retryable_header = [],
     copy_body = copy_chunks [''ok''], last_error = 0, started_at = 5, finished_at = 9,
     still_connected = True\<rparr>"

definition sample_requested :: HttpsWorker where
  "sample_requested = snd (worker_submit Telemetry (Some ''https://h/a'') (Some ''p'') (Some ''t'')
     (Some []) (Some []) False
     (snd (worker_begin True (fresh_worker \<lparr>previousOrigin = [], connected = False, completedAt = 0\<rparr>))))"

definition sample_answered :: HttpsWorker where
  "sample_answered = worker_publish (worker_perform sample_reply (worker_take 1 sample_requested))"

lemma sample_good: "good_library sample_reply"
  by (simp add: good_library_def sample_reply_def only_writes_copy_chunks)

lemma sample_requested_phase: "phase sample_requested = Waiting" "task sample_requested"
  "xstate (exchange sample_requested) = Requested" "owner sample_requested = Telemetry"
  by code_simp+

lemma sample_requested_reach: "worker_reach sample_requested"
proof -
  have "worker_step\<^sup>*\<^sup>* (fresh_worker \<lparr>previousOrigin = [], connected = False, completedAt = 0\<rparr>)
      (snd (worker_begin True (fresh_worker \<lparr>previousOrigin = [], connected = False, completedAt = 0\<rparr>)))"
    by (rule r_into_rtranclp) (rule w_begin)
  then have "worker_step\<^sup>*\<^sup>* (fresh_worker \<lparr>previousOrigin = [], connected = False, completedAt = 0\<rparr>)
      sample_requested"
    unfolding sample_requested_def by (rule rtranclp.rtrancl_into_rtrancl) (rule w_submit)
  then show ?thesis unfolding worker_reach_def by blast
qed

lemma sample_answered_reach: "worker_reach sample_answered"
proof -
  obtain loc where "worker_step\<^sup>*\<^sup>* (fresh_worker loc) sample_requested"
    using sample_requested_reach by (auto simp: worker_reach_def)
  moreover have "worker_step sample_requested (worker_take 1 sample_requested)"
    by (rule w_take) (simp_all add: sample_requested_phase)
  moreover have "phase (worker_take 1 sample_requested) = Holding" by code_simp
  moreover then have "worker_step (worker_take 1 sample_requested)
      (worker_perform sample_reply (worker_take 1 sample_requested))"
    by (rule w_perform) (rule sample_good)
  moreover have "phase (worker_perform sample_reply (worker_take 1 sample_requested)) = Ready"
    by (simp add: worker_perform_def split: prod.splits)
  moreover then have "worker_step (worker_perform sample_reply (worker_take 1 sample_requested)) sample_answered"
    unfolding sample_answered_def by (rule w_publish)
  ultimately show ?thesis
    unfolding worker_reach_def by (meson rtranclp.rtrancl_into_rtrancl)
qed

lemma sample_answered_result:
  "worker_result Telemetry sample_answered = Some \<lparr>rs_status = 200, rs_tlsError = 0, rs_durationMs = 4,
     rs_reused = False, rs_permanentRejection = False, rs_body = ''ok''\<rparr>"
  by code_simp

subsection \<open>Properties\<close>



text \<open>
  C13: in every reachable state in which the exchange is idle nothing of the last transaction is
  left in memory: URL, payload, bearer token, access credentials and response body are wiped; no
  owner is registered, so the next submission of any owner is not shut out by a stale one.
\<close>

theorem worker_idle_wiped:
  assumes "worker_reach w" "xidle (exchange w)"
  shows "wiped (exchange w) \<and> owner w = NoOwner \<and> \<not> notified w"
  using worker_reach_inv [OF assms(1)] assms(2) by (auto simp: worker_inv_def xidle_def)

lemma worker_idle_wiped_witness:
  "wiped (exchange (worker_release Telemetry sample_answered))"
proof -
  have "worker_reach (worker_release Telemetry sample_answered)"
    using sample_answered_reach unfolding worker_reach_def
    by (meson rtranclp.rtrancl_into_rtrancl w_release)
  moreover have "xidle (exchange (worker_release Telemetry sample_answered))" by code_simp
  ultimately show ?thesis using worker_idle_wiped by blast
qed

fun arb_run :: "(Owner \<times> bool) list \<Rightarrow> arbiter \<Rightarrow> bool list \<times> arbiter" where
  "arb_run [] p = ([], p)"
| "arb_run ((ow, idle) # es) p =
     (case arb_request ow idle p of (g, p') \<Rightarrow> (case arb_run es p' of (gs, p'') \<Rightarrow> (g # gs, p'')))"



text \<open>
  C16: an owner that is waiting is never overtaken by one of lower priority: while it stays
  pending, every request of an owner it outranks is refused, however often that owner asks and
  whether or not the exchange is idle.
\<close>

theorem arbiter_not_overtaken:
  assumes "arb_ok p" "hi \<in> waiting p" "\<forall>(ow, idle) \<in> set es. outranks hi ow"
  shows "fst (arb_run es p) = replicate (length es) False \<and> hi \<in> waiting (snd (arb_run es p))"
  using assms
proof (induction es arbitrary: p)
  case (Cons e es)
  obtain ow idle where e: "e = (ow, idle)" by (cases e)
  obtain g p' where r: "arb_request ow idle p = (g, p')" by fastforce
  have o: "outranks hi ow" using Cons.prems(3) by (simp add: e)
  then have no: "ow \<noteq> NoOwner" by (auto simp: outranks_def)
  have "\<not> g" using arb_granted [OF Cons.prems(1) no, of idle] Cons.prems(2) o by (auto simp: r)
  moreover have "arb_ok p'" using arb_request_ok [OF Cons.prems(1), of ow idle] by (simp add: r)
  moreover have "hi \<in> waiting p'"
    using waiting_request [OF Cons.prems(1) no, of idle] Cons.prems(2) by (simp add: r)
  ultimately show ?case
    using Cons.IH [of p'] Cons.prems(3) by (cases "arb_run es p'") (simp add: e r)
qed simp

lemma arbiter_not_overtaken_witness:
  "fst (arb_run [(Telemetry, True), (Logs, True), (Telemetry, False)] (snd (arb_request Authorization False 0)))
     = [False, False, False]"
proof -
  have "arb_ok (snd (arb_request Authorization False 0))" by (rule arb_request_ok) simp
  moreover have "Authorization \<in> waiting (snd (arb_request Authorization False 0))"
    by (simp add: waiting_request)
  moreover have "outranks Authorization Telemetry" "outranks Authorization Logs" by code_simp+
  ultimately show ?thesis
    using arbiter_not_overtaken [of _ Authorization "[(Telemetry, True), (Logs, True), (Telemetry, False)]"]
    by (simp add: numeral_eq_Suc del: arb_run.simps)
qed

end
