(* ===== verification/OwnerReset.thy ===== *)
theory OwnerReset
  imports Prelude
begin

section \<open>OwnerReset.h: the durable owner reset\<close>

text \<open>
  \<open>shared/libraries/OwnerReset.h\<close> clears every store of owner credentials and keeps the network
  off until all of them report success; the request survives power loss as a latch in flash,
  which \<open>shared/libraries/OwnerResetNvs.h\<close> keeps in NVS. The world \<open>'w\<close> is the durable state all
  callbacks act on. A loss of power in the middle of an operation is covered by the contracts:
  it is a run in which every later call fails without an effect.
\<close>

subsection \<open>The coordinator\<close>

datatype ResetResult = Unchecked | NoResetNeeded | Completed | Pending | StorageError

record Coordinator =
  resetResult :: ResetResult
  resetRequested :: bool

definition boot_coordinator :: Coordinator where
  "boot_coordinator = \<lparr>resetResult = Unchecked, resetRequested = False\<rparr>"

definition networkAllowed :: "Coordinator \<Rightarrow> bool" where
  "networkAllowed c \<longleftrightarrow> resetResult c = NoResetNeeded \<or> resetResult c = Completed"

text \<open>\<open>getPending\<close> returns \<open>None\<close> where the code returns false, else the value it wrote.\<close>

record 'w latch_store =
  getPending :: "'w \<Rightarrow> bool option \<times> 'w"
  markPending :: "bool \<Rightarrow> 'w \<Rightarrow> bool \<times> 'w"

type_synonym 'w clear = "'w \<Rightarrow> bool \<times> 'w"

fun run_clears :: "'w clear list \<Rightarrow> bool \<Rightarrow> 'w \<Rightarrow> bool \<times> 'w" where
  "run_clears [] cleared w = (cleared, w)"
| "run_clears (c # cs) cleared w = (case c w of (b, w') \<Rightarrow> run_clears cs (b \<and> cleared) w')"

definition finish :: "'w latch_store \<Rightarrow> 'w clear list \<Rightarrow> Coordinator \<Rightarrow> 'w \<Rightarrow> Coordinator \<times> 'w" where
  "finish st clears c w =
     (let c = c\<lparr>resetResult := Pending\<rparr> in
      case run_clears clears True w of (cleared, w1) \<Rightarrow>
        if \<not> cleared then (c, w1)
        else case markPending st False w1 of
          (False, w2) \<Rightarrow> (c\<lparr>resetResult := StorageError\<rparr>, w2)
        | (True, w2) \<Rightarrow>
            (case getPending st w2 of
               (Some False, w3) \<Rightarrow> (c\<lparr>resetRequested := False, resetResult := Completed\<rparr>, w3)
             | (_, w3) \<Rightarrow> (c\<lparr>resetResult := StorageError\<rparr>, w3)))"

definition reset_request ::
  "'w latch_store \<Rightarrow> 'w clear list \<Rightarrow> Coordinator \<Rightarrow> 'w \<Rightarrow> Coordinator \<times> 'w" where
  "reset_request st clears c w =
     (let c = c\<lparr>resetResult := Pending, resetRequested := True\<rparr> in
      case markPending st True w of
        (False, w1) \<Rightarrow> (c\<lparr>resetResult := StorageError\<rparr>, w1)
      | (True, w1) \<Rightarrow>
          (case getPending st w1 of
             (Some True, w2) \<Rightarrow> finish st clears c w2
           | (_, w2) \<Rightarrow> (c\<lparr>resetResult := StorageError\<rparr>, w2)))"

definition resume :: "'w latch_store \<Rightarrow> 'w clear list \<Rightarrow> Coordinator \<Rightarrow> 'w \<Rightarrow> Coordinator \<times> 'w" where
  "resume st clears c w =
     (let c = c\<lparr>resetResult := Unchecked\<rparr> in
      case getPending st w of
        (None, w1) \<Rightarrow> (c\<lparr>resetResult := StorageError\<rparr>, w1)
      | (Some False, w1) \<Rightarrow>
          if resetRequested c then reset_request st clears c w1
          else (c\<lparr>resetResult := NoResetNeeded\<rparr>, w1)
      | (Some True, w1) \<Rightarrow> finish st clears c w1)"

subsection \<open>The store contract\<close>

text \<open>
  \<open>latch w\<close> is what a later boot would find, \<open>gone i w\<close> that the \<open>i\<close>-th credential store holds
  nothing of the owner. A call that fails may still have taken effect, or not.
\<close>

locale reset_store =
  fixes st :: "'w latch_store" and clears :: "'w clear list"
    and latch :: "'w \<Rightarrow> bool" and gone :: "nat \<Rightarrow> 'w \<Rightarrow> bool"
  assumes get_frame: "getPending st w = (r, w') \<Longrightarrow> latch w' = latch w \<and> (\<forall>i. gone i w' = gone i w)"
    and get_value: "getPending st w = (Some v, w') \<Longrightarrow> v = latch w"
    and mark_frame: "markPending st v w = (b, w') \<Longrightarrow>
      (latch w' = latch w \<or> latch w' = v) \<and> (\<forall>i. gone i w' = gone i w)"
    and mark_value: "markPending st v w = (True, w') \<Longrightarrow> latch w' = v"
    and clear_frame: "i < length clears \<Longrightarrow> (clears ! i) w = (b, w') \<Longrightarrow>
      latch w' = latch w \<and> (\<forall>j. gone j w \<longrightarrow> gone j w')"
    and clear_value: "i < length clears \<Longrightarrow> (clears ! i) w = (True, w') \<Longrightarrow> gone i w'"
begin

definition all_gone :: "'w \<Rightarrow> bool" where
  "all_gone w \<longleftrightarrow> (\<forall>i < length clears. gone i w)"

definition safe :: "'w \<Rightarrow> bool" where
  "safe w \<longleftrightarrow> latch w \<or> all_gone w"

lemma run_clears_frame:
  assumes "run_clears (drop k clears) ok w = (ok', w')"
  shows "latch w' = latch w \<and> (\<forall>j. gone j w \<longrightarrow> gone j w') \<and>
    (ok' \<longrightarrow> ok \<and> (\<forall>i. k \<le> i \<and> i < length clears \<longrightarrow> gone i w'))"
  using assms
proof (induction "length clears - k" arbitrary: k ok w)
  case 0
  then show ?case by auto
next
  case (Suc n)
  then have k: "k < length clears" by simp
  then have d: "drop k clears = clears ! k # drop (Suc k) clears" by (rule Cons_nth_drop_Suc [symmetric])
  obtain b w1 where c: "(clears ! k) w = (b, w1)" by fastforce
  with Suc.prems d have r: "run_clears (drop (Suc k) clears) (b \<and> ok) w1 = (ok', w')" by simp
  have n: "n = length clears - Suc k" using Suc.hyps(2) by simp
  note F = clear_frame [OF k c] clear_value [OF k, of w w1]
  have "b \<Longrightarrow> gone k w1" using F(2) c by simp
  with Suc.hyps(1) [OF n r] F(1) show ?case
    by (metis Suc_leI le_neq_implies_less)
qed

lemma run_clears_all:
  assumes "run_clears clears True w = (ok, w')"
  shows "latch w' = latch w" "gone j w \<Longrightarrow> gone j w'" "ok \<Longrightarrow> all_gone w'"
  using run_clears_frame [of 0 True w ok w'] assms by (auto simp: all_gone_def)

lemma finish_cases:
  assumes "finish st clears c w = (c', w')"
  shows "networkAllowed c' \<Longrightarrow> all_gone w' \<and> \<not> latch w'" "latch w \<Longrightarrow> safe w'"
    "all_gone w \<Longrightarrow> all_gone w'" "resetResult c' \<noteq> Completed \<Longrightarrow> resetRequested c' = resetRequested c"
proof -
  obtain ok w1 where r: "run_clears clears True w = (ok, w1)" by fastforce
  obtain b w2 where m: "markPending st False w1 = (b, w2)" by fastforce
  obtain v w3 where g: "getPending st w2 = (v, w3)" by fastforce
  note F = run_clears_all [OF r] mark_frame [OF m] mark_value [of False w1 w2] get_frame [OF g]
    get_value [of w2 _ w3]
  have ag: "all_gone w1 \<Longrightarrow> all_gone w2" "all_gone w2 \<Longrightarrow> all_gone w3"
    using F(4,6) by (auto simp: all_gone_def)
  have outcome: "(\<not> ok \<and> w' = w1 \<and> resetResult c' = Pending \<and> resetRequested c' = resetRequested c) \<or>
      (ok \<and> \<not> b \<and> w' = w2 \<and> resetResult c' = StorageError \<and> resetRequested c' = resetRequested c) \<or>
      (ok \<and> b \<and> w' = w3 \<and> v \<noteq> Some False \<and> resetResult c' = StorageError \<and> resetRequested c' = resetRequested c) \<or>
      (ok \<and> b \<and> w' = w3 \<and> v = Some False \<and> resetResult c' = Completed)"
    using assms by (auto simp: finish_def Let_def r m g split: if_splits bool.splits option.splits)
  show "networkAllowed c' \<Longrightarrow> all_gone w' \<and> \<not> latch w'"
    using outcome F ag g by (auto simp: networkAllowed_def)
  show "latch w \<Longrightarrow> safe w'"
    using outcome F ag by (auto simp: safe_def)
  show "all_gone w \<Longrightarrow> all_gone w'"
    using outcome F(2) ag by (auto simp: all_gone_def)
  show "resetResult c' \<noteq> Completed \<Longrightarrow> resetRequested c' = resetRequested c"
    using outcome by auto
qed

lemma request_cases:
  assumes "reset_request st clears c w = (c', w')"
  shows "networkAllowed c' \<Longrightarrow> all_gone w' \<and> \<not> latch w'" "safe w \<Longrightarrow> safe w'"
proof -
  obtain b w1 where m: "markPending st True w = (b, w1)" by fastforce
  obtain v w2 where g: "getPending st w1 = (v, w2)" by fastforce
  note F = mark_frame [OF m] mark_value [of True w w1] get_frame [OF g] get_value [of w1 _ w2]
  show "networkAllowed c' \<Longrightarrow> all_gone w' \<and> \<not> latch w'"
    using assms finish_cases(1) by (auto simp: reset_request_def Let_def m g networkAllowed_def
        split: bool.splits option.splits)
  have "safe w \<Longrightarrow> safe w1" using F by (auto simp: safe_def all_gone_def)
  moreover then have "safe w \<Longrightarrow> safe w2" using F by (auto simp: safe_def all_gone_def)
  moreover have "v = Some True \<Longrightarrow> latch w2" using F g by auto
  ultimately show "safe w \<Longrightarrow> safe w'"
    using assms finish_cases(2)
    by (auto simp: reset_request_def Let_def m g split: bool.splits option.splits)
qed

lemma resume_cases:
  assumes "resume st clears c w = (c', w')"
  shows "networkAllowed c' \<Longrightarrow> all_gone w' \<and> \<not> latch w' \<or> \<not> latch w \<and> \<not> latch w' \<and> \<not> resetRequested c"
    "safe w \<Longrightarrow> safe w'"
proof -
  obtain v w1 where g: "getPending st w = (v, w1)" by fastforce
  note F = get_frame [OF g] get_value [of w _ w1]
  show "networkAllowed c' \<Longrightarrow> all_gone w' \<and> \<not> latch w' \<or> \<not> latch w \<and> \<not> latch w' \<and> \<not> resetRequested c"
    using assms finish_cases(1) request_cases(1) F g
    by (auto simp: resume_def Let_def g networkAllowed_def split: bool.splits option.splits if_splits)
  have "safe w \<Longrightarrow> safe w1" using F by (auto simp: safe_def all_gone_def)
  moreover have "v = Some True \<Longrightarrow> latch w1" using F g by auto
  ultimately show "safe w \<Longrightarrow> safe w'"
    using assms finish_cases(2) request_cases(2)
    by (auto simp: resume_def Let_def g split: bool.splits option.splits if_splits)
qed

lemma resume_keeps:
  assumes "resume st clears c w = (c', w')" "\<not> latch w" "\<not> resetRequested c" "all_gone w"
  shows "all_gone w'"
proof -
  obtain v w1 where g: "getPending st w = (v, w1)" by fastforce
  then have "all_gone w1" using get_frame [OF g] assms(4) by (simp add: all_gone_def)
  moreover have "v \<noteq> Some True" using get_value [of w _ w1] g assms(2) by auto
  ultimately show ?thesis
    using assms by (auto simp: resume_def Let_def g split: option.splits bool.splits)
qed

lemma request_completed:
  assumes "reset_request st clears c w = (c', w')"
  shows "resetResult c' \<noteq> Completed \<Longrightarrow> resetRequested c'" "resetResult c' = Completed \<Longrightarrow> \<not> resetRequested c'"
proof -
  obtain b w1 where m: "markPending st True w = (b, w1)" by fastforce
  obtain v w2 where g: "getPending st w1 = (v, w2)" by fastforce
  show "resetResult c' \<noteq> Completed \<Longrightarrow> resetRequested c'"
    using assms finish_cases(4)
    by (fastforce simp: reset_request_def Let_def m g split: bool.splits option.splits)
  show "resetResult c' = Completed \<Longrightarrow> \<not> resetRequested c'"
    using assms by (auto simp: reset_request_def finish_def Let_def m g
        split: bool.splits option.splits prod.splits if_splits)
qed

lemma resume_after_request:
  assumes "reset_request st clears c w = (c1, w1)" "resume st clears c1 w1 = (c2, w2)" "networkAllowed c2"
  shows "all_gone w2 \<and> \<not> latch w2"
proof (cases "resetResult c1 = Completed")
  case True
  then have "\<not> resetRequested c1" using request_completed [OF assms(1)] by simp
  moreover have "all_gone w1 \<and> \<not> latch w1"
    using request_cases(1) [OF assms(1)] True by (simp add: networkAllowed_def)
  ultimately show ?thesis using resume_keeps [OF assms(2)] resume_cases(1) [OF assms(2,3)] by blast
next
  case False
  then have "resetRequested c1" using request_completed [OF assms(1)] by simp
  then show ?thesis using resume_cases(1) [OF assms(2,3)] by blast
qed

end

text \<open>
  The life of a device: a boot starts with a fresh coordinator, and until the next boot the
  firmware calls \<open>resume\<close> and \<open>request\<close> in any order.
\<close>

inductive boots ::
  "'w latch_store \<Rightarrow> 'w clear list \<Rightarrow> Coordinator \<times> 'w \<Rightarrow> Coordinator \<times> 'w \<Rightarrow> bool"
  for st clears where
  boots_now: "boots st clears s s"
| boots_power: "boots st clears s (c, w) \<Longrightarrow> boots st clears s (boot_coordinator, w)"
| boots_resume: "boots st clears s (c, w) \<Longrightarrow> boots st clears s (resume st clears c w)"
| boots_request: "boots st clears s (c, w) \<Longrightarrow> boots st clears s (reset_request st clears c w)"

context reset_store
begin

text \<open>From a set latch on, the network is only ever allowed with every store empty.\<close>

lemma boots_safe:
  assumes "boots st clears s t" "safe (snd s)" "networkAllowed (fst s) \<longrightarrow> all_gone (snd s)"
  shows "safe (snd t) \<and> (networkAllowed (fst t) \<longrightarrow> all_gone (snd t))"
  using assms
proof (induction rule: boots.induct)
  case boots_now
  then show ?case by simp
next
  case boots_power
  then show ?case by (simp add: boot_coordinator_def networkAllowed_def)
next
  case (boots_resume s c w)
  obtain c' w' where r: "resume st clears c w = (c', w')" by fastforce
  have "safe w'" using resume_cases(2) [OF r] boots_resume by simp
  then show ?case using resume_cases(1) [OF r] by (auto simp: r safe_def)
next
  case (boots_request s c w)
  obtain c' w' where r: "reset_request st clears c w = (c', w')" by fastforce
  show ?case using request_cases [OF r] boots_request by (simp add: r)
qed

end

subsection \<open>OwnerResetNvs.h: the latch in NVS\<close>

text \<open>
  The C interface of the non-volatile storage is a parameter. A handle is the namespace it was
  opened for; every call returns an error number.
\<close>

record 'n nvs_ops =
  nvs_open :: "string \<Rightarrow> bool \<Rightarrow> 'n \<Rightarrow> int \<times> 'n"
  nvs_get_u8 :: "string \<Rightarrow> string \<Rightarrow> 'n \<Rightarrow> (int \<times> byte) \<times> 'n"
  nvs_set_u8 :: "string \<Rightarrow> string \<Rightarrow> byte \<Rightarrow> 'n \<Rightarrow> int \<times> 'n"
  nvs_commit :: "string \<Rightarrow> 'n \<Rightarrow> int \<times> 'n"

definition ESP_OK :: int where "ESP_OK = 0"
definition ESP_ERR_NVS_NOT_FOUND :: int where "ESP_ERR_NVS_NOT_FOUND = 0x1102"

definition nvs_getPending :: "'n nvs_ops \<Rightarrow> 'n \<Rightarrow> bool option \<times> 'n" where
  "nvs_getPending N n =
     (case nvs_open N ''owner_reset'' False n of (opened, n1) \<Rightarrow>
        if opened = ESP_ERR_NVS_NOT_FOUND then (Some False, n1)
        else if opened \<noteq> ESP_OK then (None, n1)
        else case nvs_get_u8 N ''owner_reset'' ''pending'' n1 of ((read, value), n2) \<Rightarrow>
          if read = ESP_ERR_NVS_NOT_FOUND then (Some False, n2)
          else if read \<noteq> ESP_OK \<or> 1 < value then (None, n2)
          else (Some (value = 1), n2))"

definition nvs_markPending :: "'n nvs_ops \<Rightarrow> bool \<Rightarrow> 'n \<Rightarrow> bool \<times> 'n" where
  "nvs_markPending N pending n =
     (case nvs_open N ''owner_reset'' True n of (opened, n1) \<Rightarrow>
        if opened \<noteq> ESP_OK then (False, n1)
        else case nvs_set_u8 N ''owner_reset'' ''pending'' (if pending then 1 else 0) n1 of (written, n2) \<Rightarrow>
          if written = ESP_OK
          then (case nvs_commit N ''owner_reset'' n2 of (e, n3) \<Rightarrow> (e = ESP_OK, n3))
          else (False, n2))"

definition NvsStore :: "'n nvs_ops \<Rightarrow> 'n latch_store" where
  "NvsStore N = \<lparr>getPending = nvs_getPending N, markPending = nvs_markPending N\<rparr>"

text \<open>
  What the library documents: reads change nothing and report what is stored; a failed or
  interrupted write leaves the old or the new value; a committed one is durable. \<open>stored\<close> is the
  content of the flash, and no call touches another entry.
\<close>

definition nvs_latch :: "('n \<Rightarrow> string \<times> string \<Rightarrow> byte option) \<Rightarrow> 'n \<Rightarrow> bool" where
  "nvs_latch stored n \<longleftrightarrow> stored n (''owner_reset'', ''pending'') \<notin> {None, Some 0}"

definition other_entries :: "('n \<Rightarrow> string \<times> string \<Rightarrow> byte option) \<Rightarrow> 'n \<Rightarrow> string \<times> string \<Rightarrow> byte option" where
  "other_entries stored n = (stored n)((''owner_reset'', ''pending'') := None)"

locale nvs_api =
  fixes N :: "'n nvs_ops" and stored :: "'n \<Rightarrow> string \<times> string \<Rightarrow> byte option"
  assumes open_frame: "nvs_open N ns rw n = (e, n') \<Longrightarrow> stored n' = stored n"
    and open_missing: "nvs_open N ns False n = (ESP_ERR_NVS_NOT_FOUND, n') \<Longrightarrow> stored n (ns, k) = None"
    and get_frame: "nvs_get_u8 N ns k n = (ev, n') \<Longrightarrow> stored n' = stored n"
    and get_found: "nvs_get_u8 N ns k n = ((ESP_OK, v), n') \<Longrightarrow> stored n (ns, k) = Some v"
    and get_missing: "nvs_get_u8 N ns k n = ((ESP_ERR_NVS_NOT_FOUND, v), n') \<Longrightarrow> stored n (ns, k) = None"
    and set_frame: "nvs_set_u8 N ns k v n = (e, n') \<Longrightarrow>
      stored n' = stored n \<or> stored n' = (stored n)((ns, k) \<mapsto> v)"
    and set_commit: "nvs_set_u8 N ns k v n = (ESP_OK, n1) \<Longrightarrow> nvs_commit N ns n1 = (e, n') \<Longrightarrow>
      (stored n' = stored n \<or> stored n' = (stored n)((ns, k) \<mapsto> v)) \<and>
      (e = ESP_OK \<longrightarrow> stored n' = (stored n)((ns, k) \<mapsto> v))"
begin

lemma getPending_store:
  assumes "nvs_getPending N n = (v, n')"
  shows "stored n' = stored n" "v = Some b \<Longrightarrow> b = nvs_latch stored n"
proof -
  obtain e n1 where o: "nvs_open N ''owner_reset'' False n = (e, n1)" by fastforce
  obtain r x n2 where g: "nvs_get_u8 N ''owner_reset'' ''pending'' n1 = ((r, x), n2)"
    by (metis prod.collapse)
  note F = open_frame [OF o] get_frame [OF g]
  show "stored n' = stored n"
    using assms F by (auto simp: nvs_getPending_def o g split: if_splits)
  have miss: "e = ESP_ERR_NVS_NOT_FOUND \<Longrightarrow> \<not> nvs_latch stored n"
    using open_missing [of "''owner_reset''" n n1] o by (simp add: nvs_latch_def)
  have miss2: "r = ESP_ERR_NVS_NOT_FOUND \<Longrightarrow> \<not> nvs_latch stored n"
    using get_missing [of "''owner_reset''" "''pending''" n1 x n2] g F by (simp add: nvs_latch_def)
  have hit: "r = ESP_OK \<Longrightarrow> stored n (''owner_reset'', ''pending'') = Some x"
    using get_found [of "''owner_reset''" "''pending''" n1 x n2] g F by simp
  have x: "x \<le> 1 \<Longrightarrow> (x = 1) = (x \<noteq> 0)"
  proof -
    assume "x \<le> 1"
    then have "unat x = 0 \<or> unat x = 1" by (auto simp: word_le_nat_alt)
    then have "x = 0 \<or> x = 1" by (simp only: word_unat_eq_iff unsigned_0 unsigned_1)
    then show "(x = 1) = (x \<noteq> 0)" by auto
  qed
  show "v = Some b \<Longrightarrow> b = nvs_latch stored n"
    using assms miss miss2 hit x
    by (auto simp: nvs_getPending_def o g nvs_latch_def not_less split: if_splits)
qed

lemma markPending_store:
  assumes "nvs_markPending N v n = (b, n')"
  shows "stored n' = stored n \<or> stored n' = (stored n)((''owner_reset'', ''pending'') \<mapsto> (if v then 1 else 0))"
    "b \<Longrightarrow> stored n' = (stored n)((''owner_reset'', ''pending'') \<mapsto> (if v then 1 else 0))"
proof -
  define x where "x = (if v then 1 else 0 :: byte)"
  obtain e n1 where o: "nvs_open N ''owner_reset'' True n = (e, n1)" by fastforce
  obtain r n2 where s: "nvs_set_u8 N ''owner_reset'' ''pending'' x n1 = (r, n2)" by fastforce
  obtain q n3 where c: "nvs_commit N ''owner_reset'' n2 = (q, n3)" by fastforce
  note F = open_frame [OF o] set_frame [OF s]
  have C: "r = ESP_OK \<Longrightarrow> (stored n3 = stored n1 \<or> stored n3 = (stored n1)((''owner_reset'', ''pending'') \<mapsto> x)) \<and>
      (q = ESP_OK \<longrightarrow> stored n3 = (stored n1)((''owner_reset'', ''pending'') \<mapsto> x))"
    using set_commit [of "''owner_reset''" "''pending''" x n1 n2 q n3] s c by simp
  have eq: "nvs_markPending N v n = (if e \<noteq> ESP_OK then (False, n1)
      else if r = ESP_OK then (q = ESP_OK, n3) else (False, n2))"
    unfolding nvs_markPending_def x_def [symmetric] by (simp add: o s c)
  show "stored n' = stored n \<or> stored n' = (stored n)((''owner_reset'', ''pending'') \<mapsto> (if v then 1 else 0))"
    "b \<Longrightarrow> stored n' = (stored n)((''owner_reset'', ''pending'') \<mapsto> (if v then 1 else 0))"
    using assms F C unfolding eq x_def [symmetric] by (auto split: if_splits)
qed

end

locale nvs_reset = nvs_api N stored
  for N :: "'n nvs_ops" and stored :: "'n \<Rightarrow> string \<times> string \<Rightarrow> byte option" +
  fixes clears :: "'n clear list" and gone :: "nat \<Rightarrow> 'n \<Rightarrow> bool"
  assumes clear_keeps: "i < length clears \<Longrightarrow> (clears ! i) n = (b, n') \<Longrightarrow>
      stored n' (''owner_reset'', ''pending'') = stored n (''owner_reset'', ''pending'') \<and>
      (\<forall>j. gone j n \<longrightarrow> gone j n')"
    and clear_gone: "i < length clears \<Longrightarrow> (clears ! i) n = (True, n') \<Longrightarrow> gone i n'"
    and gone_entries: "other_entries stored n' = other_entries stored n \<Longrightarrow> gone j n' \<longleftrightarrow> gone j n"

sublocale nvs_reset \<subseteq> reset: reset_store "NvsStore N" clears "nvs_latch stored" gone
proof
  fix r and n n' :: 'n
  assume "getPending (NvsStore N) n = (r, n')"
  then have s: "stored n' = stored n" by (simp add: NvsStore_def getPending_store)
  show "nvs_latch stored n' = nvs_latch stored n \<and> (\<forall>i. gone i n' = gone i n)"
    using gone_entries [of n' n] s by (auto simp: nvs_latch_def other_entries_def)
next
  fix v and n n' :: 'n
  assume "getPending (NvsStore N) n = (Some v, n')"
  then show "v = nvs_latch stored n" using getPending_store(2) [of n "Some v" n' v] by (simp add: NvsStore_def)
next
  fix v b and n n' :: 'n
  assume "markPending (NvsStore N) v n = (b, n')"
  then have m: "nvs_markPending N v n = (b, n')" by (simp add: NvsStore_def)
  have "other_entries stored n' = other_entries stored n"
    using markPending_store(1) [OF m] by (auto simp: other_entries_def)
  then have "\<forall>i. gone i n' = gone i n" by (intro allI gone_entries)
  moreover have "nvs_latch stored n' = nvs_latch stored n \<or> nvs_latch stored n' = v"
    using markPending_store(1) [OF m] by (auto simp: nvs_latch_def)
  ultimately show "(nvs_latch stored n' = nvs_latch stored n \<or> nvs_latch stored n' = v) \<and>
      (\<forall>i. gone i n' = gone i n)" by blast
next
  fix v and n n' :: 'n
  assume "markPending (NvsStore N) v n = (True, n')"
  then have m: "nvs_markPending N v n = (True, n')" by (simp add: NvsStore_def)
  show "nvs_latch stored n' = v" using markPending_store(2) [OF m] by (auto simp: nvs_latch_def)
next
  fix i b and n n' :: 'n
  assume "i < length clears" "(clears ! i) n = (b, n')"
  then show "nvs_latch stored n' = nvs_latch stored n \<and> (\<forall>j. gone j n \<longrightarrow> gone j n')"
    using clear_keeps by (simp add: nvs_latch_def)
next
  fix i and n n' :: 'n
  assume "i < length clears" "(clears ! i) n = (True, n')"
  then show "gone i n'" by (rule clear_gone)
qed

context nvs_reset
begin

lemma gate:
  assumes "nvs_latch stored n" "boots (NvsStore N) clears (boot_coordinator, n) (c, n')"
    "networkAllowed c" "i < length clears"
  shows "gone i n'"
  using reset.boots_safe [OF assms(2)] assms(1,3,4)
  by (auto simp: reset.safe_def reset.all_gone_def boot_coordinator_def networkAllowed_def)

lemma gate_after_request:
  assumes "reset_request (NvsStore N) clears c n = (c1, n1)" "resume (NvsStore N) clears c1 n1 = (c2, n2)"
    "networkAllowed c2"
  shows "(\<forall>i < length clears. gone i n2) \<and> \<not> nvs_latch stored n2"
  using reset.resume_after_request [OF assms] by (simp add: reset.all_gone_def)

end

subsection \<open>A concrete flash\<close>

text \<open>
  A list of cells and a script that says which of the coming calls fail, as the storage fake of
  the repository's host tests has it.
\<close>

record fake_nvs =
  cells :: "((string \<times> string) \<times> byte) list"
  failing :: "bool list"

definition fake_stored :: "fake_nvs \<Rightarrow> string \<times> string \<Rightarrow> byte option" where
  "fake_stored n = map_of (cells n)"

definition next_ok :: "fake_nvs \<Rightarrow> bool \<times> fake_nvs" where
  "next_ok n = (case failing n of [] \<Rightarrow> (True, n) | f # fs \<Rightarrow> (\<not> f, n\<lparr>failing := fs\<rparr>))"

definition fake_ops :: "fake_nvs nvs_ops" where
  "fake_ops = \<lparr>
     nvs_open = (\<lambda>ns rw n. case next_ok n of (ok, n') \<Rightarrow>
       (if \<not> ok then -1
        else if \<not> rw \<and> \<not> list_ex (\<lambda>c. fst (fst c) = ns) (cells n) then ESP_ERR_NVS_NOT_FOUND else ESP_OK, n')),
     nvs_get_u8 = (\<lambda>ns k n. case next_ok n of (ok, n') \<Rightarrow>
       (if \<not> ok then (-1, 0)
        else case map_of (cells n) (ns, k) of None \<Rightarrow> (ESP_ERR_NVS_NOT_FOUND, 0) | Some v \<Rightarrow> (ESP_OK, v), n')),
     nvs_set_u8 = (\<lambda>ns k v n. case next_ok n of (ok, n') \<Rightarrow>
       if ok then (ESP_OK, n'\<lparr>cells := ((ns, k), v) # cells n\<rparr>) else (-1, n')),
     nvs_commit = (\<lambda>ns n. case next_ok n of (ok, n') \<Rightarrow> (if ok then ESP_OK else -1, n'))\<rparr>"

definition clear_namespace :: "string \<Rightarrow> fake_nvs clear" where
  "clear_namespace ns n = (case next_ok n of (ok, n') \<Rightarrow>
     if ok then (True, n'\<lparr>cells := filter (\<lambda>c. fst (fst c) \<noteq> ns) (cells n)\<rparr>) else (False, n'))"

definition fake_clears :: "fake_nvs clear list" where
  "fake_clears = [clear_namespace ''provisioning'', clear_namespace ''runtime'']"

definition fake_gone :: "nat \<Rightarrow> fake_nvs \<Rightarrow> bool" where
  "fake_gone j n \<longleftrightarrow> (\<forall>k. fake_stored n ([''provisioning'', ''runtime''] ! (j mod 2), k) = None)"

lemma next_ok_cells: "next_ok n = (ok, n') \<Longrightarrow> cells n' = cells n"
  by (auto simp: next_ok_def split: list.splits)

lemma no_cells: "\<not> list_ex (\<lambda>c. fst (fst c) = ns) cs \<Longrightarrow> map_of cs (ns, k) = None"
  by (induction cs) auto

lemma map_of_filter_ns:
  "map_of (filter (\<lambda>c. fst (fst c) \<noteq> ns) cs) x = (if fst x = ns then None else map_of cs x)"
  by (induction cs) auto

interpretation fake: nvs_api fake_ops fake_stored
proof
  fix ns rw and n n' :: fake_nvs and e
  assume "nvs_open fake_ops ns rw n = (e, n')"
  then show "fake_stored n' = fake_stored n"
    by (auto simp: fake_ops_def fake_stored_def dest: next_ok_cells split: prod.splits)
qed (auto simp: fake_ops_def fake_stored_def ESP_OK_def ESP_ERR_NVS_NOT_FOUND_def no_cells
    dest!: next_ok_cells split: prod.splits if_splits option.splits)

lemma clear_namespace_stored:
  assumes "clear_namespace ns n = (b, n')"
  shows "fake_stored n' x = (if b \<and> fst x = ns then None else fake_stored n x)"
proof -
  obtain ok n1 where k: "next_ok n = (ok, n1)" by fastforce
  from next_ok_cells [OF k] assms show ?thesis
    by (cases ok) (auto simp: clear_namespace_def k fake_stored_def map_of_filter_ns)
qed

lemma fake_clears_nth:
  "i < length fake_clears \<Longrightarrow> fake_clears ! i = clear_namespace ([''provisioning'', ''runtime''] ! (i mod 2))"
  by (auto simp: fake_clears_def less_Suc_eq)

lemma fake_namespaces: "[''provisioning'', ''runtime''] ! (j mod 2) \<noteq> ''owner_reset''" for j :: nat
  using mod_less_divisor [of 2 j] by (cases "j mod 2 = 0") (auto simp: mod_2_eq_odd)

interpretation fake: nvs_reset fake_ops fake_stored fake_clears fake_gone
proof
  fix i b and n n' :: fake_nvs
  assume "i < length fake_clears" "(fake_clears ! i) n = (b, n')"
  then have "clear_namespace ([''provisioning'', ''runtime''] ! (i mod 2)) n = (b, n')"
    by (simp only: fake_clears_nth)
  note st = clear_namespace_stored [OF this]
  show "fake_stored n' (''owner_reset'', ''pending'') = fake_stored n (''owner_reset'', ''pending'') \<and>
      (\<forall>j. fake_gone j n \<longrightarrow> fake_gone j n')"
    using fake_namespaces [of i] by (simp add: st fake_gone_def)
next
  fix i and n n' :: fake_nvs
  assume "i < length fake_clears" "(fake_clears ! i) n = (True, n')"
  then have "clear_namespace ([''provisioning'', ''runtime''] ! (i mod 2)) n = (True, n')"
    by (simp only: fake_clears_nth)
  note st = clear_namespace_stored [OF this]
  show "fake_gone i n'" by (simp add: st fake_gone_def)
next
  fix j and n n' :: fake_nvs
  assume "other_entries fake_stored n' = other_entries fake_stored n"
  note eq = this [THEN fun_cong]
  have "fake_stored n' (ns, k) = fake_stored n (ns, k)" if "ns \<noteq> ''owner_reset''" for ns k
    using eq [of "(ns, k)"] that by (simp add: other_entries_def)
  then show "fake_gone j n' \<longleftrightarrow> fake_gone j n"
    unfolding fake_gone_def using fake_namespaces [of j] by (simp only: simp_thms)
qed

subsection \<open>Properties\<close>

text \<open>
  C1: once a reset is durably requested the network stays off until every owner credential is
  gone. Starting a boot with the latch set in NVS, no sequence of power cycles, resumes and
  further requests, with any of the storage calls failing on the way, reaches a state that
  allows the network while a credential store still holds something of the owner.
\<close>

theorem owner_reset_gate:
  assumes "nvs_reset N stored clears gone"
    and "nvs_latch stored n"
    and "boots (NvsStore N) clears (boot_coordinator, n) (c, n')"
    and "networkAllowed c" "i < length clears"
  shows "gone i n'"
  by (rule nvs_reset.gate [OF assms])

definition reset_flash :: "bool list \<Rightarrow> fake_nvs" where
  "reset_flash script = \<lparr>cells = [((''owner_reset'', ''pending''), 1), ((''provisioning'', ''token''), 7),
     ((''runtime'', ''pass''), 9)], failing = script\<rparr>"

lemma owner_reset_gate_witness:
  "fake_stored (snd (resume (NvsStore fake_ops) fake_clears boot_coordinator
       (snd (resume (NvsStore fake_ops) fake_clears boot_coordinator
         (reset_flash [False, False, False, True]))))) (''runtime'', ''pass'') = None"
proof -
  let ?boot = "resume (NvsStore fake_ops) fake_clears boot_coordinator"
  let ?n = "reset_flash [False, False, False, True]"
  have latch: "nvs_latch fake_stored ?n" by (simp add: nvs_latch_def reset_flash_def fake_stored_def)
  have run: "boots (NvsStore fake_ops) fake_clears (boot_coordinator, ?n) (?boot (snd (?boot ?n)))"
    by (metis boots_now boots_power boots_resume prod.collapse)
  obtain c n' where r: "?boot (snd (?boot ?n)) = (c, n')" by fastforce
  have "networkAllowed (fst (?boot (snd (?boot ?n))))" by code_simp
  then have "fake_gone 1 n'"
    using owner_reset_gate [OF fake.nvs_reset_axioms latch run [unfolded r]] by (simp only: r fst_conv) (simp add: fake_clears_def)
  then show ?thesis by (simp add: r fake_gone_def)
qed

text \<open>
  C2: a reset the user asked for is not bypassed by trying again. After a request whose storage
  writes failed in any way, resuming in the same boot allows the network only with every
  credential store empty and the latch cleared, never on the strength of an unset latch.
\<close>

theorem owner_reset_request_sticks:
  assumes "nvs_reset N stored clears gone"
    and "reset_request (NvsStore N) clears c n = (c1, n1)"
    and "resume (NvsStore N) clears c1 n1 = (c2, n2)"
    and "networkAllowed c2"
  shows "(\<forall>i < length clears. gone i n2) \<and> \<not> nvs_latch stored n2"
  by (rule nvs_reset.gate_after_request [OF assms])

definition latch_write_fails :: fake_nvs where
  "latch_write_fails = \<lparr>cells = [((''provisioning'', ''token''), 7)], failing = [True]\<rparr>"

lemma owner_reset_request_sticks_witness:
  "fake_stored (snd (resume (NvsStore fake_ops) fake_clears
     (fst (reset_request (NvsStore fake_ops) fake_clears boot_coordinator latch_write_fails))
     (snd (reset_request (NvsStore fake_ops) fake_clears boot_coordinator latch_write_fails))))
     (''provisioning'', ''token'') = None"
proof -
  let ?q = "reset_request (NvsStore fake_ops) fake_clears boot_coordinator latch_write_fails"
  let ?r = "resume (NvsStore fake_ops) fake_clears (fst ?q) (snd ?q)"
  have "networkAllowed (fst ?r)" by code_simp
  then have "fake_gone 0 (snd ?r)"
    using owner_reset_request_sticks [OF fake.nvs_reset_axioms, of boot_coordinator latch_write_fails
        "fst ?q" "snd ?q" "fst ?r" "snd ?r"] by (simp add: fake_clears_def)
  then show ?thesis by (simp add: fake_gone_def)
qed

end
