(* ===== verification/SignedOta.thy ===== *)
theory SignedOta
  imports Prelude
begin

section \<open>SignedOta: image delivery and boot health\<close>

text \<open>
  \<open>logger/firmware/src/SignedOta.cpp\<close> and \<open>SignedOta.h\<close>: the single-owner writer of an update
  image, and the supervision of the first boot of a new image. Both act on a
  \<open>SignedOtaBackend\<close>, here a record of operations on a backend state \<open>'b\<close>; sizes are \<open>nat\<close>, a
  data pointer is \<open>bytes option\<close> with its length.
\<close>

datatype Boot = BootValid | BootPending | BootUnknown

record 'b ota_backend =
  securePosture :: "'b \<Rightarrow> bool"
  bootState :: "'b \<Rightarrow> Boot"
  inactiveCapacity :: "'b \<Rightarrow> nat"
  beginInactive :: "nat \<Rightarrow> 'b \<Rightarrow> bool \<times> 'b"
  ota_write :: "bytes \<Rightarrow> 'b \<Rightarrow> bool \<times> 'b"
  finishAndVerify :: "'b \<Rightarrow> bool \<times> 'b"
  selectVerified :: "'b \<Rightarrow> bool \<times> 'b"
  ota_abort :: "'b \<Rightarrow> 'b"
  confirmHealthy :: "'b \<Rightarrow> bool \<times> 'b"
  rollbackPossible :: "'b \<Rightarrow> bool"
  rollback :: "'b \<Rightarrow> bool \<times> 'b"

definition legacyAllowed :: "bool \<Rightarrow> bool \<Rightarrow> bool" where
  "legacyAllowed productionRequired enabled \<longleftrightarrow> enabled \<and> \<not> productionRequired"

subsection \<open>SignedOta\<close>

datatype OtaState = OtaIdle | Receiving | ReadyToReboot | OtaFailed

record SignedOta =
  ota_state :: OtaState
  expected :: nat
  received :: nat
  ota_error :: string

definition fresh_ota :: SignedOta where
  "fresh_ota = \<lparr>ota_state = OtaIdle, expected = 0, received = 0, ota_error = []\<rparr>"

definition ota_fail :: "'b ota_backend \<Rightarrow> string \<Rightarrow> SignedOta \<Rightarrow> 'b \<Rightarrow> bool \<times> SignedOta \<times> 'b" where
  "ota_fail B err s b =
     (False, s\<lparr>ota_state := OtaFailed, ota_error := err\<rparr>, if ota_state s = Receiving then ota_abort B b else b)"

definition ota_begin :: "'b ota_backend \<Rightarrow> nat \<Rightarrow> SignedOta \<Rightarrow> 'b \<Rightarrow> bool \<times> SignedOta \<times> 'b" where
  "ota_begin B n s b =
     (if ota_state s = Receiving \<or> ota_state s = ReadyToReboot then (False, s, b)
      else if \<not> securePosture B b then ota_fail B ''secure production posture required'' s b
      else if bootState B b \<noteq> BootValid then ota_fail B ''running image is not confirmed'' s b
      else if n = 0 \<or> n > inactiveCapacity B b
      then ota_fail B ''image exceeds inactive slot capacity'' s b
      else case beginInactive B n b of
        (False, b') \<Rightarrow> ota_fail B ''inactive slot preparation failed'' s b'
      | (True, b') \<Rightarrow> (True, s\<lparr>expected := n, received := 0, ota_state := Receiving, ota_error := []\<rparr>, b'))"

definition ota_append :: "'b ota_backend \<Rightarrow> bytes option \<Rightarrow> SignedOta \<Rightarrow> 'b \<Rightarrow> bool \<times> SignedOta \<times> 'b" where
  "ota_append B data s b =
     (if ota_state s \<noteq> Receiving then (False, s, b)
      else case data of
        None \<Rightarrow> ota_fail B ''invalid image chunk or length'' s b
      | Some d \<Rightarrow>
          if d = [] \<or> length d > 4096 \<or> length d > expected s - received s
          then ota_fail B ''invalid image chunk or length'' s b
          else case ota_write B d b of
            (False, b') \<Rightarrow> ota_fail B ''inactive slot write failed'' s b'
          | (True, b') \<Rightarrow> (True, s\<lparr>received := received s + length d\<rparr>, b'))"

definition ota_finish :: "'b ota_backend \<Rightarrow> SignedOta \<Rightarrow> 'b \<Rightarrow> bool \<times> SignedOta \<times> 'b" where
  "ota_finish B s b =
     (if ota_state s \<noteq> Receiving then (False, s, b)
      else if received s \<noteq> expected s then ota_fail B ''incomplete image'' s b
      else if \<not> securePosture B b then ota_fail B ''security posture changed'' s b
      else case finishAndVerify B b of
        (False, b') \<Rightarrow> ota_fail B ''image signature or release policy rejected'' s b'
      | (True, b') \<Rightarrow>
          (case selectVerified B b' of
             (False, b'') \<Rightarrow> ota_fail B ''verified image selection failed'' s b''
           | (True, b'') \<Rightarrow> (True, s\<lparr>ota_state := ReadyToReboot\<rparr>, b'')))"

definition ota_cancel :: "'b ota_backend \<Rightarrow> SignedOta \<Rightarrow> 'b \<Rightarrow> SignedOta \<times> 'b" where
  "ota_cancel B s b =
     (if ota_state s = Receiving then snd (ota_fail B ''update cancelled; current slot preserved'' s b)
      else (s, b))"

datatype OtaOp = OtaBegin nat | OtaAppend "bytes option" | OtaFinish | OtaCancel

primrec ota_do :: "'b ota_backend \<Rightarrow> OtaOp \<Rightarrow> SignedOta \<times> 'b \<Rightarrow> SignedOta \<times> 'b" where
  "ota_do B (OtaBegin n) sb = snd (ota_begin B n (fst sb) (snd sb))"
| "ota_do B (OtaAppend d) sb = snd (ota_append B d (fst sb) (snd sb))"
| "ota_do B OtaFinish sb = snd (ota_finish B (fst sb) (snd sb))"
| "ota_do B OtaCancel sb = ota_cancel B (fst sb) (snd sb)"

definition ota_run :: "'b ota_backend \<Rightarrow> OtaOp list \<Rightarrow> SignedOta \<times> 'b \<Rightarrow> SignedOta \<times> 'b" where
  "ota_run B ops sb = fold (ota_do B) ops sb"

subsection \<open>The backend contract\<close>

text \<open>
  \<open>next_image b\<close> is what a reboot would run, \<open>slot b\<close> what has been written to the inactive slot
  since it was opened, \<open>accepted\<close> what the boot chain and the release policy let through. \<open>quiet\<close>
  is the state between updates, \<open>opened\<close> and \<open>verified\<close> the two stages of one.
\<close>

locale ota_contract =
  fixes B :: "'b ota_backend" and next_image :: "'b \<Rightarrow> bytes" and slot :: "'b \<Rightarrow> bytes"
    and accepted :: "bytes \<Rightarrow> bool"
    and quiet :: "'b \<Rightarrow> bool" and opened :: "'b \<Rightarrow> bool" and verified :: "'b \<Rightarrow> bool"
  assumes begin_law: "quiet b \<Longrightarrow> beginInactive B n b = (r, b') \<Longrightarrow>
      next_image b' = next_image b \<and> (if r then opened b' \<and> slot b' = [] else quiet b')"
    and write_law: "opened b \<Longrightarrow> ota_write B d b = (r, b') \<Longrightarrow>
      next_image b' = next_image b \<and> opened b' \<and> (r \<longrightarrow> slot b' = slot b @ d)"
    and verify_law: "opened b \<Longrightarrow> finishAndVerify B b = (r, b') \<Longrightarrow>
      next_image b' = next_image b \<and>
      (if r then verified b' \<and> slot b' = slot b \<and> accepted (slot b) else opened b' \<or> quiet b')"
    and select_law: "verified b \<Longrightarrow> selectVerified B b = (r, b') \<Longrightarrow>
      (if r then next_image b' = slot b else next_image b' = next_image b \<and> (verified b' \<or> quiet b'))"
    and abort_law: "opened b \<or> verified b \<or> quiet b \<Longrightarrow>
      next_image (ota_abort B b) = next_image b \<and> quiet (ota_abort B b)"
begin

text \<open>The invariant of the writer, with \<open>img\<close> the image that ran when it was created.\<close>

definition writer_inv :: "bytes \<Rightarrow> SignedOta \<times> 'b \<Rightarrow> bool" where
  "writer_inv img sb \<longleftrightarrow>
     (case ota_state (fst sb) of
        Receiving \<Rightarrow> opened (snd sb) \<and> length (slot (snd sb)) = received (fst sb) \<and>
          received (fst sb) \<le> expected (fst sb) \<and> next_image (snd sb) = img
      | ReadyToReboot \<Rightarrow> length (next_image (snd sb)) = expected (fst sb) \<and> accepted (next_image (snd sb))
      | _ \<Rightarrow> quiet (snd sb) \<and> next_image (snd sb) = img)"

lemma begin_inv:
  assumes "writer_inv img (s, b)" "ota_begin B n s b = (r, s', b')"
  shows "writer_inv img (s', b')"
    "r \<Longrightarrow> ota_state s' = Receiving \<and> slot b' = [] \<and> expected s' = n \<and> received s' = 0"
proof -
  obtain q c where g: "beginInactive B n b = (q, c)" by fastforce
  note L = begin_law [of b n q c]
  show "writer_inv img (s', b')"
    "r \<Longrightarrow> ota_state s' = Receiving \<and> slot b' = [] \<and> expected s' = n \<and> received s' = 0"
    using assms L g
    by (auto simp: ota_begin_def ota_fail_def writer_inv_def split: if_splits bool.splits OtaState.splits)
qed

lemma append_inv:
  assumes "writer_inv img (s, b)" "ota_append B d s b = (r, s', b')"
  shows "writer_inv img (s', b')"
    "r \<Longrightarrow> ota_state s' = Receiving \<and> slot b' = slot b @ the d \<and> expected s' = expected s"
proof -
  obtain q c where w: "ota_write B (the d) b = (q, c)" by fastforce
  note L = write_law [of b "the d" q c] abort_law [of b] abort_law [of c]
  show "writer_inv img (s', b')"
    "r \<Longrightarrow> ota_state s' = Receiving \<and> slot b' = slot b @ the d \<and> expected s' = expected s"
    using assms L w
    by (auto simp: ota_append_def ota_fail_def writer_inv_def
        split: if_splits bool.splits OtaState.splits option.splits)
qed

lemma finish_inv:
  assumes "writer_inv img (s, b)" "ota_finish B s b = (r, s', b')"
  shows "writer_inv img (s', b')"
    "r \<Longrightarrow> ota_state s' = ReadyToReboot \<and> next_image b' = slot b \<and> expected s' = expected s"
proof -
  obtain q c where f: "finishAndVerify B b = (q, c)" by fastforce
  obtain t e where g: "selectVerified B c = (t, e)" by fastforce
  note L = verify_law [of b q c] select_law [of c t e] abort_law [of b] abort_law [of c] abort_law [of e]
  show "writer_inv img (s', b')"
    "r \<Longrightarrow> ota_state s' = ReadyToReboot \<and> next_image b' = slot b \<and> expected s' = expected s"
    using assms L f g
    by (auto simp: ota_finish_def ota_fail_def writer_inv_def
        split: if_splits bool.splits OtaState.splits)
qed

lemma cancel_inv: "writer_inv img (s, b) \<Longrightarrow> writer_inv img (ota_cancel B s b)"
  using abort_law [of b] by (auto simp: ota_cancel_def ota_fail_def writer_inv_def split: OtaState.splits)

lemma do_inv: "writer_inv img sb \<Longrightarrow> writer_inv img (ota_do B op sb)"
proof (cases op)
  case (OtaBegin n)
  assume "writer_inv img sb"
  then show ?thesis
    using begin_inv(1) [of img "fst sb" "snd sb" n] OtaBegin
    by (cases "ota_begin B n (fst sb) (snd sb)") auto
next
  case (OtaAppend d)
  assume "writer_inv img sb"
  then show ?thesis
    using append_inv(1) [of img "fst sb" "snd sb" d] OtaAppend
    by (cases "ota_append B d (fst sb) (snd sb)") auto
next
  case OtaFinish
  assume "writer_inv img sb"
  then show ?thesis
    using finish_inv(1) [of img "fst sb" "snd sb"] OtaFinish
    by (cases "ota_finish B (fst sb) (snd sb)") auto
next
  case OtaCancel
  assume "writer_inv img sb"
  then show ?thesis using cancel_inv [of img "fst sb" "snd sb"] OtaCancel by simp
qed

lemma run_inv: "writer_inv img sb \<Longrightarrow> writer_inv img (ota_run B ops sb)"
  unfolding ota_run_def by (induction ops arbitrary: sb) (simp_all add: do_inv)

end

context ota_contract
begin

text \<open>A delivery that ends ready to reboot has put exactly its chunks into the slot.\<close>

lemma append_slot:
  assumes "writer_inv img sb" "ota_state (fst (ota_run B (map (OtaAppend \<circ> Some) cs) sb)) = Receiving"
  shows "slot (snd (ota_run B (map (OtaAppend \<circ> Some) cs) sb)) = slot (snd sb) @ concat cs"
  using assms
proof (induction cs arbitrary: sb)
  case Nil
  then show ?case by (simp add: ota_run_def)
next
  case (Cons c cs)
  obtain s b where sb: "sb = (s, b)" by fastforce
  obtain r s' b' where a: "ota_append B (Some c) s b = (r, s', b')" by (metis prod.collapse)
  have run: "ota_run B (map (OtaAppend \<circ> Some) (c # cs)) sb = ota_run B (map (OtaAppend \<circ> Some) cs) (s', b')"
    by (simp add: ota_run_def sb a)
  note I = append_inv [OF Cons.prems(1) [unfolded sb] a]
  have "r"
  proof (rule ccontr)
    assume "\<not> r"
    then have "ota_state s' \<noteq> Receiving"
      using a by (auto simp: ota_append_def ota_fail_def split: if_splits bool.splits prod.splits)
    then have "ota_run B (map (OtaAppend \<circ> Some) xs) (s', b') = (s', b')" for xs
      by (induction xs) (simp_all add: ota_run_def ota_append_def)
    with Cons.prems(2) \<open>ota_state s' \<noteq> Receiving\<close> show False by (simp only: run fst_conv)
  qed
  then show ?case using Cons.IH [OF I(1)] I(2) Cons.prems(2) by (simp only: run) (simp add: sb)
qed

lemma delivered_image:
  assumes "quiet b"
    "ota_run B (OtaBegin n # map (OtaAppend \<circ> Some) cs @ [OtaFinish]) (fresh_ota, b) = (s', b')"
    "ota_state s' = ReadyToReboot"
  shows "next_image b' = concat cs \<and> length (concat cs) = n \<and> accepted (concat cs)"
proof -
  have inv0: "writer_inv (next_image b) (fresh_ota, b)"
    using assms(1) by (simp add: writer_inv_def fresh_ota_def)
  obtain r1 s1 b1 where g: "ota_begin B n fresh_ota b = (r1, s1, b1)" by (metis prod.collapse)
  define t where "t = ota_run B (map (OtaAppend \<circ> Some) cs) (s1, b1)"
  have f: "snd (ota_finish B (fst t) (snd t)) = (s', b')"
    using assms(2) by (simp add: ota_run_def g t_def)
  note I1 = begin_inv [OF inv0 g]
  have inv: "writer_inv (next_image b) t" unfolding t_def by (rule run_inv) (rule I1(1))
  then have "writer_inv (next_image b) (fst t, snd t)" by simp
  obtain r2 where f2: "ota_finish B (fst t) (snd t) = (r2, s', b')" using f by (metis prod.collapse)
  note I2 = finish_inv [OF \<open>writer_inv (next_image b) (fst t, snd t)\<close> f2]
  have states: "ota_state (fst (ota_run B xs (u, c))) \<noteq> ReadyToReboot \<and>
      (ota_state u \<noteq> Receiving \<longrightarrow> ota_state (fst (ota_run B xs (u, c))) \<noteq> Receiving)"
    if "ota_state u \<noteq> ReadyToReboot" "xs = map (OtaAppend \<circ> Some) ds" for xs ds u c
    using that
  proof (induction ds arbitrary: xs u c)
    case (Cons d ds)
    have "ota_state (fst (snd (ota_append B (Some d) u c))) \<noteq> ReadyToReboot \<and>
        (ota_state u \<noteq> Receiving \<longrightarrow> ota_state (fst (snd (ota_append B (Some d) u c))) \<noteq> Receiving)"
      using Cons.prems(1) by (auto simp: ota_append_def ota_fail_def split: bool.splits prod.splits)
    then show ?case
      using Cons.IH [of "fst (snd (ota_append B (Some d) u c))" _ "snd (snd (ota_append B (Some d) u c))"]
        Cons.prems(2) by (auto simp: ota_run_def)
  qed (simp add: ota_run_def)
  have "ota_state s1 \<noteq> ReadyToReboot"
    using g by (auto simp: ota_begin_def ota_fail_def fresh_ota_def split: if_splits bool.splits prod.splits)
  then have no: "ota_state (fst t) \<noteq> ReadyToReboot" "ota_state s1 \<noteq> Receiving \<Longrightarrow> ota_state (fst t) \<noteq> Receiving"
    using states [of s1 _ cs b1] by (simp_all add: t_def)
  have r2: "r2"
  proof (rule ccontr)
    assume "\<not> r2"
    then show False using f2 assms(3) no(1)
      by (auto simp: ota_finish_def ota_fail_def split: if_splits bool.splits prod.splits)
  qed
  have rec: "ota_state (fst t) = Receiving" using r2 f2 by (auto simp: ota_finish_def split: if_splits)
  have "r1"
  proof (rule ccontr)
    assume "\<not> r1"
    then have "ota_state s1 \<noteq> Receiving"
      using g by (auto simp: ota_begin_def ota_fail_def fresh_ota_def split: if_splits bool.splits prod.splits)
    with no(2) rec show False by blast
  qed
  have "slot (snd t) = concat cs"
    using append_slot [OF I1(1), of cs] rec I1(2) \<open>r1\<close> by (simp add: t_def)
  then have img: "next_image b' = concat cs" using I2(2) r2 by simp
  have exp: "expected (fst (ota_run B (map (OtaAppend \<circ> Some) ds) (u, c))) = expected u" for ds u c
  proof (induction ds arbitrary: u c)
    case (Cons d ds)
    have "expected (fst (snd (ota_append B (Some d) u c))) = expected u"
      by (auto simp: ota_append_def ota_fail_def split: bool.splits prod.splits)
    then show ?case
      using Cons.IH [of "fst (snd (ota_append B (Some d) u c))" "snd (snd (ota_append B (Some d) u c))"]
      by (simp add: ota_run_def)
  qed (simp add: ota_run_def)
  have "expected s' = n" using I2(2) r2 I1(2) \<open>r1\<close> by (simp add: t_def exp)
  then show ?thesis using I2(1) assms(3) img by (simp add: writer_inv_def)
qed

end

subsection \<open>OtaBootHealth\<close>

datatype HealthState = Inactive | HealthPending | Confirmed | RolledBack | RecoveryRequired

record OtaBootHealth =
  health_state :: HealthState
  startedMs :: u32
  healthySinceMs :: u32
  healthy :: bool

definition health_begin :: "'b ota_backend \<Rightarrow> u32 \<Rightarrow> bool \<Rightarrow> OtaBootHealth \<Rightarrow> 'b \<Rightarrow> OtaBootHealth" where
  "health_begin B nowMs productionRequired h b =
     (let h = h\<lparr>startedMs := nowMs, healthy := False, health_state := Inactive\<rparr> in
      if \<not> productionRequired then h
      else case bootState B b of
        BootPending \<Rightarrow> h\<lparr>health_state := HealthPending\<rparr>
      | BootUnknown \<Rightarrow> h\<lparr>health_state := RecoveryRequired\<rparr>
      | BootValid \<Rightarrow> h)"

definition try_rollback :: "'b ota_backend \<Rightarrow> OtaBootHealth \<Rightarrow> 'b \<Rightarrow> OtaBootHealth \<times> 'b" where
  "try_rollback B h b =
     (if rollbackPossible B b
      then (case rollback B b of (r, b') \<Rightarrow>
              (h\<lparr>health_state := if r then RolledBack else RecoveryRequired\<rparr>, b'))
      else (h\<lparr>health_state := RecoveryRequired\<rparr>, b))"

definition health_poll ::
  "'b ota_backend \<Rightarrow> u32 \<Rightarrow> bool \<Rightarrow> bool \<Rightarrow> bool \<Rightarrow> OtaBootHealth \<Rightarrow> 'b \<Rightarrow> OtaBootHealth \<times> 'b" where
  "health_poll B nowMs sensorsReady queueReady authenticatedHeartbeat h b =
     (if health_state h \<noteq> HealthPending then (h, b)
      else if 120000 \<le> since nowMs (startedMs h) then try_rollback B h b
      else if \<not> securePosture B b \<or> \<not> sensorsReady \<or> \<not> queueReady \<or> \<not> authenticatedHeartbeat
      then (h\<lparr>healthy := False\<rparr>, b)
      else let h = (if \<not> healthy h then h\<lparr>healthy := True, healthySinceMs := nowMs\<rparr> else h) in
        if 10000 \<le> since nowMs (healthySinceMs h)
        then (case confirmHealthy B b of
                (True, b') \<Rightarrow> (h\<lparr>health_state := Confirmed\<rparr>, b')
              | (False, b') \<Rightarrow> try_rollback B h b')
        else (h, b))"

definition health_status :: "OtaBootHealth \<Rightarrow> string" where
  "health_status h = (case health_state h of
       HealthPending \<Rightarrow> ''pending-health'' | Confirmed \<Rightarrow> ''confirmed'' | RolledBack \<Rightarrow> ''rolled-back''
     | RecoveryRequired \<Rightarrow> ''recovery-required'' | Inactive \<Rightarrow> ''not-pending'')"

text \<open>
  One poll as the main loop makes it: the time, the three health inputs, and the backend as it
  finds it then (its posture may have changed since the last poll).
\<close>

record 'b poll =
  poll_ms :: u32
  poll_sensors :: bool
  poll_queue :: bool
  poll_heartbeat :: bool
  poll_backend :: 'b

definition poll_healthy :: "'b ota_backend \<Rightarrow> 'b poll \<Rightarrow> bool" where
  "poll_healthy B p \<longleftrightarrow>
     securePosture B (poll_backend p) \<and> poll_sensors p \<and> poll_queue p \<and> poll_heartbeat p"

definition do_poll :: "'b ota_backend \<Rightarrow> 'b poll \<Rightarrow> OtaBootHealth \<Rightarrow> OtaBootHealth" where
  "do_poll B p h = fst (health_poll B (poll_ms p) (poll_sensors p) (poll_queue p) (poll_heartbeat p) h
     (poll_backend p))"

definition run_polls :: "'b ota_backend \<Rightarrow> 'b poll list \<Rightarrow> OtaBootHealth \<Rightarrow> OtaBootHealth" where
  "run_polls B ps h = fold (do_poll B) ps h"

text \<open>
  A stretch of polls that supports confirmation: it ends with the last poll, all of it is
  healthy and inside the deadline, and it spans ten seconds.
\<close>

definition healthy_stretch :: "'b ota_backend \<Rightarrow> u32 \<Rightarrow> 'b poll list \<Rightarrow> bool" where
  "healthy_stretch B t0 qs \<longleftrightarrow> qs \<noteq> [] \<and> (\<forall>q \<in> set qs. poll_healthy B q) \<and>
     10000 \<le> since (poll_ms (last qs)) (poll_ms (hd qs)) \<and> since (poll_ms (last qs)) t0 < 120000"

lemma try_rollback_state [simp]:
  "health_state (fst (try_rollback B h b)) \<noteq> HealthPending"
  "health_state (fst (try_rollback B h b)) \<noteq> Confirmed"
  "health_state (fst (try_rollback B h b)) \<noteq> Inactive"
  by (auto simp: try_rollback_def split: prod.splits)

text \<open>The outcomes of one poll of a pending supervisor.\<close>

lemma do_poll_pending:
  assumes "health_state h = HealthPending"
  shows "do_poll B p h =
    (if 120000 \<le> since (poll_ms p) (startedMs h) then fst (try_rollback B h (poll_backend p))
     else if \<not> poll_healthy B p then h\<lparr>healthy := False\<rparr>
     else let h = (if \<not> healthy h then h\<lparr>healthy := True, healthySinceMs := poll_ms p\<rparr> else h) in
       if 10000 \<le> since (poll_ms p) (healthySinceMs h)
       then (if fst (confirmHealthy B (poll_backend p)) then h\<lparr>health_state := Confirmed\<rparr>
             else fst (try_rollback B h (snd (confirmHealthy B (poll_backend p)))))
       else h)"
  using assms by (simp add: do_poll_def health_poll_def poll_healthy_def Let_def
      split: bool.splits prod.splits)

lemma poll_cases:
  assumes "health_state h = HealthPending"
  shows "health_state (do_poll B p h) = HealthPending \<Longrightarrow>
      startedMs (do_poll B p h) = startedMs h \<and>
      (healthy (do_poll B p h) \<longrightarrow> poll_healthy B p \<and>
        healthySinceMs (do_poll B p h) = (if healthy h then healthySinceMs h else poll_ms p))"
    and "health_state (do_poll B p h) = Confirmed \<Longrightarrow>
      poll_healthy B p \<and> since (poll_ms p) (startedMs h) < 120000 \<and>
      10000 \<le> since (poll_ms p) (if healthy h then healthySinceMs h else poll_ms p)"
  using assms by (auto simp: do_poll_pending Let_def split: if_splits)

text \<open>What a pending supervisor remembers: the start of the current healthy stretch.\<close>

definition stretch_inv :: "'b ota_backend \<Rightarrow> u32 \<Rightarrow> 'b poll list \<Rightarrow> OtaBootHealth \<Rightarrow> bool" where
  "stretch_inv B t0 done h \<longleftrightarrow> startedMs h = t0 \<and>
     (healthy h \<longrightarrow> (\<exists>pre qs. done = pre @ qs \<and> qs \<noteq> [] \<and> (\<forall>q \<in> set qs. poll_healthy B q) \<and>
        healthySinceMs h = poll_ms (hd qs)))"

lemma poll_stretch:
  assumes "health_state h = HealthPending" "stretch_inv B t0 ds h"
    "health_state (do_poll B p h) = HealthPending"
  shows "stretch_inv B t0 (ds @ [p]) (do_poll B p h)"
proof -
  note C = poll_cases(1) [OF assms(1,3)]
  show ?thesis
  proof (cases "healthy h")
    case True
    then obtain pre qs where "ds = pre @ qs" "qs \<noteq> []" "\<forall>q \<in> set qs. poll_healthy B q"
      "healthySinceMs h = poll_ms (hd qs)" using assms(2) by (auto simp: stretch_inv_def)
    then have "healthy (do_poll B p h) \<Longrightarrow> ds @ [p] = pre @ (qs @ [p]) \<and> qs @ [p] \<noteq> [] \<and>
        (\<forall>q \<in> set (qs @ [p]). poll_healthy B q) \<and> healthySinceMs (do_poll B p h) = poll_ms (hd (qs @ [p]))"
      using C True by auto
    then show ?thesis using C assms(2) unfolding stretch_inv_def by metis
  next
    case False
    then have "healthy (do_poll B p h) \<Longrightarrow> ds @ [p] = ds @ [p] \<and> [p] \<noteq> [] \<and>
        (\<forall>q \<in> set [p]. poll_healthy B q) \<and> healthySinceMs (do_poll B p h) = poll_ms (hd [p])"
      using C by auto
    then show ?thesis using C assms(2) unfolding stretch_inv_def by metis
  qed
qed

lemma poll_confirmed:
  assumes "health_state h = HealthPending" "stretch_inv B t0 ds h"
    "health_state (do_poll B p h) = Confirmed"
  shows "\<exists>pre qs. ds @ [p] = pre @ qs \<and> healthy_stretch B t0 qs"
proof -
  note C = poll_cases(2) [OF assms(1,3)]
  have st: "startedMs h = t0" using assms(2) by (simp add: stretch_inv_def)
  show ?thesis
  proof (cases "healthy h")
    case True
    then obtain pre qs where "ds = pre @ qs" "qs \<noteq> []" "\<forall>q \<in> set qs. poll_healthy B q"
      "healthySinceMs h = poll_ms (hd qs)" using assms(2) by (auto simp: stretch_inv_def)
    then have "ds @ [p] = pre @ (qs @ [p]) \<and> healthy_stretch B t0 (qs @ [p])"
      using C st True by (auto simp: healthy_stretch_def)
    then show ?thesis by blast
  next
    case False
    then have "healthy_stretch B t0 [p]" using C st by (simp add: healthy_stretch_def)
    then show ?thesis by blast
  qed
qed

lemma do_poll_final: "health_state h \<noteq> HealthPending \<Longrightarrow> do_poll B p h = h"
  by (simp add: do_poll_def health_poll_def)

lemma run_polls_final: "health_state h \<noteq> HealthPending \<Longrightarrow> run_polls B ps h = h"
  unfolding run_polls_def by (induction ps) (simp_all add: do_poll_final)

lemma run_polls_confirmed:
  assumes "health_state h = HealthPending" "stretch_inv B t0 ds h"
    "health_state (run_polls B ps h) = Confirmed"
  shows "\<exists>pre qs suf. ds @ ps = pre @ qs @ suf \<and> healthy_stretch B t0 qs"
  using assms
proof (induction ps arbitrary: h ds)
  case Nil
  then show ?case by (simp add: run_polls_def)
next
  case (Cons p ps)
  have r: "run_polls B (p # ps) h = run_polls B ps (do_poll B p h)" by (simp add: run_polls_def)
  show ?case
  proof (cases "health_state (do_poll B p h) = HealthPending")
    case True
    then have "\<exists>pre qs suf. (ds @ [p]) @ ps = pre @ qs @ suf \<and> healthy_stretch B t0 qs"
      using Cons.prems poll_stretch [OF Cons.prems(1,2)] by (intro Cons.IH) (simp_all add: r)
    then show ?thesis by simp
  next
    case False
    then have "health_state (do_poll B p h) = Confirmed" using Cons.prems(3) by (simp add: r run_polls_final)
    from poll_confirmed [OF Cons.prems(1,2) this] obtain pre qs
      where "ds @ [p] = pre @ qs" "healthy_stretch B t0 qs" by blast
    then have "ds @ p # ps = pre @ qs @ ps" by (metis append.assoc append_Cons append_Nil)
    with \<open>healthy_stretch B t0 qs\<close> show ?thesis by blast
  qed
qed

subsection \<open>Properties\<close>

text \<open>
  C10: a new image is confirmed only after it has earned it. Whatever the polls report and whatever
  the backend does between them, the supervisor ends in Confirmed only if the boot was pending
  verification in a production build and some stretch of consecutive polls was healthy throughout
  (secure posture, sensors, queue, authenticated heartbeat), spanned at least ten seconds and
  ended before the two-minute deadline. Clock wrap-around is included.
\<close>

theorem health_confirmation_earned:
  assumes "health_state (run_polls B ps (health_begin B t0 productionRequired h b)) = Confirmed"
  shows "productionRequired \<and> bootState B b = BootPending \<and>
    (\<exists>pre qs suf. ps = pre @ qs @ suf \<and> healthy_stretch B t0 qs)"
proof -
  let ?h = "health_begin B t0 productionRequired h b"
  have pend: "health_state ?h = HealthPending"
  proof (rule ccontr)
    assume "health_state ?h \<noteq> HealthPending"
    then have "health_state ?h = Confirmed" using assms by (simp add: run_polls_final)
    then show False by (simp add: health_begin_def Let_def split: if_splits Boot.splits)
  qed
  then have "productionRequired \<and> bootState B b = BootPending"
    by (simp add: health_begin_def Let_def split: if_splits Boot.splits)
  moreover have "stretch_inv B t0 [] ?h"
    by (simp add: stretch_inv_def health_begin_def Let_def split: Boot.splits)
  ultimately show ?thesis using run_polls_confirmed [OF pend _ assms] by fastforce
qed

definition steady_backend :: "bool ota_backend" where
  "steady_backend = \<lparr>securePosture = (\<lambda>b. b), bootState = (\<lambda>b. BootPending), inactiveCapacity = (\<lambda>b. 0),
     beginInactive = (\<lambda>n b. (False, b)), ota_write = (\<lambda>d b. (False, b)), finishAndVerify = (\<lambda>b. (False, b)),
     selectVerified = (\<lambda>b. (False, b)), ota_abort = (\<lambda>b. b), confirmHealthy = (\<lambda>b. (True, b)),
     rollbackPossible = (\<lambda>b. True), rollback = (\<lambda>b. (True, b))\<rparr>"

definition steady_polls :: "bool poll list" where
  "steady_polls = map (\<lambda>t. \<lparr>poll_ms = t, poll_sensors = True, poll_queue = True, poll_heartbeat = True,
     poll_backend = True\<rparr>) [4294967000, 4704, 9704]"

definition any_health :: OtaBootHealth where
  "any_health = \<lparr>health_state = Inactive, startedMs = 0, healthySinceMs = 0, healthy = False\<rparr>"

lemma health_confirmation_earned_witness:
  "\<exists>pre qs suf. steady_polls = pre @ qs @ suf \<and> healthy_stretch steady_backend 4294966000 qs"
proof -
  have "health_state (run_polls steady_backend steady_polls
      (health_begin steady_backend 4294966000 True any_health True)) = Confirmed" by code_simp
  from health_confirmation_earned [OF this] show ?thesis by blast
qed

end
