(* ===== verification/SignedOtaEsp32.thy ===== *)
theory SignedOtaEsp32
  imports SignedOta
begin

section \<open>SignedOtaEsp32: the backend on the ESP32\<close>

text \<open>
  \<open>logger/firmware/src/SignedOtaEsp32.cpp\<close> implements \<open>SignedOtaBackend\<close> on the ESP-IDF calls,
  which are a parameter: a record of operations on the hardware state \<open>'h\<close>. \<open>buildSecure\<close> is the
  compile-time condition of \<open>securePosture\<close>. A partition pointer is the partition's descriptor,
  \<open>None\<close> for a null pointer (the table holds each descriptor once, so equal pointers are equal
  descriptors).
\<close>

record partition =
  p_address :: u32
  p_size :: nat
  p_type :: int
  p_subtype :: int
  p_encrypted :: bool

record app_desc =
  magic_word :: u32
  secure_version :: u32
  project_name :: bytes

datatype ImgState = ImgValid | ImgPendingVerify | ImgOther

record 'h esp_ops =
  buildSecure :: bool
  nvs_keys_partition :: "'h \<Rightarrow> partition option"
  queue_partition :: "'h \<Rightarrow> partition option"
  secure_boot_enabled :: "'h \<Rightarrow> bool"
  encryption_release :: "'h \<Rightarrow> bool"
  running_partition :: "'h \<Rightarrow> partition option"
  next_update_partition :: "'h \<Rightarrow> partition option"
  get_state_partition :: "partition \<Rightarrow> 'h \<Rightarrow> ImgState option"
  esp_begin :: "partition \<Rightarrow> nat \<Rightarrow> 'h \<Rightarrow> u32 option \<times> 'h"
  esp_write :: "u32 \<Rightarrow> bytes \<Rightarrow> 'h \<Rightarrow> bool \<times> 'h"
  esp_end :: "u32 \<Rightarrow> 'h \<Rightarrow> bool \<times> 'h"
  esp_abort :: "u32 \<Rightarrow> 'h \<Rightarrow> 'h"
  partition_description :: "partition option \<Rightarrow> 'h \<Rightarrow> app_desc option"
  set_boot_partition :: "partition \<Rightarrow> 'h \<Rightarrow> bool \<times> 'h"
  mark_valid :: "'h \<Rightarrow> bool \<times> 'h"
  rollback_is_possible :: "'h \<Rightarrow> bool"
  mark_invalid_rollback :: "'h \<Rightarrow> bool \<times> 'h"

record 'h esp32 =
  target :: "partition option"
  handle :: u32
  is_open :: bool
  is_verified :: bool
  hw :: 'h

definition esp_securePosture :: "'h esp_ops \<Rightarrow> 'h esp32 \<Rightarrow> bool" where
  "esp_securePosture E b \<longleftrightarrow> buildSecure E \<and>
     (case nvs_keys_partition E (hw b) of None \<Rightarrow> False
      | Some keys \<Rightarrow> p_encrypted keys \<and> p_size keys = 4096) \<and>
     (case queue_partition E (hw b) of None \<Rightarrow> False | Some queue \<Rightarrow> p_encrypted queue) \<and>
     secure_boot_enabled E (hw b) \<and> encryption_release E (hw b)"

definition esp_bootState :: "'h esp_ops \<Rightarrow> 'h esp32 \<Rightarrow> Boot" where
  "esp_bootState E b =
     (case running_partition E (hw b) of None \<Rightarrow> BootUnknown
      | Some running \<Rightarrow> (case get_state_partition E running (hw b) of
            None \<Rightarrow> BootUnknown
          | Some ImgValid \<Rightarrow> BootValid
          | Some ImgPendingVerify \<Rightarrow> BootPending
          | Some ImgOther \<Rightarrow> BootUnknown))"

definition inactive :: "'h esp_ops \<Rightarrow> 'h esp32 \<Rightarrow> partition option" where
  "inactive E b =
     (case (running_partition E (hw b), next_update_partition E (hw b)) of
        (Some running, Some nxt) \<Rightarrow>
          if p_address running = p_address nxt \<or> p_type nxt \<noteq> 0 \<or>
             (p_subtype nxt \<noteq> 16 \<and> p_subtype nxt \<noteq> 17) then None else Some nxt
      | _ \<Rightarrow> None)"

definition esp_inactiveCapacity :: "'h esp_ops \<Rightarrow> 'h esp32 \<Rightarrow> nat" where
  "esp_inactiveCapacity E b = (case inactive E b of None \<Rightarrow> 0 | Some nxt \<Rightarrow> p_size nxt)"

definition esp_beginInactive :: "'h esp_ops \<Rightarrow> nat \<Rightarrow> 'h esp32 \<Rightarrow> bool \<times> 'h esp32" where
  "esp_beginInactive E n b =
     (if is_open b \<or> \<not> esp_securePosture E b \<or> esp_bootState E b \<noteq> BootValid then (False, b)
      else let b = b\<lparr>target := inactive E b, is_verified := False\<rparr> in
        case target b of
          None \<Rightarrow> (False, b)
        | Some t \<Rightarrow>
            if n = 0 \<or> n > p_size t then (False, b)
            else case esp_begin E t n (hw b) of
              (None, h) \<Rightarrow> (False, b\<lparr>hw := h, is_open := False\<rparr>)
            | (Some tok, h) \<Rightarrow> (True, b\<lparr>hw := h, handle := tok, is_open := True\<rparr>))"

definition esp_ota_write :: "'h esp_ops \<Rightarrow> bytes \<Rightarrow> 'h esp32 \<Rightarrow> bool \<times> 'h esp32" where
  "esp_ota_write E d b =
     (if \<not> is_open b then (False, b)
      else case esp_write E (handle b) d (hw b) of (ok, h) \<Rightarrow> (ok, b\<lparr>hw := h\<rparr>))"

definition esp_finishAndVerify :: "'h esp_ops \<Rightarrow> 'h esp32 \<Rightarrow> bool \<times> 'h esp32" where
  "esp_finishAndVerify E b =
     (if \<not> is_open b \<or> \<not> esp_securePosture E b then (False, b)
      else let b = b\<lparr>is_open := False\<rparr> in
        case esp_end E (handle b) (hw b) of
          (False, h) \<Rightarrow> (False, b\<lparr>hw := h\<rparr>)
        | (True, h) \<Rightarrow>
            let b = b\<lparr>hw := h\<rparr> in
            (case (partition_description E (target b) h,
                   partition_description E (running_partition E h) h) of
               (Some candidate, Some running) \<Rightarrow>
                 let v = magic_word candidate = 0xABCD5432 \<and>
                         secure_version candidate = secure_version running \<and>
                         project_name candidate = project_name running
                 in (v, b\<lparr>is_verified := v\<rparr>)
             | _ \<Rightarrow> (False, b)))"

definition esp_selectVerified :: "'h esp_ops \<Rightarrow> 'h esp32 \<Rightarrow> bool \<times> 'h esp32" where
  "esp_selectVerified E b =
     (if \<not> is_verified b \<or> \<not> esp_securePosture E b \<or> esp_bootState E b \<noteq> BootValid \<or>
         target b \<noteq> inactive E b then (False, b)
      else let b = b\<lparr>is_verified := False\<rparr> in
        case target b of
          None \<Rightarrow> (False, b)
        | Some t \<Rightarrow> (case set_boot_partition E t (hw b) of (ok, h) \<Rightarrow> (ok, b\<lparr>hw := h\<rparr>)))"

definition esp_ota_abort :: "'h esp_ops \<Rightarrow> 'h esp32 \<Rightarrow> 'h esp32" where
  "esp_ota_abort E b =
     b\<lparr>hw := (if is_open b then esp_abort E (handle b) (hw b) else hw b), is_open := False,
       is_verified := False\<rparr>"

definition esp_confirmHealthy :: "'h esp_ops \<Rightarrow> 'h esp32 \<Rightarrow> bool \<times> 'h esp32" where
  "esp_confirmHealthy E b =
     (if esp_securePosture E b \<and> esp_bootState E b = BootPending
      then (case mark_valid E (hw b) of (ok, h) \<Rightarrow> (ok, b\<lparr>hw := h\<rparr>)) else (False, b))"

definition esp_rollback :: "'h esp_ops \<Rightarrow> 'h esp32 \<Rightarrow> bool \<times> 'h esp32" where
  "esp_rollback E b = (case mark_invalid_rollback E (hw b) of (ok, h) \<Rightarrow> (ok, b\<lparr>hw := h\<rparr>))"

definition SignedOtaEsp32 :: "'h esp_ops \<Rightarrow> 'h esp32 ota_backend" where
  "SignedOtaEsp32 E = \<lparr>securePosture = esp_securePosture E, bootState = esp_bootState E,
     inactiveCapacity = esp_inactiveCapacity E, beginInactive = esp_beginInactive E,
     ota_write = esp_ota_write E, finishAndVerify = esp_finishAndVerify E,
     selectVerified = esp_selectVerified E, ota_abort = esp_ota_abort E,
     confirmHealthy = esp_confirmHealthy E, rollbackPossible = (\<lambda>b. rollback_is_possible E (hw b)),
     rollback = esp_rollback E\<rparr>"

subsection \<open>What the ESP-IDF documents\<close>

text \<open>
  \<open>content h a\<close> is what the partition at address \<open>a\<close> holds, \<open>boot h\<close> the address the next boot
  starts from, \<open>session h k\<close> the partition the update handle \<open>k\<close> was opened for, \<open>sigok\<close> the
  signature check of the secure build and \<open>desc\<close> the descriptor inside an image. The release
  policy compares a candidate with the running image.
\<close>

definition release_ok :: "(bytes \<Rightarrow> bool) \<Rightarrow> (bytes \<Rightarrow> app_desc option) \<Rightarrow> bytes \<Rightarrow> bytes \<Rightarrow> bool" where
  "release_ok sigok desc running img \<longleftrightarrow> sigok img \<and>
     (case (desc img, desc running) of
        (Some c, Some r) \<Rightarrow> magic_word c = 0xABCD5432 \<and> secure_version c = secure_version r \<and>
          project_name c = project_name r
      | _ \<Rightarrow> False)"

locale esp_api =
  fixes E :: "'h esp_ops" and content :: "'h \<Rightarrow> u32 \<Rightarrow> bytes" and boot :: "'h \<Rightarrow> u32"
    and session :: "'h \<Rightarrow> u32 \<Rightarrow> u32 option" and sigok :: "bytes \<Rightarrow> bool"
    and desc :: "bytes \<Rightarrow> app_desc option"
  assumes begin_api: "esp_begin E t n h = (k, h') \<Longrightarrow>
      boot h' = boot h \<and> running_partition E h' = running_partition E h \<and>
      (\<forall>a. a \<noteq> p_address t \<longrightarrow> content h' a = content h a) \<and>
      (\<forall>tok. k = Some tok \<longrightarrow> content h' (p_address t) = [] \<and> session h' tok = Some (p_address t))"
    and write_api: "session h tok = Some a \<Longrightarrow> esp_write E tok d h = (ok, h') \<Longrightarrow>
      boot h' = boot h \<and> running_partition E h' = running_partition E h \<and> session h' tok = Some a \<and>
      (\<forall>x. x \<noteq> a \<longrightarrow> content h' x = content h x) \<and> (ok \<longrightarrow> content h' a = content h a @ d)"
    and end_api: "session h tok = Some a \<Longrightarrow> esp_end E tok h = (ok, h') \<Longrightarrow>
      boot h' = boot h \<and> running_partition E h' = running_partition E h \<and> content h' = content h \<and>
      (ok \<longrightarrow> sigok (content h a))"
    and abort_api: "session h tok = Some a \<Longrightarrow>
      boot (esp_abort E tok h) = boot h \<and> running_partition E (esp_abort E tok h) = running_partition E h \<and>
      (\<forall>x. x \<noteq> a \<longrightarrow> content (esp_abort E tok h) x = content h x)"
    and desc_api: "partition_description E (Some t) h = desc (content h (p_address t))"
    and desc_null: "partition_description E None h = None"
    and set_boot_api: "set_boot_partition E t h = (ok, h') \<Longrightarrow>
      content h' = content h \<and> running_partition E h' = running_partition E h \<and>
      boot h' = (if ok then p_address t else boot h)"

definition esp_image :: "('h \<Rightarrow> u32 \<Rightarrow> bytes) \<Rightarrow> ('h \<Rightarrow> u32) \<Rightarrow> 'h esp32 \<Rightarrow> bytes" where
  "esp_image content boot b = content (hw b) (boot (hw b))"

definition esp_slot :: "('h \<Rightarrow> u32 \<Rightarrow> bytes) \<Rightarrow> 'h esp32 \<Rightarrow> bytes" where
  "esp_slot content b = (case target b of None \<Rightarrow> [] | Some t \<Rightarrow> content (hw b) (p_address t))"

text \<open>The device runs the image \<open>img\<close> from the partition it will boot again.\<close>

definition runs :: "'h esp_ops \<Rightarrow> ('h \<Rightarrow> u32 \<Rightarrow> bytes) \<Rightarrow> ('h \<Rightarrow> u32) \<Rightarrow> bytes \<Rightarrow> 'h \<Rightarrow> bool" where
  "runs E content boot img h \<longleftrightarrow>
     (case running_partition E h of None \<Rightarrow> False | Some r \<Rightarrow> boot h = p_address r) \<and> content h (boot h) = img"

definition esp_quiet :: "'h esp_ops \<Rightarrow> ('h \<Rightarrow> u32 \<Rightarrow> bytes) \<Rightarrow> ('h \<Rightarrow> u32) \<Rightarrow> bytes \<Rightarrow> 'h esp32 \<Rightarrow> bool" where
  "esp_quiet E content boot img b \<longleftrightarrow> \<not> is_open b \<and> runs E content boot img (hw b)"

definition esp_targeted :: "('h \<Rightarrow> u32) \<Rightarrow> 'h esp32 \<Rightarrow> bool" where
  "esp_targeted boot b \<longleftrightarrow> (case target b of None \<Rightarrow> False | Some t \<Rightarrow> p_address t \<noteq> boot (hw b))"

definition esp_opened ::
  "'h esp_ops \<Rightarrow> ('h \<Rightarrow> u32 \<Rightarrow> bytes) \<Rightarrow> ('h \<Rightarrow> u32) \<Rightarrow> ('h \<Rightarrow> u32 \<Rightarrow> u32 option) \<Rightarrow> bytes \<Rightarrow> 'h esp32 \<Rightarrow> bool"
  where
  "esp_opened E content boot session img b \<longleftrightarrow>
     is_open b \<and> runs E content boot img (hw b) \<and> esp_targeted boot b \<and>
     session (hw b) (handle b) = map_option p_address (target b)"

definition esp_verified ::
  "'h esp_ops \<Rightarrow> ('h \<Rightarrow> u32 \<Rightarrow> bytes) \<Rightarrow> ('h \<Rightarrow> u32) \<Rightarrow> bytes \<Rightarrow> 'h esp32 \<Rightarrow> bool" where
  "esp_verified E content boot img b \<longleftrightarrow>
     \<not> is_open b \<and> runs E content boot img (hw b) \<and> esp_targeted boot b"

lemma inactive_not_running:
  "inactive E b = Some t \<Longrightarrow> running_partition E (hw b) = Some r \<Longrightarrow> p_address t \<noteq> p_address r"
  by (auto simp: inactive_def split: option.splits if_splits)

context esp_api
begin

lemma begin_contract:
  assumes "esp_quiet E content boot img b" "esp_beginInactive E n b = (r, b')"
  shows "esp_image content boot b' = esp_image content boot b \<and>
    (if r then esp_opened E content boot session img b' \<and> esp_slot content b' = []
     else esp_quiet E content boot img b')"
proof -
  obtain rp where rp: "running_partition E (hw b) = Some rp" "boot (hw b) = p_address rp"
    "content (hw b) (boot (hw b)) = img" "\<not> is_open b"
    using assms(1) by (auto simp: esp_quiet_def runs_def split: option.splits)
  show ?thesis
  proof (cases "inactive E b")
    case None
    then show ?thesis using assms
      by (auto simp: esp_beginInactive_def esp_quiet_def esp_image_def runs_def
        split: if_splits option.splits)
  next
    case (Some t)
    have t: "p_address t \<noteq> boot (hw b)" using inactive_not_running [OF Some rp(1)] rp(2) by simp
    obtain k h where e: "esp_begin E t n (hw b) = (k, h)" by fastforce
    note A = begin_api [OF e]
    show ?thesis
      using assms(2) A rp t
      by (auto simp: esp_beginInactive_def Some e esp_quiet_def esp_opened_def esp_image_def esp_slot_def
          runs_def esp_targeted_def Let_def split: if_splits option.splits)
  qed
qed

lemma write_contract:
  assumes "esp_opened E content boot session img b" "esp_ota_write E d b = (r, b')"
  shows "esp_image content boot b' = esp_image content boot b \<and> esp_opened E content boot session img b' \<and>
    (r \<longrightarrow> esp_slot content b' = esp_slot content b @ d)"
proof -
  obtain t where t: "target b = Some t" "p_address t \<noteq> boot (hw b)"
    "session (hw b) (handle b) = Some (p_address t)" "is_open b"
    using assms(1) by (auto simp: esp_opened_def esp_targeted_def split: option.splits)
  obtain ok h where w: "esp_write E (handle b) d (hw b) = (ok, h)" by fastforce
  note A = write_api [OF t(3) w]
  have b': "r = ok" "b' = b\<lparr>hw := h\<rparr>" using assms(2) t(4) w by (simp_all add: esp_ota_write_def)
  show ?thesis
    using assms(1) A t unfolding b'
    by (auto simp: esp_opened_def esp_image_def esp_slot_def runs_def esp_targeted_def split: option.splits)
qed

lemma verify_contract:
  assumes "esp_opened E content boot session img b" "esp_finishAndVerify E b = (r, b')"
  shows "esp_image content boot b' = esp_image content boot b \<and>
    (if r then esp_verified E content boot img b' \<and> esp_slot content b' = esp_slot content b \<and>
               release_ok sigok desc img (esp_slot content b)
     else esp_opened E content boot session img b' \<or> esp_quiet E content boot img b')"
proof -
  obtain t where t: "target b = Some t" "p_address t \<noteq> boot (hw b)"
    "session (hw b) (handle b) = Some (p_address t)" "is_open b"
    using assms(1) by (auto simp: esp_opened_def esp_targeted_def split: option.splits)
  obtain rp where rp: "running_partition E (hw b) = Some rp" "boot (hw b) = p_address rp"
    "content (hw b) (p_address rp) = img"
    using assms(1) by (auto simp: esp_opened_def runs_def split: option.splits)
  obtain ok h where w: "esp_end E (handle b) (hw b) = (ok, h)" by fastforce
  note A = end_api [OF t(3) w]
  have D: "partition_description E (Some t) h = desc (content (hw b) (p_address t))"
    "partition_description E (running_partition E h) h = desc img"
    using A rp by (simp_all add: desc_api)
  show ?thesis
  proof (cases "esp_securePosture E b")
    case False
    then show ?thesis using assms by (simp add: esp_finishAndVerify_def)
  next
    case True
    show ?thesis
    proof (cases ok)
      case False
      then have "r = False" "b' = b\<lparr>is_open := False, hw := h\<rparr>"
        using assms(2) True t(4) w by (simp_all add: esp_finishAndVerify_def Let_def)
      then show ?thesis using A rp by (simp add: esp_quiet_def esp_image_def runs_def)
    next
      case ok: True
      define v where "v \<longleftrightarrow> (case (desc (content (hw b) (p_address t)), desc img) of
        (Some c, Some q) \<Rightarrow> magic_word c = 0xABCD5432 \<and> secure_version c = secure_version q \<and>
          project_name c = project_name q | _ \<Rightarrow> False)"
      have "r = v \<and> hw b' = h \<and> \<not> is_open b' \<and> target b' = Some t"
        using assms(2) t(1,4) ok True
        by (auto simp: esp_finishAndVerify_def Let_def w D v_def split: option.splits)
      moreover have "v \<Longrightarrow> release_ok sigok desc img (content (hw b) (p_address t))"
        using A ok by (simp add: release_ok_def v_def)
      ultimately show ?thesis
        using A rp t by (simp add: esp_verified_def esp_quiet_def esp_image_def esp_slot_def runs_def
            esp_targeted_def)
    qed
  qed
qed

lemma select_contract:
  assumes "esp_verified E content boot img b" "esp_selectVerified E b = (r, b')"
  shows "if r then esp_image content boot b' = esp_slot content b
    else esp_image content boot b' = esp_image content boot b \<and>
      (esp_verified E content boot img b' \<or> esp_quiet E content boot img b')"
proof -
  obtain t where t: "target b = Some t" "p_address t \<noteq> boot (hw b)"
    using assms(1) by (auto simp: esp_verified_def esp_targeted_def split: option.splits)
  obtain ok h where w: "set_boot_partition E t (hw b) = (ok, h)" by fastforce
  note A = set_boot_api [OF w]
  show ?thesis
    using assms A t
    by (auto simp: esp_selectVerified_def Let_def w esp_verified_def esp_quiet_def esp_image_def
        esp_slot_def runs_def split: if_splits option.splits)
qed

lemma abort_contract:
  assumes "esp_opened E content boot session img b \<or> esp_verified E content boot img b \<or>
    esp_quiet E content boot img b"
  shows "esp_image content boot (esp_ota_abort E b) = esp_image content boot b \<and>
    esp_quiet E content boot img (esp_ota_abort E b)"
proof (cases "is_open b")
  case False
  then show ?thesis
    using assms by (auto simp: esp_ota_abort_def esp_opened_def esp_verified_def esp_quiet_def esp_image_def)
next
  case True
  then have o: "esp_opened E content boot session img b"
    using assms by (auto simp: esp_verified_def esp_quiet_def)
  then obtain t where t: "p_address t \<noteq> boot (hw b)" "session (hw b) (handle b) = Some (p_address t)"
    "target b = Some t"
    by (auto simp: esp_opened_def esp_targeted_def split: option.splits)
  note A = abort_api [OF t(2)]
  show ?thesis
    using o A t True
    by (auto simp: esp_ota_abort_def esp_opened_def esp_quiet_def esp_image_def runs_def split: option.splits)
qed

end

sublocale esp_api \<subseteq> ota: ota_contract "SignedOtaEsp32 E" "esp_image content boot" "esp_slot content"
  "release_ok sigok desc img" "esp_quiet E content boot img" "esp_opened E content boot session img"
  "esp_verified E content boot img" for img
proof (unfold_locales, goal_cases)
  case 1 then show ?case using begin_contract by (simp add: SignedOtaEsp32_def)
next
  case 2 then show ?case using write_contract by (simp add: SignedOtaEsp32_def)
next
  case 3 then show ?case using verify_contract by (simp add: SignedOtaEsp32_def)
next
  case 4 then show ?case using select_contract by (simp add: SignedOtaEsp32_def)
next
  case 5 then show ?case using abort_contract by (simp add: SignedOtaEsp32_def)
qed

context esp_api
begin

lemma update_safe:
  assumes "esp_quiet E content boot img b" "ota_run (SignedOtaEsp32 E) ops (fresh_ota, b) = (s', b')"
  shows "if ota_state s' = ReadyToReboot
    then length (esp_image content boot b') = expected s' \<and>
         release_ok sigok desc img (esp_image content boot b')
    else esp_image content boot b' = img"
proof -
  have "esp_image content boot b = img"
    using assms(1) by (simp add: esp_quiet_def esp_image_def runs_def)
  then have "ota.writer_inv img img (fresh_ota, b)"
    using assms(1) by (simp add: ota.writer_inv_def fresh_ota_def)
  from ota.run_inv [OF this, of ops] show ?thesis
    by (simp add: assms(2) ota.writer_inv_def split: OtaState.splits)
qed

lemma update_delivers:
  assumes "esp_quiet E content boot img b"
    "ota_run (SignedOtaEsp32 E) (OtaBegin n # map (OtaAppend \<circ> Some) cs @ [OtaFinish]) (fresh_ota, b) = (s', b')"
    "ota_state s' = ReadyToReboot"
  shows "esp_image content boot b' = concat cs \<and> length (concat cs) = n \<and>
    release_ok sigok desc img (concat cs)"
  by (rule ota.delivered_image [OF assms])

end

subsection \<open>A concrete device\<close>

text \<open>Two slots, one update session, a signature byte and a descriptor byte.\<close>

record fake_hw =
  fw_slots :: "u32 \<Rightarrow> bytes"
  fw_boot :: u32
  fw_session :: "u32 option"

definition slot_a :: partition where
  "slot_a = \<lparr>p_address = 0x10000, p_size = 16, p_type = 0, p_subtype = 16, p_encrypted = True\<rparr>"
definition slot_b :: partition where
  "slot_b = \<lparr>p_address = 0x210000, p_size = 16, p_type = 0, p_subtype = 17, p_encrypted = True\<rparr>"
definition keys_part :: partition where
  "keys_part = \<lparr>p_address = 0xD000, p_size = 4096, p_type = 1, p_subtype = 4, p_encrypted = True\<rparr>"
definition queue_part :: partition where
  "queue_part = \<lparr>p_address = 0x410000, p_size = 16, p_type = 1, p_subtype = 0x82, p_encrypted = True\<rparr>"

definition fake_sigok :: "bytes \<Rightarrow> bool" where
  "fake_sigok img \<longleftrightarrow> img \<noteq> [] \<and> last img = 0x5A"

definition fake_desc :: "bytes \<Rightarrow> app_desc option" where
  "fake_desc img = (case img of [] \<Rightarrow> None
     | v # _ \<Rightarrow> Some \<lparr>magic_word = 0xABCD5432, secure_version = ucast v, project_name = [1, 2]\<rparr>)"

definition fake_esp :: "fake_hw esp_ops" where
  "fake_esp = \<lparr>buildSecure = True, nvs_keys_partition = (\<lambda>h. Some keys_part),
     queue_partition = (\<lambda>h. Some queue_part), secure_boot_enabled = (\<lambda>h. True),
     encryption_release = (\<lambda>h. True), running_partition = (\<lambda>h. Some slot_a),
     next_update_partition = (\<lambda>h. Some slot_b), get_state_partition = (\<lambda>t h. Some ImgValid),
     esp_begin = (\<lambda>t n h. if p_address t = 0x10000 then (None, h)
       else (Some 1, h\<lparr>fw_slots := (fw_slots h)(p_address t := []), fw_session := Some (p_address t)\<rparr>)),
     esp_write = (\<lambda>k d h. case fw_session h of None \<Rightarrow> (False, h)
       | Some a \<Rightarrow> (True, h\<lparr>fw_slots := (fw_slots h)(a := fw_slots h a @ d)\<rparr>)),
     esp_end = (\<lambda>k h. (case fw_session h of None \<Rightarrow> False | Some a \<Rightarrow> fake_sigok (fw_slots h a),
       h\<lparr>fw_session := None\<rparr>)),
     esp_abort = (\<lambda>k h. h\<lparr>fw_session := None\<rparr>),
     partition_description = (\<lambda>t h. case t of None \<Rightarrow> None | Some t \<Rightarrow> fake_desc (fw_slots h (p_address t))),
     set_boot_partition = (\<lambda>t h. (True, h\<lparr>fw_boot := p_address t\<rparr>)),
     mark_valid = (\<lambda>h. (True, h)), rollback_is_possible = (\<lambda>h. True),
     mark_invalid_rollback = (\<lambda>h. (True, h))\<rparr>"

interpretation fake_device: esp_api fake_esp fw_slots fw_boot "\<lambda>h k. fw_session h" fake_sigok fake_desc
  by unfold_locales (auto simp: fake_esp_def split: if_splits option.splits)

definition device :: "fake_hw esp32" where
  "device = \<lparr>target = None, handle = 0, is_open = False, is_verified = False,
     hw = \<lparr>fw_slots = (\<lambda>a. [])(0x10000 := [3, 9, 0x5A]), fw_boot = 0x10000, fw_session = None\<rparr>\<rparr>"

lemma device_quiet: "esp_quiet fake_esp fw_slots fw_boot [3, 9, 0x5A] device"
  by (simp add: esp_quiet_def runs_def device_def fake_esp_def slot_a_def)

subsection \<open>Properties\<close>

text \<open>
  C8: no sequence of begin, append, finish and cancel, however it fails, changes what the device
  boots next unless it ends ready to reboot; then the boot partition holds an image of exactly
  the announced length that passed the signature check and carries the running image's project
  and security version. The image of the running partition is intact throughout.
\<close>

theorem ota_boot_image_safe:
  assumes "esp_api E content boot session sigok desc"
    and "esp_quiet E content boot img b"
    and "ota_run (SignedOtaEsp32 E) ops (fresh_ota, b) = (s', b')"
  shows "if ota_state s' = ReadyToReboot
    then length (content (hw b') (boot (hw b'))) = expected s' \<and>
         release_ok sigok desc img (content (hw b') (boot (hw b')))
    else content (hw b') (boot (hw b')) = img"
  using esp_api.update_safe [OF assms] by (simp only: esp_image_def)

lemma ota_boot_image_safe_witness:
  "fw_slots (hw (snd (ota_run (SignedOtaEsp32 fake_esp) [OtaBegin 4, OtaAppend (Some [4, 7]), OtaFinish]
     (fresh_ota, device)))) 0x10000 = [3, 9, 0x5A]"
proof -
  let ?r = "ota_run (SignedOtaEsp32 fake_esp) [OtaBegin 4, OtaAppend (Some [4, 7]), OtaFinish]
     (fresh_ota, device)"
  have "ota_state (fst ?r) = OtaFailed" "fw_boot (hw (snd ?r)) = 0x10000" by code_simp+
  then show ?thesis
    using ota_boot_image_safe [OF fake_device.esp_api_axioms device_quiet,
        of "[OtaBegin 4, OtaAppend (Some [4, 7]), OtaFinish]" "fst ?r" "snd ?r"] by simp
qed

text \<open>
  C9: a delivery that succeeds installs the bytes that were sent: after begin, the appends of the
  chunks in order and finish, a writer that is ready to reboot has left their concatenation in
  the partition the device boots next, with the announced length.
\<close>

theorem ota_delivers_chunks:
  assumes "esp_api E content boot session sigok desc"
    and "esp_quiet E content boot img b"
    and "ota_run (SignedOtaEsp32 E) (OtaBegin n # map (OtaAppend \<circ> Some) cs @ [OtaFinish]) (fresh_ota, b)
      = (s', b')"
    and "ota_state s' = ReadyToReboot"
  shows "content (hw b') (boot (hw b')) = concat cs \<and> length (concat cs) = n"
  using esp_api.update_delivers [OF assms] by (simp add: esp_image_def)

lemma ota_delivers_chunks_witness:
  "fw_slots (hw (snd (ota_run (SignedOtaEsp32 fake_esp)
     (OtaBegin 4 # map (OtaAppend \<circ> Some) [[3, 7], [8, 0x5A]] @ [OtaFinish]) (fresh_ota, device)))) 0x210000
   = [3, 7, 8, 0x5A]"
proof -
  let ?ops = "OtaBegin 4 # map (OtaAppend \<circ> Some) [[3, 7], [8, 0x5A]] @ [OtaFinish]"
  let ?r = "ota_run (SignedOtaEsp32 fake_esp) ?ops (fresh_ota, device)"
  have "ota_state (fst ?r) = ReadyToReboot" "fw_boot (hw (snd ?r)) = 0x210000" by code_simp+
  then show ?thesis
    using ota_delivers_chunks [OF fake_device.esp_api_axioms device_quiet, of 4 "[[3, 7], [8, 0x5A]]"
        "fst ?r" "snd ?r"] by simp
qed

end
