(* ===== verification/SystemEvents.thy ===== *)
theory SystemEvents
  imports Prelude
begin

section \<open>SystemEvents.h: event records, their frames and their queue\<close>

text \<open>
  \<open>shared/protocols/SystemEvents.h\<close>: an event travels over BLE as four frames of 20 bytes and is
  put together again by \<open>Receiver\<close>; both ends keep events in the ring buffer \<open>Queue<N>\<close>. Byte
  arrays are byte lists of the array's length; the 32 bytes of \<open>code\<close> are kept raw in an event.
\<close>

subsection \<open>Events and frames\<close>

record Event =
  ev_boot :: u32
  ev_seq :: u32
  ev_ms :: u32
  ev_value :: u32
  ev_severity :: byte
  ev_code :: bytes
  ev_durationMs :: u32
  ev_httpStatus :: u16
  ev_method :: byte
  ev_version :: byte

definition empty_event :: Event where
  "empty_event = \<lparr>ev_boot = 0, ev_seq = 0, ev_ms = 0, ev_value = 0, ev_severity = 1,
     ev_code = replicate 32 0, ev_durationMs = 0, ev_httpStatus = 0, ev_method = 0, ev_version = 1\<rparr>"

definition event_bytes :: "Event \<Rightarrow> bytes" where
  "event_bytes e = [ev_version e, ev_severity e, ev_method e, 0] @ put32 (ev_boot e) @ put32 (ev_seq e) @
     put32 (ev_ms e) @ put32 (ev_value e) @ put32 (ev_durationMs e) @ put16 (ev_httpStatus e) @
     ev_code e @ [0, 0]"

definition frame :: "Event \<Rightarrow> nat \<Rightarrow> bytes" where
  "frame e part =
     [0xe1, of_nat part, ucast (ev_seq e)] @
     (if part < 4
      then let chunk = take 17 (drop (part * 17) (event_bytes e)) in chunk @ replicate (17 - length chunk) 0
      else replicate 17 0)"

definition parse_event :: "bytes \<Rightarrow> Event" where
  "parse_event bs = \<lparr>ev_boot = get32 (drop 4 bs), ev_seq = get32 (drop 8 bs), ev_ms = get32 (drop 12 bs),
     ev_value = get32 (drop 16 bs), ev_severity = bs ! 1, ev_code = take 32 (drop 26 bs),
     ev_durationMs = get32 (drop 20 bs), ev_httpStatus = get16 (drop 24 bs), ev_method = bs ! 2,
     ev_version = bs ! 0\<rparr>"

record Receiver =
  rx_bytes :: bytes
  rx_next :: nat
  rx_sequence :: byte

definition fresh_receiver :: Receiver where
  "fresh_receiver = \<lparr>rx_bytes = replicate 60 0, rx_next = 0, rx_sequence = 0\<rparr>"

definition store_part :: "nat \<Rightarrow> bytes \<Rightarrow> bytes \<Rightarrow> bytes" where
  "store_part k d bs =
     (let offset = k * 17; len = min 17 (60 - offset)
      in take offset bs @ take len (drop 3 d) @ drop (offset + len) bs)"

text \<open>
  \<open>accept\<close> returns its verdict and, when the fourth part arrived, the event it wrote to its
  out-parameter.
\<close>

definition rx_accept :: "bytes \<Rightarrow> Receiver \<Rightarrow> (bool \<times> Event option) \<times> Receiver" where
  "rx_accept d r =
     (if length d \<noteq> 20 \<or> d ! 0 \<noteq> 0xe1 \<or> 3 < d ! 1 then ((False, None), r\<lparr>rx_next := 0\<rparr>)
      else let r = (if d ! 1 = 0 then r\<lparr>rx_next := 0, rx_sequence := d ! 2\<rparr> else r) in
        if unat (d ! 1) \<noteq> rx_next r \<or> d ! 2 \<noteq> rx_sequence r then ((False, None), r\<lparr>rx_next := 0\<rparr>)
        else let r = r\<lparr>rx_bytes := store_part (rx_next r) d (rx_bytes r), rx_next := rx_next r + 1\<rparr> in
          if rx_next r \<noteq> 4 then ((False, None), r)
          else let r = r\<lparr>rx_next := 0\<rparr>; e = parse_event (rx_bytes r)
               in ((ev_version e = 1 \<and> ucast (ev_seq e) = rx_sequence r, Some e), r))"

fun rx_run :: "bytes list \<Rightarrow> Receiver \<Rightarrow> (bool \<times> Event option) list \<times> Receiver" where
  "rx_run [] r = ([], r)"
| "rx_run (d # ds) r =
     (case rx_accept d r of (v, r') \<Rightarrow> (case rx_run ds r' of (vs, r'') \<Rightarrow> (v # vs, r'')))"

lemma length_event_bytes: "length (ev_code e) = 32 \<Longrightarrow> length (event_bytes e) = 60"
  by (simp add: event_bytes_def)

lemma parse_event_bytes:
  assumes "length (ev_code e) = 32"
  shows "parse_event (event_bytes e) = e"
proof -
  have d: "drop (Suc n) (x # xs) = drop n xs" for n x and xs :: bytes by simp
  have "drop 4 (event_bytes e) = put32 (ev_boot e) @ put32 (ev_seq e) @ put32 (ev_ms e) @ put32 (ev_value e) @
      put32 (ev_durationMs e) @ put16 (ev_httpStatus e) @ ev_code e @ [0, 0]"
    "drop 8 (event_bytes e) = put32 (ev_seq e) @ put32 (ev_ms e) @ put32 (ev_value e) @
      put32 (ev_durationMs e) @ put16 (ev_httpStatus e) @ ev_code e @ [0, 0]"
    "drop 12 (event_bytes e) = put32 (ev_ms e) @ put32 (ev_value e) @
      put32 (ev_durationMs e) @ put16 (ev_httpStatus e) @ ev_code e @ [0, 0]"
    "drop 16 (event_bytes e) = put32 (ev_value e) @ put32 (ev_durationMs e) @ put16 (ev_httpStatus e) @
      ev_code e @ [0, 0]"
    "drop 20 (event_bytes e) = put32 (ev_durationMs e) @ put16 (ev_httpStatus e) @ ev_code e @ [0, 0]"
    "drop 24 (event_bytes e) = put16 (ev_httpStatus e) @ ev_code e @ [0, 0]"
    "drop 26 (event_bytes e) = ev_code e @ [0, 0]"
    by (simp_all add: event_bytes_def)
  then show ?thesis
    using assms by (simp add: parse_event_def le_simps) (simp add: event_bytes_def)
qed

text \<open>Storing the parts one after the other copies the record.\<close>

lemma frame_payload:
  assumes "length (ev_code e) = 32" "k < 4"
  shows "take (min 17 (60 - k * 17)) (drop 3 (frame e k)) = take (min 17 (60 - k * 17)) (drop (k * 17) (event_bytes e))"
  using assms length_event_bytes [OF assms(1)] by (auto simp: frame_def Let_def min_def)

lemma store_frame:
  assumes "length (ev_code e) = 32" "k < 4" "length bs = 60" "take (k * 17) bs = take (k * 17) (event_bytes e)"
  shows "take (min 60 (Suc k * 17)) (store_part k (frame e k) bs) = take (min 60 (Suc k * 17)) (event_bytes e)"
    "length (store_part k (frame e k) bs) = 60"
proof -
  have "k = 0 \<or> k = 1 \<or> k = 2 \<or> k = 3" using assms(2) by auto
  then show "length (store_part k (frame e k) bs) = 60"
    using assms(3) by (auto simp: store_part_def Let_def frame_payload [OF assms(1,2), simplified]
        frame_def length_event_bytes [OF assms(1)])
  have "store_part k (frame e k) bs =
      take (k * 17 + min 17 (60 - k * 17)) (event_bytes e) @ drop (k * 17 + min 17 (60 - k * 17)) bs"
    using frame_payload [OF assms(1,2)] assms(4) by (simp add: store_part_def Let_def take_add)
  moreover have "k * 17 + min 17 (60 - k * 17) = min 60 (Suc k * 17)"
    using \<open>k = 0 \<or> k = 1 \<or> k = 2 \<or> k = 3\<close> by auto
  ultimately show "take (min 60 (Suc k * 17)) (store_part k (frame e k) bs) = take (min 60 (Suc k * 17)) (event_bytes e)"
    using length_event_bytes [OF assms(1)] by simp
qed

lemma accept_frame:
  assumes "length (ev_code e) = 32" "k < 4" "length (rx_bytes r) = 60"
    "take (k * 17) (rx_bytes r) = take (k * 17) (event_bytes e)"
    "k = 0 \<or> (rx_next r = k \<and> rx_sequence r = ucast (ev_seq e))"
  shows "rx_accept (frame e k) r =
    (if k = 3 then ((ev_version e = 1, Some e), \<lparr>rx_bytes = event_bytes e, rx_next = 0, rx_sequence = ucast (ev_seq e)\<rparr>)
     else ((False, None), \<lparr>rx_bytes = store_part k (frame e k) (rx_bytes r), rx_next = Suc k,
       rx_sequence = ucast (ev_seq e)\<rparr>))"
proof -
  have len: "length (frame e k) = 20" using assms(1,2) length_event_bytes [OF assms(1)]
    by (auto simp: frame_def Let_def)
  have "k = 0 \<or> k = 1 \<or> k = 2 \<or> k = 3" using assms(2) by auto
  then have hd: "frame e k ! 0 = 0xe1" "frame e k ! 1 = of_nat k" "frame e k ! 2 = ucast (ev_seq e)"
    "unat (of_nat k :: byte) = k" "\<not> 3 < (of_nat k :: byte)" "(of_nat k :: byte) = 0 \<longleftrightarrow> k = 0"
    by (auto simp: frame_def)
  have full: "k = 3 \<Longrightarrow> store_part k (frame e k) (rx_bytes r) = event_bytes e"
    using store_frame [OF assms(1-4)] length_event_bytes [OF assms(1)] by simp
  show ?thesis
  proof (cases "k = 3")
    case True
    then show ?thesis
      using assms(5) full hd len parse_event_bytes [OF assms(1)] by (simp add: rx_accept_def Let_def)
  next
    case False
    then show ?thesis using assms(2,5) hd len by (auto simp: rx_accept_def Let_def)
  qed
qed

lemma rx_run_append:
  "rx_run (xs @ ys) r = (fst (rx_run xs r) @ fst (rx_run ys (snd (rx_run xs r))), snd (rx_run ys (snd (rx_run xs r))))"
  by (induction xs arbitrary: r) (simp_all split: prod.splits)

text \<open>What the receiver remembers: the parts of the record it is in the middle of.\<close>

definition part_ok :: "byte \<Rightarrow> nat \<Rightarrow> bytes \<Rightarrow> bool" where
  "part_ok sq k d \<longleftrightarrow> length d = 20 \<and> d ! 0 = 0xe1 \<and> d ! 1 = of_nat k \<and> d ! 2 = sq"

definition payload :: "nat \<Rightarrow> bytes \<Rightarrow> bytes" where
  "payload k d = take (min 17 (60 - k * 17)) (drop 3 d)"

definition rx_inv :: "bytes list \<Rightarrow> Receiver \<Rightarrow> bool" where
  "rx_inv ds r \<longleftrightarrow> length (rx_bytes r) = 60 \<and> rx_next r < 4 \<and>
     (\<exists>pre ps. ds = pre @ ps \<and> length ps = rx_next r \<and>
        (\<forall>k < rx_next r. part_ok (rx_sequence r) k (ps ! k)) \<and>
        take (rx_next r * 17) (rx_bytes r) = concat (map2 payload [0..<rx_next r] ps))"

lemma byte_small: "(b :: byte) \<le> 3 \<longleftrightarrow> b = 0 \<or> b = 1 \<or> b = 2 \<or> b = 3"
proof -
  have "unat b \<le> 3 \<longleftrightarrow> unat b = 0 \<or> unat b = 1 \<or> unat b = 2 \<or> unat b = 3" by auto
  moreover have "unat (2 :: byte) = 2" "unat (3 :: byte) = 3" by simp_all
  ultimately show ?thesis
    unfolding word_le_nat_alt by (metis unat_0 unat_1 word_unat_eq_iff)
qed

lemma of_nat_unat_small: "of_nat (unat (b :: byte)) = b"
  by simp

lemma rx_inv_reset: "length bs = 60 \<Longrightarrow> rx_inv ds \<lparr>rx_bytes = bs, rx_next = 0, rx_sequence = q\<rparr>"
  by (auto simp: rx_inv_def)

lemma store_part_take:
  assumes "length bs = 60" "length d = 20" "k < 4"
  shows "length (store_part k d bs) = 60"
    "take (k * 17 + length (payload k d)) (store_part k d bs) = take (k * 17) bs @ payload k d"
proof -
  have "k = 0 \<or> k = 1 \<or> k = 2 \<or> k = 3" using assms(3) by auto
  then show "length (store_part k d bs) = 60"
    "take (k * 17 + length (payload k d)) (store_part k d bs) = take (k * 17) bs @ payload k d"
    using assms(1,2) by (auto simp: store_part_def Let_def payload_def)
qed

text \<open>One accepted part extends the run of parts by the frame just received.\<close>

lemma rx_step:
  assumes "rx_inv ds r" "length d = 20" "d ! 0 = 0xe1" "d ! 1 = of_nat k" "k < 4" "d ! 2 = q"
    "k = 0 \<or> (rx_next r = k \<and> rx_sequence r = q)"
  shows "\<exists>pre ps. ds @ [d] = pre @ ps \<and> length ps = Suc k \<and> (\<forall>i < Suc k. part_ok q i (ps ! i)) \<and>
    take (k * 17 + length (payload k d)) (store_part k d (rx_bytes r)) = concat (map2 payload [0..<Suc k] ps)"
proof -
  obtain pre ps where I: "ds = pre @ ps" "length ps = k" "\<forall>i < k. part_ok q i (ps ! i)"
    "take (k * 17) (rx_bytes r) = concat (map2 payload [0..<k] ps)"
  proof (cases "k = 0")
    case True
    show ?thesis by (rule that [of ds "[]"]) (use True in auto)
  next
    case False
    then show ?thesis using assms(1,7) that unfolding rx_inv_def by blast
  qed
  have len: "length (rx_bytes r) = 60" using assms(1) by (simp add: rx_inv_def)
  have "ds @ [d] = pre @ (ps @ [d])" "length (ps @ [d]) = Suc k" using I by simp_all
  moreover have "\<forall>i < Suc k. part_ok q i ((ps @ [d]) ! i)"
    using I assms by (auto simp: nth_append part_ok_def less_Suc_eq)
  moreover have "take (k * 17 + length (payload k d)) (store_part k d (rx_bytes r)) =
      concat (map2 payload [0..<Suc k] (ps @ [d]))"
    using store_part_take(2) [OF len assms(2,5)] I(2,4) by simp
  ultimately show ?thesis by blast
qed

lemma length_payload: "length d = 20 \<Longrightarrow> length (payload k d) = min 17 (60 - k * 17)"
  by (simp add: payload_def)

lemma rx_accept_inv:
  assumes "rx_inv ds r" "rx_accept d r = ((v, oe), r')"
  shows "rx_inv (ds @ [d]) r'"
    "v \<Longrightarrow> \<exists>pre ps q. ds @ [d] = pre @ ps \<and> length ps = 4 \<and> (\<forall>k < 4. part_ok q k (ps ! k)) \<and>
       oe = Some (parse_event (concat (map2 payload [0..<4] ps))) \<and> ev_version (the oe) = 1 \<and>
       ucast (ev_seq (the oe)) = q"
proof -
  have len: "length (rx_bytes r) = 60" using assms(1) by (simp add: rx_inv_def)
  define bad where "bad \<longleftrightarrow> length d \<noteq> 20 \<or> d ! 0 \<noteq> 0xe1 \<or> 3 < d ! 1"
  define r1 where "r1 = (if d ! 1 = 0 then r\<lparr>rx_next := 0, rx_sequence := d ! 2\<rparr> else r)"
  define k where "k = unat (d ! 1)"
  have eq: "rx_accept d r =
      (if bad then ((False, None), r\<lparr>rx_next := 0\<rparr>)
       else if k \<noteq> rx_next r1 \<or> d ! 2 \<noteq> rx_sequence r1 then ((False, None), r1\<lparr>rx_next := 0\<rparr>)
       else if k \<noteq> 3 then ((False, None), r1\<lparr>rx_bytes := store_part k d (rx_bytes r), rx_next := Suc k\<rparr>)
       else let bs = store_part k d (rx_bytes r); e = parse_event bs
         in ((ev_version e = 1 \<and> ucast (ev_seq e) = rx_sequence r1, Some e), r1\<lparr>rx_bytes := bs, rx_next := 0\<rparr>))"
    by (auto simp: rx_accept_def bad_def r1_def k_def Let_def)
  show "rx_inv (ds @ [d]) r'"
    "v \<Longrightarrow> \<exists>pre ps q. ds @ [d] = pre @ ps \<and> length ps = 4 \<and> (\<forall>k < 4. part_ok q k (ps ! k)) \<and>
       oe = Some (parse_event (concat (map2 payload [0..<4] ps))) \<and> ev_version (the oe) = 1 \<and>
       ucast (ev_seq (the oe)) = q"
  proof -
    have "rx_inv (ds @ [d]) r' \<and> (v \<longrightarrow> (\<exists>pre ps q. ds @ [d] = pre @ ps \<and> length ps = 4 \<and>
       (\<forall>k < 4. part_ok q k (ps ! k)) \<and> oe = Some (parse_event (concat (map2 payload [0..<4] ps))) \<and>
       ev_version (the oe) = 1 \<and> ucast (ev_seq (the oe)) = q))"
    proof (cases "bad \<or> k \<noteq> rx_next r1 \<or> d ! 2 \<noteq> rx_sequence r1")
      case True
      then have "\<not> v" "rx_next r' = 0" "rx_bytes r' = rx_bytes r"
        using assms(2) by (auto simp: eq r1_def split: if_splits)
      then show ?thesis using len by (auto simp: rx_inv_def)
    next
      case False
      then have good: "length d = 20" "d ! 0 = 0xe1" "d ! 1 \<le> 3" "d ! 2 = rx_sequence r1" "k = rx_next r1"
        by (auto simp: bad_def)
      have k: "d ! 1 = of_nat k" "k < 4"
        using good(3) by (auto simp: k_def word_le_nat_alt)
      have "k = 0 \<or> (rx_next r = k \<and> rx_sequence r = d ! 2)"
        using good by (auto simp: r1_def k_def unat_eq_zero split: if_splits)
      from rx_step [OF assms(1) good(1,2) k refl this] obtain pre ps where
        P: "ds @ [d] = pre @ ps" "length ps = Suc k" "\<forall>i < Suc k. part_ok (d ! 2) i (ps ! i)"
        "take (k * 17 + length (payload k d)) (store_part k d (rx_bytes r)) = concat (map2 payload [0..<Suc k] ps)"
        by blast
      have st: "length (store_part k d (rx_bytes r)) = 60" by (rule store_part_take(1) [OF len good(1) k(2)])
      show ?thesis
      proof (cases "k = 3")
        case True
        have "take (k * 17 + length (payload k d)) (store_part k d (rx_bytes r)) = store_part k d (rx_bytes r)"
          using st good(1) True by (simp add: length_payload)
        with P(4) True have bs: "store_part k d (rx_bytes r) = concat (map2 payload [0..<4] ps)"
          by (simp add: eval_nat_numeral)
        have r': "v = (ev_version (parse_event (concat (map2 payload [0..<4] ps))) = 1 \<and>
              ucast (ev_seq (parse_event (concat (map2 payload [0..<4] ps)))) = d ! 2)"
            "oe = Some (parse_event (concat (map2 payload [0..<4] ps)))"
            "rx_next r' = 0" "rx_bytes r' = store_part k d (rx_bytes r)"
          using assms(2) False True good bs by (auto simp: eq Let_def)
        have "length ps = 4" "\<forall>i < 4. part_ok (d ! 2) i (ps ! i)"
          using P(2,3) True by simp_all
        moreover have "rx_inv (ds @ [d]) r'" using r' st by (auto simp: rx_inv_def)
        ultimately show ?thesis using r'(1,2) P(1) by (metis option.sel)
      next
        case nt: False
        then have r': "\<not> v" "rx_next r' = Suc k" "rx_bytes r' = store_part k d (rx_bytes r)"
            "rx_sequence r' = d ! 2"
          using assms(2) False good by (auto simp: eq)
        have "k * 17 + length (payload k d) = Suc k * 17"
          using nt k(2) good(1) by (auto simp: length_payload)
        with P(4) have t: "take (Suc k * 17) (rx_bytes r') = concat (map2 payload [0..<Suc k] ps)"
          by (simp only: r'(3))
        have "Suc k < 4" using nt k(2) by linarith
        then have "rx_inv (ds @ [d]) r'"
          unfolding rx_inv_def r'(2,4) using P(1-3) st t by (auto simp: r'(3))
        with r'(1) show ?thesis by blast
      qed
    qed
    then show "rx_inv (ds @ [d]) r'"
      "v \<Longrightarrow> \<exists>pre ps q. ds @ [d] = pre @ ps \<and> length ps = 4 \<and> (\<forall>k < 4. part_ok q k (ps ! k)) \<and>
       oe = Some (parse_event (concat (map2 payload [0..<4] ps))) \<and> ev_version (the oe) = 1 \<and>
       ucast (ev_seq (the oe)) = q" by blast+
  qed
qed

lemma rx_run_inv: "rx_inv ds r \<Longrightarrow> rx_inv (ds @ es) (snd (rx_run es r))"
proof (induction es arbitrary: ds r)
  case (Cons d es)
  obtain v oe r' where a: "rx_accept d r = ((v, oe), r')" by (metis prod.collapse)
  show ?case
    using Cons.IH [OF rx_accept_inv(1) [OF Cons.prems a]] by (cases "rx_run es r'") (simp add: a)
qed simp

subsection \<open>Queue\<close>

text \<open>\<open>Queue<N>\<close>: \<open>entries\<close> is the array of \<open>N\<close> events.\<close>

record 'e ring =
  entries :: "'e list"
  head :: nat
  count :: nat
  dropped :: u32

definition ring_push :: "'e \<Rightarrow> 'e ring \<Rightarrow> bool \<times> 'e ring" where
  "ring_push e q =
     (let n = length (entries q) in
      if count q = n then (False, q\<lparr>dropped := dropped q + 1\<rparr>)
      else (True, q\<lparr>entries := (entries q)[(head q + count q) mod n := e], count := count q + 1\<rparr>))"

definition ring_front :: "'e ring \<Rightarrow> 'e option" where
  "ring_front q = (if count q \<noteq> 0 then Some (entries q ! head q) else None)"

definition ring_pop :: "'e ring \<Rightarrow> 'e ring" where
  "ring_pop q = (if count q \<noteq> 0 then q\<lparr>head := (head q + 1) mod length (entries q), count := count q - 1\<rparr>
     else q)"

definition ring_size :: "'e ring \<Rightarrow> nat" where
  "ring_size q = count q"

definition fresh_ring :: "nat \<Rightarrow> 'e \<Rightarrow> 'e ring" where
  "fresh_ring n e = \<lparr>entries = replicate n e, head = 0, count = 0, dropped = 0\<rparr>"

definition ring_ok :: "'e ring \<Rightarrow> bool" where
  "ring_ok q \<longleftrightarrow> head q < length (entries q) \<and> count q \<le> length (entries q)"

definition ring_contents :: "'e ring \<Rightarrow> 'e list" where
  "ring_contents q = map (\<lambda>i. entries q ! ((head q + i) mod length (entries q))) [0..<count q]"

text \<open>The interface a bounded first-in first-out queue offers its clients.\<close>

locale bounded_fifo =
  fixes push :: "'e \<Rightarrow> 'q \<Rightarrow> bool \<times> 'q" and front :: "'q \<Rightarrow> 'e option" and pop :: "'q \<Rightarrow> 'q"
    and contents :: "'q \<Rightarrow> 'e list" and capacity :: "'q \<Rightarrow> nat" and ok :: "'q \<Rightarrow> bool"
  assumes push_law: "ok q \<Longrightarrow> push e q = (b, q') \<Longrightarrow> ok q' \<and> capacity q' = capacity q \<and>
      (b \<longleftrightarrow> length (contents q) < capacity q) \<and>
      contents q' = (if b then contents q @ [e] else contents q)"
    and front_law: "ok q \<Longrightarrow> front q = (case contents q of [] \<Rightarrow> None | x # xs \<Rightarrow> Some x)"
    and pop_law: "ok q \<Longrightarrow> ok (pop q) \<and> capacity (pop q) = capacity q \<and> contents (pop q) = tl (contents q)"
begin

text \<open>What has been taken out, followed by what is in, is what was put in, in order.\<close>

fun fifo_run :: "'e option list \<Rightarrow> 'q \<Rightarrow> 'e list \<times> 'e list \<times> 'q" where
  "fifo_run [] q = ([], [], q)"
| "fifo_run (Some e # ops) q =
     (case push e q of (b, q') \<Rightarrow> (case fifo_run ops q' of (pushed, taken, q'') \<Rightarrow>
        (if b then e # pushed else pushed, taken, q'')))"
| "fifo_run (None # ops) q =
     (case fifo_run ops (pop q) of (pushed, taken, q'') \<Rightarrow>
        (pushed, (case front q of None \<Rightarrow> taken | Some e \<Rightarrow> e # taken), q''))"

lemma fifo_order:
  "ok q \<Longrightarrow> fifo_run ops q = (pushed, taken, q') \<Longrightarrow>
     ok q' \<and> contents q @ pushed = taken @ contents q'"
proof (induction ops q arbitrary: pushed taken q' rule: fifo_run.induct)
  case (2 e ops q)
  obtain b q1 where p: "push e q = (b, q1)" by fastforce
  obtain ps ts q2 where r: "fifo_run ops q1 = (ps, ts, q2)" by (metis prod.collapse)
  note L = push_law [OF 2(2) p]
  have "ok q2 \<and> contents q1 @ ps = ts @ contents q2" using 2(1) [OF p [symmetric] _ r] L by auto
  then show ?case using 2(3) L by (auto simp: p r split: if_splits)
next
  case (3 ops q)
  obtain ps ts q2 where r: "fifo_run ops (pop q) = (ps, ts, q2)" by (metis prod.collapse)
  note L = pop_law [OF 3(2)]
  have "ok q2 \<and> contents (pop q) @ ps = ts @ contents q2" using 3(1) [OF _ r] L by auto
  then show ?case using 3(3) L front_law [OF 3(2)] by (cases "contents q") (auto simp: r)
qed simp

end

lemma ring_push_law:
  assumes "ring_ok q" "ring_push e q = (b, q')"
  shows "ring_ok q' \<and> length (entries q') = length (entries q) \<and>
    (b \<longleftrightarrow> length (ring_contents q) < length (entries q)) \<and>
    ring_contents q' = (if b then ring_contents q @ [e] else ring_contents q)"
proof (cases "count q = length (entries q)")
  case True
  then show ?thesis using assms by (auto simp: ring_push_def ring_ok_def ring_contents_def Let_def)
next
  case False
  let ?n = "length (entries q)"
  from assms(1) False have n: "count q < ?n" "0 < ?n" by (auto simp: ring_ok_def)
  have b: "b" "q' = q\<lparr>entries := (entries q)[(head q + count q) mod ?n := e], count := count q + 1\<rparr>"
    using assms(2) False by (simp_all add: ring_push_def Let_def)
  have "(entries q)[(head q + count q) mod ?n := e] ! ((head q + i) mod ?n) = entries q ! ((head q + i) mod ?n)"
    if "i < count q" for i
    using mod_window_inj [of i ?n "count q" "head q"] that n by (subst nth_list_update_neq) auto
  then have "map (\<lambda>i. (entries q)[(head q + count q) mod ?n := e] ! ((head q + i) mod ?n)) [0..<count q] =
      ring_contents q"
    unfolding ring_contents_def by (intro map_cong) auto
  then show ?thesis
    using assms(1) n b by (simp add: ring_ok_def) (simp add: ring_contents_def)
qed

lemma ring_pop_law:
  assumes "ring_ok q"
  shows "ring_ok (ring_pop q) \<and> length (entries (ring_pop q)) = length (entries q) \<and>
    ring_contents (ring_pop q) = tl (ring_contents q)"
proof (cases "count q = 0")
  case True
  then show ?thesis using assms by (simp add: ring_pop_def ring_contents_def)
next
  case False
  let ?n = "length (entries q)"
  have "map (\<lambda>i. entries q ! (((head q + 1) mod ?n + i) mod ?n)) [0..<count q - 1] =
      tl (map (\<lambda>i. entries q ! ((head q + i) mod ?n)) [0..<count q])"
    using False by (intro nth_equalityI) (auto simp: nth_tl mod_simps)
  moreover have "(head q + 1) mod ?n < ?n"
    using assms by (intro mod_less_divisor) (auto simp: ring_ok_def)
  ultimately show ?thesis
    using assms False by (auto simp: ring_pop_def ring_ok_def ring_contents_def)
qed

interpretation event_ring: bounded_fifo ring_push ring_front ring_pop ring_contents "\<lambda>q. length (entries q)" ring_ok
proof
  fix q :: "'e ring"
  assume "ring_ok q"
  then have "head q mod length (entries q) = head q" by (simp add: ring_ok_def)
  then show "ring_front q = (case ring_contents q of [] \<Rightarrow> None | x # xs \<Rightarrow> Some x)"
    by (auto simp: ring_front_def ring_contents_def upt_conv_Cons split: list.splits)
next
  fix e b and q q' :: "'e ring"
  assume "ring_ok q" "ring_push e q = (b, q')"
  then show "ring_ok q' \<and> length (entries q') = length (entries q) \<and>
      (b \<longleftrightarrow> length (ring_contents q) < length (entries q)) \<and>
      ring_contents q' = (if b then ring_contents q @ [e] else ring_contents q)" by (rule ring_push_law)
next
  fix q :: "'e ring"
  assume "ring_ok q"
  then show "ring_ok (ring_pop q) \<and> length (entries (ring_pop q)) = length (entries q) \<and>
      ring_contents (ring_pop q) = tl (ring_contents q)" by (rule ring_pop_law)
qed

subsection \<open>File names and event codes\<close>

fun has_dotdot :: "string \<Rightarrow> bool" where
  "has_dotdot (a # b # cs) \<longleftrightarrow> (a = CHR ''.'' \<and> b = CHR ''.'') \<or> has_dotdot (b # cs)"
| "has_dotdot _ \<longleftrightarrow> False"

definition safeName :: "string \<Rightarrow> bool" where
  "safeName s \<longleftrightarrow>
     \<not> (length s < 5 \<or> length s > 95 \<or> has_dotdot s) \<and>
     list_all (\<lambda>c. is_lower c \<or> is_digit c \<or> c = CHR ''-'' \<or> c = CHR ''.'') s \<and>
     ((starts_with ''logs-'' s \<and> ends_with ''.csv'' s) \<or>
      ((starts_with ''logger-'' s \<or> starts_with ''dash-'' s) \<and> ends_with ''.log'' s))"

definition safeCode :: "string \<Rightarrow> bool" where
  "safeCode s \<longleftrightarrow> s \<noteq> [] \<and> length s \<le> 31 \<and> list_all (\<lambda>c. is_lower c \<or> is_digit c \<or> c = CHR ''_'') s"

subsection \<open>Properties\<close>

text \<open>
  An event sent as its four frames arrives unchanged, whatever the receiver had seen before:
  the first three frames complete nothing, the fourth delivers the event, accepted if it has
  version 1.
\<close>

theorem event_frames_roundtrip:
  assumes "length (ev_code e) = 32" "length (rx_bytes r) = 60"
  shows "fst (rx_run (map (frame e) [0, 1, 2, 3]) r) =
    [(False, None), (False, None), (False, None), (ev_version e = 1, Some e)]"
proof -
  let ?st = "\<lambda>k bs. store_part k (frame e k) bs"
  define b1 b2 b3 where "b1 = ?st 0 (rx_bytes r)" and "b2 = ?st 1 b1" and "b3 = ?st 2 b2"
  have s1: "length b1 = 60" "take 17 b1 = take 17 (event_bytes e)"
    using store_frame [OF assms(1) _ assms(2), of 0] by (simp_all add: b1_def)
  have s2: "length b2 = 60" "take 34 b2 = take 34 (event_bytes e)"
    using store_frame [OF assms(1) _ s1(1), of 1] s1(2) by (simp_all add: b2_def)
  have s3: "length b3 = 60" "take 51 b3 = take 51 (event_bytes e)"
    using store_frame [OF assms(1) _ s2(1), of 2] s2(2) by (simp_all add: b3_def)
  define mk where "mk bs k = \<lparr>rx_bytes = bs, rx_next = k, rx_sequence = ucast (ev_seq e)\<rparr>" for bs k
  have a0: "rx_accept (frame e 0) r = ((False, None), mk b1 1)"
    using accept_frame [OF assms(1) _ assms(2), of 0] by (simp add: b1_def mk_def)
  have a1: "rx_accept (frame e 1) (mk b1 1) = ((False, None), mk b2 2)"
    using accept_frame [OF assms(1), of 1 "mk b1 1"] s1 by (simp add: b2_def mk_def)
  have a2: "rx_accept (frame e 2) (mk b2 2) = ((False, None), mk b3 3)"
    using accept_frame [OF assms(1), of 2 "mk b2 2"] s2 by (simp add: b3_def mk_def)
  have a3: "fst (rx_accept (frame e 3) (mk b3 3)) = (ev_version e = 1, Some e)"
    using accept_frame [OF assms(1), of 3 "mk b3 3"] s3 by (simp add: mk_def)
  then obtain r3 where "rx_accept (frame e 3) (mk b3 3) = ((ev_version e = 1, Some e), r3)"
    by (metis prod.collapse)
  with a0 a1 a2 show ?thesis by simp
qed

lemma event_frames_roundtrip_witness:
  "fst (rx_run (map (frame (empty_event\<lparr>ev_seq := 300\<rparr>)) [0, 1, 2, 3]) fresh_receiver) =
    [(False, None), (False, None), (False, None), (True, Some (empty_event\<lparr>ev_seq := 300\<rparr>))]"
  using event_frames_roundtrip [of "empty_event\<lparr>ev_seq := 300\<rparr>" fresh_receiver]
  by (simp add: empty_event_def fresh_receiver_def)

text \<open>
  C29: the receiver never puts an event together from frames that do not belong together. Whenever
  it accepts, the last four frames it was given are parts 0 to 3 in order, with one sequence
  byte, and the event is the record their payloads spell, with version 1 and that sequence
  number; lost, repeated, reordered or foreign frames before them do not matter.
\<close>

theorem receiver_accepts_only_complete:
  assumes "rx_accept d (snd (rx_run ds fresh_receiver)) = ((True, oe), r')"
  shows "\<exists>pre ps q. ds @ [d] = pre @ ps \<and> length ps = 4 \<and> (\<forall>k < 4. part_ok q k (ps ! k)) \<and>
    oe = Some (parse_event (concat (map2 payload [0..<4] ps))) \<and>
    ev_version (the oe) = 1 \<and> ucast (ev_seq (the oe)) = q"
proof -
  have "rx_inv [] fresh_receiver" by (simp add: rx_inv_def fresh_receiver_def)
  then have "rx_inv ds (snd (rx_run ds fresh_receiver))" using rx_run_inv [of "[]"] by simp
  from rx_accept_inv(2) [OF this assms] show ?thesis by simp
qed

lemma receiver_accepts_only_complete_witness:
  "\<exists>pre ps q. map (frame empty_event) [1, 0, 1, 2] @ [frame empty_event 3] = pre @ ps \<and> length ps = 4 \<and>
     (\<forall>k < 4. part_ok q k (ps ! k))"
proof -
  have "fst (fst (rx_accept (frame empty_event 3)
      (snd (rx_run (map (frame empty_event) [1, 0, 1, 2]) fresh_receiver))))" by code_simp
  then obtain oe r' where "rx_accept (frame empty_event 3)
      (snd (rx_run (map (frame empty_event) [1, 0, 1, 2]) fresh_receiver)) = ((True, oe), r')"
    by (metis prod.collapse)
  from receiver_accepts_only_complete [OF this] show ?thesis by blast
qed

end
