(* ===== verification/SensorTypes.thy ===== *)
theory SensorTypes
  imports Prelude
begin

section \<open>The state of a sensor\<close>

text \<open>
  \<open>shared/protocols/SensorTypes.h\<close>, used on both ends of the link: the faults of a sensor, their texts,
  and the byte a fault is sent as.
\<close>

datatype SensorFault = FaultNone | Underrange | Overrange | AdcSaturation | AdcUnavailable

primrec fault_code :: "SensorFault \<Rightarrow> byte" where
  "fault_code FaultNone = 0"
| "fault_code Underrange = 1"
| "fault_code Overrange = 2"
| "fault_code AdcSaturation = 3"
| "fault_code AdcUnavailable = 4"

definition fault_of_code :: "byte \<Rightarrow> SensorFault" where
  "fault_of_code b = (if b = 0 then FaultNone else if b = 1 then Underrange else if b = 2 then Overrange
     else if b = 3 then AdcSaturation else AdcUnavailable)"

primrec sensorFaultToString :: "SensorFault \<Rightarrow> string" where
  "sensorFaultToString FaultNone = ''none''"
| "sensorFaultToString Underrange = ''underrange''"
| "sensorFaultToString Overrange = ''overrange''"
| "sensorFaultToString AdcSaturation = ''adc_saturation''"
| "sensorFaultToString AdcUnavailable = ''adc_unavailable''"

lemma fault_roundtrip [simp]: "fault_of_code (fault_code f) = f"
  by (cases f) (simp_all add: fault_of_code_def)

lemma fault_code_le: "fault_code f \<le> 4"
  by (cases f) simp_all

end
