(* ===== verification/DashProtocols.thy ===== *)
theory DashProtocols
  imports SensorTypes
begin

section \<open>The dash protocols: telemetry, upload status, diagnostics\<close>

text \<open>
  The 20-byte BLE frames the logger sends to the dash and the dash's model of them:
  \<open>shared/protocols/DashTelemetry.h\<close>, \<open>DashUploadStatus.h\<close>, \<open>DashLinkProtocol.h\<close>,
  and from the dash firmware \<open>DashDiagnostics.h\<close> and \<open>DashWifiPolicy.h\<close>. A
  \<open>float\<close> is only carried and tested for finiteness here, so it is its 32 bits; a
  \<open>char[16]\<close> is a byte list of length 16.
\<close>

subsection \<open>Small policies\<close>

definition retryDue :: "u32 \<Rightarrow> u32 \<Rightarrow> u32 \<Rightarrow> bool" where
  "retryDue nowMs previousAttemptMs retryIntervalMs \<longleftrightarrow> retryIntervalMs \<le> since nowMs previousAttemptMs"

definition shouldRetry :: "bool \<Rightarrow> bool \<Rightarrow> u32 \<Rightarrow> u32 \<Rightarrow> bool" where
  "shouldRetry configured connected nowMs lastAttemptMs \<longleftrightarrow>
     configured \<and> \<not> connected \<and> 30000 \<le> since nowMs lastAttemptMs"

subsection \<open>DashTelemetry.h\<close>

definition isfinite :: "u32 \<Rightarrow> bool" where
  "isfinite bits \<longleftrightarrow> drop_bit 23 bits AND 0xFF \<noteq> 0xFF"

definition kMaxSensors :: nat where "kMaxSensors = 8"

datatype Kind = KId | KName | KUnits

primrec kind_code :: "Kind \<Rightarrow> byte" where
  "kind_code KId = 1"
| "kind_code KName = 2"
| "kind_code KUnits = 3"

definition c_string :: "bytes \<Rightarrow> bytes" where
  "c_string bs = takeWhile (\<lambda>b. b \<noteq> 0) bs"

text \<open>\<open>strncpy(dest, value, 15)\<close> into a zeroed field: at most 15 characters, zero-padded.\<close>

definition text_frame :: "Kind \<Rightarrow> byte \<Rightarrow> byte \<Rightarrow> bytes \<Rightarrow> bytes" where
  "text_frame kind index cnt value =
     (let v = take 15 (c_string value) in [1, kind_code kind, index, cnt] @ v @ replicate (16 - length v) 0)"

definition sample_frame :: "byte \<Rightarrow> byte \<Rightarrow> u32 \<Rightarrow> bool \<Rightarrow> SensorFault \<Rightarrow> bool \<Rightarrow> bytes" where
  "sample_frame index cnt value valid fault warning =
     [1, 4, index, cnt, of_bool (valid \<and> isfinite value), fault_code fault, of_bool warning, 0] @
     put32 value @ replicate 8 0"

record Sensor =
  s_id :: bytes
  s_name :: bytes
  s_units :: bytes
  s_metadata :: byte
  s_value :: u32
  s_valid :: bool
  s_warning :: bool
  s_received :: bool
  s_fault :: SensorFault
  s_receivedMs :: u32
  s_hasLastGood :: bool
  s_lastGoodValue :: u32
  s_lastGoodMs :: u32

definition empty_sensor :: Sensor where
  "empty_sensor = \<lparr>s_id = replicate 16 0, s_name = replicate 16 0, s_units = replicate 16 0,
     s_metadata = 0, s_value = 0, s_valid = False, s_warning = False, s_received = False,
     s_fault = FaultNone, s_receivedMs = 0, s_hasLastGood = False, s_lastGoodValue = 0, s_lastGoodMs = 0\<rparr>"

definition fresh :: "bool \<Rightarrow> u32 \<Rightarrow> Sensor \<Rightarrow> bool" where
  "fresh connected now s \<longleftrightarrow>
     connected \<and> s_received s \<and> s_metadata s = 7 \<and> since now (s_receivedMs s) < 3000"

record Model =
  sensors :: "Sensor list"
  m_count :: byte

definition empty_model :: Model where
  "empty_model = \<lparr>sensors = replicate kMaxSensors empty_sensor, m_count = 0\<rparr>"

definition printable :: "bytes \<Rightarrow> bool" where
  "printable bs \<longleftrightarrow> list_all (\<lambda>b. 32 \<le> b \<and> b \<le> 126) bs"

definition frame_ok :: "bytes \<Rightarrow> bool" where
  "frame_ok f \<longleftrightarrow>
     \<not> (f ! 0 \<noteq> 1 \<or> f ! 1 < 1 \<or> f ! 1 > 4 \<or> f ! 3 = 0 \<or> f ! 3 > 8 \<or> f ! 2 \<ge> f ! 3) \<and>
     (if f ! 1 \<noteq> 4
      then \<not> (f ! 19 \<noteq> 0 \<or> (f ! 1 = 1 \<and> f ! 4 = 0)) \<and> printable (c_string (take 15 (drop 4 f)))
      else \<not> (f ! 4 > 1 \<or> f ! 5 > 4 \<or> f ! 6 > 1))"

definition store_text :: "bytes \<Rightarrow> Sensor \<Rightarrow> Sensor" where
  "store_text f s =
     (let v = take 16 (drop 4 f);
          s = (if f ! 1 = 1 \<and> c_string (s_id s) \<noteq> c_string v then empty_sensor else s);
          s = (if f ! 1 = 1 then s\<lparr>s_id := v\<rparr> else if f ! 1 = 2 then s\<lparr>s_name := v\<rparr> else s\<lparr>s_units := v\<rparr>)
      in s\<lparr>s_metadata := s_metadata s OR push_bit (unat (f ! 1) - 1) 1\<rparr>)"

definition store_sample :: "bytes \<Rightarrow> u32 \<Rightarrow> Sensor \<Rightarrow> Sensor" where
  "store_sample f now s =
     (let s = s\<lparr>s_value := get32 (drop 8 f)\<rparr>;
          s = s\<lparr>s_valid := f ! 4 \<noteq> 0 \<and> isfinite (s_value s), s_fault := fault_of_code (f ! 5),
                s_warning := f ! 6 \<noteq> 0, s_received := True, s_receivedMs := now\<rparr>
      in if s_valid s \<and> s_fault s = FaultNone
         then s\<lparr>s_hasLastGood := True, s_lastGoodValue := s_value s, s_lastGoodMs := now\<rparr> else s)"

definition telemetry_accept :: "bytes \<Rightarrow> u32 \<Rightarrow> Model \<Rightarrow> bool \<times> Model" where
  "telemetry_accept f now m =
     (if \<not> frame_ok f then (False, m)
      else let m = (if m_count m \<noteq> f ! 3 then empty_model\<lparr>m_count := f ! 3\<rparr> else m);
               i = unat (f ! 2)
           in (True, m\<lparr>sensors := (sensors m)[i := (if f ! 1 \<noteq> 4 then store_text f else store_sample f now)
                 (sensors m ! i)]\<rparr>))"

definition validRefresh :: "u32 \<Rightarrow> bool" where
  "validRefresh ms \<longleftrightarrow> 250 \<le> ms \<and> ms \<le> 5000 \<and> ms mod 250 = 0"

text \<open>What the dash may rely on when it draws a sensor.\<close>

definition sensor_ok :: "Sensor \<Rightarrow> bool" where
  "sensor_ok s \<longleftrightarrow>
     length (s_id s) = 16 \<and> length (s_name s) = 16 \<and> length (s_units s) = 16 \<and>
     last (s_id s) = 0 \<and> last (s_name s) = 0 \<and> last (s_units s) = 0 \<and>
     printable (c_string (s_id s)) \<and> printable (c_string (s_name s)) \<and> printable (c_string (s_units s)) \<and>
     s_metadata s \<le> 7 \<and> (bit (s_metadata s) 0 \<longleftrightarrow> c_string (s_id s) \<noteq> []) \<and>
     (s_valid s \<longrightarrow> s_received s \<and> isfinite (s_value s)) \<and>
     (s_hasLastGood s \<longrightarrow> isfinite (s_lastGoodValue s))"

definition model_ok :: "Model \<Rightarrow> bool" where
  "model_ok m \<longleftrightarrow> length (sensors m) = 8 \<and> m_count m \<le> 8 \<and> list_all sensor_ok (sensors m) \<and>
     (\<forall>i < 8. unat (m_count m) \<le> i \<longrightarrow> sensors m ! i = empty_sensor)"

lemma empty_sensor_ok: "sensor_ok empty_sensor"
  by (simp add: sensor_ok_def empty_sensor_def c_string_def printable_def isfinite_def)

lemma empty_model_ok: "model_ok empty_model"
  by (simp add: model_ok_def empty_model_def kMaxSensors_def list_all_iff empty_sensor_ok)

lemma byte_le_7_or:
  assumes "(m :: byte) \<le> 7" "k < 3"
  shows "m OR push_bit k 1 \<le> 7"
proof -
  have "unat m < 8" using assms(1) by (simp add: word_le_nat_alt)
  then have "unat m \<in> {0, 1, 2, 3, 4, 5, 6, 7}" by auto
  then have "m = 0 \<or> m = 1 \<or> m = 2 \<or> m = 3 \<or> m = 4 \<or> m = 5 \<or> m = 6 \<or> m = 7"
    by (auto simp: word_unat_eq_iff)
  moreover have "k = 0 \<or> k = 1 \<or> k = 2" using assms(2) by auto
  ultimately show ?thesis by (elim disjE) simp_all
qed

lemma c_string_append_zero: "c_string (bs @ 0 # cs) = c_string bs"
  by (induction bs) (simp_all add: c_string_def)

text \<open>The 16 text bytes of an accepted frame end in 0 and are printable before it.\<close>

lemma frame_text:
  assumes "frame_ok f" "f ! 1 \<noteq> 4" "length f = 20"
  shows "length (take 16 (drop 4 f)) = 16" "last (take 16 (drop 4 f)) = 0"
    "printable (c_string (take 16 (drop 4 f)))"
    "f ! 1 = 1 \<Longrightarrow> c_string (take 16 (drop 4 f)) \<noteq> []"
proof -
  have z: "f ! 19 = 0" using assms by (auto simp: frame_ok_def)
  show l: "length (take 16 (drop 4 f)) = 16" using assms(3) by simp
  have split: "take 16 (drop 4 f) = take 15 (drop 4 f) @ [f ! 19]"
    using assms(3) take_Suc_conv_app_nth [of 15 "drop 4 f"] by (simp add: eval_nat_numeral)
  show "last (take 16 (drop 4 f)) = 0" using z split by simp
  have c: "c_string (take 16 (drop 4 f)) = c_string (take 15 (drop 4 f))"
    using split z c_string_append_zero [of "take 15 (drop 4 f)" "[]"] by simp
  show "printable (c_string (take 16 (drop 4 f)))" unfolding c using assms by (auto simp: frame_ok_def)
  assume "f ! 1 = 1"
  then have "f ! 4 \<noteq> 0" using assms by (auto simp: frame_ok_def)
  moreover have "drop 4 f = f ! 4 # drop 5 f"
    using Cons_nth_drop_Suc [of 4 f] assms(3) by simp
  then have "take 16 (drop 4 f) = f ! 4 # take 15 (drop 5 f)" by (simp add: take_Cons')
  ultimately show "c_string (take 16 (drop 4 f)) \<noteq> []" by (simp only: c_string_def takeWhile.simps) simp
qed

lemma kind_cases:
  assumes "frame_ok f" "f ! 1 \<noteq> 4"
  shows "f ! 1 = 1 \<or> f ! 1 = 2 \<or> f ! 1 = 3"
proof -
  have "1 \<le> unat (f ! 1)" "unat (f ! 1) \<le> 4" using assms by (auto simp: frame_ok_def word_le_nat_alt word_less_nat_alt)
  moreover have "unat (f ! 1) \<noteq> 4" using assms(2) by (simp add: word_unat_eq_iff)
  ultimately have "unat (f ! 1) = 1 \<or> unat (f ! 1) = 2 \<or> unat (f ! 1) = 3" by linarith
  then show ?thesis by (simp add: word_unat_eq_iff)
qed

lemma store_text_ok:
  assumes "frame_ok f" "f ! 1 \<noteq> 4" "length f = 20" "sensor_ok s"
  shows "sensor_ok (store_text f s)"
proof -
  note T = frame_text [OF assms(1-3)]
  define s1 where "s1 = (if f ! 1 = 1 \<and> c_string (s_id s) \<noteq> c_string (take 16 (drop 4 f)) then empty_sensor else s)"
  have s1: "sensor_ok s1" using assms(4) empty_sensor_ok by (simp add: s1_def)
  have m: "s_metadata s1 OR push_bit (unat (f ! 1) - 1) 1 \<le> 7"
    using s1 kind_cases [OF assms(1,2)] by (intro byte_le_7_or) (auto simp: sensor_ok_def)
  have b: "bit (s_metadata s1 OR push_bit (unat (f ! 1) - 1) 1) 0 \<longleftrightarrow> bit (s_metadata s1) 0 \<or> f ! 1 = 1"
    using kind_cases [OF assms(1,2)] by (auto simp: bit_simps)
  define v where "v = take 16 (drop 4 f)"
  have eq: "store_text f s = (if f ! 1 = 1 then s1\<lparr>s_id := v\<rparr> else if f ! 1 = 2 then s1\<lparr>s_name := v\<rparr>
      else s1\<lparr>s_units := v\<rparr>)\<lparr>s_metadata := s_metadata s1 OR push_bit (unat (f ! 1) - 1) 1\<rparr>"
    by (simp add: store_text_def Let_def s1_def v_def)
  note T = T [folded v_def] and s1 = s1 [unfolded sensor_ok_def]
  consider "f ! 1 = 1" | "f ! 1 = 2" | "f ! 1 = 3" using kind_cases [OF assms(1,2)] by blast
  then show ?thesis
    by cases (use s1 T m b in \<open>simp_all add: eq sensor_ok_def\<close>)
qed

lemma store_sample_ok: "sensor_ok s \<Longrightarrow> sensor_ok (store_sample f now s)"
  by (auto simp: store_sample_def Let_def sensor_ok_def)

lemma accept_ok:
  assumes "model_ok m" "length f = 20" "telemetry_accept f now m = (ok, m')"
  shows "model_ok m'"
proof (cases "frame_ok f")
  case False
  then show ?thesis using assms by (simp add: telemetry_accept_def)
next
  case True
  define m1 where "m1 = (if m_count m \<noteq> f ! 3 then empty_model\<lparr>m_count := f ! 3\<rparr> else m)"
  have f: "f ! 3 \<le> 8" "f ! 2 < f ! 3" using True by (auto simp: frame_ok_def not_le)
  then have i: "unat (f ! 2) < 8" "unat (f ! 2) < unat (f ! 3)"
    by (auto simp: word_le_nat_alt word_less_nat_alt)
  have m1: "model_ok m1" "m_count m1 = f ! 3"
    using assms(1) f empty_model_ok by (auto simp: m1_def model_ok_def empty_model_def kMaxSensors_def)
  define g where "g = (if f ! 1 \<noteq> 4 then store_text f else store_sample f now)"
  have m': "m' = m1\<lparr>sensors := (sensors m1)[unat (f ! 2) := g (sensors m1 ! unat (f ! 2))]\<rparr>"
    using assms(3) True by (simp add: telemetry_accept_def Let_def m1_def g_def)
  have "sensor_ok (sensors m1 ! unat (f ! 2))" using m1 i by (auto simp: model_ok_def list_all_length)
  then have "sensor_ok (g (sensors m1 ! unat (f ! 2)))"
    using store_text_ok [OF True _ assms(2)] store_sample_ok by (simp add: g_def)
  then show ?thesis
    using m1 i by (auto simp: model_ok_def m' list_all_length nth_list_update)
qed

definition text_ok :: "bytes \<Rightarrow> bool" where
  "text_ok v \<longleftrightarrow> length v \<le> 15 \<and> printable v"

lemma text_ok_c_string: "text_ok v \<Longrightarrow> c_string v = v"
  unfolding text_ok_def printable_def c_string_def
  by (auto simp: takeWhile_eq_all_conv list_all_iff)

lemma text_frame_fields:
  assumes "text_ok v"
  shows "length (text_frame k i n v) = 20" "text_frame k i n v ! 0 = 1" "text_frame k i n v ! Suc 0 = kind_code k"
    "text_frame k i n v ! 2 = i" "text_frame k i n v ! 3 = n"
    "drop 4 (text_frame k i n v) = v @ replicate (16 - length v) 0"
    "text_frame k i n v ! 19 = 0" "v \<noteq> [] \<Longrightarrow> text_frame k i n v ! 4 = hd v"
  using assms text_ok_c_string [OF assms]
  by (auto simp: text_frame_def Let_def text_ok_def nth_append hd_conv_nth nth_Cons' not_less)

lemma c_string_padded: "text_ok v \<Longrightarrow> 0 < n \<Longrightarrow> c_string (v @ replicate n 0) = v"
  using c_string_append_zero [of v "replicate (n - 1) 0"] text_ok_c_string [of v]
  by (metis Suc_pred' replicate_Suc)

lemma text_frame_ok:
  assumes "text_ok v" "k = KId \<Longrightarrow> v \<noteq> []" "0 < n" "n \<le> 8" "i < n"
  shows "frame_ok (text_frame k i n v)"
proof -
  note F = text_frame_fields [OF assms(1), of k i n]
  have "take 15 (v @ replicate (16 - length v) 0) = v @ replicate (15 - length v) 0"
    using assms(1) by (simp add: text_ok_def take_replicate min_def)
  moreover have "c_string (v @ replicate (15 - length v) 0) = v"
    using c_string_padded [OF assms(1)] text_ok_c_string [OF assms(1)]
    by (cases "15 - length v = 0") auto
  ultimately have "printable (c_string (take 15 (drop 4 (text_frame k i n v))))"
    using assms(1) by (simp add: F text_ok_def)
  moreover have "k = KId \<Longrightarrow> text_frame k i n v ! 4 \<noteq> 0"
    using F(8) assms(1,2) hd_in_set [of v] by (force simp: text_ok_def printable_def list_all_iff)
  moreover have "kind_code k \<noteq> 4 \<and> \<not> kind_code k < 1 \<and> \<not> kind_code k > 4" "kind_code k = 1 \<longleftrightarrow> k = KId"
    by (cases k; simp)+
  ultimately show ?thesis
    using F(1-5,7) assms(3-5) by (auto simp: frame_ok_def)
qed

text \<open>What one text frame does to the sensor it names.\<close>

definition put_text :: "Kind \<Rightarrow> bytes \<Rightarrow> Sensor \<Rightarrow> Sensor" where
  "put_text k v s =
     (let pad = v @ replicate (16 - length v) 0;
          s = (if k = KId \<and> c_string (s_id s) \<noteq> v then empty_sensor else s);
          s = (case k of KId \<Rightarrow> s\<lparr>s_id := pad\<rparr> | KName \<Rightarrow> s\<lparr>s_name := pad\<rparr> | KUnits \<Rightarrow> s\<lparr>s_units := pad\<rparr>)
      in s\<lparr>s_metadata := s_metadata s OR (case k of KId \<Rightarrow> 1 | KName \<Rightarrow> 2 | KUnits \<Rightarrow> 4)\<rparr>)"

lemma store_text_frame:
  assumes "text_ok v"
  shows "store_text (text_frame k i n v) s = put_text k v s"
proof -
  note F = text_frame_fields [OF assms, of _ i n]
  have "take 16 (drop 4 (text_frame q i n v)) = v @ replicate (16 - length v) 0" for q
    using assms by (simp add: F text_ok_def)
  moreover have "c_string (v @ replicate (16 - length v) 0) = v"
    using assms by (intro c_string_padded) (auto simp: text_ok_def)
  ultimately show ?thesis by (cases k) (simp_all add: store_text_def put_text_def Let_def F(3))
qed

definition put_sample :: "u32 \<Rightarrow> bool \<Rightarrow> SensorFault \<Rightarrow> bool \<Rightarrow> u32 \<Rightarrow> Sensor \<Rightarrow> Sensor" where
  "put_sample value valid fault warning now s =
     (let ok = valid \<and> isfinite value;
          s = s\<lparr>s_value := value, s_valid := ok, s_fault := fault, s_warning := warning,
                s_received := True, s_receivedMs := now\<rparr>
      in if ok \<and> fault = FaultNone
         then s\<lparr>s_hasLastGood := True, s_lastGoodValue := value, s_lastGoodMs := now\<rparr> else s)"

lemma sample_frame_fields:
  "length (sample_frame i n v ok f w) = 20" "sample_frame i n v ok f w ! 0 = 1"
  "sample_frame i n v ok f w ! Suc 0 = 4" "sample_frame i n v ok f w ! 2 = i" "sample_frame i n v ok f w ! 3 = n"
  "sample_frame i n v ok f w ! 4 = of_bool (ok \<and> isfinite v)"
  "sample_frame i n v ok f w ! 5 = fault_code f" "sample_frame i n v ok f w ! 6 = of_bool w"
  "get32 (drop 8 (sample_frame i n v ok f w)) = v"
  by (simp_all add: sample_frame_def get32_put32)

lemma sample_frame_ok: "0 < n \<Longrightarrow> n \<le> 8 \<Longrightarrow> i < n \<Longrightarrow> frame_ok (sample_frame i n v ok f w)"
  using fault_code_le [of f] by (auto simp: frame_ok_def sample_frame_fields)

lemma store_sample_frame: "store_sample (sample_frame i n v ok f w) now s = put_sample v ok f w now s"
  by (auto simp: store_sample_def put_sample_def Let_def sample_frame_fields)

definition model_for :: "byte \<Rightarrow> Model \<Rightarrow> Model" where
  "model_for n m = (if m_count m \<noteq> n then empty_model\<lparr>m_count := n\<rparr> else m)"

definition on_sensor :: "byte \<Rightarrow> (Sensor \<Rightarrow> Sensor) \<Rightarrow> Model \<Rightarrow> Model" where
  "on_sensor i g m = m\<lparr>sensors := (sensors m)[unat i := g (sensors m ! unat i)]\<rparr>"

lemma on_sensor_compose:
  "unat i < length (sensors m) \<Longrightarrow> on_sensor i g (on_sensor i f m) = on_sensor i (g \<circ> f) m"
  by (simp add: on_sensor_def)

lemma on_sensor_facts [simp]:
  "m_count (on_sensor i g m) = m_count m" "length (sensors (on_sensor i g m)) = length (sensors m)"
  "unat i < length (sensors m) \<Longrightarrow> sensors (on_sensor i g m) ! unat i = g (sensors m ! unat i)"
  "k \<noteq> unat i \<Longrightarrow> sensors (on_sensor i g m) ! k = sensors m ! k"
  by (simp_all add: on_sensor_def)

lemma accept_text:
  assumes "text_ok v" "k = KId \<Longrightarrow> v \<noteq> []" "0 < n" "n \<le> 8" "i < n"
  shows "telemetry_accept (text_frame k i n v) now m = (True, on_sensor i (put_text k v) (model_for n m))"
proof -
  note F = text_frame_fields [OF assms(1), of k i n]
  have "kind_code k \<noteq> 4" by (cases k) simp_all
  then show ?thesis
    using text_frame_ok [OF assms] store_text_frame [OF assms(1), of k i n]
    by (simp add: telemetry_accept_def Let_def F(3-5) on_sensor_def model_for_def)
qed

lemma accept_sample:
  assumes "0 < n" "n \<le> 8" "i < n"
  shows "telemetry_accept (sample_frame i n v ok f w) now m =
    (True, on_sensor i (put_sample v ok f w now) (model_for n m))"
  using sample_frame_ok [OF assms, of v ok f w] store_sample_frame [of i n v ok f w now]
  by (simp add: telemetry_accept_def Let_def sample_frame_fields on_sensor_def model_for_def)

fun telemetry_run :: "(bytes \<times> u32) list \<Rightarrow> Model \<Rightarrow> Model" where
  "telemetry_run [] m = m"
| "telemetry_run ((f, now) # fs) m = telemetry_run fs (snd (telemetry_accept f now m))"

lemma telemetry_run_ok:
  "model_ok m \<Longrightarrow> list_all (\<lambda>(f, now). length f = 20) fs \<Longrightarrow> model_ok (telemetry_run fs m)"
proof (induction fs m rule: telemetry_run.induct)
  case (2 f now fs m)
  then show ?case using accept_ok [of m f now] by (cases "telemetry_accept f now m") auto
qed simp

subsection \<open>DashUploadStatus.h\<close>

datatype UpState = UpUnknown | UpDisabled | UpFailed | UpServerAccepted | UpTransportSent
datatype UpTransport = TrUnknown | TrHttps | TrMqtt

primrec up_code :: "UpState \<Rightarrow> byte" where
  "up_code UpUnknown = 0" | "up_code UpDisabled = 1" | "up_code UpFailed = 2"
| "up_code UpServerAccepted = 3" | "up_code UpTransportSent = 4"

primrec tr_code :: "UpTransport \<Rightarrow> byte" where
  "tr_code TrUnknown = 0" | "tr_code TrHttps = 1" | "tr_code TrMqtt = 2"

definition up_of_code :: "byte \<Rightarrow> UpState" where
  "up_of_code b = (if b = 0 then UpUnknown else if b = 1 then UpDisabled else if b = 2 then UpFailed
     else if b = 3 then UpServerAccepted else UpTransportSent)"

definition tr_of_code :: "byte \<Rightarrow> UpTransport" where
  "tr_of_code b = (if b = 0 then TrUnknown else if b = 1 then TrHttps else TrMqtt)"

record UpStatus =
  up_state :: UpState
  up_transport :: UpTransport
  up_successAgeMs :: u32
  up_expectedIntervalMs :: u32

definition kNever :: u32 where "kNever = 0xFFFFFFFF"

definition up_encode_raw :: "byte \<Rightarrow> byte \<Rightarrow> u32 \<Rightarrow> u32 \<Rightarrow> bytes" where
  "up_encode_raw st tr ageMs intervalMs = [1, st, tr, 0] @ put32 ageMs @ put32 intervalMs @ replicate 8 0"

definition up_encode :: "UpStatus \<Rightarrow> bytes" where
  "up_encode s = up_encode_raw (up_code (up_state s)) (tr_code (up_transport s)) (up_successAgeMs s)
     (up_expectedIntervalMs s)"

definition up_decode :: "bytes \<Rightarrow> UpStatus option" where
  "up_decode f =
     (if f ! 0 \<noteq> 1 \<or> f ! 1 > 4 \<or> f ! 2 > 2 \<or> f ! 3 \<noteq> 0 then None
      else if list_ex (\<lambda>b. b \<noteq> 0) (take 8 (drop 12 f)) then None
      else let s = \<lparr>up_state = up_of_code (f ! 1), up_transport = tr_of_code (f ! 2),
                    up_successAgeMs = get32 (drop 4 f), up_expectedIntervalMs = get32 (drop 8 f)\<rparr> in
        if up_expectedIntervalMs s = 0 then None
        else if (up_state s = UpServerAccepted \<and> up_transport s \<noteq> TrHttps) \<or>
                (up_state s = UpTransportSent \<and> up_transport s \<noteq> TrMqtt) then None
        else if (up_state s = UpServerAccepted \<or> up_state s = UpTransportSent) \<and>
                up_successAgeMs s = kNever then None
        else Some s)"

definition up_window :: "u32 \<Rightarrow> u32" where
  "up_window interval =
     (let v = unat interval * 3 in
      if v < 5000 then 5000 else if v \<ge> unat kNever then kNever - 1 else of_nat v)"

datatype View = ViewUnknown | ViewDisabled | ViewFailed | ViewAccepted | ViewUnconfirmed | ViewStale

record UpModel =
  um_status :: UpStatus
  um_receivedMs :: u32
  um_received :: bool

definition empty_up_model :: UpModel where
  "empty_up_model = \<lparr>um_status = \<lparr>up_state = UpUnknown, up_transport = TrUnknown,
     up_successAgeMs = kNever, up_expectedIntervalMs = 1000\<rparr>, um_receivedMs = 0, um_received = False\<rparr>"

definition up_accept :: "bytes \<Rightarrow> u32 \<Rightarrow> UpModel \<Rightarrow> bool \<times> UpModel" where
  "up_accept f now m = (case up_decode f of None \<Rightarrow> (False, m)
     | Some s \<Rightarrow> (True, m\<lparr>um_status := s, um_receivedMs := now, um_received := True\<rparr>))"

definition up_age :: "u32 \<Rightarrow> UpModel \<Rightarrow> u32" where
  "up_age now m =
     (if \<not> um_received m \<or> up_successAgeMs (um_status m) = kNever then kNever
      else let v = unat (up_successAgeMs (um_status m)) + unat (since now (um_receivedMs m))
           in if v \<ge> unat kNever then kNever - 1 else of_nat v)"

definition up_view :: "bool \<Rightarrow> u32 \<Rightarrow> UpModel \<Rightarrow> View" where
  "up_view connected now m =
     (if \<not> connected \<or> \<not> um_received m then ViewUnknown
      else if 5000 \<le> since now (um_receivedMs m) then ViewStale
      else if up_state (um_status m) = UpDisabled then ViewDisabled
      else if up_state (um_status m) = UpFailed then ViewFailed
      else if up_state (um_status m) = UpUnknown then ViewUnknown
      else if up_window (up_expectedIntervalMs (um_status m)) \<le> up_age now m then ViewStale
      else if up_state (um_status m) = UpServerAccepted then ViewAccepted else ViewUnconfirmed)"

primrec view_name :: "View \<Rightarrow> string" where
  "view_name ViewUnknown = ''unknown''" | "view_name ViewDisabled = ''disabled''"
| "view_name ViewFailed = ''failed''" | "view_name ViewAccepted = ''accepted''"
| "view_name ViewUnconfirmed = ''unconfirmed''" | "view_name ViewStale = ''stale''"

definition view_colour :: "View \<Rightarrow> u16" where
  "view_colour v = (if v = ViewAccepted then 0x07e0 else if v = ViewFailed then 0xf800
     else if v = ViewUnconfirmed then 0xfd20 else 0x8410)"

text \<open>A status that makes sense: an acceptance names its transport and has an age.\<close>

definition status_ok :: "UpStatus \<Rightarrow> bool" where
  "status_ok s \<longleftrightarrow> up_expectedIntervalMs s \<noteq> 0 \<and>
     (up_state s = UpServerAccepted \<longrightarrow> up_transport s = TrHttps \<and> up_successAgeMs s \<noteq> kNever) \<and>
     (up_state s = UpTransportSent \<longrightarrow> up_transport s = TrMqtt \<and> up_successAgeMs s \<noteq> kNever)"

lemma up_codes [simp]: "up_of_code (up_code s) = s" "\<not> 4 < up_code s"
  by (cases s; simp add: up_of_code_def)+

lemma tr_codes [simp]: "tr_of_code (tr_code t) = t" "\<not> 2 < tr_code t"
  by (cases t; simp add: tr_of_code_def)+

lemma up_encode_fields:
  "up_encode s ! 0 = 1" "up_encode s ! Suc 0 = up_code (up_state s)" "up_encode s ! 2 = tr_code (up_transport s)"
  "up_encode s ! 3 = 0" "take 8 (drop 12 (up_encode s)) = replicate 8 0"
  "get32 (drop 4 (up_encode s)) = up_successAgeMs s" "get32 (drop 8 (up_encode s)) = up_expectedIntervalMs s"
  by (simp_all add: up_encode_def up_encode_raw_def get32_put32)

lemma up_decode_encode: "up_decode (up_encode s) = (if status_ok s then Some s else None)"
  by (auto simp: up_decode_def up_encode_fields Let_def status_ok_def list_ex_iff)

lemma up_decode_ok: "up_decode f = Some s \<Longrightarrow> status_ok s"
  by (auto simp: up_decode_def Let_def status_ok_def split: if_splits)

lemma up_age_exact:
  assumes "um_received m" "up_successAgeMs (um_status m) \<noteq> kNever"
    "unat (up_successAgeMs (um_status m)) + unat (since now (um_receivedMs m)) < 4294967295"
  shows "unat (up_age now m) = unat (up_successAgeMs (um_status m)) + unat (since now (um_receivedMs m))"
  using assms by (simp add: up_age_def kNever_def Let_def unat_add_no_wrap)

subsection \<open>DashDiagnostics.h\<close>

record DiagEvent =
  de_ms :: u32
  de_ageMs :: u32
  de_sensor :: byte
  de_state :: byte

record DiagLog =
  dl_events :: "DiagEvent list"
  dl_total :: u32

definition empty_diag_event :: DiagEvent where
  "empty_diag_event = \<lparr>de_ms = 0, de_ageMs = 0, de_sensor = 255, de_state = 0\<rparr>"

definition empty_diag_log :: DiagLog where
  "empty_diag_log = \<lparr>dl_events = replicate 64 empty_diag_event, dl_total = 0\<rparr>"

definition diag_add :: "DiagEvent \<Rightarrow> DiagLog \<Rightarrow> DiagLog" where
  "diag_add e l = \<lparr>dl_events = (dl_events l)[unat (dl_total l) mod 64 := e], dl_total = dl_total l + 1\<rparr>"

definition diag_size :: "DiagLog \<Rightarrow> nat" where
  "diag_size l = (if unat (dl_total l) < 64 then unat (dl_total l) else 64)"

definition diag_at :: "nat \<Rightarrow> DiagLog \<Rightarrow> DiagEvent" where
  "diag_at i l = dl_events l ! ((unat (dl_total l) - diag_size l + i) mod 64)"

definition diag_state :: "Sensor \<Rightarrow> bool \<Rightarrow> u32 \<Rightarrow> byte" where
  "diag_state s connected now =
     (if \<not> connected then 2 else if \<not> s_received s then 0 else if s_metadata s \<noteq> 7 then 1
      else if \<not> fresh True now s then 3
      else if s_valid s \<and> s_fault s = FaultNone then 5 else 4)"

definition diag_name :: "byte \<Rightarrow> string" where
  "diag_name st = (if st < 6 then [''no_sample'', ''metadata_incomplete'', ''disconnected'', ''stale'',
     ''sensor_fault'', ''live''] ! unat st else ''link'')"

definition formatEvent :: "nat \<Rightarrow> DiagEvent \<Rightarrow> string" where
  "formatEvent capacity e = snprintf capacity
     (''['' @ dec (unat (de_ms e) div 1000) @ ''.'' @ fmt_u 3 (unat (de_ms e) mod 1000) @ ''] '' @
      (if de_state e = 5 then ''INFO'' else ''WARN'') @ '' apexi-dash sensor_state sensor='' @
      dec (unat (de_sensor e)) @ '' state='' @ diag_name (de_state e) @ '' sample_age_ms='' @
      dec (unat (de_ageMs e)) @ [char_of (10 :: nat)])"

definition diag_run :: "DiagEvent list \<Rightarrow> DiagLog" where
  "diag_run es = fold diag_add es empty_diag_log"

lemma diag_run_snoc: "diag_run (es @ [e]) = diag_add e (diag_run es)"
  by (simp add: diag_run_def)

lemma diag_run_facts:
  "length es < 4294967296 \<Longrightarrow> unat (dl_total (diag_run es)) = length es \<and> length (dl_events (diag_run es)) = 64 \<and>
    (\<forall>j < length es. length es \<le> j + 64 \<longrightarrow> dl_events (diag_run es) ! (j mod 64) = es ! j)"
proof (induction es rule: rev_induct)
  case Nil
  then show ?case by (simp add: diag_run_def empty_diag_log_def)
next
  case (snoc e es)
  let ?l = "diag_run es"
  from snoc have IH: "unat (dl_total ?l) = length es" "length (dl_events ?l) = 64"
    "\<And>j. j < length es \<Longrightarrow> length es \<le> j + 64 \<Longrightarrow> dl_events ?l ! (j mod 64) = es ! j" by auto
  have t: "unat (dl_total ?l + 1) = Suc (length es)"
    using IH(1) snoc.prems by (subst unat_add_no_wrap) auto
  have "dl_events (diag_add e ?l) ! (j mod 64) = (es @ [e]) ! j"
    if j: "j < Suc (length es)" "Suc (length es) \<le> j + 64" for j
  proof (cases "j = length es")
    case True
    then show ?thesis using IH by (simp add: diag_add_def)
  next
    case False
    then have "j mod 64 \<noteq> length es mod 64"
    proof -
      have "length es - j < 64" "0 < length es - j" "j + (length es - j) = length es"
        using j False by linarith+
      then show ?thesis using mod_window_inj [of 0 64 "length es - j" j] by auto
    qed
    then show ?thesis using IH j False by (simp add: diag_add_def nth_append)
  qed
  then show ?case using IH(2) t by (simp add: diag_run_snoc) (simp add: diag_add_def)
qed

subsection \<open>Properties\<close>

text \<open>
  C31: what the dash shows of a sensor is well-formed, whatever frames arrive. After any sequence of
  20-byte frames the model holds eight sensors of which those beyond the announced count are
  empty; every text is terminated and printable, an identifier is known exactly when its bit is
  set, and a value marked valid (or last good) is a finite number that was received.
\<close>

theorem telemetry_model_ok:
  assumes "list_all (\<lambda>(f, now). length f = 20) fs"
  shows "model_ok (telemetry_run fs empty_model)"
  using telemetry_run_ok [OF empty_model_ok assms] .

lemma telemetry_model_ok_witness:
  "model_ok (telemetry_run [(text_frame KId 0 2 [97], 5), (sample_frame 0 2 0x3F800000 True FaultNone False, 9)]
     empty_model)"
  by (rule telemetry_model_ok) (simp add: sample_frame_fields text_frame_def c_string_def Let_def)

text \<open>
  C30: a sensor published as its four frames is shown as published. From any model, the frames for
  identifier, name, units and sample of sensor \<open>i\<close> of \<open>n\<close> leave a sensor with these texts, this
  value, fault and warning, complete metadata and the reception time, valid exactly if the
  sample was valid and finite; it is fresh for three seconds on a live connection. Readings of
  another identifier that occupied the place are gone.
\<close>

theorem telemetry_roundtrip:
  assumes "model_ok m" "0 < n" "n \<le> 8" "i < n"
    and "text_ok v" "v \<noteq> []" "text_ok nm" "text_ok un"
    and "s = sensors (telemetry_run [(text_frame KId i n v, t1), (text_frame KName i n nm, t2),
      (text_frame KUnits i n un, t3), (sample_frame i n value valid fault warning, t)] m) ! unat i"
  shows "c_string (s_id s) = v \<and> c_string (s_name s) = nm \<and> c_string (s_units s) = un \<and>
    s_metadata s = 7 \<and> s_value s = value \<and> s_valid s = (valid \<and> isfinite value) \<and> s_fault s = fault \<and>
    s_warning s = warning \<and> (\<forall>d < 3000. fresh True (t + d) s) \<and>
    (s_hasLastGood s \<longrightarrow> s_lastGoodMs s = t \<or> c_string (s_id (sensors m ! unat i)) = v)"
proof -
  have mf: "model_ok (model_for n m)" "m_count (model_for n m) = n"
    using assms(1,3) empty_model_ok by (auto simp: model_for_def model_ok_def empty_model_def kMaxSensors_def)
  then have i: "unat i < length (sensors (model_for n m))"
    using assms(3,4) by (auto simp: model_ok_def word_less_nat_alt word_le_nat_alt)
  have same: "model_for n (on_sensor i g (model_for n m)) = on_sensor i g (model_for n m)" for g
    using mf by (simp add: model_for_def on_sensor_def)
  define s0 where "s0 = sensors (model_for n m) ! unat i"
  have s0: "sensor_ok s0" using mf i by (auto simp: s0_def model_ok_def list_all_length)
  have a: "telemetry_accept (text_frame KId i n v) x q = (True, on_sensor i (put_text KId v) (model_for n q))"
    "telemetry_accept (text_frame KName i n nm) x q = (True, on_sensor i (put_text KName nm) (model_for n q))"
    "telemetry_accept (text_frame KUnits i n un) x q = (True, on_sensor i (put_text KUnits un) (model_for n q))"
    for x q using assms(2-8) by (auto intro!: accept_text)
  have s: "s = put_sample value valid fault warning t (put_text KUnits un (put_text KName nm (put_text KId v s0)))"
    using assms(2-4,9) i same by (simp add: a accept_sample on_sensor_compose s0_def)
  have pad: "c_string (x @ replicate (16 - length x) 0) = x" if "text_ok x" for x
    using that by (intro c_string_padded) (auto simp: text_ok_def)
  define s1 where "s1 = (if c_string (s_id s0) \<noteq> v then empty_sensor else s0)"
  have s1: "s_metadata s1 \<le> 7" "s_hasLastGood s1 \<longrightarrow> c_string (s_id s0) = v"
    using s0 by (auto simp: s1_def sensor_ok_def empty_sensor_def)
  have "unat (s_metadata s1) < 8" using s1(1) by (simp add: word_le_nat_alt)
  then have "unat (s_metadata s1) \<in> {0, 1, 2, 3, 4, 5, 6, 7}" by auto
  then have "s_metadata s1 = 0 \<or> s_metadata s1 = 1 \<or> s_metadata s1 = 2 \<or> s_metadata s1 = 3 \<or>
      s_metadata s1 = 4 \<or> s_metadata s1 = 5 \<or> s_metadata s1 = 6 \<or> s_metadata s1 = 7"
    by (auto simp: word_unat_eq_iff)
  then have md: "((s_metadata s1 OR 1) OR 2) OR 4 = 7" by (elim disjE) simp_all
  have last: "c_string (s_id s0) = v \<longrightarrow> c_string (s_id (sensors m ! unat i)) = v"
    using i assms(1,6) by (auto simp: s0_def model_for_def empty_model_def kMaxSensors_def empty_sensor_def
        c_string_def split: if_splits)
  have p1: "put_text KId v s0 = s1\<lparr>s_id := v @ replicate (16 - length v) 0, s_metadata := s_metadata s1 OR 1\<rparr>"
    by (simp add: put_text_def s1_def)
  have p2: "put_text KName nm q = q\<lparr>s_name := nm @ replicate (16 - length nm) 0, s_metadata := s_metadata q OR 2\<rparr>"
    "put_text KUnits un q = q\<lparr>s_units := un @ replicate (16 - length un) 0, s_metadata := s_metadata q OR 4\<rparr>"
    for q by (simp_all add: put_text_def)
  define q where "q = put_text KUnits un (put_text KName nm (put_text KId v s0))"
  have q: "c_string (s_id q) = v" "c_string (s_name q) = nm" "c_string (s_units q) = un" "s_metadata q = 7"
    "s_hasLastGood q = s_hasLastGood s1"
    using md pad assms(5,7,8) by (simp_all add: q_def p1 p2)
  show ?thesis
    using q s1(2) last unfolding s q_def [symmetric]
    by (simp add: put_sample_def Let_def fresh_def)
qed

lemma telemetry_roundtrip_witness:
  "c_string (s_id (sensors (telemetry_run [(text_frame KId 0 1 [97], 0), (text_frame KName 0 1 [65], 0),
      (text_frame KUnits 0 1 [67], 0), (sample_frame 0 1 0x3F800000 True FaultNone False, 7)] empty_model) ! 0)) = [97]"
  using telemetry_roundtrip [OF empty_model_ok _ _ _ _ _ _ _ refl, of 1 0 "[97]" "[65]" "[67]" 0 0 0
      "0x3F800000" True FaultNone False 7]
  by (simp add: text_ok_def printable_def)

text \<open>
  The upload status survives its frame, and only sensible statuses do: decoding an encoded
  status gives it back exactly if it has a nonzero interval and an acceptance names its
  transport and an age; every other status is refused by the receiver.
\<close>

theorem upload_status_roundtrip:
  "up_decode (up_encode s) = (if status_ok s then Some s else None)"
  by (rule up_decode_encode)

text \<open>
  the dash shows "accepted" only on fresh evidence. After a status frame was accepted at time
  \<open>t\<close>, the view at a later time is \<open>ViewAccepted\<close> exactly if the connection is up, the frame is
  less than five seconds old, the logger reported a server acceptance, and the age it reported
  plus the time since is below three intervals (at least five seconds), without wrap-around.
\<close>

theorem accepted_view_is_fresh:
  assumes "up_decode f = Some s" "d < 4294967296"
  shows "up_view connected (t + of_nat d) (snd (up_accept f t m)) = ViewAccepted \<longleftrightarrow>
    connected \<and> d < 5000 \<and> up_state s = UpServerAccepted \<and>
    unat (up_successAgeMs s) + d < min 4294967294 (max 5000 (unat (up_expectedIntervalMs s) * 3))"
proof (cases "connected \<and> d < 5000 \<and> up_state s = UpServerAccepted")
  case False
  then show ?thesis
    using assms by (auto simp: up_view_def up_accept_def word_le_nat_alt unat_of_nat take_bit_nat_eq_self)
next
  case True
  have ok: "up_successAgeMs s \<noteq> kNever" using up_decode_ok [OF assms(1)] True by (simp add: status_ok_def)
  define m' where "m' = snd (up_accept f t m)"
  have m': "um_received m'" "um_status m' = s" "um_receivedMs m' = t"
    using assms(1) by (simp_all add: m'_def up_accept_def)
  have d: "unat (since (t + of_nat d) t) = d"
    using assms(2) by (simp add: unat_of_nat take_bit_nat_eq_self)
  have win: "unat (up_window (up_expectedIntervalMs s)) = min 4294967294 (max 5000 (unat (up_expectedIntervalMs s) * 3))"
  proof -
    have "unat (up_expectedIntervalMs s) < 1431655765 \<Longrightarrow>
        unat (up_expectedIntervalMs s * 3) = unat (up_expectedIntervalMs s) * 3"
      by (simp add: unat_word_ariths)
    then show ?thesis by (auto simp: up_window_def kNever_def Let_def not_le)
  qed
  have age: "unat (up_age (t + of_nat d) m') = min 4294967294 (unat (up_successAgeMs s) + d)"
  proof -
    have "unat (up_successAgeMs s) + d < 4294967296 \<Longrightarrow>
        unat (up_successAgeMs s + of_nat d) = unat (up_successAgeMs s) + d"
      using d by (subst unat_add_no_wrap) simp_all
    then show ?thesis using ok m' d by (auto simp: up_age_def kNever_def Let_def not_le)
  qed
  have "up_view connected (t + of_nat d) m' = ViewAccepted \<longleftrightarrow>
      \<not> up_window (up_expectedIntervalMs s) \<le> up_age (t + of_nat d) m'"
    using True m' d by (simp add: up_view_def word_le_nat_alt)
  also have "\<dots> \<longleftrightarrow> unat (up_successAgeMs s) + d < min 4294967294 (max 5000 (unat (up_expectedIntervalMs s) * 3))"
    by (simp only: word_le_nat_alt win age) linarith
  finally show ?thesis using True by (simp add: m'_def)
qed

lemma accepted_view_is_fresh_witness:
  "up_view True 1500 (snd (up_accept (up_encode \<lparr>up_state = UpServerAccepted, up_transport = TrHttps,
     up_successAgeMs = 200, up_expectedIntervalMs = 1000\<rparr>) 1000 empty_up_model)) = ViewAccepted"
  using accepted_view_is_fresh [of "up_encode \<lparr>up_state = UpServerAccepted, up_transport = TrHttps,
     up_successAgeMs = 200, up_expectedIntervalMs = 1000\<rparr>" _ 500 True 1000 empty_up_model]
  by (simp add: up_decode_encode status_ok_def kNever_def)

end
