(* ===== verification/RuntimeSettings.thy ===== *)
theory RuntimeSettings
  imports Prelude
begin

section \<open>RuntimeSettings: settings that survive a restart\<close>

text \<open>
  \<open>logger/firmware/src/RuntimeSettings.cpp\<close>: one packed record in EEPROM, five generations of its
  layout, the settings applied from it, local saves and remote updates. The arrays of characters
  are the strings they hold up to their terminator; the EEPROM is a parameter.
\<close>

subsection \<open>Layouts\<close>

definition kMagic :: u32 where "kMagic = 0x4D444131"
definition kVersion :: u16 where "kVersion = 5"
definition kHostCapacity :: nat where "kHostCapacity = 64"
definition kNtpCapacity :: nat where "kNtpCapacity = 64"
definition kTimeZoneRuleCapacity :: nat where "kTimeZoneRuleCapacity = 64"
definition kTimeZoneLabelCapacity :: nat where "kTimeZoneLabelCapacity = 32"
definition kCloudflareCredentialCapacity :: nat where "kCloudflareCredentialCapacity = 128"

lemmas capacities = kHostCapacity_def kNtpCapacity_def kTimeZoneRuleCapacity_def kTimeZoneLabelCapacity_def
  kCloudflareCredentialCapacity_def

text \<open>\<open>sizeof\<close> of the records; the checksum is the last field.\<close>

definition kRecordSize :: nat where "kRecordSize = 568"
definition kVersion4Size :: nat where "kVersion4Size = 312"
definition kVersion3Size :: nat where "kVersion3Size = 308"
definition kVersion2Size :: nat where "kVersion2Size = 304"
definition kLegacySize :: nat where "kLegacySize = 80"

record SettingsRecord =
  sr_uploadEnabled :: byte
  sr_remoteManagementEnabled :: byte
  sr_uploadProtocol :: byte
  sr_mqttPort :: u16
  sr_appliedConfigVersion :: u32
  sr_mqttHost :: string
  sr_ntpPrimary :: string
  sr_ntpSecondary :: string
  sr_timeZoneRule :: string
  sr_timeZoneLabel :: string
  sr_clientId :: string
  sr_clientSecret :: string

text \<open>A field of bytes, the string in it, and an array that holds a string (\<open>strncpy\<close> into zeroes).\<close>

definition field :: "nat \<Rightarrow> nat \<Rightarrow> bytes \<Rightarrow> bytes" where
  "field offset n bs = take n (drop offset bs)"

definition cstring :: "bytes \<Rightarrow> string" where
  "cstring bs = map (\<lambda>b. char_of (unat b)) (takeWhile (\<lambda>b. b \<noteq> 0) bs)"

definition carray :: "nat \<Rightarrow> string \<Rightarrow> bytes" where
  "carray n s = (let b = take (n - 1) (map (\<lambda>c. of_nat (code c)) s) in b @ replicate (n - length b) 0)"

text \<open>Not empty, and terminated inside its array.\<close>

definition filled :: "nat \<Rightarrow> nat \<Rightarrow> bytes \<Rightarrow> bool" where
  "filled offset n bs \<longleftrightarrow> bs ! offset \<noteq> 0 \<and> bs ! (offset + n - 1) = 0"

definition header_is :: "u16 \<Rightarrow> nat \<Rightarrow> bytes \<Rightarrow> bool" where
  "header_is version n bs \<longleftrightarrow> get32 bs = kMagic \<and> get16 (drop 4 bs) = version \<and> get16 (drop 6 bs) = of_nat n"

definition checksum_ok :: "nat \<Rightarrow> bytes \<Rightarrow> bool" where
  "checksum_ok n bs \<longleftrightarrow> get32 (drop (n - 4) bs) = fnv1a (take (n - 4) bs)"

definition encode_body :: "SettingsRecord \<Rightarrow> bytes" where
  "encode_body r = put32 kMagic @ put16 kVersion @ put16 (of_nat kRecordSize) @
     [sr_uploadEnabled r, sr_remoteManagementEnabled r, sr_uploadProtocol r, 0] @ put16 (sr_mqttPort r) @ [0, 0] @
     put32 (sr_appliedConfigVersion r) @ carray kHostCapacity (sr_mqttHost r) @ carray kNtpCapacity (sr_ntpPrimary r) @
     carray kNtpCapacity (sr_ntpSecondary r) @ carray kTimeZoneRuleCapacity (sr_timeZoneRule r) @
     carray kTimeZoneLabelCapacity (sr_timeZoneLabel r) @ carray kCloudflareCredentialCapacity (sr_clientId r) @
     carray kCloudflareCredentialCapacity (sr_clientSecret r)"

definition encode_record :: "SettingsRecord \<Rightarrow> bytes" where
  "encode_record r = encode_body r @ put32 (fnv1a (encode_body r))"

definition decode_record :: "bytes \<Rightarrow> SettingsRecord" where
  "decode_record bs = \<lparr>sr_uploadEnabled = bs ! 8, sr_remoteManagementEnabled = bs ! 9, sr_uploadProtocol = bs ! 10,
     sr_mqttPort = get16 (drop 12 bs), sr_appliedConfigVersion = get32 (drop 16 bs),
     sr_mqttHost = cstring (field 20 64 bs), sr_ntpPrimary = cstring (field 84 64 bs),
     sr_ntpSecondary = cstring (field 148 64 bs), sr_timeZoneRule = cstring (field 212 64 bs),
     sr_timeZoneLabel = cstring (field 276 32 bs), sr_clientId = cstring (field 308 128 bs),
     sr_clientSecret = cstring (field 436 128 bs)\<rparr>"

subsection \<open>Validity of the five layouts\<close>

definition valid5 :: "bytes \<Rightarrow> bool" where
  "valid5 bs \<longleftrightarrow> header_is kVersion kRecordSize bs \<and> get16 (drop 12 bs) \<noteq> 0 \<and> bs ! 10 \<le> 1 \<and>
     filled 20 64 bs \<and> filled 84 64 bs \<and> filled 148 64 bs \<and> filled 212 64 bs \<and> filled 276 32 bs \<and>
     bs ! (308 + 127) = 0 \<and> bs ! (436 + 127) = 0 \<and> checksum_ok kRecordSize bs"

definition valid4 :: "bytes \<Rightarrow> bool" where
  "valid4 bs \<longleftrightarrow> header_is 4 kVersion4Size bs \<and> get16 (drop 12 bs) \<noteq> 0 \<and> bs ! 10 \<le> 1 \<and>
     filled 20 64 bs \<and> filled 84 64 bs \<and> filled 148 64 bs \<and> filled 212 64 bs \<and> filled 276 32 bs \<and>
     checksum_ok kVersion4Size bs"

definition valid3 :: "bytes \<Rightarrow> bool" where
  "valid3 bs \<longleftrightarrow> header_is 3 kVersion3Size bs \<and> get16 (drop 10 bs) \<noteq> 0 \<and>
     filled 16 64 bs \<and> filled 80 64 bs \<and> filled 144 64 bs \<and> filled 208 64 bs \<and> filled 272 32 bs \<and>
     checksum_ok kVersion3Size bs"

definition valid2 :: "bytes \<Rightarrow> bool" where
  "valid2 bs \<longleftrightarrow> header_is 2 kVersion2Size bs \<and> get16 (drop 10 bs) \<noteq> 0 \<and>
     filled 12 64 bs \<and> filled 76 64 bs \<and> filled 140 64 bs \<and> filled 204 64 bs \<and> filled 268 32 bs \<and>
     checksum_ok kVersion2Size bs"

definition valid1 :: "bytes \<Rightarrow> bool" where
  "valid1 bs \<longleftrightarrow> header_is 1 kLegacySize bs \<and> get16 (drop 10 bs) \<noteq> 0 \<and> filled 12 64 bs \<and>
     checksum_ok kLegacySize bs"

definition settings_validText :: "string \<Rightarrow> nat \<Rightarrow> bool" where
  "settings_validText value capacity \<longleftrightarrow> value \<noteq> [] \<and> length value < capacity \<and>
     list_all (\<lambda>c. \<not> (code c < 0x20 \<or> code c = 0x7F)) value"

subsection \<open>The component\<close>

text \<open>What \<open>AppConfig::UploadConfig\<close> has of it; the protocol is 0 for MQTT and 1 for HTTPS.\<close>

record UploadDefaults =
  ud_protocol :: byte
  ud_mqttHost :: string
  ud_mqttPort :: u16
  ud_clientId :: string
  ud_clientSecret :: string

record RuntimeSettings =
  rs_defaults :: UploadDefaults
  rs_config :: UploadDefaults
  rs_ntpPrimary :: string
  rs_ntpSecondary :: string
  rs_timeZoneRule :: string
  rs_timeZoneLabel :: string
  rs_uploadEnabled :: bool
  rs_remoteManagementEnabled :: bool
  rs_appliedConfigVersion :: u32

definition populateDefaults :: "UploadDefaults \<Rightarrow> bool \<Rightarrow> bool \<Rightarrow> SettingsRecord" where
  "populateDefaults d upload remote = \<lparr>sr_uploadEnabled = of_bool upload, sr_remoteManagementEnabled = of_bool remote,
     sr_uploadProtocol = ud_protocol d, sr_mqttPort = ud_mqttPort d, sr_appliedConfigVersion = 0,
     sr_mqttHost = take 63 (ud_mqttHost d), sr_ntpPrimary = ''pool.ntp.org'', sr_ntpSecondary = ''time.google.com'',
     sr_timeZoneRule = ''AWST-8'', sr_timeZoneLabel = ''AWST'', sr_clientId = take 127 (ud_clientId d),
     sr_clientSecret = take 127 (ud_clientSecret d)\<rparr>"

definition apply_record :: "SettingsRecord \<Rightarrow> RuntimeSettings \<Rightarrow> RuntimeSettings" where
  "apply_record r s = s\<lparr>rs_config := (rs_defaults s)\<lparr>ud_mqttHost := sr_mqttHost r, ud_mqttPort := sr_mqttPort r,
       ud_clientId := sr_clientId r, ud_clientSecret := sr_clientSecret r\<rparr>,
     rs_ntpPrimary := sr_ntpPrimary r, rs_ntpSecondary := sr_ntpSecondary r,
     rs_timeZoneRule := sr_timeZoneRule r, rs_timeZoneLabel := sr_timeZoneLabel r,
     rs_uploadEnabled := (sr_uploadEnabled r \<noteq> 0), rs_remoteManagementEnabled := (sr_remoteManagementEnabled r \<noteq> 0),
     rs_appliedConfigVersion := sr_appliedConfigVersion r\<rparr>"

text \<open>The settings of an older layout, over the defaults.\<close>

definition texts_from :: "nat \<Rightarrow> bytes \<Rightarrow> SettingsRecord \<Rightarrow> SettingsRecord" where
  "texts_from offset bs r = r\<lparr>sr_ntpPrimary := cstring (field offset 64 bs),
     sr_ntpSecondary := cstring (field (offset + 64) 64 bs), sr_timeZoneRule := cstring (field (offset + 128) 64 bs),
     sr_timeZoneLabel := cstring (field (offset + 192) 32 bs)\<rparr>"

definition migrate :: "UploadDefaults \<Rightarrow> bytes \<Rightarrow> SettingsRecord \<Rightarrow> SettingsRecord" where
  "migrate d bs r =
     (if valid4 bs
      then texts_from 84 bs (r\<lparr>sr_uploadEnabled := bs ! 8, sr_remoteManagementEnabled := bs ! 9,
        sr_uploadProtocol := bs ! 10, sr_mqttPort := get16 (drop 12 bs),
        sr_appliedConfigVersion := get32 (drop 16 bs), sr_mqttHost := cstring (field 20 64 bs)\<rparr>)
      else if valid3 bs
      then let r = texts_from 80 bs (r\<lparr>sr_uploadEnabled := bs ! 8, sr_remoteManagementEnabled := bs ! 9,
             sr_appliedConfigVersion := get32 (drop 12 bs)\<rparr>)
        in if ud_protocol d = 0
           then r\<lparr>sr_mqttPort := get16 (drop 10 bs), sr_mqttHost := cstring (field 16 64 bs)\<rparr> else r
      else if valid2 bs
      then texts_from 76 bs (r\<lparr>sr_uploadEnabled := bs ! 8, sr_mqttPort := get16 (drop 10 bs),
        sr_mqttHost := cstring (field 12 64 bs)\<rparr>)
      else if valid1 bs
      then r\<lparr>sr_uploadEnabled := bs ! 8, sr_mqttPort := get16 (drop 10 bs), sr_mqttHost := cstring (field 12 64 bs)\<rparr>
      else r)"

text \<open>The EEPROM emulation: a cache in memory that \<open>commit\<close> makes durable.\<close>

record 'e eeprom_ops =
  ee_begin :: "nat \<Rightarrow> 'e \<Rightarrow> 'e"
  ee_get :: "'e \<Rightarrow> bytes"
  ee_put :: "bytes \<Rightarrow> 'e \<Rightarrow> 'e"
  ee_write :: "nat \<Rightarrow> byte \<Rightarrow> 'e \<Rightarrow> 'e"
  ee_commit :: "'e \<Rightarrow> bool \<times> 'e"

definition fresh_settings :: RuntimeSettings where
  "fresh_settings = (let d = \<lparr>ud_protocol = 0, ud_mqttHost = [], ud_mqttPort = 0, ud_clientId = [], ud_clientSecret = []\<rparr>
     in \<lparr>rs_defaults = d, rs_config = d, rs_ntpPrimary = [], rs_ntpSecondary = [], rs_timeZoneRule = [],
       rs_timeZoneLabel = [], rs_uploadEnabled = False, rs_remoteManagementEnabled = False,
       rs_appliedConfigVersion = 0\<rparr>)"

definition settings_begin ::
  "'e eeprom_ops \<Rightarrow> UploadDefaults \<Rightarrow> bool \<Rightarrow> bool \<Rightarrow> RuntimeSettings \<Rightarrow> 'e \<Rightarrow> RuntimeSettings \<times> 'e" where
  "settings_begin E d upload remote s e =
     (let s = s\<lparr>rs_defaults := d\<rparr>; e = ee_begin E kRecordSize e; bs = ee_get E e
      in if valid5 bs then (apply_record (decode_record bs) s, e)
         else let r = migrate d bs (populateDefaults d upload remote);
                  e = snd (ee_commit E (ee_put E (encode_record r) e))
              in (apply_record r s, e))"

definition settings_save ::
  "'e eeprom_ops \<Rightarrow> string \<Rightarrow> u16 \<Rightarrow> bool \<Rightarrow> string \<Rightarrow> string \<Rightarrow> string \<Rightarrow> string \<Rightarrow> bool \<Rightarrow> u32 \<Rightarrow> string \<Rightarrow> string \<Rightarrow>
   RuntimeSettings \<Rightarrow> 'e \<Rightarrow> bool \<times> RuntimeSettings \<times> 'e" where
  "settings_save E host port enabled ntpPrimary ntpSecondary rule label remote version clientId clientSecret s e =
     (if \<not> settings_validText host kHostCapacity \<or> port = 0 \<or> \<not> settings_validText ntpPrimary kNtpCapacity \<or>
         \<not> settings_validText ntpSecondary kNtpCapacity \<or> \<not> settings_validText rule kTimeZoneRuleCapacity \<or>
         \<not> settings_validText label kTimeZoneLabelCapacity \<or>
         (clientId \<noteq> [] \<and> \<not> settings_validText clientId kCloudflareCredentialCapacity) \<or>
         (clientSecret \<noteq> [] \<and> \<not> settings_validText clientSecret kCloudflareCredentialCapacity)
      then (False, s, e)
      else let r = \<lparr>sr_uploadEnabled = of_bool enabled, sr_remoteManagementEnabled = of_bool remote,
                     sr_uploadProtocol = ud_protocol (rs_defaults s), sr_mqttPort = port,
                     sr_appliedConfigVersion = version, sr_mqttHost = host, sr_ntpPrimary = ntpPrimary,
                     sr_ntpSecondary = ntpSecondary, sr_timeZoneRule = rule, sr_timeZoneLabel = label,
                     sr_clientId = (if clientId = [] then ud_clientId (rs_config s) else clientId),
                     sr_clientSecret = (if clientSecret = [] then ud_clientSecret (rs_config s) else clientSecret)\<rparr>
        in case ee_commit E (ee_put E (encode_record r) e) of
             (False, e) \<Rightarrow> (False, s, e)
           | (True, e) \<Rightarrow> (True, apply_record r s, e))"

record RemoteConfig =
  rc_version :: u32
  rc_hasUploadEnabled :: bool
  rc_uploadEnabled :: bool
  rc_ntpPrimary :: string
  rc_ntpSecondary :: string
  rc_timeZoneRule :: string
  rc_timeZoneLabel :: string

definition applyRemoteConfig ::
  "'e eeprom_ops \<Rightarrow> RemoteConfig \<Rightarrow> RuntimeSettings \<Rightarrow> 'e \<Rightarrow> bool \<times> RuntimeSettings \<times> 'e" where
  "applyRemoteConfig E c s e =
     (if \<not> rs_remoteManagementEnabled s \<or> rc_version c \<le> rs_appliedConfigVersion s then (False, s, e)
      else settings_save E (ud_mqttHost (rs_config s)) (ud_mqttPort (rs_config s))
        (if rc_hasUploadEnabled c then rc_uploadEnabled c else rs_uploadEnabled s)
        (if rc_ntpPrimary c = [] then rs_ntpPrimary s else rc_ntpPrimary c)
        (if rc_ntpSecondary c = [] then rs_ntpSecondary s else rc_ntpSecondary c)
        (if rc_timeZoneRule c = [] then rs_timeZoneRule s else rc_timeZoneRule c)
        (if rc_timeZoneLabel c = [] then rs_timeZoneLabel s else rc_timeZoneLabel c)
        True (rc_version c) [] [] s e)"

definition settings_factoryReset :: "'e eeprom_ops \<Rightarrow> 'e \<Rightarrow> bool \<times> 'e" where
  "settings_factoryReset E e =
     ee_commit E (fold (\<lambda>i. ee_write E i 0xFF) [0..<kRecordSize] (ee_begin E kRecordSize e))"

definition uploadServerLabel :: "string \<Rightarrow> RuntimeSettings \<Rightarrow> string" where
  "uploadServerLabel httpsPath s =
     (if ud_mqttHost (rs_config s) = [] then ''Not configured''
      else ud_mqttHost (rs_config s) @ '':'' @ fmt_u 1 (unat (ud_mqttPort (rs_config s))) @
        (if ud_protocol (rs_config s) = 1 then httpsPath else []))"


subsection \<open>Fields of a record\<close>

definition text_fits :: "nat \<Rightarrow> string \<Rightarrow> bool" where
  "text_fits n s \<longleftrightarrow> length s < n \<and> list_all (\<lambda>c. code c \<noteq> 0) s"

lemma unat_byte_code [simp]: "unat (of_nat (code c) :: byte) = code c"
  by (simp add: unsigned_of_nat take_bit_nat_eq_self)

lemma byte_code_0 [simp]: "(of_nat (code c) :: byte) = 0 \<longleftrightarrow> code c = 0"
proof
  assume "(of_nat (code c) :: byte) = 0"
  then have "unat (of_nat (code c) :: byte) = 0" by (simp only: unat_0)
  then show "code c = 0" by simp
qed simp

lemma text_fitsI: "settings_validText s n \<Longrightarrow> text_fits n s"
  by (auto simp: settings_validText_def text_fits_def list_all_iff)

lemma text_fits_Nil [simp]: "0 < n \<Longrightarrow> text_fits n []"
  by (simp add: text_fits_def)

lemma length_carray [simp]: "0 < n \<Longrightarrow> length (carray n s) = n"
  by (simp add: carray_def Let_def)

lemma cstring_carray [simp]:
  assumes "text_fits n s"
  shows "cstring (carray n s) = s"
proof -
  have "takeWhile (\<lambda>b. b \<noteq> 0) (map (\<lambda>c. of_nat (code c)) s @ replicate k (0 :: byte)) = map (\<lambda>c. of_nat (code c)) s" for k
    using assms by (subst takeWhile_append2) (auto simp: text_fits_def list_all_iff takeWhile_replicate)
  moreover have "carray n s = map (\<lambda>c. of_nat (code c)) s @ replicate (n - length s) 0"
    using assms by (auto simp: carray_def text_fits_def Let_def)
  ultimately show ?thesis by (simp add: cstring_def comp_def)
qed

lemma carray_first: "text_fits n s \<Longrightarrow> s \<noteq> [] \<Longrightarrow> carray n s ! 0 \<noteq> 0"
  by (cases s; cases n) (auto simp: text_fits_def carray_def Let_def nth_append)

lemma carray_last: "0 < n \<Longrightarrow> carray n s ! (n - 1) = 0"
  by (auto simp: carray_def Let_def nth_append)

lemmas carray_lasts [simp] = carray_last [of 32, simplified] carray_last [of 64, simplified] carray_last [of 128, simplified]

lemma cstring_fits:
  assumes "length bs = n" "bs ! (n - 1) = 0" "0 < n"
  shows "text_fits n (cstring bs)"
proof -
  have "last bs = 0" "bs \<noteq> []" using assms by (auto simp: last_conv_nth)
  then have "\<exists>b \<in> set bs. b = 0" using last_in_set by metis
  then have "length (takeWhile (\<lambda>b. b \<noteq> 0) bs) < length bs"
    by (induction bs) auto
  moreover have "code (char_of (unat b)) \<noteq> 0" if "b \<noteq> 0" for b :: byte
  proof -
    have "unat b < 2 ^ LENGTH(8)" by (rule unsigned_less)
    then show ?thesis using that by (simp add: unat_eq_zero)
  qed
  ultimately show ?thesis using assms(1)
    by (auto simp: text_fits_def cstring_def list_all_iff dest: set_takeWhileD)
qed

lemma cstring_empty: "length bs = n \<Longrightarrow> 0 < n \<Longrightarrow> cstring bs = [] \<longleftrightarrow> bs ! 0 = 0"
  by (cases bs) (auto simp: cstring_def)

lemma field_skip: "length xs \<le> k \<Longrightarrow> field k n (xs @ ys) = field (k - length xs) n ys"
  by (simp add: field_def)

lemma field_here: "length xs = n \<Longrightarrow> field 0 n (xs @ ys) = xs"
  by (simp add: field_def)

lemma filled_field: "k + n \<le> length bs \<Longrightarrow> 0 < n \<Longrightarrow>
    filled k n bs \<longleftrightarrow> field k n bs ! 0 \<noteq> 0 \<and> field k n bs ! (n - 1) = 0"
  by (simp add: filled_def field_def)

lemma length_field: "k + n \<le> length bs \<Longrightarrow> length (field k n bs) = n"
  by (simp add: field_def)


subsection \<open>The record in its layout\<close>

definition wf_record :: "SettingsRecord \<Rightarrow> bool" where
  "wf_record r \<longleftrightarrow> text_fits 64 (sr_mqttHost r) \<and> text_fits 64 (sr_ntpPrimary r) \<and> text_fits 64 (sr_ntpSecondary r) \<and>
     text_fits 64 (sr_timeZoneRule r) \<and> text_fits 32 (sr_timeZoneLabel r) \<and> text_fits 128 (sr_clientId r) \<and>
     text_fits 128 (sr_clientSecret r)"

definition filled_record :: "SettingsRecord \<Rightarrow> bool" where
  "filled_record r \<longleftrightarrow> wf_record r \<and> sr_mqttPort r \<noteq> 0 \<and> sr_uploadProtocol r \<le> 1 \<and> sr_mqttHost r \<noteq> [] \<and>
     sr_ntpPrimary r \<noteq> [] \<and> sr_ntpSecondary r \<noteq> [] \<and> sr_timeZoneRule r \<noteq> [] \<and> sr_timeZoneLabel r \<noteq> []"

lemma length_encode_body [simp]: "length (encode_body r) = 564"
  by (simp add: encode_body_def capacities)

lemma length_encode_record [simp]: "length (encode_record r) = kRecordSize"
  by (simp add: encode_record_def kRecordSize_def)

lemma put32_drop: "4 \<le> n \<Longrightarrow> drop n (put32 v @ ys) = drop (n - 4) ys"
  by simp

lemma encode_scalars:
  "get32 (encode_record r) = kMagic" "get16 (drop 4 (encode_record r)) = kVersion"
  "get16 (drop 6 (encode_record r)) = of_nat kRecordSize"
  "encode_record r ! 8 = sr_uploadEnabled r" "encode_record r ! 9 = sr_remoteManagementEnabled r"
  "encode_record r ! 10 = sr_uploadProtocol r" "get16 (drop 12 (encode_record r)) = sr_mqttPort r"
  "get32 (drop 16 (encode_record r)) = sr_appliedConfigVersion r"
  by (simp_all add: encode_record_def encode_body_def get32_put32 get16_put16 nth_append)

lemma encode_fields:
  "field 20 64 (encode_record r) = carray 64 (sr_mqttHost r)" "field 84 64 (encode_record r) = carray 64 (sr_ntpPrimary r)"
  "field 148 64 (encode_record r) = carray 64 (sr_ntpSecondary r)"
  "field 212 64 (encode_record r) = carray 64 (sr_timeZoneRule r)"
  "field 276 32 (encode_record r) = carray 32 (sr_timeZoneLabel r)"
  "field 308 128 (encode_record r) = carray 128 (sr_clientId r)"
  "field 436 128 (encode_record r) = carray 128 (sr_clientSecret r)"
  by (simp_all add: encode_record_def encode_body_def capacities field_skip field_here field_def)

lemma decode_encode: "wf_record r \<Longrightarrow> decode_record (encode_record r) = r"
  by (simp add: decode_record_def encode_scalars encode_fields wf_record_def)

lemma valid5_encode:
  assumes "filled_record r"
  shows "valid5 (encode_record r)"
proof -
  have "checksum_ok kRecordSize (encode_record r)"
    by (simp add: checksum_ok_def kRecordSize_def encode_record_def get32_put32_Nil)
  moreover have "filled 20 64 (encode_record r)" "filled 84 64 (encode_record r)" "filled 148 64 (encode_record r)"
    "filled 212 64 (encode_record r)" "filled 276 32 (encode_record r)"
    using assms by (simp_all add: filled_field kRecordSize_def encode_fields filled_record_def wf_record_def carray_first)
  moreover have "field 308 128 (encode_record r) ! 127 = 0" "field 436 128 (encode_record r) ! 127 = 0"
    by (simp_all add: encode_fields)
  then have "encode_record r ! (308 + 127) = 0" "encode_record r ! (436 + 127) = 0"
    by (simp_all add: field_def kRecordSize_def)
  ultimately show ?thesis
    using assms by (simp add: valid5_def header_is_def encode_scalars filled_record_def)
qed


lemma filled_text:
  assumes "filled k n bs" "k + n \<le> length bs" "0 < n"
  shows "text_fits n (cstring (field k n bs)) \<and> cstring (field k n bs) \<noteq> []"
  using assms cstring_fits [of "field k n bs" n] cstring_empty [of "field k n bs" n]
  by (simp add: filled_field length_field)

lemma decode_filled:
  assumes "valid5 bs" "length bs = kRecordSize"
  shows "filled_record (decode_record bs)"
proof -
  have "text_fits 128 (cstring (field k 128 bs))" if "bs ! (k + 127) = 0" "k + 128 \<le> length bs" for k
    using that by (intro cstring_fits) (simp_all add: field_def)
  from this [of 308] this [of 436] show ?thesis
    using assms filled_text [of 20 64 bs] filled_text [of 84 64 bs] filled_text [of 148 64 bs]
      filled_text [of 212 64 bs] filled_text [of 276 32 bs]
    by (simp add: valid5_def filled_record_def wf_record_def decode_record_def kRecordSize_def)
qed

subsection \<open>Starting up\<close>

definition good_defaults :: "UploadDefaults \<Rightarrow> bool" where
  "good_defaults d \<longleftrightarrow> list_all (\<lambda>c. code c \<noteq> 0) (ud_mqttHost d @ ud_clientId d @ ud_clientSecret d) \<and>
     ud_mqttHost d \<noteq> [] \<and> ud_mqttPort d \<noteq> 0 \<and> ud_protocol d \<le> 1"

definition boot_record :: "UploadDefaults \<Rightarrow> bool \<Rightarrow> bool \<Rightarrow> bytes \<Rightarrow> SettingsRecord" where
  "boot_record d upload remote bs = (if valid5 bs then decode_record bs else migrate d bs (populateDefaults d upload remote))"

lemma list_all_take: "list_all P xs \<Longrightarrow> list_all P (take n xs)"
  by (auto simp: list_all_iff dest: in_set_takeD)

lemma defaults_filled: "good_defaults d \<Longrightarrow> filled_record (populateDefaults d upload remote)"
  by (simp add: good_defaults_def filled_record_def wf_record_def populateDefaults_def text_fits_def list_all_take
      code_def take_eq_Nil min_less_iff_disj)

lemma texts_from_filled:
  assumes "filled_record r" "filled k 64 bs" "filled (k + 64) 64 bs" "filled (k + 128) 64 bs" "filled (k + 192) 32 bs"
    and "k + 224 \<le> length bs"
  shows "filled_record (texts_from k bs r)"
  using assms filled_text [of k 64 bs] filled_text [of "k + 64" 64 bs] filled_text [of "k + 128" 64 bs]
    filled_text [of "k + 192" 32 bs]
  by (simp add: filled_record_def wf_record_def texts_from_def)

lemma filled_host:
  assumes "filled_record r" "filled k 64 bs" "k + 64 \<le> length bs" "port \<noteq> 0"
  shows "filled_record (r\<lparr>sr_mqttPort := port, sr_mqttHost := cstring (field k 64 bs)\<rparr>)"
  using assms filled_text [of k 64 bs] by (simp add: filled_record_def wf_record_def)

lemma filled_flags [simp]:
  "filled_record (r\<lparr>sr_uploadEnabled := a\<rparr>) = filled_record r"
  "filled_record (r\<lparr>sr_remoteManagementEnabled := a\<rparr>) = filled_record r"
  "filled_record (r\<lparr>sr_appliedConfigVersion := v\<rparr>) = filled_record r"
  by (simp_all add: filled_record_def wf_record_def)


lemma migrate_filled:
  assumes "filled_record r" "length bs = kRecordSize"
  shows "filled_record (migrate d bs r)"
proof -
  have n: "length bs = 568" using assms(2) by (simp add: kRecordSize_def)
  have 4: "filled_record (texts_from 84 bs (r\<lparr>sr_uploadEnabled := bs ! 8, sr_remoteManagementEnabled := bs ! 9,
        sr_uploadProtocol := bs ! 10, sr_mqttPort := get16 (drop 12 bs),
        sr_appliedConfigVersion := get32 (drop 16 bs), sr_mqttHost := cstring (field 20 64 bs)\<rparr>))" if "valid4 bs"
    using that assms(1) n filled_text [of 20 64 bs]
    by (intro texts_from_filled) (simp_all add: valid4_def filled_record_def wf_record_def)
  have 3: "filled_record (texts_from 80 bs (r\<lparr>sr_uploadEnabled := bs ! 8, sr_remoteManagementEnabled := bs ! 9,
             sr_appliedConfigVersion := get32 (drop 12 bs)\<rparr>))" if "valid3 bs"
    using that assms(1) n by (intro texts_from_filled) (simp_all add: valid3_def)
  have 2: "filled_record (texts_from 76 bs (r\<lparr>sr_uploadEnabled := bs ! 8, sr_mqttPort := get16 (drop 10 bs),
        sr_mqttHost := cstring (field 12 64 bs)\<rparr>))" if "valid2 bs"
    using that assms(1) n filled_text [of 12 64 bs]
    by (intro texts_from_filled) (simp_all add: valid2_def filled_record_def wf_record_def)
  have 1: "filled_record (r\<lparr>sr_uploadEnabled := bs ! 8, sr_mqttPort := get16 (drop 10 bs),
        sr_mqttHost := cstring (field 12 64 bs)\<rparr>)" if "valid1 bs"
    using that assms(1) n by (intro filled_host) (simp_all add: valid1_def)
  show ?thesis
  proof (cases "valid4 bs")
    case True
    then show ?thesis using 4 by (simp add: migrate_def)
  next
    case v4: False
    show ?thesis
    proof (cases "valid3 bs")
      case True
      then have "get16 (drop 10 bs) \<noteq> 0" "filled 16 64 bs" by (simp_all add: valid3_def)
      then show ?thesis using True v4 3 n by (auto simp: migrate_def Let_def intro!: filled_host)
    qed (use v4 1 2 assms(1) in \<open>auto simp: migrate_def\<close>)
  qed
qed

lemma boot_filled: "good_defaults d \<Longrightarrow> length bs = kRecordSize \<Longrightarrow> filled_record (boot_record d u m bs)"
  by (simp add: boot_record_def decode_filled migrate_filled defaults_filled)

lemma boot_encode: "filled_record r \<Longrightarrow> boot_record d u m (encode_record r) = r"
  using valid5_encode [of r] decode_encode [of r] by (simp add: boot_record_def filled_record_def)

subsection \<open>The EEPROM library\<close>

text \<open>
  What the library documents: \<open>begin\<close> reads the flash into the cache, \<open>put\<close> and \<open>write\<close> change the
  cache only, \<open>commit\<close> writes the cache to flash; after a failed commit the flash may have changed or not.
\<close>

locale eeprom =
  fixes E :: "'e eeprom_ops" and flash :: "'e \<Rightarrow> bytes"
  assumes length_law: "length (flash e) = kRecordSize"
    and begin_law: "ee_get E (ee_begin E kRecordSize e) = flash e" "flash (ee_begin E kRecordSize e) = flash e"
    and put_law: "length bs = kRecordSize \<Longrightarrow> ee_get E (ee_put E bs e) = bs" "flash (ee_put E bs e) = flash e"
    and write_law: "i < kRecordSize \<Longrightarrow> ee_get E (ee_write E i b e) = (ee_get E e)[i := b]"
      "flash (ee_write E i b e) = flash e"
    and commit_law: "ee_commit E e = (ok, e') \<Longrightarrow> length (ee_get E e) = kRecordSize \<Longrightarrow>
      flash e' = ee_get E e \<or> (\<not> ok \<and> flash e' = flash e)"
begin

lemma begin_boots:
  assumes "settings_begin E d u m s e = (s', e')"
  shows "s' = apply_record (boot_record d u m (flash e)) (s\<lparr>rs_defaults := d\<rparr>) \<and>
    (flash e' = flash e \<or> flash e' = encode_record (boot_record d u m (flash e)))"
proof (cases "valid5 (flash e)")
  case True
  then show ?thesis using assms begin_law by (auto simp: settings_begin_def Let_def boot_record_def)
next
  case False
  define r e1 where "r = boot_record d u m (flash e)" and "e1 = ee_put E (encode_record r) (ee_begin E kRecordSize e)"
  have "s' = apply_record r (s\<lparr>rs_defaults := d\<rparr>)" "e' = snd (ee_commit E e1)"
    using assms False by (simp_all add: settings_begin_def Let_def begin_law r_def boot_record_def e1_def)
  moreover have "ee_get E e1 = encode_record r" "flash e1 = flash e" by (simp_all add: e1_def put_law begin_law)
  ultimately show ?thesis using commit_law [of e1 "fst (ee_commit E e1)" e'] r_def by auto
qed

lemma begin_again:
  assumes "good_defaults d" "settings_begin E d u m s e = (s', e')" "flash e2 = flash e'"
  shows "boot_record d u m (flash e2) = boot_record d u m (flash e)"
  using begin_boots [OF assms(2)] boot_filled [OF assms(1) length_law] boot_encode assms(3) by metis

lemma factoryReset_erases:
  assumes "settings_factoryReset E e = (True, e')"
  shows "flash e' = replicate kRecordSize 0xFF"
proof -
  define e1 where "e1 = ee_begin E kRecordSize e"
  have "ee_get E (fold (\<lambda>i. ee_write E i 0xFF) [0..<k] e1) = replicate k 0xFF @ drop k (flash e)" if "k \<le> kRecordSize" for k
    using that
  proof (induction k)
    case 0
    then show ?case by (simp add: e1_def begin_law)
  next
    case (Suc k)
    then have "k < length (flash e)" by (simp add: length_law)
    then have "drop k (flash e) = flash e ! k # drop (Suc k) (flash e)" by (simp add: Cons_nth_drop_Suc)
    then show ?case using Suc by (simp add: write_law list_update_append replicate_append_same)
  qed
  from this [of kRecordSize] have "ee_get E (fold (\<lambda>i. ee_write E i 0xFF) [0..<kRecordSize] e1) = replicate kRecordSize 0xFF"
    by (simp add: length_law)
  then show ?thesis using commit_law [OF assms [unfolded settings_factoryReset_def]] by (simp add: e1_def)
qed

end


definition wf_settings :: "RuntimeSettings \<Rightarrow> bool" where
  "wf_settings s \<longleftrightarrow> ud_protocol (rs_defaults s) \<le> 1 \<and> text_fits 128 (ud_clientId (rs_config s)) \<and>
     text_fits 128 (ud_clientSecret (rs_config s))"

lemma settings_validText_filled: "settings_validText s n \<Longrightarrow> s \<noteq> []"
  by (simp add: settings_validText_def)

lemma wf_apply: "filled_record r \<Longrightarrow> ud_protocol (rs_defaults s) \<le> 1 \<Longrightarrow> wf_settings (apply_record r s)"
  by (simp add: wf_settings_def apply_record_def filled_record_def wf_record_def)

subsection \<open>An EEPROM in memory\<close>

record fake_eeprom =
  fe_flash :: bytes
  fe_cache :: bytes
  fe_commits :: nat

definition fe_content :: "fake_eeprom \<Rightarrow> bytes" where
  "fe_content e = take kRecordSize (fe_flash e @ replicate kRecordSize 0xFF)"

definition fake_eeprom_ops :: "fake_eeprom eeprom_ops" where
  "fake_eeprom_ops = \<lparr>
     ee_begin = (\<lambda>n e. e\<lparr>fe_cache := fe_content e\<rparr>),
     ee_get = fe_cache,
     ee_put = (\<lambda>bs e. e\<lparr>fe_cache := bs\<rparr>),
     ee_write = (\<lambda>i b e. e\<lparr>fe_cache := (fe_cache e)[i := b]\<rparr>),
     ee_commit = (\<lambda>e. case fe_commits e of 0 \<Rightarrow> (False, e)
       | Suc n \<Rightarrow> (True, e\<lparr>fe_flash := fe_cache e, fe_commits := n\<rparr>))\<rparr>"

interpretation fake_flash: eeprom fake_eeprom_ops fe_content
  by unfold_locales (auto simp: fake_eeprom_ops_def fe_content_def split: nat.splits)

lemma save_cases:
  assumes "eeprom E flash" "wf_settings s"
    and "settings_save E host port enabled n1 n2 rule label remote version cid secret s e = (b, s1, e1)"
  shows "(\<not> b \<and> s1 = s \<and> flash e1 = flash e) \<or>
    (\<exists>r. filled_record r \<and> s1 = (if b then apply_record r s else s) \<and> flash e1 = encode_record r \<and>
       sr_appliedConfigVersion r = version)"
proof -
  define r where "r = \<lparr>sr_uploadEnabled = of_bool enabled, sr_remoteManagementEnabled = of_bool remote,
    sr_uploadProtocol = ud_protocol (rs_defaults s), sr_mqttPort = port, sr_appliedConfigVersion = version,
    sr_mqttHost = host, sr_ntpPrimary = n1, sr_ntpSecondary = n2, sr_timeZoneRule = rule, sr_timeZoneLabel = label,
    sr_clientId = (if cid = [] then ud_clientId (rs_config s) else cid),
    sr_clientSecret = (if secret = [] then ud_clientSecret (rs_config s) else secret)\<rparr>"
  have "b = False \<and> s1 = s \<and> e1 = e \<or> (settings_validText host 64 \<and> port \<noteq> 0 \<and> settings_validText n1 64 \<and>
      settings_validText n2 64 \<and> settings_validText rule 64 \<and> settings_validText label 32 \<and>
      (cid \<noteq> [] \<longrightarrow> settings_validText cid 128) \<and> (secret \<noteq> [] \<longrightarrow> settings_validText secret 128) \<and>
      ee_commit E (ee_put E (encode_record r) e) = (b, e1) \<and> s1 = (if b then apply_record r s else s))"
    using assms(3) unfolding settings_save_def r_def
    by (auto simp: capacities Let_def split: if_splits prod.splits bool.splits)
  then show ?thesis
  proof (elim disjE conjE, goal_cases)
    case 2
    then have "text_fits 128 (sr_clientId r)" "text_fits 128 (sr_clientSecret r)"
      using assms(2) by (auto simp: r_def wf_settings_def intro: text_fitsI)
    then have "filled_record r" using 2 assms(2)
      by (auto simp: filled_record_def wf_record_def r_def wf_settings_def intro: text_fitsI dest: settings_validText_filled)
    moreover have "flash e1 = encode_record r \<or> (\<not> b \<and> flash e1 = flash e)"
      using eeprom.commit_law [OF assms(1) 2(9)] by (simp add: eeprom.put_law [OF assms(1)])
    moreover have "sr_appliedConfigVersion r = version" by (simp add: r_def)
    ultimately show ?case using 2(10) by (cases b) auto
  qed blast
qed

lemma apply_record_same: "rs_defaults s0 = rs_defaults s \<Longrightarrow> apply_record r s0 = apply_record r s"
  by (cases s; cases s0) (simp add: apply_record_def)

lemma apply_record_keeps [simp]:
  "rs_defaults (apply_record r s) = rs_defaults s" "rs_appliedConfigVersion (apply_record r s) = sr_appliedConfigVersion r"
  by (simp_all add: apply_record_def)

subsection \<open>Properties\<close>

text \<open>
  Settings that were saved successfully come back exactly as they are in memory after any
  restart: the start-up finds a valid record, applies it unchanged and leaves the flash as it is.
\<close>

theorem settings_survive_restart:
  assumes "eeprom E flash" "wf_settings s"
    and "settings_save E host port enabled n1 n2 rule label remote version cid secret s e = (True, s1, e1)"
    and "flash e2 = flash e1" "settings_begin E (rs_defaults s) u m s0 e2 = (s2, e3)"
  shows "s2 = s1 \<and> flash e3 = flash e1 \<and> wf_settings s1"
proof -
  obtain r where r: "filled_record r" "s1 = apply_record r s" "flash e1 = encode_record r"
    using save_cases [OF assms(1-3)] by auto
  then have "s2 = apply_record r (s0\<lparr>rs_defaults := rs_defaults s\<rparr>) \<and> flash e3 = flash e2"
    using eeprom.begin_boots [OF assms(1,5)] assms(4) by (auto simp: boot_encode)
  then show ?thesis using r assms(2,4) apply_record_same [of "s0\<lparr>rs_defaults := rs_defaults s\<rparr>" s r] wf_apply
    by (simp add: wf_settings_def)
qed

definition small_defaults :: UploadDefaults where
  "small_defaults = \<lparr>ud_protocol = 1, ud_mqttHost = ''h'', ud_mqttPort = 443, ud_clientId = [], ud_clientSecret = []\<rparr>"

definition blank_eeprom :: fake_eeprom where
  "blank_eeprom = \<lparr>fe_flash = [], fe_cache = [], fe_commits = 5\<rparr>"

definition small_settings :: RuntimeSettings where
  "small_settings = fresh_settings\<lparr>rs_defaults := small_defaults, rs_remoteManagementEnabled := True,
     rs_ntpPrimary := ''a'', rs_ntpSecondary := ''b'', rs_timeZoneRule := ''c'', rs_timeZoneLabel := ''d'',
     rs_config := small_defaults\<rparr>"

definition saved_small :: "bool \<times> RuntimeSettings \<times> fake_eeprom" where
  "saved_small = settings_save fake_eeprom_ops ''h'' 80 True ''a'' ''b'' ''c'' ''d'' True 1 [] [] small_settings blank_eeprom"

lemma saved_small_ok: "fst saved_small"
  by (simp add: saved_small_def settings_save_def settings_validText_def capacities code_def fake_eeprom_ops_def
      blank_eeprom_def Let_def)

lemma small_settings_wf: "wf_settings small_settings"
  by (simp add: wf_settings_def small_settings_def small_defaults_def)

theorem settings_survive_restart_witness:
  "fst (settings_begin fake_eeprom_ops small_defaults True True fresh_settings (snd (snd saved_small))) = fst (snd saved_small)"
proof -
  obtain s1 e1 where s: "saved_small = (True, s1, e1)" using saved_small_ok by (metis prod.collapse)
  obtain s2 e3 where b: "settings_begin fake_eeprom_ops (rs_defaults small_settings) True True fresh_settings e1 = (s2, e3)"
    by fastforce
  from settings_survive_restart [OF fake_flash.eeprom_axioms small_settings_wf s [unfolded saved_small_def] refl b] have "s2 = s1" by blast
  moreover have "rs_defaults small_settings = small_defaults" by (simp add: small_settings_def)
  ultimately show ?thesis using b by (simp add: s)
qed

text \<open>
  Whatever bytes the EEPROM holds (blank, corrupted, any older layout) and whether or not
  rewriting it succeeds, the settings in force after start-up are usable, and the next start-up with
  the same defaults brings back the same ones: migration happens once and loses nothing more.
\<close>

theorem settings_begin_stable:
  assumes "eeprom E flash" "good_defaults d" "settings_begin E d u m s e = (s1, e1)"
    and "flash e2 = flash e1" "settings_begin E d u m s0 e2 = (s2, e3)"
  shows "s2 = s1 \<and> wf_settings s1 \<and> ud_mqttHost (rs_config s1) \<noteq> [] \<and> ud_mqttPort (rs_config s1) \<noteq> 0 \<and>
    rs_ntpPrimary s1 \<noteq> [] \<and> rs_timeZoneRule s1 \<noteq> []"
proof -
  define r where "r = boot_record d u m (flash e)"
  have r: "filled_record r" unfolding r_def using assms(1,2) by (simp add: boot_filled eeprom.length_law)
  have s1: "s1 = apply_record r (s\<lparr>rs_defaults := d\<rparr>)" using eeprom.begin_boots [OF assms(1,3)] by (simp add: r_def)
  moreover have "s2 = apply_record r (s0\<lparr>rs_defaults := d\<rparr>)"
    using eeprom.begin_boots [OF assms(1,5)] eeprom.begin_again [OF assms(1-4)] by (simp add: r_def)
  moreover have "wf_settings s1" unfolding s1 using r assms(2) by (intro wf_apply) (simp_all add: good_defaults_def)
  ultimately show ?thesis
    using r apply_record_same [of "s0\<lparr>rs_defaults := d\<rparr>" "s\<lparr>rs_defaults := d\<rparr>"]
    by (simp add: apply_record_def filled_record_def)
qed

theorem settings_begin_stable_witness:
  "ud_mqttHost (rs_config (fst (settings_begin fake_eeprom_ops small_defaults True False fresh_settings blank_eeprom))) \<noteq> []"
proof -
  obtain s1 e1 where b: "settings_begin fake_eeprom_ops small_defaults True False fresh_settings blank_eeprom = (s1, e1)" by fastforce
  obtain s2 e3 where b2: "settings_begin fake_eeprom_ops small_defaults True False fresh_settings e1 = (s2, e3)" by fastforce
  have "good_defaults small_defaults" by (simp add: good_defaults_def small_defaults_def code_def)
  from settings_begin_stable [OF fake_flash.eeprom_axioms this b refl b2] show ?thesis by (simp add: b)
qed




text \<open>Remote updates and restarts in any order; the result lists the versions that were accepted.\<close>

datatype settings_op = RemoteOp RemoteConfig | RestartOp

fun settings_run :: "'e eeprom_ops \<Rightarrow> UploadDefaults \<Rightarrow> bool \<Rightarrow> bool \<Rightarrow> settings_op list \<Rightarrow> RuntimeSettings \<times> 'e \<Rightarrow>
    u32 list \<times> RuntimeSettings \<times> 'e" where
  "settings_run E d u m [] (s, e) = ([], s, e)"
| "settings_run E d u m (RemoteOp c # xs) (s, e) =
     (case applyRemoteConfig E c s e of (b, st) \<Rightarrow>
      case settings_run E d u m xs st of (vs, st) \<Rightarrow> (if b then rc_version c # vs else vs, st))"
| "settings_run E d u m (RestartOp # xs) (s, e) = settings_run E d u m xs (settings_begin E d u m fresh_settings e)"

definition run_inv :: "('e \<Rightarrow> bytes) \<Rightarrow> UploadDefaults \<Rightarrow> bool \<Rightarrow> bool \<Rightarrow> RuntimeSettings \<Rightarrow> 'e \<Rightarrow> bool" where
  "run_inv flash d u m s e \<longleftrightarrow> wf_settings s \<and> rs_defaults s = d \<and>
     rs_appliedConfigVersion s \<le> sr_appliedConfigVersion (boot_record d u m (flash e))"

lemma run_inv_begin:
  assumes "eeprom E flash" "good_defaults d" "settings_begin E d u m s0 e = (s, e1)"
  shows "run_inv flash d u m s e1 \<and>
    rs_appliedConfigVersion s = sr_appliedConfigVersion (boot_record d u m (flash e))"
proof -
  have r: "filled_record (boot_record d u m (flash e))" using assms(1,2) by (simp add: boot_filled eeprom.length_law)
  have s: "s = apply_record (boot_record d u m (flash e)) (s0\<lparr>rs_defaults := d\<rparr>)"
    using eeprom.begin_boots [OF assms(1,3)] by blast
  then have "wf_settings s" using wf_apply [OF r] assms(2) by (simp add: good_defaults_def)
  moreover have "boot_record d u m (flash e1) = boot_record d u m (flash e)" by (rule eeprom.begin_again [OF assms refl])
  ultimately show ?thesis by (simp add: run_inv_def s)
qed

lemma run_inv_remote:
  assumes "eeprom E flash" "run_inv flash d u m s e" "applyRemoteConfig E c s e = (b, s1, e1)"
  shows "run_inv flash d u m s1 e1 \<and>
    (if b then rs_appliedConfigVersion s < rc_version c \<and> rs_appliedConfigVersion s1 = rc_version c else s1 = s)"
proof (cases "\<not> rs_remoteManagementEnabled s \<or> rc_version c \<le> rs_appliedConfigVersion s")
  case True
  then show ?thesis using assms(2,3) by (auto simp: applyRemoteConfig_def)
next
  case False
  have wf: "wf_settings s" using assms(2) by (simp add: run_inv_def)
  from save_cases [OF assms(1) wf assms(3) [unfolded applyRemoteConfig_def if_not_P [OF False]]]
  consider "\<not> b" "s1 = s" "flash e1 = flash e"
    | r where "filled_record r" "s1 = (if b then apply_record r s else s)" "flash e1 = encode_record r"
      "sr_appliedConfigVersion r = rc_version c" by blast
  then show ?thesis
  proof cases
    case 1
    then show ?thesis using assms(2) by (simp add: run_inv_def)
  next
    case 2
    then show ?thesis using assms(2) False wf wf_apply [of r s]
      by (auto simp: run_inv_def boot_encode wf_settings_def not_le)
  qed
qed

text \<open>
  C35: From any start-up on, through any sequence of remote updates, failed commits and restarts,
  the versions of the accepted updates strictly increase: no update is applied twice and none
  older than one already in force, so a replayed configuration message has no effect.
\<close>

theorem remote_versions_increase:
  assumes "eeprom E flash" "good_defaults d" "settings_begin E d u m s0 e0 = (s, e)"
    and "settings_run E d u m xs (s, e) = (vs, s', e')"
  shows "sorted_wrt (<) (rs_appliedConfigVersion s # vs) \<and> last (rs_appliedConfigVersion s # vs) \<le> rs_appliedConfigVersion s'"
proof -
  have "run_inv flash d u m s e" using run_inv_begin [OF assms(1-3)] by blast
  then show ?thesis using assms(4)
  proof (induction xs arbitrary: s e vs)
    case (Cons x xs)
    show ?case
    proof (cases x)
      case (RemoteOp c)
      obtain b s1 e1 where a: "applyRemoteConfig E c s e = (b, s1, e1)" by (metis prod.exhaust)
      obtain ws where "settings_run E d u m xs (s1, e1) = (ws, s', e')" "vs = (if b then rc_version c # ws else ws)"
        using Cons.prems(2) RemoteOp a by (auto split: prod.splits if_splits)
      then show ?thesis using Cons.IH [of s1 e1 ws] run_inv_remote [OF assms(1) Cons.prems(1) a]
        by (auto split: if_splits dest: order.strict_trans)
    next
      case RestartOp
      obtain s1 e1 where b: "settings_begin E d u m fresh_settings e = (s1, e1)" by fastforce
      have r: "run_inv flash d u m s1 e1" "rs_appliedConfigVersion s \<le> rs_appliedConfigVersion s1"
        using run_inv_begin [OF assms(1,2) b] Cons.prems(1) by (auto simp: run_inv_def)
      then have "sorted_wrt (<) (rs_appliedConfigVersion s1 # vs) \<and>
          last (rs_appliedConfigVersion s1 # vs) \<le> rs_appliedConfigVersion s'"
        using Cons.IH [OF r(1)] Cons.prems(2) RestartOp b by simp
      then show ?thesis using r(2) by (cases vs) auto
    qed
  qed simp
qed

definition small_update :: "u32 \<Rightarrow> RemoteConfig" where
  "small_update v = \<lparr>rc_version = v, rc_hasUploadEnabled = True, rc_uploadEnabled = False, rc_ntpPrimary = [],
     rc_ntpSecondary = [], rc_timeZoneRule = [], rc_timeZoneLabel = []\<rparr>"

theorem remote_versions_increase_witness:
  "sorted_wrt (<) (fst (settings_run fake_eeprom_ops small_defaults True True
     [RemoteOp (small_update 2), RemoteOp (small_update 1), RestartOp, RemoteOp (small_update 3)]
     (settings_begin fake_eeprom_ops small_defaults True True fresh_settings blank_eeprom)))"
proof -
  obtain s e where b: "settings_begin fake_eeprom_ops small_defaults True True fresh_settings blank_eeprom = (s, e)" by fastforce
  obtain vs s' e' where r: "settings_run fake_eeprom_ops small_defaults True True
     [RemoteOp (small_update 2), RemoteOp (small_update 1), RestartOp, RemoteOp (small_update 3)] (s, e) = (vs, s', e')"
    by (metis prod.exhaust)
  have "good_defaults small_defaults" by (simp add: good_defaults_def small_defaults_def code_def)
  from remote_versions_increase [OF fake_flash.eeprom_axioms this b r] show ?thesis unfolding b r by simp
qed

end
