(* ===== verification/Provisioning.thy ===== *)
theory Provisioning
  imports Preferences Json
begin

section \<open>Provisioning: binding a device to its owner\<close>

text \<open>
  \<open>logger/firmware/src/ProvisioningPolicy.cpp\<close> and \<open>DeviceProvisioning.cpp\<close> on the ESP32 target: the
  device identity, the checks of a provisioning record, the USB command that stores one, the
  start-up that loads it, and the factory reset. Preferences, JSON and the callback that prepares
  a change of owner are parameters.
\<close>

subsection \<open>ProvisioningPolicy\<close>

datatype PolicyProtocol = PolicyMqtt | PolicyHttps

record Candidate =
  c_expectedDeviceId :: string
  c_friendlyName :: string
  c_wifiSsid :: string
  c_wifiPassword :: string
  c_otaPassword :: string
  c_protocol :: PolicyProtocol
  c_uploadHost :: string
  c_uploadPort :: u16
  c_mqttUsername :: string
  c_mqttPassword :: string
  c_cloudflareClientId :: string
  c_cloudflareClientSecret :: string
  c_appDeviceToken :: string
  c_appTokenSubject :: string
  c_hardwareRevision :: string
  c_provisionedAt :: string

definition policy_validText :: "string \<Rightarrow> nat \<Rightarrow> bool \<Rightarrow> bool" where
  "policy_validText value maximum required \<longleftrightarrow>
     \<not> (required \<and> value = []) \<and> length value \<le> maximum \<and>
     list_all (\<lambda>c. \<not> (code c < 0x20 \<or> code c = 0x7f)) value"

definition deviceIdFromHardwareId :: "u64 \<Rightarrow> string" where
  "deviceIdFromHardwareId hardwareId =
     snprintf 17 (''mda-'' @ hex_digits 12 (unat (hardwareId AND 0xffffffffffff)))"

definition is_hex :: "char \<Rightarrow> bool" where
  "is_hex c \<longleftrightarrow> is_digit c \<or> (97 \<le> code c \<and> code c \<le> 102)"

definition isCanonicalDeviceId :: "string \<Rightarrow> bool" where
  "isCanonicalDeviceId deviceId \<longleftrightarrow> length deviceId = 16 \<and> take 4 deviceId = ''mda-'' \<and>
     list_all is_hex (drop 4 deviceId) \<and> list_ex (\<lambda>c. c \<noteq> CHR ''0'') (drop 4 deviceId)"

definition networkAllowed :: "bool \<Rightarrow> bool \<Rightarrow> bool" where
  "networkAllowed productionEsp32Target provisioned \<longleftrightarrow> \<not> productionEsp32Target \<or> provisioned"

text \<open>The error of a rejected candidate, or none.\<close>

definition validate :: "Candidate \<Rightarrow> string \<Rightarrow> string option" where
  "validate c deviceId =
     (if \<not> isCanonicalDeviceId deviceId then Some ''hardware identity is malformed''
      else if c_expectedDeviceId c = [] then Some ''expected_device_id is required''
      else if c_expectedDeviceId c \<noteq> deviceId then Some ''expected_device_id does not match this device''
      else if \<not> policy_validText (c_friendlyName c) 63 True \<or> \<not> policy_validText (c_wifiSsid c) 32 True \<or>
        \<not> policy_validText (c_wifiPassword c) 63 True \<or> \<not> policy_validText (c_otaPassword c) 127 True \<or>
        \<not> policy_validText (c_uploadHost c) 127 True \<or> c_uploadPort c = 0 \<or>
        \<not> policy_validText (c_hardwareRevision c) 31 True \<or> \<not> policy_validText (c_provisionedAt c) 40 True
      then Some ''required provisioning field is blank, malformed, or too long''
      else if length (c_otaPassword c) < 12 \<or> length (c_wifiPassword c) < 8
      then Some ''Wi-Fi and OTA credentials do not meet minimum lengths''
      else if c_protocol c = PolicyMqtt
      then if c_mqttUsername c \<noteq> deviceId then Some ''MQTT username must equal the immutable device ID''
        else if \<not> policy_validText (c_mqttPassword c) 127 True then Some ''MQTT password is required''
        else None
      else if \<not> policy_validText (c_cloudflareClientId c) 127 True \<or>
          \<not> policy_validText (c_cloudflareClientSecret c) 127 True \<or> \<not> policy_validText (c_appDeviceToken c) 511 True
        then Some ''HTTPS credentials are incomplete''
      else if c_appTokenSubject c \<noteq> ''logger:'' @ deviceId
        then Some ''app bearer subject must equal logger:<immutable device ID>''
      else None)"

subsection \<open>The component\<close>

text \<open>The compiled defaults that the component copies, and the texts the other components are given.\<close>

record ProvisioningDefaults =
  pd_stationSsid :: string
  pd_stationPassword :: string
  pd_otaPassword :: string
  pd_protocol :: PolicyProtocol
  pd_mqttHost :: string
  pd_mqttPort :: u16
  pd_mqttUsername :: string
  pd_mqttPassword :: string
  pd_cloudflareClientId :: string
  pd_cloudflareClientSecret :: string
  pd_appDeviceToken :: string

record BoundConfigs =
  bc_stationSsid :: string
  bc_stationPassword :: string
  bc_hostname :: string
  bc_otaPassword :: string
  bc_deviceId :: string
  bc_mqttHost :: string
  bc_mqttUsername :: string
  bc_mqttPassword :: string
  bc_cloudflareClientId :: string
  bc_cloudflareClientSecret :: string
  bc_appDeviceToken :: string

record DeviceProvisioning =
  dp_configs :: "BoundConfigs option"
  dp_protocol :: PolicyProtocol
  dp_uploadPort :: u16
  dp_deviceId :: string
  dp_friendlyName :: string
  dp_wifiSsid :: string
  dp_wifiPassword :: string
  dp_otaPassword :: string
  dp_uploadHost :: string
  dp_mqttUsername :: string
  dp_mqttPassword :: string
  dp_cloudflareClientId :: string
  dp_cloudflareClientSecret :: string
  dp_appDeviceToken :: string
  dp_appTokenSubject :: string
  dp_hardwareRevision :: string
  dp_provisionedAt :: string
  dp_status :: string
  dp_lastError :: string
  dp_provisioned :: bool
  dp_remoteManagementEnabled :: bool

definition kCommandPrefix :: string where "kCommandPrefix = ''APEXI_PROVISION ''"
definition kOwnerNamespace :: string where "kOwnerNamespace = ''apexi_owner''"
definition kFactoryNamespace :: string where "kFactoryNamespace = ''apexi_factory''"

definition bindConfigs :: "DeviceProvisioning \<Rightarrow> DeviceProvisioning" where
  "bindConfigs p = p\<lparr>dp_configs := Some \<lparr>bc_stationSsid = dp_wifiSsid p, bc_stationPassword = dp_wifiPassword p,
     bc_hostname = dp_deviceId p, bc_otaPassword = dp_otaPassword p, bc_deviceId = dp_deviceId p,
     bc_mqttHost = dp_uploadHost p, bc_mqttUsername = dp_mqttUsername p, bc_mqttPassword = dp_mqttPassword p,
     bc_cloudflareClientId = dp_cloudflareClientId p, bc_cloudflareClientSecret = dp_cloudflareClientSecret p,
     bc_appDeviceToken = dp_appDeviceToken p\<rparr>\<rparr>"

definition clearOwnerValues :: "DeviceProvisioning \<Rightarrow> DeviceProvisioning" where
  "clearOwnerValues p = p\<lparr>dp_provisioned := False, dp_friendlyName := dp_deviceId p, dp_wifiSsid := [],
     dp_wifiPassword := [], dp_otaPassword := [], dp_uploadHost := [], dp_uploadPort := 0, dp_mqttUsername := [],
     dp_mqttPassword := [], dp_cloudflareClientId := [], dp_cloudflareClientSecret := [], dp_appDeviceToken := [],
     dp_appTokenSubject := [], dp_provisionedAt := [], dp_remoteManagementEnabled := False\<rparr>"

definition with_defaults :: "u64 \<Rightarrow> ProvisioningDefaults \<Rightarrow> DeviceProvisioning \<Rightarrow> DeviceProvisioning" where
  "with_defaults hw d p = p\<lparr>dp_protocol := pd_protocol d, dp_uploadPort := pd_mqttPort d,
     dp_deviceId := deviceIdFromHardwareId hw, dp_friendlyName := deviceIdFromHardwareId hw,
     dp_wifiSsid := pd_stationSsid d, dp_wifiPassword := pd_stationPassword d, dp_otaPassword := pd_otaPassword d,
     dp_uploadHost := pd_mqttHost d, dp_mqttUsername := pd_mqttUsername d, dp_mqttPassword := pd_mqttPassword d,
     dp_cloudflareClientId := pd_cloudflareClientId d, dp_cloudflareClientSecret := pd_cloudflareClientSecret d,
     dp_appDeviceToken := pd_appDeviceToken d\<rparr>"

definition load_owner :: "'w prefs_ops \<Rightarrow> 'w \<Rightarrow> DeviceProvisioning \<Rightarrow> DeviceProvisioning" where
  "load_owner P w p = (let text = (\<lambda>k d. getString P kOwnerNamespace k d w) in p\<lparr>
     dp_friendlyName := text ''name'' (dp_deviceId p), dp_wifiSsid := text ''wifi_ssid'' [],
     dp_wifiPassword := text ''wifi_pass'' [], dp_otaPassword := text ''ota_pass'' [], dp_uploadHost := text ''up_host'' [],
     dp_uploadPort := getUShort P kOwnerNamespace ''up_port'' 0 w,
     dp_protocol := (if getUChar P kOwnerNamespace ''protocol'' 0xff w = 0 then PolicyMqtt else PolicyHttps),
     dp_mqttUsername := text ''mqtt_user'' [], dp_mqttPassword := text ''mqtt_pass'' [],
     dp_cloudflareClientId := text ''cf_id'' [], dp_cloudflareClientSecret := text ''cf_secret'' [],
     dp_appDeviceToken := text ''app_token'' [], dp_appTokenSubject := text ''app_subject'' [],
     dp_provisionedAt := text ''prov_at'' [],
     dp_remoteManagementEnabled := getBool P kOwnerNamespace ''remote_mgmt'' False w, dp_status := ''provisioned''\<rparr>)"

definition stored_candidate :: "DeviceProvisioning \<Rightarrow> Candidate" where
  "stored_candidate p = \<lparr>c_expectedDeviceId = dp_deviceId p, c_friendlyName = dp_friendlyName p,
     c_wifiSsid = dp_wifiSsid p, c_wifiPassword = dp_wifiPassword p, c_otaPassword = dp_otaPassword p,
     c_protocol = dp_protocol p, c_uploadHost = dp_uploadHost p, c_uploadPort = dp_uploadPort p,
     c_mqttUsername = dp_mqttUsername p, c_mqttPassword = dp_mqttPassword p,
     c_cloudflareClientId = dp_cloudflareClientId p, c_cloudflareClientSecret = dp_cloudflareClientSecret p,
     c_appDeviceToken = dp_appDeviceToken p, c_appTokenSubject = dp_appTokenSubject p,
     c_hardwareRevision = dp_hardwareRevision p, c_provisionedAt = dp_provisionedAt p\<rparr>"

definition provisioning_fault :: "string \<Rightarrow> string \<Rightarrow> DeviceProvisioning \<Rightarrow> DeviceProvisioning" where
  "provisioning_fault status error p = bindConfigs (clearOwnerValues (p\<lparr>dp_status := status, dp_lastError := error\<rparr>))"

definition provisioning_begin ::
  "'w prefs_ops \<Rightarrow> u64 \<Rightarrow> ProvisioningDefaults \<Rightarrow> DeviceProvisioning \<Rightarrow> 'w \<Rightarrow> bool \<times> DeviceProvisioning \<times> 'w" where
  "provisioning_begin P hw d p w =
     (let p = with_defaults hw d p in
      case pr_begin P kOwnerNamespace True w of
        (False, w) \<Rightarrow> (False, provisioning_fault ''fault'' ''owner credential store unavailable'' p, w)
      | (True, w) \<Rightarrow>
         let p = p\<lparr>dp_provisioned := getBool P kOwnerNamespace ''ready'' False w\<rparr>;
             protocol = getUChar P kOwnerNamespace ''protocol'' 0xff w
         in if dp_provisioned p \<and> getString P kOwnerNamespace ''device_id'' [] w \<noteq> dp_deviceId p
            then (False, provisioning_fault ''identity-mismatch'' ''provisioning record belongs to another device'' p, w)
            else let p = (if dp_provisioned p then load_owner P w p else clearOwnerValues p)
              in case pr_begin P kFactoryNamespace True w of (opened, w) \<Rightarrow>
                let p = (if opened then p\<lparr>dp_hardwareRevision := getString P kFactoryNamespace ''hw_rev'' ''unknown'' w\<rparr> else p)
                in if \<not> dp_provisioned p then (False, bindConfigs p, w)
                   else if 1 < protocol
                   then (False, provisioning_fault ''fault'' ''stored upload protocol is invalid'' p, w)
                   else case validate (stored_candidate p) (dp_deviceId p) of
                       Some error \<Rightarrow> (False, provisioning_fault ''fault'' error p, w)
                     | None \<Rightarrow> (True, bindConfigs p, w))"


subsection \<open>The USB command\<close>

definition dp_error :: "string \<Rightarrow> DeviceProvisioning \<Rightarrow> DeviceProvisioning" where
  "dp_error e p = p\<lparr>dp_lastError := e\<rparr>"

definition parse_candidate :: "'d json_ops \<Rightarrow> 'd \<Rightarrow> PolicyProtocol \<Rightarrow> Candidate" where
  "parse_candidate J doc protocol = (let text = (\<lambda>v k. str_or J (member J v k) []); wifi = member J doc ''wifi'';
       upload = member J doc ''upload'' in
     \<lparr>c_expectedDeviceId = text doc ''expected_device_id'', c_friendlyName = text doc ''friendly_name'',
      c_wifiSsid = text wifi ''ssid'', c_wifiPassword = text wifi ''password'', c_otaPassword = text doc ''ota_password'',
      c_protocol = protocol, c_uploadHost = text upload ''host'',
      c_uploadPort = word_of_int (int_or J (member J upload ''port'') 0),
      c_mqttUsername = text upload ''mqtt_username'', c_mqttPassword = text upload ''mqtt_password'',
      c_cloudflareClientId = text upload ''cloudflare_client_id'',
      c_cloudflareClientSecret = text upload ''cloudflare_client_secret'',
      c_appDeviceToken = text upload ''app_device_token'', c_appTokenSubject = text upload ''app_token_subject'',
      c_hardwareRevision = text doc ''hardware_revision'', c_provisionedAt = text doc ''provisioned_at''\<rparr>)"

text \<open>Everything that is decided before anything is written: the candidate and the management flag, or an error.\<close>

definition parse_command ::
  "'d json_ops \<Rightarrow> string \<Rightarrow> string \<Rightarrow> string + Candidate \<times> bool" where
  "parse_command J line deviceId =
     (if take (length kCommandPrefix) line \<noteq> kCommandPrefix then Inl ''unknown provisioning command''
      else case deserialize J 4096 None (drop (length kCommandPrefix) line) of
        None \<Rightarrow> Inl ''malformed provisioning JSON''
      | Some doc \<Rightarrow>
        let protocol = str_or J (member J (member J doc ''upload'') ''protocol'') [];
            remote = member J doc ''remote_management_enabled''
        in if protocol \<noteq> ''mqtt'' \<and> protocol \<noteq> ''https'' then Inl ''upload protocol must be mqtt or https''
           else if \<not> is_null J remote \<and> as_bool J remote = None then Inl ''remote_management_enabled must be boolean''
           else let c = parse_candidate J doc (if protocol = ''mqtt'' then PolicyMqtt else PolicyHttps)
             in case validate c deviceId of Some e \<Rightarrow> Inl e | None \<Rightarrow> Inr (c, as_bool J remote = Some True))"

definition owner_record :: "Candidate \<Rightarrow> bool \<Rightarrow> (string \<times> pval) list" where
  "owner_record c remote =
     [(''device_id'', PString (c_expectedDeviceId c)), (''name'', PString (c_friendlyName c)),
      (''wifi_ssid'', PString (c_wifiSsid c)), (''wifi_pass'', PString (c_wifiPassword c)),
      (''ota_pass'', PString (c_otaPassword c)), (''up_host'', PString (c_uploadHost c)),
      (''up_port'', PUShort (c_uploadPort c)), (''protocol'', PUChar (if c_protocol c = PolicyMqtt then 0 else 1))] @
     (if c_protocol c = PolicyMqtt
      then [(''mqtt_user'', PString (c_mqttUsername c)), (''mqtt_pass'', PString (c_mqttPassword c))]
      else [(''cf_id'', PString (c_cloudflareClientId c)), (''cf_secret'', PString (c_cloudflareClientSecret c)),
        (''app_token'', PString (c_appDeviceToken c)), (''app_subject'', PString (c_appTokenSubject c))]) @
     [(''prov_at'', PString (c_provisionedAt c)), (''remote_mgmt'', PBool remote), (''ready'', PBool True)]"

text \<open>Clear, then the chain of puts with the \<open>ready\<close> mark last; a failure anywhere clears again.\<close>

definition store_owner :: "'w prefs_ops \<Rightarrow> Candidate \<Rightarrow> bool \<Rightarrow> 'w \<Rightarrow> bool \<times> 'w" where
  "store_owner P c remote w =
     (case pr_clear P kOwnerNamespace w of (cleared, w) \<Rightarrow>
      case (if cleared then put_seq P kOwnerNamespace (owner_record c remote) w else (False, w)) of (saved, w) \<Rightarrow>
      if saved then (True, w)
      else case pr_begin P kOwnerNamespace False w of
          (True, w) \<Rightarrow> (False, snd (pr_clear P kOwnerNamespace w))
        | (False, w) \<Rightarrow> (False, w))"

definition acceptSerialCommand ::
  "'w prefs_ops \<Rightarrow> 'd json_ops \<Rightarrow> string \<Rightarrow> ('w \<Rightarrow> bool \<times> 'w) option \<Rightarrow> DeviceProvisioning \<Rightarrow> 'w \<Rightarrow>
   bool \<times> DeviceProvisioning \<times> 'w" where
  "acceptSerialCommand P J line prepareOwnerChange p w =
     (case parse_command J line (dp_deviceId p) of
        Inl e \<Rightarrow> (False, dp_error e p, w)
      | Inr (c, remote) \<Rightarrow>
        case pr_begin P kFactoryNamespace False w of
          (False, w) \<Rightarrow> (False, dp_error ''factory metadata store unavailable'' p, w)
        | (True, w) \<Rightarrow>
          let existing = getString P kFactoryNamespace ''hw_rev'' [] w in
          if existing \<noteq> [] \<and> existing \<noteq> c_hardwareRevision c
          then (False, dp_error ''hardware_revision conflicts with factory record'' p, w)
          else case (case prepareOwnerChange of None \<Rightarrow> (False, w) | Some prepare \<Rightarrow> prepare w) of
            (False, w) \<Rightarrow> (False, dp_error ''owner transition incomplete; networking disabled'' p, w)
          | (True, w) \<Rightarrow>
            case (if existing = []
                  then pr_put P kFactoryNamespace ''hw_rev'' (PString (c_hardwareRevision c)) w else (1, w)) of (n, w) \<Rightarrow>
            if n = 0 then (False, dp_error ''failed to persist factory hardware revision'' p, w)
            else case pr_begin P kOwnerNamespace False w of
              (False, w) \<Rightarrow> (False, dp_error ''owner credential store unavailable'' p, w)
            | (True, w) \<Rightarrow>
              case store_owner P c remote w of
                (False, w) \<Rightarrow> (False, if dp_lastError p = []
                  then dp_error ''failed to persist complete provisioning record'' p else p, w)
              | (True, w) \<Rightarrow> (True, dp_error [] p, w))"

definition factoryResetOwnerCredentials :: "'w prefs_ops \<Rightarrow> DeviceProvisioning \<Rightarrow> 'w \<Rightarrow> bool \<times> DeviceProvisioning \<times> 'w" where
  "factoryResetOwnerCredentials P p w =
     (case pr_begin P kOwnerNamespace False w of
        (False, w) \<Rightarrow> (False, dp_error ''owner credential store unavailable'' p, w)
      | (True, w) \<Rightarrow> case pr_clear P kOwnerNamespace w of
          (True, w) \<Rightarrow> (True, p, w)
        | (False, w) \<Rightarrow> (False, dp_error ''failed to clear owner credentials'' p, w))"


subsection \<open>What is stored\<close>

definition owner_map :: "Candidate \<Rightarrow> bool \<Rightarrow> string \<Rightarrow> pval option" where
  "owner_map c remote = map_of (rev (owner_record c remote))"

lemma owner_record_ready: "m < length (owner_record c remote) \<Longrightarrow> ''ready'' \<notin> fst ` set (take m (owner_record c remote))"
proof -
  define xs where "xs = butlast (owner_record c remote)"
  have e: "owner_record c remote = xs @ [(''ready'', PBool True)]" by (simp add: xs_def owner_record_def)
  have "''ready'' \<notin> fst ` set xs" by (simp add: xs_def owner_record_def)
  moreover assume "m < length (owner_record c remote)"
  ultimately show ?thesis by (auto simp: e dest: in_set_takeD)
qed

lemma owner_prefix:
  "m \<le> length (owner_record c remote) \<Longrightarrow>
   map_of (rev (take m (owner_record c remote))) ''ready'' = None \<or> map_of (rev (take m (owner_record c remote))) = owner_map c remote"
  using owner_record_ready [of m c remote] by (cases "m < length (owner_record c remote)") (auto simp: owner_map_def map_of_eq_None_iff)

lemma store_owner_cases:
  assumes "preferences P saved" "store_owner P c remote w = (b, w')"
  shows "(b \<longrightarrow> saved w' kOwnerNamespace = owner_map c remote) \<and>
    (saved w' kOwnerNamespace = saved w kOwnerNamespace \<or> saved w' kOwnerNamespace ''ready'' = None \<or>
     saved w' kOwnerNamespace = owner_map c remote) \<and> (\<forall>ns. ns \<noteq> kOwnerNamespace \<longrightarrow> saved w' ns = saved w ns)"
proof -
  let ?ns = kOwnerNamespace
  obtain cleared w1 where cl: "pr_clear P ?ns w = (cleared, w1)" by fastforce
  obtain s w2 where put: "(if cleared then put_seq P ?ns (owner_record c remote) w1 else (False, w1)) = (s, w2)" by fastforce
  have others: "\<forall>ns. ns \<noteq> ?ns \<longrightarrow> saved w1 ns = saved w ns"
    using preferences.clear_law [OF assms(1) cl] by auto
  have w2: "(s \<longrightarrow> saved w2 ?ns = owner_map c remote) \<and> (saved w2 ?ns = saved w ?ns \<or> saved w2 ?ns ''ready'' = None \<or>
    saved w2 ?ns = owner_map c remote) \<and> (\<forall>ns. ns \<noteq> ?ns \<longrightarrow> saved w2 ns = saved w ns)"
  proof (cases cleared)
    case True
    then have e: "saved w1 ?ns = (\<lambda>k. None)" using preferences.clear_law [OF assms(1) cl] by auto
    have "put_seq P ?ns (owner_record c remote) w1 = (s, w2)" using put True by simp
    from preferences.put_seq_prefix [OF assms(1) this] obtain m where m: "m \<le> length (owner_record c remote)"
      "saved w2 = fold (\<lambda>(k, v). pref_upd ?ns k (Some v)) (take m (owner_record c remote)) (saved w1)"
      "s \<longrightarrow> m = length (owner_record c remote)" by blast
    then have "saved w2 ?ns = map_of (rev (take m (owner_record c remote)))"
      by (simp add: fold_pref_upd e map_add_def fun_eq_iff split: option.splits)
    then show ?thesis using m owner_prefix [OF m(1)] others by (auto simp: owner_map_def fold_pref_upd_other)
  next
    case False
    then show ?thesis using put preferences.clear_law [OF assms(1) cl] others by auto
  qed
  show ?thesis
  proof (cases s)
    case True
    then show ?thesis using assms(2) cl put w2 by (simp add: store_owner_def)
  next
    case False
    obtain opened w3 where ob: "pr_begin P ?ns False w2 = (opened, w3)" by fastforce
    obtain d w4 where oc: "pr_clear P ?ns w3 = (d, w4)" by fastforce
    have "\<not> b \<and> w' = (if opened then w4 else w3)" using assms(2) cl put False ob oc by (auto simp: store_owner_def split: if_splits)
    then show ?thesis using w2 preferences.begin_law [OF assms(1) ob] preferences.clear_law [OF assms(1) oc] by auto
  qed
qed


text \<open>How an accepted command got to its end, and where a rejected one can have stopped.\<close>

lemma accept_stages:
  assumes "acceptSerialCommand P J line (Some prepare) p w = (b, p', w')"
    and "parse_command J line (dp_deviceId p) = Inr (c, remote)"
  obtains
    w1 opened where "pr_begin P kFactoryNamespace False w = (opened, w1)" "\<not> b" "w' = w1"
  | w1 prepared w2 where "pr_begin P kFactoryNamespace False w = (True, w1)" "prepare w1 = (prepared, w2)" "\<not> b" "w' = w2"
  | w1 w2 n w3 where "pr_begin P kFactoryNamespace False w = (True, w1)" "prepare w1 = (True, w2)" "\<not> b" "w' = w3"
      "pr_put P kFactoryNamespace ''hw_rev'' (PString (c_hardwareRevision c)) w2 = (n, w3)"
  | w1 w2 w3 opened w4 where "pr_begin P kFactoryNamespace False w = (True, w1)" "prepare w1 = (True, w2)"
      "getString P kFactoryNamespace ''hw_rev'' [] w1 = c_hardwareRevision c \<and> c_hardwareRevision c \<noteq> [] \<and> w3 = w2 \<or>
       (\<exists>n > 0. pr_put P kFactoryNamespace ''hw_rev'' (PString (c_hardwareRevision c)) w2 = (n, w3))"
      "pr_begin P kOwnerNamespace False w3 = (opened, w4)"
      "if opened then store_owner P c remote w4 = (b, w') else \<not> b \<and> w' = w4"
proof -
  obtain opened w1 where 1: "pr_begin P kFactoryNamespace False w = (opened, w1)" by fastforce
  define existing where "existing = getString P kFactoryNamespace ''hw_rev'' [] w1"
  obtain prepared w2 where 2: "prepare w1 = (prepared, w2)" by fastforce
  obtain n w3 where 3: "(if existing = [] then pr_put P kFactoryNamespace ''hw_rev'' (PString (c_hardwareRevision c)) w2
    else (1, w2)) = (n, w3)" by fastforce
  obtain opened2 w4 where 4: "pr_begin P kOwnerNamespace False w3 = (opened2, w4)" by fastforce
  obtain stored w5 where 5: "store_owner P c remote w4 = (stored, w5)" by fastforce
  note steps = assms(1) [unfolded acceptSerialCommand_def assms(2), simplified, unfolded 1 2, simplified, folded existing_def,
      simplified]
  show ?thesis
  proof (cases "opened \<and> \<not> (existing \<noteq> [] \<and> existing \<noteq> c_hardwareRevision c)")
    case False
    then have "\<not> b \<and> w' = w1" using steps by (cases opened) (auto simp: Let_def)
    then show ?thesis using that(1) 1 by blast
  next
    case a: True
    show ?thesis
    proof (cases prepared)
      case False
      then have "\<not> b \<and> w' = w2" using steps a 2 by (auto simp: Let_def)
      then show ?thesis using that(2) [of w1 prepared w2] 1 2 a by simp
    next
      case p: True
      show ?thesis
      proof (cases "n = 0")
        case True
        then have "existing = []" "\<not> b \<and> w' = w3" using steps a 2 3 p by (auto simp: Let_def split: if_splits)
        then show ?thesis using that(3) [of w1 w2 w3 n] 1 2 3 a p by simp
      next
        case False
        then have "if opened2 then store_owner P c remote w4 = (b, w') else \<not> b \<and> w' = w4"
          using steps a 2 3 4 5 p by (cases opened2; cases stored) (auto simp: Let_def)
        moreover have "existing = c_hardwareRevision c \<and> c_hardwareRevision c \<noteq> [] \<and> w3 = w2 \<or>
          (\<exists>n > 0. pr_put P kFactoryNamespace ''hw_rev'' (PString (c_hardwareRevision c)) w2 = (n, w3))"
          using 3 a False by (auto split: if_splits)
        ultimately show ?thesis using that(4) [of w1 w2 w3 opened2 w4] 1 2 4 a p existing_def by simp
      qed
    qed
  qed
qed


definition preparing :: "('w \<Rightarrow> string \<Rightarrow> string \<Rightarrow> pval option) \<Rightarrow> ('w \<Rightarrow> bool \<times> 'w) \<Rightarrow> bool" where
  "preparing saved prepare \<longleftrightarrow> (\<forall>w b w'. prepare w = (b, w') \<longrightarrow>
     (saved w' kOwnerNamespace = saved w kOwnerNamespace \<or> saved w' kOwnerNamespace = (\<lambda>k. None)) \<and>
     saved w' kFactoryNamespace = saved w kFactoryNamespace)"

lemma namespaces_differ [simp]: "kOwnerNamespace \<noteq> kFactoryNamespace" "kFactoryNamespace \<noteq> kOwnerNamespace"
  by (simp_all add: kOwnerNamespace_def kFactoryNamespace_def)

lemma put_other: "preferences P saved \<Longrightarrow> pr_put P ns k v w = (n, w') \<Longrightarrow> ns' \<noteq> ns \<Longrightarrow> saved w' ns' = saved w ns'"
  using preferences.put_law by fastforce

text \<open>
  C36: A provisioning command, wherever it fails or is interrupted, leaves the stored owner record
  as it was, or not ready, or complete with exactly the values of the command: owners are never
  mixed. A command that does not parse or validate touches nothing.
\<close>

theorem owner_never_mixed:
  assumes "preferences P saved" "preparing saved prepare"
    and "acceptSerialCommand P J line (Some prepare) p w = (b, p', w')"
  shows "case parse_command J line (dp_deviceId p) of
      Inl e \<Rightarrow> \<not> b \<and> w' = w \<and> dp_lastError p' = e
    | Inr (c, remote) \<Rightarrow> (b \<longrightarrow> saved w' kOwnerNamespace = owner_map c remote) \<and>
        (saved w' kOwnerNamespace = saved w kOwnerNamespace \<or> saved w' kOwnerNamespace ''ready'' = None \<or>
         saved w' kOwnerNamespace = owner_map c remote)"
proof (cases "parse_command J line (dp_deviceId p)")
  case (Inl e)
  then show ?thesis using assms(3) by (auto simp: acceptSerialCommand_def dp_error_def)
next
  case (Inr cr)
  obtain c remote where cr: "parse_command J line (dp_deviceId p) = Inr (c, remote)" using Inr by (cases cr) simp
  have B: "\<And>ns ro w b w'. pr_begin P ns ro w = (b, w') \<Longrightarrow> saved w' = saved w"
    using preferences.begin_law [OF assms(1)] .
  have prep: "\<And>w b w'. prepare w = (b, w') \<Longrightarrow>
      saved w' kOwnerNamespace = saved w kOwnerNamespace \<or> saved w' kOwnerNamespace = (\<lambda>k. None)"
    using assms(2) unfolding preparing_def by blast
  from assms(3) cr have "(b \<longrightarrow> saved w' kOwnerNamespace = owner_map c remote) \<and>
        (saved w' kOwnerNamespace = saved w kOwnerNamespace \<or> saved w' kOwnerNamespace ''ready'' = None \<or>
         saved w' kOwnerNamespace = owner_map c remote)"
  proof (cases rule: accept_stages)
    case (1 w1 opened)
    then show ?thesis using B by auto
  next
    case (2 w1 prepared w2)
    then show ?thesis using B [OF 2(1)] prep [OF 2(2)] by auto
  next
    case (3 w1 w2 n w3)
    then show ?thesis using B [OF 3(1)] prep [OF 3(2)] put_other [OF assms(1) 3(5)] by auto
  next
    case (4 w1 w2 w3 opened w4)
    have "saved w3 kOwnerNamespace = saved w2 kOwnerNamespace" using 4(3) put_other [OF assms(1)] by fastforce
    then have w4: "saved w4 kOwnerNamespace = saved w kOwnerNamespace \<or> saved w4 kOwnerNamespace = (\<lambda>k. None)"
      using B [OF 4(1)] B [OF 4(4)] prep [OF 4(2)] by simp
    show ?thesis
    proof (cases opened)
      case True
      then show ?thesis using store_owner_cases [OF assms(1), of c remote w4 b w'] 4(5) w4 by auto
    next
      case False
      then show ?thesis using 4(5) w4 by auto
    qed
  qed
  then show ?thesis by (simp add: cr)
qed


subsection \<open>A small command\<close>

definition small_command_doc :: sample_doc where
  "small_command_doc = SObj [(''expected_device_id'', SStr ''mda-00000000000a''), (''friendly_name'', SStr ''car''),
     (''wifi'', SObj [(''ssid'', SStr ''net''), (''password'', SStr ''secret12'')]),
     (''ota_password'', SStr ''over-the-air''),
     (''upload'', SObj [(''protocol'', SStr ''mqtt''), (''host'', SStr ''h''), (''port'', SNum 80),
       (''mqtt_username'', SStr ''mda-00000000000a''), (''mqtt_password'', SStr ''pw'')]),
     (''hardware_revision'', SStr ''r1''), (''provisioned_at'', SStr ''now''), (''remote_management_enabled'', SBool True)]"

definition small_candidate :: Candidate where
  "small_candidate = parse_candidate (sample_json []) small_command_doc PolicyMqtt"

definition small_command_json :: "sample_doc json_ops" where
  "small_command_json = sample_json [(''{}'', small_command_doc)]"

definition blank_device :: DeviceProvisioning where
  "blank_device = \<lparr>dp_configs = None, dp_protocol = PolicyMqtt, dp_uploadPort = 0, dp_deviceId = ''mda-00000000000a'',
     dp_friendlyName = [], dp_wifiSsid = [], dp_wifiPassword = [], dp_otaPassword = [], dp_uploadHost = [],
     dp_mqttUsername = [], dp_mqttPassword = [], dp_cloudflareClientId = [], dp_cloudflareClientSecret = [],
     dp_appDeviceToken = [], dp_appTokenSubject = [], dp_hardwareRevision = [], dp_provisionedAt = [],
     dp_status = ''unprovisioned'', dp_lastError = [], dp_provisioned = False, dp_remoteManagementEnabled = False\<rparr>"

definition blank_prefs :: "nat \<Rightarrow> fake_prefs" where
  "blank_prefs n = \<lparr>fp_entries = [], fp_writes = n\<rparr>"

lemma small_parse: "parse_command small_command_json (kCommandPrefix @ ''{}'') ''mda-00000000000a'' = Inr (small_candidate, True)"
  by code_simp

lemma blank_device_id: "dp_deviceId blank_device = ''mda-00000000000a''"
  by (simp add: blank_device_def)

lemma small_id: "deviceIdFromHardwareId 10 = ''mda-00000000000a''"
  by code_simp

lemma small_accepted:
  "fst (acceptSerialCommand fake_prefs_ops small_command_json (kCommandPrefix @ ''{}'') (Some (\<lambda>w. (True, w)))
     blank_device (blank_prefs 20))"
  by code_simp

theorem owner_never_mixed_witness:
  "case acceptSerialCommand fake_prefs_ops small_command_json (kCommandPrefix @ ''{}'') (Some (\<lambda>w. (True, w)))
     blank_device (blank_prefs 20) of (b, p', w') \<Rightarrow> b \<and> fp_saved w' kOwnerNamespace = owner_map small_candidate True"
proof -
  obtain b p' w' where a: "acceptSerialCommand fake_prefs_ops small_command_json (kCommandPrefix @ ''{}'')
    (Some (\<lambda>w. (True, w))) blank_device (blank_prefs 20) = (b, p', w')" by (metis prod.exhaust)
  have "preparing fp_saved (\<lambda>w. (True, w))" by (simp add: preparing_def)
  from owner_never_mixed [OF fake_store.preferences_axioms this a] show ?thesis
    using small_accepted by (simp add: a blank_device_id small_parse)
qed

subsection \<open>Starting up\<close>

definition owner_blank :: "DeviceProvisioning \<Rightarrow> bool" where
  "owner_blank p \<longleftrightarrow> \<not> dp_provisioned p \<and> dp_wifiPassword p = [] \<and> dp_otaPassword p = [] \<and> dp_mqttPassword p = [] \<and>
     dp_cloudflareClientSecret p = [] \<and> dp_appDeviceToken p = [] \<and> \<not> dp_remoteManagementEnabled p"

lemma fault_blank [simp]: "owner_blank (provisioning_fault st e p)" "dp_deviceId (provisioning_fault st e p) = dp_deviceId p"
  "\<not> dp_provisioned (provisioning_fault st e p)" "bindConfigs (provisioning_fault st e p) = provisioning_fault st e p"
  by (simp_all add: owner_blank_def provisioning_fault_def bindConfigs_def clearOwnerValues_def)

lemma bind_simps [simp]: "dp_provisioned (bindConfigs p) = dp_provisioned p" "stored_candidate (bindConfigs p) = stored_candidate p"
  "dp_deviceId (bindConfigs p) = dp_deviceId p" "owner_blank (bindConfigs p) = owner_blank p" "bindConfigs (bindConfigs p) = bindConfigs p"
  by (simp_all add: bindConfigs_def stored_candidate_def owner_blank_def)

text \<open>The start-up once both namespaces have been opened: before and after the owner's values are loaded.\<close>

definition checked :: "'w prefs_ops \<Rightarrow> u64 \<Rightarrow> ProvisioningDefaults \<Rightarrow> DeviceProvisioning \<Rightarrow> 'w \<Rightarrow> DeviceProvisioning" where
  "checked P hw d p w = (with_defaults hw d p)\<lparr>dp_provisioned := getBool P kOwnerNamespace ''ready'' False w\<rparr>"

definition loaded :: "'w prefs_ops \<Rightarrow> bool \<Rightarrow> 'w \<Rightarrow> 'w \<Rightarrow> DeviceProvisioning \<Rightarrow> DeviceProvisioning" where
  "loaded P opened w w' q = (let r = (if dp_provisioned q then load_owner P w q else clearOwnerValues q)
     in if opened then r\<lparr>dp_hardwareRevision := getString P kFactoryNamespace ''hw_rev'' ''unknown'' w'\<rparr> else r)"

lemma loaded_simps [simp]:
  "dp_deviceId (checked P hw d p w) = deviceIdFromHardwareId hw"
  "dp_provisioned (checked P hw d p w) = getBool P kOwnerNamespace ''ready'' False w"
  "dp_deviceId (loaded P opened w w' q) = dp_deviceId q" "dp_provisioned (loaded P opened w w' q) = dp_provisioned q"
  "dp_deviceId (with_defaults hw d p) = deviceIdFromHardwareId hw"
  by (simp_all add: checked_def loaded_def with_defaults_def load_owner_def clearOwnerValues_def Let_def)

lemma loaded_blank: "\<not> dp_provisioned q \<Longrightarrow> owner_blank (loaded P opened w w' q)"
  by (simp add: loaded_def owner_blank_def clearOwnerValues_def Let_def)

lemma provisioning_begin_eq:
  assumes "pr_begin P kOwnerNamespace True w = (o1, w1)" "pr_begin P kFactoryNamespace True w1 = (o2, w2)"
    and "q = checked P hw d p w1" "r = loaded P o2 w1 w2 q"
  shows "provisioning_begin P hw d p w =
    (if \<not> o1 then (False, provisioning_fault ''fault'' ''owner credential store unavailable'' (with_defaults hw d p), w1)
     else if dp_provisioned q \<and> getString P kOwnerNamespace ''device_id'' [] w1 \<noteq> dp_deviceId q
     then (False, provisioning_fault ''identity-mismatch'' ''provisioning record belongs to another device'' q, w1)
     else if \<not> dp_provisioned r then (False, bindConfigs r, w2)
     else if 1 < getUChar P kOwnerNamespace ''protocol'' 0xff w1
     then (False, provisioning_fault ''fault'' ''stored upload protocol is invalid'' r, w2)
     else case validate (stored_candidate r) (dp_deviceId r) of
         Some error \<Rightarrow> (False, provisioning_fault ''fault'' error r, w2)
       | None \<Rightarrow> (True, bindConfigs r, w2))"
proof -
  have w1: "pr_begin P kFactoryNamespace True w1 = (o2, w2)" by (rule assms(2))
  show ?thesis unfolding assms(3,4) loaded_def checked_def provisioning_begin_def Let_def
    by (cases o1) (simp_all only: assms(1) w1 prod.case bool.case if_True if_False not_True_eq_False not_False_eq_True)
qed

text \<open>
  C37: The device starts up provisioned, and with it allowed on the network, only with a ready and
  complete record that names this hardware and passes every check of the policy; in every other case
  (unreadable store, foreign record, missing or damaged values, compiled bench defaults) no owner
  secret is left in memory or handed to another component.
\<close>

theorem provisioned_only_when_valid:
  "case provisioning_begin P hw d p w of (b, p', w') \<Rightarrow>
     dp_provisioned p' = b \<and> networkAllowed True (dp_provisioned p') = b \<and> p' = bindConfigs p' \<and>
     dp_deviceId p' = deviceIdFromHardwareId hw \<and>
     (if b then validate (stored_candidate p') (deviceIdFromHardwareId hw) = None \<and>
        (\<exists>w1. fst (pr_begin P kOwnerNamespace True w) \<and> snd (pr_begin P kOwnerNamespace True w) = w1 \<and>
           getBool P kOwnerNamespace ''ready'' False w1 \<and>
           getString P kOwnerNamespace ''device_id'' [] w1 = deviceIdFromHardwareId hw)
      else owner_blank p')"
proof -
  obtain o1 w1 where 1: "pr_begin P kOwnerNamespace True w = (o1, w1)" by fastforce
  obtain o2 w2 where 2: "pr_begin P kFactoryNamespace True w1 = (o2, w2)" by fastforce
  show ?thesis unfolding provisioning_begin_eq [OF 1 2 refl refl]
    by (simp add: networkAllowed_def loaded_blank 1 split: option.split)
qed


definition relevant :: "Candidate \<Rightarrow> Candidate" where
  "relevant c = (if c_protocol c = PolicyMqtt
     then c\<lparr>c_cloudflareClientId := [], c_cloudflareClientSecret := [], c_appDeviceToken := [], c_appTokenSubject := []\<rparr>
     else c\<lparr>c_mqttUsername := [], c_mqttPassword := []\<rparr>)"

lemma validate_relevant: "validate (relevant c) i = validate c i"
  by (cases "c_protocol c") (simp_all add: validate_def relevant_def)

lemma load_owner_map:
  assumes "preferences P saved" "saved w kOwnerNamespace = owner_map c remote" "dp_deviceId q = c_expectedDeviceId c"
    and "dp_provisioned q" "saved w' kFactoryNamespace ''hw_rev'' = Some (PString (c_hardwareRevision c))"
  shows "stored_candidate (loaded P True w w' q) = relevant c \<and> dp_remoteManagementEnabled (loaded P True w w' q) = remote"
proof -
  have g: "pr_get P kOwnerNamespace k w = owner_map c remote k" for k
    using assms(1,2) by (simp add: preferences.get_law)
  have h: "pr_get P kFactoryNamespace ''hw_rev'' w' = Some (PString (c_hardwareRevision c))"
    using assms(1,5) by (simp add: preferences.get_law)
  show ?thesis
    using assms(3,4) by (cases "c_protocol c"; cases c)
      (simp_all add: loaded_def Let_def load_owner_def stored_candidate_def getters g h owner_map_def owner_record_def relevant_def)
qed

lemma parse_command_valid:
  assumes "parse_command J line i = Inr (c, remote)"
  shows "validate c i = None \<and> c_expectedDeviceId c = i"
proof -
  have "validate c i = None" using assms by (auto simp: parse_command_def Let_def split: if_splits option.splits)
  moreover from this have "c_expectedDeviceId c = i" by (auto simp: validate_def split: if_splits)
  ultimately show ?thesis by simp
qed



definition build_defaults :: ProvisioningDefaults where
  "build_defaults = \<lparr>pd_stationSsid = [], pd_stationPassword = [], pd_otaPassword = [], pd_protocol = PolicyHttps,
     pd_mqttHost = ''h'', pd_mqttPort = 443, pd_mqttUsername = [], pd_mqttPassword = [], pd_cloudflareClientId = [],
     pd_cloudflareClientSecret = [], pd_appDeviceToken = []\<rparr>"


subsection \<open>The device identity\<close>

lemma hex_char_inject: "d < 16 \<Longrightarrow> e < 16 \<Longrightarrow> hex_char d = hex_char e \<longleftrightarrow> d = e"
  by (auto simp: hex_char_def simp flip: code_inject split: if_splits)

lemma hex_digits_inject: "m < 16 ^ k \<Longrightarrow> n < 16 ^ k \<Longrightarrow> hex_digits k m = hex_digits k n \<longleftrightarrow> m = n"
proof (induction k arbitrary: m n)
  case (Suc k)
  then have "m div 16 < 16 ^ k" "n div 16 < 16 ^ k" by auto
  then have "hex_digits (Suc k) m = hex_digits (Suc k) n \<longleftrightarrow> m div 16 = n div 16 \<and> m mod 16 = n mod 16"
    using Suc.IH by (simp add: hex_char_inject)
  then show ?case by (metis div_mult_mod_eq)
qed simp

lemma hex_char_hex: "d < 16 \<Longrightarrow> is_hex (hex_char d)"
  by (simp add: is_hex_def is_digit_def hex_char_def)

lemma hex_char_0: "hex_char 0 = CHR ''0''"
  by code_simp

lemma hex_digits_hex: "c \<in> set (hex_digits k n) \<Longrightarrow> is_hex c"
  by (induction k n rule: hex_digits.induct) (auto simp: hex_char_hex)

lemma hex_digits_zero: "n < 16 ^ k \<Longrightarrow> (\<forall>c \<in> set (hex_digits k n). c = CHR ''0'') \<longleftrightarrow> n = 0"
proof (induction k arbitrary: n)
  case (Suc k)
  then have n: "n div 16 < 16 ^ k" by auto
  have "hex_char (n mod 16) = CHR ''0'' \<longleftrightarrow> n mod 16 = 0"
    using hex_char_inject [of "n mod 16" 0] by (simp add: hex_char_0)
  moreover have "n = 0 \<longleftrightarrow> n div 16 = 0 \<and> n mod 16 = 0" by presburger
  moreover have "(\<forall>c \<in> set (hex_digits (Suc k) n). c = z) \<longleftrightarrow>
      (\<forall>c \<in> set (hex_digits k (n div 16)). c = z) \<and> hex_char (n mod 16) = z" for z
    by (simp only: hex_digits.simps set_append ball_Un) simp
  ultimately show ?case by (simp only: Suc.IH [OF n])
qed simp

text \<open>
  The device identity is a function of the low 48 bits of the hardware address, different for
  different addresses, and canonical unless they are all zero.
\<close>

theorem device_id_canonical:
  "(deviceIdFromHardwareId a = deviceIdFromHardwareId b \<longleftrightarrow> take_bit 48 a = take_bit 48 b) \<and>
   (isCanonicalDeviceId (deviceIdFromHardwareId a) \<longleftrightarrow> take_bit 48 a \<noteq> 0)"
proof -
  have m: "a AND 0xffffffffffff = take_bit 48 a" for a :: u64
    by (simp add: take_bit_eq_mask mask_eq_exp_minus_1)
  have lt: "unat (take_bit 48 a) < 16 ^ 12" for a :: u64
    using take_bit_nat_less_exp [of 48 "unat a"] by (simp add: unsigned_take_bit_eq)
  have id: "deviceIdFromHardwareId a = ''mda-'' @ hex_digits 12 (unat (take_bit 48 a))" for a
    by (simp add: deviceIdFromHardwareId_def snprintf_def m)
  have "list_ex (\<lambda>c. c \<noteq> CHR ''0'') (hex_digits 12 (unat (take_bit 48 a))) \<longleftrightarrow> take_bit 48 a \<noteq> 0"
    using hex_digits_zero [OF lt [of a]] by (auto simp: list_ex_iff unat_eq_zero)
  moreover have "list_all is_hex (hex_digits 12 (unat (take_bit 48 a)))"
    using hex_digits_hex by (auto simp: list_all_iff)
  ultimately show ?thesis
    using hex_digits_inject [OF lt [of a] lt [of b]] by (simp add: id isCanonicalDeviceId_def word_unat_eq_iff)
qed

text \<open>The port is narrowed to 16 bits before it is checked, so a port beyond the range can be accepted.\<close>

lemma oversized_port_wraps:
  "c_uploadPort (parse_candidate (sample_json []) (SObj [(''upload'', SObj [(''port'', SNum 65616)])]) PolicyMqtt) = 80"
  by code_simp

text \<open>When storing fails, the error of an earlier command is reported instead.\<close>

lemma stale_error_reported:
  "case acceptSerialCommand fake_prefs_ops small_command_json (kCommandPrefix @ ''{}'') (Some (\<lambda>w. (True, w)))
     (dp_error ''malformed provisioning JSON'' blank_device) (blank_prefs 5) of
   (b, p', w') \<Rightarrow> \<not> b \<and> dp_lastError p' = ''malformed provisioning JSON''"
  by code_simp

end
