(* ===== verification/LoggerAuthorization.thy ===== *)
theory LoggerAuthorization
  imports Preferences Json
begin

section \<open>LoggerAuthorization: owner-approved credentials\<close>

text \<open>
  \<open>logger/firmware/src/LoggerAuthorization.cpp\<close> on the ESP32 target, with the checks of
  \<open>DeviceAuthorizationPolicy.h\<close>: the installation identity, the authorization by device code, the
  issued credential, its rotation, and the one record that keeps all of it. Preferences, JSON, the
  clocks, the random source, the network and the HTTPS worker are parameters.
\<close>

subsection \<open>DeviceAuthorizationPolicy\<close>

definition printable :: "string \<Rightarrow> nat \<Rightarrow> nat \<Rightarrow> bool" where
  "printable s minimum maximum \<longleftrightarrow> minimum \<le> length s \<and> length s \<le> maximum \<and>
     list_all (\<lambda>c. \<not> (code c < 0x21 \<or> 0x7e < code c)) s"

definition policy_deviceId :: "string \<Rightarrow> bool" where
  "policy_deviceId s \<longleftrightarrow> s \<noteq> [] \<and> length s \<le> 63 \<and>
     list_all (\<lambda>c. is_lower c \<or> is_digit c \<or> c = CHR ''-'' \<or> c = CHR ''_'') s"

definition hex_digit :: "char \<Rightarrow> bool" where
  "hex_digit c \<longleftrightarrow> is_digit c \<or> (97 \<le> code c \<and> code c \<le> 102)"

definition policy_hex :: "string \<Rightarrow> nat \<Rightarrow> bool" where
  "policy_hex s n \<longleftrightarrow> length s = n \<and> list_all hex_digit s"

definition policy_uuid :: "string \<Rightarrow> bool" where
  "policy_uuid s \<longleftrightarrow> length s = 36 \<and>
     list_all (\<lambda>(i, c). if i = 8 \<or> i = 13 \<or> i = 18 \<or> i = 23 then c = CHR ''-'' else hex_digit c) (enumerate 0 s)"

definition policy_hardwareId :: "u64 \<Rightarrow> string" where
  "policy_hardwareId mac = snprintf 19 (''esp32-'' @ hex_digits 12 (unat (mac AND 0xffffffffffff)))"

definition policy_elapsed :: "u32 \<Rightarrow> u32 \<Rightarrow> u32 \<Rightarrow> bool" where
  "policy_elapsed now start duration \<longleftrightarrow> duration \<le> since now start"

definition pollDelay :: "u32 \<Rightarrow> u32" where
  "pollDelay seconds = (if seconds < 5 then 5000 else if 60 < seconds then 60000 else seconds * 1000)"

subsection \<open>The component and what it uses\<close>

record AuthRequest =
  ar_url :: string
  ar_body :: string
  ar_bearer :: string
  ar_verify :: bool

record 'w auth_ops =
  au_prefs :: "'w prefs_ops"
  au_millis :: "'w \<Rightarrow> u32"
  au_time :: "'w \<Rightarrow> int"
  au_random :: "'w \<Rightarrow> u32 \<times> 'w"
  au_connected :: "'w \<Rightarrow> bool"
  au_startWorker :: "'w \<Rightarrow> bool \<times> 'w"
  au_submit :: "AuthRequest \<Rightarrow> 'w \<Rightarrow> bool \<times> 'w"
  au_result :: "'w \<Rightarrow> (int \<times> string \<times> int) option"
  au_release :: "'w \<Rightarrow> 'w"
  au_cancel :: "'w \<Rightarrow> 'w"

record AuthConfig =
  ac_https :: bool
  ac_host :: string
  ac_port :: u16
  ac_deviceId :: string
  ac_token :: string
  ac_cloudflareId :: string
  ac_cloudflareSecret :: string

record LoggerAuthorization =
  la_config :: AuthConfig
  la_serverHost :: string
  la_hardwareId :: string
  la_installationId :: string
  la_installationSecret :: string
  la_origin :: string
  la_activeToken :: string
  la_deviceId :: string
  la_authorizationId :: string
  la_deviceCode :: string
  la_userCode :: string
  la_csrf :: string
  la_storedToken :: string
  la_storedDeviceId :: string
  la_storedOrigin :: string
  la_bootstrapToken :: string
  la_bootstrapDeviceId :: string
  la_bootstrapVersion :: u32
  la_credentialVersion :: u32
  la_expiresEpoch :: u32
  la_ackPending :: bool
  la_verifyPending :: bool
  la_candidate :: string
  la_rotationNonce :: string
  la_rotationExpiry :: string
  la_appliedRotationNonce :: string
  la_rotationVersion :: u32
  la_appliedRotationVersion :: u32
  la_rotationPhase :: byte
  la_fallback :: bool
  la_status :: string
  la_error :: string
  la_startedMs :: u32
  la_expiresMs :: u32
  la_lastPollMs :: u32
  la_pollMs :: u32
  la_busy :: bool
  la_restart :: bool
  la_ready :: bool
  la_requestStart :: bool
  la_requestAck :: bool
  la_requestVerify :: bool
  la_startPending :: bool

definition kAuthzNamespace :: string where "kAuthzNamespace = ''logger_authz''"

definition la_fail :: "string \<Rightarrow> LoggerAuthorization \<Rightarrow> LoggerAuthorization" where
  "la_fail e a = a\<lparr>la_error := e\<rparr>"

fun randomHex :: "'w auth_ops \<Rightarrow> nat \<Rightarrow> 'w \<Rightarrow> string \<times> 'w" where
  "randomHex A 0 w = ([], w)"
| "randomHex A (Suc n) w = (case au_random A w of (r, w) \<Rightarrow>
     case randomHex A n w of (s, w) \<Rightarrow> (hex_digits 2 (unat (r AND 255)) @ s, w))"

definition randomUuid :: "'w auth_ops \<Rightarrow> 'w \<Rightarrow> string \<times> 'w" where
  "randomUuid A w = (case randomHex A 16 w of (s, w) \<Rightarrow> case au_random A w of (r, w) \<Rightarrow>
     let s = s[12 := CHR ''4'', 16 := ''89ab'' ! unat (r AND 3)]
     in (take 8 s @ ''-'' @ take 4 (drop 8 s) @ ''-'' @ take 4 (drop 12 s) @ ''-'' @ take 4 (drop 16 s) @ ''-'' @ drop 20 s, w))"

subsection \<open>The record\<close>

definition identity_fields :: "string \<Rightarrow> string \<Rightarrow> string \<Rightarrow> (string \<times> jval) list" where
  "identity_fields hardware installation secret =
     [(''hardware_id'', JStr hardware), (''installation_id'', JStr installation), (''installation_secret'', JStr secret)]"

definition ownerResetRecord :: "'d json_ops \<Rightarrow> string \<Rightarrow> string option" where
  "ownerResetRecord J saved = (case deserialize J 4096 None saved of None \<Rightarrow> None
   | Some doc \<Rightarrow>
     let hardware = as_text J (member J doc ''hardware_id''); installation = as_text J (member J doc ''installation_id'');
         secret = as_text J (member J doc ''installation_secret'')
     in if \<not> policy_deviceId hardware \<or> \<not> policy_uuid installation \<or> \<not> policy_hex secret 64 then None
        else Some (serialize J (identity_fields hardware installation secret)))"

definition authz_factoryReset :: "'w prefs_ops \<Rightarrow> 'd json_ops \<Rightarrow> 'w \<Rightarrow> bool \<times> 'w" where
  "authz_factoryReset P J w =
     (case pr_begin P kAuthzNamespace False w of
        (False, w) \<Rightarrow> (False, w)
      | (True, w) \<Rightarrow>
        let saved = getString P kAuthzNamespace ''record'' [] w in
        if saved = [] then (True, w)
        else case ownerResetRecord J saved of None \<Rightarrow> (False, w)
          | Some rec \<Rightarrow> case pr_put P kAuthzNamespace ''record'' (PString rec) w of (n, w) \<Rightarrow> (n = length rec, w))"

definition record_fields :: "LoggerAuthorization \<Rightarrow> string \<Rightarrow> string \<Rightarrow> u32 \<Rightarrow> (string \<times> jval) list" where
  "record_fields a token deviceId version =
     identity_fields (la_hardwareId a) (la_installationId a) (la_installationSecret a) @
     [(''origin'', JStr (la_storedOrigin a))] @
     (if token = [] then [] else [(''access_token'', JStr token), (''device_id'', JStr deviceId)]) @
     [(''credential_version'', JNum version), (''authorization_id'', JStr (la_authorizationId a)),
      (''device_code'', JStr (la_deviceCode a)), (''user_code'', JStr (la_userCode a)),
      (''ack_pending'', JBool (la_ackPending a)), (''expires_epoch'', JNum (la_expiresEpoch a)),
      (''pending_origin'', JStr (la_origin a)), (''bootstrap_token'', JStr (la_bootstrapToken a)),
      (''bootstrap_device_id'', JStr (la_bootstrapDeviceId a)), (''bootstrap_version'', JNum (la_bootstrapVersion a)),
      (''candidate'', JStr (la_candidate a)), (''rotation_nonce'', JStr (la_rotationNonce a)),
      (''rotation_expiry'', JStr (la_rotationExpiry a)), (''rotation_version'', JNum (la_rotationVersion a)),
      (''rotation_phase'', JNum (ucast (la_rotationPhase a))),
      (''applied_rotation_version'', JNum (la_appliedRotationVersion a)),
      (''applied_rotation_nonce'', JStr (la_appliedRotationNonce a))]"

definition saveRecord ::
  "'w prefs_ops \<Rightarrow> 'd json_ops \<Rightarrow> LoggerAuthorization \<Rightarrow> string \<Rightarrow> string \<Rightarrow> u32 \<Rightarrow> 'w \<Rightarrow> bool \<times> 'w" where
  "saveRecord P J a token deviceId version w =
     (let fields = record_fields a token deviceId version; v = serialize J fields in
      if overflowed J 4096 fields then (False, w)
      else case pr_begin P kAuthzNamespace False w of
        (False, w) \<Rightarrow> (False, w)
      | (True, w) \<Rightarrow> case pr_put P kAuthzNamespace ''record'' (PString v) w of (n, w) \<Rightarrow>
          (n = length v \<and> getString P kAuthzNamespace ''record'' [] w = v, w))"

definition num_or :: "'d json_ops \<Rightarrow> 'd \<Rightarrow> u32 \<Rightarrow> u32" where
  "num_or J v d = (case as_unsigned J v of Some n \<Rightarrow> n | None \<Rightarrow> d)"

text \<open>The stored credential, the one for this server, its rotation, and an authorization under way.\<close>

definition restore_stored :: "'d json_ops \<Rightarrow> 'd \<Rightarrow> LoggerAuthorization \<Rightarrow> LoggerAuthorization" where
  "restore_stored J doc a = (let text = (\<lambda>k. as_text J (member J doc k)) in a\<lparr>
     la_storedOrigin := text ''origin'', la_storedToken := text ''access_token'', la_storedDeviceId := text ''device_id'',
     la_credentialVersion := num_or J (member J doc ''credential_version'') 0\<rparr>)"

definition restore_active :: "'d json_ops \<Rightarrow> 'd \<Rightarrow> LoggerAuthorization \<Rightarrow> LoggerAuthorization" where
  "restore_active J doc a = a\<lparr>la_activeToken := as_text J (member J doc ''access_token''),
     la_deviceId := as_text J (member J doc ''device_id'')\<rparr>"

definition restore_rotation :: "'d json_ops \<Rightarrow> 'd \<Rightarrow> LoggerAuthorization \<Rightarrow> LoggerAuthorization" where
  "restore_rotation J doc a = (let text = (\<lambda>k. as_text J (member J doc k)) in a\<lparr>
     la_storedToken := la_activeToken a, la_storedDeviceId := la_deviceId a,
     la_credentialVersion := num_or J (member J doc ''credential_version'') 0,
     la_candidate := text ''candidate'', la_rotationNonce := text ''rotation_nonce'',
     la_rotationExpiry := text ''rotation_expiry'',
     la_rotationVersion := num_or J (member J doc ''rotation_version'') 0,
     la_rotationPhase := word_of_int (int_or J (member J doc ''rotation_phase'') 0),
     la_appliedRotationVersion := num_or J (member J doc ''applied_rotation_version'') 0,
     la_appliedRotationNonce := text ''applied_rotation_nonce''\<rparr>)"

definition restore_pending :: "'d json_ops \<Rightarrow> 'd \<Rightarrow> LoggerAuthorization \<Rightarrow> LoggerAuthorization" where
  "restore_pending J doc a = (let text = (\<lambda>k. as_text J (member J doc k)) in a\<lparr>
     la_authorizationId := text ''authorization_id'', la_deviceCode := text ''device_code'',
     la_userCode := text ''user_code'', la_ackPending := bool_true J (member J doc ''ack_pending''),
     la_expiresEpoch := num_or J (member J doc ''expires_epoch'') 0,
     la_bootstrapToken := text ''bootstrap_token'', la_bootstrapDeviceId := text ''bootstrap_device_id'',
     la_bootstrapVersion := num_or J (member J doc ''bootstrap_version'') 0\<rparr>)"

definition rotation_sound :: "LoggerAuthorization \<Rightarrow> bool" where
  "rotation_sound a \<longleftrightarrow> \<not> (2 < la_rotationPhase a \<or> (la_rotationPhase a \<noteq> 0 \<and>
     (\<not> printable (la_candidate a) 32 511 \<or> \<not> printable (la_rotationNonce a) 8 96 \<or> la_rotationVersion a = 0)))"

definition credential_sound :: "LoggerAuthorization \<Rightarrow> bool" where
  "credential_sound a \<longleftrightarrow>
     \<not> (la_activeToken a \<noteq> [] \<and> (\<not> printable (la_activeToken a) 32 511 \<or> \<not> policy_deviceId (la_deviceId a)))"

definition pending_sound :: "LoggerAuthorization \<Rightarrow> bool" where
  "pending_sound a \<longleftrightarrow> \<not> (la_ackPending a \<and> (\<not> printable (la_bootstrapToken a) 32 511 \<or>
     \<not> policy_deviceId (la_bootstrapDeviceId a) \<or> length (la_authorizationId a) \<noteq> 36 \<or> \<not> printable (la_deviceCode a) 32 256))"

definition use_stored :: "'d json_ops \<Rightarrow> 'd \<Rightarrow> LoggerAuthorization \<Rightarrow> LoggerAuthorization" where
  "use_stored J doc a =
     (if contains_key J doc ''access_token''
      then a\<lparr>la_config := (la_config a)\<lparr>ac_token := la_activeToken a,
        ac_deviceId := (if la_deviceId a = [] then ac_deviceId (la_config a) else la_deviceId a)\<rparr>\<rparr>
      else a)"


text \<open>The steps of \<open>restoreRecord\<close>, each of which may end it with an error.\<close>

definition restore_server :: "'d json_ops \<Rightarrow> 'd \<Rightarrow> LoggerAuthorization \<Rightarrow> bool \<times> LoggerAuthorization" where
  "restore_server J doc a =
     (if la_storedOrigin a \<noteq> la_origin a then (True, a)
      else let a = restore_active J doc a in
        if \<not> credential_sound a then (False, la_fail ''Invalid stored credential'' a)
        else let a = restore_rotation J doc a in
          if \<not> rotation_sound a then (False, la_fail ''Invalid rotation record; preserved'' a) else (True, a))"

definition restore_authorization :: "'d json_ops \<Rightarrow> 'd \<Rightarrow> LoggerAuthorization \<Rightarrow> bool \<times> LoggerAuthorization" where
  "restore_authorization J doc a =
     (if as_text J (member J doc ''pending_origin'') \<noteq> la_origin a then (True, a)
      else let a = restore_pending J doc a in
        if \<not> pending_sound a then (False, la_fail ''Invalid pending credential; preserved'' a) else (True, a))"

definition restoreRecord :: "'d json_ops \<Rightarrow> string \<Rightarrow> LoggerAuthorization \<Rightarrow> bool \<times> LoggerAuthorization" where
  "restoreRecord J saved a =
     (let a = a\<lparr>la_config := (la_config a)\<lparr>ac_token := []\<rparr>, la_activeToken := [], la_deviceId := [], la_candidate := [],
        la_rotationPhase := 0\<rparr>
      in case deserialize J 4096 None saved of
        None \<Rightarrow> (False, la_fail ''Credential record identity mismatch'' a)
      | Some doc \<Rightarrow>
        if as_text J (member J doc ''hardware_id'') \<noteq> la_hardwareId a
        then (False, la_fail ''Credential record identity mismatch'' a)
        else let a = a\<lparr>la_installationId := as_text J (member J doc ''installation_id''),
               la_installationSecret := as_text J (member J doc ''installation_secret'')\<rparr>
          in if \<not> policy_uuid (la_installationId a) \<or> \<not> policy_hex (la_installationSecret a) 64
             then (False, la_fail ''Invalid installation identity'' a)
             else case restore_server J doc (restore_stored J doc a) of
                 (False, a) \<Rightarrow> (False, a)
               | (True, a) \<Rightarrow> case restore_authorization J doc a of
                   (False, a) \<Rightarrow> (False, a)
                 | (True, a) \<Rightarrow> (True, use_stored J doc a))"

subsection \<open>Starting up\<close>

text \<open>The identity of the record, or a new one that is stored first.\<close>

definition installation ::
  "'w auth_ops \<Rightarrow> 'd json_ops \<Rightarrow> LoggerAuthorization \<Rightarrow> 'w \<Rightarrow> string option \<times> LoggerAuthorization \<times> 'w" where
  "installation A J a w =
     (let saved = getString (au_prefs A) kAuthzNamespace ''record'' [] w in
      if saved \<noteq> [] then
        case deserialize J 4096 None saved of
          None \<Rightarrow> (None, la_fail ''Credential record invalid; preserved for recovery'' a, w)
        | Some d \<Rightarrow> if as_text J (member J d ''hardware_id'') \<noteq> la_hardwareId a
            then (None, la_fail ''Credential record invalid; preserved for recovery'' a, w)
            else (Some saved, a\<lparr>la_installationId := as_text J (member J d ''installation_id''),
              la_installationSecret := as_text J (member J d ''installation_secret'')\<rparr>, w)
      else case randomUuid A w of (i, w) \<Rightarrow> case randomHex A 32 w of (s, w) \<Rightarrow>
        let v = serialize J (identity_fields (la_hardwareId a) i s);
            a = a\<lparr>la_installationId := i, la_installationSecret := s\<rparr> in
        case pr_put (au_prefs A) kAuthzNamespace ''record'' (PString v) w of (n, w) \<Rightarrow>
        if n \<noteq> length v then (None, la_fail ''Cannot persist device identity'' a, w) else (Some v, a, w))"

definition resume_pending :: "'w auth_ops \<Rightarrow> 'w \<Rightarrow> LoggerAuthorization \<Rightarrow> LoggerAuthorization" where
  "resume_pending A w a =
     (if la_authorizationId a \<noteq> [] \<and> la_deviceCode a \<noteq> []
      then let now = au_time A w; n = word_of_int now in
        a\<lparr>la_expiresMs := (if 1000000000 < now \<and> la_expiresEpoch a \<noteq> 0
            then if n < la_expiresEpoch a then min 600 (la_expiresEpoch a - n) * 1000 else 1 else 600000),
          la_startedMs := au_millis A w, la_status := (if la_ackPending a then ''credential_saved'' else ''awaiting_approval'')\<rparr>
      else a)"

definition authz_begin ::
  "'w auth_ops \<Rightarrow> 'd json_ops \<Rightarrow> u64 \<Rightarrow> AuthConfig \<Rightarrow> LoggerAuthorization \<Rightarrow> 'w \<Rightarrow> bool \<times> LoggerAuthorization \<times> 'w" where
  "authz_begin A J mac config a w =
     (case randomHex A 24 w of (csrf, w) \<Rightarrow>
      let a = a\<lparr>la_config := config\<lparr>ac_token := []\<rparr>, la_serverHost := ac_host config, la_hardwareId := policy_hardwareId mac,
            la_origin := ac_host config @ '':'' @ fmt_u 1 (unat (ac_port config)), la_csrf := csrf\<rparr> in
      case pr_begin (au_prefs A) kAuthzNamespace False w of
        (False, w) \<Rightarrow> (False, la_fail ''Credential storage unavailable'' a, w)
      | (True, w) \<Rightarrow> case installation A J a w of
          (None, a, w) \<Rightarrow> (False, a, w)
        | (Some saved, a, w) \<Rightarrow> case restoreRecord J saved a of
            (False, a) \<Rightarrow> (False, a, w)
          | (True, a) \<Rightarrow> case au_startWorker A w of
              (False, w) \<Rightarrow> (False, la_fail ''HTTPS worker unavailable'' a, w)
            | (True, w) \<Rightarrow> (True, resume_pending A w (a\<lparr>la_ready := True,
                la_status := (if la_activeToken a = [] then ''authorization_required'' else ''credential_stored'')\<rparr>), w))"

subsection \<open>Requests\<close>

definition authz_expiresIn :: "u32 \<Rightarrow> LoggerAuthorization \<Rightarrow> u32" where
  "authz_expiresIn now a =
     (if la_expiresMs a = 0 then 0
      else let age = since now (la_startedMs a) in if la_expiresMs a \<le> age then 0 else (la_expiresMs a - age + 999) div 1000)"

definition authz_send ::
  "'w auth_ops \<Rightarrow> 'd json_ops \<Rightarrow> bool \<Rightarrow> bool \<Rightarrow> bool \<Rightarrow> LoggerAuthorization \<Rightarrow> 'w \<Rightarrow> bool \<times> LoggerAuthorization \<times> 'w" where
  "authz_send A J start ack verify a w =
     (if \<not> au_connected A w then (False, la_fail ''Wi-Fi disconnected'' a, w)
      else let body = serialize J ((if start then [(''hardware_id'', JStr (la_hardwareId a)),
                (''installation_id'', JStr (la_installationId a)), (''device_name'', JStr ''Apexi Logger'')]
              else [(''authorization_id'', JStr (la_authorizationId a)), (''device_code'', JStr (la_deviceCode a))]) @
              [(''installation_secret'', JStr (la_installationSecret a))]);
             url = ''https://'' @ la_serverHost a @ '':'' @ fmt_u 1 (unat (ac_port (la_config a))) @
               (if verify then ''/auth/me''
                else ''/api/v1/logger-authorization/'' @ (if start then ''start'' else if ack then ''ack'' else ''poll''))
        in case au_submit A \<lparr>ar_url = url, ar_body = body, ar_bearer = (if verify then la_bootstrapToken a else []),
             ar_verify = verify\<rparr> w of
          (False, w) \<Rightarrow> (False, la_fail ''HTTPS worker busy'' a, w)
        | (True, w) \<Rightarrow> (True, a\<lparr>la_requestStart := start, la_requestAck := ack, la_requestVerify := verify, la_busy := True,
            la_lastPollMs := au_millis A w\<rparr>, w))"

definition requestAuthorization ::
  "'w auth_ops \<Rightarrow> 'd json_ops \<Rightarrow> LoggerAuthorization \<Rightarrow> 'w \<Rightarrow> bool \<times> LoggerAuthorization \<times> 'w" where
  "requestAuthorization A J a w =
     (if \<not> la_ready a \<or> la_busy a \<or> la_restart a then (False, la_fail ''Authorization is busy or unavailable'' a, w)
      else if \<not> ac_https (la_config a) then (False, la_fail ''Authorization requires HTTPS'' a, w)
      else if la_ackPending a \<or> (la_status a = ''awaiting_approval'' \<and> 0 < authz_expiresIn (au_millis A w) a) then (True, a, w)
      else let a = a\<lparr>la_authorizationId := [], la_deviceCode := [], la_userCode := [], la_error := [],
             la_status := ''requesting_code'', la_startPending := True\<rparr>
        in case authz_send A J True False False a w of (sent, a, w) \<Rightarrow>
          (True, if sent then a\<lparr>la_startPending := False\<rparr> else a, w))"


subsection \<open>Answers of the server\<close>

text \<open>Saving what is stored, as most handlers do.\<close>

abbreviation save_stored :: "'w prefs_ops \<Rightarrow> 'd json_ops \<Rightarrow> LoggerAuthorization \<Rightarrow> 'w \<Rightarrow> bool \<times> 'w" where
  "save_stored P J a \<equiv> saveRecord P J a (la_storedToken a) (la_storedDeviceId a) (la_credentialVersion a)"

definition accept_denied ::
  "'w prefs_ops \<Rightarrow> 'd json_ops \<Rightarrow> int \<Rightarrow> LoggerAuthorization \<Rightarrow> 'w \<Rightarrow> LoggerAuthorization \<times> 'w" where
  "accept_denied P J status a w =
     (let a = a\<lparr>la_status := (if status = 410 then ''expired'' else if status = 403 then ''denied'' else ''authorization_required''),
        la_error := ''Authorization expired, denied or proof rejected'', la_deviceCode := [], la_userCode := [],
        la_authorizationId := [], la_ackPending := False, la_bootstrapToken := [], la_bootstrapDeviceId := [],
        la_bootstrapVersion := 0, la_verifyPending := False\<rparr>
      in (a, snd (save_stored P J a w)))"

definition accept_acknowledged ::
  "'w prefs_ops \<Rightarrow> 'd json_ops \<Rightarrow> LoggerAuthorization \<Rightarrow> 'w \<Rightarrow> LoggerAuthorization \<times> 'w" where
  "accept_acknowledged P J a w =
     (let b = a\<lparr>la_storedOrigin := la_origin a, la_rotationPhase := 0, la_candidate := [], la_appliedRotationVersion := 0,
        la_appliedRotationNonce := [], la_authorizationId := [], la_deviceCode := [], la_userCode := [], la_ackPending := False\<rparr>
      in case saveRecord P J b (la_bootstrapToken b) (la_bootstrapDeviceId b) (la_bootstrapVersion b) w of
           (False, w) \<Rightarrow> (b\<lparr>la_storedOrigin := la_storedOrigin a, la_rotationPhase := la_rotationPhase a,
             la_candidate := la_candidate a, la_appliedRotationVersion := la_appliedRotationVersion a,
             la_appliedRotationNonce := la_appliedRotationNonce a, la_authorizationId := la_authorizationId a,
             la_deviceCode := la_deviceCode a, la_ackPending := True,
             la_error := ''Cannot save acknowledgement; retrying''\<rparr>, w)
         | (True, w) \<Rightarrow> (b\<lparr>la_status := ''authorized'', la_error := [], la_restart := True\<rparr>, w))"

definition accept_challenge ::
  "'w auth_ops \<Rightarrow> 'd json_ops \<Rightarrow> 'd \<Rightarrow> LoggerAuthorization \<Rightarrow> 'w \<Rightarrow> LoggerAuthorization \<times> 'w" where
  "accept_challenge A J doc a w =
     (case (as_str J (member J doc ''authorization_id''), as_str J (member J doc ''device_code''),
            as_str J (member J doc ''user_code''), as_unsigned J (member J doc ''expires_in'')) of
        (Some i, Some proof, Some user, Some n) \<Rightarrow>
          if \<not> policy_uuid i \<or> \<not> printable proof 32 256 \<or> \<not> printable user 8 16 \<or> n = 0 \<or> 600 < n
          then (la_fail ''Invalid authorization challenge'' a, w)
          else let a = a\<lparr>la_authorizationId := i, la_deviceCode := proof, la_userCode := user, la_expiresMs := n * 1000,
                 la_startedMs := au_millis A w,
                 la_expiresEpoch := (if 1000000000 < au_time A w then word_of_int (au_time A w) + n * 1000 div 1000 else 0),
                 la_pollMs := pollDelay (num_or J (member J doc ''interval'') 5)\<rparr>
            in (case save_stored (au_prefs A) J a w of
                  (False, w) \<Rightarrow> (a\<lparr>la_authorizationId := [], la_deviceCode := [], la_userCode := [],
                    la_status := ''storage_fault'', la_error := ''Cannot save authorization challenge''\<rparr>, w)
                | (True, w) \<Rightarrow> (a\<lparr>la_status := ''awaiting_approval'', la_error := []\<rparr>, w))
      | _ \<Rightarrow> (la_fail ''Invalid authorization challenge'' a, w))"

definition accept_issued ::
  "'w prefs_ops \<Rightarrow> 'd json_ops \<Rightarrow> 'd \<Rightarrow> LoggerAuthorization \<Rightarrow> 'w \<Rightarrow> LoggerAuthorization \<times> 'w" where
  "accept_issued P J doc a w =
     (case (as_str J (member J doc ''access_token''), as_str J (member J doc ''device_id''),
            as_unsigned J (member J doc ''credential_version'')) of
        (Some token, Some i, Some version) \<Rightarrow>
          if \<not> printable token 32 511 \<or> \<not> policy_deviceId i then (la_fail ''Invalid issued credential'' a, w)
          else let a = a\<lparr>la_ackPending := True, la_bootstrapToken := token, la_bootstrapDeviceId := i,
                 la_bootstrapVersion := version\<rparr>
            in (case save_stored P J a w of
                  (False, w) \<Rightarrow> (a\<lparr>la_ackPending := False, la_error := ''Cannot save credential; retrying delivery''\<rparr>, w)
                | (True, w) \<Rightarrow> (a\<lparr>la_status := ''credential_saved'', la_error := []\<rparr>, w))
      | _ \<Rightarrow> (la_fail ''Invalid issued credential'' a, w))"

text \<open>\<open>accept\<close> without the answer to a verification, which calls it again.\<close>

definition accept_plain ::
  "'w auth_ops \<Rightarrow> 'd json_ops \<Rightarrow> int \<Rightarrow> string \<Rightarrow> bool \<Rightarrow> bool \<Rightarrow> LoggerAuthorization \<Rightarrow> 'w \<Rightarrow> LoggerAuthorization \<times> 'w" where
  "accept_plain A J status body start ack a w =
     (if status = 429 then (a\<lparr>la_pollMs := min 60000 (la_pollMs a + 5000), la_error := ''Authorization rate limited; retrying''\<rparr>, w)
      else if status \<le> 0 \<or> 500 \<le> status
      then (a\<lparr>la_error := ''Authorization server unavailable; retrying'',
        la_status := (if start then ''request_failed'' else la_status a)\<rparr>, w)
      else if status = 410 \<and> ack \<and> la_ackPending a
      then (a\<lparr>la_verifyPending := True, la_status := ''verifying_saved_credential'',
        la_error := ''Acknowledgement expired; checking saved credential''\<rparr>, w)
      else if status = 410 \<or> status = 403 \<or> status = 401 then accept_denied (au_prefs A) J status a w
      else case deserialize J 4096 None body of
        None \<Rightarrow> (la_fail ''Invalid authorization response'' a, w)
      | Some doc \<Rightarrow>
        if \<not> is_object J doc then (la_fail ''Invalid authorization response'' a, w)
        else if ack \<and> status = 200 \<and> str_is J (member J doc ''status'') ''acknowledged''
        then accept_acknowledged (au_prefs A) J a w
        else if start \<and> status = 201 then accept_challenge A J doc a w
        else if \<not> start \<and> status = 202 \<and> str_is J (member J doc ''status'') ''authorization_pending'' then (la_fail [] a, w)
        else if \<not> start \<and> \<not> ack \<and> status = 200 \<and> str_is J (member J doc ''status'') ''authorized'' \<and>
          str_is J (member J doc ''token_type'') ''Bearer''
        then accept_issued (au_prefs A) J doc a w
        else (la_fail ''Unexpected authorization response'' a, w))"

text \<open>The actor of a verification answer is this device's saved credential, with the scope to upload.\<close>

definition actor_verified :: "'d json_ops \<Rightarrow> 'd \<Rightarrow> LoggerAuthorization \<Rightarrow> bool" where
  "actor_verified J doc a \<longleftrightarrow> (let actor = member J doc ''actor'' in
     bool_true J (member J actor ''authenticated'') \<and> str_is J (member J actor ''auth_method'') ''bearer'' \<and>
     as_text J (member J actor ''subject'') = ''logger:'' @ la_bootstrapDeviceId a \<and>
     list_ex (\<lambda>v. str_is J v ''logger:ingest'') (elements J (member J actor ''scopes'')))"

definition acknowledged_body :: string where
  "acknowledged_body = [CHR 0x7B, CHR 0x22] @ ''status'' @ [CHR 0x22, CHR '':'', CHR 0x22] @ ''acknowledged'' @ [CHR 0x22, CHR 0x7D]"

definition authz_accept ::
  "'w auth_ops \<Rightarrow> 'd json_ops \<Rightarrow> int \<Rightarrow> string \<Rightarrow> bool \<Rightarrow> bool \<Rightarrow> bool \<Rightarrow> LoggerAuthorization \<Rightarrow> 'w \<Rightarrow>
   LoggerAuthorization \<times> 'w" where
  "authz_accept A J status body start ack verify a w =
     (if verify \<and> status = 200
      then case deserialize J 4096 None body of
          None \<Rightarrow> (la_fail ''Invalid credential verification response'' a, w)
        | Some doc \<Rightarrow>
          if actor_verified J doc a
          then accept_plain A J 200 acknowledged_body False True (a\<lparr>la_verifyPending := False\<rparr>) w
          else accept_plain A J 410 ''{}'' False False (a\<lparr>la_verifyPending := False\<rparr>) w
      else accept_plain A J status body start ack a w)"


definition loop_poll :: "'w auth_ops \<Rightarrow> 'd json_ops \<Rightarrow> LoggerAuthorization \<Rightarrow> 'w \<Rightarrow> LoggerAuthorization \<times> 'w" where
  "loop_poll A J a w =
     (if la_status a = ''awaiting_approval'' \<and> \<not> la_busy a
      then if authz_expiresIn (au_millis A w) a = 0
        then let a = a\<lparr>la_status := ''expired'', la_deviceCode := [], la_userCode := [], la_authorizationId := []\<rparr>
          in (a, snd (save_stored (au_prefs A) J a (au_cancel A w)))
        else if policy_elapsed (au_millis A w) (la_lastPollMs a) (la_pollMs a)
        then snd (authz_send A J False False False a w) else (a, w)
      else (a, w))"

definition loop_result :: "'w auth_ops \<Rightarrow> 'd json_ops \<Rightarrow> LoggerAuthorization \<Rightarrow> 'w \<Rightarrow> LoggerAuthorization \<times> 'w" where
  "loop_result A J a w = (case au_result A w of None \<Rightarrow> (a, w)
     | Some (status, body, tlsError) \<Rightarrow>
       case authz_accept A J status body (la_requestStart a) (la_requestAck a) (la_requestVerify a) (a\<lparr>la_busy := False\<rparr>) w of
         (a, w) \<Rightarrow> (if status \<le> 0 then la_fail (''Authorization transport error '' @ fmt_d 1 status @ ''; TLS '' @ fmt_d 1 tlsError) a
           else a, au_release A w))"

definition authz_loop :: "'w auth_ops \<Rightarrow> 'd json_ops \<Rightarrow> LoggerAuthorization \<Rightarrow> 'w \<Rightarrow> LoggerAuthorization \<times> 'w" where
  "authz_loop A J a w =
     (if \<not> la_ready a then (a, w)
      else case (if la_startPending a \<and> \<not> la_busy a
                 then case authz_send A J True False False a w of
                     (sent, a, w) \<Rightarrow> (if sent then a\<lparr>la_startPending := False\<rparr> else a, w)
                 else (a, w)) of (a, w) \<Rightarrow>
        case loop_result A J a w of (a, w) \<Rightarrow>
        case (if la_ackPending a \<and> \<not> la_busy a \<and> policy_elapsed (au_millis A w) (la_lastPollMs a) (la_pollMs a)
              then snd (authz_send A J False (\<not> la_verifyPending a) (la_verifyPending a) a w) else (a, w)) of (a, w) \<Rightarrow>
        loop_poll A J a w)"

subsection \<open>Rotation\<close>

definition authz_bearer :: "bool \<Rightarrow> LoggerAuthorization \<Rightarrow> string" where
  "authz_bearer statusRequest a =
     (if statusRequest \<and> la_rotationPhase a = 2 \<and> \<not> la_fallback a then la_candidate a else ac_token (la_config a))"

definition rotationAcknowledgement :: "'d json_ops \<Rightarrow> LoggerAuthorization \<Rightarrow> string" where
  "rotationAcknowledgement J a =
     (if la_fallback a then []
      else let version = (if la_rotationPhase a \<noteq> 0 then la_rotationVersion a else la_appliedRotationVersion a);
               nonce = (if la_rotationPhase a \<noteq> 0 then la_rotationNonce a else la_appliedRotationNonce a)
        in if version = 0 \<or> nonce = [] then []
           else serialize J [(''version'', JNum version), (''nonce'', JStr nonce), (''state'', JStr ''applied'')])"

definition stageCandidate ::
  "'w prefs_ops \<Rightarrow> 'd json_ops \<Rightarrow> u32 \<Rightarrow> string \<Rightarrow> string \<Rightarrow> string \<Rightarrow> LoggerAuthorization \<Rightarrow> 'w \<Rightarrow>
   bool \<times> LoggerAuthorization \<times> 'w" where
  "stageCandidate P J version token nonce expiry a w =
     (let b = a\<lparr>la_candidate := token, la_rotationNonce := nonce, la_rotationExpiry := expiry, la_rotationVersion := version,
        la_rotationPhase := 1\<rparr>
      in case save_stored P J b w of
           (False, w) \<Rightarrow> (False, b\<lparr>la_candidate := [], la_rotationNonce := [], la_rotationExpiry := [], la_rotationVersion := 0,
             la_rotationPhase := 0, la_error := ''Cannot stage rotated credential''\<rparr>, w)
         | (True, w) \<Rightarrow> (True, b\<lparr>la_status := ''rotation_staged''\<rparr>, w))"

definition stageRotation ::
  "'w prefs_ops \<Rightarrow> 'd json_ops \<Rightarrow> 'd \<Rightarrow> LoggerAuthorization \<Rightarrow> 'w \<Rightarrow> bool \<times> LoggerAuthorization \<times> 'w" where
  "stageRotation P J rotation a w =
     (if la_restart a then (True, a, w)
      else if is_null J rotation then (True, a, w)
      else if \<not> str_is J (member J rotation ''type'') ''app_bearer'' then (False, a, w)
      else case (as_unsigned J (member J rotation ''version''), as_str J (member J rotation ''token''),
             as_str J (member J rotation ''nonce''), as_str J (member J rotation ''overlap_expires_at'')) of
        (Some version, Some token, Some nonce, Some expiry) \<Rightarrow>
          if version = 0 \<or> \<not> printable token 32 511 \<or> \<not> printable nonce 8 96 \<or> \<not> printable expiry 20 40 then (False, a, w)
          else if version = la_appliedRotationVersion a
          then (token = la_storedToken a \<and> nonce = la_appliedRotationNonce a, a, w)
          else if la_rotationPhase a \<noteq> 0
          then (version = la_rotationVersion a \<and> token = la_candidate a \<and> nonce = la_rotationNonce a, a, w)
          else if version < la_appliedRotationVersion a \<or> token = la_storedToken a \<or> la_storedToken a = [] \<or> la_ackPending a
          then (False, a, w)
          else stageCandidate P J version token nonce expiry a w
      | _ \<Rightarrow> (False, a, w))"

definition stageDesired ::
  "'w prefs_ops \<Rightarrow> 'd json_ops \<Rightarrow> 'd \<Rightarrow> LoggerAuthorization \<Rightarrow> 'w \<Rightarrow> bool \<times> LoggerAuthorization \<times> 'w" where
  "stageDesired P J envelope a w =
     (if \<not> contains_key J envelope ''credential_rotation'' then (True, a, w)
      else if as_unsigned J (member J envelope ''schema_version'') \<noteq> Some 1 \<or>
        as_str J (member J envelope ''device_id'') \<noteq> Some (ac_deviceId (la_config a)) \<or>
        \<not> is_object J (member J envelope ''credential_rotation'') then (False, a, w)
      else stageRotation P J (member J envelope ''credential_rotation'') a w)"

definition statusResult ::
  "'w prefs_ops \<Rightarrow> 'd json_ops \<Rightarrow> bool \<Rightarrow> LoggerAuthorization \<Rightarrow> 'w \<Rightarrow> LoggerAuthorization \<times> 'w" where
  "statusResult P J accepted a w =
     (if la_restart a then (a, w)
      else if \<not> accepted
      then (if la_rotationPhase a = 0 \<and> la_authorizationId a = [] \<and> \<not> la_busy a
            then a\<lparr>la_status := (if la_activeToken a = [] then ''authorization_required'' else ''connection_failed'')\<rparr> else a, w)
      else if la_rotationPhase a = 1
      then case save_stored P J (a\<lparr>la_rotationPhase := 2\<rparr>) w of
          (False, w) \<Rightarrow> (la_fail ''Cannot persist rotation acknowledgement'' a, w)
        | (True, w) \<Rightarrow> (a\<lparr>la_rotationPhase := 2, la_status := ''rotation_verifying''\<rparr>, w)
      else if la_rotationPhase a = 2
      then let b = a\<lparr>la_appliedRotationVersion := la_rotationVersion a, la_appliedRotationNonce := la_rotationNonce a,
             la_rotationPhase := 0\<rparr>
        in (case saveRecord P J b (la_candidate b) (la_storedDeviceId b) (la_rotationVersion b) w of
              (False, w) \<Rightarrow> (la_fail ''Cannot commit rotated credential'' a, w)
            | (True, w) \<Rightarrow> (b\<lparr>la_status := ''rotation_complete'', la_restart := True\<rparr>, w))
      else (if \<not> la_busy a \<and> la_status a \<noteq> ''awaiting_approval'' \<and> \<not> la_ackPending a
            then a\<lparr>la_status := ''connected''\<rparr> else a, w))"

definition beginRotationFallback :: "LoggerAuthorization \<Rightarrow> LoggerAuthorization" where
  "beginRotationFallback a = a\<lparr>la_fallback := True\<rparr>"

definition finishRotationFallback ::
  "'w prefs_ops \<Rightarrow> 'd json_ops \<Rightarrow> bool \<Rightarrow> LoggerAuthorization \<Rightarrow> 'w \<Rightarrow> bool \<times> LoggerAuthorization \<times> 'w" where
  "finishRotationFallback P J oldAccepted a w =
     (let a = a\<lparr>la_fallback := False\<rparr> in
      if \<not> oldAccepted then (False, a, w)
      else let b = a\<lparr>la_rotationPhase := 0, la_candidate := [], la_rotationNonce := [], la_rotationExpiry := [],
             la_rotationVersion := 0\<rparr>
        in case save_stored P J b w of
             (False, w) \<Rightarrow> (False, la_fail ''Cannot clear rejected rotation; old credential retained'' a, w)
           | (True, w) \<Rightarrow> (True, b\<lparr>la_status := ''connected'',
               la_error := ''Rejected rotation cleared; old credential retained''\<rparr>, w))"


subsection \<open>What the record keeps\<close>

definition stored_record :: "('w \<Rightarrow> string \<Rightarrow> string \<Rightarrow> pval option) \<Rightarrow> 'w \<Rightarrow> string" where
  "stored_record saved w = (case saved w kAuthzNamespace ''record'' of Some (PString v) \<Rightarrow> v | _ \<Rightarrow> [])"

definition token_in :: "'d json_ops \<Rightarrow> string \<Rightarrow> string option" where
  "token_in J v = (case deserialize J 4096 None v of Some d \<Rightarrow> as_str J (member J d ''access_token'') | None \<Rightarrow> None)"

definition tok :: "string \<Rightarrow> string option" where
  "tok t = (if t = [] then None else Some t)"

lemma record_fields_distinct: "distinct (map fst (record_fields a token i version))"
  by (simp add: record_fields_def identity_fields_def)

lemma token_in_record:
  assumes "json_objects J" "\<not> overflowed J 4096 (record_fields a token i version)"
  shows "token_in J (serialize J (record_fields a token i version)) = tok token"
proof -
  obtain d where d: "deserialize J 4096 None (serialize J (record_fields a token i version)) = Some d"
    "\<And>k s. map_of (record_fields a token i version) k = Some (JStr s) \<Longrightarrow>
       as_text J (member J d k) = s \<and> as_str J (member J d k) = Some s"
    "\<And>k. map_of (record_fields a token i version) k = None \<Longrightarrow> as_str J (member J d k) = None"
    using json_objects.read_back [OF assms(1) record_fields_distinct assms(2)] by metis
  have "map_of (record_fields a token i version) ''access_token'' = map_option JStr (tok token)"
    by (simp add: record_fields_def identity_fields_def tok_def)
  then show ?thesis using d by (auto simp: token_in_def tok_def split: if_splits)
qed

text \<open>A save stores the whole record or leaves the old one, and reports success only with the new one stored.\<close>

lemma saveRecord_law:
  assumes "preferences P saved" "saveRecord P J a token i version w = (b, w')"
  shows "(b \<longrightarrow> stored_record saved w' = serialize J (record_fields a token i version) \<and>
      \<not> overflowed J 4096 (record_fields a token i version)) \<and>
    (stored_record saved w' = stored_record saved w \<or>
     (stored_record saved w' = serialize J (record_fields a token i version) \<and>
      \<not> overflowed J 4096 (record_fields a token i version)))"
proof -
  let ?f = "record_fields a token i version"
  show ?thesis
  proof (cases "overflowed J 4096 ?f")
    case True
    then show ?thesis using assms(2) by (simp add: saveRecord_def)
  next
    case False
    obtain o1 w1 where 1: "pr_begin P kAuthzNamespace False w = (o1, w1)" by fastforce
    obtain n w2 where 2: "pr_put P kAuthzNamespace ''record'' (PString (serialize J ?f)) w1 = (n, w2)" by fastforce
    have s1: "saved w1 = saved w" using preferences.begin_law [OF assms(1) 1] .
    have s2: "saved w2 = pref_upd kAuthzNamespace ''record'' (Some (PString (serialize J ?f))) (saved w1) \<or>
      (n = 0 \<and> saved w2 = saved w1)" using preferences.put_law [OF assms(1) 2] .
    have "b = (o1 \<and> n = length (serialize J ?f) \<and> getString P kAuthzNamespace ''record'' [] w2 = serialize J ?f) \<and>
      w' = (if o1 then w2 else w1)"
      using assms(2) False 1 2 by (cases o1) (auto simp: saveRecord_def Let_def)
    then show ?thesis using s1 s2 False
      by (auto simp: stored_record_def getString_def preferences.get_law [OF assms(1)] split: if_splits)
  qed
qed

lemma save_token:
  assumes "preferences P saved" "json_objects J" "saveRecord P J a token i version w = (b, w')"
  shows "(b \<longrightarrow> token_in J (stored_record saved w') = tok token) \<and>
    (stored_record saved w' = stored_record saved w \<or> token_in J (stored_record saved w') = tok token)"
  using saveRecord_law [OF assms(1,3)] token_in_record [OF assms(2)] by auto


subsection \<open>Steps\<close>

datatype 'd auth_step =
    AnswerStep int string bool bool bool
  | DesiredStep 'd
  | StatusStep bool
  | FallbackStep bool

definition auth_step :: "'w auth_ops \<Rightarrow> 'd json_ops \<Rightarrow> 'd auth_step \<Rightarrow> LoggerAuthorization \<Rightarrow> 'w \<Rightarrow> LoggerAuthorization \<times> 'w" where
  "auth_step A J x a w = (case x of
      AnswerStep status body start ack verify \<Rightarrow> authz_accept A J status body start ack verify a w
    | DesiredStep d \<Rightarrow> snd (stageDesired (au_prefs A) J d a w)
    | StatusStep accepted \<Rightarrow> statusResult (au_prefs A) J accepted a w
    | FallbackStep accepted \<Rightarrow> snd (finishRotationFallback (au_prefs A) J accepted a w))"

text \<open>A step that leaves the stored credential: the record is untouched or rewritten with the same token.\<close>

definition keeps_token :: "'d json_ops \<Rightarrow> ('w \<Rightarrow> string \<Rightarrow> string \<Rightarrow> pval option) \<Rightarrow> string \<Rightarrow> 'w \<Rightarrow> 'w \<Rightarrow> bool" where
  "keeps_token J saved token w w' \<longleftrightarrow>
     stored_record saved w' = stored_record saved w \<or> token_in J (stored_record saved w') = tok token"

lemma keeps_refl [simp]: "keeps_token J saved token w w"
  by (simp add: keeps_token_def)

locale authorization_store = preferences P saved + json_objects J
  for P :: "'w prefs_ops" and saved :: "'w \<Rightarrow> string \<Rightarrow> string \<Rightarrow> pval option" and J :: "'d json_ops"
begin

text \<open>A committed record with no rotation or acknowledgement under way is what the next start-up uses.\<close>

lemma restored:
  assumes "\<not> overflowed J 4096 (record_fields a token i version)"
    and "la_hardwareId a0 = la_hardwareId a" "la_origin a0 = la_origin a" "la_storedOrigin a = la_origin a"
    and "policy_uuid (la_installationId a)" "policy_hex (la_installationSecret a) 64"
    and "printable token 32 511" "policy_deviceId i" "la_rotationPhase a = 0" "\<not> la_ackPending a"
  shows "\<exists>a1. restoreRecord J (serialize J (record_fields a token i version)) a0 = (True, a1) \<and>
    ac_token (la_config a1) = token \<and> ac_deviceId (la_config a1) = i \<and> la_storedToken a1 = token \<and> la_rotationPhase a1 = 0 \<and>
    la_appliedRotationVersion a1 = la_appliedRotationVersion a \<and> \<not> la_ackPending a1"
proof -
  let ?f = "record_fields a token i version"
  have ne: "token \<noteq> []" "i \<noteq> []" using assms(7,8) by (auto simp: printable_def policy_deviceId_def)
  obtain d where d: "deserialize J 4096 None (serialize J ?f) = Some d"
    "\<And>k. contains_key J d k \<longleftrightarrow> map_of ?f k \<noteq> None"
    "\<And>k s. map_of ?f k = Some (JStr s) \<Longrightarrow> as_text J (member J d k) = s \<and> as_str J (member J d k) = Some s"
    "\<And>k b. map_of ?f k = Some (JBool b) \<Longrightarrow> as_bool J (member J d k) = Some b"
    "\<And>k m. map_of ?f k = Some (JNum m) \<Longrightarrow> as_unsigned J (member J d k) = Some m \<and> as_int64 J (member J d k) = Some (uint m)"
    "\<And>k. map_of ?f k = None \<Longrightarrow> as_str J (member J d k) = None"
    by (rule read_back [OF record_fields_distinct assms(1)]) (rule that; assumption)
  have f [simp]: "map_of ?f ''hardware_id'' = Some (JStr (la_hardwareId a))"
    "map_of ?f ''installation_id'' = Some (JStr (la_installationId a))"
    "map_of ?f ''installation_secret'' = Some (JStr (la_installationSecret a))"
    "map_of ?f ''origin'' = Some (JStr (la_storedOrigin a))" "map_of ?f ''access_token'' = Some (JStr token)"
    "map_of ?f ''device_id'' = Some (JStr i)" "map_of ?f ''pending_origin'' = Some (JStr (la_origin a))"
    "map_of ?f ''ack_pending'' = Some (JBool (la_ackPending a))"
    "map_of ?f ''rotation_phase'' = Some (JNum (ucast (la_rotationPhase a)))"
    "map_of ?f ''applied_rotation_version'' = Some (JNum (la_appliedRotationVersion a))"
    using ne by (simp_all add: record_fields_def identity_fields_def)
  note r = d(3) [OF f(1)] d(3) [OF f(2)] d(3) [OF f(3)] d(3) [OF f(4)] d(3) [OF f(5)] d(3) [OF f(6)] d(3) [OF f(7)]
    d(4) [OF f(8)] d(5) [OF f(9)] d(5) [OF f(10)]
  define a1 where "a1 = a0\<lparr>la_config := (la_config a0)\<lparr>ac_token := []\<rparr>, la_activeToken := [], la_deviceId := [],
    la_candidate := [], la_rotationPhase := 0\<rparr>"
  define a2 where "a2 = a1\<lparr>la_installationId := la_installationId a, la_installationSecret := la_installationSecret a\<rparr>"
  define a3 where "a3 = restore_stored J d a2"
  define a4 where "a4 = restore_active J d a3"
  define a5 where "a5 = restore_rotation J d a4"
  define a6 where "a6 = restore_pending J d a5"
  have a1: "la_hardwareId a1 = la_hardwareId a" "la_origin a1 = la_origin a"
    using assms(2,3) by (simp_all add: a1_def)
  have a3: "la_origin a3 = la_origin a" "la_storedOrigin a3 = la_origin a"
    using a1 assms(4) r(4) by (simp_all add: a3_def restore_stored_def a2_def)
  have a4: "la_activeToken a4 = token" "la_deviceId a4 = i" "la_origin a4 = la_origin a"
    using a3 r(5,6) by (simp_all add: a4_def restore_active_def)
  have a5: "la_activeToken a5 = token" "la_deviceId a5 = i" "la_origin a5 = la_origin a" "la_storedToken a5 = token"
    "la_rotationPhase a5 = 0" "la_appliedRotationVersion a5 = la_appliedRotationVersion a"
    using a4 r(9,10) assms(9) by (simp_all add: a5_def restore_rotation_def num_or_def int_or_def)
  have a6: "la_activeToken a6 = token" "la_deviceId a6 = i" "la_storedToken a6 = token" "la_rotationPhase a6 = 0"
    "la_appliedRotationVersion a6 = la_appliedRotationVersion a" "\<not> la_ackPending a6"
    using a5 r(8) assms(10) by (simp_all add: a6_def restore_pending_def bool_true_def)
  have "restore_server J d a3 = (True, a5)"
    using a3 a4 a5 assms(7,8) unfolding restore_server_def Let_def a4_def [symmetric] a5_def [symmetric]
    by (simp add: credential_sound_def rotation_sound_def)
  moreover have "restore_authorization J d a5 = (True, a6)"
    using a5 a6 r(7) unfolding restore_authorization_def Let_def a6_def [symmetric] by (simp add: pending_sound_def)
  moreover have "policy_uuid (la_installationId a2)" "policy_hex (la_installationSecret a2) 64"
    using assms(5,6) by (simp_all add: a2_def)
  ultimately have "restoreRecord J (serialize J ?f) a0 = (True, use_stored J d a6)"
    unfolding restoreRecord_def Let_def a1_def [symmetric] d(1) option.case r(1-3) [THEN conjunct1] a2_def [symmetric]
    using a1 by (simp flip: a3_def)
  then show ?thesis using a6 ne by (simp add: use_stored_def d(2))
qed

lemma save_keeps: "keeps_token J saved token w (snd (saveRecord P J a token i version w))"
  using save_token [OF preferences_axioms json_objects_axioms surjective_pairing] by (auto simp: keeps_token_def)

lemma save_keeps': "saveRecord P J a token i version w = (b, w') \<Longrightarrow> keeps_token J saved token w w'"
  using save_keeps [of token w a i version] by simp

lemma denied_keeps: "keeps_token J saved (la_storedToken a) w (snd (accept_denied P J status a w))"
  unfolding accept_denied_def Let_def snd_conv using save_keeps by simp

lemma challenge_keeps: "keeps_token J saved (la_storedToken a) w (snd (accept_challenge A J doc a w))"
  if "au_prefs A = P"
  unfolding accept_challenge_def Let_def that
  by (auto split: option.splits prod.splits bool.splits dest!: save_keeps')

lemma issued_keeps: "keeps_token J saved (la_storedToken a) w (snd (accept_issued P J doc a w))"
  unfolding accept_issued_def Let_def
  by (auto split: option.splits prod.splits bool.splits dest!: save_keeps')

lemma acknowledged_keeps: "keeps_token J saved (la_bootstrapToken a) w (snd (accept_acknowledged P J a w))"
  unfolding accept_acknowledged_def Let_def
  by (auto split: prod.splits bool.splits dest!: save_keeps')

lemma staged_keeps: "keeps_token J saved (la_storedToken a) w (snd (snd (stageDesired P J d a w)))"
  unfolding stageDesired_def stageRotation_def stageCandidate_def Let_def
  by (auto split: option.splits prod.splits bool.splits dest!: save_keeps')

lemma fallback_keeps: "keeps_token J saved (la_storedToken a) w (snd (snd (finishRotationFallback P J accepted a w)))"
  unfolding finishRotationFallback_def Let_def
  by (auto split: prod.splits bool.splits dest!: save_keeps')

lemma status_keeps: "keeps_token J saved
    (if accepted \<and> la_rotationPhase a = 2 \<and> \<not> la_restart a then la_candidate a else la_storedToken a) w
    (snd (statusResult P J accepted a w))"
  unfolding statusResult_def Let_def
  by (auto split: prod.splits bool.splits dest!: save_keeps')

lemma plain_keeps:
  assumes "au_prefs A = P"
  shows "keeps_token J saved (la_storedToken a) w (snd (accept_plain A J status body start ack a w)) \<or>
    (status = 200 \<and> ack \<and> keeps_token J saved (la_bootstrapToken a) w (snd (accept_plain A J status body start ack a w)) \<and>
     (\<exists>doc. deserialize J 4096 None body = Some doc \<and> str_is J (member J doc ''status'') ''acknowledged''))"
  unfolding accept_plain_def assms
  by (simp add: denied_keeps challenge_keeps [OF assms] issued_keeps acknowledged_keeps split: option.split)

end


interpretation small_authorization: authorization_store fake_prefs_ops fp_saved wire_json
  by (intro authorization_store.intro fake_store.preferences_axioms wire.json_objects_axioms)


text \<open>
  A status request with the old credential that was sent before a new credential was acknowledged
  and answered before the restart writes the old one back over the new one.
\<close>

lemma late_fallback_reverts:
  assumes "authorization_store P saved J" "accept_acknowledged P J a w = (a1, w1)" "la_restart a1"
    and "finishRotationFallback P J True a1 w1 = (True, a2, w2)"
  shows "token_in J (stored_record saved w2) = tok (la_storedToken a)"
proof -
  have P: "preferences P saved" "json_objects J" using assms(1) by (simp_all add: authorization_store_def)
  have s: "la_storedToken a1 = la_storedToken a" using assms(2)
    by (auto simp: accept_acknowledged_def Let_def split: prod.splits bool.splits)
  obtain b w3 a3 where "saveRecord P J a3 (la_storedToken a) (la_storedDeviceId a1) (la_credentialVersion a1) w1 = (b, w3)"
    "b" "w2 = w3" using assms(4) s
    by (auto simp: finishRotationFallback_def Let_def split: prod.splits bool.splits)
  then show ?thesis using save_token [OF P, of a3 "la_storedToken a"] by blast
qed


lemma randomHex_keeps:
  assumes "\<forall>w. saved (snd (au_random A w)) = saved w"
  shows "randomHex A n w = (s, w') \<Longrightarrow> saved w' = saved w"
proof (induction n arbitrary: w s w')
  case (Suc n)
  obtain r w1 where 1: "au_random A w = (r, w1)" by fastforce
  obtain t w2 where 2: "randomHex A n w1 = (t, w2)" by fastforce
  have "saved w1 = saved w" using assms [rule_format, of w] 1 by simp
  then show ?case using Suc.IH [OF 2] Suc.prems 1 2 by simp
qed simp

lemma begin_restores:
  assumes "preferences (au_prefs A) saved" "\<forall>w. saved (snd (au_random A w)) = saved w"
    and "\<forall>ns ro w. fst (pr_begin (au_prefs A) ns ro w)" "\<forall>w. fst (au_startWorker A w)"
    and "stored_record saved w = v" "v \<noteq> []" "deserialize J 4096 None v = Some d"
    and "as_text J (member J d ''hardware_id'') = policy_hardwareId mac"
    and "\<forall>a0. la_hardwareId a0 = policy_hardwareId mac \<and>
      la_origin a0 = ac_host config @ '':'' @ fmt_u 1 (unat (ac_port config)) \<longrightarrow> (\<exists>a1. restoreRecord J v a0 = (True, a1) \<and> Q a1)"
  shows "\<exists>a1 a2 w'. authz_begin A J mac config a w = (True, a2, w') \<and> Q a1 \<and> la_config a2 = la_config a1 \<and>
    la_rotationPhase a2 = la_rotationPhase a1 \<and> la_appliedRotationVersion a2 = la_appliedRotationVersion a1 \<and>
    la_storedToken a2 = la_storedToken a1"
proof -
  obtain csrf w1 where 1: "randomHex A 24 w = (csrf, w1)" by fastforce
  obtain w2 where 2: "pr_begin (au_prefs A) kAuthzNamespace False w1 = (True, w2)" using assms(3) by (metis prod.collapse)
  obtain w3 where 3: "au_startWorker A w2 = (True, w3)" using assms(4) by (metis prod.collapse)
  have "saved w2 = saved w"
    using randomHex_keeps [where saved = saved, OF assms(2) 1] preferences.begin_law [OF assms(1) 2] by simp
  then have g: "getString (au_prefs A) kAuthzNamespace ''record'' [] w2 = v"
    using assms(5) by (simp add: getString_def preferences.get_law [OF assms(1)] stored_record_def)
  define a0 where "a0 = a\<lparr>la_config := config\<lparr>ac_token := []\<rparr>, la_serverHost := ac_host config,
    la_hardwareId := policy_hardwareId mac, la_origin := ac_host config @ '':'' @ fmt_u 1 (unat (ac_port config)), la_csrf := csrf\<rparr>"
  define b where "b = a0\<lparr>la_installationId := as_text J (member J d ''installation_id''),
    la_installationSecret := as_text J (member J d ''installation_secret'')\<rparr>"
  have a0: "la_hardwareId a0 = policy_hardwareId mac" by (simp add: a0_def)
  have "installation A J a0 w2 = (Some v, b, w2)"
    unfolding installation_def g Let_def using assms(6-8) a0 by (simp add: b_def)
  moreover obtain a1 where a1: "restoreRecord J v b = (True, a1)" "Q a1"
    using assms(9) [rule_format, of b] by (auto simp: b_def a0_def)
  ultimately have "authz_begin A J mac config a w = (True, resume_pending A w3 (a1\<lparr>la_ready := True,
      la_status := (if la_activeToken a1 = [] then ''authorization_required'' else ''credential_stored'')\<rparr>), w3)"
    unfolding authz_begin_def 1 prod.case Let_def a0_def [symmetric] 2 by (simp add: 3)
  then show ?thesis using a1(2) by (auto simp: resume_pending_def Let_def)
qed

text \<open>The identity and the credential of a device that has been authorized and is not being authorized again.\<close>

definition authorized :: "u64 \<Rightarrow> AuthConfig \<Rightarrow> LoggerAuthorization \<Rightarrow> bool" where
  "authorized mac config a \<longleftrightarrow> la_hardwareId a = policy_hardwareId mac \<and>
     la_origin a = ac_host config @ '':'' @ fmt_u 1 (unat (ac_port config)) \<and> la_storedOrigin a = la_origin a \<and>
     policy_uuid (la_installationId a) \<and> policy_hex (la_installationSecret a) 64 \<and> policy_deviceId (la_storedDeviceId a) \<and>
     \<not> la_ackPending a"

text \<open>
  C40: When a status request that was authenticated with a rotated credential is accepted, either the
  rotation is committed, and every restart from then on authenticates with exactly that
  credential, under the same device, with no rotation pending; or storing it failed, and the
  rotation stays as it was, to be proved again.
\<close>

theorem rotated_credential_survives:
  assumes "authorization_store (au_prefs A) saved J" "\<forall>w. saved (snd (au_random A w)) = saved w"
    and "\<forall>ns ro w. fst (pr_begin (au_prefs A) ns ro w)" "\<forall>w. fst (au_startWorker A w)"
    and "authorized mac config a" "la_rotationPhase a = 2" "printable (la_candidate a) 32 511" "\<not> la_restart a"
    and "statusResult (au_prefs A) J True a w = (a1, w1)" "saved w2 = saved w1"
  shows "if la_restart a1
    then \<exists>a2 w3. authz_begin A J mac config a0 w2 = (True, a2, w3) \<and> authz_bearer False a2 = la_candidate a \<and>
      ac_deviceId (la_config a2) = la_storedDeviceId a \<and> la_storedToken a2 = la_candidate a \<and> la_rotationPhase a2 = 0 \<and>
      la_appliedRotationVersion a2 = la_rotationVersion a
    else a1 = la_fail ''Cannot commit rotated credential'' a"
proof -
  have P: "preferences (au_prefs A) saved" "json_objects J" using assms(1) by (simp_all add: authorization_store_def)
  define b where "b = a\<lparr>la_appliedRotationVersion := la_rotationVersion a, la_appliedRotationNonce := la_rotationNonce a,
    la_rotationPhase := 0\<rparr>"
  let ?f = "record_fields b (la_candidate b) (la_storedDeviceId b) (la_rotationVersion b)"
  obtain ok w' where s: "saveRecord (au_prefs A) J b (la_candidate b) (la_storedDeviceId b) (la_rotationVersion b) w = (ok, w')"
    by fastforce
  have step: "w1 = w'" "a1 = (if ok then b\<lparr>la_status := ''rotation_complete'', la_restart := True\<rparr>
      else la_fail ''Cannot commit rotated credential'' a)"
    using assms(6,8,9) s unfolding statusResult_def Let_def b_def [symmetric] by (auto split: bool.splits)
  show ?thesis
  proof (cases ok)
    case False
    then show ?thesis using step assms(8) by (simp add: la_fail_def)
  next
    case True
    then have v: "stored_record saved w2 = serialize J ?f" "\<not> overflowed J 4096 ?f"
      using saveRecord_law [OF P(1) s] step(1) assms(10) by (simp_all add: stored_record_def)
    obtain d where d: "deserialize J 4096 None (serialize J ?f) = Some d"
      "\<And>k s. map_of ?f k = Some (JStr s) \<Longrightarrow> as_text J (member J d k) = s \<and> as_str J (member J d k) = Some s"
      using json_objects.read_back [OF P(2) record_fields_distinct v(2)] by metis
    have h: "map_of ?f ''hardware_id'' = Some (JStr (policy_hardwareId mac))"
      using assms(5) by (simp add: record_fields_def identity_fields_def authorized_def b_def)
    have "\<exists>a1. restoreRecord J (serialize J ?f) a0 = (True, a1) \<and> (ac_token (la_config a1) = la_candidate b \<and>
        ac_deviceId (la_config a1) = la_storedDeviceId b \<and> la_storedToken a1 = la_candidate b \<and> la_rotationPhase a1 = 0 \<and>
        la_appliedRotationVersion a1 = la_appliedRotationVersion b \<and> \<not> la_ackPending a1)"
      if "la_hardwareId a0 = policy_hardwareId mac" "la_origin a0 = ac_host config @ '':'' @ fmt_u 1 (unat (ac_port config))" for a0
      using that assms(5,7) by (intro authorization_store.restored [OF assms(1) v(2)]) (simp_all add: authorized_def b_def)
    then have "\<forall>a0. la_hardwareId a0 = policy_hardwareId mac \<and>
      la_origin a0 = ac_host config @ '':'' @ fmt_u 1 (unat (ac_port config)) \<longrightarrow>
      (\<exists>a1. restoreRecord J (serialize J ?f) a0 = (True, a1) \<and> (ac_token (la_config a1) = la_candidate b \<and>
        ac_deviceId (la_config a1) = la_storedDeviceId b \<and> la_storedToken a1 = la_candidate b \<and> la_rotationPhase a1 = 0 \<and>
        la_appliedRotationVersion a1 = la_appliedRotationVersion b \<and> \<not> la_ackPending a1))" by blast
    from begin_restores [OF P(1) assms(2-4) v(1) json_objects.serialize_not_empty [OF P(2)] d(1) d(2) [OF h, THEN conjunct1] this, where a = a0]
    obtain a3 :: LoggerAuthorization and a2 w3 where "authz_begin A J mac config a0 w2 = (True, a2, w3) \<and> (ac_token (la_config a3) = la_candidate b \<and>
        ac_deviceId (la_config a3) = la_storedDeviceId b \<and> la_storedToken a3 = la_candidate b \<and> la_rotationPhase a3 = 0 \<and>
        la_appliedRotationVersion a3 = la_appliedRotationVersion b \<and> \<not> la_ackPending a3) \<and> la_config a2 = la_config a3 \<and>
      la_rotationPhase a2 = la_rotationPhase a3 \<and> la_appliedRotationVersion a2 = la_appliedRotationVersion a3 \<and>
      la_storedToken a2 = la_storedToken a3"
      by blast
    then show ?thesis using step(2) True by (simp add: authz_bearer_def b_def)
  qed
qed


subsection \<open>A small device\<close>

definition small_ops :: "fake_prefs auth_ops" where
  "small_ops = \<lparr>au_prefs = fake_prefs_ops, au_millis = (\<lambda>w. 0), au_time = (\<lambda>w. 0), au_random = (\<lambda>w. (7, w)),
     au_connected = (\<lambda>w. True), au_startWorker = (\<lambda>w. (True, w)), au_submit = (\<lambda>r w. (True, w)),
     au_result = (\<lambda>w. None), au_release = (\<lambda>w. w), au_cancel = (\<lambda>w. w)\<rparr>"

definition small_config :: AuthConfig where
  "small_config = \<lparr>ac_https = True, ac_host = ''h'', ac_port = 443, ac_deviceId = ''dev'', ac_token = [],
     ac_cloudflareId = [], ac_cloudflareSecret = []\<rparr>"

definition small_device :: LoggerAuthorization where
  "small_device = \<lparr>la_config = small_config, la_serverHost = ''h'', la_hardwareId = policy_hardwareId 10,
     la_installationId = ''01234567-0123-4567-89ab-0123456789ab'', la_installationSecret = replicate 64 (CHR ''a''),
     la_origin = ''h:443'', la_activeToken = replicate 32 (CHR ''o''), la_deviceId = ''dev'', la_authorizationId = [],
     la_deviceCode = [], la_userCode = [], la_csrf = [], la_storedToken = replicate 32 (CHR ''o''),
     la_storedDeviceId = ''dev'', la_storedOrigin = ''h:443'', la_bootstrapToken = [], la_bootstrapDeviceId = [],
     la_bootstrapVersion = 0, la_credentialVersion = 1, la_expiresEpoch = 0, la_ackPending = False,
     la_verifyPending = False, la_candidate = replicate 32 (CHR ''n''), la_rotationNonce = ''nonce-01'',
     la_rotationExpiry = ''2030-01-01T00:00:00Z'', la_appliedRotationNonce = [], la_rotationVersion = 2,
     la_appliedRotationVersion = 1, la_rotationPhase = 2, la_fallback = False, la_status = [], la_error = [],
     la_startedMs = 0, la_expiresMs = 0, la_lastPollMs = 0, la_pollMs = 5000, la_busy = False, la_restart = False,
     la_ready = True, la_requestStart = False, la_requestAck = False, la_requestVerify = False, la_startPending = False\<rparr>"

lemma small_device_authorized:
  "authorized 10 small_config small_device" "printable (la_candidate small_device) 32 511"
  by code_simp+

lemma small_device_simps: "la_rotationPhase small_device = 2" "\<not> la_restart small_device"
    "la_storedToken small_device = replicate 32 (CHR ''o'')"
  by (simp_all add: small_device_def)

lemma small_ops_store: "authorization_store (au_prefs small_ops) fp_saved wire_json"
  by (simp add: small_ops_def small_authorization.authorization_store_axioms)

definition small_flash :: fake_prefs where
  "small_flash = \<lparr>fp_entries = [], fp_writes = 3\<rparr>"


lemma small_rotation: "la_restart (fst (statusResult fake_prefs_ops wire_json True small_device small_flash))"
  by code_simp

theorem rotated_credential_survives_witness:
  "case statusResult fake_prefs_ops wire_json True small_device small_flash of (a1, w1) \<Rightarrow>
     authz_bearer False (fst (snd (authz_begin small_ops wire_json 10 small_config small_device w1))) =
       la_candidate small_device"
proof -
  obtain a1 w1 where s: "statusResult fake_prefs_ops wire_json True small_device small_flash = (a1, w1)"
    by fastforce
  have o: "au_prefs small_ops = fake_prefs_ops" by (simp add: small_ops_def)
  have "\<forall>w. fp_saved (snd (au_random small_ops w)) = fp_saved w" "\<forall>ns ro w. fst (pr_begin (au_prefs small_ops) ns ro w)"
    "\<forall>w. fst (au_startWorker small_ops w)" by (simp_all add: small_ops_def fake_prefs_ops_def)
  from rotated_credential_survives [OF small_ops_store this small_device_authorized(1) small_device_simps(1)
      small_device_authorized(2) small_device_simps(2) s [folded o] refl, where ?a0.0 = small_device]
  show ?thesis using small_rotation by (auto simp: s split: if_splits)
qed

end
