(* ===== verification/StatusDiagnostics.thy ===== *)
theory StatusDiagnostics
  imports Preferences
begin

section \<open>StatusDiagnostics: what the heartbeat reports of the device\<close>

text \<open>
  \<open>logger/firmware/src/StatusDiagnostics.cpp\<close> on the ESP32 target: the counter of completed boots,
  the clock fault, the configuration versions, the reconnects, and the JSON object the heartbeat
  carries. A value that was never observed is \<open>None\<close> and is left out of the object.
\<close>

subsection \<open>JSON text\<close>

text \<open>The pieces the sources build JSON from: \<open>"key":\<close> and a list joined with commas.\<close>

definition quoted :: "string \<Rightarrow> string" where
  "quoted s = CHR 0x22 # s @ [CHR 0x22]"

definition jkey :: "string \<Rightarrow> string" where
  "jkey k = quoted k @ '':''"

fun comma_join :: "string list \<Rightarrow> string" where
  "comma_join [] = []"
| "comma_join [x] = x"
| "comma_join (x # y # xs) = x @ CHR '','' # comma_join (y # xs)"

definition bool_text :: "bool \<Rightarrow> string" where
  "bool_text b = (if b then ''true'' else ''false'')"

definition u32_text :: "u32 \<Rightarrow> string" where
  "u32_text v = dec (unat v)"

subsection \<open>The component\<close>

record StatusDiagnostics =
  sd_bootRecorded :: bool
  sd_attempted :: bool
  sd_reconnects :: u32
  sd_desiredVersion :: u32
  sd_reboots :: "u32 option"
  sd_clockFault :: "bool option"
  sd_configStale :: "bool option"
  sd_configRejected :: "bool option"

definition fresh_diagnostics :: StatusDiagnostics where
  "fresh_diagnostics = \<lparr>sd_bootRecorded = False, sd_attempted = False, sd_reconnects = 0, sd_desiredVersion = 0,
     sd_reboots = None, sd_clockFault = None, sd_configStale = None, sd_configRejected = None\<rparr>"

definition diag_saturatingAdd :: "u32 \<Rightarrow> u32 \<Rightarrow> u32" where
  "diag_saturatingAdd value increment = (if increment > 0xFFFFFFFF - value then 0xFFFFFFFF else value + increment)"

definition kDiagNamespace :: string where "kDiagNamespace = ''apexi_diag''"

definition recordCompletedBoot :: "'w prefs_ops \<Rightarrow> StatusDiagnostics \<Rightarrow> 'w \<Rightarrow> StatusDiagnostics \<times> 'w" where
  "recordCompletedBoot P d w =
     (if sd_bootRecorded d then (d, w)
      else let d = d\<lparr>sd_bootRecorded := True\<rparr> in
        case pr_begin P kDiagNamespace False w of
          (False, w) \<Rightarrow> (d, w)
        | (True, w) \<Rightarrow>
            (let previous = getUInt P kDiagNamespace ''boots'' 0 w
             in if pr_get P kDiagNamespace ''boots'' w \<noteq> None \<and> previous = 0 then (d, w)
                else let nxt = diag_saturatingAdd previous 1
                  in case pr_put P kDiagNamespace ''boots'' (PUInt nxt) w of (n, w) \<Rightarrow>
                       (if 0 < n then d\<lparr>sd_reboots := Some nxt\<rparr> else d, w)))"

definition observeClockFault :: "bool \<Rightarrow> StatusDiagnostics \<Rightarrow> StatusDiagnostics" where
  "observeClockFault fault d = d\<lparr>sd_clockFault := Some fault\<rparr>"

definition observeDesired :: "u32 \<Rightarrow> u32 \<Rightarrow> StatusDiagnostics \<Rightarrow> StatusDiagnostics" where
  "observeDesired desired applied d =
     (let d = (if desired > sd_desiredVersion d then d\<lparr>sd_desiredVersion := desired\<rparr> else d)
      in d\<lparr>sd_configStale := Some (sd_desiredVersion d > applied)\<rparr>)"

definition configurationRejected :: "StatusDiagnostics \<Rightarrow> StatusDiagnostics" where
  "configurationRejected d = d\<lparr>sd_configRejected := Some True\<rparr>"

definition configurationAccepted :: "StatusDiagnostics \<Rightarrow> StatusDiagnostics" where
  "configurationAccepted d = d\<lparr>sd_configRejected := Some False\<rparr>"

definition configurationApplied :: "u32 \<Rightarrow> StatusDiagnostics \<Rightarrow> StatusDiagnostics" where
  "configurationApplied applied d =
     (let d = (if sd_configStale d \<noteq> None then d\<lparr>sd_configStale := Some (sd_desiredVersion d > applied)\<rparr> else d)
      in d\<lparr>sd_configRejected := Some False\<rparr>)"

definition transportAttempt :: "bool \<Rightarrow> StatusDiagnostics \<Rightarrow> StatusDiagnostics" where
  "transportAttempt recovering d =
     (if sd_attempted d \<and> recovering then d\<lparr>sd_reconnects := diag_saturatingAdd (sd_reconnects d) 1\<rparr> else d)
       \<lparr>sd_attempted := True\<rparr>"

definition opt_field :: "string \<Rightarrow> ('a \<Rightarrow> string) \<Rightarrow> 'a option \<Rightarrow> string list" where
  "opt_field k f v = (case v of None \<Rightarrow> [] | Some x \<Rightarrow> [jkey k @ f x])"

definition diagnostics_json :: "bool \<Rightarrow> nat \<Rightarrow> u32 \<Rightarrow> bool \<Rightarrow> StatusDiagnostics \<Rightarrow> string" where
  "diagnostics_json queueAvailable pending dropped dropsKnown d =
     ''{'' @ comma_join
       ((if queueAvailable
         then (jkey ''store_forward_pending_records'' @ dec pending) #
              (if dropsKnown then [jkey ''store_forward_dropped_records'' @ u32_text dropped] else [])
         else []) @
        opt_field ''clock_fault'' bool_text (sd_clockFault d) @
        opt_field ''config_stale'' bool_text (sd_configStale d) @
        opt_field ''config_rejected'' bool_text (sd_configRejected d) @
        (if sd_attempted d then [jkey ''reconnects_total'' @ u32_text (sd_reconnects d)] else []) @
        opt_field ''reboots_total'' u32_text (sd_reboots d)) @ ''}''"

subsection \<open>The boot counter\<close>

text \<open>
  The stored counter after a boot: unchanged, or one more than before up to the largest value; and
  what the device reports is what is stored. A present but unreadable counter is never replaced.
\<close>

lemma unat_diag_saturatingAdd: "unat (diag_saturatingAdd v i) = min 4294967295 (unat v + unat i)"
proof (cases "i > 0xFFFFFFFF - v")
  case True
  have "v \<le> 0xFFFFFFFF" using unat_u32_le [of v] by (simp add: word_le_nat_alt)
  then have "unat (0xFFFFFFFF - v) = 4294967295 - unat v" by (simp add: unat_sub)
  then have "4294967295 - unat v < unat i" using True by (simp add: word_less_nat_alt)
  then show ?thesis using True by (simp add: diag_saturatingAdd_def)
next
  case False
  have "v \<le> 0xFFFFFFFF" using unat_u32_le [of v] by (simp add: word_le_nat_alt)
  then have "unat (0xFFFFFFFF - v) = 4294967295 - unat v" by (simp add: unat_sub)
  then have "unat i \<le> 4294967295 - unat v" using False by (simp add: word_less_nat_alt not_less)
  moreover have "unat v \<le> 4294967295" by (rule unat_u32_le)
  ultimately have l: "unat v + unat i \<le> 4294967295" by linarith
  then have "unat (v + i) = unat v + unat i" by (intro unat_add_no_wrap) simp
  then show ?thesis using False l by (simp add: diag_saturatingAdd_def)
qed

context preferences
begin

lemma boot_counter:
  assumes "recordCompletedBoot P d w = (d', w')"
  shows "saved w' kDiagNamespace ''boots'' = saved w kDiagNamespace ''boots'' \<or>
    saved w' kDiagNamespace ''boots'' = Some (PUInt (diag_saturatingAdd
      (case saved w kDiagNamespace ''boots'' of Some (PUInt v) \<Rightarrow> v | _ \<Rightarrow> 0) 1))"
    and "sd_reboots d' \<noteq> sd_reboots d \<Longrightarrow> \<not> sd_bootRecorded d \<and>
      map_option PUInt (sd_reboots d') = saved w' kDiagNamespace ''boots''"
  using assms
  by (auto simp: recordCompletedBoot_def getUInt_def get_law Let_def
      split: if_splits prod.splits bool.splits dest!: begin_law put_law)

end

end
