(* ===== verification/LiveUpload.thy ===== *)
theory LiveUpload
  imports SensorTypes StatusDiagnostics LoggerLogic Json UploadPolicy HttpsTransport RejectedArchive AppBearerRotation
    RuntimeSettings LoggerAuthorization
begin

section \<open>LiveUpload: the logger's upload client\<close>

text \<open>
  \<open>logger/firmware/src/LiveUpload.cpp\<close> on the ESP32 target: the state of the client, its start-up,
  the MQTT session, what it sends (status and snapshot JSON), and what it takes from the server (the
  desired state: settings, recorder assignment, credential rotation). The HTTPS side is driven by
  \<open>LiveUploadAsync.cpp\<close>, in theory \<open>LiveUploadAsync\<close>. The objects the client only points to
  (\<open>AppBearerRotation\<close>, \<open>LoggerAuthorization\<close>) are part of the state as optional values. The random
  source, the clocks, Wi-Fi and the preferences are those of \<open>LoggerAuthorization\<close>; the MQTT client
  and the conversion of a \<open>float\<close> to text are parameters.
\<close>

subsection \<open>State\<close>

record UploadConfig =
  uc_https :: bool
  uc_deviceId :: string
  uc_mqttHost :: string
  uc_mqttPort :: u16
  uc_mqttUsername :: string
  uc_mqttPassword :: string
  uc_topicPrefix :: string
  uc_publishIntervalMs :: u32
  uc_reconnectIntervalMs :: u16
  uc_httpsPath :: string
  uc_accessClientId :: string
  uc_accessClientSecret :: string
  uc_appDeviceToken :: string

record UploadPerformance =
  pf_captured :: u32
  pf_accepted :: u32
  pf_captureRejected :: u32
  pf_requests :: u32
  pf_reused :: u32
  pf_lastRequestMs :: u32
  pf_lastSampleEpoch :: u32
  pf_batchRequests :: u32
  pf_batchAccepted :: u32
  pf_batchEnabled :: bool

text \<open>The readings of a sensor, and the part of \<open>AppState\<close> an upload reads.\<close>

record 'f SensorSnapshot =
  ss_id :: string
  ss_name :: string
  ss_units :: string
  ss_rawVoltage :: 'f
  ss_loopCurrentmA :: 'f
  ss_engineeringValue :: 'f
  ss_filteredValue :: 'f
  ss_minValue :: 'f
  ss_maxValue :: 'f
  ss_warnLow :: 'f
  ss_warnHigh :: 'f
  ss_engMin :: 'f
  ss_engMax :: 'f
  ss_activeFault :: SensorFault
  ss_latchedFault :: SensorFault
  ss_hasValidSample :: bool

record 'f AppState =
  st_sensors :: "'f SensorSnapshot list"
  st_adcReady :: bool
  st_rtcReady :: bool
  st_sdReady :: bool
  st_wifiReady :: bool
  st_uptimeMs :: u32
  st_transportTimestamp :: string

record Assignment =
  as_targetSessionId :: string
  as_plannedSessionName :: string
  as_status :: string
  as_role :: string
  as_expiresAt :: string
  as_sourceSessionId :: string
  as_recordingSessionId :: string

record ReportedConfig =
  rp_uploadEnabled :: bool
  rp_ntpPrimary :: string
  rp_ntpSecondary :: string
  rp_timeZoneRule :: string
  rp_timeZoneLabel :: string

record DeviceMetadata =
  dm_friendlyName :: string
  dm_hardwareRevision :: string
  dm_provisionedAt :: string

record QueueOldest =
  qo_session :: string
  qo_timestamp :: string
  qo_sequence :: u32
  qo_epoch :: u32

datatype Operation = NoOperation | StatusOp | FallbackOp | RotationAckOp | RotationProofOp | SnapshotOp | BatchOp

record LiveUpload =
  lu_config :: UploadConfig
  lu_rotation :: "AppBearerRotation option"
  lu_authorization :: "LoggerAuthorization option"
  lu_diagnostics :: StatusDiagnostics
  lu_recoveryPending :: bool
  lu_heartbeatObserved :: bool
  lu_lastHeartbeatMs :: u32
  lu_metadata :: DeviceMetadata
  lu_assignment :: Assignment
  lu_enabled :: bool
  lu_evidence :: EvidenceTracker
  lu_performance :: UploadPerformance
  lu_remoteManagement :: bool
  lu_lastPublishMs :: u32
  lu_lastReconnectAttemptMs :: u32
  lu_lastHttpsAttemptMs :: u32
  lu_lastSequence :: u32
  lu_lastStatusPublishMs :: u32
  lu_appliedConfigVersion :: u32
  lu_deviceId :: string
  lu_sessionId :: string
  lu_clientId :: string
  lu_lastError :: string
  lu_pairingCode :: string
  lu_pairingCodeGeneratedMs :: u32
  lu_managementStatus :: string
  lu_managementError :: string
  lu_reported :: ReportedConfig
  lu_pendingRemoteConfig :: "RemoteConfig option"
  lu_httpsConnected :: bool
  lu_lastHttpStatus :: int
  lu_lastPostRetryable :: bool
  lu_queue :: Queue
  lu_rejectionArchiveError :: string
  lu_oldest :: QueueOldest
  lu_operation :: Operation
  lu_pacing :: HttpsPacing
  lu_recovery :: UploadRecovery
  lu_workerReady :: bool
  lu_statusRequested :: bool
  lu_fallbackRequested :: bool
  lu_backoff :: bool
  lu_durableInFlight :: bool
  lu_completedMs :: u32
  lu_inFlightPayload :: string
  lu_volatilePayload :: string
  lu_batchRecords :: "string list"
  lu_batchId :: string
  lu_batchPayload :: string
  lu_batchEnabled :: bool
  lu_batchAcknowledged :: bool
  lu_batchAckIndex :: nat

text \<open>
  \<open>hasPendingRemoteConfig_\<close> and \<open>pendingRemoteConfig_\<close> are one optional value: the sources read the
  second only under the first. Payloads are \<open>String\<close>s here and bytes in the queue.
\<close>

record ('w, 'f) live_ops =
  lv_sys :: "'w auth_ops"
  lv_chipSuffix :: "u32"
  lv_firmware :: string
  lv_text3 :: "'f \<Rightarrow> string"
  mq_setup :: "string \<Rightarrow> u16 \<Rightarrow> 'w \<Rightarrow> 'w"
  mq_connected :: "'w \<Rightarrow> bool"
  mq_connect :: "string \<Rightarrow> (string \<times> string) option \<Rightarrow> string \<Rightarrow> string \<Rightarrow> 'w \<Rightarrow> bool \<times> 'w"
  mq_state :: "'w \<Rightarrow> int"
  mq_publish :: "string \<Rightarrow> string \<Rightarrow> bool \<Rightarrow> 'w \<Rightarrow> bool \<times> 'w"
  mq_subscribe :: "string \<Rightarrow> 'w \<Rightarrow> bool \<times> 'w"
  mq_disconnect :: "'w \<Rightarrow> 'w"
  mq_loop :: "'w \<Rightarrow> (string \<times> string) list \<times> 'w"

abbreviation lv_prefs :: "('w, 'f) live_ops \<Rightarrow> 'w prefs_ops" where
  "lv_prefs V \<equiv> au_prefs (lv_sys V)"

abbreviation lv_millis :: "('w, 'f) live_ops \<Rightarrow> 'w \<Rightarrow> u32" where
  "lv_millis V \<equiv> au_millis (lv_sys V)"

abbreviation lv_wifi :: "('w, 'f) live_ops \<Rightarrow> 'w \<Rightarrow> bool" where
  "lv_wifi V \<equiv> au_connected (lv_sys V)"

abbreviation set_error :: "string \<Rightarrow> LiveUpload \<Rightarrow> LiveUpload" where
  "set_error e u \<equiv> u\<lparr>lu_lastError := e\<rparr>"

definition kStatusHeartbeatMs :: u32 where "kStatusHeartbeatMs = 30000"
definition kPairingCodeRefreshMs :: u32 where "kPairingCodeRefreshMs = 10 * 60 * 1000"
definition kRemoteConfigJsonCapacity :: nat where "kRemoteConfigJsonCapacity = 4096"
definition kHttpsResponseJsonCapacity :: nat where "kHttpsResponseJsonCapacity = 5120"

subsection \<open>Accessors\<close>

definition protocolName :: "LiveUpload \<Rightarrow> string" where
  "protocolName u = (if \<not> lu_enabled u then [] else if uc_https (lu_config u) then ''https'' else ''mqtt'')"

definition serverName :: "LiveUpload \<Rightarrow> string" where
  "serverName u =
     (let c = lu_config u in
      if uc_mqttHost c = [] then ''Not configured''
      else let endpoint = uc_mqttHost c @ '':'' @ dec (unat (uc_mqttPort c))
        in if uc_https c then endpoint @ uc_httpsPath c else endpoint)"

definition isConnected :: "('w, 'f) live_ops \<Rightarrow> LiveUpload \<Rightarrow> 'w \<Rightarrow> bool" where
  "isConnected V u w = (if uc_https (lu_config u) then lv_wifi V w \<and> lu_httpsConnected u else mq_connected V w)"

definition upload_bearer :: "LiveUpload \<Rightarrow> string" where
  "upload_bearer u = (case lu_authorization u of Some a \<Rightarrow> authz_bearer False a
     | None \<Rightarrow> (case lu_rotation u of Some r \<Rightarrow> activeBearer r | None \<Rightarrow> uc_appDeviceToken (lu_config u)))"

definition uploadEvidence :: "('w, 'f) live_ops \<Rightarrow> u32 \<Rightarrow> LiveUpload \<Rightarrow> 'w \<Rightarrow> EvidenceStatus" where
  "uploadEvidence V nowMs u w =
     (let https = uc_https (lu_config u); interval = uc_publishIntervalMs (lu_config u) in
      if \<not> lu_enabled u then evidence_status False False https nowMs interval (lu_evidence u)
      else evidence_status True
        (lv_wifi V w \<and>
         (if https then upload_bearer u \<noteq> [] \<and>
            (lu_lastHttpStatus u = 0 \<or> (200 \<le> lu_lastHttpStatus u \<and> lu_lastHttpStatus u < 300))
          else mq_connected V w))
        https nowMs interval (lu_evidence u))"

definition hasAuthenticatedHeartbeat :: "('w, 'f) live_ops \<Rightarrow> LiveUpload \<Rightarrow> 'w \<Rightarrow> bool" where
  "hasAuthenticatedHeartbeat V u w \<longleftrightarrow> uc_https (lu_config u) \<and> lu_heartbeatObserved u \<and> lu_httpsConnected u \<and>
     since (lv_millis V w) (lu_lastHeartbeatMs u) < 60000"

definition pairingCode :: "LiveUpload \<Rightarrow> string" where
  "pairingCode u = (if lu_remoteManagement u then lu_pairingCode u else [])"

definition pairingCodeExpiresInSeconds :: "('w, 'f) live_ops \<Rightarrow> LiveUpload \<Rightarrow> 'w \<Rightarrow> u32" where
  "pairingCodeExpiresInSeconds V u w =
     (if \<not> lu_remoteManagement u \<or> lu_pairingCode u = [] then 0
      else let elapsedMs = since (lv_millis V w) (lu_pairingCodeGeneratedMs u)
        in if kPairingCodeRefreshMs \<le> elapsedMs then 0 else (kPairingCodeRefreshMs - elapsedMs + 999) div 1000)"

definition rotatePairingCode :: "('w, 'f) live_ops \<Rightarrow> u32 \<Rightarrow> LiveUpload \<Rightarrow> 'w \<Rightarrow> LiveUpload \<times> 'w" where
  "rotatePairingCode V nowMs u w =
     (case au_random (lv_sys V) w of (hi, w) \<Rightarrow> case au_random (lv_sys V) w of (lo, w) \<Rightarrow>
        (u\<lparr>lu_pairingCode := formatPairingCode (push_bit 32 (ucast hi) OR ucast lo),
           lu_pairingCodeGeneratedMs := nowMs\<rparr>, w))"

definition setReportedConfig ::
  "bool \<Rightarrow> string option \<Rightarrow> string option \<Rightarrow> string option \<Rightarrow> string option \<Rightarrow> LiveUpload \<Rightarrow> LiveUpload" where
  "setReportedConfig uploadEnabled ntpPrimary ntpSecondary timeZoneRule timeZoneLabel u =
     (let text = case_option [] id in
      u\<lparr>lu_reported := \<lparr>rp_uploadEnabled = uploadEnabled, rp_ntpPrimary = text ntpPrimary,
        rp_ntpSecondary = text ntpSecondary, rp_timeZoneRule = text timeZoneRule,
        rp_timeZoneLabel = text timeZoneLabel\<rparr>\<rparr>)"

definition setDeviceMetadata :: "string option \<Rightarrow> string option \<Rightarrow> string option \<Rightarrow> LiveUpload \<Rightarrow> LiveUpload" where
  "setDeviceMetadata friendlyName hardwareRevision provisionedAt u =
     (let text = case_option [] id in
      u\<lparr>lu_metadata := \<lparr>dm_friendlyName = text friendlyName, dm_hardwareRevision = text hardwareRevision,
        dm_provisionedAt = text provisionedAt\<rparr>\<rparr>)"

definition liveTopic :: "LiveUpload \<Rightarrow> string" where
  "liveTopic u = formatUploadTopic (uc_topicPrefix (lu_config u)) (lu_deviceId u) ''live''"

definition statusTopic :: "LiveUpload \<Rightarrow> string" where
  "statusTopic u = formatUploadTopic (uc_topicPrefix (lu_config u)) (lu_deviceId u) ''status''"

definition desiredConfigTopic :: "LiveUpload \<Rightarrow> string" where
  "desiredConfigTopic u =
     (let prefix = dropWhile (\<lambda>c. c = CHR ''/'') (uc_topicPrefix (lu_config u));
          prefix = strip_trailing (CHR ''/'') prefix
      in prefix @ ''/'' @ lu_deviceId u @ ''/config/desired'')"

subsection \<open>What the client sends\<close>

fun escape_char :: "char \<Rightarrow> string" where
  "escape_char ch =
     (if ch = CHR 0x5C then [CHR 0x5C, CHR 0x5C]
      else if ch = CHR 0x22 then [CHR 0x5C, CHR 0x22]
      else if ch = CHR 0x0A then [CHR 0x5C, CHR ''n'']
      else if ch = CHR 0x0D then [CHR 0x5C, CHR ''r'']
      else if ch = CHR 0x09 then [CHR 0x5C, CHR ''t'']
      else [ch])"

definition jsonEscape :: "string \<Rightarrow> string" where
  "jsonEscape value = concat (map escape_char value)"

definition jtext :: "string \<Rightarrow> string \<Rightarrow> string" where
  "jtext k v = jkey k @ quoted (jsonEscape v)"

definition sensor_json :: "('w, 'f) live_ops \<Rightarrow> 'f SensorSnapshot \<Rightarrow> string" where
  "sensor_json V sensor =
     ''{'' @ comma_join
       [jtext ''id'' (ss_id sensor), jtext ''name'' (ss_name sensor),
        jkey ''value'' @ lv_text3 V (ss_filteredValue sensor), jtext ''units'' (ss_units sensor),
        jkey ''loop_mA'' @ lv_text3 V (ss_loopCurrentmA sensor),
        jtext ''fault'' (sensorFaultToString (ss_activeFault sensor))] @ ''}''"

definition buildSnapshotJson :: "('w, 'f) live_ops \<Rightarrow> 'f AppState \<Rightarrow> u32 \<Rightarrow> LiveUpload \<Rightarrow> string" where
  "buildSnapshotJson V state sequence u =
     ''{'' @ comma_join
       [jkey ''schema_version'' @ ''1'', jtext ''device_id'' (lu_deviceId u), jtext ''session_id'' (lu_sessionId u),
        jkey ''sequence'' @ u32_text sequence, jtext ''timestamp'' (st_transportTimestamp state),
        jkey ''uptime_ms'' @ u32_text (st_uptimeMs state),
        jkey ''sensors'' @ ''['' @ comma_join (map (sensor_json V) (st_sensors state)) @ '']'',
        jkey ''system'' @ ''{'' @ comma_join
          [jkey ''adc_ready'' @ bool_text (st_adcReady state), jkey ''rtc_ready'' @ bool_text (st_rtcReady state),
           jkey ''sd_ready'' @ bool_text (st_sdReady state), jkey ''wifi_ready'' @ bool_text (st_wifiReady state)] @
          ''}''] @ ''}''"

definition settings_json :: "ReportedConfig \<Rightarrow> string" where
  "settings_json r = ''{'' @ comma_join
     [jkey ''upload_enabled'' @ bool_text (rp_uploadEnabled r), jtext ''ntp_primary'' (rp_ntpPrimary r),
      jtext ''ntp_secondary'' (rp_ntpSecondary r), jtext ''tz_rule'' (rp_timeZoneRule r),
      jtext ''tz_label'' (rp_timeZoneLabel r)] @ ''}''"

definition assignment_json :: "Assignment \<Rightarrow> string" where
  "assignment_json a = ''{'' @ comma_join
     [jtext ''target_session_id'' (as_targetSessionId a), jtext ''planned_session_name'' (as_plannedSessionName a),
      jtext ''status'' (as_status a), jtext ''role'' (as_role a), jtext ''expires_at'' (as_expiresAt a),
      jtext ''source_session_id'' (as_sourceSessionId a),
      jtext ''recording_session_id'' (as_recordingSessionId a)] @ ''}''"

definition rotation_ack_fields :: "'d json_ops \<Rightarrow> LiveUpload \<Rightarrow> string list" where
  "rotation_ack_fields J u =
     (case lu_authorization u of
        Some a \<Rightarrow> (let ack = rotationAcknowledgement J a
          in if ack \<noteq> [] then [jkey ''credential_rotation_ack'' @ ack] else [])
      | None \<Rightarrow>
          (case lu_rotation u of
             None \<Rightarrow> []
           | Some r \<Rightarrow>
               if hasAppliedAcknowledgement r
               then [jkey ''credential_rotation_ack'' @ ''{'' @ comma_join
                 [jkey ''version'' @ u32_text (rotation_version r), jtext ''nonce'' (rotation_nonce r),
                  jtext ''state'' ''applied''] @ ''}'']
               else []))"

definition management_fields :: "('w, 'f) live_ops \<Rightarrow> 'w \<Rightarrow> LiveUpload \<Rightarrow> string list" where
  "management_fields V w u =
     [jtext ''pairing_code'' (lu_pairingCode u),
      jkey ''pairing_expires_in_s'' @ u32_text (pairingCodeExpiresInSeconds V u w),
      jkey ''config_version'' @ u32_text (lu_appliedConfigVersion u), jtext ''status'' (lu_managementStatus u),
      jtext ''error'' (lu_managementError u), jtext ''firmware_version'' (lv_firmware V),
      jtext ''friendly_name'' (dm_friendlyName (lu_metadata u)),
      jtext ''hardware_revision'' (dm_hardwareRevision (lu_metadata u)),
      jtext ''provisioned_at'' (dm_provisionedAt (lu_metadata u)),
      jkey ''settings'' @ settings_json (lu_reported u),
      jkey ''assignment'' @ assignment_json (lu_assignment u)]"

definition buildStatusJson :: "('w, 'f) live_ops \<Rightarrow> 'd json_ops \<Rightarrow> bool \<Rightarrow> LiveUpload \<Rightarrow> 'w \<Rightarrow> string" where
  "buildStatusJson V J online u w =
     ''{'' @ comma_join
       ([jkey ''schema_version'' @ ''1'', jtext ''device_id'' (lu_deviceId u), jtext ''session_id'' (lu_sessionId u),
         jkey ''protocol'' @ quoted (protocolName u), jkey ''connected'' @ bool_text online,
         jkey ''system'' @ diagnostics_json (q_enabled (lu_queue u) \<and> q_ready (lu_queue u))
           (pendingRecords (lu_queue u)) (droppedRecords (q_meta (lu_queue u)))
           (droppedRecordsKnown (lu_queue u)) (lu_diagnostics u)] @
        (if lu_remoteManagement u \<or> lu_authorization u \<noteq> None \<or> lu_rotation u \<noteq> None
         then [jkey ''management'' @ ''{'' @ comma_join
           ((jkey ''enabled'' @ bool_text (lu_remoteManagement u)) # rotation_ack_fields J u @
            (if lu_remoteManagement u then management_fields V w u else [])) @ ''}'']
         else [])) @ ''}''"

subsection \<open>What the client takes from the server\<close>

definition validRemoteText :: "string option \<Rightarrow> nat \<Rightarrow> bool" where
  "validRemoteText value maximumLength = (case value of None \<Rightarrow> True
     | Some s \<Rightarrow> s \<noteq> [] \<and> length s \<le> maximumLength \<and> list_all (\<lambda>c. \<not> code c < 0x20) s)"

definition validOptionalRemoteText :: "string \<Rightarrow> nat \<Rightarrow> bool" where
  "validOptionalRemoteText value maximumLength \<longleftrightarrow> value = [] \<or> validRemoteText (Some value) maximumLength"

definition parse_settings :: "'d json_ops \<Rightarrow> u32 \<Rightarrow> 'd \<Rightarrow> RemoteConfig option" where
  "parse_settings J version settings =
     (if \<not> list_all (\<lambda>k. k \<in> {''upload_enabled'', ''ntp_primary'', ''ntp_secondary'', ''tz_rule'', ''tz_label''})
           (keys J settings) then None
      else case (as_bool J (member J settings ''upload_enabled''), as_str J (member J settings ''ntp_primary''),
             as_str J (member J settings ''ntp_secondary''), as_str J (member J settings ''tz_rule''),
             as_str J (member J settings ''tz_label'')) of
        (Some enabled, Some primary, Some secondary, Some rule, Some label) \<Rightarrow>
          if \<not> validRemoteText (Some primary) 63 \<or> \<not> validRemoteText (Some secondary) 63 \<or>
             \<not> validRemoteText (Some rule) 63 \<or> \<not> validRemoteText (Some label) 31 then None
          else Some \<lparr>rc_version = version, rc_hasUploadEnabled = True, rc_uploadEnabled = enabled,
            rc_ntpPrimary = primary, rc_ntpSecondary = secondary, rc_timeZoneRule = rule, rc_timeZoneLabel = label\<rparr>
      | _ \<Rightarrow> None)"

definition for_device :: "'d json_ops \<Rightarrow> string \<Rightarrow> 'd \<Rightarrow> bool" where
  "for_device J deviceId document \<longleftrightarrow> to_int J (member J document ''schema_version'') = 1 \<and>
     str_or J (member J document ''device_id'') [] = deviceId"

definition parseRemoteConfig :: "'d json_ops \<Rightarrow> string \<Rightarrow> LiveUpload \<Rightarrow> RemoteConfig option" where
  "parseRemoteConfig J payload u =
     (if payload = [] \<or> length payload > kRemoteConfigJsonCapacity then None
      else case deserialize J kRemoteConfigJsonCapacity None payload of None \<Rightarrow> None
      | Some document \<Rightarrow>
          if \<not> for_device J (lu_deviceId u) document then None
          else let version = to_unsigned J (member J document ''config_version'');
                   settings = member J document ''settings''
            in if version = 0 \<or> \<not> is_object J settings then None else parse_settings J version settings)"

definition parseAssignment :: "'d json_ops \<Rightarrow> 'd \<Rightarrow> LiveUpload \<Rightarrow> bool \<times> LiveUpload" where
  "parseAssignment J assignment u =
     (if \<not> is_object J assignment then (True, u)
      else let status = str_or J (member J assignment ''status'') [];
               get = (\<lambda>k. str_or J (member J assignment k) [])
        in if \<not> isValidRecorderAssignmentStatus status \<or>
              \<not> validOptionalRemoteText (get ''target_session_id'') 96 \<or>
              \<not> validOptionalRemoteText (get ''planned_session_name'') 200 \<or>
              \<not> validOptionalRemoteText (get ''role'') 16 \<or> \<not> validOptionalRemoteText (get ''expires_at'') 64 \<or>
              \<not> validOptionalRemoteText (get ''source_session_id'') 96 \<or>
              \<not> validOptionalRemoteText (get ''recording_session_id'') 96
           then (False, u)
           else (True, u\<lparr>lu_assignment := \<lparr>as_targetSessionId = get ''target_session_id'',
             as_plannedSessionName = get ''planned_session_name'', as_status = status, as_role = get ''role'',
             as_expiresAt = get ''expires_at'', as_sourceSessionId = get ''source_session_id'',
             as_recordingSessionId = get ''recording_session_id''\<rparr>\<rparr>))"

definition rotation_request :: "'d json_ops \<Rightarrow> 'd \<Rightarrow> (u32 \<times> string \<times> string \<times> string) option" where
  "rotation_request J rotation =
     (if str_or J (member J rotation ''type'') [] \<noteq> ''app_bearer'' then None
      else case (as_unsigned J (member J rotation ''version''), as_str J (member J rotation ''nonce''),
             as_str J (member J rotation ''token''), as_str J (member J rotation ''overlap_expires_at'')) of
        (Some version, Some nonce, Some token, Some expires) \<Rightarrow>
          if list_all (\<lambda>k. k \<in> {''type'', ''version'', ''nonce'', ''token'', ''overlap_expires_at''})
               (keys J rotation)
          then Some (version, nonce, token, expires) else None
      | _ \<Rightarrow> None)"

definition parseCredentialRotation ::
  "'w prefs_ops \<Rightarrow> 'd json_ops \<Rightarrow> 'd \<Rightarrow> LiveUpload \<Rightarrow> 'w \<Rightarrow> bool \<times> LiveUpload \<times> 'w" where
  "parseCredentialRotation P J rotation u w =
     (if lu_authorization u \<noteq> None then (\<not> is_object J rotation \<or> uc_https (lu_config u), u, w)
      else if \<not> is_object J rotation then (True, u, w)
      else if \<not> uc_https (lu_config u) then (False, u, w)
      else case (lu_rotation u, rotation_request J rotation) of
        (Some r, Some (version, nonce, token, expires)) \<Rightarrow>
          (case stage P version nonce token expires r w of (result, r, w) \<Rightarrow>
             let u = u\<lparr>lu_rotation := Some r\<rparr> in
             if result = Rejected \<or> result = StorageFault
             then (False, u\<lparr>lu_managementError := ab_lastError r\<rparr>, w)
             else (True, u\<lparr>lu_managementStatus := (if result = AlreadyApplied then ''applied'' else ''pending'')\<rparr>, w))
      | _ \<Rightarrow> (False, u, w))"

definition desired_accepted :: "u32 \<Rightarrow> RemoteConfig option \<Rightarrow> LiveUpload \<Rightarrow> LiveUpload" where
  "desired_accepted version candidate u =
     (if version > lu_appliedConfigVersion u
      then u\<lparr>lu_pendingRemoteConfig := candidate, lu_managementStatus := ''pending''\<rparr>
      else if (case lu_rotation u of Some r \<Rightarrow> hasCandidate r | None \<Rightarrow> False)
      then u\<lparr>lu_managementStatus := ''pending''\<rparr>
      else u\<lparr>lu_managementStatus := ''applied''\<rparr>)
     \<lparr>lu_managementError := [], lu_diagnostics := configurationAccepted (lu_diagnostics u)\<rparr>"

definition consume_document ::
  "'w prefs_ops \<Rightarrow> 'd json_ops \<Rightarrow> string \<Rightarrow> 'd \<Rightarrow> u32 \<Rightarrow> LiveUpload \<Rightarrow> 'w \<Rightarrow> bool \<times> LiveUpload \<times> 'w" where
  "consume_document P J payload document version u w =
     (let newer = version > lu_appliedConfigVersion u;
          candidate = (if newer then parseRemoteConfig J payload u else None);
          assignment = member J document ''assignment'';
          rotation = member J document ''credential_rotation''
      in if newer \<and> candidate = None then (False, u, w)
         else if \<not> is_null J assignment \<and> \<not> is_object J assignment then (False, u, w)
         else case parseAssignment J assignment u of
           (False, u) \<Rightarrow> (False, u, w)
         | (True, u) \<Rightarrow>
             if \<not> is_null J rotation \<and> \<not> is_object J rotation then (False, u, w)
             else case parseCredentialRotation P J rotation u w of
               (False, u, w) \<Rightarrow> (False, u, w)
             | (True, u, w) \<Rightarrow> (True, desired_accepted version candidate u, w))"

definition consumeDesiredState ::
  "'w prefs_ops \<Rightarrow> 'd json_ops \<Rightarrow> string \<Rightarrow> LiveUpload \<Rightarrow> 'w \<Rightarrow> bool \<times> LiveUpload \<times> 'w" where
  "consumeDesiredState P J payload u w =
     (if payload = [] \<or> length payload > kRemoteConfigJsonCapacity then (False, u, w)
      else case deserialize J kRemoteConfigJsonCapacity None payload of None \<Rightarrow> (False, u, w)
      | Some document \<Rightarrow>
          if \<not> for_device J (lu_deviceId u) document then (False, u, w)
          else case as_unsigned J (member J document ''config_version'') of None \<Rightarrow> (False, u, w)
          | Some version \<Rightarrow>
              consume_document P J payload document version
                (u\<lparr>lu_diagnostics := observeDesired version (lu_appliedConfigVersion u) (lu_diagnostics u)\<rparr>) w)"

definition reject_desired :: "string \<Rightarrow> LiveUpload \<Rightarrow> LiveUpload" where
  "reject_desired e u = u\<lparr>lu_diagnostics := configurationRejected (lu_diagnostics u),
     lu_managementStatus := ''rejected'', lu_managementError := e\<rparr>"

definition rejectRemoteConfig :: "LiveUpload \<Rightarrow> LiveUpload" where
  "rejectRemoteConfig u = reject_desired ''Desired configuration could not be persisted'' u"

definition take_desired :: "'w prefs_ops \<Rightarrow> 'd json_ops \<Rightarrow> string \<Rightarrow> LiveUpload \<Rightarrow> 'w \<Rightarrow> LiveUpload \<times> 'w" where
  "take_desired P J payload u w =
     (case consumeDesiredState P J payload u w of
        (True, u, w) \<Rightarrow> (u, w)
      | (False, u, w) \<Rightarrow> (reject_desired ''Invalid desired management state'' u, w))"

definition handleMqttMessage ::
  "'w prefs_ops \<Rightarrow> 'd json_ops \<Rightarrow> string \<times> string \<Rightarrow> LiveUpload \<Rightarrow> 'w \<Rightarrow> LiveUpload \<times> 'w" where
  "handleMqttMessage P J message u w =
     (if \<not> lu_remoteManagement u \<or> fst message \<noteq> desiredConfigTopic u then (u, w)
      else take_desired P J (snd message) u w)"

text \<open>The desired state that comes with the answer to an HTTPS status.\<close>

definition batch_capability :: "'d json_ops \<Rightarrow> 'd \<Rightarrow> bool" where
  "batch_capability J document \<longleftrightarrow>
     (let capabilities = member J document ''ingest_capabilities'' in
      bool_true J (member J capabilities ''snapshot_batch_v1'') \<and>
      (case as_unsigned J (member J capabilities ''max_snapshots'') of None \<Rightarrow> False | Some n \<Rightarrow> 8 \<le> n))"

definition clear_batch :: "LiveUpload \<Rightarrow> LiveUpload" where
  "clear_batch u = u\<lparr>lu_batchRecords := [], lu_batchPayload := [], lu_batchId := []\<rparr>"

definition set_batch_capability :: "bool \<Rightarrow> LiveUpload \<Rightarrow> LiveUpload" where
  "set_batch_capability capable u =
     (let u = u\<lparr>lu_batchEnabled := capable\<rparr>;
          u = (if \<not> capable \<and> \<not> lu_batchAcknowledged u then clear_batch u else u)
      in u\<lparr>lu_performance := (lu_performance u)\<lparr>pf_batchEnabled := capable\<rparr>\<rparr>)"

definition rotation_refused :: "LiveUpload \<Rightarrow> LiveUpload" where
  "rotation_refused u = u\<lparr>lu_managementError := ''Credential rotation rejected or storage unavailable''\<rparr>"

definition stage_authorization ::
  "'w prefs_ops \<Rightarrow> 'd json_ops \<Rightarrow> 'd \<Rightarrow> LiveUpload \<Rightarrow> 'w \<Rightarrow> bool \<times> LiveUpload \<times> 'w" where
  "stage_authorization P J desired u w =
     (case lu_authorization u of None \<Rightarrow> (True, u, w)
      | Some a \<Rightarrow>
          (case stageDesired P J desired a w of (ok, a, w) \<Rightarrow> (ok, u\<lparr>lu_authorization := Some a\<rparr>, w)))"

definition stage_provisioned ::
  "'w prefs_ops \<Rightarrow> 'd json_ops \<Rightarrow> 'd \<Rightarrow> LiveUpload \<Rightarrow> 'w \<Rightarrow> LiveUpload \<times> 'w" where
  "stage_provisioned P J desired u w =
     (if lu_authorization u = None \<and> lu_rotation u \<noteq> None \<and> for_device J (lu_deviceId u) desired
      then case parseCredentialRotation P J (member J desired ''credential_rotation'') u w of
          (True, u, w) \<Rightarrow> (u, w)
        | (False, u, w) \<Rightarrow> (rotation_refused u, w)
      else (u, w))"

definition consumeHttpsDesiredConfig ::
  "'w prefs_ops \<Rightarrow> 'd json_ops \<Rightarrow> string \<Rightarrow> LiveUpload \<Rightarrow> 'w \<Rightarrow> LiveUpload \<times> 'w" where
  "consumeHttpsDesiredConfig P J responseBody u w =
     (if responseBody = [] then (u, w)
      else case deserialize J kHttpsResponseJsonCapacity None responseBody of None \<Rightarrow> (u, w)
      | Some document \<Rightarrow>
          let u = set_batch_capability (batch_capability J document) u;
              desired = member J document ''desired_config''
          in if \<not> is_object J desired then (u, w)
             else case stage_authorization P J desired u w of
               (False, u, w) \<Rightarrow> (rotation_refused u, w)
             | (True, u, w) \<Rightarrow>
                 if \<not> lu_remoteManagement u then stage_provisioned P J desired u w
                 else take_desired P J (render J desired) u w)"

definition consumeRemoteConfig :: "LiveUpload \<Rightarrow> RemoteConfig option \<times> LiveUpload" where
  "consumeRemoteConfig u = (lu_pendingRemoteConfig u, u\<lparr>lu_pendingRemoteConfig := None\<rparr>)"

subsection \<open>The MQTT session\<close>

definition mqtt_status :: "('w, 'f) live_ops \<Rightarrow> 'd json_ops \<Rightarrow> bool \<Rightarrow> LiveUpload \<Rightarrow> 'w \<Rightarrow> bool \<times> LiveUpload \<times> 'w" where
  "mqtt_status V J online u w =
     (case mq_publish V (statusTopic u) (buildStatusJson V J online u w) True w of
        (False, w) \<Rightarrow> (False, set_error ''MQTT status publish failed'' u, w)
      | (True, w) \<Rightarrow> (True, u\<lparr>lu_lastStatusPublishMs := lv_millis V w\<rparr>, w))"

definition publishStatus :: "('w, 'f) live_ops \<Rightarrow> 'd json_ops \<Rightarrow> bool \<Rightarrow> LiveUpload \<Rightarrow> 'w \<Rightarrow> bool \<times> LiveUpload \<times> 'w" where
  "publishStatus V J online u w =
     (if uc_https (lu_config u) then (False, u\<lparr>lu_statusRequested := True\<rparr>, w)
      else mqtt_status V J online u w)"

definition acknowledgeRemoteConfig ::
  "('w, 'f) live_ops \<Rightarrow> 'd json_ops \<Rightarrow> u32 \<Rightarrow> LiveUpload \<Rightarrow> 'w \<Rightarrow> LiveUpload \<times> 'w" where
  "acknowledgeRemoteConfig V J version u w =
     (let u = u\<lparr>lu_appliedConfigVersion := version, lu_diagnostics := configurationApplied version (lu_diagnostics u),
        lu_managementStatus := ''applied'', lu_managementError := []\<rparr>
      in if mq_connected V w \<or> (uc_https (lu_config u) \<and> lv_wifi V w) then snd (publishStatus V J True u w)
         else (u, w))"

definition publishOfflineStatusAndDisconnect ::
  "('w, 'f) live_ops \<Rightarrow> 'd json_ops \<Rightarrow> LiveUpload \<Rightarrow> 'w \<Rightarrow> LiveUpload \<times> 'w" where
  "publishOfflineStatusAndDisconnect V J u w =
     (if uc_https (lu_config u) then (u\<lparr>lu_httpsConnected := False\<rparr>, w)
      else if mq_connected V w
      then case publishStatus V J False u w of
          (True, u, w) \<Rightarrow> (u, mq_disconnect V w)
        | (False, u, w) \<Rightarrow> (u, w)
      else (u, w))"

definition mqtt_session ::
  "('w, 'f) live_ops \<Rightarrow> 'd json_ops \<Rightarrow> LiveUpload \<Rightarrow> 'w \<Rightarrow> bool \<times> LiveUpload \<times> 'w" where
  "mqtt_session V J u w =
     (case publishStatus V J True u w of
        (False, u, w) \<Rightarrow> (False, u, w)
      | (True, u, w) \<Rightarrow>
          if lu_remoteManagement u
          then case mq_subscribe V (desiredConfigTopic u) w of
              (False, w) \<Rightarrow> (False, set_error ''MQTT desired config subscribe failed'' u, mq_disconnect V w)
            | (True, w) \<Rightarrow> (True, set_error [] u, w)
          else (True, set_error [] u, w))"

definition reconnect ::
  "('w, 'f) live_ops \<Rightarrow> 'd json_ops \<Rightarrow> u32 \<Rightarrow> LiveUpload \<Rightarrow> 'w \<Rightarrow> bool \<times> LiveUpload \<times> 'w" where
  "reconnect V J nowMs u w =
     (let c = lu_config u in
      if uc_mqttHost c = [] then (False, set_error ''MQTT host not configured'' u, w)
      else if since nowMs (lu_lastReconnectAttemptMs u) < ucast (uc_reconnectIntervalMs c) then (False, u, w)
      else let u = u\<lparr>lu_diagnostics := transportAttempt True (lu_diagnostics u)\<rparr>;
               credentials = (if uc_mqttUsername c \<noteq> [] then Some (uc_mqttUsername c, uc_mqttPassword c) else None)
        in case mq_connect V (lu_clientId u) credentials (statusTopic u) (buildStatusJson V J False u w) w of
             (online, w) \<Rightarrow>
               let u = u\<lparr>lu_lastReconnectAttemptMs := lv_millis V w\<rparr> in
               if \<not> online then (False, set_error (''MQTT connect failed rc='' @ fmt_d 1 (mq_state V w)) u, w)
               else mqtt_session V J u w)"

definition publishSnapshot ::
  "('w, 'f) live_ops \<Rightarrow> 'f AppState \<Rightarrow> LiveUpload \<Rightarrow> 'w \<Rightarrow> bool \<times> LiveUpload \<times> 'w" where
  "publishSnapshot V state u w =
     (let sequence = lu_lastSequence u + 1 in
      case mq_publish V (liveTopic u) (buildSnapshotJson V state sequence u) False w of
        (False, w) \<Rightarrow> (False, set_error ''MQTT live publish failed''
          (u\<lparr>lu_evidence := record_attempt False (lv_millis V w) (lu_evidence u)\<rparr>), w)
      | (True, w) \<Rightarrow> (True, u\<lparr>lu_evidence := record_attempt True (lv_millis V w) (lu_evidence u),
          lu_lastSequence := sequence\<rparr>, w))"

definition deliver_messages ::
  "'w prefs_ops \<Rightarrow> 'd json_ops \<Rightarrow> (string \<times> string) list \<Rightarrow> LiveUpload \<Rightarrow> 'w \<Rightarrow> LiveUpload \<times> 'w" where
  "deliver_messages P J messages u w = foldl (\<lambda>(u, w) m. handleMqttMessage P J m u w) (u, w) messages"

definition run_mqtt :: "('w, 'f) live_ops \<Rightarrow> 'd json_ops \<Rightarrow> LiveUpload \<Rightarrow> 'w \<Rightarrow> LiveUpload \<times> 'w" where
  "run_mqtt V J u w =
     (case mq_loop V w of (messages, w) \<Rightarrow> deliver_messages (lv_prefs V) J messages u w)"

definition mqtt_publish_due ::
  "('w, 'f) live_ops \<Rightarrow> 'd json_ops \<Rightarrow> u32 \<Rightarrow> 'f AppState \<Rightarrow> LiveUpload \<Rightarrow> 'w \<Rightarrow> bool \<times> LiveUpload \<times> 'w" where
  "mqtt_publish_due V J nowMs state u w =
     (if \<not> lv_wifi V w
      then case publishOfflineStatusAndDisconnect V J u w of
          (u, w) \<Rightarrow> (False, set_error ''Wi-Fi disconnected'' u, w)
      else case run_mqtt V J u w of (u, w) \<Rightarrow>
        case (if mq_connected V w then (True, u, w) else reconnect V J nowMs u w) of
          (False, u, w) \<Rightarrow> (False, u, w)
        | (True, u, w) \<Rightarrow>
            if since nowMs (lu_lastPublishMs u) < uc_publishIntervalMs (lu_config u) then (False, u, w)
            else case publishSnapshot V state u w of
              (False, u, w) \<Rightarrow> (False, u, w)
            | (True, u, w) \<Rightarrow> (True, set_error [] (u\<lparr>lu_lastPublishMs := nowMs\<rparr>), w))"

definition mqtt_loop :: "('w, 'f) live_ops \<Rightarrow> 'd json_ops \<Rightarrow> u32 \<Rightarrow> LiveUpload \<Rightarrow> 'w \<Rightarrow> LiveUpload \<times> 'w" where
  "mqtt_loop V J nowMs u w =
     (case (if lu_remoteManagement u \<and>
               intervalElapsed nowMs (lu_pairingCodeGeneratedMs u) kPairingCodeRefreshMs
            then case rotatePairingCode V nowMs u w of (u, w) \<Rightarrow>
              if mq_connected V w then snd (publishStatus V J True u w) else (u, w)
            else (u, w)) of (u, w) \<Rightarrow>
        if \<not> lv_wifi V w
        then case publishOfflineStatusAndDisconnect V J u w of
            (u, w) \<Rightarrow> (if lu_lastError u = [] then set_error ''Wi-Fi disconnected'' u else u, w)
        else case run_mqtt V J u w of (u, w) \<Rightarrow>
          if mq_connected V w \<and> kStatusHeartbeatMs \<le> since nowMs (lu_lastStatusPublishMs u)
          then snd (publishStatus V J True u w) else (u, w))"

subsection \<open>Start-up\<close>

text \<open>The members' initial values.\<close>

definition fresh_config :: UploadConfig where
  "fresh_config = \<lparr>uc_https = False, uc_deviceId = [], uc_mqttHost = [], uc_mqttPort = 0, uc_mqttUsername = [],
     uc_mqttPassword = [], uc_topicPrefix = [], uc_publishIntervalMs = 0, uc_reconnectIntervalMs = 0,
     uc_httpsPath = [], uc_accessClientId = [], uc_accessClientSecret = [], uc_appDeviceToken = []\<rparr>"

definition fresh_performance :: UploadPerformance where
  "fresh_performance = \<lparr>pf_captured = 0, pf_accepted = 0, pf_captureRejected = 0, pf_requests = 0, pf_reused = 0,
     pf_lastRequestMs = 0, pf_lastSampleEpoch = 0, pf_batchRequests = 0, pf_batchAccepted = 0,
     pf_batchEnabled = False\<rparr>"

definition no_assignment :: Assignment where
  "no_assignment = \<lparr>as_targetSessionId = [], as_plannedSessionName = [], as_status = ''unassigned'', as_role = [],
     as_expiresAt = [], as_sourceSessionId = [], as_recordingSessionId = []\<rparr>"

definition no_oldest :: QueueOldest where
  "no_oldest = \<lparr>qo_session = [], qo_timestamp = [], qo_sequence = 0, qo_epoch = 0\<rparr>"

definition fresh_upload :: LiveUpload where
  "fresh_upload = \<lparr>lu_config = fresh_config, lu_rotation = None, lu_authorization = None,
     lu_diagnostics = fresh_diagnostics, lu_recoveryPending = False, lu_heartbeatObserved = False,
     lu_lastHeartbeatMs = 0, lu_metadata = \<lparr>dm_friendlyName = [], dm_hardwareRevision = [], dm_provisionedAt = []\<rparr>,
     lu_assignment = no_assignment, lu_enabled = False, lu_evidence = fresh_tracker,
     lu_performance = fresh_performance, lu_remoteManagement = False, lu_lastPublishMs = 0,
     lu_lastReconnectAttemptMs = 0, lu_lastHttpsAttemptMs = 0, lu_lastSequence = 0, lu_lastStatusPublishMs = 0,
     lu_appliedConfigVersion = 0, lu_deviceId = [], lu_sessionId = [], lu_clientId = [], lu_lastError = [],
     lu_pairingCode = [], lu_pairingCodeGeneratedMs = 0, lu_managementStatus = ''ready'', lu_managementError = [],
     lu_reported = \<lparr>rp_uploadEnabled = False, rp_ntpPrimary = [], rp_ntpSecondary = [], rp_timeZoneRule = [],
       rp_timeZoneLabel = []\<rparr>, lu_pendingRemoteConfig = None, lu_httpsConnected = False, lu_lastHttpStatus = 0,
     lu_lastPostRetryable = False, lu_queue = new_queue, lu_rejectionArchiveError = [], lu_oldest = no_oldest,
     lu_operation = NoOperation, lu_pacing = fresh_pacing, lu_recovery = fresh_recovery, lu_workerReady = False,
     lu_statusRequested = True, lu_fallbackRequested = False, lu_backoff = False, lu_durableInFlight = False,
     lu_completedMs = 0, lu_inFlightPayload = [], lu_volatilePayload = [], lu_batchRecords = [], lu_batchId = [],
     lu_batchPayload = [], lu_batchEnabled = False, lu_batchAcknowledged = False, lu_batchAckIndex = 0\<rparr>"

definition hex_text :: "nat \<Rightarrow> string" where
  "hex_text n = (let ds = dropWhile (\<lambda>c. c = CHR ''0'') (hex_digits 8 n) in if ds = [] then ''0'' else ds)"

definition begin_identity ::
  "('w, 'f) live_ops \<Rightarrow> UploadConfig \<Rightarrow> bool \<Rightarrow> bool \<Rightarrow> u32 \<Rightarrow> AppBearerRotation option \<Rightarrow>
   LiveUpload \<Rightarrow> 'w \<Rightarrow> LiveUpload \<times> 'w" where
  "begin_identity V config enabled remoteManagement appliedConfigVersion rotation u w =
     (let normalizedDevice = normalizeTopicSegment (uc_deviceId config);
          deviceId = (if normalizedDevice = [] then ''mda-logger'' else normalizedDevice)
      in case au_random (lv_sys V) w of (bootCounter, w) \<Rightarrow>
        rotatePairingCode V (lv_millis V w)
          (u\<lparr>lu_rotation := rotation, lu_config := config, lu_evidence := fresh_tracker, lu_enabled := enabled,
             lu_remoteManagement := remoteManagement, lu_appliedConfigVersion := appliedConfigVersion,
             lu_managementStatus := (if appliedConfigVersion > 0 then ''applied'' else ''ready''),
             lu_managementError := [], lu_deviceId := deviceId,
             lu_sessionId := formatSessionId deviceId bootCounter,
             lu_clientId := deviceId @ ''-'' @ hex_text (unat (lv_chipSuffix V))\<rparr>) w)"

definition https_begin ::
  "esp_flash \<Rightarrow> 'fs lfs_ops \<Rightarrow> bool \<times> nat \<Rightarrow> bool \<Rightarrow> LiveUpload \<Rightarrow> 'fs \<Rightarrow> HttpsWorker \<Rightarrow>
   bool \<times> LiveUpload \<times> 'fs \<times> HttpsWorker" where
  "https_begin E L storeForward created u fs k =
     (case begin_queue E L (fst storeForward) (snd storeForward) (lu_queue u) fs of (_, q, fs) \<Rightarrow>
        let u = u\<lparr>lu_queue := q\<rparr>; c = lu_config u in
        if uc_httpsPath c = [] \<or> uc_accessClientId c = [] \<or> uc_accessClientSecret c = []
        then (False, set_error ''HTTPS credentials not configured'' u, fs, k)
        else case worker_begin created k of (ready, k) \<Rightarrow>
          (ready, set_error (if ready then [] else ''HTTPS worker unavailable'') (u\<lparr>lu_workerReady := ready\<rparr>), fs, k))"

definition live_begin ::
  "esp_flash \<Rightarrow> 'fs lfs_ops \<Rightarrow> bool \<times> nat \<Rightarrow> bool \<Rightarrow> ('w, 'f) live_ops \<Rightarrow> UploadConfig \<Rightarrow> bool \<Rightarrow> bool \<Rightarrow> u32 \<Rightarrow>
   AppBearerRotation option \<Rightarrow> LiveUpload \<Rightarrow> 'fs \<Rightarrow> HttpsWorker \<Rightarrow> 'w \<Rightarrow> bool \<times> LiveUpload \<times> 'fs \<times> HttpsWorker \<times> 'w" where
  "live_begin E L storeForward created V config enabled remoteManagement appliedConfigVersion rotation u fs k w =
     (case begin_identity V config enabled remoteManagement appliedConfigVersion rotation u w of (u, w) \<Rightarrow>
        if \<not> enabled then (False, set_error ''Live upload disabled'' u, fs, k, w)
        else if uc_mqttHost config = [] then (False, set_error ''Upload host not configured'' u, fs, k, w)
        else if uc_https config
        then case https_begin E L storeForward created u fs k of (ok, u, fs, k) \<Rightarrow> (ok, u, fs, k, w)
        else let w = mq_setup V (uc_mqttHost config) (uc_mqttPort config) w in
          if \<not> mqttIdentityMatches (uc_deviceId config) (uc_mqttUsername config)
          then (False, set_error (''MQTT username must match normalized device ID '' @ lu_deviceId u) u, fs, k, w)
          else (True, set_error [] u, fs, k, w))"

end
