(* ===== verification/LiveUploadAsync.thy ===== *)
theory LiveUploadAsync
  imports LiveUpload QueueAge
begin

section \<open>LiveUploadAsync: capturing and sending snapshots over HTTPS\<close>

text \<open>
  \<open>logger/firmware/src/LiveUploadAsync.cpp\<close>: capturing a snapshot into the queue, handing a request
  to the shared worker, and the periodic \<open>serviceHttps\<close>, in the order of its stages: the result of
  the request in flight, the acknowledgement of an accepted batch, the next request. The state is
  the upload client with its queue, the file system, the worker, and the rest of the world.
\<close>

subsection \<open>Queue diagnostics\<close>

definition sample_epoch :: "'d json_ops \<Rightarrow> string \<Rightarrow> LiveUpload \<Rightarrow> LiveUpload" where
  "sample_epoch J payload u =
     (case deserialize J 192 (Some [''timestamp'']) payload of None \<Rightarrow> u
      | Some stamp \<Rightarrow> u\<lparr>lu_performance := (lu_performance u)
          \<lparr>pf_lastSampleEpoch := epoch (Some (str_or J (member J stamp ''timestamp'') []))\<rparr>\<rparr>)"

definition oldest_of :: "'d json_ops \<Rightarrow> string \<Rightarrow> QueueOldest" where
  "oldest_of J payload =
     (case deserialize J 512 (Some [''session_id'', ''sequence'', ''timestamp'']) payload of None \<Rightarrow> no_oldest
      | Some metadata \<Rightarrow>
          (case (as_str J (member J metadata ''session_id''), as_unsigned J (member J metadata ''sequence''),
              as_str J (member J metadata ''timestamp'')) of
             (Some session, Some sequence, Some timestamp) \<Rightarrow>
               if session = [] \<or> length session > 128 \<or> normalizeTopicSegment session \<noteq> session \<or>
                  length timestamp > 32 then no_oldest
               else \<lparr>qo_session = session, qo_timestamp = timestamp, qo_sequence = sequence,
                 qo_epoch = epoch (Some timestamp)\<rparr>
           | _ \<Rightarrow> no_oldest))"

definition refreshQueueOldest :: "'fs lfs_ops \<Rightarrow> 'd json_ops \<Rightarrow> LiveUpload \<Rightarrow> 'fs \<Rightarrow> LiveUpload" where
  "refreshQueueOldest L J u fs =
     (if \<not> q_ready (lu_queue u) then u\<lparr>lu_oldest := no_oldest\<rparr>
      else case peek L (lu_queue u) fs of
        (None, q) \<Rightarrow> u\<lparr>lu_queue := q, lu_oldest := no_oldest\<rparr>
      | (Some payload, q) \<Rightarrow> u\<lparr>lu_queue := q, lu_oldest := oldest_of J (unraw payload)\<rparr>)"

definition queueOldestDiagnostics :: "int \<Rightarrow> LiveUpload \<Rightarrow> string" where
  "queueOldestDiagnostics now u =
     (let old = lu_oldest u in
      if qo_session old = [] then ''null''
      else ''{'' @ comma_join
        [jtext ''session_id'' (qo_session old), jkey ''sequence'' @ u32_text (qo_sequence old),
         jtext ''timestamp'' (qo_timestamp old),
         jkey ''age_seconds'' @ (case age (qo_epoch old) now of Some a \<Rightarrow> u32_text a | None \<Rightarrow> ''null'')] @ ''}'')"

subsection \<open>Capture\<close>

definition capture_blocked :: "LiveUpload \<Rightarrow> bool" where
  "capture_blocked u = (case lu_authorization u of None \<Rightarrow> False
     | Some a \<Rightarrow> la_restart a \<or> authz_bearer False a = [] \<or> ac_deviceId (la_config a) \<noteq> lu_deviceId u)"

definition capture_rejected :: "string \<Rightarrow> LiveUpload \<Rightarrow> LiveUpload" where
  "capture_rejected e u = u\<lparr>lu_performance := (lu_performance u)
     \<lparr>pf_captureRejected := pf_captureRejected (lu_performance u) + 1\<rparr>, lu_lastError := e\<rparr>"

definition captured :: "'fs lfs_ops \<Rightarrow> 'd json_ops \<Rightarrow> u32 \<Rightarrow> LiveUpload \<Rightarrow> 'fs \<Rightarrow> LiveUpload" where
  "captured L J sequence u fs =
     (let u = u\<lparr>lu_lastSequence := sequence, lu_performance := (lu_performance u)
        \<lparr>pf_captured := pf_captured (lu_performance u) + 1\<rparr>\<rparr>
      in if qo_session (lu_oldest u) = [] then refreshQueueOldest L J u fs else u)"

definition captureHttps ::
  "'fs lfs_ops \<Rightarrow> 'd json_ops \<Rightarrow> ('w, 'f) live_ops \<Rightarrow> 'f AppState \<Rightarrow> LiveUpload \<Rightarrow> 'fs \<Rightarrow> 'w \<Rightarrow> bool \<times> LiveUpload \<times> 'fs" where
  "captureHttps L J V state u fs w =
     (if capture_blocked u
      then (False, set_error ''Device authorization required before upload capture''
        (u\<lparr>lu_lastPublishMs := lv_millis V w\<rparr>), fs)
      else let sequence = lu_lastSequence u + 1;
               payload = buildSnapshotJson V state sequence u;
               u = u\<lparr>lu_lastPublishMs := lv_millis V w\<rparr>
        in if q_ready (lu_queue u)
           then case enqueue L (raw payload) (lu_queue u) fs of
               (False, q, fs) \<Rightarrow>
                 (False, capture_rejected (''Onboard capture failed: '' @ q_lastError q) (u\<lparr>lu_queue := q\<rparr>), fs)
             | (True, q, fs) \<Rightarrow> (True, captured L J sequence (u\<lparr>lu_queue := q\<rparr>) fs, fs)
           else if lu_volatilePayload u \<noteq> []
           then (False, capture_rejected ''Upload capture full; SD logging remains separate'' u, fs)
           else (True, captured L J sequence (u\<lparr>lu_volatilePayload := payload\<rparr>) fs, fs))"

subsection \<open>Handing a request to the worker\<close>

definition status_operation :: "Operation \<Rightarrow> bool" where
  "status_operation operation \<longleftrightarrow> operation \<noteq> SnapshotOp \<and> operation \<noteq> BatchOp"

definition request_token :: "Operation \<Rightarrow> LiveUpload \<Rightarrow> string" where
  "request_token operation u =
     (case lu_authorization u of Some a \<Rightarrow> authz_bearer (status_operation operation) a
      | None \<Rightarrow> (case lu_rotation u of
            Some r \<Rightarrow> if operation = RotationProofOp then candidateBearer r else activeBearer r
          | None \<Rightarrow> uc_appDeviceToken (lu_config u)))"

definition request_url :: "Operation \<Rightarrow> LiveUpload \<Rightarrow> string" where
  "request_url operation u =
     (let c = lu_config u in
      ''https://'' @ uc_mqttHost c @ '':'' @ dec (unat (uc_mqttPort c)) @ uc_httpsPath c @
      (if status_operation operation then ''/status'' else if operation = BatchOp then ''/snapshot-batch'' else ''/snapshot''))"

definition submitHttps ::
  "('w, 'f) live_ops \<Rightarrow> Operation \<Rightarrow> string \<Rightarrow> LiveUpload \<Rightarrow> HttpsWorker \<Rightarrow> 'w \<Rightarrow> bool \<times> LiveUpload \<times> HttpsWorker" where
  "submitHttps V operation payload u k w =
     (let token = request_token operation u; c = lu_config u in
      if token = [] then (False, set_error ''Device authorization required'' u, k)
      else case worker_submit Telemetry (Some (request_url operation u)) (Some payload) (Some token)
          (Some (uc_accessClientId c)) (Some (uc_accessClientSecret c)) False k of
        (False, k) \<Rightarrow> (False, u, k)
      | (True, k) \<Rightarrow>
          (True, u\<lparr>lu_operation := operation, lu_lastHttpsAttemptMs := lv_millis V w,
             lu_diagnostics := transportAttempt (lu_recoveryPending u) (lu_diagnostics u)\<rparr>, k))"

subsection \<open>The result of the request in flight\<close>

definition result_accepted :: "'d json_ops \<Rightarrow> Result \<Rightarrow> LiveUpload \<Rightarrow> bool" where
  "result_accepted J res u =
     (if lu_operation u = BatchOp
      then batch_accepted J (rs_status res) (rs_body res) (Some (lu_batchId u)) (length (lu_batchRecords u))
      else acceptedResponse J (rs_status res) (rs_body res))"

definition account_result :: "Result \<Rightarrow> bool \<Rightarrow> u32 \<Rightarrow> LiveUpload \<Rightarrow> LiveUpload" where
  "account_result res accepted now u =
     (let p = lu_performance u in
      u\<lparr>lu_performance := p\<lparr>pf_requests := pf_requests p + 1,
          pf_reused := (if rs_reused res then pf_reused p + 1 else pf_reused p), pf_lastRequestMs := rs_durationMs res\<rparr>,
        lu_lastHttpStatus := rs_status res, lu_completedMs := now,
        lu_lastPostRetryable := isRetryableHttpStatus (rs_status res) \<or>
          (200 \<le> rs_status res \<and> rs_status res < 300 \<and> \<not> accepted),
        lu_backoff := \<not> accepted, lu_recoveryPending := \<not> accepted\<rparr>)"

definition batch_result :: "Result \<Rightarrow> bool \<Rightarrow> u32 \<Rightarrow> LiveUpload \<Rightarrow> LiveUpload" where
  "batch_result res accepted now u =
     (let p = lu_performance u;
          u = u\<lparr>lu_performance := p\<lparr>pf_batchRequests := pf_batchRequests p + 1,
                pf_batchAccepted := (if accepted then pf_batchAccepted p + 1 else pf_batchAccepted p),
                pf_accepted := (if accepted then pf_accepted p + of_nat (length (lu_batchRecords u)) else pf_accepted p)\<rparr>,
              lu_evidence := record_attempt accepted now (lu_evidence u)\<rparr>
      in if accepted then u\<lparr>lu_batchAcknowledged := True, lu_batchAckIndex := 0\<rparr>
         else if payloadRejected (rs_status res)
         then (clear_batch (u\<lparr>lu_recovery := batchRejected (length (lu_batchRecords u)) (lu_recovery u)\<rparr>))
           \<lparr>lu_backoff := False\<rparr>
         else if rs_status res = 404 \<or> rs_status res = 405
         then (clear_batch u)\<lparr>lu_batchEnabled := False, lu_backoff := False,
             lu_performance := (lu_performance u)\<lparr>pf_batchEnabled := False\<rparr>\<rparr>
         else u)"

definition acknowledge_snapshot :: "'fs lfs_ops \<Rightarrow> LiveUpload \<Rightarrow> 'fs \<Rightarrow> bool \<times> LiveUpload \<times> 'fs" where
  "acknowledge_snapshot L u fs =
     (if lu_durableInFlight u
      then case popIfMatches L (raw (lu_inFlightPayload u)) False (lu_queue u) fs of
          (advanced, q, fs) \<Rightarrow> (advanced, u\<lparr>lu_queue := q\<rparr>, fs)
      else if lu_volatilePayload u = lu_inFlightPayload u then (True, u\<lparr>lu_volatilePayload := []\<rparr>, fs)
      else (False, u, fs))"

definition snapshot_accepted :: "'fs lfs_ops \<Rightarrow> 'd json_ops \<Rightarrow> LiveUpload \<Rightarrow> 'fs \<Rightarrow> LiveUpload \<times> 'fs" where
  "snapshot_accepted L J u fs =
     (let p = lu_performance u;
          u = sample_epoch J (lu_inFlightPayload u)
            (u\<lparr>lu_rejectionArchiveError := [], lu_performance := p\<lparr>pf_accepted := pf_accepted p + 1\<rparr>\<rparr>)
      in case acknowledge_snapshot L u fs of (advanced, u, fs) \<Rightarrow>
        let u = u\<lparr>lu_recovery := recordResolved advanced (lu_recovery u)\<rparr>
        in (if advanced then u
            else u\<lparr>lu_lastError := ''Queue acknowledgement persistence failed'', lu_backoff := True\<rparr>, fs))"

definition snapshot_rejected :: "'fs lfs_ops \<Rightarrow> Result \<Rightarrow> LiveUpload \<Rightarrow> 'fs \<Rightarrow> bool \<times> LiveUpload \<times> 'fs" where
  "snapshot_rejected L res u fs =
     (let payload = raw (lu_inFlightPayload u) in
      case resolveRejected (\<lambda>(q, fs). preserveRejected L payload (rs_status res) q fs)
          (\<lambda>(q, fs). if \<not> lu_durableInFlight u then (True, q, fs) else popIfMatches L payload False q fs)
          (rs_status res) (rs_permanentRejection res) (lu_recovery u) (lu_queue u, fs) of
        (resolution, r, (q, fs)) \<Rightarrow>
          let u = u\<lparr>lu_recovery := r, lu_queue := q\<rparr> in
          if resolution = Archived
          then (True, (if \<not> lu_durableInFlight u \<and> lu_volatilePayload u = lu_inFlightPayload u
              then u\<lparr>lu_volatilePayload := []\<rparr> else u)\<lparr>lu_backoff := False, lu_rejectionArchiveError := []\<rparr>, fs)
          else (False, u\<lparr>lu_rejectionArchiveError :=
              (if resolution = AdvanceFailed then ''Rejected upload archived; queue acknowledgement failed''
               else q_lastError q)\<rparr>, fs))"

definition snapshot_result ::
  "'fs lfs_ops \<Rightarrow> 'd json_ops \<Rightarrow> Result \<Rightarrow> bool \<Rightarrow> u32 \<Rightarrow> LiveUpload \<Rightarrow> 'fs \<Rightarrow> bool \<times> LiveUpload \<times> 'fs" where
  "snapshot_result L J res accepted now u fs =
     (let u = u\<lparr>lu_evidence := record_attempt accepted now (lu_evidence u)\<rparr> in
      case (if accepted then case snapshot_accepted L J u fs of (u, fs) \<Rightarrow> (False, u, fs)
            else if rs_permanentRejection res then snapshot_rejected L res u fs
            else (False, u, fs)) of
        (archivedSnapshot, u, fs) \<Rightarrow> (archivedSnapshot, u\<lparr>lu_inFlightPayload := []\<rparr>, fs))"

text \<open>Status requests: the rotation of an app bearer, then the one of the owner's authorization.\<close>

definition client_error :: "int \<Rightarrow> bool" where
  "client_error status \<longleftrightarrow> 400 \<le> status \<and> status < 500"

definition rotation_ack_result ::
  "'w prefs_ops \<Rightarrow> Result \<Rightarrow> bool \<Rightarrow> AppBearerRotation \<Rightarrow> LiveUpload \<Rightarrow> 'w \<Rightarrow> LiveUpload \<times> 'w" where
  "rotation_ack_result P res accepted r u w =
     (if accepted
      then case markAcknowledged P r w of
          (False, r, w) \<Rightarrow> (u\<lparr>lu_rotation := Some r, lu_managementError := ab_lastError r, lu_backoff := True\<rparr>, w)
        | (True, r, w) \<Rightarrow> (u\<lparr>lu_rotation := Some r, lu_statusRequested := True\<rparr>, w)
      else if client_error (rs_status res) \<and> \<not> lu_lastPostRetryable u
      then case abandonCandidate P r w of
          (r, w) \<Rightarrow> (u\<lparr>lu_rotation := Some r, lu_fallbackRequested := True, lu_statusRequested := True\<rparr>, w)
      else (u, w))"

definition rotation_proof_result ::
  "'w prefs_ops \<Rightarrow> bool \<Rightarrow> AppBearerRotation \<Rightarrow> LiveUpload \<Rightarrow> 'w \<Rightarrow> LiveUpload \<times> 'w" where
  "rotation_proof_result P accepted r u w =
     (if accepted
      then case promoteCandidate P r w of
          (False, r, w) \<Rightarrow> (u\<lparr>lu_rotation := Some r, lu_managementError := ab_lastError r, lu_backoff := True\<rparr>, w)
        | (True, r, w) \<Rightarrow> (u\<lparr>lu_rotation := Some r\<rparr>, w)
      else (u\<lparr>lu_fallbackRequested := True, lu_statusRequested := True\<rparr>, w))"

definition app_rotation_result ::
  "'w prefs_ops \<Rightarrow> Result \<Rightarrow> bool \<Rightarrow> LiveUpload \<Rightarrow> 'w \<Rightarrow> LiveUpload \<times> 'w" where
  "app_rotation_result P res accepted u w =
     (case (lu_authorization u, lu_rotation u) of
        (None, Some r) \<Rightarrow>
          if lu_operation u = RotationAckOp then rotation_ack_result P res accepted r u w
          else if lu_operation u = RotationProofOp then rotation_proof_result P accepted r u w
          else (u, w)
      | _ \<Rightarrow> (u, w))"

definition hasRotation :: "LoggerAuthorization \<Rightarrow> bool" where
  "hasRotation a \<longleftrightarrow> la_rotationPhase a \<noteq> 0"

definition authorization_result ::
  "'w prefs_ops \<Rightarrow> 'd json_ops \<Rightarrow> Result \<Rightarrow> bool \<Rightarrow> LiveUpload \<Rightarrow> 'w \<Rightarrow> LiveUpload \<times> 'w" where
  "authorization_result P J res accepted u w =
     (if lu_operation u = FallbackOp
      then case lu_authorization u of
          None \<Rightarrow> (u\<lparr>lu_fallbackRequested := False\<rparr>, w)
        | Some a \<Rightarrow> (case finishRotationFallback P J accepted a w of
            (_, a, w) \<Rightarrow> (u\<lparr>lu_authorization := Some a, lu_fallbackRequested := False\<rparr>, w))
      else case lu_authorization u of None \<Rightarrow> (u, w)
      | Some a \<Rightarrow>
          if \<not> accepted \<and> hasRotation a \<and> client_error (rs_status res) \<and> \<not> isRetryableHttpStatus (rs_status res)
          then (u\<lparr>lu_fallbackRequested := True\<rparr>, w)
          else case statusResult P J accepted a w of (a, w) \<Rightarrow> (u\<lparr>lu_authorization := Some a\<rparr>, w))"

definition rotation_pending :: "LiveUpload \<Rightarrow> bool" where
  "rotation_pending u = (case lu_authorization u of Some a \<Rightarrow> hasRotation a
     | None \<Rightarrow> (case lu_rotation u of Some r \<Rightarrow> hasCandidate r | None \<Rightarrow> False))"

definition status_result ::
  "'w prefs_ops \<Rightarrow> 'd json_ops \<Rightarrow> Result \<Rightarrow> bool \<Rightarrow> u32 \<Rightarrow> LiveUpload \<Rightarrow> 'w \<Rightarrow> LiveUpload \<times> 'w" where
  "status_result P J res accepted now u w =
     (let u = u\<lparr>lu_pacing := statusCompleted now (lu_pacing u), lu_statusRequested := False\<rparr> in
      case app_rotation_result P res accepted u w of (u, w) \<Rightarrow>
      case authorization_result P J res accepted u w of (u, w) \<Rightarrow>
        if \<not> accepted then (u, w)
        else case consumeHttpsDesiredConfig P J (rs_body res)
            (u\<lparr>lu_lastStatusPublishMs := now, lu_heartbeatObserved := True, lu_lastHeartbeatMs := now\<rparr>) w of
          (u, w) \<Rightarrow> (if rotation_pending u then u\<lparr>lu_statusRequested := True\<rparr> else u, w))"

definition replay_text :: "LiveUpload \<Rightarrow> string" where
  "replay_text u = (if pendingRecords (lu_queue u) = 0 then []
     else ''Replaying onboard queue: '' @ dec (pendingRecords (lu_queue u)) @ '' pending'')"

definition result_error :: "Result \<Rightarrow> bool \<Rightarrow> bool \<Rightarrow> LiveUpload \<Rightarrow> string" where
  "result_error res accepted archivedSnapshot u =
     (if archivedSnapshot then ''Rejected upload preserved in recovery archive''
      else if \<not> accepted then ''HTTPS request failed ('' @ fmt_d 1 (rs_status res) @ ''); queued data retained''
      else if \<not> lu_backoff u then replay_text u else lu_lastError u)"

definition dispatch_result ::
  "'fs lfs_ops \<Rightarrow> 'd json_ops \<Rightarrow> ('w, 'f) live_ops \<Rightarrow> Result \<Rightarrow> bool \<Rightarrow> u32 \<Rightarrow> LiveUpload \<Rightarrow> 'fs \<Rightarrow> 'w \<Rightarrow>
   bool \<times> LiveUpload \<times> 'fs \<times> 'w" where
  "dispatch_result L J V res accepted now u fs w =
     (if lu_operation u = BatchOp then (False, batch_result res accepted now u, fs, w)
      else if lu_operation u = SnapshotOp
      then case snapshot_result L J res accepted now u fs of (archivedSnapshot, u, fs) \<Rightarrow> (archivedSnapshot, u, fs, w)
      else case status_result (lv_prefs V) J res accepted now u w of (u, w) \<Rightarrow> (False, u, fs, w))"

definition handle_result ::
  "'fs lfs_ops \<Rightarrow> 'd json_ops \<Rightarrow> ('w, 'f) live_ops \<Rightarrow> Result \<Rightarrow> u32 \<Rightarrow> LiveUpload \<Rightarrow> 'fs \<Rightarrow> 'w \<Rightarrow> LiveUpload \<times> 'fs \<times> 'w" where
  "handle_result L J V res now u fs w =
     (let accepted = result_accepted J res u in
      case dispatch_result L J V res accepted now (account_result res accepted now u) fs w of
        (archivedSnapshot, u, fs, w) \<Rightarrow>
          let u = u\<lparr>lu_httpsConnected := accepted, lu_lastError := result_error res accepted archivedSnapshot u,
                    lu_operation := NoOperation\<rparr>
          in (refreshQueueOldest L J u fs, fs, w))"

definition result_stage ::
  "'fs lfs_ops \<Rightarrow> 'd json_ops \<Rightarrow> ('w, 'f) live_ops \<Rightarrow> u32 \<Rightarrow> LiveUpload \<Rightarrow> 'fs \<Rightarrow> HttpsWorker \<Rightarrow> 'w \<Rightarrow>
   LiveUpload \<times> 'fs \<times> HttpsWorker \<times> 'w" where
  "result_stage L J V now u fs k w =
     (case worker_result Telemetry k of None \<Rightarrow> (u, fs, k, w)
      | Some res \<Rightarrow> (case handle_result L J V res now u fs w of (u, fs, w) \<Rightarrow> (u, fs, worker_release Telemetry k, w)))"

subsection \<open>The acknowledgement of an accepted batch\<close>

text \<open>One record per turn; the first component says whether the turn goes on to the next request.\<close>

definition batch_stage :: "'fs lfs_ops \<Rightarrow> 'd json_ops \<Rightarrow> LiveUpload \<Rightarrow> 'fs \<Rightarrow> bool \<times> LiveUpload \<times> 'fs" where
  "batch_stage L J u fs =
     (if \<not> lu_batchAcknowledged u then (True, u, fs)
      else if lu_batchAckIndex u < length (lu_batchRecords u)
      then let record = lu_batchRecords u ! lu_batchAckIndex u in
        case popIfMatches L (raw record) False (lu_queue u) fs of
          (False, q, fs) \<Rightarrow> (False, set_error ''Batch queue acknowledgement persistence failed'' (u\<lparr>lu_queue := q\<rparr>), fs)
        | (True, q, fs) \<Rightarrow>
            (False, (sample_epoch J record (u\<lparr>lu_queue := q\<rparr>))\<lparr>lu_batchAckIndex := lu_batchAckIndex u + 1\<rparr>, fs)
      else (True, refreshQueueOldest L J ((clear_batch u)\<lparr>lu_batchAcknowledged := False\<rparr>) fs, fs))"

subsection \<open>The next request\<close>

definition next_operation :: "LiveUpload \<Rightarrow> Operation" where
  "next_operation u =
     (if lu_fallbackRequested u then FallbackOp
      else case (lu_authorization u, lu_rotation u) of
        (None, Some r) \<Rightarrow> if hasCandidate r
          then (if ab_phase r = phaseStaged then RotationAckOp else RotationProofOp) else StatusOp
      | _ \<Rightarrow> StatusOp)"

definition update_authorization :: "(LoggerAuthorization \<Rightarrow> LoggerAuthorization) \<Rightarrow> LiveUpload \<Rightarrow> LiveUpload" where
  "update_authorization f u = u\<lparr>lu_authorization := map_option f (lu_authorization u)\<rparr>"

definition send_status ::
  "'d json_ops \<Rightarrow> ('w, 'f) live_ops \<Rightarrow> LiveUpload \<Rightarrow> HttpsWorker \<Rightarrow> 'w \<Rightarrow> LiveUpload \<times> HttpsWorker \<times> 'w" where
  "send_status J V u k w =
     (let u = (if lu_fallbackRequested u then update_authorization beginRotationFallback u else u) in
      case submitHttps V (next_operation u) (buildStatusJson V J True u w) u k w of
        (True, u, k) \<Rightarrow> (u, k, w)
      | (False, u, k) \<Rightarrow>
          (case lu_authorization u of
             None \<Rightarrow> (u, k, w)
           | Some a \<Rightarrow>
               if lu_fallbackRequested u
               then case finishRotationFallback (lv_prefs V) J False a w of
                   (_, a, w) \<Rightarrow> (u\<lparr>lu_authorization := Some a\<rparr>, k, w)
               else (u, k, w)))"

fun random_id :: "('w, 'f) live_ops \<Rightarrow> nat \<Rightarrow> 'w \<Rightarrow> string \<times> 'w" where
  "random_id V 0 w = ([], w)"
| "random_id V (Suc n) w = (case au_random (lv_sys V) w of (r, w) \<Rightarrow>
     case random_id V n w of (s, w) \<Rightarrow> (hex_digits 8 (unat r) @ s, w))"

definition batch_envelope :: "string \<Rightarrow> string \<Rightarrow> string list \<Rightarrow> string" where
  "batch_envelope deviceId batchId snapshots = ''{'' @ jkey ''schema_version'' @ ''1,'' @ jtext ''device_id'' deviceId @
     '','' @ jkey ''batch_id'' @ quoted batchId @ '','' @ jkey ''snapshots'' @ ''['' @ comma_join snapshots @ '']}''"

definition build_batch :: "'fs lfs_ops \<Rightarrow> ('w, 'f) live_ops \<Rightarrow> LiveUpload \<Rightarrow> 'fs \<Rightarrow> 'w \<Rightarrow> bool \<times> LiveUpload \<times> 'w" where
  "build_batch L V u fs w =
     (if \<not> (lu_batchEnabled u \<and> allowBatch (lu_recovery u) \<and> pendingRecords (lu_queue u) > 1) then (False, u, w)
      else case peekBatch L 8 (kBodyLimit - 256) (lu_queue u) fs of (payloads, q) \<Rightarrow>
        let u = u\<lparr>lu_queue := q, lu_batchRecords := map unraw payloads\<rparr> in
        if length payloads \<le> 1 then (False, u, w)
        else case random_id V 4 w of (bid, w) \<Rightarrow>
          let payload = batch_envelope (lu_deviceId u) bid (lu_batchRecords u);
              u = u\<lparr>lu_batchId := bid, lu_batchPayload := payload\<rparr>
          in if length payload \<le> kBodyLimit then (True, u, w)
             else (False, u\<lparr>lu_lastError := ''Batch exceeds bounded request size'', lu_batchPayload := [],
               lu_batchRecords := []\<rparr>, w))"

definition send_single ::
  "'fs lfs_ops \<Rightarrow> ('w, 'f) live_ops \<Rightarrow> LiveUpload \<Rightarrow> 'fs \<Rightarrow> HttpsWorker \<Rightarrow> 'w \<Rightarrow> LiveUpload \<times> HttpsWorker" where
  "send_single L V u fs k w =
     (let durable = pendingRecords (lu_queue u) > 0;
          u = u\<lparr>lu_durableInFlight := durable\<rparr>
      in case (if durable then case peek L (lu_queue u) fs of
                   (None, q) \<Rightarrow> (False, set_error (q_lastError q) (u\<lparr>lu_queue := q\<rparr>))
                 | (Some p, q) \<Rightarrow> (True, u\<lparr>lu_queue := q, lu_inFlightPayload := unraw p\<rparr>)
               else (True, u\<lparr>lu_inFlightPayload := lu_volatilePayload u\<rparr>)) of
           (False, u) \<Rightarrow> (u, k)
         | (True, u) \<Rightarrow>
             (case submitHttps V SnapshotOp (lu_inFlightPayload u) u k w of
                (True, u, k) \<Rightarrow> (u, k)
              | (False, u, k) \<Rightarrow> (u\<lparr>lu_inFlightPayload := []\<rparr>, k)))"

definition send_snapshots ::
  "'fs lfs_ops \<Rightarrow> ('w, 'f) live_ops \<Rightarrow> LiveUpload \<Rightarrow> 'fs \<Rightarrow> HttpsWorker \<Rightarrow> 'w \<Rightarrow> LiveUpload \<times> HttpsWorker \<times> 'w" where
  "send_snapshots L V u fs k w =
     (if lu_batchPayload u \<noteq> []
      then case submitHttps V BatchOp (lu_batchPayload u) u k w of (_, u, k) \<Rightarrow> (u, k, w)
      else case build_batch L V u fs w of
        (True, u, w) \<Rightarrow> (case submitHttps V BatchOp (lu_batchPayload u) u k w of (_, u, k) \<Rightarrow> (u, k, w))
      | (False, u, w) \<Rightarrow> (case send_single L V u fs k w of (u, k) \<Rightarrow> (u, k, w)))"

definition restart_required :: "LiveUpload \<Rightarrow> bool" where
  "restart_required u = (case lu_authorization u of Some a \<Rightarrow> la_restart a | None \<Rightarrow> False)"

definition choose_work :: "u32 \<Rightarrow> bool \<Rightarrow> bool \<Rightarrow> LiveUpload \<Rightarrow> Work" where
  "choose_work now busy online u =
     next_work now busy online (lu_backoff u) (lu_completedMs u) (ucast (uc_reconnectIntervalMs (lu_config u)))
       (lu_statusRequested u \<or> lu_fallbackRequested u)
       (pendingRecords (lu_queue u) > 0 \<or> lu_volatilePayload u \<noteq> []) (lu_pacing u)"

definition send_stage ::
  "'fs lfs_ops \<Rightarrow> 'd json_ops \<Rightarrow> ('w, 'f) live_ops \<Rightarrow> u32 \<Rightarrow> LiveUpload \<Rightarrow> 'fs \<Rightarrow> HttpsWorker \<Rightarrow> 'w \<Rightarrow>
   LiveUpload \<times> HttpsWorker \<times> 'w" where
  "send_stage L J V now u fs k w =
     (if restart_required u then (u, k, w)
      else if \<not> lv_wifi V w
      then (u\<lparr>lu_httpsConnected := False, lu_recoveryPending := True, lu_lastError := ''Wi-Fi disconnected''\<rparr>, k, w)
      else case (if lu_remoteManagement u \<and> 600000 \<le> since now (lu_pairingCodeGeneratedMs u)
                 then case rotatePairingCode V now u w of (u, w) \<Rightarrow> (u\<lparr>lu_statusRequested := True\<rparr>, w)
                 else (u, w)) of (u, w) \<Rightarrow>
        (case choose_work now (\<not> xidle (exchange k)) (lv_wifi V w) u of
           Wait \<Rightarrow> (u, k, w)
         | StatusWork \<Rightarrow> send_status J V u k w
         | SnapshotWork \<Rightarrow> send_snapshots L V u fs k w))"

definition serviceHttps ::
  "'fs lfs_ops \<Rightarrow> 'd json_ops \<Rightarrow> ('w, 'f) live_ops \<Rightarrow> u32 \<Rightarrow> LiveUpload \<Rightarrow> 'fs \<Rightarrow> HttpsWorker \<Rightarrow> 'w \<Rightarrow>
   LiveUpload \<times> 'fs \<times> HttpsWorker \<times> 'w" where
  "serviceHttps L J V now u fs k w =
     (if \<not> lu_workerReady u then (u, fs, k, w)
      else case result_stage L J V now u fs k w of (u, fs, k, w) \<Rightarrow>
        case batch_stage L J u fs of
          (False, u, fs) \<Rightarrow> (u, fs, k, w)
        | (True, u, fs) \<Rightarrow> (case send_stage L J V now u fs k w of (u, k, w) \<Rightarrow> (u, fs, k, w)))"

subsection \<open>The client's periodic calls\<close>

definition live_loop ::
  "'fs lfs_ops \<Rightarrow> 'd json_ops \<Rightarrow> ('w, 'f) live_ops \<Rightarrow> LiveUpload \<Rightarrow> 'fs \<Rightarrow> HttpsWorker \<Rightarrow> 'w \<Rightarrow>
   LiveUpload \<times> 'fs \<times> HttpsWorker \<times> 'w" where
  "live_loop L J V u fs k w =
     (if \<not> lu_enabled u then (u, fs, k, w)
      else let nowMs = lv_millis V w in
        if uc_https (lu_config u) then serviceHttps L J V nowMs u fs k w
        else case mqtt_loop V J nowMs u w of (u, w) \<Rightarrow> (u, fs, k, w))"

definition publishIfDue ::
  "'fs lfs_ops \<Rightarrow> 'd json_ops \<Rightarrow> ('w, 'f) live_ops \<Rightarrow> 'f AppState \<Rightarrow> LiveUpload \<Rightarrow> 'fs \<Rightarrow> 'w \<Rightarrow>
   bool \<times> LiveUpload \<times> 'fs \<times> 'w" where
  "publishIfDue L J V state u fs w =
     (if \<not> lu_enabled u then (False, u, fs, w)
      else let nowMs = lv_millis V w in
        if uc_https (lu_config u)
        then if uc_publishIntervalMs (lu_config u) \<le> since nowMs (lu_lastPublishMs u)
             then case captureHttps L J V state u fs w of (b, u, fs) \<Rightarrow> (b, u, fs, w)
             else (False, u, fs, w)
        else case mqtt_publish_due V J nowMs state u w of (b, u, w) \<Rightarrow> (b, u, fs, w))"

end
