(* ===== verification/LiveUploadSafety.thy ===== *)
theory LiveUploadSafety
  imports LiveUploadAsync
begin

section \<open>No captured record is lost\<close>

text \<open>
  What a turn of the upload client does to the queue: a record leaves it only when the server
  accepted it, alone or in a batch, or when the archive of rejected uploads holds it; and what is
  taken as accepted was sent, byte for byte.
\<close>

subsection \<open>What the stages leave alone\<close>

text \<open>The part of the state the queue and the requests depend on.\<close>

definition ident :: "LiveUpload \<Rightarrow> UploadConfig \<times> string" where
  [simp]: "ident u = (lu_config u, lu_deviceId u)"

definition core :: "LiveUpload \<Rightarrow> Queue \<times> Operation \<times> string \<times> string \<times> bool \<times> UploadConfig \<times> string" where
  "core u = (lu_queue u, lu_operation u, lu_inFlightPayload u, lu_volatilePayload u, lu_durableInFlight u, ident u)"

definition batch_part :: "LiveUpload \<Rightarrow> string list \<times> string \<times> string \<times> bool \<times> nat" where
  "batch_part u = (lu_batchRecords u, lu_batchId u, lu_batchPayload u, lu_batchAcknowledged u, lu_batchAckIndex u)"

lemma core_fields:
  "core u' = core u \<longleftrightarrow> lu_queue u' = lu_queue u \<and> lu_operation u' = lu_operation u \<and>
     lu_inFlightPayload u' = lu_inFlightPayload u \<and> lu_volatilePayload u' = lu_volatilePayload u \<and>
     lu_durableInFlight u' = lu_durableInFlight u \<and> ident u' = ident u"
  by (auto simp: core_def)

lemma batch_fields:
  "batch_part u' = batch_part u \<longleftrightarrow> lu_batchRecords u' = lu_batchRecords u \<and> lu_batchId u' = lu_batchId u \<and>
     lu_batchPayload u' = lu_batchPayload u \<and> lu_batchAcknowledged u' = lu_batchAcknowledged u \<and>
     lu_batchAckIndex u' = lu_batchAckIndex u"
  by (auto simp: batch_part_def)

definition untouched :: "LiveUpload \<Rightarrow> LiveUpload \<Rightarrow> bool" where
  "untouched u u' \<longleftrightarrow> core u' = core u \<and> batch_part u' = batch_part u"

named_theorems frames \<open>stages that leave the queue, the request and the batch alone\<close>

lemma untouched_refl [simp]: "untouched u u"
  by (simp add: untouched_def)

lemma untouched_trans: "untouched u v \<Longrightarrow> untouched v x \<Longrightarrow> untouched u x"
  by (simp add: untouched_def)

lemma untouched_updates:
  "lu_queue u' = lu_queue u \<Longrightarrow> lu_operation u' = lu_operation u \<Longrightarrow> lu_inFlightPayload u' = lu_inFlightPayload u \<Longrightarrow>
   lu_volatilePayload u' = lu_volatilePayload u \<Longrightarrow> lu_durableInFlight u' = lu_durableInFlight u \<Longrightarrow>
   ident u' = ident u \<Longrightarrow> lu_batchRecords u' = lu_batchRecords u \<Longrightarrow> lu_batchId u' = lu_batchId u \<Longrightarrow>
   lu_batchPayload u' = lu_batchPayload u \<Longrightarrow> lu_batchAcknowledged u' = lu_batchAcknowledged u \<Longrightarrow>
   lu_batchAckIndex u' = lu_batchAckIndex u \<Longrightarrow> untouched u u'"
  by (simp add: untouched_def core_fields batch_fields)

lemma assignment_frame [frames]: "parseAssignment J a u = (b, u') \<Longrightarrow> untouched u u'"
  by (auto simp: parseAssignment_def Let_def split: if_splits intro: untouched_updates)

lemma rotation_frame [frames]: "parseCredentialRotation P J r u w = (b, u', w') \<Longrightarrow> untouched u u'"
  by (auto simp: parseCredentialRotation_def Let_def split: if_splits option.splits prod.splits
      intro: untouched_updates)

lemma accepted_frame [frames]: "untouched u (desired_accepted v c u)"
  by (auto simp: desired_accepted_def intro: untouched_updates)

lemma document_frame [frames]: "consume_document P J p d v u w = (b, u', w') \<Longrightarrow> untouched u u'"
  unfolding consume_document_def Let_def
  by (auto split: if_splits prod.splits bool.splits
      dest!: assignment_frame rotation_frame intro: untouched_trans accepted_frame)

lemma observe_frame: "untouched u (u\<lparr>lu_diagnostics := d\<rparr>)"
  by (rule untouched_updates) simp_all

lemma desired_frame [frames]: "consumeDesiredState P J p u w = (b, u', w') \<Longrightarrow> untouched u u'"
  unfolding consumeDesiredState_def
  by (auto split: if_splits option.splits dest!: document_frame intro: untouched_trans [OF observe_frame])

lemma reject_frame [frames]: "untouched u (reject_desired e u)" "untouched u (rotation_refused u)"
  by (auto simp: reject_desired_def rotation_refused_def intro: untouched_updates)

lemma take_frame [frames]: "take_desired P J p u w = (u', w') \<Longrightarrow> untouched u u'"
  unfolding take_desired_def
  by (auto split: prod.splits bool.splits dest!: desired_frame intro: untouched_trans reject_frame)

lemma stage_frame [frames]: "stage_authorization P J d u w = (b, u', w') \<Longrightarrow> untouched u u'"
  by (auto simp: stage_authorization_def split: option.splits prod.splits intro: untouched_updates)

lemma provisioned_frame [frames]: "stage_provisioned P J d u w = (u', w') \<Longrightarrow> untouched u u'"
  unfolding stage_provisioned_def
  by (auto split: if_splits prod.splits bool.splits dest!: rotation_frame intro: untouched_trans reject_frame)

text \<open>The answer to a status may withdraw batching, and with it an envelope that was not accepted.\<close>

definition batch_withdrawn :: "LiveUpload \<Rightarrow> LiveUpload \<Rightarrow> bool" where
  "batch_withdrawn u u' \<longleftrightarrow> core u' = core u \<and>
     (batch_part u' = batch_part u \<or>
      (\<not> lu_batchAcknowledged u \<and> batch_part u' = ([], [], [], False, lu_batchAckIndex u)))"

lemma withdrawn_untouched: "batch_withdrawn u v \<Longrightarrow> untouched v x \<Longrightarrow> batch_withdrawn u x"
  "untouched u v \<Longrightarrow> batch_withdrawn v x \<Longrightarrow> batch_withdrawn u x" "untouched u v \<Longrightarrow> batch_withdrawn u v"
  by (auto simp: batch_withdrawn_def untouched_def batch_part_def)

lemma capability_frame: "batch_withdrawn u (set_batch_capability c u)"
  by (auto simp: set_batch_capability_def clear_batch_def batch_withdrawn_def core_def batch_part_def Let_def)

lemma https_desired_frame: "consumeHttpsDesiredConfig P J body u w = (u', w') \<Longrightarrow> batch_withdrawn u u'"
  unfolding consumeHttpsDesiredConfig_def Let_def
  by (auto split: if_splits option.splits prod.splits bool.splits
      dest!: stage_frame provisioned_frame take_frame
      intro: capability_frame withdrawn_untouched(3) [OF untouched_refl]
        withdrawn_untouched(1) [OF capability_frame] withdrawn_untouched(1) [OF capability_frame untouched_trans]
        withdrawn_untouched(1) [OF capability_frame untouched_trans [OF _ reject_frame(2)]])

text \<open>The bookkeeping of a status result.\<close>

lemma ack_frame [frames]: "rotation_ack_result P res a r u w = (u', w') \<Longrightarrow> untouched u u'"
  by (auto simp: rotation_ack_result_def split: if_splits prod.splits bool.splits intro: untouched_updates)

lemma proof_frame [frames]: "rotation_proof_result P a r u w = (u', w') \<Longrightarrow> untouched u u'"
  by (auto simp: rotation_proof_result_def split: if_splits prod.splits bool.splits intro: untouched_updates)

lemma app_frame [frames]: "app_rotation_result P res a u w = (u', w') \<Longrightarrow> untouched u u'"
  by (auto simp: app_rotation_result_def split: if_splits option.splits dest: ack_frame proof_frame)

lemma authorization_frame [frames]: "authorization_result P J res a u w = (u', w') \<Longrightarrow> untouched u u'"
  by (auto simp: authorization_result_def split: if_splits option.splits prod.splits intro: untouched_updates)

lemma status_frame: 
  assumes "status_result P J res a now u w = (u', w')"
  shows "batch_withdrawn u u'"
proof -
  define u0 where "u0 = u\<lparr>lu_pacing := statusCompleted now (lu_pacing u), lu_statusRequested := False\<rparr>"
  obtain u1 w1 where 1: "app_rotation_result P res a u0 w = (u1, w1)" by fastforce
  obtain u2 w2 where 2: "authorization_result P J res a u1 w1 = (u2, w2)" by fastforce
  define u3 where "u3 = u2\<lparr>lu_lastStatusPublishMs := now, lu_heartbeatObserved := True, lu_lastHeartbeatMs := now\<rparr>"
  obtain u4 w4 where 4: "consumeHttpsDesiredConfig P J (rs_body res) u3 w2 = (u4, w4)" by fastforce
  have eq: "u' = (if \<not> a then u2 else if rotation_pending u4 then u4\<lparr>lu_statusRequested := True\<rparr> else u4)"
    using assms by (auto simp: status_result_def u0_def [symmetric] 1 2 u3_def [symmetric] 4 split: if_splits)
  have u02: "untouched u u2"
    using app_frame [OF 1] authorization_frame [OF 2] by (auto simp: u0_def untouched_def core_def batch_part_def)
  then have u3: "untouched u u3" by (auto simp: u3_def untouched_def core_def batch_part_def)
  have "batch_withdrawn u u4" by (rule withdrawn_untouched(2) [OF u3 https_desired_frame [OF 4]])
  moreover have "untouched u4 (u4\<lparr>lu_statusRequested := True\<rparr>)" by (simp add: untouched_def core_def batch_part_def)
  ultimately show ?thesis using u02 eq by (auto intro: withdrawn_untouched)
qed

text \<open>The request and the batch.\<close>

definition request_part :: "LiveUpload \<Rightarrow> Operation \<times> string \<times> bool \<times> UploadConfig \<times> string" where
  "request_part u = (lu_operation u, lu_inFlightPayload u, lu_durableInFlight u, ident u)"

lemma sample_frame: "untouched u (sample_epoch J p u)"
  by (auto simp: sample_epoch_def split: option.splits intro: untouched_updates)

lemma account_frame: "untouched u (account_result res a now u)"
  by (auto simp: account_result_def Let_def intro: untouched_updates)

lemma peek_error_only: "peek L q fs = (r, q') \<Longrightarrow> \<exists>e. q' = q\<lparr>q_lastError := e\<rparr>"
  by (auto simp: peek_def Let_def split: if_splits intro: exI [of _ "q_lastError q"])

lemma peekBatch_error_only: "peekBatch L n m q fs = (ps, q') \<Longrightarrow> \<exists>e. q' = q\<lparr>q_lastError := e\<rparr>"
  by (auto simp: peekBatch_def batch_done_def batch_early_def batch_seek_error_def Let_def
      split: if_splits prod.splits option.splits intro: exI [of _ "q_lastError q"])

subsection \<open>What the stages do to the queue\<close>

definition pending :: "(string \<Rightarrow> bytes option) \<Rightarrow> LiveUpload \<Rightarrow> bytes list \<Rightarrow> bool" where
  "pending F u ps \<longleftrightarrow> (\<exists>old new. holds F (lu_queue u) old new \<and> ps = old @ new)"

definition lost_count :: "LiveUpload \<Rightarrow> u32" where
  "lost_count u = droppedRecords (q_meta (lu_queue u))"

text \<open>
  \<open>settles X\<close>: records leave the queue at its front only, and each of them is in \<open>X\<close> or in the
  archive; the archive keeps what it holds, and nothing is counted as lost.
\<close>

definition settles :: "bytes set \<Rightarrow> (string \<Rightarrow> bytes option) \<Rightarrow> LiveUpload \<Rightarrow> bytes list \<Rightarrow>
    (string \<Rightarrow> bytes option) \<Rightarrow> LiveUpload \<Rightarrow> bytes list \<Rightarrow> bool" where
  "settles X F u ps F' u' ps' \<longleftrightarrow> pending F' u' ps' \<and> lost_count u' = lost_count u \<and> archived F \<subseteq> archived F' \<and>
     (\<exists>gone. ps = gone @ ps' \<and> set gone \<subseteq> X \<union> archived F')"

lemma settles_trans:
  assumes "settles X F u ps F1 u1 ps1" "settles X F1 u1 ps1 F2 u2 ps2"
  shows "settles X F u ps F2 u2 ps2"
proof -
  obtain g where g: "ps = g @ ps1" "set g \<subseteq> X \<union> archived F1" using assms(1) by (auto simp: settles_def)
  obtain h where h: "ps1 = h @ ps2" "set h \<subseteq> X \<union> archived F2" using assms(2) by (auto simp: settles_def)
  have "set (g @ h) \<subseteq> X \<union> archived F2" using g(2) h(2) assms(2) by (auto simp: settles_def)
  then show ?thesis using assms g(1) h(1) unfolding settles_def by (metis append.assoc subset_trans)
qed

lemma settles_mono: "settles X F u ps F' u' ps' \<Longrightarrow> X \<subseteq> Y \<Longrightarrow> settles Y F u ps F' u' ps'"
  unfolding settles_def by blast

lemma pending_error:
  assumes "\<exists>e. lu_queue v = (lu_queue u)\<lparr>q_lastError := e\<rparr>"
  shows "pending F v ps \<longleftrightarrow> pending F u ps" "lost_count v = lost_count u"
proof -
  obtain e where "lu_queue v = (lu_queue u)\<lparr>q_lastError := e\<rparr>" using assms by blast
  then show "pending F v ps \<longleftrightarrow> pending F u ps" "lost_count v = lost_count u"
    by (simp_all add: pending_def lost_count_def)
qed

lemma settles_queue:
  assumes "settles X F u ps F' u' ps'" "\<exists>e. lu_queue v = (lu_queue u')\<lparr>q_lastError := e\<rparr>"
  shows "settles X F u ps F' v ps'"
  using assms(1) unfolding settles_def pending_error [OF assms(2)] .

lemma settles_error:
  assumes "pending F u ps" "\<exists>e. lu_queue u' = (lu_queue u)\<lparr>q_lastError := e\<rparr>"
  shows "settles X F u ps F u' ps"
  unfolding settles_def pending_error [OF assms(2)] using assms(1) by simp

lemma same_queue_error: "lu_queue u' = lu_queue u \<Longrightarrow> \<exists>e. lu_queue u' = (lu_queue u)\<lparr>q_lastError := e\<rparr>"
  by (auto intro: exI [of _ "q_lastError (lu_queue u)"])

lemma settles_same: "pending F u ps \<Longrightarrow> lu_queue u' = lu_queue u \<Longrightarrow> settles X F u ps F u' ps"
  by (rule settles_error [OF _ same_queue_error])

lemma settles_start: "settles X F u ps F' u' ps' \<Longrightarrow> lu_queue v = lu_queue u \<Longrightarrow> settles X F v ps F' u' ps'"
  by (simp add: settles_def lost_count_def)

lemma error_only_trans:
  "\<exists>e. q1 = q\<lparr>q_lastError := e\<rparr> \<Longrightarrow> \<exists>e. q2 = q1\<lparr>q_lastError := e\<rparr> \<Longrightarrow> \<exists>e. q2 = (q :: Queue)\<lparr>q_lastError := e\<rparr>"
  by auto

lemma refresh_queue: "\<exists>e. lu_queue (refreshQueueOldest L J u fs) = (lu_queue u)\<lparr>q_lastError := e\<rparr>"
proof (cases "peek L (lu_queue u) fs")
  case (Pair r q)
  with peek_error_only [OF this] show ?thesis
    using same_queue_error [of u u] by (auto simp: refreshQueueOldest_def split: option.splits)
qed

lemma refresh_parts: "batch_part (refreshQueueOldest L J u fs) = batch_part u"
  "request_part (refreshQueueOldest L J u fs) = request_part u"
  by (auto simp: refreshQueueOldest_def batch_part_def request_part_def split: prod.splits option.splits)

lemma saveMetadata_dropped: "saveMetadata L q fs = (b, q', fs') \<Longrightarrow> q_meta q' = q_meta q"
  by (auto simp: saveMetadata_def fail_def Let_def split: prod.splits bool.splits if_splits)

lemma truncate_dropped: "truncateSegment L s q fs = (b, q', fs') \<Longrightarrow> droppedRecords (q_meta q') = droppedRecords (q_meta q)"
  by (auto simp: truncateSegment_def fail_def reset_segment_def split: prod.splits bool.splits)

lemma pop_dropped:
  assumes "popIfMatches L p False q fs = (b, q', fs')"
  shows "droppedRecords (q_meta q') = droppedRecords (q_meta q)"
proof -
  have c: "droppedRecords (q_meta q2) = droppedRecords (q_meta q1)" if "pop_commit L s n False q1 f1 = (b, q2, f2)" for s n q1 q2 f1 f2
    using that unfolding pop_commit_def
    by (auto simp: advance_head_def Let_def split: prod.splits bool.splits if_splits
        dest!: saveMetadata_dropped truncate_dropped)
  obtain r q1 where "peek L q fs = (r, q1)" by fastforce
  with peek_error_only [OF this] assms c show ?thesis
    by (auto simp: popIfMatches_def pop_def fail_def Let_def split: option.splits if_splits)
qed

context flash
begin

lemma pop_settles:
  assumes "pending (files fs) u ps" "popIfMatches L (raw p) False (lu_queue u) fs = (b, q', fs')" "raw p \<in> X"
  shows "\<exists>ps'. settles X (files fs) u ps (files fs') (u\<lparr>lu_queue := q'\<rparr>) ps'"
proof -
  obtain old new where H: "holds (files fs) (lu_queue u) old new" "ps = old @ new" using assms(1) by (auto simp: pending_def)
  from popIfMatches_law [OF H(1) assms(2)] obtain old' new' where P: "holds (files fs') q' old' new'"
    "old' @ new' = ps \<or> (ps \<noteq> [] \<and> hd ps = raw p \<and> old' @ new' = tl ps)" using H(2) by blast
  have "\<exists>gone. ps = gone @ old' @ new' \<and> set gone \<subseteq> X \<union> archived (files fs')"
    using P(2)
  proof
    assume "ps \<noteq> [] \<and> hd ps = raw p \<and> old' @ new' = tl ps"
    then have "ps = [raw p] @ old' @ new'" by (cases ps) auto
    then show ?thesis using assms(3) by (intro exI [of _ "[raw p]"]) simp
  qed (intro exI [of _ "[]"]; simp)
  moreover have "pending (files fs') (u\<lparr>lu_queue := q'\<rparr>) (old' @ new')" using P(1) by (auto simp: pending_def)
  ultimately show ?thesis
    using popIfMatches_archived [OF assms(2)] pop_dropped [OF assms(2)]
    by (auto simp: settles_def lost_count_def)
qed

end

subsection \<open>The result of a request\<close>

definition accepted_now :: "'d json_ops \<Rightarrow> LiveUpload \<Rightarrow> HttpsWorker \<Rightarrow> bytes set" where
  "accepted_now J u k =
     (case worker_result Telemetry k of None \<Rightarrow> {}
      | Some res \<Rightarrow>
          if \<not> result_accepted J res u then {}
          else if lu_operation u = BatchOp then raw ` set (lu_batchRecords u)
          else if lu_operation u = SnapshotOp then {raw (lu_inFlightPayload u)} else {})"

definition batch_ok :: "bytes set \<Rightarrow> LiveUpload \<Rightarrow> bool" where
  "batch_ok X u \<longleftrightarrow> (lu_batchAcknowledged u \<longrightarrow> raw ` set (lu_batchRecords u) \<subseteq> X)"

lemma batch_ok_part: "batch_part u' = batch_part u \<Longrightarrow> batch_ok X u' \<longleftrightarrow> batch_ok X u"
  by (simp add: batch_ok_def batch_fields)

lemma batch_ok_withdrawn: "batch_withdrawn u u' \<Longrightarrow> batch_ok X u \<Longrightarrow> batch_ok X u'"
  by (auto simp: batch_withdrawn_def batch_ok_def batch_part_def)

lemma batch_ok_mono: "batch_ok X u \<Longrightarrow> X \<subseteq> Y \<Longrightarrow> batch_ok Y u"
  by (auto simp: batch_ok_def)

lemma untouched_parts: "untouched u u' \<Longrightarrow> lu_queue u' = lu_queue u" "untouched u u' \<Longrightarrow> batch_part u' = batch_part u"
  "untouched u u' \<Longrightarrow> request_part u' = request_part u" "untouched u u' \<Longrightarrow> lu_volatilePayload u' = lu_volatilePayload u"
  by (simp_all add: untouched_def core_def request_part_def)

lemma batch_result_frame:
  "lu_queue (batch_result res a now u) = lu_queue u"
  "batch_ok X u \<Longrightarrow> (a \<Longrightarrow> raw ` set (lu_batchRecords u) \<subseteq> X) \<Longrightarrow> batch_ok X (batch_result res a now u)"
  by (auto simp: batch_result_def clear_batch_def batch_ok_def Let_def)

context flash
begin

lemma acknowledge_settles:
  assumes "pending (files fs) u ps" "acknowledge_snapshot L u fs = (b, u', fs')" "raw (lu_inFlightPayload u) \<in> X"
  shows "\<exists>ps'. settles X (files fs) u ps (files fs') u' ps'" "batch_part u' = batch_part u"
proof -
  obtain b1 q1 f1 where p: "popIfMatches L (raw (lu_inFlightPayload u)) False (lu_queue u) fs = (b1, q1, f1)"
    by (metis prod.exhaust)
  show "\<exists>ps'. settles X (files fs) u ps (files fs') u' ps'"
  proof (cases "lu_durableInFlight u")
    case True
    then show ?thesis using pop_settles [OF assms(1) p assms(3)] assms(2) by (simp add: acknowledge_snapshot_def p)
  next
    case False
    then have "lu_queue u' = lu_queue u" "fs' = fs" using assms(2) by (auto simp: acknowledge_snapshot_def split: if_splits)
    then show ?thesis using settles_same [OF assms(1)] by blast
  qed
  show "batch_part u' = batch_part u"
    using assms(2) by (auto simp: acknowledge_snapshot_def p batch_part_def split: if_splits)
qed

lemma accepted_settles:
  assumes "pending (files fs) u ps" "snapshot_accepted L J u fs = (u', fs')" "raw (lu_inFlightPayload u) \<in> X"
  shows "\<exists>ps'. settles X (files fs) u ps (files fs') u' ps'" "batch_part u' = batch_part u"
proof -
  define p where "p = lu_performance u"
  define v where "v = sample_epoch J (lu_inFlightPayload u)
    (u\<lparr>lu_rejectionArchiveError := [], lu_performance := p\<lparr>pf_accepted := pf_accepted p + 1\<rparr>\<rparr>)"
  obtain b x f where a: "acknowledge_snapshot L v fs = (b, x, f)" by (metis prod.exhaust)
  have "untouched u v"
    unfolding v_def by (rule untouched_trans [OF _ sample_frame]) (simp add: untouched_def core_def batch_part_def)
  then have v: "lu_queue v = lu_queue u" "batch_part v = batch_part u" "lu_inFlightPayload v = lu_inFlightPayload u"
    by (simp_all add: untouched_def core_def)
  have x: "lu_queue u' = lu_queue x" "batch_part u' = batch_part x" "fs' = f"
    using assms(2) by (auto simp: snapshot_accepted_def Let_def p_def [symmetric] v_def [symmetric] a batch_part_def
        split: if_splits)
  have "pending (files fs) v ps" using assms(1) v(1) by (simp add: pending_def)
  note A = acknowledge_settles [OF this a, of X]
  have bx: "batch_part x = batch_part v" using A(2) assms(3) v(3) by simp
  obtain ps' where "settles X (files fs) v ps (files f) x ps'" using A(1) assms(3) v(3) by auto
  from settles_queue [OF settles_start [OF this v(1) [symmetric]] same_queue_error [OF x(1)]]
  show "\<exists>ps'. settles X (files fs) u ps (files fs') u' ps'" unfolding x(3) by blast
  show "batch_part u' = batch_part u" using x(2) v(2) bx by simp
qed

lemma preserve_settles:
  assumes "pending (files fs) u ps" "preserveRejected L x status (lu_queue u) fs = (b, q', fs')"
  shows "settles X (files fs) u ps (files fs') (u\<lparr>lu_queue := q'\<rparr>) ps" "b \<Longrightarrow> x \<in> archived (files fs')"
proof -
  note P = preserveRejected_law [OF assms(2)]
  obtain e n where q': "q' = (lu_queue u)\<lparr>q_rejectedRecords := n, q_lastError := e\<rparr>" using P(1) by blast
  obtain old new where H: "holds (files fs) (lu_queue u) old new" "ps = old @ new" using assms(1) by (auto simp: pending_def)
  have "holds (files fs') (lu_queue u) old new" using keeps_holds [OF P(2)] H(1) by simp
  then have "holds (files fs') q' old new" unfolding q' by (simp add: holds_def seg_ok_def)
  then have "pending (files fs') (u\<lparr>lu_queue := q'\<rparr>) ps" using H(2) by (auto simp: pending_def)
  then show "settles X (files fs) u ps (files fs') (u\<lparr>lu_queue := q'\<rparr>) ps"
    using P(4) q' by (auto simp: settles_def lost_count_def)
  show "b \<Longrightarrow> x \<in> archived (files fs')" by (rule P(5))
qed

lemma rejected_settles:
  assumes "pending (files fs) u ps" "snapshot_rejected L res u fs = (a, u', fs')"
  shows "\<exists>ps'. settles X (files fs) u ps (files fs') u' ps'" "batch_part u' = batch_part u"
proof -
  define x where "x = raw (lu_inFlightPayload u)"
  define save where "save = (\<lambda>(q, fs). preserveRejected L x (rs_status res) q fs)"
  define advance where "advance = (\<lambda>(q, fs). if \<not> lu_durableInFlight u then (True, q, fs) else popIfMatches L x False q fs)"
  obtain resolution r q f where R: "resolveRejected save advance (rs_status res) (rs_permanentRejection res) (lu_recovery u)
      (lu_queue u, fs) = (resolution, r, (q, f))" by (metis prod.exhaust)
  have eq: "lu_queue u' = q" "fs' = f" "batch_part u' = batch_part u"
    using assms(2) by (auto simp: snapshot_rejected_def Let_def x_def [symmetric] save_def [symmetric] advance_def [symmetric]
        R batch_part_def split: if_splits)
  show "batch_part u' = batch_part u" by (rule eq(3))
  have "\<exists>ps'. settles X (files fs) u ps (files f) (u\<lparr>lu_queue := q\<rparr>) ps'"
  proof (cases "rs_permanentRejection res \<and> payloadRejected (rs_status res)")
    case False
    then have "q = lu_queue u" "f = fs" using R by (auto simp: resolveRejected_def)
    then show ?thesis using settles_same [OF assms(1)] by fastforce
  next
    case True
    obtain b q1 f1 where sv: "preserveRejected L x (rs_status res) (lu_queue u) fs = (b, q1, f1)" by (metis prod.exhaust)
    note S = preserve_settles [OF assms(1) sv]
    obtain c q2 f2 where ad: "popIfMatches L x False q1 f1 = (c, q2, f2)" by (metis prod.exhaust)
    show ?thesis
    proof (cases "b \<and> lu_durableInFlight u")
      case False
      then have "q = q1" "f = f1" using R True by (auto simp: resolveRejected_def save_def advance_def sv split: bool.splits)
      then show ?thesis using S(1) by blast
    next
      case durable: True
      then have qf: "q = q2" "f = f2"
        using R True by (auto simp: resolveRejected_def save_def advance_def sv ad split: bool.splits)
      have p1: "pending (files f1) (u\<lparr>lu_queue := q1\<rparr>) ps" using S(1) by (simp add: settles_def)
      have xa: "x \<in> archived (files f1)" using S(2) durable by simp
      have "popIfMatches L (raw (lu_inFlightPayload u)) False (lu_queue (u\<lparr>lu_queue := q1\<rparr>)) f1 = (c, q2, f2)"
        using ad by (simp add: x_def)
      from pop_settles [OF p1 this, of "{x} \<union> X"] obtain ps'
        where "settles ({x} \<union> X) (files f1) (u\<lparr>lu_queue := q1\<rparr>) ps (files f2) (u\<lparr>lu_queue := q2\<rparr>) ps'"
        by (auto simp: x_def)
      then have "settles X (files f1) (u\<lparr>lu_queue := q1\<rparr>) ps (files f2) (u\<lparr>lu_queue := q2\<rparr>) ps'"
        using xa unfolding settles_def by blast
      from settles_trans [OF S(1) this] show ?thesis unfolding qf by blast
    qed
  qed
  then obtain ps' where p: "settles X (files fs) u ps (files f) (u\<lparr>lu_queue := q\<rparr>) ps'" by blast
  have "lu_queue u' = lu_queue (u\<lparr>lu_queue := q\<rparr>)" by (simp add: eq(1))
  from settles_queue [OF p same_queue_error [OF this]] show "\<exists>ps'. settles X (files fs) u ps (files fs') u' ps'"
    unfolding eq(2) by blast
qed

lemma snapshot_settles:
  assumes "pending (files fs) u ps" "snapshot_result L J res a now u fs = (b, u', fs')"
    and "a \<Longrightarrow> raw (lu_inFlightPayload u) \<in> X"
  shows "\<exists>ps'. settles X (files fs) u ps (files fs') u' ps'" "batch_part u' = batch_part u"
proof -
  define v where "v = u\<lparr>lu_evidence := record_attempt a now (lu_evidence u)\<rparr>"
  have v: "lu_queue v = lu_queue u" "batch_part v = batch_part u" "lu_inFlightPayload v = lu_inFlightPayload u"
    by (simp_all add: v_def batch_part_def)
  have pv: "pending (files fs) v ps" using assms(1) v(1) by (simp add: pending_def)
  define y where "y = (if a then case snapshot_accepted L J v fs of (u, fs) \<Rightarrow> (False, u, fs)
    else if rs_permanentRejection res then snapshot_rejected L res v fs else (False, v, fs))"
  obtain ar x f where y: "y = (ar, x, f)" by (metis prod.exhaust)
  have u': "lu_queue u' = lu_queue x" "batch_part u' = batch_part x" "fs' = f"
    using assms(2) by (auto simp: snapshot_result_def Let_def v_def [symmetric] y_def [symmetric] y batch_part_def)
  have X: "(\<exists>ps'. settles X (files fs) v ps (files f) x ps') \<and> batch_part x = batch_part v"
  proof (cases a)
    case True
    then have "snapshot_accepted L J v fs = (x, f)" using y by (simp add: y_def split: prod.splits)
    from accepted_settles [OF pv this] show ?thesis using assms(3) True v(3) by auto
  next
    case False
    show ?thesis
    proof (cases "rs_permanentRejection res")
      case True
      then have "snapshot_rejected L res v fs = (ar, x, f)" using y False by (simp add: y_def)
      from rejected_settles [OF pv this] show ?thesis by blast
    next
      case other: False
      then show ?thesis using y False settles_same [OF pv] by (auto simp: y_def)
    qed
  qed
  then obtain ps' where "settles X (files fs) v ps (files f) x ps'" by blast
  from settles_queue [OF settles_start [OF this v(1) [symmetric]] same_queue_error [OF u'(1)]]
  show "\<exists>ps'. settles X (files fs) u ps (files fs') u' ps'" unfolding u'(3) by blast
  show "batch_part u' = batch_part u" using X u'(2) v(2) by simp
qed

lemma result_settles:
  assumes "pending (files fs) u ps" "batch_ok D u" "result_stage L J V now u fs k w = (u', fs', k', w')"
  shows "\<exists>ps'. settles (D \<union> accepted_now J u k) (files fs) u ps (files fs') u' ps'"
    "batch_ok (D \<union> accepted_now J u k) u'"
proof -
  define X where "X = D \<union> accepted_now J u k"
  have bX: "batch_ok X u" using batch_ok_mono [OF assms(2)] by (simp add: X_def)
  have "(\<exists>ps'. settles X (files fs) u ps (files fs') u' ps') \<and> batch_ok X u'"
  proof (cases "worker_result Telemetry k")
    case None
    then show ?thesis using assms(3) bX settles_same [OF assms(1)] by (auto simp: result_stage_def)
  next
    case (Some res)
    define a where "a = result_accepted J res u"
    define v where "v = account_result res a now u"
    have vu: "untouched u v" by (simp add: v_def account_frame)
    have v: "lu_queue v = lu_queue u" "batch_part v = batch_part u" "lu_operation v = lu_operation u"
        "lu_inFlightPayload v = lu_inFlightPayload u" "lu_batchRecords v = lu_batchRecords u"
      using vu by (simp_all add: untouched_def core_fields batch_fields)
    obtain ar x f y where d: "dispatch_result L J V res a now v fs w = (ar, x, f, y)" by (metis prod.exhaust)
    define z where "z = x\<lparr>lu_httpsConnected := a, lu_lastError := result_error res a ar x, lu_operation := NoOperation\<rparr>"
    have u': "u' = refreshQueueOldest L J z f" "fs' = f"
      using assms(3) by (auto simp: result_stage_def Some handle_result_def a_def [symmetric] v_def [symmetric] d z_def Let_def)
    have pv: "pending (files fs) v ps" using assms(1) v(1) by (simp add: pending_def)
    have bv: "batch_ok X v" using bX batch_ok_part [OF v(2)] by simp
    have acc: "a \<Longrightarrow> accepted_now J u k = (if lu_operation v = BatchOp then raw ` set (lu_batchRecords v)
        else if lu_operation v = SnapshotOp then {raw (lu_inFlightPayload v)} else {})"
      using v Some by (simp add: accepted_now_def a_def)
    have "(\<exists>ps'. settles X (files fs) v ps (files f) x ps') \<and> batch_ok X x"
    proof -
      consider "lu_operation v = BatchOp" | "lu_operation v = SnapshotOp" | "lu_operation v \<noteq> BatchOp" "lu_operation v \<noteq> SnapshotOp"
        by blast
      then show ?thesis
      proof cases
        case 1
        then have xb: "x = batch_result res a now v" "f = fs" using d by (auto simp: dispatch_result_def)
        have "batch_ok X x" unfolding xb using batch_result_frame(2) [OF bv] acc 1 by (auto simp: X_def)
        then show ?thesis unfolding xb using settles_same [OF pv batch_result_frame(1)] by (intro conjI exI)
      next
        case 2
        then have sn: "snapshot_result L J res a now v fs = (ar, x, f)" using d by (auto simp: dispatch_result_def split: prod.splits)
        have raw: "a \<Longrightarrow> raw (lu_inFlightPayload v) \<in> X" using acc 2 by (simp add: X_def)
        note S = snapshot_settles [OF pv sn raw]
        show ?thesis using S(1) bv batch_ok_part [OF S(2)] by blast
      next
        case 3
        then have st: "status_result (lv_prefs V) J res a now v w = (x, y)" "f = fs"
          using d by (auto simp: dispatch_result_def split: prod.splits)
        have bw: "batch_withdrawn v x" by (rule status_frame [OF st(1)])
        then have "lu_queue x = lu_queue v" by (simp add: batch_withdrawn_def core_def)
        then show ?thesis using settles_same [OF pv] batch_ok_withdrawn [OF bw bv] st(2) by blast
      qed
    qed
    then obtain ps' where P: "settles X (files fs) v ps (files f) x ps'" "batch_ok X x" by blast
    have zq: "lu_queue z = lu_queue x" "batch_part z = batch_part x" by (simp_all add: z_def batch_part_def)
    from settles_queue [OF settles_queue [OF settles_start [OF P(1) v(1) [symmetric]] same_queue_error [OF zq(1)]] refresh_queue]
    have "settles X (files fs) u ps (files fs') u' ps'" unfolding u' .
    moreover have "batch_ok X u'" using P(2) by (simp add: u' batch_ok_part [OF refresh_parts(1)] batch_ok_part [OF zq(2)])
    ultimately show ?thesis by blast
  qed
  then show "\<exists>ps'. settles (D \<union> accepted_now J u k) (files fs) u ps (files fs') u' ps'"
    "batch_ok (D \<union> accepted_now J u k) u'" by (simp_all add: X_def)
qed

lemma batch_settles:
  assumes "pending (files fs) u ps" "batch_ok X u" "batch_stage L J u fs = (b, u', fs')"
  shows "\<exists>ps'. settles X (files fs) u ps (files fs') u' ps'" "batch_ok X u'"
proof -
  have "(\<exists>ps'. settles X (files fs) u ps (files fs') u' ps') \<and> batch_ok X u'"
  proof (cases "lu_batchAcknowledged u \<and> lu_batchAckIndex u < length (lu_batchRecords u)")
    case True
    define item where "item = lu_batchRecords u ! lu_batchAckIndex u"
    have rec: "raw item \<in> X" using assms(2) True by (auto simp: batch_ok_def item_def)
    obtain c q f where p: "popIfMatches L (raw item) False (lu_queue u) fs = (c, q, f)" by (metis prod.exhaust)
    have fr: "untouched (u\<lparr>lu_queue := q\<rparr>) (sample_epoch J item (u\<lparr>lu_queue := q\<rparr>))" by (rule sample_frame)
    define y where "y = sample_epoch J item (u\<lparr>lu_queue := q\<rparr>)"
    have y: "lu_queue y = q" "lu_batchRecords y = lu_batchRecords u" "lu_batchAcknowledged y = lu_batchAcknowledged u"
      using fr unfolding y_def [symmetric] by (simp_all add: untouched_def core_fields batch_fields)
    have eq: "u' = (if c then y\<lparr>lu_batchAckIndex := lu_batchAckIndex u + 1\<rparr>
        else set_error ''Batch queue acknowledgement persistence failed'' (u\<lparr>lu_queue := q\<rparr>))" "fs' = f"
      using assms(3) True by (cases c; simp add: batch_stage_def Let_def item_def [symmetric] p y_def)+
    have u': "lu_queue u' = lu_queue (u\<lparr>lu_queue := q\<rparr>)" "lu_batchRecords u' = lu_batchRecords u"
        "lu_batchAcknowledged u' = lu_batchAcknowledged u" "fs' = f" using eq y by simp_all
    obtain ps' where "settles X (files fs) u ps (files f) (u\<lparr>lu_queue := q\<rparr>) ps'"
      using pop_settles [OF assms(1) p rec] by blast
    from settles_queue [OF this same_queue_error [OF u'(1)]] show ?thesis
      unfolding u'(4) using assms(2) u'(2,3) by (auto simp: batch_ok_def)
  next
    case False
    define v where "v = (if lu_batchAcknowledged u then (clear_batch u)\<lparr>lu_batchAcknowledged := False\<rparr> else u)"
    have v: "lu_queue v = lu_queue u" "batch_ok X v" using assms(2) by (auto simp: v_def clear_batch_def batch_ok_def)
    have u': "u' = (if lu_batchAcknowledged u then refreshQueueOldest L J v fs else u)" "fs' = fs"
      using assms(3) False by (auto simp: batch_stage_def v_def split: if_splits)
    have "settles X (files fs) u ps (files fs) (refreshQueueOldest L J v fs) ps"
      by (rule settles_queue [OF settles_same [OF assms(1) v(1)] refresh_queue])
    moreover have "batch_ok X (refreshQueueOldest L J v fs)" using v(2) by (simp add: batch_ok_part [OF refresh_parts(1)])
    moreover have "settles X (files fs) u ps (files fs) u ps" by (rule settles_same [OF assms(1) refl])
    ultimately have "settles X (files fs) u ps (files fs') u' ps \<and> batch_ok X u'" using u' assms(2) by simp
    then show ?thesis by blast
  qed
  then show "\<exists>ps'. settles X (files fs) u ps (files fs') u' ps'" "batch_ok X u'" by blast+
qed

end

subsection \<open>Sending\<close>

lemma submit_frame:
  assumes "submitHttps V op p u k w = (b, u', k')"
  shows "lu_queue u' = lu_queue u" "batch_part u' = batch_part u" "ident u' = ident u"
    "lu_inFlightPayload u' = lu_inFlightPayload u" "lu_volatilePayload u' = lu_volatilePayload u"
    "lu_fallbackRequested u' = lu_fallbackRequested u"
    "lu_operation u' = (if b then op else lu_operation u)"
  using assms by (auto simp: submitHttps_def Let_def batch_part_def split: if_splits prod.splits bool.splits)

lemma send_status_frame:
  assumes "send_status J V u k w = (u', k', w')"
  shows "lu_queue u' = lu_queue u" "batch_part u' = batch_part u" "ident u' = ident u"
    "lu_inFlightPayload u' = lu_inFlightPayload u" "lu_volatilePayload u' = lu_volatilePayload u"
proof -
  define v where "v = (if lu_fallbackRequested u then update_authorization beginRotationFallback u else u)"
  obtain b x y where s: "submitHttps V (next_operation v) (buildStatusJson V J True v w) v k w = (b, x, y)" by (metis prod.exhaust)
  have v: "lu_queue v = lu_queue u" "batch_part v = batch_part u" "ident v = ident u"
    "lu_inFlightPayload v = lu_inFlightPayload u" "lu_volatilePayload v = lu_volatilePayload u"
    by (simp_all add: v_def update_authorization_def batch_part_def)
  have "lu_queue u' = lu_queue x \<and> batch_part u' = batch_part x \<and> ident u' = ident x \<and>
      lu_inFlightPayload u' = lu_inFlightPayload x \<and> lu_volatilePayload u' = lu_volatilePayload x"
    using assms by (auto simp: send_status_def Let_def v_def [symmetric] s batch_part_def split: bool.splits option.splits
        if_splits prod.splits)
  then show "lu_queue u' = lu_queue u" "batch_part u' = batch_part u" "ident u' = ident u"
    "lu_inFlightPayload u' = lu_inFlightPayload u" "lu_volatilePayload u' = lu_volatilePayload u"
    using v submit_frame [OF s] by simp_all
qed

abbreviation queue_kept :: "LiveUpload \<Rightarrow> LiveUpload \<Rightarrow> bool" where
  "queue_kept u u' \<equiv> \<exists>e. lu_queue u' = (lu_queue u)\<lparr>q_lastError := e\<rparr>"

lemma queue_kept_trans: "queue_kept u v \<Longrightarrow> queue_kept v x \<Longrightarrow> queue_kept u x"
  by auto

lemma build_batch_frame:
  assumes "build_batch L V u fs w = (b, u', w')"
  shows "queue_kept u u'" "lu_batchAcknowledged u' = lu_batchAcknowledged u" "request_part u' = request_part u"
    "lu_volatilePayload u' = lu_volatilePayload u"
proof -
  obtain ps q where p: "peekBatch L 8 (kBodyLimit - 256) (lu_queue u) fs = (ps, q)" by fastforce
  obtain e where q: "q = (lu_queue u)\<lparr>q_lastError := e\<rparr>" using peekBatch_error_only [OF p] by blast
  have "u' = u \<or> lu_queue u' = q"
    using assms by (auto simp: build_batch_def p Let_def split: if_splits prod.splits)
  then show "queue_kept u u'" using q same_queue_error [of u' u] by auto
  show "lu_batchAcknowledged u' = lu_batchAcknowledged u" "request_part u' = request_part u"
    "lu_volatilePayload u' = lu_volatilePayload u"
    using assms by (auto simp: build_batch_def p Let_def request_part_def split: if_splits prod.splits)
qed

lemma send_single_frame:
  assumes "send_single L V u fs k w = (u', k')"
  shows "queue_kept u u'" "batch_part u' = batch_part u" "ident u' = ident u"
    "lu_volatilePayload u' = lu_volatilePayload u"
proof -
  define d where "d = (0 < pendingRecords (lu_queue u))"
  obtain r q where p: "peek L (lu_queue u) fs = (r, q)" by fastforce
  obtain e where q: "q = (lu_queue u)\<lparr>q_lastError := e\<rparr>" using peek_error_only [OF p] by blast
  define v where "v = (if d then (case r of None \<Rightarrow> set_error (q_lastError q) (u\<lparr>lu_durableInFlight := d, lu_queue := q\<rparr>)
      | Some x \<Rightarrow> u\<lparr>lu_durableInFlight := d, lu_queue := q, lu_inFlightPayload := unraw x\<rparr>)
    else u\<lparr>lu_durableInFlight := d, lu_inFlightPayload := lu_volatilePayload u\<rparr>)"
  obtain b x y where s: "submitHttps V SnapshotOp (lu_inFlightPayload v) v k w = (b, x, y)" by (metis prod.exhaust)
  have eq: "send_single L V u fs k w = (if d \<and> r = None then (v, k) else if b then (x, y) else (x\<lparr>lu_inFlightPayload := []\<rparr>, y))"
    using s by (auto simp: send_single_def Let_def d_def [symmetric] p v_def split: option.splits bool.splits)
  have v: "queue_kept u v" "batch_part v = batch_part u" "ident v = ident u" "lu_volatilePayload v = lu_volatilePayload u"
    using q same_queue_error [of u u] by (auto simp: v_def batch_part_def split: option.splits)
  have x: "lu_queue u' = lu_queue v \<and> batch_part u' = batch_part v \<and> ident u' = ident v \<and>
      lu_volatilePayload u' = lu_volatilePayload v"
    using assms submit_frame [OF s] unfolding eq by (auto simp: batch_part_def split: if_splits)
  then show "queue_kept u u'" "batch_part u' = batch_part u" "ident u' = ident u"
    "lu_volatilePayload u' = lu_volatilePayload u" using v by auto
qed

lemma send_stage_frame:
  assumes "send_stage L J V now u fs k w = (u', k', w')"
  shows "queue_kept u u'" "lu_batchAcknowledged u' = lu_batchAcknowledged u"
proof -
  define v where "v = (if lu_remoteManagement u \<and> 600000 \<le> since now (lu_pairingCodeGeneratedMs u)
    then case rotatePairingCode V now u w of (u, w) \<Rightarrow> (u\<lparr>lu_statusRequested := True\<rparr>, w) else (u, w))"
  obtain x y where v: "v = (x, y)" by fastforce
  have x: "lu_queue x = lu_queue u" "lu_batchAcknowledged x = lu_batchAcknowledged u"
    using v by (auto simp: v_def rotatePairingCode_def split: if_splits prod.splits)
  have sn: "queue_kept x u1 \<and> lu_batchAcknowledged u1 = lu_batchAcknowledged x"
    if sm: "send_snapshots L V x fs k y = (u1, k1, w1)" for u1 k1 w1
  proof (cases "lu_batchPayload x = []")
    case False
    then obtain c where "submitHttps V BatchOp (lu_batchPayload x) x k y = (c, u1, k1)"
      using sm by (auto simp: send_snapshots_def split: prod.splits)
    from submit_frame(1,2) [OF this] show ?thesis using same_queue_error [of u1 x] by (auto simp: batch_fields)
  next
    case True
    obtain b u2 w2 where bb: "build_batch L V x fs y = (b, u2, w2)" by (metis prod.exhaust)
    note B = build_batch_frame [OF bb]
    show ?thesis
    proof (cases b)
      case True
      then obtain c where "submitHttps V BatchOp (lu_batchPayload u2) u2 k w2 = (c, u1, k1)"
        using sm \<open>lu_batchPayload x = []\<close> bb by (auto simp: send_snapshots_def split: prod.splits)
      from submit_frame(1,2) [OF this] B show ?thesis by (auto simp: batch_fields)
    next
      case False
      then have "send_single L V u2 fs k w2 = (u1, k1)"
        using sm \<open>lu_batchPayload x = []\<close> bb by (auto simp: send_snapshots_def split: prod.splits)
      from send_single_frame(1,2) [OF this] B show ?thesis by (auto simp: batch_fields)
    qed
  qed
  consider "lu_queue u' = lu_queue u" "lu_batchAcknowledged u' = lu_batchAcknowledged u" | "u' = x"
    | k1 w1 where "send_status J V x k y = (u', k1, w1)" | k1 w1 where "send_snapshots L V x fs k y = (u', k1, w1)"
    using assms by (auto simp: send_stage_def v_def [symmetric] v split: if_splits Work.splits)
  then have "queue_kept u u' \<and> lu_batchAcknowledged u' = lu_batchAcknowledged u"
  proof cases
    case 1 then show ?thesis using same_queue_error by blast
  next
    case 2 then show ?thesis using x same_queue_error by blast
  next
    case 3
    then have "lu_queue u' = lu_queue u" "lu_batchAcknowledged u' = lu_batchAcknowledged u"
      using send_status_frame(1,2) [OF 3] x by (simp_all add: batch_fields)
    then show ?thesis using same_queue_error by blast
  next
    case 4
    from sn [OF this] x show ?thesis by auto
  qed
  then show "queue_kept u u'" "lu_batchAcknowledged u' = lu_batchAcknowledged u" by blast+
qed

context flash
begin

lemma turn_settles:
  assumes "pending (files fs) u ps" "batch_ok D u" "serviceHttps L J V now u fs k w = (u', fs', k', w')"
  shows "\<exists>ps'. settles (D \<union> accepted_now J u k) (files fs) u ps (files fs') u' ps'"
    "batch_ok (D \<union> accepted_now J u k) u'"
proof -
  let ?X = "D \<union> accepted_now J u k"
  have "(\<exists>ps'. settles ?X (files fs) u ps (files fs') u' ps') \<and> batch_ok ?X u'"
  proof (cases "lu_workerReady u")
    case False
    then show ?thesis using assms settles_same [OF assms(1) refl] batch_ok_mono [OF assms(2)] by (auto simp: serviceHttps_def)
  next
    case True
    obtain u1 f1 k1 w1 where 1: "result_stage L J V now u fs k w = (u1, f1, k1, w1)" by (metis prod.exhaust)
    obtain b u2 f2 where 2: "batch_stage L J u1 f1 = (b, u2, f2)" by (metis prod.exhaust)
    obtain u3 k3 w3 where 3: "send_stage L J V now u2 f2 k1 w1 = (u3, k3, w3)" by (metis prod.exhaust)
    have eq: "u' = (if b then u3 else u2)" "fs' = f2"
      using assms(3) True by (auto simp: serviceHttps_def 1 2 3 split: bool.splits)
    note R = result_settles [OF assms(1,2) 1]
    obtain ps1 where S1: "settles ?X (files fs) u ps (files f1) u1 ps1" using R(1) by blast
    then have "pending (files f1) u1 ps1" by (simp add: settles_def)
    note B = batch_settles [OF this R(2) 2]
    obtain ps2 where S2: "settles ?X (files f1) u1 ps1 (files f2) u2 ps2" using B(1) by blast
    note S12 = settles_trans [OF S1 S2]
    show ?thesis
    proof (cases b)
      case False
      then show ?thesis using eq S12 B(2) by auto
    next
      case go: True
      note F = send_stage_frame [OF 3]
      have "\<not> lu_batchAcknowledged u2"
        using 2 go refresh_parts(1) [of L J "(clear_batch u1)\<lparr>lu_batchAcknowledged := False\<rparr>" f1]
        by (auto simp: batch_stage_def Let_def batch_part_def split: if_splits prod.splits bool.splits)
      then have "batch_ok ?X u3" using F(2) by (simp add: batch_ok_def)
      moreover have "settles ?X (files fs) u ps (files f2) u3 ps2" by (rule settles_queue [OF S12 F(1)])
      ultimately show ?thesis using eq go by auto
    qed
  qed
  then show "\<exists>ps'. settles ?X (files fs) u ps (files fs') u' ps'" "batch_ok ?X u'" by blast+
qed

end

subsection \<open>Histories\<close>

text \<open>
  A history interleaves captures and turns. Each call finds the worker and the rest of the world in
  any state (other owners use the worker, other components the preferences), and the credentials
  may be replaced between calls. Two ghost values are kept: the payloads the server accepted, and
  the ones that were captured. A history in which the queue fails to take a record is not followed.
\<close>

datatype ('w, 'f) LiveEvent =
    Capture "'f AppState" 'w
  | Turn u32 HttpsWorker 'w
  | Credentials "LoggerAuthorization option" "AppBearerRotation option"

definition snapshot_bytes :: "('w, 'f) live_ops \<Rightarrow> 'f AppState \<Rightarrow> LiveUpload \<Rightarrow> bytes" where
  "snapshot_bytes V state u = raw (buildSnapshotJson V state (lu_lastSequence u + 1) u)"

fun live_event ::
  "'fs lfs_ops \<Rightarrow> 'd json_ops \<Rightarrow> ('w, 'f) live_ops \<Rightarrow> ('w, 'f) LiveEvent \<Rightarrow>
   LiveUpload \<times> 'fs \<times> bytes set \<times> bytes list \<Rightarrow> (LiveUpload \<times> 'fs \<times> bytes set \<times> bytes list) option" where
  "live_event L J V (Capture state w) (u, fs, D, E) =
     (case captureHttps L J V state u fs w of
        (True, u', fs) \<Rightarrow> Some (u', fs, D, E @ [snapshot_bytes V state u])
      | (False, u', fs) \<Rightarrow> if capture_blocked u then Some (u', fs, D, E) else None)"
| "live_event L J V (Turn now k w) (u, fs, D, E) =
     (case serviceHttps L J V now u fs k w of (u', fs, _, _) \<Rightarrow> Some (u', fs, D \<union> accepted_now J u k, E))"
| "live_event L J V (Credentials a r) (u, fs, D, E) = Some (u\<lparr>lu_authorization := a, lu_rotation := r\<rparr>, fs, D, E)"

fun live_run ::
  "'fs lfs_ops \<Rightarrow> 'd json_ops \<Rightarrow> ('w, 'f) live_ops \<Rightarrow> ('w, 'f) LiveEvent list \<Rightarrow>
   LiveUpload \<times> 'fs \<times> bytes set \<times> bytes list \<Rightarrow> (LiveUpload \<times> 'fs \<times> bytes set \<times> bytes list) option" where
  "live_run L J V [] s = Some s"
| "live_run L J V (x # xs) s = (case live_event L J V x s of None \<Rightarrow> None | Some s \<Rightarrow> live_run L J V xs s)"

text \<open>
  Where the records went: they left at the front, each was accepted by the server, archived, or
  evicted and counted.
\<close>

definition accounted :: "bytes set \<Rightarrow> bytes list \<Rightarrow> u32 \<Rightarrow> bytes list \<Rightarrow> bytes list \<Rightarrow> u32 \<Rightarrow> bool" where
  "accounted S ps c new ps' c' \<longleftrightarrow>
     (\<exists>gone resolved evicted. ps @ new = gone @ ps' \<and> mset gone = mset resolved + mset evicted \<and> set resolved \<subseteq> S \<and>
        unat c' = min 4294967295 (unat c + length evicted))"

lemma accounted_same: "accounted S ps c [] ps c"
  unfolding accounted_def using unat32_le [of c]
  by (intro exI [of _ "[]"]) simp

lemma accounted_settles:
  assumes "settles X F u ps F' u' ps'"
  shows "accounted (X \<union> archived F') ps (lost_count u) [] ps' (lost_count u')"
proof -
  obtain g where "ps = g @ ps'" "set g \<subseteq> X \<union> archived F'" "lost_count u' = lost_count u"
    using assms by (auto simp: settles_def)
  then show ?thesis unfolding accounted_def using unat32_le [of "lost_count u"]
    by (intro exI [of _ g] exI [of _ g] exI [of _ "[]"]) simp
qed

lemma accounted_trans:
  assumes "accounted S ps c new ps1 c1" "accounted T ps1 c1 new' ps2 c2" "S \<subseteq> T"
  shows "accounted T ps c (new @ new') ps2 c2"
proof -
  obtain g r e where 1: "ps @ new = g @ ps1" "mset g = mset r + mset e" "set r \<subseteq> S"
    "unat c1 = min 4294967295 (unat c + length e)" using assms(1) unfolding accounted_def by blast
  obtain g' r' e' where 2: "ps1 @ new' = g' @ ps2" "mset g' = mset r' + mset e'" "set r' \<subseteq> T"
    "unat c2 = min 4294967295 (unat c1 + length e')" using assms(2) unfolding accounted_def by blast
  have "ps @ new @ new' = (g @ g') @ ps2" using 1(1) 2(1) by (metis append.assoc)
  moreover have "unat c2 = min 4294967295 (unat c + length (e @ e'))" using 1(4) 2(4) by simp
  ultimately show ?thesis
    unfolding accounted_def using 1(2,3) 2(2,3) assms(3)
    by (intro exI [of _ "g @ g'"] exI [of _ "r @ r'"] exI [of _ "e @ e'"]) auto
qed

lemma accounted_enqueue:
  assumes "conserved ps c [Enqueue x] ps' c'"
  shows "accounted {} ps c [x] ps' c'"
proof -
  obtain g a e where g: "ps @ [x] = g @ ps'" "mset g = mset (map fst a) + mset e" "subseq a []"
    "unat c' = min 4294967295 (unat c + length e + length (filter snd a))" using assms by (auto simp: conserved_def)
  have "a = []" using g(3) by (cases a) auto
  then have "mset g = mset [] + mset e" "unat c' = min 4294967295 (unat c + length e)" using g(2,4) by simp_all
  then show ?thesis unfolding accounted_def using g(1) by (metis empty_set empty_subsetI)
qed

lemma captured_frame: "queue_kept u (captured L J n u fs)" "batch_part (captured L J n u fs) = batch_part u"
proof -
  define v where "v = u\<lparr>lu_lastSequence := n, lu_performance := (lu_performance u)
      \<lparr>pf_captured := pf_captured (lu_performance u) + 1\<rparr>\<rparr>"
  have eq: "captured L J n u fs = (if qo_session (lu_oldest v) = [] then refreshQueueOldest L J v fs else v)"
    by (simp add: captured_def v_def)
  have v: "lu_queue v = lu_queue u" "batch_part v = batch_part u" by (simp_all add: v_def batch_part_def)
  show "queue_kept u (captured L J n u fs)"
    unfolding eq using v(1) refresh_queue [of L J v fs] same_queue_error [of v u] by (cases "qo_session (lu_oldest v) = []") auto
  show "batch_part (captured L J n u fs) = batch_part u" by (simp add: eq refresh_parts(1) v(2))
qed

context flash
begin

lemma rotate_frame: "rotateSegment L q fs = (b, q', fs') \<Longrightarrow> \<not> queue_file p \<Longrightarrow> files fs' p = files fs p"
  by (auto simp: rotateSegment_def Let_def split: if_splits prod.splits bool.splits
      dest!: saveMetadata_frame [of _ _ _ _ _ p] truncate_frame [of _ _ _ _ _ _ p])

lemma append_frame:
  assumes "append_record L p x fs = (b, fs')" "files fs p \<noteq> None" "r \<noteq> p"
  shows "files fs' r = files fs r"
proof -
  obtain c where c: "files fs p = Some c" using assms(2) by blast
  obtain n f1 where h: "f_write L p (record_header x) fs = (n, f1)" by fastforce
  obtain k f2 where d: "f_write L p x f1 = (k, f2)" by fastforce
  have 1: "files f1 = (files fs)(p := Some (c @ take n (record_header x)))" using write_law [OF c h] by simp
  have "files f2 r = files fs r" using write_law [OF _ d] 1 assms(3) by simp
  then show ?thesis using assms(1,3) 1 by (auto simp: append_record_def h d split: if_splits)
qed

lemma enqueue_frame:
  assumes "enqueue L x q fs = (b, q', fs')" "\<not> queue_file p"
  shows "files fs' p = files fs p"
proof -
  define g where "g = (if q_tail q (activeSegment (q_meta q)) + (12 + length x) > q_segmentMaximumBytes q
    then rotateSegment L q fs else (True, q, fs))"
  obtain o1 q1 f1 where g: "g = (o1, q1, f1)" by (metis prod.collapse)
  have 1: "files f1 p = files fs p" using g rotate_frame assms(2) by (auto simp: g_def split: if_splits)
  define s where "s = activeSegment (q_meta q1)"
  obtain o2 f2 where a: "open_append L (segmentPath s) f1 = (o2, f2)" by fastforce
  obtain o3 f3 where r: "append_record L (segmentPath s) x f2 = (o3, f3)" by fastforce
  have np: "p \<noteq> segmentPath s" using assms(2) by auto
  have 2: "files f2 p = files f1 p" using open_append_law [OF a] np by (auto split: if_splits)
  have 3: "o2 \<Longrightarrow> files f3 p = files f2 p" using append_frame [OF r _ np] open_append_law [OF a] by simp
  have "fs' \<in> {fs, f1, f2} \<or> (o2 \<and> fs' = f3)"
    using assms(1) by (auto simp: enqueue_def Let_def fail_def g_def [symmetric] g s_def [symmetric] a r split: if_splits bool.splits)
  then show ?thesis using 1 2 3 by auto
qed

lemma capture_accounted:
  assumes "pending (files fs) u ps" "captureHttps L J V state u fs w = (b, u', fs')" "b \<or> capture_blocked u"
  shows "batch_part u' = batch_part u" "archived (files fs) \<subseteq> archived (files fs') \<and> (\<exists>ps'. pending (files fs') u' ps' \<and>
    accounted {} ps (lost_count u) (if b then [snapshot_bytes V state u] else []) ps' (lost_count u'))"
proof -
  obtain old new where H: "holds (files fs) (lu_queue u) old new" "ps = old @ new" using assms(1) by (auto simp: pending_def)
  have ready: "q_ready (lu_queue u)" using H(1) by (simp add: holds_def)
  define v where "v = u\<lparr>lu_lastPublishMs := lv_millis V w\<rparr>"
  have v: "lu_queue v = lu_queue u" "batch_part v = batch_part u" by (simp_all add: v_def batch_part_def)
  have "batch_part u' = batch_part u \<and> archived (files fs) \<subseteq> archived (files fs') \<and> (\<exists>ps'. pending (files fs') u' ps' \<and>
    accounted {} ps (lost_count u) (if b then [snapshot_bytes V state u] else []) ps' (lost_count u'))"
  proof (cases "capture_blocked u")
    case True
    then have r: "\<not> b" "fs' = fs" "lu_queue u' = lu_queue u" "batch_part u' = batch_part u"
      using assms(2) by (auto simp: captureHttps_def batch_part_def)
    then have "pending (files fs') u' ps" "lost_count u' = lost_count u" using assms(1) by (auto simp: pending_def lost_count_def)
    then show ?thesis using r accounted_same by auto
  next
    case False
    then have b: "b" using assms(3) by simp
    obtain e q f where en: "enqueue L (snapshot_bytes V state u) (lu_queue u) fs = (e, q, f)" by (metis prod.exhaust)
    have eq: "e" "u' = captured L J (lu_lastSequence u + 1) (v\<lparr>lu_queue := q\<rparr>) f" "fs' = f"
      using assms(2) False b ready en by (auto simp: captureHttps_def Let_def snapshot_bytes_def v_def split: bool.splits)
    note C = captured_frame [where L = L and J = J and u = "v\<lparr>lu_queue := q\<rparr>" and n = "lu_lastSequence u + 1" and fs = f]
    have en': "enqueue L (snapshot_bytes V state u) (lu_queue u) fs = (True, q, f)" using en eq(1) by simp
    have "\<exists>ps'. pending (files f) (v\<lparr>lu_queue := q\<rparr>) ps' \<and>
        conserved ps (lost_count u) [Enqueue (snapshot_bytes V state u)] ps' (droppedRecords (q_meta q))"
      using enqueue_law [OF H(1) en', THEN conjunct2, THEN conjunct2, THEN conjunct2]
    proof
      let ?x = "snapshot_bytes V state u"
      assume a: "holds (files f) q old (new @ [?x]) \<and> droppedRecords (q_meta q) = droppedRecords (q_meta (lu_queue u))"
      have "pending (files f) (v\<lparr>lu_queue := q\<rparr>) (ps @ [?x])"
        unfolding pending_def by (rule exI [of _ old], rule exI [of _ "new @ [?x]"]) (simp add: a H(2))
      then show ?thesis using conserved_append [of ps "lost_count u" ?x] a by (auto simp: lost_count_def)
    next
      let ?x = "snapshot_bytes V state u"
      assume a: "holds (files f) q new [?x] \<and>
        droppedRecords (q_meta q) = dropped_after (droppedRecords (q_meta (lu_queue u))) old"
      have "pending (files f) (v\<lparr>lu_queue := q\<rparr>) (new @ [?x])"
        unfolding pending_def by (rule exI [of _ new], rule exI [of _ "[?x]"]) (simp add: a)
      moreover have "conserved ps (lost_count u) [Enqueue ?x] (new @ [?x]) (droppedRecords (q_meta q))"
        unfolding H(2) by (rule conserved_evict [OF H(1)]) (simp add: a lost_count_def)
      ultimately show ?thesis by blast
    qed
    then obtain ps' where P: "pending (files f) (v\<lparr>lu_queue := q\<rparr>) ps'"
      "conserved ps (lost_count u) [Enqueue (snapshot_bytes V state u)] ps' (droppedRecords (q_meta q))" by blast
    have "pending (files f) u' ps'" "lost_count u' = droppedRecords (q_meta q)"
      using pending_error [OF C(1)] P(1) by (simp_all add: eq(2) lost_count_def)
    moreover have "accounted {} ps (lost_count u) [snapshot_bytes V state u] ps' (droppedRecords (q_meta q))"
      by (rule accounted_enqueue [OF P(2)])
    moreover have "archived (files fs) \<subseteq> archived (files f)" using enqueue_frame [OF en] slot_path_other
      by (intro archived_mono) (simp add: queue_file_def)
    ultimately show ?thesis using eq b C(2) v(2) by (auto simp: batch_part_def)
  qed
  then show "batch_part u' = batch_part u" "archived (files fs) \<subseteq> archived (files fs') \<and> (\<exists>ps'. pending (files fs') u' ps' \<and>
    accounted {} ps (lost_count u) (if b then [snapshot_bytes V state u] else []) ps' (lost_count u'))" by blast+
qed

lemma event_accounted:
  assumes "pending (files fs) u ps" "batch_ok D u" "live_event L J V x (u, fs, D, E) = Some (u', fs', D', E')"
  shows "D \<subseteq> D' \<and> archived (files fs) \<subseteq> archived (files fs') \<and> batch_ok D' u' \<and>
    (\<exists>ps' new. E' = E @ new \<and> pending (files fs') u' ps' \<and>
       accounted (D' \<union> archived (files fs')) ps (lost_count u) new ps' (lost_count u'))"
proof (cases x)
  case (Capture state w)
  obtain b u1 f1 where c: "captureHttps L J V state u fs w = (b, u1, f1)" by (metis prod.exhaust)
  have r: "b \<or> capture_blocked u" "u' = u1" "fs' = f1" "D' = D"
    "E' = E @ (if b then [snapshot_bytes V state u] else [])"
    using assms(3) by (auto simp: Capture c split: bool.splits if_splits)
  note C = capture_accounted [OF assms(1) c r(1)]
  obtain ps' where P: "pending (files f1) u1 ps'"
    "accounted {} ps (lost_count u) (if b then [snapshot_bytes V state u] else []) ps' (lost_count u1)" using C(2) by blast
  have "accounted (D' \<union> archived (files fs')) ps (lost_count u) (if b then [snapshot_bytes V state u] else []) ps' (lost_count u1)"
    using accounted_trans [OF P(2) accounted_same] by simp
  then show ?thesis using r P(1) C(2) batch_ok_part [OF C(1)] assms(2) by blast
next
  case (Turn now k w)
  obtain u1 f1 k1 w1 where t: "serviceHttps L J V now u fs k w = (u1, f1, k1, w1)" by (metis prod.exhaust)
  have r: "u' = u1" "fs' = f1" "D' = D \<union> accepted_now J u k" "E' = E @ []" using assms(3) by (auto simp: Turn t)
  note T = turn_settles [OF assms(1,2) t]
  obtain ps' where P: "settles D' (files fs) u ps (files f1) u1 ps'" using T(1) r(3) by blast
  then have "pending (files f1) u1 ps'" "archived (files fs) \<subseteq> archived (files f1)" by (simp_all add: settles_def)
  moreover have "D \<subseteq> D'" using r(3) by simp
  ultimately show ?thesis using accounted_settles [OF P] T(2) r by blast
next
  case (Credentials a r)
  have r: "u' = u\<lparr>lu_authorization := a, lu_rotation := r\<rparr>" "fs' = fs" "D' = D" "E' = E @ []"
    using assms(3) by (auto simp: Credentials)
  have "pending (files fs') u' ps" "lost_count u' = lost_count u" "batch_ok D' u'"
    using assms(1,2) r by (auto simp: pending_def lost_count_def batch_ok_def)
  then show ?thesis using r accounted_same [of "D' \<union> archived (files fs')" ps "lost_count u"]
    by (intro conjI exI [of _ ps] exI [of _ "[]"]) simp_all
qed

lemma run_accounted:
  assumes "pending (files fs) u ps" "batch_ok D u" "live_run L J V xs (u, fs, D, E) = Some (u', fs', D', E')"
  shows "D \<subseteq> D' \<and> archived (files fs) \<subseteq> archived (files fs') \<and>
    (\<exists>ps' new. E' = E @ new \<and> pending (files fs') u' ps' \<and>
       accounted (D' \<union> archived (files fs')) ps (lost_count u) new ps' (lost_count u'))"
  using assms
proof (induction xs arbitrary: u fs ps D E)
  case Nil
  then show ?case using accounted_same by fastforce
next
  case (Cons x xs)
  obtain u1 f1 D1 E1 where s: "live_event L J V x (u, fs, D, E) = Some (u1, f1, D1, E1)"
    "live_run L J V xs (u1, f1, D1, E1) = Some (u', fs', D', E')"
    using Cons.prems(3) by (auto split: option.splits)
  note A = event_accounted [OF Cons.prems(1,2) s(1)]
  then obtain ps1 n1 where 1: "E1 = E @ n1" "pending (files f1) u1 ps1"
    "accounted (D1 \<union> archived (files f1)) ps (lost_count u) n1 ps1 (lost_count u1)" by blast
  note B = Cons.IH [OF 1(2) _ s(2)]
  then obtain ps2 n2 where 2: "E' = E1 @ n2" "pending (files fs') u' ps2"
    "accounted (D' \<union> archived (files fs')) ps1 (lost_count u1) n2 ps2 (lost_count u')" using A by blast
  have m: "D1 \<subseteq> D'" "archived (files f1) \<subseteq> archived (files fs')" using A B by blast+
  then have "D1 \<union> archived (files f1) \<subseteq> D' \<union> archived (files fs')" by blast
  from accounted_trans [OF 1(3) 2(3) this] show ?case using A m 1(1) 2 by (metis append.assoc subset_trans)
qed

end

end
