(* ===== verification/LiveUploadSystem.thy ===== *)
theory LiveUploadSystem
  imports LiveUploadSafety
begin

section \<open>The upload client and the HTTPS worker\<close>

text \<open>
  The client and the shared worker as one system: what the client takes for the answer to its
  request in flight is what the library answered to exactly that request. The worker runs in its
  own task and serves other owners too, so its steps interleave freely with the client's calls.
\<close>

subsection \<open>The request in flight\<close>

definition envelope_ok :: "LiveUpload \<Rightarrow> bool" where
  "envelope_ok u \<longleftrightarrow> (lu_batchPayload u \<noteq> [] \<longrightarrow>
     lu_batchPayload u = batch_envelope (lu_deviceId u) (lu_batchId u) (lu_batchRecords u)) \<and>
     (lu_batchAcknowledged u \<longrightarrow> lu_operation u = NoOperation)"

definition in_flight :: "LiveUpload \<Rightarrow> HttpsWorker \<Rightarrow> bool" where
  "in_flight u k \<longleftrightarrow> (lu_operation u \<noteq> NoOperation \<longleftrightarrow> owner k = Telemetry) \<and>
     (owner k = Telemetry \<longrightarrow>
        (let rq = xrequest (exchange k) in
         rq_url rq = request_url (lu_operation u) u \<and>
         (lu_operation u = SnapshotOp \<longrightarrow> rq_payload rq = lu_inFlightPayload u) \<and>
         (lu_operation u = BatchOp \<longrightarrow> rq_payload rq = lu_batchPayload u \<and> lu_batchPayload u \<noteq> [])))"

lemma in_flight_part:
  "request_part u' = request_part u \<Longrightarrow> lu_batchPayload u' = lu_batchPayload u \<Longrightarrow> in_flight u' k \<longleftrightarrow> in_flight u k"
  by (simp add: in_flight_def request_part_def request_url_def)

lemma envelope_part:
  "request_part u' = request_part u \<Longrightarrow> batch_part u' = batch_part u \<Longrightarrow> envelope_ok u' \<longleftrightarrow> envelope_ok u"
  by (simp add: envelope_ok_def request_part_def batch_fields)

text \<open>The worker's request is kept while it works for the client; other owners cannot take its place.\<close>

lemma submit_other:
  assumes "worker_inv k" "owner k \<noteq> Telemetry \<or> ow = Telemetry" "worker_submit ow url p t i s g k = (b, k')" "ow \<noteq> Telemetry"
  shows "owner k' \<noteq> Telemetry"
  using assms by (auto simp: worker_submit_def split: if_splits prod.splits bool.splits)

lemma submit_busy:
  assumes "worker_inv k" "owner k = Telemetry" "worker_submit ow url p t i s g k = (b, k')"
  shows "owner k' = Telemetry \<and> xrequest (exchange k') = xrequest (exchange k)"
proof -
  have "xstate (exchange k) \<noteq> Idle" using assms(1,2) by (auto simp: worker_inv_def)
  then show ?thesis using assms(2,3) by (auto simp: worker_submit_def xsubmit_def split: if_splits prod.splits bool.splits)
qed

lemma submit_telemetry:
  assumes "worker_submit Telemetry (Some url) (Some p) (Some t) (Some i) (Some s) g k = (b, k')"
  shows "b \<Longrightarrow> owner k' = Telemetry \<and> rq_url (xrequest (exchange k')) = url \<and> rq_payload (xrequest (exchange k')) = p"
    "\<not> b \<Longrightarrow> owner k' = owner k \<and> exchange k' = exchange k"
  using assms by (auto simp: worker_submit_def xsubmit_def split: if_splits prod.splits bool.splits)

lemma release_telemetry:
  "worker_inv k \<Longrightarrow> owner (worker_release ow k) \<noteq> Telemetry \<or>
     (owner k = Telemetry \<and> exchange (worker_release ow k) = exchange k \<and> owner (worker_release ow k) = Telemetry)"
  "worker_result Telemetry k = Some res \<Longrightarrow> owner (worker_release Telemetry k) \<noteq> Telemetry"
  by (auto simp: worker_release_def worker_result_def split: if_splits)

text \<open>The stages.\<close>

lemma submitHttps_in_flight:
  assumes "submitHttps V op p u k w = (b, u', k')" "lu_operation u = NoOperation" "owner k \<noteq> Telemetry" "op \<noteq> NoOperation"
    and "op = SnapshotOp \<Longrightarrow> p = lu_inFlightPayload u" "op = BatchOp \<Longrightarrow> p = lu_batchPayload u \<and> p \<noteq> []"
  shows "in_flight u' k'"
proof -
  define c where "c = lu_config u"
  obtain b2 k2 where s: "worker_submit Telemetry (Some (request_url op u)) (Some p) (Some (request_token op u))
    (Some (uc_accessClientId c)) (Some (uc_accessClientSecret c)) False k = (b2, k2)" by fastforce
  show ?thesis
  proof (cases "b")
    case False
    then have "lu_operation u' = NoOperation" using submit_frame(7) [OF assms(1)] assms(2) by simp
    moreover have "owner k' = owner k" using assms(1) False submit_telemetry(2) [OF s]
      by (auto simp: submitHttps_def Let_def c_def [symmetric] s split: if_splits bool.splits)
    ultimately show ?thesis using assms(3) by (simp add: in_flight_def)
  next
    case True
    then have "b2" "k' = k2" using assms(1)
      by (auto simp: submitHttps_def Let_def c_def [symmetric] s split: if_splits bool.splits)
    then have k: "owner k' = Telemetry" "rq_url (xrequest (exchange k')) = request_url op u"
      "rq_payload (xrequest (exchange k')) = p" using submit_telemetry(1) [OF s] by auto
    have u: "lu_operation u' = op" "lu_config u' = lu_config u" "lu_inFlightPayload u' = lu_inFlightPayload u"
      "lu_batchPayload u' = lu_batchPayload u"
      using submit_frame [OF assms(1)] True by (simp_all add: batch_fields)
    have "request_url op u' = request_url op u" by (simp add: request_url_def u(2))
    then show ?thesis using k u assms(4-6) by (auto simp: in_flight_def Let_def)
  qed
qed

lemma account_request: "request_part (account_result res a now u) = request_part u"
  "batch_part (account_result res a now u) = batch_part u"
  using account_frame [of u res a now] by (auto simp: untouched_def core_def request_part_def)

lemma acknowledge_parts:
  "acknowledge_snapshot L u fs = (b, u', fs') \<Longrightarrow> batch_part u' = batch_part u \<and> ident u' = ident u"
  by (auto simp: acknowledge_snapshot_def batch_part_def split: if_splits prod.splits)

lemma accepted_parts:
  assumes "snapshot_accepted L J u fs = (u', fs')"
  shows "batch_part u' = batch_part u \<and> ident u' = ident u"
proof -
  define p where "p = lu_performance u"
  define v where "v = sample_epoch J (lu_inFlightPayload u)
    (u\<lparr>lu_rejectionArchiveError := [], lu_performance := p\<lparr>pf_accepted := pf_accepted p + 1\<rparr>\<rparr>)"
  obtain b x f where a: "acknowledge_snapshot L v fs = (b, x, f)" by (metis prod.exhaust)
  have "untouched u v"
    unfolding v_def by (rule untouched_trans [OF _ sample_frame]) (simp add: untouched_def core_def batch_part_def)
  then have v: "batch_part v = batch_part u \<and> ident v = ident u" by (simp add: untouched_def core_def)
  have "batch_part u' = batch_part x \<and> ident u' = ident x"
    using assms by (auto simp: snapshot_accepted_def Let_def p_def [symmetric] v_def [symmetric] a batch_part_def split: if_splits)
  then show ?thesis using v acknowledge_parts [OF a] by auto
qed

lemma rejected_parts:
  "snapshot_rejected L res u fs = (b, u', fs') \<Longrightarrow> batch_part u' = batch_part u \<and> ident u' = ident u"
  by (auto simp: snapshot_rejected_def Let_def batch_part_def split: if_splits prod.splits)

lemma snapshot_parts:
  assumes "snapshot_result L J res a now u fs = (b, u', fs')"
  shows "batch_part u' = batch_part u \<and> ident u' = ident u"
proof -
  define v where "v = u\<lparr>lu_evidence := record_attempt a now (lu_evidence u)\<rparr>"
  have v: "batch_part v = batch_part u \<and> ident v = ident u" by (simp add: v_def batch_part_def)
  define y where "y = (if a then case snapshot_accepted L J v fs of (u, fs) \<Rightarrow> (False, u, fs)
    else if rs_permanentRejection res then snapshot_rejected L res v fs else (False, v, fs))"
  obtain ar x f where y: "y = (ar, x, f)" by (metis prod.exhaust)
  have u': "batch_part u' = batch_part x \<and> ident u' = ident x"
    using assms by (auto simp: snapshot_result_def Let_def v_def [symmetric] y_def [symmetric] y batch_part_def)
  have "batch_part x = batch_part v \<and> ident x = ident v"
    using y accepted_parts [of L J v fs x f] rejected_parts [of L res v fs ar x f]
    by (auto simp: y_def simp del: ident_def split: if_splits prod.splits)
  then show ?thesis using u' v by auto
qed

lemma batch_result_parts:
  "ident (batch_result res a now u) = ident u"
  "(lu_batchRecords (batch_result res a now u) = lu_batchRecords u \<and> lu_batchId (batch_result res a now u) = lu_batchId u \<and>
    lu_batchPayload (batch_result res a now u) = lu_batchPayload u) \<or> lu_batchPayload (batch_result res a now u) = []"
  by (auto simp: batch_result_def clear_batch_def Let_def)

definition envelope_kept :: "LiveUpload \<Rightarrow> LiveUpload \<Rightarrow> bool" where
  "envelope_kept u u' \<longleftrightarrow> ident u' = ident u \<and>
     (lu_batchPayload u' = [] \<or> (lu_batchRecords u' = lu_batchRecords u \<and> lu_batchId u' = lu_batchId u \<and>
       lu_batchPayload u' = lu_batchPayload u))"

lemma envelope_kept_parts: "batch_part u' = batch_part u \<Longrightarrow> ident u' = ident u \<Longrightarrow> envelope_kept u u'"
  by (simp add: envelope_kept_def batch_fields)

lemma envelope_kept_trans: "envelope_kept u v \<Longrightarrow> envelope_kept v x \<Longrightarrow> envelope_kept u x"
  by (auto simp: envelope_kept_def)

lemma envelope_kept_ok:
  "envelope_kept u u' \<Longrightarrow> envelope_ok u \<Longrightarrow> (lu_batchAcknowledged u' \<Longrightarrow> lu_operation u' = NoOperation) \<Longrightarrow> envelope_ok u'"
  by (auto simp: envelope_kept_def envelope_ok_def)

lemma dispatch_envelope:
  assumes "dispatch_result L J V res a now u fs w = (b, u', fs', w')"
  shows "envelope_kept u u'"
proof -
  consider "lu_operation u = BatchOp" | "lu_operation u = SnapshotOp" | "lu_operation u \<noteq> BatchOp" "lu_operation u \<noteq> SnapshotOp"
    by blast
  then show ?thesis
  proof cases
    case 1
    then have "u' = batch_result res a now u" using assms by (simp add: dispatch_result_def)
    then show ?thesis using batch_result_parts [of res a now u] by (auto simp: envelope_kept_def)
  next
    case 2
    then have "snapshot_result L J res a now u fs = (b, u', fs')" using assms by (auto simp: dispatch_result_def split: prod.splits)
    from envelope_kept_parts [OF conjunct1 [OF snapshot_parts [OF this]] conjunct2 [OF snapshot_parts [OF this]]]
    show ?thesis .
  next
    case 3
    then have "status_result (lv_prefs V) J res a now u w = (u', w')" using assms by (auto simp: dispatch_result_def split: prod.splits)
    from status_frame [OF this] show ?thesis
      by (auto simp: batch_withdrawn_def core_def batch_part_def envelope_kept_def)
  qed
qed

lemma result_envelope:
  assumes "envelope_ok u" "in_flight u k" "worker_inv k" "result_stage L J V now u fs k w = (u', fs', k', w')"
  shows "envelope_ok u' \<and> in_flight u' k' \<and> worker_inv k'"
proof (cases "worker_result Telemetry k")
  case None
  then show ?thesis using assms by (simp add: result_stage_def)
next
  case (Some res)
  define a where "a = result_accepted J res u"
  define v where "v = account_result res a now u"
  have v: "envelope_kept u v"
    using account_request [of res a now u] by (intro envelope_kept_parts) (simp_all add: v_def request_part_def)
  obtain ar x f y where d: "dispatch_result L J V res a now v fs w = (ar, x, f, y)" by (metis prod.exhaust)
  define z where "z = x\<lparr>lu_httpsConnected := a, lu_lastError := result_error res a ar x, lu_operation := NoOperation\<rparr>"
  have u': "u' = refreshQueueOldest L J z f" "k' = worker_release Telemetry k"
    using assms(4) by (auto simp: result_stage_def Some handle_result_def a_def [symmetric] v_def [symmetric] d z_def Let_def)
  have "envelope_kept x z" by (simp add: envelope_kept_def z_def)
  then have uz: "envelope_kept u z" using envelope_kept_trans v dispatch_envelope [OF d] by blast
  have zo: "lu_operation z = NoOperation" by (simp add: z_def)
  have ez: "envelope_ok z" by (rule envelope_kept_ok [OF uz assms(1)]) (rule zo)
  have r: "request_part u' = request_part z" "batch_part u' = batch_part z" by (simp_all add: u' refresh_parts)
  have "owner k' \<noteq> Telemetry" unfolding u'(2) by (rule release_telemetry(2) [OF Some])
  moreover have "lu_operation u' = NoOperation" using r(1) zo by (simp add: request_part_def)
  ultimately have "in_flight u' k'" by (simp add: in_flight_def)
  moreover have "worker_inv k'" unfolding u'(2) by (rule release_inv [OF assms(3)])
  moreover have "envelope_ok u'" using ez envelope_part [OF r] by simp
  ultimately show ?thesis by blast
qed

lemma batch_stage_envelope:
  assumes "envelope_ok u" "in_flight u k" "batch_stage L J u fs = (b, u', fs')"
  shows "envelope_ok u' \<and> in_flight u' k"
proof (cases "lu_batchAcknowledged u")
  case False
  then show ?thesis using assms by (simp add: batch_stage_def)
next
  case True
  then have idle: "lu_operation u = NoOperation" "owner k \<noteq> Telemetry" using assms(1,2) by (auto simp: envelope_ok_def in_flight_def)
  have "envelope_kept u u' \<and> lu_operation u' = NoOperation"
  proof (cases "lu_batchAckIndex u < length (lu_batchRecords u)")
    case True
    define item where "item = lu_batchRecords u ! lu_batchAckIndex u"
    obtain c q f where p: "popIfMatches L (raw item) False (lu_queue u) fs = (c, q, f)" by (metis prod.exhaust)
    define y where "y = sample_epoch J item (u\<lparr>lu_queue := q\<rparr>)"
    have y: "batch_part y = batch_part u" "ident y = ident u" "lu_operation y = lu_operation u"
      using sample_frame [of "u\<lparr>lu_queue := q\<rparr>" J item]
      by (simp_all add: y_def untouched_def core_def batch_part_def)
    have "u' = (if c then y\<lparr>lu_batchAckIndex := lu_batchAckIndex u + 1\<rparr>
        else set_error ''Batch queue acknowledgement persistence failed'' (u\<lparr>lu_queue := q\<rparr>))"
      using assms(3) True \<open>lu_batchAcknowledged u\<close>
      by (cases c; simp add: batch_stage_def Let_def item_def [symmetric] p y_def)
    then show ?thesis using y idle by (auto simp: envelope_kept_def batch_fields)
  next
    case False
    then have "u' = refreshQueueOldest L J ((clear_batch u)\<lparr>lu_batchAcknowledged := False\<rparr>) fs"
      using assms(3) True by (auto simp: batch_stage_def)
    moreover have "batch_part u' = batch_part ((clear_batch u)\<lparr>lu_batchAcknowledged := False\<rparr>)"
        "request_part u' = request_part ((clear_batch u)\<lparr>lu_batchAcknowledged := False\<rparr>)"
      by (simp_all add: calculation refresh_parts)
    ultimately show ?thesis using idle by (auto simp: envelope_kept_def clear_batch_def batch_part_def request_part_def)
  qed
  then show ?thesis using envelope_kept_ok [of u u'] assms(1) idle by (simp add: in_flight_def)
qed

lemma next_operation_cases: "next_operation u \<noteq> NoOperation" "next_operation u \<noteq> SnapshotOp" "next_operation u \<noteq> BatchOp"
  by (auto simp: next_operation_def split: option.splits)

definition joint_ok :: "LiveUpload \<Rightarrow> HttpsWorker \<Rightarrow> bool" where
  "joint_ok u k \<longleftrightarrow> envelope_ok u \<and> in_flight u k \<and> worker_inv k"

lemma submitHttps_worker: "submitHttps V op p u k w = (b, u', k') \<Longrightarrow> worker_inv k \<Longrightarrow> worker_inv k'"
proof -
  assume a: "submitHttps V op p u k w = (b, u', k')" and i: "worker_inv k"
  define c where "c = lu_config u"
  obtain b2 k2 where s: "worker_submit Telemetry (Some (request_url op u)) (Some p) (Some (request_token op u))
    (Some (uc_accessClientId c)) (Some (uc_accessClientSecret c)) False k = (b2, k2)" by fastforce
  have "worker_inv k2" using submit_inv [OF i] s by (metis snd_conv)
  then show "worker_inv k'" using a i by (auto simp: submitHttps_def Let_def c_def [symmetric] s split: if_splits bool.splits)
qed

text \<open>A client that has nothing in flight, and a worker that does not work for it, send one request.\<close>

lemma submit_joint:
  assumes "submitHttps V op p u k w = (b, u', k')" "envelope_ok u" "\<not> lu_batchAcknowledged u" "worker_inv k"
    "lu_operation u = NoOperation" "owner k \<noteq> Telemetry" "op \<noteq> NoOperation"
    "op = SnapshotOp \<Longrightarrow> p = lu_inFlightPayload u" "op = BatchOp \<Longrightarrow> p = lu_batchPayload u \<and> p \<noteq> []"
  shows "joint_ok u' k'"
proof -
  have "in_flight u' k'" by (rule submitHttps_in_flight [OF assms(1,5,6,7,8,9)])
  moreover have "envelope_ok u'" using assms(2,3) submit_frame(2,3) [OF assms(1)] by (simp add: envelope_ok_def batch_fields)
  ultimately show ?thesis using submitHttps_worker [OF assms(1,4)] by (simp add: joint_ok_def)
qed

lemma status_joint:
  assumes "send_status J V u k w = (u', k', w')" "envelope_ok u" "\<not> lu_batchAcknowledged u" "worker_inv k"
    "lu_operation u = NoOperation" "owner k \<noteq> Telemetry"
  shows "joint_ok u' k'"
proof -
  define v where "v = (if lu_fallbackRequested u then update_authorization beginRotationFallback u else u)"
  obtain b x y where s: "submitHttps V (next_operation v) (buildStatusJson V J True v w) v k w = (b, x, y)" by (metis prod.exhaust)
  have v: "envelope_ok v" "\<not> lu_batchAcknowledged v" "lu_operation v = NoOperation"
    using assms(2,3,5) by (simp_all add: v_def update_authorization_def envelope_ok_def)
  have j: "joint_ok x y"
    by (rule submit_joint [OF s v(1,2) assms(4) v(3) assms(6)]) (simp_all add: next_operation_cases)
  have e: "k' = y" "request_part u' = request_part x" "batch_part u' = batch_part x"
    using assms(1) by (auto simp: send_status_def Let_def v_def [symmetric] s request_part_def batch_part_def
        split: bool.splits option.splits if_splits prod.splits)
  have "lu_batchPayload u' = lu_batchPayload x" using e(3) by (simp add: batch_fields)
  then show ?thesis using j in_flight_part [OF e(2)] envelope_part [OF e(2,3)] e(1) by (simp add: joint_ok_def)
qed

lemma build_batch_envelope:
  assumes "build_batch L V u fs w = (b, u', w')" "lu_batchPayload u = []" "envelope_ok u"
  shows "envelope_ok u'" "b \<Longrightarrow> lu_batchPayload u' \<noteq> []" "\<not> b \<Longrightarrow> lu_batchPayload u' = []"
    "lu_operation u' = lu_operation u"
proof -
  obtain ps q where p: "peekBatch L 8 (kBodyLimit - 256) (lu_queue u) fs = (ps, q)" by fastforce
  have ne: "batch_envelope d i rs \<noteq> []" for d i rs by (simp add: batch_envelope_def)
  show "envelope_ok u'" "b \<Longrightarrow> lu_batchPayload u' \<noteq> []" "\<not> b \<Longrightarrow> lu_batchPayload u' = []" "lu_operation u' = lu_operation u"
    using assms ne by (auto simp: build_batch_def p Let_def envelope_ok_def split: if_splits prod.splits)
qed

lemma single_joint:
  assumes "send_single L V u fs k w = (u', k')" "envelope_ok u" "\<not> lu_batchAcknowledged u" "worker_inv k"
    "lu_operation u = NoOperation" "owner k \<noteq> Telemetry"
  shows "joint_ok u' k'"
proof -
  define d where "d = (0 < pendingRecords (lu_queue u))"
  obtain r q where p: "peek L (lu_queue u) fs = (r, q)" by fastforce
  define v where "v = (if d then (case r of None \<Rightarrow> set_error (q_lastError q) (u\<lparr>lu_durableInFlight := d, lu_queue := q\<rparr>)
      | Some x \<Rightarrow> u\<lparr>lu_durableInFlight := d, lu_queue := q, lu_inFlightPayload := unraw x\<rparr>)
    else u\<lparr>lu_durableInFlight := d, lu_inFlightPayload := lu_volatilePayload u\<rparr>)"
  obtain b x y where s: "submitHttps V SnapshotOp (lu_inFlightPayload v) v k w = (b, x, y)" by (metis prod.exhaust)
  have eq: "send_single L V u fs k w = (if d \<and> r = None then (v, k) else if b then (x, y) else (x\<lparr>lu_inFlightPayload := []\<rparr>, y))"
    using s by (auto simp: send_single_def Let_def d_def [symmetric] p v_def split: option.splits bool.splits)
  have v: "envelope_ok v" "\<not> lu_batchAcknowledged v" "lu_operation v = NoOperation"
    using assms(2,3,5) by (auto simp: v_def envelope_ok_def split: option.splits)
  have jv: "joint_ok v k" using v assms(4,6) by (simp add: joint_ok_def in_flight_def)
  have jx: "joint_ok x y" by (rule submit_joint [OF s v(1,2) assms(4) v(3) assms(6)]) simp_all
  have "joint_ok (x\<lparr>lu_inFlightPayload := []\<rparr>) y" if "\<not> b"
  proof -
    have "lu_operation x = NoOperation" using submit_frame(7) [OF s] that v(3) by simp
    then show ?thesis using jx by (simp add: joint_ok_def in_flight_def envelope_ok_def)
  qed
  then show ?thesis using assms(1) jv jx unfolding eq by (auto split: if_splits)
qed

lemma snapshots_joint:
  assumes "send_snapshots L V u fs k w = (u', k', w')" "envelope_ok u" "\<not> lu_batchAcknowledged u" "worker_inv k"
    "lu_operation u = NoOperation" "owner k \<noteq> Telemetry"
  shows "joint_ok u' k'"
proof (cases "lu_batchPayload u = []")
  case False
  then obtain c where s: "submitHttps V BatchOp (lu_batchPayload u) u k w = (c, u', k')"
    using assms(1) by (auto simp: send_snapshots_def split: prod.splits)
  show ?thesis by (rule submit_joint [OF s assms(2-6)]) (use False in simp_all)
next
  case True
  obtain b u2 w2 where bb: "build_batch L V u fs w = (b, u2, w2)" by (metis prod.exhaust)
  note B = build_batch_envelope [OF bb True assms(2)]
  have u2: "\<not> lu_batchAcknowledged u2" "lu_operation u2 = NoOperation" using build_batch_frame(2) [OF bb] B(4) assms(3,5) by simp_all
  show ?thesis
  proof (cases b)
    case True
    then obtain c where s: "submitHttps V BatchOp (lu_batchPayload u2) u2 k w2 = (c, u', k')"
      using assms(1) \<open>lu_batchPayload u = []\<close> bb by (auto simp: send_snapshots_def split: prod.splits)
    show ?thesis by (rule submit_joint [OF s B(1) u2(1) assms(4) u2(2) assms(6)]) (use B(2) True in simp_all)
  next
    case False
    then have s: "send_single L V u2 fs k w2 = (u', k')"
      using assms(1) \<open>lu_batchPayload u = []\<close> bb by (auto simp: send_snapshots_def split: prod.splits)
    show ?thesis by (rule single_joint [OF s B(1) u2(1) assms(4) u2(2) assms(6)])
  qed
qed

lemma send_joint:
  assumes "send_stage L J V now u fs k w = (u', k', w')" "joint_ok u k" "\<not> lu_batchAcknowledged u"
  shows "joint_ok u' k'"
proof -
  define v where "v = (if lu_remoteManagement u \<and> 600000 \<le> since now (lu_pairingCodeGeneratedMs u)
    then case rotatePairingCode V now u w of (u, w) \<Rightarrow> (u\<lparr>lu_statusRequested := True\<rparr>, w) else (u, w))"
  obtain x y where v: "v = (x, y)" by fastforce
  have x: "request_part x = request_part u" "batch_part x = batch_part u"
    using v by (auto simp: v_def rotatePairingCode_def request_part_def batch_part_def split: if_splits prod.splits)
  have jx: "joint_ok x k" using assms(2) in_flight_part [OF x(1)] envelope_part [OF x] x(2) by (simp add: joint_ok_def batch_fields)
  have ax: "\<not> lu_batchAcknowledged x" using x(2) assms(3) by (simp add: batch_fields)
  have busy: "choose_work now (\<not> xidle (exchange k)) n x = Wait" if "owner k = Telemetry" for n
    using that jx by (auto simp: choose_work_def next_work_def xidle_def joint_ok_def worker_inv_def)
  consider "u' = u\<lparr>lu_httpsConnected := False, lu_recoveryPending := True, lu_lastError := ''Wi-Fi disconnected''\<rparr>" "k' = k"
    | "u' = u" "k' = k" | "u' = x" "k' = k"
    | w1 where "owner k \<noteq> Telemetry" "send_status J V x k y = (u', k', w1)"
    | w1 where "owner k \<noteq> Telemetry" "send_snapshots L V x fs k y = (u', k', w1)"
    using assms(1) by (cases "owner k = Telemetry")
      (auto simp: send_stage_def v_def [symmetric] v busy split: if_splits Work.splits)
  then show ?thesis
  proof cases
    case 1
    then show ?thesis using assms(2) by (simp add: joint_ok_def in_flight_def envelope_ok_def request_url_def)
  next
    case 4
    then have "lu_operation x = NoOperation" using jx by (simp add: joint_ok_def in_flight_def)
    then show ?thesis using status_joint [OF 4(2) _ ax] jx 4(1) by (simp add: joint_ok_def)
  next
    case 5
    then have "lu_operation x = NoOperation" using jx by (simp add: joint_ok_def in_flight_def)
    then show ?thesis using snapshots_joint [OF 5(2) _ ax] jx 5(1) by (simp add: joint_ok_def)
  qed (use jx assms(2) in simp_all)
qed

lemma service_joint:
  assumes "serviceHttps L J V now u fs k w = (u', fs', k', w')" "joint_ok u k"
  shows "joint_ok u' k'"
proof (cases "lu_workerReady u")
  case False
  then show ?thesis using assms by (simp add: serviceHttps_def)
next
  case True
  obtain u1 f1 k1 w1 where 1: "result_stage L J V now u fs k w = (u1, f1, k1, w1)" by (metis prod.exhaust)
  obtain b u2 f2 where 2: "batch_stage L J u1 f1 = (b, u2, f2)" by (metis prod.exhaust)
  obtain u3 k3 w3 where 3: "send_stage L J V now u2 f2 k1 w1 = (u3, k3, w3)" by (metis prod.exhaust)
  have eq: "u' = (if b then u3 else u2)" "k' = (if b then k3 else k1)"
    using assms(1) True by (auto simp: serviceHttps_def 1 2 3 split: bool.splits)
  have R: "envelope_ok u1 \<and> in_flight u1 k1 \<and> worker_inv k1"
    using assms(2) by (intro result_envelope [OF _ _ _ 1]) (simp_all add: joint_ok_def)
  have j2: "joint_ok u2 k1"
    using R batch_stage_envelope [OF _ _ 2, of k1] by (simp add: joint_ok_def)
  have "lu_batchAcknowledged u2 \<Longrightarrow> \<not> b"
    using 2 refresh_parts(1) [of L J "(clear_batch u1)\<lparr>lu_batchAcknowledged := False\<rparr>" f1]
    by (auto simp: batch_stage_def Let_def batch_part_def split: if_splits prod.splits bool.splits)
  then show ?thesis using eq j2 send_joint [OF 3 j2] by auto
qed

lemma captured_request: "request_part (captured L J n u fs) = request_part u"
proof -
  define v where "v = u\<lparr>lu_lastSequence := n, lu_performance := (lu_performance u)
      \<lparr>pf_captured := pf_captured (lu_performance u) + 1\<rparr>\<rparr>"
  have "captured L J n u fs = (if qo_session (lu_oldest v) = [] then refreshQueueOldest L J v fs else v)"
    by (simp add: captured_def v_def)
  then show ?thesis by (simp add: refresh_parts) (simp add: v_def request_part_def)
qed

lemma capture_joint:
  assumes "captureHttps L J V state u fs w = (b, u', fs')" "joint_ok u k"
  shows "joint_ok u' k"
proof -
  have "request_part u' = request_part u \<and> batch_part u' = batch_part u"
    using assms(1) captured_request captured_frame(2)
    by (auto simp: captureHttps_def Let_def capture_rejected_def captured_request captured_frame(2)
        request_part_def [of "lu_queue_update _ _"] split: if_splits prod.splits bool.splits)
      (auto simp: request_part_def batch_part_def)
  then have p: "request_part u' = request_part u" "batch_part u' = batch_part u" by blast+
  then have "lu_batchPayload u' = lu_batchPayload u" by (simp add: batch_fields)
  then show ?thesis using assms(2) in_flight_part [OF p(1)] envelope_part [OF p] by (simp add: joint_ok_def)
qed

subsection \<open>The two tasks together\<close>

inductive joint_step :: "'fs lfs_ops \<Rightarrow> 'd json_ops \<Rightarrow> ('w, 'f) live_ops \<Rightarrow> LiveUpload \<times> HttpsWorker \<Rightarrow> LiveUpload \<times> HttpsWorker \<Rightarrow> bool"
  for L J V where
  j_turn: "serviceHttps L J V now u fs k w = (u', fs', k', w') \<Longrightarrow> joint_step L J V (u, k) (u', k')"
| j_capture: "captureHttps L J V state u fs w = (b, u', fs') \<Longrightarrow> joint_step L J V (u, k) (u', k)"
| j_credentials: "joint_step L J V (u, k) (u\<lparr>lu_authorization := a, lu_rotation := r\<rparr>, k)"
| j_submit: "ow \<noteq> Telemetry \<Longrightarrow> joint_step L J V (u, k) (u, snd (worker_submit ow url p t i s g k))"
| j_release: "ow \<noteq> Telemetry \<Longrightarrow> joint_step L J V (u, k) (u, worker_release ow k)"
| j_cancel: "joint_step L J V (u, k) (u, worker_cancel ow k)"
| j_take: "phase k = Waiting \<Longrightarrow> joint_step L J V (u, k) (u, worker_take now k)"
| j_perform: "phase k = Holding \<Longrightarrow> good_library transact \<Longrightarrow> joint_step L J V (u, k) (u, worker_perform transact k)"
| j_publish: "phase k = Ready \<Longrightarrow> joint_step L J V (u, k) (u, worker_publish k)"

text \<open>The client starts with nothing in flight, on a worker that may already serve others.\<close>

definition joint_start :: "LiveUpload \<Rightarrow> HttpsWorker \<Rightarrow> bool" where
  "joint_start u k \<longleftrightarrow> lu_operation u = NoOperation \<and> lu_batchPayload u = [] \<and> worker_reach k \<and> owner k \<noteq> Telemetry"

definition joint_reach :: "'fs lfs_ops \<Rightarrow> 'd json_ops \<Rightarrow> ('w, 'f) live_ops \<Rightarrow> LiveUpload \<Rightarrow> HttpsWorker \<Rightarrow> bool" where
  "joint_reach L J V u k \<longleftrightarrow> (\<exists>u0 k0. joint_start u0 k0 \<and> (joint_step L J V)\<^sup>*\<^sup>* (u0, k0) (u, k))"

lemma joint_worker:
  assumes "joint_ok u k" "worker_inv k'" "owner k' = Telemetry \<longleftrightarrow> owner k = Telemetry"
    "owner k = Telemetry \<Longrightarrow> xrequest (exchange k') = xrequest (exchange k)"
  shows "joint_ok u k'"
  using assms by (simp add: joint_ok_def in_flight_def Let_def)

lemma joint_step_ok: "joint_step L J V (u, k) (u', k') \<Longrightarrow> joint_ok u k \<Longrightarrow> joint_ok u' k'"
proof (cases rule: joint_step.cases, assumption, goal_cases)
  case (4 ow u1 k1 url p t i s g)
  have j: "joint_ok u k" "worker_inv k" using 4 by (simp_all add: joint_ok_def)
  obtain b where e: "worker_submit ow url p t i s g k = (b, k')" using 4 by (metis prod.collapse snd_conv Pair_inject)
  have "worker_inv k'" using submit_inv [OF j(2)] e by (metis snd_conv)
  moreover have "owner k' = Telemetry \<longleftrightarrow> owner k = Telemetry"
    using submit_busy [OF j(2) _ e] submit_other [OF j(2) _ e] 4 by blast
  ultimately show ?case using joint_worker [OF j(1)] submit_busy [OF j(2) _ e] 4 by auto
next
  case (5 ow u1 k1)
  have j: "joint_ok u k" "worker_inv k" using 5 by (simp_all add: joint_ok_def)
  have "worker_inv (worker_release ow k)" by (rule release_inv [OF j(2)])
  then show ?case using 5 j joint_worker [OF j(1)] by (auto simp: worker_release_def split: if_splits)
next
  case (6 u1 k1 ow)
  then have j: "joint_ok u k" "worker_inv k" by (simp_all add: joint_ok_def)
  have "worker_inv (worker_cancel ow k)" using j(2) by (simp add: worker_cancel_def worker_inv_def arb_cancel_ok)
  then show ?case using 6 joint_worker [OF j(1)] by (auto simp: worker_cancel_def)
next
  case (7 k1 u1 now)
  then have j: "joint_ok u k" "worker_inv k" by (simp_all add: joint_ok_def)
  have "worker_inv (worker_take now k)" using 7 by (intro take_inv [OF j(2)]) simp
  then show ?case using 7 joint_worker [OF j(1)] by (auto simp: worker_take_def split: option.splits)
next
  case (8 k1 transact u1)
  then have j: "joint_ok u k" "worker_inv k" by (simp_all add: joint_ok_def)
  have "worker_inv (worker_perform transact k)" using 8 by (intro perform_inv [OF j(2)]) simp_all
  then show ?case using 8 joint_worker [OF j(1)] by (auto simp: worker_perform_def split: prod.splits)
next
  case (9 k1 u1)
  then have j: "joint_ok u k" "worker_inv k" by (simp_all add: joint_ok_def)
  have "worker_inv (worker_publish k)" using 9 by (intro publish_inv [OF j(2)]) simp
  then show ?case using 9 joint_worker [OF j(1)] by (auto simp: worker_publish_def xcomplete_def)
next
  case 3
  then show ?case by (auto simp: joint_ok_def in_flight_def envelope_ok_def request_url_def Let_def)
qed (auto dest: service_joint capture_joint)

lemma joint_reach_ok: "joint_reach L J V u k \<Longrightarrow> joint_ok u k"
proof -
  assume "joint_reach L J V u k"
  then obtain u0 k0 where s: "joint_start u0 k0" "(joint_step L J V)\<^sup>*\<^sup>* (u0, k0) (u, k)" by (auto simp: joint_reach_def)
  have "joint_ok u0 k0"
    using s(1) worker_reach_inv by (auto simp: joint_start_def joint_ok_def in_flight_def envelope_ok_def)
  with s(2) show ?thesis by (induction "(u, k)" arbitrary: u k rule: rtranclp_induct) (auto dest: joint_step_ok)
qed

subsection \<open>An example\<close>

definition ok_json :: "sample_doc json_ops" where
  "ok_json = sample_json [(''ok'', SObj [(''accepted'', SBool True), (''status'', SStr ''ok'')])]"

definition small_live :: "(fake_prefs, nat) live_ops" where
  "small_live = \<lparr>lv_sys = LoggerAuthorization.small_ops, lv_chipSuffix = 0x1A2B, lv_firmware = ''1.0'', lv_text3 = dec,
     mq_setup = (\<lambda>h p w. w), mq_connected = (\<lambda>w. False), mq_connect = (\<lambda>c l t p w. (False, w)), mq_state = (\<lambda>w. - 2),
     mq_publish = (\<lambda>t p r w. (False, w)), mq_subscribe = (\<lambda>t w. (False, w)), mq_disconnect = (\<lambda>w. w),
     mq_loop = (\<lambda>w. ([], w))\<rparr>"

definition small_upload :: LiveUpload where
  "small_upload = fresh_upload\<lparr>lu_config := fresh_config\<lparr>uc_https := True, uc_mqttHost := ''h'', uc_mqttPort := 443,
     uc_httpsPath := ''/i'', uc_accessClientId := ''a'', uc_accessClientSecret := ''b'', uc_appDeviceToken := ''t''\<rparr>,
     lu_enabled := True, lu_deviceId := ''d'', lu_sessionId := ''s'', lu_workerReady := True, lu_statusRequested := False,
     lu_pacing := statusCompleted 0 fresh_pacing\<rparr>"

definition idle_worker :: HttpsWorker where
  "idle_worker = snd (worker_begin True (fresh_worker \<lparr>previousOrigin = [], connected = False, completedAt = 0\<rparr>))"

definition sent_pair :: "LiveUpload \<times> HttpsWorker" where
  "sent_pair = (case serviceHttps fake_lfs ok_json small_live 5 (small_upload\<lparr>lu_volatilePayload := ''p''\<rparr>) (blank_volume 0)
     idle_worker small_flash of (u, fs, k, w) \<Rightarrow> (u, k))"

definition answered_pair :: "LiveUpload \<times> HttpsWorker" where
  "answered_pair = (fst sent_pair, worker_publish (worker_perform sample_reply (worker_take 1 (snd sent_pair))))"

lemma idle_worker_reach: "worker_reach idle_worker"
  unfolding worker_reach_def idle_worker_def by (intro exI r_into_rtranclp) (rule w_begin)

lemmas send_defs = serviceHttps_def result_stage_def batch_stage_def send_stage_def choose_work_def next_work_def
  send_snapshots_def build_batch_def send_single_def submitHttps_def request_token_def request_url_def
  status_operation_def restart_required_def

lemma sent_facts: "lu_operation (fst sent_pair) = SnapshotOp" "lu_inFlightPayload (fst sent_pair) = ''p''"
  "notified (snd sent_pair)" "phase (snd sent_pair) = Waiting" "owner (snd sent_pair) = Telemetry"
  "xstate (exchange (snd sent_pair)) = Requested"
proof -
  have w: "lv_wifi small_live small_flash" "\<And>w. lv_wifi small_live w" by (simp_all add: small_live_def LoggerAuthorization.small_ops_def)
  have k: "worker_result Telemetry idle_worker = None" "xidle (exchange idle_worker)" "task idle_worker" "arbiter idle_worker = 0"
    "exchange idle_worker = fresh_exchange" "phase idle_worker = Waiting"
    by (simp_all add: idle_worker_def worker_begin_def fresh_worker_def worker_result_def fresh_exchange_def xidle_def)
  have q: "pendingRecords (lu_queue small_upload) = 0" by (simp add: small_upload_def fresh_upload_def new_queue_def pendingRecords_def)
  have "lu_operation (fst sent_pair) = SnapshotOp \<and> lu_inFlightPayload (fst sent_pair) = ''p'' \<and>
    notified (snd sent_pair) \<and> phase (snd sent_pair) = Waiting \<and> owner (snd sent_pair) = Telemetry \<and>
    xstate (exchange (snd sent_pair)) = Requested"
    using w k q
    by (simp add: sent_pair_def send_defs small_upload_def fresh_upload_def fresh_config_def statusCompleted_def since_def
        worker_submit_def arb_request_def xsubmit_def fits_def fresh_exchange_def kBodyLimit_def dec.simps)
  then show "lu_operation (fst sent_pair) = SnapshotOp" "lu_inFlightPayload (fst sent_pair) = ''p''"
    "notified (snd sent_pair)" "phase (snd sent_pair) = Waiting" "owner (snd sent_pair) = Telemetry"
    "xstate (exchange (snd sent_pair)) = Requested" by blast+
qed

lemma sent_phases: "phase (snd sent_pair) = Waiting" "phase (worker_take 1 (snd sent_pair)) = Holding"
  "phase (worker_perform sample_reply (worker_take 1 (snd sent_pair))) = Ready"
  by (simp_all add: sent_facts worker_take_def xrequested_def worker_perform_def split: prod.splits)

lemma answered_result: "\<exists>res. worker_result Telemetry (snd answered_pair) = Some res \<and> rs_status res = 200 \<and> rs_body res = ''ok''"
  by (auto simp: answered_pair_def worker_publish_def worker_perform_def worker_take_def xrequested_def xresult_of_def
      xcomplete_def worker_result_def sent_facts run_transaction_def sample_reply_def sink_write_def kBodyLimit_def
      reset_result_def Let_def split: prod.splits)

lemma answered_reach: "joint_reach fake_lfs ok_json small_live (fst answered_pair) (snd answered_pair)"
proof -
  let ?u = "small_upload\<lparr>lu_volatilePayload := ''p''\<rparr>"
  have "joint_start ?u idle_worker"
    using idle_worker_reach by (simp add: joint_start_def small_upload_def fresh_upload_def idle_worker_def
        worker_begin_def fresh_worker_def)
  moreover have "joint_step fake_lfs ok_json small_live (?u, idle_worker) sent_pair"
    unfolding sent_pair_def by (simp split: prod.splits) (blast intro: j_turn)
  moreover have "joint_step fake_lfs ok_json small_live sent_pair (fst sent_pair, worker_take 1 (snd sent_pair))"
    using j_take [OF sent_phases(1)] by (metis prod.collapse)
  moreover have "joint_step fake_lfs ok_json small_live (fst sent_pair, worker_take 1 (snd sent_pair))
      (fst sent_pair, worker_perform sample_reply (worker_take 1 (snd sent_pair)))"
    by (rule j_perform [OF sent_phases(2) sample_good])
  moreover have "joint_step fake_lfs ok_json small_live
      (fst sent_pair, worker_perform sample_reply (worker_take 1 (snd sent_pair))) answered_pair"
    unfolding answered_pair_def by (rule j_publish [OF sent_phases(3)])
  ultimately have "(joint_step fake_lfs ok_json small_live)\<^sup>*\<^sup>* (?u, idle_worker) answered_pair"
    by (meson rtranclp.rtrancl_into_rtrancl rtranclp.rtrancl_refl)
  then show ?thesis using \<open>joint_start ?u idle_worker\<close> unfolding joint_reach_def by (metis prod.collapse)
qed

lemma answered_facts: "accepted_now ok_json (fst answered_pair) (snd answered_pair) = {raw ''p''}"
  "lu_operation (fst answered_pair) = SnapshotOp"
proof -
  obtain res where res: "worker_result Telemetry (snd answered_pair) = Some res" "rs_status res = 200" "rs_body res = ''ok''"
    using answered_result by blast
  have u: "lu_operation (fst answered_pair) = SnapshotOp" "lu_inFlightPayload (fst answered_pair) = ''p''"
    by (simp_all add: answered_pair_def sent_facts)
  have "acceptedResponse ok_json 200 ''ok''"
    by (simp add: acceptedResponse_def ok_json_def sample_json_def sample_member_def bool_true_def str_is_def)
  then show "accepted_now ok_json (fst answered_pair) (snd answered_pair) = {raw ''p''}"
    by (simp add: accepted_now_def res u result_accepted_def)
  show "lu_operation (fst answered_pair) = SnapshotOp" by (rule u(1))
qed

subsection \<open>The properties\<close>



end
