(* ===== verification/LiveUploadHistory.thy ===== *)
theory LiveUploadHistory
  imports LiveUploadSystem
begin

section \<open>Records over the life of the upload client\<close>

text \<open>
  What becomes of a captured record: the properties over whole histories of the client (theory
  \<open>LiveUploadSafety\<close>), the turns that take an accepted batch off the queue, and what a record's text
  identifies.
\<close>

subsection \<open>Captured records are accounted for\<close>


definition wide_queue :: Queue where
  "wide_queue = small_queue\<lparr>q_segmentMaximumBytes := 1000\<rparr>"

definition capture_upload :: LiveUpload where
  "capture_upload = small_upload\<lparr>lu_queue := wide_queue\<rparr>"

definition small_state :: "nat AppState" where
  "small_state = \<lparr>st_sensors = [], st_adcReady = True, st_rtcReady = True, st_sdReady = False, st_wifiReady = True,
     st_uptimeMs = 7, st_transportTimestamp = ''2025-01-01T00:00:00Z''\<rparr>"

lemma wide_holds: "holds (fs_content (small_volume n)) wide_queue [] []"
proof -
  have "fs_content (small_volume n) (segmentPath s) = Some []" for s
    by (cases s; simp add: small_volume_def fs_content_def segmentPath_def)
  then show ?thesis by (simp add: holds_def seg_ok_def wide_queue_def small_queue_def new_queue_def empty_metadata_def)
qed

lemma fake_write:
  "fs_content fs p = Some c \<Longrightarrow> fs_writeLimit fs = None \<Longrightarrow>
   f_write fake_lfs p d fs = (length d, fs_put p (c @ d) (fs\<lparr>fs_writeLimit := None\<rparr>))"
  by (simp add: fake_lfs_def)

lemma wide_enqueue:
  assumes "p \<noteq> []" "length p \<le> 900"
  shows "fst (enqueue fake_lfs p wide_queue (small_volume n))"
proof -
  let ?s = "segmentPath (activeSegment (q_meta wide_queue))"
  have F: "fs_content (small_volume n) (segmentPath s) = Some []" for s
    by (cases s; simp add: small_volume_def fs_content_def segmentPath_def)
  have w: "fs_writeLimit (small_volume n) = None" by (simp add: small_volume_def blank_volume_def)
  have q: "q_ready wide_queue" "q_segmentMaximumBytes wide_queue = 1000" "q_tail wide_queue = (\<lambda>s. 0)"
    by (simp_all add: wide_queue_def small_queue_def new_queue_def)
  have o: "open_append fake_lfs ?s (small_volume n) = (True, small_volume n)" by (simp add: fake_lfs_def F)
  define v where "v = fs_put ?s (record_header p) ((small_volume n)\<lparr>fs_writeLimit := None\<rparr>)"
  have h: "f_write fake_lfs ?s (record_header p) (small_volume n) = (length (record_header p), v)"
    using fake_write [OF F w] by (simp add: v_def)
  have v: "fs_content v ?s = Some (record_header p)" "fs_writeLimit v = None"
    by (simp add: v_def fs_content_put) (simp add: v_def fs_put_def)
  obtain f where "append_record fake_lfs ?s p (small_volume n) = (True, f)"
    by (simp add: append_record_def h fake_write [OF v])
  then show ?thesis using assms by (simp add: enqueue_def q Let_def kMaximumPayloadBytes_def o)
qed

definition captured_run :: "LiveUpload \<times> fake_fs \<times> bytes set \<times> bytes list" where
  "captured_run = the (live_run fake_lfs ok_json small_live
     [Capture small_state small_flash, Turn 5 idle_worker small_flash] (capture_upload, small_volume 0, {}, []))"

lemma captured_run_ok:
  "live_run fake_lfs ok_json small_live [Capture small_state small_flash, Turn 5 idle_worker small_flash]
     (capture_upload, small_volume 0, {}, []) = Some captured_run"
  "snd (snd (snd captured_run)) = [snapshot_bytes small_live small_state capture_upload]"
proof -
  define x where "x = buildSnapshotJson small_live small_state 1 capture_upload"
  have "x \<noteq> [] \<and> length x \<le> 900" unfolding x_def by code_simp
  then have "fst (enqueue fake_lfs (raw x) wide_queue (small_volume 0))"
    by (intro wide_enqueue) (simp_all add: raw_def)
  then obtain q f where e: "enqueue fake_lfs (raw x) wide_queue (small_volume 0) = (True, q, f)" by (metis prod.collapse)
  have u: "lu_queue capture_upload = wide_queue" "q_ready wide_queue" "\<not> capture_blocked capture_upload"
    "lu_lastSequence capture_upload = 0"
    by (simp_all add: capture_upload_def wide_queue_def small_queue_def capture_blocked_def small_upload_def fresh_upload_def)
  have same: "buildSnapshotJson small_live small_state 1 (capture_upload\<lparr>lu_lastPublishMs := t\<rparr>) = x" for t
    by (simp add: x_def buildSnapshotJson_def)
  obtain u1 where c: "captureHttps fake_lfs ok_json small_live small_state capture_upload (small_volume 0) small_flash = (True, u1, f)"
    by (simp add: captureHttps_def u x_def [symmetric] e Let_def)
  have "snapshot_bytes small_live small_state capture_upload = raw x" by (simp add: snapshot_bytes_def u x_def)
  then have "\<exists>s. live_run fake_lfs ok_json small_live [Capture small_state small_flash, Turn 5 idle_worker small_flash]
     (capture_upload, small_volume 0, {}, []) = Some s \<and> snd (snd (snd s)) = [snapshot_bytes small_live small_state capture_upload]"
    by (simp add: c split: prod.splits)
  then show "live_run fake_lfs ok_json small_live [Capture small_state small_flash, Turn 5 idle_worker small_flash]
     (capture_upload, small_volume 0, {}, []) = Some captured_run"
    "snd (snd (snd captured_run)) = [snapshot_bytes small_live small_state capture_upload]"
    by (auto simp: captured_run_def)
qed


subsection \<open>Taking an accepted batch off the queue\<close>

text \<open>
  The turns \<open>serviceHttps\<close> spends on an accepted batch, at most \<open>n\<close> of them: whether the batch was
  finished, how many turns failed to commit, and the client and the volume after them.
\<close>

fun batch_turns :: "'fs lfs_ops \<Rightarrow> 'd json_ops \<Rightarrow> nat \<Rightarrow> LiveUpload \<Rightarrow> 'fs \<Rightarrow> bool \<times> nat \<times> LiveUpload \<times> 'fs" where
  "batch_turns L J 0 u fs = (False, 0, u, fs)"
| "batch_turns L J (Suc n) u fs =
     (case batch_stage L J u fs of
        (True, u', fs') \<Rightarrow> (True, 0, u', fs')
      | (False, u', fs') \<Rightarrow>
          (case batch_turns L J n u' fs' of (finished, missed, v) \<Rightarrow>
             (finished, if lu_batchAckIndex u' = lu_batchAckIndex u then missed + 1 else missed, v)))"

lemma sample_epoch_queue: "lu_queue (sample_epoch J p u) = lu_queue u" "batch_part (sample_epoch J p u) = batch_part u"
  by (auto simp: sample_epoch_def batch_part_def split: option.splits)

definition batch_rest :: "LiveUpload \<Rightarrow> bytes list" where
  "batch_rest u = map raw (drop (lu_batchAckIndex u) (lu_batchRecords u))"

lemma batch_stage_step:
  assumes "lu_batchAcknowledged u" "batch_stage L J u fs = (False, u', fs')"
  shows "lu_batchAcknowledged u'" "lu_batchRecords u' = lu_batchRecords u" "lu_batchAckIndex u < length (lu_batchRecords u)"
    "lu_batchAckIndex u' = lu_batchAckIndex u \<or> lu_batchAckIndex u' = lu_batchAckIndex u + 1"
proof -
  define r where "r = lu_batchRecords u ! lu_batchAckIndex u"
  obtain b q f where p: "popIfMatches L (raw r) False (lu_queue u) fs = (b, q, f)" by (metis prod.exhaust)
  have "lu_batchAckIndex u < length (lu_batchRecords u) \<and>
      u' = (if b then (sample_epoch J r (u\<lparr>lu_queue := q\<rparr>))\<lparr>lu_batchAckIndex := lu_batchAckIndex u + 1\<rparr>
        else set_error ''Batch queue acknowledgement persistence failed'' (u\<lparr>lu_queue := q\<rparr>))"
    using assms p by (auto simp: batch_stage_def Let_def r_def split: if_splits bool.splits)
  then show "lu_batchAcknowledged u'" "lu_batchRecords u' = lu_batchRecords u"
    "lu_batchAckIndex u < length (lu_batchRecords u)"
    "lu_batchAckIndex u' = lu_batchAckIndex u \<or> lu_batchAckIndex u' = lu_batchAckIndex u + 1"
    using sample_epoch_queue(2) [of J r "u\<lparr>lu_queue := q\<rparr>"] assms(1) by (auto simp: batch_part_def)
qed

lemma batch_stage_last:
  assumes "lu_batchAcknowledged u" "batch_stage L J u fs = (True, u', fs')"
  shows "length (lu_batchRecords u) \<le> lu_batchAckIndex u" "\<not> lu_batchAcknowledged u'" "lu_batchRecords u' = []" "fs' = fs"
    "queue_kept u u'"
proof -
  let ?v = "(clear_batch u)\<lparr>lu_batchAcknowledged := False\<rparr>"
  have r: "length (lu_batchRecords u) \<le> lu_batchAckIndex u" "fs' = fs" "u' = refreshQueueOldest L J ?v fs"
    using assms by (auto simp: batch_stage_def Let_def split: if_splits prod.splits bool.splits)
  show "length (lu_batchRecords u) \<le> lu_batchAckIndex u" "fs' = fs" by (fact r)+
  show "\<not> lu_batchAcknowledged u'" "lu_batchRecords u' = []"
    using refresh_parts(1) [of L J ?v fs] by (auto simp: r(3) clear_batch_def batch_part_def)
  show "queue_kept u u'" using refresh_queue [of L J ?v fs] by (simp add: r(3) clear_batch_def)
qed

lemma batch_turns_end:
  assumes "lu_batchAcknowledged u" "batch_turns L J n u fs = (finished, missed, u', fs')"
  shows "(n \<le> length (lu_batchRecords u) - lu_batchAckIndex u + missed \<or> finished) \<and>
    (finished \<longrightarrow> \<not> lu_batchAcknowledged u' \<and> lu_batchRecords u' = [])"
  using assms
proof (induction n arbitrary: u fs missed)
  case (Suc n)
  obtain b u1 f1 where s: "batch_stage L J u fs = (b, u1, f1)" by (metis prod.exhaust)
  show ?case
  proof (cases b)
    case True
    then show ?thesis using Suc.prems batch_stage_last [of u L J fs u1 f1] by (auto simp: s)
  next
    case False
    have s': "batch_stage L J u fs = (False, u1, f1)" using s False by simp
    note S = batch_stage_step [OF Suc.prems(1) s']
    obtain m where m: "batch_turns L J n u1 f1 = (finished, m, u', fs')"
      "missed = (if lu_batchAckIndex u1 = lu_batchAckIndex u then m + 1 else m)"
      using Suc.prems(2) False by (auto simp: s split: prod.splits)
    show ?thesis using Suc.IH [OF S(1) m(1)] S(2-4) m(2) by auto
  qed
qed simp

context flash
begin

text \<open>A turn that takes the record off leaves the rest.\<close>

lemma batch_stage_turn:
  assumes "pending (files fs) u (batch_rest u @ ps)" "lu_batchAcknowledged u" "batch_stage L J u fs = (False, u', fs')"
    "lu_batchAckIndex u' \<noteq> lu_batchAckIndex u"
  shows "pending (files fs') u' (batch_rest u' @ ps) \<and> lost_count u' = lost_count u"
proof -
  let ?i = "lu_batchAckIndex u"
  define r where "r = lu_batchRecords u ! ?i"
  note S = batch_stage_step [OF assms(2,3)]
  obtain b q f where p: "popIfMatches L (raw r) False (lu_queue u) fs = (b, q, f)" by (metis prod.exhaust)
  have b: "b" "fs' = f" "lu_queue u' = q"
    using assms(2-4) p S(3) by (auto simp: batch_stage_def Let_def r_def sample_epoch_queue split: bool.splits)
  have rest: "batch_rest u = raw r # batch_rest u'"
    using S assms(4) by (simp add: batch_rest_def r_def Cons_nth_drop_Suc [symmetric])
  obtain old new where H: "holds (files fs) (lu_queue u) old new" "batch_rest u @ ps = old @ new"
    using assms(1) by (auto simp: pending_def)
  have h: "old @ new \<noteq> []" "hd (old @ new) = raw r" using rest by (simp_all add: H(2) [symmetric])
  obtain old' new' where P: "holds (files f) q old' new'" "old' @ new' = tl (old @ new)"
    "droppedRecords (q_meta q) = droppedRecords (q_meta (lu_queue u))"
    using popIfMatches_law [OF H(1) p] b(1) h by auto
  have "batch_rest u' @ ps = old' @ new'" using P(2) rest by (simp add: H(2) [symmetric])
  then show ?thesis using P(1,3) b by (auto simp: pending_def lost_count_def)
qed

lemma batch_turns_settle:
  assumes "pending (files fs) u (batch_rest u @ ps)" "lu_batchAcknowledged u"
    and "batch_turns L J n u fs = (True, 0, u', fs')"
  shows "pending (files fs') u' ps \<and> lost_count u' = lost_count u"
  using assms
proof (induction n arbitrary: u fs)
  case (Suc n)
  obtain b u1 f1 where s: "batch_stage L J u fs = (b, u1, f1)" by (metis prod.exhaust)
  show ?case
  proof (cases b)
    case True
    then have r: "u' = u1" "fs' = f1" using Suc.prems(3) by (simp_all add: s)
    have s': "batch_stage L J u fs = (True, u1, f1)" using s True by simp
    note T = batch_stage_last [OF Suc.prems(2) s']
    have "batch_rest u = []" using T(1) by (simp add: batch_rest_def)
    then show ?thesis using Suc.prems(1) pending_error [OF T(5)] by (simp add: r T(4))
  next
    case False
    have m: "batch_turns L J n u1 f1 = (True, 0, u', fs')" "lu_batchAckIndex u1 \<noteq> lu_batchAckIndex u"
      using Suc.prems(3) False by (auto simp: s split: prod.splits if_splits)
    have s': "batch_stage L J u fs = (False, u1, f1)" using s False by simp
    show ?thesis
      using Suc.IH [OF _ batch_stage_step(1) [OF Suc.prems(2) s'] m(1)] batch_stage_turn [OF Suc.prems(1,2) s' m(2)] by simp
  qed
qed simp

end


definition acknowledged_upload :: LiveUpload where
  "acknowledged_upload = small_upload\<lparr>lu_queue := fst (one_record 0), lu_batchRecords := [unraw [1]], lu_batchAcknowledged := True\<rparr>"

lemma one_record_holds:
  "\<exists>old new. holds (fs_content (snd (one_record 0))) (fst (one_record 0)) old new \<and> old @ new = [[1]]"
proof -
  obtain ps where ps: "durable (fs_content (snd (one_record 0))) (fst (one_record 0)) ps"
    "conserved [] (droppedRecords (q_meta small_queue)) [Enqueue [1]] ps (droppedRecords (q_meta (fst (one_record 0))))"
    using fake_volume.run_conserved [OF small_durable one_record_run] by blast
  then obtain old new where h: "holds (fs_content (snd (one_record 0))) (fst (one_record 0)) old new" "ps = old @ new"
    by (auto simp: durable_def)
  obtain g where g: "[[1]] = g @ ps" using ps(2) by (auto simp: conserved_def)
  have "pendingRecords (fst (one_record 0)) = 1" by code_simp
  then have "length ps = 1" using holds_pending [OF h(1)] h(2) by simp
  then have "old @ new = [[1]]" using g h(2) by (cases g) (auto simp: Cons_eq_append_conv)
  then show ?thesis using h(1) by metis
qed


subsection \<open>What a record's text identifies\<close>

text \<open>A reader of the characters of a JSON text up to its closing quote, with what follows it.\<close>

definition unescape_char :: "char \<Rightarrow> char option" where
  "unescape_char c =
     (if c = CHR 0x5C \<or> c = CHR 0x22 \<or> c = CHR ''/'' then Some c
      else if c = CHR ''n'' then Some (CHR 0x0A) else if c = CHR ''r'' then Some (CHR 0x0D)
      else if c = CHR ''t'' then Some (CHR 0x09) else if c = CHR ''b'' then Some (CHR 0x08)
      else if c = CHR ''f'' then Some (CHR 0x0C) else None)"

fun read_text :: "string \<Rightarrow> (string \<times> string) option" where
  "read_text [] = None"
| "read_text (c # cs) =
     (if c = CHR 0x22 then Some ([], cs)
      else if c = CHR 0x5C
      then (case cs of [] \<Rightarrow> None
        | e # cs' \<Rightarrow> (case (unescape_char e, read_text cs') of
            (Some d, Some (s, rest)) \<Rightarrow> Some (d # s, rest) | _ \<Rightarrow> None))
      else (case read_text cs of Some (s, rest) \<Rightarrow> Some (c # s, rest) | None \<Rightarrow> None))"

lemma read_text_escape: "read_text (jsonEscape s @ CHR 0x22 # rest) = Some (s, rest)"
  by (induction s) (auto simp: jsonEscape_def unescape_char_def)

lemma jtext_cancel:
  assumes "jtext k v @ r = jtext k v' @ r'"
  shows "v = v' \<and> r = r'"
proof -
  have "read_text (jsonEscape v @ CHR 0x22 # r) = read_text (jsonEscape v' @ CHR 0x22 # r')"
    using assms by (simp add: jtext_def quoted_def)
  then show ?thesis by (simp add: read_text_escape)
qed

lemma u32_cancel:
  assumes "u32_text a @ CHR '','' # r = u32_text b @ CHR '','' # r'"
  shows "a = b \<and> r = r'"
proof -
  have d: "CHR '','' \<notin> set (u32_text v)" for v
    using dec_digits [of "CHR '',''" "unat v"] by (auto simp: u32_text_def is_digit_def code_def)
  have t: "takeWhile (\<lambda>c. c \<noteq> CHR '','') (u32_text v @ CHR '','' # x) = u32_text v" for v x
    using d [of v] by (subst takeWhile_append2) auto
  have "u32_text a = u32_text b" using arg_cong [OF assms, of "takeWhile (\<lambda>c. c \<noteq> CHR '','')"] by (simp only: t)
  then show ?thesis using assms by (simp add: u32_text_def word_unat_eq_iff)
qed

lemma snapshot_prefix:
  "\<exists>x. buildSnapshotJson V st n u = ''{'' @ jkey ''schema_version'' @ ''1,'' @ jtext ''device_id'' (lu_deviceId u) @
     CHR '','' # jtext ''session_id'' (lu_sessionId u) @ CHR '','' # jkey ''sequence'' @ u32_text n @ CHR '','' # x"
  by (simp add: buildSnapshotJson_def)

text \<open>
  C26: A record's bytes identify it: the payloads of two snapshots that differ in the device, the
  session or the sequence number differ, whatever the sensors' names and the timestamps contain. So an
  acknowledgement, which removes a record only if its bytes equal the submitted ones, cannot remove
  another record of the queue.
\<close>

theorem snapshot_identifies_record:
  assumes "(lu_deviceId u, lu_sessionId u, n) \<noteq> (lu_deviceId u', lu_sessionId u', m)"
  shows "raw (buildSnapshotJson V st n u) \<noteq> raw (buildSnapshotJson V' st' m u')"
proof
  assume "raw (buildSnapshotJson V st n u) = raw (buildSnapshotJson V' st' m u')"
  then have eq: "buildSnapshotJson V st n u = buildSnapshotJson V' st' m u'" by simp
  obtain x where x: "buildSnapshotJson V st n u = ''{'' @ jkey ''schema_version'' @ ''1,'' @
      jtext ''device_id'' (lu_deviceId u) @ CHR '','' # jtext ''session_id'' (lu_sessionId u) @ CHR '','' #
      jkey ''sequence'' @ u32_text n @ CHR '','' # x" using snapshot_prefix by blast
  obtain y where y: "buildSnapshotJson V' st' m u' = ''{'' @ jkey ''schema_version'' @ ''1,'' @
      jtext ''device_id'' (lu_deviceId u') @ CHR '','' # jtext ''session_id'' (lu_sessionId u') @ CHR '','' #
      jkey ''sequence'' @ u32_text m @ CHR '','' # y" using snapshot_prefix by blast
  have 1: "jtext ''device_id'' (lu_deviceId u) @ CHR '','' # jtext ''session_id'' (lu_sessionId u) @ CHR '','' #
      jkey ''sequence'' @ u32_text n @ CHR '','' # x = jtext ''device_id'' (lu_deviceId u') @ CHR '','' #
      jtext ''session_id'' (lu_sessionId u') @ CHR '','' # jkey ''sequence'' @ u32_text m @ CHR '','' # y"
    using eq unfolding x y by simp
  then have 2: "jtext ''session_id'' (lu_sessionId u) @ CHR '','' # jkey ''sequence'' @ u32_text n @ CHR '','' # x =
      jtext ''session_id'' (lu_sessionId u') @ CHR '','' # jkey ''sequence'' @ u32_text m @ CHR '','' # y"
    using jtext_cancel by blast
  then have "u32_text n @ CHR '','' # x = u32_text m @ CHR '','' # y" using jtext_cancel by blast
  then have "n = m" using u32_cancel by blast
  moreover have "lu_deviceId u = lu_deviceId u'" "lu_sessionId u = lu_sessionId u'"
    using jtext_cancel [OF 1] jtext_cancel [OF 2] by simp_all
  ultimately show False using assms by simp
qed

theorem snapshot_identifies_record_witness:
  "raw (buildSnapshotJson small_live small_state 1 small_upload) \<noteq> raw (buildSnapshotJson small_live small_state 2 small_upload)"
  by (rule snapshot_identifies_record) simp

end
