(* ===== verification/RemoteManagement.thy ===== *)
theory RemoteManagement
  imports LiveUploadSystem
begin

section \<open>RemoteManagement: desired settings from the server to the flash\<close>

text \<open>
  The part of \<open>logger/firmware/src/logger_main.cpp\<close> that joins the upload client with the runtime
  settings: what the client reports at start-up, and the step of \<open>loop()\<close> that applies a pending
  configuration and restarts the device. The desired state arrives as an MQTT message or with the
  answer to an HTTPS status; in between the client may do anything that keeps the settings alone.
\<close>

subsection \<open>The steps of the main program\<close>

definition report_settings :: "RuntimeSettings \<Rightarrow> LiveUpload \<Rightarrow> LiveUpload" where
  "report_settings s u = setReportedConfig (rs_uploadEnabled s) (Some (rs_ntpPrimary s)) (Some (rs_ntpSecondary s))
     (Some (rs_timeZoneRule s)) (Some (rs_timeZoneLabel s)) u"

text \<open>The first component says whether the device restarts.\<close>

definition manage_config ::
  "'e eeprom_ops \<Rightarrow> ('w, 'f) live_ops \<Rightarrow> 'd json_ops \<Rightarrow> LiveUpload \<Rightarrow> 'w \<Rightarrow> RuntimeSettings \<Rightarrow> 'e \<Rightarrow>
   bool \<times> LiveUpload \<times> 'w \<times> RuntimeSettings \<times> 'e" where
  "manage_config E V J u w s e =
     (case consumeRemoteConfig u of
        (None, u) \<Rightarrow> (False, u, w, s, e)
      | (Some remoteConfig, u) \<Rightarrow>
          (case applyRemoteConfig E remoteConfig s e of
             (True, s, e) \<Rightarrow>
               (case acknowledgeRemoteConfig V J (rc_version remoteConfig) (report_settings s u) w of
                  (u, w) \<Rightarrow> (True, u, w, s, e))
           | (False, s, e) \<Rightarrow> (False, rejectRemoteConfig u, w, s, e)))"

datatype ManagementEvent = Message "string \<times> string" | Answer string | Manage

fun management_run ::
  "'e eeprom_ops \<Rightarrow> ('w, 'f) live_ops \<Rightarrow> 'd json_ops \<Rightarrow> ManagementEvent list \<Rightarrow>
   LiveUpload \<Rightarrow> 'w \<Rightarrow> RuntimeSettings \<Rightarrow> 'e \<Rightarrow> bool \<times> LiveUpload \<times> 'w \<times> RuntimeSettings \<times> 'e" where
  "management_run E V J [] u w s e = (False, u, w, s, e)"
| "management_run E V J (Message m # xs) u w s e =
     (case handleMqttMessage (lv_prefs V) J m u w of (u, w) \<Rightarrow> management_run E V J xs u w s e)"
| "management_run E V J (Answer body # xs) u w s e =
     (case consumeHttpsDesiredConfig (lv_prefs V) J body u w of (u, w) \<Rightarrow> management_run E V J xs u w s e)"
| "management_run E V J (Manage # xs) u w s e =
     (case manage_config E V J u w s e of
        (True, u, w, s, e) \<Rightarrow> (True, u, w, s, e)
      | (False, u, w, s, e) \<Rightarrow> management_run E V J xs u w s e)"

subsection \<open>What a payload asks for\<close>

definition configures :: "'d json_ops \<Rightarrow> string \<Rightarrow> string \<Rightarrow> RemoteConfig \<Rightarrow> bool" where
  "configures J deviceId payload c \<longleftrightarrow>
     (\<exists>document. deserialize J kRemoteConfigJsonCapacity None payload = Some document \<and> for_device J deviceId document \<and>
        rc_version c = to_unsigned J (member J document ''config_version'') \<and>
        (let settings = member J document ''settings'' in
         as_bool J (member J settings ''upload_enabled'') = Some (rc_uploadEnabled c) \<and>
         as_str J (member J settings ''ntp_primary'') = Some (rc_ntpPrimary c) \<and>
         as_str J (member J settings ''ntp_secondary'') = Some (rc_ntpSecondary c) \<and>
         as_str J (member J settings ''tz_rule'') = Some (rc_timeZoneRule c) \<and>
         as_str J (member J settings ''tz_label'') = Some (rc_timeZoneLabel c)))"

definition in_force :: "RemoteConfig \<Rightarrow> RuntimeSettings \<Rightarrow> bool" where
  "in_force c s \<longleftrightarrow> rs_appliedConfigVersion s = rc_version c \<and> rs_uploadEnabled s = rc_uploadEnabled c \<and>
     rs_ntpPrimary s = rc_ntpPrimary c \<and> rs_ntpSecondary s = rc_ntpSecondary c \<and>
     rs_timeZoneRule s = rc_timeZoneRule c \<and> rs_timeZoneLabel s = rc_timeZoneLabel c"

definition reports :: "LiveUpload \<Rightarrow> RuntimeSettings \<Rightarrow> bool" where
  "reports u s \<longleftrightarrow> lu_appliedConfigVersion u = rs_appliedConfigVersion s \<and>
     lu_reported u = \<lparr>rp_uploadEnabled = rs_uploadEnabled s, rp_ntpPrimary = rs_ntpPrimary s,
       rp_ntpSecondary = rs_ntpSecondary s, rp_timeZoneRule = rs_timeZoneRule s, rp_timeZoneLabel = rs_timeZoneLabel s\<rparr>"

text \<open>The payloads of the desired state in a history.\<close>

fun announced :: "'d json_ops \<Rightarrow> ManagementEvent \<Rightarrow> string set" where
  "announced J (Message m) = {snd m}"
| "announced J (Answer body) =
     (case deserialize J kHttpsResponseJsonCapacity None body of None \<Rightarrow> {}
      | Some document \<Rightarrow> {render J (member J document ''desired_config'')})"
| "announced J Manage = {}"

text \<open>A pending configuration that is complete, from one of the payloads in \<open>X\<close>.\<close>

definition complete_config :: "RemoteConfig \<Rightarrow> bool" where
  "complete_config c \<longleftrightarrow> rc_hasUploadEnabled c \<and> rc_ntpPrimary c \<noteq> [] \<and> rc_ntpSecondary c \<noteq> [] \<and>
     rc_timeZoneRule c \<noteq> [] \<and> rc_timeZoneLabel c \<noteq> []"

definition pending_from :: "'d json_ops \<Rightarrow> string set \<Rightarrow> LiveUpload \<Rightarrow> bool" where
  "pending_from J X u \<longleftrightarrow> (\<forall>c. lu_pendingRemoteConfig u = Some c \<longrightarrow>
     complete_config c \<and> (\<exists>payload\<in>X. configures J (lu_deviceId u) payload c))"

definition managed :: "LiveUpload \<Rightarrow> u32 \<times> string \<times> ReportedConfig" where
  "managed u = (lu_appliedConfigVersion u, lu_deviceId u, lu_reported u)"

lemma parse_configures:
  assumes "parseRemoteConfig J payload u = Some c"
  shows "configures J (lu_deviceId u) payload c \<and> complete_config c"
  using assms
  by (auto simp: parseRemoteConfig_def parse_settings_def configures_def complete_config_def validRemoteText_def Let_def
      split: if_splits option.splits)

subsection \<open>Taking the desired state\<close>

text \<open>\<open>takes J X u u'\<close>: the reported state is untouched, and a new pending configuration is from \<open>X\<close>.\<close>

definition takes :: "'d json_ops \<Rightarrow> string set \<Rightarrow> LiveUpload \<Rightarrow> LiveUpload \<Rightarrow> bool" where
  "takes J X u u' \<longleftrightarrow> managed u' = managed u \<and> (lu_pendingRemoteConfig u' = lu_pendingRemoteConfig u \<or> pending_from J X u')"

lemma takes_same [intro]:
  "managed u' = managed u \<Longrightarrow> lu_pendingRemoteConfig u' = lu_pendingRemoteConfig u \<Longrightarrow> takes J X u u'"
  by (simp add: takes_def)

lemma takes_trans: "takes J X u v \<Longrightarrow> takes J X v x \<Longrightarrow> takes J X u x"
  by (auto simp: takes_def pending_from_def managed_def)

lemma takes_pending: "takes J X u u' \<Longrightarrow> pending_from J Y u \<Longrightarrow> pending_from J (X \<union> Y) u'"
  by (auto simp: takes_def pending_from_def managed_def)

lemma assignment_takes: "parseAssignment J a u = (b, u') \<Longrightarrow> takes J X u u'"
  by (auto simp: parseAssignment_def managed_def Let_def split: if_splits)

lemma rotation_takes: "parseCredentialRotation P J r u w = (b, u', w') \<Longrightarrow> takes J X u u'"
  by (auto simp: parseCredentialRotation_def managed_def Let_def split: if_splits option.splits prod.splits)

lemma accepted_takes:
  assumes "version > lu_appliedConfigVersion u \<Longrightarrow> \<exists>c. candidate = Some c \<and> complete_config c \<and> configures J (lu_deviceId u) payload c"
  shows "takes J {payload} u (desired_accepted version candidate u)"
  using assms by (auto simp: desired_accepted_def takes_def managed_def pending_from_def)

lemma document_takes:
  assumes "consume_document P J payload document version u w = (b, u', w')"
  shows "takes J {payload} u u'"
proof -
  let ?newer = "version > lu_appliedConfigVersion u"
  define candidate where "candidate = (if ?newer then parseRemoteConfig J payload u else None)"
  obtain b1 u1 where a: "parseAssignment J (member J document ''assignment'') u = (b1, u1)" by fastforce
  obtain b2 u2 w2 where r: "parseCredentialRotation P J (member J document ''credential_rotation'') u1 w = (b2, u2, w2)"
    by (metis prod.exhaust)
  have t: "takes J {payload} u u1" "takes J {payload} u u2"
    using assignment_takes [OF a] takes_trans [OF assignment_takes [OF a] rotation_takes [OF r]] by blast+
  have "u' \<in> {u, u1, u2} \<or> ((?newer \<longrightarrow> candidate \<noteq> None) \<and> u' = desired_accepted version candidate u2)"
    using assms unfolding consume_document_def Let_def candidate_def [symmetric] a
    by (auto simp: r split: if_splits bool.splits)
  then show ?thesis
  proof
    assume c: "(?newer \<longrightarrow> candidate \<noteq> None) \<and> u' = desired_accepted version candidate u2"
    have m: "lu_appliedConfigVersion u2 = lu_appliedConfigVersion u" "lu_deviceId u2 = lu_deviceId u"
      using t(2) by (simp_all add: takes_def managed_def)
    have "takes J {payload} u2 u'"
      using c parse_configures [of J payload u]
      by (auto simp: m candidate_def intro!: accepted_takes split: if_splits)
    then show ?thesis using takes_trans [OF t(2)] by blast
  qed (use t in auto)
qed

lemma desired_takes: "consumeDesiredState P J payload u w = (b, u', w') \<Longrightarrow> takes J {payload} u u'"
proof -
  assume a: "consumeDesiredState P J payload u w = (b, u', w')"
  have "u' = u \<or> (\<exists>document v d. consume_document P J payload document v (u\<lparr>lu_diagnostics := d\<rparr>) w = (b, u', w'))"
    using a by (auto simp: consumeDesiredState_def split: if_splits option.splits)
  then show ?thesis
  proof
    assume "\<exists>document v d. consume_document P J payload document v (u\<lparr>lu_diagnostics := d\<rparr>) w = (b, u', w')"
    then obtain document v d where
      "consume_document P J payload document v (u\<lparr>lu_diagnostics := d\<rparr>) w = (b, u', w')" by blast
    from document_takes [OF this] have "takes J {payload} (u\<lparr>lu_diagnostics := d\<rparr>) u'" .
    then show ?thesis by (simp add: takes_def managed_def)
  qed auto
qed

lemma take_takes: "take_desired P J payload u w = (u', w') \<Longrightarrow> takes J {payload} u u'"
  unfolding take_desired_def
  by (auto split: prod.splits bool.splits dest!: desired_takes simp: reject_desired_def takes_def managed_def pending_from_def)

lemma message_takes: "handleMqttMessage P J m u w = (u', w') \<Longrightarrow> takes J (announced J (Message m)) u u'"
  by (auto simp: handleMqttMessage_def dest: take_takes split: if_splits)

lemma capability_takes: "takes J X u (set_batch_capability c u)"
  by (auto simp: set_batch_capability_def clear_batch_def managed_def Let_def)

lemma stage_takes: "stage_authorization P J d u w = (b, u', w') \<Longrightarrow> takes J X u u'"
  by (auto simp: stage_authorization_def managed_def split: option.splits prod.splits)

lemma refused_takes: "takes J X u (rotation_refused u)"
  by (auto simp: rotation_refused_def managed_def)

lemma provisioned_takes: "stage_provisioned P J d u w = (u', w') \<Longrightarrow> takes J X u u'"
  unfolding stage_provisioned_def
  by (auto split: if_splits prod.splits bool.splits dest!: rotation_takes [where X = X] intro: takes_trans refused_takes)

lemma answer_takes: "consumeHttpsDesiredConfig P J body u w = (u', w') \<Longrightarrow> takes J (announced J (Answer body)) u u'"
  unfolding consumeHttpsDesiredConfig_def Let_def
  by (auto split: if_splits option.splits prod.splits bool.splits
      dest!: stage_takes provisioned_takes take_takes
      intro: capability_takes takes_trans [OF capability_takes] takes_trans [OF capability_takes takes_trans]
        takes_trans [OF capability_takes takes_trans [OF _ refused_takes]])

subsection \<open>Applying it\<close>

text \<open>A restart of the settings component: whatever it was, it comes up with \<open>s\<close>.\<close>

definition boots_with :: "'e eeprom_ops \<Rightarrow> UploadDefaults \<Rightarrow> 'e \<Rightarrow> RuntimeSettings \<Rightarrow> bool" where
  "boots_with E d e s \<longleftrightarrow> (\<forall>u m. fst (settings_begin E d u m fresh_settings e) = s)"

lemma apply_in_force:
  assumes "applyRemoteConfig E c s e = (True, s1, e1)" "complete_config c"
  shows "in_force c s1" "rs_appliedConfigVersion s < rc_version c"
  using assms
  by (auto simp: applyRemoteConfig_def settings_save_def Let_def complete_config_def in_force_def apply_record_def not_le
      split: if_splits prod.splits bool.splits)

lemma apply_rejected: "applyRemoteConfig E c s e = (False, s1, e1) \<Longrightarrow> s1 = s"
  by (auto simp: applyRemoteConfig_def settings_save_def Let_def split: if_splits prod.splits bool.splits)

lemma apply_boots:
  assumes "eeprom E contents" "wf_settings s" "rs_defaults s = d" "applyRemoteConfig E c s e = (True, s1, e1)"
  shows "boots_with E d e1 (s1 :: RuntimeSettings)"
proof -
  have n: "\<not> (\<not> rs_remoteManagementEnabled s \<or> rc_version c \<le> rs_appliedConfigVersion s)"
    using assms(4) by (auto simp: applyRemoteConfig_def split: if_splits)
  obtain r where r: "filled_record r" "s1 = apply_record r s" "contents e1 = encode_record r"
    using save_cases [OF assms(1,2) assms(4) [unfolded applyRemoteConfig_def if_not_P [OF n]]] by auto
  have "fst (settings_begin E d u m fresh_settings e1) = s1" for u m
  proof -
    obtain s2 e2 where b: "settings_begin E d u m fresh_settings e1 = (s2, e2)" by fastforce
    have "s2 = apply_record r (fresh_settings\<lparr>rs_defaults := d\<rparr>)"
      using eeprom.begin_boots [OF assms(1) b] r(1,3) by (auto simp: boot_encode)
    then show ?thesis using apply_record_same [of "fresh_settings\<lparr>rs_defaults := d\<rparr>" s r] assms(3) by (simp add: b r(2))
  qed
  then show ?thesis by (simp add: boots_with_def)
qed

lemma status_managed: "publishStatus V J online u w = (b, u', w') \<Longrightarrow> managed u' = managed u"
  by (auto simp: publishStatus_def mqtt_status_def managed_def split: if_splits prod.splits bool.splits)

lemma acknowledge_reports:
  assumes "acknowledgeRemoteConfig V J v (report_settings s u) w = (u', w')" "rs_appliedConfigVersion s = v"
  shows "reports u' s" "lu_deviceId u' = lu_deviceId u"
proof -
  let ?v = "(report_settings s u)\<lparr>lu_appliedConfigVersion := v,
    lu_diagnostics := configurationApplied v (lu_diagnostics (report_settings s u)),
    lu_managementStatus := ''applied'', lu_managementError := []\<rparr>"
  have "u' = ?v \<or> (\<exists>b. publishStatus V J True ?v w = (b, u', w'))"
    using assms(1) by (auto simp: acknowledgeRemoteConfig_def Let_def split: if_splits) (metis prod.collapse)+
  then have "managed u' = managed ?v" by (auto dest: status_managed)
  then show "reports u' s" "lu_deviceId u' = lu_deviceId u"
    using assms(2) by (auto simp: managed_def reports_def report_settings_def setReportedConfig_def Let_def)
qed

lemma run_manages:
  assumes "eeprom E contents" "wf_settings s" "rs_defaults s = d" "reports u s" "pending_from J X u"
    and "management_run E V J xs u w s e = (restart, u', w', s', e')"
  shows "reports u' s' \<and> lu_deviceId u' = lu_deviceId u \<and>
    (if restart then rs_appliedConfigVersion s < rs_appliedConfigVersion s' \<and> boots_with E d e' s' \<and>
       (\<exists>payload\<in>X \<union> \<Union> (set (map (announced J) xs)). \<exists>c. configures J (lu_deviceId u) payload c \<and> in_force c s')
     else s' = s)"
  using assms(4-6)
proof (induction xs arbitrary: u w e X)
  case (Cons x xs)
  have step: ?case
    if "takes J Y u v" "management_run E V J xs v w1 s e1 = (restart, u', w', s', e')" "Y \<subseteq> announced J x" for Y v w1 e1
  proof -
    have m: "reports v s" "lu_deviceId v = lu_deviceId u"
      using that(1) Cons.prems(1) by (simp_all add: takes_def managed_def reports_def)
    note IH = Cons.IH [OF m(1) takes_pending [OF that(1) Cons.prems(2)] that(2)]
    have "Y \<union> X \<union> \<Union> (set (map (announced J) xs)) \<subseteq> X \<union> \<Union> (set (map (announced J) (x # xs)))" using that(3) by auto
    then show ?thesis using IH unfolding m(2) by (auto split: if_splits)
  qed
  show ?case
  proof (cases x)
    case (Message m)
    obtain v w1 where h: "handleMqttMessage (lv_prefs V) J m u w = (v, w1)" by fastforce
    have "management_run E V J xs v w1 s e = (restart, u', w', s', e')" using Cons.prems(3) by (simp add: Message h)
    then show ?thesis by (rule step [OF message_takes [OF h]]) (simp add: Message)
  next
    case (Answer body)
    obtain v w1 where h: "consumeHttpsDesiredConfig (lv_prefs V) J body u w = (v, w1)" by fastforce
    have "management_run E V J xs v w1 s e = (restart, u', w', s', e')" using Cons.prems(3) by (simp add: Answer h)
    then show ?thesis by (rule step [OF answer_takes [OF h]]) (simp add: Answer)
  next
    case Manage
    let ?u = "u\<lparr>lu_pendingRemoteConfig := None\<rparr>"
    show ?thesis
    proof (cases "lu_pendingRemoteConfig u")
      case None
      have q: "management_run E V J xs ?u w s e = (restart, u', w', s', e')"
        using Cons.prems(3) by (simp add: Manage manage_config_def consumeRemoteConfig_def None)
      have "takes J {} u ?u" using None by (auto simp: managed_def)
      then show ?thesis by (rule step [OF _ q]) simp
    next
      case (Some c)
      obtain b s1 e1 where a: "applyRemoteConfig E c s e = (b, s1, e1)" by (metis prod.exhaust)
      have c: "complete_config c" "\<exists>payload\<in>X. configures J (lu_deviceId u) payload c"
        using Cons.prems(2) Some by (auto simp: pending_from_def)
      show ?thesis
      proof (cases b)
        case True
        obtain u1 w1 where k: "acknowledgeRemoteConfig V J (rc_version c) (report_settings s1 ?u) w = (u1, w1)" by fastforce
        have a': "applyRemoteConfig E c s e = (True, s1, e1)" using a True by simp
        have r: "restart" "u' = u1" "s' = s1" "e' = e1"
          using Cons.prems(3) True by (auto simp: Manage manage_config_def consumeRemoteConfig_def Some a k)
        note A = apply_in_force [OF a' c(1)]
        show ?thesis
          using acknowledge_reports [OF k] A c(2) apply_boots [OF assms(1-3) a']
          by (auto simp: r in_force_def)
      next
        case False
        have s1: "s1 = s" using apply_rejected a False by simp
        have "takes J {} u (rejectRemoteConfig ?u)"
          by (auto simp: takes_def managed_def pending_from_def rejectRemoteConfig_def reject_desired_def)
        moreover have "management_run E V J xs (rejectRemoteConfig ?u) w s e1 = (restart, u', w', s', e')"
          using Cons.prems(3) False by (simp add: Manage manage_config_def consumeRemoteConfig_def Some a s1)
        ultimately show ?thesis by (rule step) simp
      qed
    qed
  qed
qed simp

text \<open>
  The client takes a text with a DEL character, the settings refuse it: such a desired state is
  accepted, cannot be applied, and is reported as a storage failure.
\<close>

lemma delete_char_refused:
  "validRemoteText (Some [CHR 0x7F]) 63 \<and> \<not> settings_validText [CHR 0x7F] kNtpCapacity"
  by (simp add: validRemoteText_def settings_validText_def code_def)

subsection \<open>The property\<close>

text \<open>
  C11: The configuration a device reports is the one it stores: from any start-up on, through any
  messages, answers and attempts to apply them, the version and the settings in its status are those
  in force in its settings. It restarts only for a newer version, then with exactly the settings one
  of the received payloads asks of this device, and these are the settings it starts with; without a
  restart the settings are the ones it had.
\<close>

theorem reported_config_is_stored:
  assumes "eeprom E contents" "good_defaults d" "settings_begin E d uploads remote s0 e0 = (s, e)"
    and "reports u s" "lu_pendingRemoteConfig u = None"
    and "management_run E V J xs u w s e = (restart, u', w', s', e')"
  shows "reports u' s' \<and>
    (if restart then rs_appliedConfigVersion s < rs_appliedConfigVersion s' \<and> boots_with E d e' s' \<and>
       (\<exists>payload\<in>\<Union> (set (map (announced J) xs)). \<exists>c. configures J (lu_deviceId u) payload c \<and> in_force c s')
     else s' = s)"
proof -
  have "wf_settings s" "rs_defaults s = d" using run_inv_begin [OF assms(1-3)] by (simp_all add: run_inv_def)
  moreover have "pending_from J {} u" using assms(5) by (simp add: pending_from_def)
  ultimately show ?thesis using run_manages [OF assms(1) _ _ assms(4) _ assms(6)] by fastforce
qed

definition desired_text :: "(string \<times> sample_doc) list" where
  "desired_text = [(''p'', SObj [(''schema_version'', SNum 1), (''device_id'', SStr ''d''), (''config_version'', SNum 2),
     (''settings'', SObj [(''upload_enabled'', SBool False), (''ntp_primary'', SStr ''x''), (''ntp_secondary'', SStr ''y''),
       (''tz_rule'', SStr ''UTC0''), (''tz_label'', SStr ''UTC'')])])]"

definition started_settings :: "RuntimeSettings \<times> fake_eeprom" where
  "started_settings = settings_begin fake_eeprom_ops small_defaults True True fresh_settings blank_eeprom"

definition managed_upload :: LiveUpload where
  "managed_upload = report_settings (fst started_settings) (small_upload\<lparr>lu_remoteManagement := True,
     lu_appliedConfigVersion := rs_appliedConfigVersion (fst started_settings)\<rparr>)"

lemma blank_invalid: "\<not> header_is v n (fe_content blank_eeprom)"
proof -
  have "replicate kRecordSize (255 :: byte) = 255 # 255 # 255 # 255 # replicate (kRecordSize - 4) 255"
  proof -
    have "kRecordSize = Suc (Suc (Suc (Suc (kRecordSize - 4))))" by (simp add: kRecordSize_def)
    then show ?thesis using replicate_Suc by metis
  qed
  then have c: "fe_content blank_eeprom = 255 # 255 # 255 # 255 # replicate (kRecordSize - 4) 255"
    by (simp add: fe_content_def blank_eeprom_def kRecordSize_def)
  have "get32 (255 # 255 # 255 # 255 # r) \<noteq> kMagic" for r by (simp add: kMagic_def)
  then show ?thesis by (simp add: header_is_def c)
qed

lemma started: "fst started_settings = apply_record (populateDefaults small_defaults True True) (fresh_settings\<lparr>rs_defaults := small_defaults\<rparr>)"
  "fe_commits (snd started_settings) \<noteq> 0"
proof -
  have b: "\<not> valid5 (fe_content blank_eeprom)" "boot_record small_defaults True True (fe_content blank_eeprom) =
      populateDefaults small_defaults True True"
    by (simp_all add: boot_record_def migrate_def valid5_def valid4_def valid3_def valid2_def valid1_def blank_invalid)
  show "fst started_settings = apply_record (populateDefaults small_defaults True True) (fresh_settings\<lparr>rs_defaults := small_defaults\<rparr>)"
    using fake_flash.begin_boots [of small_defaults True True fresh_settings blank_eeprom] b(2)
    by (metis prod.collapse started_settings_def)
  show "fe_commits (snd started_settings) \<noteq> 0"
    using b(1) by (simp add: started_settings_def settings_begin_def Let_def fake_eeprom_ops_def fe_content_def)
       (simp add: blank_eeprom_def)
qed

definition desired_message :: "string \<times> string" where
  "desired_message = (desiredConfigTopic managed_upload, ''p'')"

lemma desired_pends:
  "\<exists>u. handleMqttMessage P (sample_json desired_text) desired_message managed_upload w = (u, w) \<and>
     lu_pendingRemoteConfig u = Some \<lparr>rc_version = 2, rc_hasUploadEnabled = True, rc_uploadEnabled = False,
       rc_ntpPrimary = ''x'', rc_ntpSecondary = ''y'', rc_timeZoneRule = ''UTC0'', rc_timeZoneLabel = ''UTC''\<rparr>"
  by (simp add: handleMqttMessage_def desired_message_def take_desired_def consumeDesiredState_def consume_document_def
      sample_json_def desired_text_def sample_member_def managed_upload_def report_settings_def setReportedConfig_def
      small_upload_def fresh_upload_def kRemoteConfigJsonCapacity_def for_device_def str_or_def started apply_record_def
      populateDefaults_def parseRemoteConfig_def parse_settings_def validRemoteText_def parseAssignment_def
      parseCredentialRotation_def desired_accepted_def code_def Let_def)

lemma desired_applies:
  "fe_commits e \<noteq> 0 \<Longrightarrow> fst (applyRemoteConfig fake_eeprom_ops \<lparr>rc_version = 2, rc_hasUploadEnabled = True,
     rc_uploadEnabled = False, rc_ntpPrimary = ''x'', rc_ntpSecondary = ''y'', rc_timeZoneRule = ''UTC0'',
     rc_timeZoneLabel = ''UTC''\<rparr> (fst started_settings) e)"
  by (cases "fe_commits e")
     (simp_all add: applyRemoteConfig_def started(1) apply_record_def populateDefaults_def small_defaults_def
        settings_save_def settings_validText_def capacities code_def fake_eeprom_ops_def Let_def)

theorem reported_config_is_stored_witness:
  "case management_run fake_eeprom_ops small_live (sample_json desired_text) [Message desired_message, Manage]
     managed_upload small_flash (fst started_settings) (snd started_settings) of
     (restart, u', w', s', e') \<Rightarrow> restart \<and> reports u' s' \<and> rs_ntpPrimary s' = ''x'' \<and>
       boots_with fake_eeprom_ops small_defaults e' s'"
proof -
  let ?J = "sample_json desired_text" and ?s = "fst started_settings" and ?e = "snd started_settings"
  obtain restart u' w' s' e' where r: "management_run fake_eeprom_ops small_live ?J [Message desired_message, Manage]
    managed_upload small_flash ?s ?e = (restart, u', w', s', e')" by (metis prod.exhaust)
  define c where "c = \<lparr>rc_version = 2, rc_hasUploadEnabled = True, rc_uploadEnabled = False, rc_ntpPrimary = ''x'',
    rc_ntpSecondary = ''y'', rc_timeZoneRule = ''UTC0'', rc_timeZoneLabel = ''UTC''\<rparr>"
  obtain u where u: "handleMqttMessage (lv_prefs small_live) ?J desired_message managed_upload small_flash = (u, small_flash)"
    "lu_pendingRemoteConfig u = Some c"
    using desired_pends [of "lv_prefs small_live" small_flash] by (auto simp: c_def)
  obtain b s1 e1 where a: "applyRemoteConfig fake_eeprom_ops c ?s ?e = (b, s1, e1)" by (metis prod.exhaust)
  have "fst (applyRemoteConfig fake_eeprom_ops c ?s ?e)" using desired_applies started(2) by (simp add: c_def)
  then have b: "applyRemoteConfig fake_eeprom_ops c ?s ?e = (True, s1, e1)" using a by simp
  have "complete_config c" by (simp add: complete_config_def c_def)
  then have "rs_ntpPrimary s1 = ''x''" using apply_in_force(1) [OF b] by (simp add: in_force_def c_def)
  moreover have "restart \<and> s' = s1"
    using r by (simp add: u manage_config_def consumeRemoteConfig_def b split: prod.splits)
  ultimately have n: "restart \<and> rs_ntpPrimary s' = ''x''" by simp
  have 1: "reports managed_upload ?s"
    by (simp add: reports_def managed_upload_def report_settings_def setReportedConfig_def)
  have 2: "lu_pendingRemoteConfig managed_upload = None"
    by (simp add: managed_upload_def report_settings_def setReportedConfig_def small_upload_def fresh_upload_def)
  have 3: "good_defaults small_defaults" by (simp add: good_defaults_def small_defaults_def code_def)
  have 4: "settings_begin fake_eeprom_ops small_defaults True True fresh_settings blank_eeprom = (?s, ?e)"
    by (simp add: started_settings_def)
  show ?thesis
    using reported_config_is_stored [OF fake_flash.eeprom_axioms 3 4 1 2 r] n unfolding r by simp
qed

end
