(* ===== verification/LoggerState.thy ===== *)
theory LoggerState
  imports LiveUploadAsync
begin

section \<open>The logger's published state and its JSON document\<close>

text \<open>
  \<open>AppState\<close> and \<open>SystemStatus\<close> of \<open>logger/firmware/include/Types.h\<close>, and \<open>WebUi::liveJson\<close>, the
  document every client of the local network may read. The four readiness flags that the upload
  client also reads are fields of \<open>AppState\<close> in theory \<open>LiveUpload\<close>. A \<open>float\<close> is a parameter, as there.
\<close>

subsection \<open>The state\<close>

record 'f SystemStatus =
  sy_performance :: UploadPerformance
  sy_batterySupported :: bool
  sy_batteryValid :: bool
  sy_batteryVoltage :: 'f
  sy_batteryPercent :: int
  sy_externalPower :: bool
  sy_batteryTrend :: string
  sy_batteryState :: string
  sy_deviceId :: string
  sy_deviceName :: string
  sy_hardwareRevision :: string
  sy_provisioningStatus :: string
  sy_provisioningError :: string
  sy_provisionedAt :: string
  sy_productionSecurityRequired :: bool
  sy_secureBootEnabled :: bool
  sy_flashEncryptionEnabled :: bool
  sy_flashEncryptionReleaseMode :: bool
  sy_productionSecurityReady :: bool
  sy_displayEnabled :: bool
  sy_rtcEnabled :: bool
  sy_rtcSynced :: bool
  sy_rtcError :: string
  sy_rtcLastSync :: string
  sy_timeZone :: string
  sy_sdEnabled :: bool
  sy_sdRowsWritten :: u32
  sy_sdLastWriteAgeMs :: u32
  sy_rejectedUploads :: u32
  sy_rejectionArchiveError :: string
  sy_uploadEnabled :: bool
  sy_uploadConnected :: bool
  sy_dashEnabled :: bool
  sy_dashConnected :: bool
  sy_dashStatus :: string
  sy_otaEnabled :: bool
  sy_otaReady :: bool
  sy_otaBootHealth :: string
  sy_wifiMode :: string
  sy_ipAddress :: string
  sy_currentLogFile :: string
  sy_lastLogError :: string
  sy_uploadProtocol :: string
  sy_uploadServer :: string
  sy_uploadSessionId :: string
  sy_lastUploadError :: string
  sy_lastUploadSequence :: u32
  sy_lastUploadHttpStatus :: int
  sy_uploadEvidenceState :: byte
  sy_uploadSuccessAgeMs :: u32
  sy_remoteManagementEnabled :: bool
  sy_appliedConfigVersion :: u32
  sy_remoteManagementStatus :: string
  sy_remoteManagementError :: string
  sy_storeForwardEnabled :: bool
  sy_storeForwardReady :: bool
  sy_storeForwardPendingRecords :: u32
  sy_storeForwardPendingBytes :: nat
  sy_storeForwardCapacityBytes :: nat
  sy_storeForwardDroppedRecords :: u32
  sy_storeForwardCorruptionEvents :: u32
  sy_storeForwardQuarantinedBytes :: nat
  sy_storeForwardError :: string
  sy_storeForwardOldestJson :: string
  sy_uploadCaptureDrops :: u32

record 'f LoggerState = "'f AppState" +
  ls_uptime :: string
  ls_timestamp :: string
  ls_system :: "'f SystemStatus"

text \<open>\<open>AppState state{};\<close>\<close>

definition empty_status :: "'f \<Rightarrow> 'f SystemStatus" where
  "empty_status zero = \<lparr>sy_performance = fresh_performance, sy_batterySupported = False, sy_batteryValid = False,
     sy_batteryVoltage = zero, sy_batteryPercent = 0, sy_externalPower = False, sy_batteryTrend = [],
     sy_batteryState = [], sy_deviceId = [], sy_deviceName = [], sy_hardwareRevision = [],
     sy_provisioningStatus = [], sy_provisioningError = [], sy_provisionedAt = [],
     sy_productionSecurityRequired = False, sy_secureBootEnabled = False, sy_flashEncryptionEnabled = False,
     sy_flashEncryptionReleaseMode = False, sy_productionSecurityReady = False, sy_displayEnabled = False,
     sy_rtcEnabled = False, sy_rtcSynced = False, sy_rtcError = [], sy_rtcLastSync = [], sy_timeZone = [],
     sy_sdEnabled = False, sy_sdRowsWritten = 0, sy_sdLastWriteAgeMs = 4294967295, sy_rejectedUploads = 0,
     sy_rejectionArchiveError = [], sy_uploadEnabled = False, sy_uploadConnected = False, sy_dashEnabled = False,
     sy_dashConnected = False, sy_dashStatus = [], sy_otaEnabled = False, sy_otaReady = False, sy_otaBootHealth = [],
     sy_wifiMode = [], sy_ipAddress = [], sy_currentLogFile = [], sy_lastLogError = [], sy_uploadProtocol = [],
     sy_uploadServer = [], sy_uploadSessionId = [], sy_lastUploadError = [], sy_lastUploadSequence = 0,
     sy_lastUploadHttpStatus = 0, sy_uploadEvidenceState = 0, sy_uploadSuccessAgeMs = 0,
     sy_remoteManagementEnabled = False, sy_appliedConfigVersion = 0, sy_remoteManagementStatus = [],
     sy_remoteManagementError = [], sy_storeForwardEnabled = False, sy_storeForwardReady = False,
     sy_storeForwardPendingRecords = 0, sy_storeForwardPendingBytes = 0, sy_storeForwardCapacityBytes = 0,
     sy_storeForwardDroppedRecords = 0, sy_storeForwardCorruptionEvents = 0, sy_storeForwardQuarantinedBytes = 0,
     sy_storeForwardError = [], sy_storeForwardOldestJson = [], sy_uploadCaptureDrops = 0\<rparr>"

definition empty_state :: "'f \<Rightarrow> 'f LoggerState" where
  "empty_state zero = \<lparr>st_sensors = [], st_adcReady = False, st_rtcReady = False, st_sdReady = False, st_wifiReady = False,
     st_uptimeMs = 0, st_transportTimestamp = [], ls_uptime = [], ls_timestamp = [], ls_system = empty_status zero\<rparr>"

subsection \<open>The document\<close>

definition web_escape_char :: "char \<Rightarrow> string" where
  "web_escape_char c =
     (if c = CHR 0x22 \<or> c = CHR 0x5C then [CHR 0x5C, c]
      else if code c = 8 then [CHR 0x5C, CHR ''b''] else if code c = 12 then [CHR 0x5C, CHR ''f'']
      else if code c = 10 then [CHR 0x5C, CHR ''n''] else if code c = 13 then [CHR 0x5C, CHR ''r'']
      else if code c = 9 then [CHR 0x5C, CHR ''t'']
      else if 0x20 \<le> code c then [c] else [])"

definition web_jsonEscape :: "string \<Rightarrow> string" where
  "web_jsonEscape value = concat (map web_escape_char value)"

definition js :: "string \<Rightarrow> string \<Rightarrow> string" where
  "js k v = jkey k @ quoted (web_jsonEscape v)"

text \<open>A text that is not escaped.\<close>

definition jraw :: "string \<Rightarrow> string \<Rightarrow> string" where
  "jraw k v = jkey k @ quoted v"

definition jv :: "string \<Rightarrow> string \<Rightarrow> string" where
  "jv k v = jkey k @ v"

definition jb :: "string \<Rightarrow> bool \<Rightarrow> string" where
  "jb k b = jv k (if b then ''true'' else ''false'')"

definition ju :: "string \<Rightarrow> u32 \<Rightarrow> string" where
  "ju k n = jv k (u32_text n)"

definition jn :: "string \<Rightarrow> nat \<Rightarrow> string" where
  "jn k n = jv k (dec n)"

definition nullable :: "bool \<Rightarrow> string \<Rightarrow> string" where
  "nullable b v = (if b then v else ''null'')"

definition live_sensor :: "('f \<Rightarrow> string) \<Rightarrow> 'f SensorSnapshot \<Rightarrow> string" where
  "live_sensor text3 s = ''{'' @ comma_join [jraw ''id'' (ss_id s), jraw ''name'' (ss_name s), jv ''value'' (text3 (ss_filteredValue s)),
     jraw ''units'' (ss_units s), jv ''loop_mA'' (text3 (ss_loopCurrentmA s)),
     jraw ''fault'' (sensorFaultToString (ss_activeFault s))] @ ''}''"

definition live_performance :: "UploadPerformance \<Rightarrow> string" where
  "live_performance p = ''{'' @ comma_join [ju ''captured'' (pf_captured p), ju ''accepted'' (pf_accepted p),
     ju ''capture_rejected'' (pf_captureRejected p), ju ''requests'' (pf_requests p), ju ''reused'' (pf_reused p),
     ju ''last_request_ms'' (pf_lastRequestMs p),
     jv ''last_sample_epoch'' (nullable (pf_lastSampleEpoch p \<noteq> 0) (u32_text (pf_lastSampleEpoch p))),
     jb ''batch_enabled'' (pf_batchEnabled p), ju ''batch_requests'' (pf_batchRequests p),
     ju ''batch_accepted'' (pf_batchAccepted p)] @ ''}''"

definition live_system :: "('f \<Rightarrow> string) \<Rightarrow> 'f LoggerState \<Rightarrow> string list" where
  "live_system text3 t = (let y = ls_system t in
    [js ''device_id'' (sy_deviceId y), js ''device_name'' (sy_deviceName y), js ''hardware_revision'' (sy_hardwareRevision y),
     js ''provisioning_status'' (sy_provisioningStatus y), js ''provisioning_error'' (sy_provisioningError y),
     js ''provisioned_at'' (sy_provisionedAt y),
     jb ''production_security_required'' (sy_productionSecurityRequired y), jb ''secure_boot_enabled'' (sy_secureBootEnabled y),
     jb ''flash_encryption_enabled'' (sy_flashEncryptionEnabled y),
     jb ''flash_encryption_release_mode'' (sy_flashEncryptionReleaseMode y),
     jb ''production_security_ready'' (sy_productionSecurityReady y), jb ''adc_ready'' (st_adcReady t),
     jb ''display_enabled'' (sy_displayEnabled y), jb ''rtc_enabled'' (sy_rtcEnabled y), jb ''rtc_ready'' (st_rtcReady t),
     jb ''rtc_synced'' (sy_rtcSynced y), js ''rtc_error'' (sy_rtcError y), js ''rtc_last_sync'' (sy_rtcLastSync y),
     js ''time_zone'' (sy_timeZone y), jb ''sd_enabled'' (sy_sdEnabled y), jb ''sd_ready'' (st_sdReady t),
     ju ''sd_rows_written'' (sy_sdRowsWritten y),
     jv ''sd_last_write_age_ms'' (nullable (sy_sdLastWriteAgeMs y \<noteq> 4294967295) (u32_text (sy_sdLastWriteAgeMs y))),
     ju ''upload_rejected_records'' (sy_rejectedUploads y), js ''upload_rejection_archive_error'' (sy_rejectionArchiveError y),
     jb ''wifi_ready'' (st_wifiReady t), jb ''upload_enabled'' (sy_uploadEnabled y), jb ''upload_connected'' (sy_uploadConnected y),
     jb ''ota_enabled'' (sy_otaEnabled y), jb ''ota_ready'' (sy_otaReady y), jraw ''wifi_mode'' (sy_wifiMode y),
     jraw ''ip_address'' (sy_ipAddress y), jraw ''current_log_file'' (sy_currentLogFile y), js ''last_log_error'' (sy_lastLogError y),
     jraw ''upload_protocol'' (sy_uploadProtocol y), js ''upload_server'' (sy_uploadServer y), jb ''dash_enabled'' (sy_dashEnabled y),
     jb ''dash_connected'' (sy_dashConnected y), js ''dash_status'' (sy_dashStatus y),
     jb ''battery_supported'' (sy_batterySupported y),
     jv ''battery_voltage'' (nullable (sy_batteryValid y) (text3 (sy_batteryVoltage y))),
     jv ''battery_percent'' (nullable (sy_batteryValid y) (fmt_d 1 (sy_batteryPercent y))),
     jv ''external_power'' (nullable (sy_batterySupported y) (if sy_externalPower y then ''true'' else ''false'')),
     js ''battery_trend'' (sy_batteryTrend y), js ''battery_state'' (sy_batteryState y),
     jraw ''upload_session_id'' (sy_uploadSessionId y), ju ''upload_sequence'' (sy_lastUploadSequence y),
     jv ''upload_http_status'' (fmt_d 1 (sy_lastUploadHttpStatus y)),
     jv ''upload_performance'' (live_performance (sy_performance y)),
     jn ''upload_evidence_state'' (unat (sy_uploadEvidenceState y)),
     jv ''upload_success_age_ms'' (nullable (sy_uploadSuccessAgeMs y \<noteq> 4294967295) (u32_text (sy_uploadSuccessAgeMs y))),
     jb ''remote_management_enabled'' (sy_remoteManagementEnabled y), ju ''applied_config_version'' (sy_appliedConfigVersion y),
     js ''remote_management_status'' (sy_remoteManagementStatus y), js ''remote_management_error'' (sy_remoteManagementError y),
     jb ''store_forward_enabled'' (sy_storeForwardEnabled y), jb ''store_forward_ready'' (sy_storeForwardReady y),
     ju ''store_forward_pending_records'' (sy_storeForwardPendingRecords y),
     jn ''store_forward_pending_bytes'' (sy_storeForwardPendingBytes y),
     jn ''store_forward_capacity_bytes'' (sy_storeForwardCapacityBytes y),
     ju ''store_forward_dropped_records'' (sy_storeForwardDroppedRecords y),
     ju ''store_forward_corruption_events'' (sy_storeForwardCorruptionEvents y),
     jn ''store_forward_quarantined_bytes'' (sy_storeForwardQuarantinedBytes y),
     js ''store_forward_error'' (sy_storeForwardError y),
     jv ''store_forward_oldest'' (nullable (sy_storeForwardOldestJson y \<noteq> []) (sy_storeForwardOldestJson y)),
     js ''ota_boot_health'' (sy_otaBootHealth y), ju ''upload_capture_drops'' (sy_uploadCaptureDrops y),
     js ''last_upload_error'' (sy_lastUploadError y)])"

definition liveJson :: "('f \<Rightarrow> string) \<Rightarrow> 'f LoggerState \<Rightarrow> string" where
  "liveJson text3 t = ''{'' @ comma_join
     [jraw ''timestamp'' (ls_timestamp t), ju ''uptime_ms'' (st_uptimeMs t), jraw ''uptime'' (ls_uptime t),
      jv ''sensors'' (''['' @ comma_join (map (live_sensor text3) (st_sensors t)) @ '']''),
      jv ''system'' (''{'' @ comma_join (live_system text3 t) @ ''}'')] @ ''}''"

subsection \<open>Reading the member names\<close>

text \<open>
  A reader of JSON text that keeps the names of the members, at every depth: a string that a colon
  follows is a name. It follows the escapes inside strings.
\<close>

datatype reading = Outside | Inside | Escaped | After

definition name_step :: "char \<Rightarrow> reading \<times> string \<times> string list \<Rightarrow> reading \<times> string \<times> string list" where
  "name_step c r = (case r of (m, cur, names) \<Rightarrow> (case m of
      Inside \<Rightarrow> if c = CHR 0x5C then (Escaped, cur @ [c], names) else if c = CHR 0x22 then (After, cur, names)
        else (Inside, cur @ [c], names)
    | Escaped \<Rightarrow> (Inside, cur @ [c], names)
    | _ \<Rightarrow> if c = CHR 0x22 then (Inside, [], names)
        else if m = After \<and> c = CHR '':'' then (Outside, [], names @ [cur]) else (Outside, [], names)))"

definition member_names :: "string \<Rightarrow> string list" where
  "member_names t = snd (snd (fold name_step t (Outside, [], [])))"

definition plain :: "string \<Rightarrow> bool" where
  "plain s \<longleftrightarrow> CHR 0x22 \<notin> set s \<and> CHR 0x5C \<notin> set s"

text \<open>A piece that starts between two values and ends after one, naming \<open>ks\<close> on the way.\<close>

definition piece :: "string \<Rightarrow> string list \<Rightarrow> bool" where
  "piece t ks \<longleftrightarrow> (\<forall>names. \<exists>m cur. fold name_step t (Outside, [], names) = (m, cur, names @ ks) \<and>
     (m = After \<or> (m = Outside \<and> cur = [])))"

lemma piece_cons:
  assumes "piece t ks" "c \<noteq> CHR 0x22"
  shows "piece (c # t) ks"
  using assms by (simp add: piece_def name_step_def)

lemma piece_ends:
  assumes "piece t ks" "c \<noteq> CHR 0x22" "c \<noteq> CHR '':''"
  shows "fold name_step (t @ [c]) (Outside, [], names) = (Outside, [], names @ ks)"
proof -
  obtain m cur where "fold name_step t (Outside, [], names) = (m, cur, names @ ks)" "m = After \<or> (m = Outside \<and> cur = [])"
    using assms(1) unfolding piece_def by blast
  then show ?thesis using assms(2,3) by (auto simp: name_step_def)
qed

lemma piece_snoc: "piece t ks \<Longrightarrow> c \<noteq> CHR 0x22 \<Longrightarrow> c \<noteq> CHR '':'' \<Longrightarrow> piece (t @ [c]) ks"
  using piece_ends unfolding piece_def by blast

lemma piece_number: "CHR 0x22 \<notin> set t \<Longrightarrow> piece t []"
proof -
  assume "CHR 0x22 \<notin> set t"
  then have "fold name_step t (Outside, [], names) = (Outside, [], names)" for names
    by (induction t arbitrary: names) (auto simp: name_step_def)
  then show ?thesis by (simp add: piece_def)
qed

lemma fold_inside:
  "plain v \<Longrightarrow> fold name_step v (Inside, cur, names) = (Inside, cur @ v, names)"
  by (induction v arbitrary: cur) (auto simp: plain_def name_step_def)

lemma fold_escaped:
  "fold name_step (web_jsonEscape v) (Inside, cur, names) = (Inside, cur @ web_jsonEscape v, names)"
  by (induction v arbitrary: cur) (auto simp: web_jsonEscape_def web_escape_char_def name_step_def)

lemma piece_text:
  "plain v \<Longrightarrow> piece (quoted v) []" "piece (quoted (web_jsonEscape v)) []"
  by (simp_all add: piece_def quoted_def name_step_def fold_inside fold_escaped)

lemma piece_field:
  assumes "plain k" "piece v ks"
  shows "piece (jkey k @ v) (k # ks)"
  unfolding piece_def
proof
  fix names
  obtain m cur where "fold name_step v (Outside, [], names @ [k]) = (m, cur, (names @ [k]) @ ks)"
      "m = After \<or> (m = Outside \<and> cur = [])"
    using assms(2) unfolding piece_def by blast
  then show "\<exists>m cur. fold name_step (jkey k @ v) (Outside, [], names) = (m, cur, names @ k # ks) \<and>
      (m = After \<or> (m = Outside \<and> cur = []))"
    by (simp add: jkey_def quoted_def name_step_def fold_inside [OF assms(1)])
qed

lemma piece_joined:
  "list_all2 piece ts kss \<Longrightarrow> piece (comma_join ts) (concat kss)"
proof (induction ts arbitrary: kss rule: comma_join.induct)
  case 1
  then show ?case by (simp add: piece_number)
next
  case (2 x)
  then show ?case by (auto simp: list_all2_Cons1)
next
  case (3 x y xs)
  then obtain ks kss' where k: "kss = ks # kss'" "piece x ks" "list_all2 piece (y # xs) kss'" by (auto simp: list_all2_Cons1)
  show ?case unfolding piece_def k(1)
  proof
    fix names
    obtain m cur where "fold name_step (comma_join (y # xs)) (Outside, [], names @ ks) = (m, cur, (names @ ks) @ concat kss')"
        "m = After \<or> (m = Outside \<and> cur = [])"
      using 3(1) [OF k(3)] unfolding piece_def by blast
    moreover have "fold name_step (x @ [CHR '','']) (Outside, [], names) = (Outside, [], names @ ks)"
      by (rule piece_ends [OF k(2)]) simp_all
    ultimately show "\<exists>m cur. fold name_step (comma_join (x # y # xs)) (Outside, [], names) = (m, cur, names @ concat (ks # kss')) \<and>
        (m = After \<or> (m = Outside \<and> cur = []))" by simp
  qed
qed

definition performance_members :: "string list" where
  "performance_members = [''captured'', ''accepted'', ''capture_rejected'', ''requests'', ''reused'', ''last_request_ms'',
     ''last_sample_epoch'', ''batch_enabled'', ''batch_requests'', ''batch_accepted'']"

definition sensor_members :: "string list" where
  "sensor_members = [''id'', ''name'', ''value'', ''units'', ''loop_mA'', ''fault'']"

definition system_first :: "string list" where
  "system_first = [
    ''device_id'', ''device_name'', ''hardware_revision'', ''provisioning_status'', ''provisioning_error'',
    ''provisioned_at'', ''production_security_required'', ''secure_boot_enabled'', ''flash_encryption_enabled'',
    ''flash_encryption_release_mode'', ''production_security_ready'', ''adc_ready'', ''display_enabled'',
    ''rtc_enabled'', ''rtc_ready'', ''rtc_synced'', ''rtc_error'', ''rtc_last_sync'', ''time_zone'', ''sd_enabled'',
    ''sd_ready'', ''sd_rows_written'', ''sd_last_write_age_ms'', ''upload_rejected_records'',
    ''upload_rejection_archive_error'', ''wifi_ready'', ''upload_enabled'', ''upload_connected'', ''ota_enabled'',
    ''ota_ready'', ''wifi_mode'', ''ip_address'', ''current_log_file'', ''last_log_error'', ''upload_protocol'',
    ''upload_server'', ''dash_enabled'', ''dash_connected'', ''dash_status'', ''battery_supported'',
    ''battery_voltage'', ''battery_percent'', ''external_power'', ''battery_trend'', ''battery_state'',
    ''upload_session_id'', ''upload_sequence'', ''upload_http_status'']"

definition system_second :: "string list" where
  "system_second = [
    ''upload_evidence_state'', ''upload_success_age_ms'', ''remote_management_enabled'', ''applied_config_version'',
    ''remote_management_status'', ''remote_management_error'', ''store_forward_enabled'', ''store_forward_ready'',
    ''store_forward_pending_records'', ''store_forward_pending_bytes'', ''store_forward_capacity_bytes'',
    ''store_forward_dropped_records'', ''store_forward_corruption_events'', ''store_forward_quarantined_bytes'',
    ''store_forward_error'']"

definition system_third :: "string list" where
  "system_third = [
    ''ota_boot_health'', ''upload_capture_drops'', ''last_upload_error'']"

definition system_members :: "string list \<Rightarrow> string list" where
  "system_members oldest = system_first @ [''upload_performance''] @ performance_members @ system_second @
     [''store_forward_oldest''] @ oldest @ system_third"

lemma plain_simps [simp]: "plain []" "plain (c # t) \<longleftrightarrow> c \<noteq> CHR 0x22 \<and> c \<noteq> CHR 0x5C \<and> plain t"
  by (auto simp: plain_def)

lemma piece_fields:
  "plain k \<Longrightarrow> piece (js k t) [k]" "plain k \<Longrightarrow> plain t \<Longrightarrow> piece (jraw k t) [k]"
  "plain k \<Longrightarrow> piece v ks \<Longrightarrow> piece (jv k v) (k # ks)"
  by (simp_all add: js_def jraw_def jv_def piece_field piece_text)

lemma digits_quoteless: "CHR 0x22 \<notin> set (dec n)" "CHR 0x22 \<notin> set (u32_text w)" "CHR 0x22 \<notin> set (fmt_d k i)"
proof -
  have 1: "CHR 0x22 \<notin> set (dec n)" for n using dec_digits [of "CHR 0x22" n] by (auto simp: is_digit_def code_def)
  then show "CHR 0x22 \<notin> set (dec n)" "CHR 0x22 \<notin> set (u32_text w)" "CHR 0x22 \<notin> set (fmt_d k i)"
    by (auto simp: u32_text_def fmt_d_def fmt_u_def pad0_def Let_def)
qed

lemma piece_numbers:
  "plain k \<Longrightarrow> piece (ju k w) [k]" "plain k \<Longrightarrow> piece (jn k n) [k]" "plain k \<Longrightarrow> piece (jb k b) [k]"
  "plain k \<Longrightarrow> CHR 0x22 \<notin> set t \<Longrightarrow> piece (jv k (nullable c t)) [k]" "plain k \<Longrightarrow> piece (jv k (fmt_d 1 i)) [k]"
  by (auto simp: ju_def jn_def jb_def nullable_def digits_quoteless intro!: piece_fields(3) piece_number)

lemma piece_wrapped:
  assumes "piece t ks"
  shows "piece (''{'' @ t @ ''}'') ks" "piece (''['' @ t @ '']'') ks"
  using piece_cons [OF piece_snoc [OF assms], of "CHR ''}''" "CHR ''{''"] piece_cons [OF piece_snoc [OF assms], of "CHR '']''" "CHR ''[''"]
  by simp_all

lemma live_sensor_piece:
  assumes "plain (ss_id s)" "plain (ss_name s)" "plain (ss_units s)" "\<And>x. CHR 0x22 \<notin> set (text3 x)"
  shows "piece (live_sensor text3 s) sensor_members"
proof -
  have f: "plain (sensorFaultToString x)" for x by (cases x) (simp_all add: plain_def)
  have "list_all2 piece [jraw ''id'' (ss_id s), jraw ''name'' (ss_name s), jv ''value'' (text3 (ss_filteredValue s)),
     jraw ''units'' (ss_units s), jv ''loop_mA'' (text3 (ss_loopCurrentmA s)), jraw ''fault'' (sensorFaultToString (ss_activeFault s))]
     (map (\<lambda>k. [k]) sensor_members)"
    using assms by (simp add: sensor_members_def piece_fields piece_number f)
  from piece_wrapped(1) [OF piece_joined [OF this]] show ?thesis by (simp add: live_sensor_def)
qed

lemma performance_piece: "piece (live_performance p) performance_members"
proof -
  have "list_all2 piece [ju ''captured'' (pf_captured p), ju ''accepted'' (pf_accepted p),
     ju ''capture_rejected'' (pf_captureRejected p), ju ''requests'' (pf_requests p), ju ''reused'' (pf_reused p),
     ju ''last_request_ms'' (pf_lastRequestMs p),
     jv ''last_sample_epoch'' (nullable (pf_lastSampleEpoch p \<noteq> 0) (u32_text (pf_lastSampleEpoch p))),
     jb ''batch_enabled'' (pf_batchEnabled p), ju ''batch_requests'' (pf_batchRequests p),
     ju ''batch_accepted'' (pf_batchAccepted p)] (map (\<lambda>k. [k]) performance_members)"
    by (simp add: performance_members_def piece_numbers digits_quoteless)
  from piece_wrapped(1) [OF piece_joined [OF this]] show ?thesis by (simp add: live_performance_def)
qed

definition plain_state :: "'f LoggerState \<Rightarrow> bool" where
  "plain_state t \<longleftrightarrow> plain (ls_timestamp t) \<and> plain (ls_uptime t) \<and> plain (sy_wifiMode (ls_system t)) \<and>
     plain (sy_ipAddress (ls_system t)) \<and> plain (sy_currentLogFile (ls_system t)) \<and> plain (sy_uploadProtocol (ls_system t)) \<and>
     plain (sy_uploadSessionId (ls_system t)) \<and> (\<forall>s\<in>set (st_sensors t). plain (ss_id s) \<and> plain (ss_name s) \<and> plain (ss_units s))"

lemma system_piece:
  assumes "plain_state t" "\<And>x. CHR 0x22 \<notin> set (text3 x)"
    and "piece (nullable (sy_storeForwardOldestJson (ls_system t) \<noteq> []) (sy_storeForwardOldestJson (ls_system t))) oldest"
  shows "piece (comma_join (live_system text3 t)) (system_members oldest)"
proof -
  note P = assms(1) [unfolded plain_state_def]
  let ?each = "map (\<lambda>k. [k])"
  have "list_all2 piece (live_system text3 t) (?each system_first @ [''upload_performance'' # performance_members] @
      ?each system_second @ [''store_forward_oldest'' # oldest] @ ?each system_third)"
    using P by (simp add: live_system_def Let_def system_first_def system_second_def system_third_def piece_numbers
        piece_fields piece_number digits_quoteless performance_piece assms(2,3))
  moreover have "concat (?each ks) = ks" for ks :: "string list" by (induction ks) simp_all
  ultimately show ?thesis using piece_joined by (fastforce simp: system_members_def)
qed

definition oldest_members :: "LiveUpload \<Rightarrow> string list" where
  "oldest_members u = (if qo_session (lu_oldest u) = [] then [] else [''session_id'', ''sequence'', ''timestamp'', ''age_seconds''])"

lemma piece_jtext: "plain k \<Longrightarrow> piece (jtext k v) [k]"
proof -
  have "fold name_step (jsonEscape v) (Inside, cur, names) = (Inside, cur @ jsonEscape v, names)" for cur names
    by (induction v arbitrary: cur) (auto simp: jsonEscape_def name_step_def)
  then have "piece (quoted (jsonEscape v)) []" by (simp add: piece_def quoted_def name_step_def)
  then show "plain k \<Longrightarrow> piece (jtext k v) [k]" by (simp add: jtext_def piece_field)
qed

lemma oldest_piece: "piece (queueOldestDiagnostics now u) (oldest_members u)"
proof (cases "qo_session (lu_oldest u) = []")
  case True
  then show ?thesis by (simp add: queueOldestDiagnostics_def Let_def oldest_members_def piece_number)
next
  case False
  let ?old = "lu_oldest u"
  have "list_all2 piece [jtext ''session_id'' (qo_session ?old), jkey ''sequence'' @ u32_text (qo_sequence ?old),
      jtext ''timestamp'' (qo_timestamp ?old),
      jkey ''age_seconds'' @ (case age (qo_epoch ?old) now of Some a \<Rightarrow> u32_text a | None \<Rightarrow> ''null'')]
      (map (\<lambda>k. [k]) (oldest_members u))"
    using False by (auto simp: oldest_members_def piece_jtext digits_quoteless intro!: piece_field piece_number split: option.split)
  from piece_wrapped(1) [OF piece_joined [OF this]] False show ?thesis
    by (simp add: queueOldestDiagnostics_def Let_def oldest_members_def)
qed

subsection \<open>Properties\<close>


text \<open>A logger named with a quote, a comma and a colon.\<close>

definition odd_state :: "u32 LoggerState" where
  "odd_state = (empty_state 0)\<lparr>ls_system := (empty_status 0)\<lparr>sy_deviceName := [CHR 0x22, CHR '','', CHR 0x22, CHR ''x'', CHR 0x22, CHR '':''],
     sy_storeForwardOldestJson := queueOldestDiagnostics 0 fresh_upload\<rparr>\<rparr>"


end
