(* ===== verification/Timekeeper.thy ===== *)
theory Timekeeper
  imports LoggerLogic QueueAge
begin

section \<open>Timekeeper: the clock of the logger\<close>

text \<open>
  \<open>logger/firmware/src/Timekeeper.cpp\<close>: a battery-backed clock (a DS3231 through its library, or an
  RV-3028 register by register over I2C), network time from the system clock, and the texts made of
  them. The bus, the DS3231 library and the C library's clock and time conversions are parameters.
\<close>

subsection \<open>State and interfaces\<close>

record CalendarTime =
  ct_year :: u16
  ct_month :: byte
  ct_day :: byte
  ct_hour :: byte
  ct_minute :: byte
  ct_second :: byte

datatype Backend = BackendDisabled | BackendDs3231 | BackendRv3028

datatype RtcKind = KindDs3231 | KindRv3028

record RtcConfig =
  rtc_kind :: RtcKind
  rtc_address :: byte

record Timekeeper =
  tk_attached :: bool
  tk_backend :: Backend
  tk_address :: byte
  tk_ready :: bool
  tk_networkReady :: bool
  tk_lastError :: string

definition fresh_timekeeper :: Timekeeper where
  "fresh_timekeeper = \<lparr>tk_attached = False, tk_backend = BackendDisabled, tk_address = 0, tk_ready = False,
     tk_networkReady = False, tk_lastError = []\<rparr>"

text \<open>\<open>struct tm\<close>.\<close>

record tm =
  tm_year :: int
  tm_mon :: int
  tm_mday :: int
  tm_hour :: int
  tm_min :: int
  tm_sec :: int

text \<open>
  A transmission (address, bytes, with or without a stop) gives the code of \<open>endTransmission\<close>; a
  request gives the bytes that arrived.
\<close>

record 'w clock_ops =
  tw_write :: "byte \<Rightarrow> bytes \<Rightarrow> bool \<Rightarrow> 'w \<Rightarrow> int \<times> 'w"
  tw_request :: "byte \<Rightarrow> nat \<Rightarrow> 'w \<Rightarrow> bytes \<times> 'w"
  ds_begin :: "'w \<Rightarrow> bool \<times> 'w"
  ds_lostPower :: "'w \<Rightarrow> bool \<times> 'w"
  ds_now :: "'w \<Rightarrow> CalendarTime \<times> 'w"
  ds_adjust :: "CalendarTime \<Rightarrow> 'w \<Rightarrow> 'w"
  ck_time :: "'w \<Rightarrow> int"
  ck_localtime :: "int \<Rightarrow> tm option"
  ck_gmtime :: "int \<Rightarrow> tm option"

definition kRv3028TimeReg :: byte where "kRv3028TimeReg = 0x00"
definition kRv3028StatusReg :: byte where "kRv3028StatusReg = 0x0E"
definition kRv3028PorfMask :: byte where "kRv3028PorfMask = 0x01"

definition bcdToDec :: "byte \<Rightarrow> byte" where
  "bcdToDec value = drop_bit 4 value * 10 + (value AND 0x0F)"

definition decToBcd :: "byte \<Rightarrow> byte" where
  "decToBcd value = push_bit 4 (value div 10) OR (value mod 10)"

subsection \<open>The RV-3028\<close>

definition readRv3028Burst :: "'w clock_ops \<Rightarrow> byte \<Rightarrow> nat \<Rightarrow> Timekeeper \<Rightarrow> 'w \<Rightarrow> bytes option \<times> 'w" where
  "readRv3028Burst W startReg n t w =
     (if \<not> tk_attached t \<or> n = 0 then (None, w)
      else case tw_write W (tk_address t) [startReg] False w of (result, w) \<Rightarrow>
        if result \<noteq> 0 then (None, w)
        else case tw_request W (tk_address t) n w of (buffer, w) \<Rightarrow>
          (if length buffer = n then Some buffer else None, w))"

definition readRv3028Register :: "'w clock_ops \<Rightarrow> byte \<Rightarrow> Timekeeper \<Rightarrow> 'w \<Rightarrow> byte option \<times> 'w" where
  "readRv3028Register W reg t w =
     (case readRv3028Burst W reg 1 t w of (r, w) \<Rightarrow> (map_option (\<lambda>bs. bs ! 0) r, w))"

definition writeRv3028Register :: "'w clock_ops \<Rightarrow> byte \<Rightarrow> byte \<Rightarrow> Timekeeper \<Rightarrow> 'w \<Rightarrow> bool \<times> 'w" where
  "writeRv3028Register W reg value t w =
     (if \<not> tk_attached t then (False, w)
      else case tw_write W (tk_address t) [reg, value] True w of (result, w) \<Rightarrow> (result = 0, w))"

definition rv3028_time :: "bytes \<Rightarrow> CalendarTime" where
  "rv3028_time buffer =
     \<lparr>ct_year = 2000 + ucast (bcdToDec (buffer ! 6)), ct_month = bcdToDec (buffer ! 5 AND 0x1F),
      ct_day = bcdToDec (buffer ! 4 AND 0x3F), ct_hour = bcdToDec (buffer ! 2 AND 0x3F),
      ct_minute = bcdToDec (buffer ! 1 AND 0x7F), ct_second = bcdToDec (buffer ! 0 AND 0x7F)\<rparr>"

definition readRv3028 :: "'w clock_ops \<Rightarrow> Timekeeper \<Rightarrow> 'w \<Rightarrow> CalendarTime option \<times> 'w" where
  "readRv3028 W t w = (case readRv3028Burst W kRv3028TimeReg 7 t w of (r, w) \<Rightarrow> (map_option rv3028_time r, w))"

definition rv3028_values :: "CalendarTime \<Rightarrow> bytes" where
  "rv3028_values time = [decToBcd (ct_second time), decToBcd (ct_minute time), decToBcd (ct_hour time), 0x01,
     decToBcd (ct_day time), decToBcd (ct_month time), decToBcd (ucast (ct_year time mod 100))]"

definition clearPowerFlag :: "'w clock_ops \<Rightarrow> Timekeeper \<Rightarrow> 'w \<Rightarrow> bool \<times> 'w" where
  "clearPowerFlag W t w =
     (case readRv3028Register W kRv3028StatusReg t w of
        (None, w) \<Rightarrow> (False, w)
      | (Some status, w) \<Rightarrow> writeRv3028Register W kRv3028StatusReg (status AND NOT kRv3028PorfMask) t w)"

definition writeRv3028Time :: "'w clock_ops \<Rightarrow> CalendarTime \<Rightarrow> Timekeeper \<Rightarrow> 'w \<Rightarrow> bool \<times> 'w" where
  "writeRv3028Time W time t w =
     (if \<not> tk_attached t then (False, w)
      else case tw_write W (tk_address t) (kRv3028TimeReg # rv3028_values time) True w of (result, w) \<Rightarrow>
        if result \<noteq> 0 then (False, w) else clearPowerFlag W t w)"

subsection \<open>Start-up\<close>

definition time_disable :: "Timekeeper \<Rightarrow> Timekeeper" where
  "time_disable t = t\<lparr>tk_backend := BackendDisabled, tk_attached := False, tk_address := 0, tk_ready := False,
     tk_networkReady := False, tk_lastError := ''RTC disabled''\<rparr>"

definition not_ready :: "string \<Rightarrow> Timekeeper \<Rightarrow> 'w \<Rightarrow> bool \<times> Timekeeper \<times> 'w" where
  "not_ready e t w = (False, t\<lparr>tk_ready := False, tk_lastError := e\<rparr>, w)"

definition accept_start :: "CalendarTime \<Rightarrow> Timekeeper \<Rightarrow> 'w \<Rightarrow> bool \<times> Timekeeper \<times> 'w" where
  "accept_start time t w =
     (if ct_year time < 2024 then not_ready ''RTC time out of range'' t w
      else (True, t\<lparr>tk_ready := True, tk_lastError := []\<rparr>, w))"

definition beginDs3231 :: "'w clock_ops \<Rightarrow> Timekeeper \<Rightarrow> 'w \<Rightarrow> bool \<times> Timekeeper \<times> 'w" where
  "beginDs3231 W t w =
     (case ds_begin W w of
        (False, w) \<Rightarrow> not_ready ''DS3231 not detected'' t w
      | (True, w) \<Rightarrow>
          (case ds_lostPower W w of
             (True, w) \<Rightarrow> not_ready ''RTC lost power or time invalid'' t w
           | (False, w) \<Rightarrow> (case ds_now W w of (time, w) \<Rightarrow> accept_start time t w)))"

definition beginRv3028 :: "'w clock_ops \<Rightarrow> byte \<Rightarrow> Timekeeper \<Rightarrow> 'w \<Rightarrow> bool \<times> Timekeeper \<times> 'w" where
  "beginRv3028 W address t w =
     (case tw_write W address [] True w of (result, w) \<Rightarrow>
        if result \<noteq> 0 then not_ready ''RV-3028 not detected'' t w
        else case readRv3028Register W kRv3028StatusReg t w of
          (None, w) \<Rightarrow> not_ready ''RV-3028 status read failed'' t w
        | (Some status, w) \<Rightarrow>
            if status AND kRv3028PorfMask \<noteq> 0
            then (case writeRv3028Register W kRv3028StatusReg (status AND NOT kRv3028PorfMask) t w of
                (_, w) \<Rightarrow> not_ready ''RTC lost power or time invalid'' t w)
            else (case readRv3028 W t w of
                (None, w) \<Rightarrow> not_ready ''RV-3028 time read failed'' t w
              | (Some time, w) \<Rightarrow> accept_start time t w))"

definition time_begin :: "'w clock_ops \<Rightarrow> RtcConfig \<Rightarrow> Timekeeper \<Rightarrow> 'w \<Rightarrow> bool \<times> Timekeeper \<times> 'w" where
  "time_begin W config t w =
     (let t = t\<lparr>tk_attached := True, tk_address := rtc_address config\<rparr> in
      case rtc_kind config of
        KindDs3231 \<Rightarrow> beginDs3231 W (t\<lparr>tk_backend := BackendDs3231\<rparr>) w
      | KindRv3028 \<Rightarrow> beginRv3028 W (rtc_address config) (t\<lparr>tk_backend := BackendRv3028\<rparr>) w)"

subsection \<open>Setting and reading the time\<close>

definition calendar_of :: "tm \<Rightarrow> CalendarTime" where
  "calendar_of x = \<lparr>ct_year = of_int (tm_year x + 1900), ct_month = of_int (tm_mon x + 1), ct_day = of_int (tm_mday x),
     ct_hour = of_int (tm_hour x), ct_minute = of_int (tm_min x), ct_second = of_int (tm_sec x)\<rparr>"

text \<open>The conversion, and nothing before 2024.\<close>

definition recent :: "tm option \<Rightarrow> CalendarTime option" where
  "recent r = (case r of None \<Rightarrow> None | Some x \<Rightarrow> if tm_year x < 124 then None else Some (calendar_of x))"

definition setFromUnixTime :: "'w clock_ops \<Rightarrow> u32 \<Rightarrow> Timekeeper \<Rightarrow> 'w \<Rightarrow> bool \<times> Timekeeper \<times> 'w" where
  "setFromUnixTime W utcEpoch t w =
     (case recent (ck_localtime W (uint utcEpoch)) of
        None \<Rightarrow> not_ready ''Network time invalid'' t w
      | Some time \<Rightarrow>
          (case (case tk_backend t of
                   BackendDs3231 \<Rightarrow> (True, ds_adjust W time w)
                 | BackendRv3028 \<Rightarrow> writeRv3028Time W time t w
                 | BackendDisabled \<Rightarrow> (False, w)) of
             (written, w) \<Rightarrow> (written, t\<lparr>tk_networkReady := True, tk_ready := written,
               tk_lastError := (if written then [] else ''RTC time write failed'')\<rparr>, w)))"

definition readNetworkTime :: "'w clock_ops \<Rightarrow> Timekeeper \<Rightarrow> 'w \<Rightarrow> CalendarTime option" where
  "readNetworkTime W t w = (if \<not> tk_networkReady t then None else recent (ck_localtime W (ck_time W w)))"

definition readDs3231 :: "'w clock_ops \<Rightarrow> 'w \<Rightarrow> CalendarTime option \<times> 'w" where
  "readDs3231 W w = (case ds_now W w of (time, w) \<Rightarrow> (Some time, w))"

definition readCurrentTime :: "'w clock_ops \<Rightarrow> Timekeeper \<Rightarrow> 'w \<Rightarrow> CalendarTime option \<times> 'w" where
  "readCurrentTime W t w =
     (case tk_backend t of BackendDs3231 \<Rightarrow> readDs3231 W w | BackendRv3028 \<Rightarrow> readRv3028 W t w
      | BackendDisabled \<Rightarrow> (None, w))"

text \<open>The battery-backed clock if it is ready and answers, else network time.\<close>

definition best_time :: "'w clock_ops \<Rightarrow> Timekeeper \<Rightarrow> 'w \<Rightarrow> CalendarTime option \<times> 'w" where
  "best_time W t w =
     (case (if tk_ready t then readCurrentTime W t w else (None, w)) of
        (Some time, w) \<Rightarrow> (Some time, w)
      | (None, w) \<Rightarrow> (readNetworkTime W t w, w))"

definition calendar_text :: "CalendarTime \<Rightarrow> string" where
  "calendar_text c = formatTimestamp (uint (ct_year c)) (uint (ct_month c)) (uint (ct_day c)) (uint (ct_hour c))
     (uint (ct_minute c)) (uint (ct_second c))"

definition logTimestamp :: "'w clock_ops \<Rightarrow> u32 \<Rightarrow> Timekeeper \<Rightarrow> 'w \<Rightarrow> string \<times> 'w" where
  "logTimestamp W uptimeMs t w =
     (case best_time W t w of
        (None, w) \<Rightarrow> (fallbackTimestamp uptimeMs, w)
      | (Some now, w) \<Rightarrow> (calendar_text now, w))"

definition dateStamp :: "'w clock_ops \<Rightarrow> Timekeeper \<Rightarrow> 'w \<Rightarrow> string \<times> 'w" where
  "dateStamp W t w =
     (case best_time W t w of
        (None, w) \<Rightarrow> (''boot'', w)
      | (Some now, w) \<Rightarrow> (formatDateStamp (uint (ct_year now)) (uint (ct_month now)) (uint (ct_day now)), w))"

definition transportTimestamp :: "'w clock_ops \<Rightarrow> u32 \<Rightarrow> Timekeeper \<Rightarrow> 'w \<Rightarrow> string" where
  "transportTimestamp W uptimeMs t w =
     (if \<not> tk_networkReady t then fallbackTimestamp uptimeMs
      else case recent (ck_gmtime W (ck_time W w)) of
        None \<Rightarrow> fallbackTimestamp uptimeMs
      | Some now \<Rightarrow> (calendar_text now)[10 := CHR ''T''] @ ''Z'')"

subsection \<open>What the RV-3028 is given is what it is read as\<close>

lemma bcd_all: "\<forall>n\<in>set [0..<100]. bcdToDec (decToBcd (of_nat n)) = of_nat n"
  by code_simp

lemma bcd_masks:
  "\<forall>n\<in>set [0..<80]. decToBcd (of_nat n) AND 0x7F = decToBcd (of_nat n)"
  "\<forall>n\<in>set [0..<40]. decToBcd (of_nat n) AND 0x3F = decToBcd (of_nat n)"
  "\<forall>n\<in>set [0..<20]. decToBcd (of_nat n) AND 0x1F = decToBcd (of_nat n)"
  by code_simp+

lemma byte_below:
  assumes "\<forall>n\<in>set [0..<k]. P (of_nat n :: byte)" "unat v < k"
  shows "P v"
  using assms(1) [rule_format, of "unat v"] assms(2) by simp

lemmas bcd_simps = byte_below [OF bcd_all] byte_below [OF bcd_masks(1)] byte_below [OF bcd_masks(2)]
  byte_below [OF bcd_masks(3)]

text \<open>For the years of this century: the register format has two digits.\<close>

lemma rv3028_time_values:
  assumes "2000 \<le> uint (ct_year c)" "uint (ct_year c) < 2100" "unat (ct_month c) \<le> 12" "unat (ct_day c) \<le> 31"
    "unat (ct_hour c) < 24" "unat (ct_minute c) < 60" "unat (ct_second c) < 60"
  shows "rv3028_time (rv3028_values c) = c"
proof -
  define n where "n = nat (uint (ct_year c) - 2000)"
  have n: "n < 100" "uint (ct_year c) = 2000 + int n" using assms(1,2) by (auto simp: n_def)
  then have y: "ct_year c = 2000 + of_nat n" by (metis of_int_add of_int_numeral of_int_of_nat_eq word_of_int_uint)
  have "ct_year c mod 100 = of_nat n"
  proof -
    have "(2000 + int n) mod 100 = int n" using mod_mult_self1 [of "int n" 20 100] n(1) by (simp add: add.commute)
    then have "uint (ct_year c mod 100) = int n" using n(2) by (simp add: uint_mod)
    moreover have "uint (of_nat n :: u16) = int n" using n(1) by (simp add: unsigned_of_nat take_bit_nat_eq_self)
    ultimately show ?thesis by (simp only: word_uint_eq_iff)
  qed
  then have m: "ucast (ct_year c mod 100) = (of_nat n :: byte)"
    using n(1) by (simp add: unsigned_of_nat take_bit_nat_eq_self)
  have u: "unat (of_nat n :: byte) < 100" using n(1) by (simp add: unsigned_of_nat take_bit_nat_eq_self)
  have "2000 + ucast (bcdToDec (decToBcd (of_nat n))) = ct_year c"
    using bcd_simps(1) [OF u] n(1) by (simp add: y unsigned_of_nat take_bit_nat_eq_self)
  then show ?thesis
    using assms bcd_simps [of "ct_month c"] bcd_simps [of "ct_day c"] bcd_simps [of "ct_hour c"] bcd_simps [of "ct_minute c"]
      bcd_simps [of "ct_second c"]
    by (simp add: rv3028_time_def rv3028_values_def m)
qed

subsection \<open>The transport timestamp and the queue's parser\<close>

text \<open>What \<open>gmtime_r\<close> documents: the calendar fields of an instant.\<close>

definition tm_of :: "int \<Rightarrow> tm \<Rightarrow> bool" where
  "tm_of e x \<longleftrightarrow> 0 \<le> tm_mon x \<and> tm_mon x \<le> 11 \<and> 1 \<le> tm_mday x \<and>
     tm_mday x \<le> days_in_month (tm_year x + 1900) (tm_mon x + 1) \<and> 0 \<le> tm_hour x \<and> tm_hour x \<le> 23 \<and>
     0 \<le> tm_min x \<and> tm_min x \<le> 59 \<and> 0 \<le> tm_sec x \<and> tm_sec x \<le> 59 \<and>
     calendar_seconds (tm_year x + 1900) (tm_mon x + 1) (tm_mday x) (tm_hour x) (tm_min x) (tm_sec x) = e"

definition synced :: "'w clock_ops \<Rightarrow> Timekeeper \<Rightarrow> 'w \<Rightarrow> bool" where
  "synced W t w \<longleftrightarrow> tk_networkReady t \<and> recent (ck_gmtime W (ck_time W w)) \<noteq> None"

lemma epoch_fallback: "epoch (Some (fallbackTimestamp n)) = 0"
  by (simp add: epoch_def fallbackTimestamp_def)

lemma calendar_utc_text:
  assumes "valid_fields y mo d h mi s" "0 \<le> h" "0 \<le> mi" "0 \<le> s"
  shows "(formatTimestamp y mo d h mi s)[10 := CHR ''T''] @ ''Z'' = utc_text y mo d h mi s"
proof -
  note B = valid_fields_bounds [OF assms]
  have len: "length (fmt_d 4 y) = 4" "length (fmt_d 2 mo) = 2" "length (fmt_d 2 d) = 2"
    "length (fmt_d 2 h) = 2" "length (fmt_d 2 mi) = 2" "length (fmt_d 2 s) = 2"
    using B assms by (simp_all add: fmt_d_fits)
  show ?thesis
    by (simp add: formatTimestamp_def snprintf_def utc_text_def list_update_append len)
qed

lemma transport_epoch:
  assumes "synced W t w" "ck_gmtime W (ck_time W w) = Some x" "tm_of (ck_time W w) x" "tm_year x \<le> 199"
  shows "uint (epoch (Some (transportTimestamp W n t w))) = ck_time W w"
proof -
  let ?y = "tm_year x + 1900" and ?mo = "tm_mon x + 1"
  have y: "124 \<le> tm_year x" "tk_networkReady t"
    using assms(1,2) by (auto simp: synced_def recent_def split: if_splits)
  have v: "valid_fields ?y ?mo (tm_mday x) (tm_hour x) (tm_min x) (tm_sec x)" "0 \<le> tm_hour x" "0 \<le> tm_min x" "0 \<le> tm_sec x"
    using assms(3,4) y(1) by (auto simp: valid_fields_def tm_of_def days_in_month_def)
  note B = valid_fields_bounds [OF v]
  have "calendar_text (calendar_of x) = formatTimestamp ?y ?mo (tm_mday x) (tm_hour x) (tm_min x) (tm_sec x)"
    using B v y(1) by (simp add: calendar_text_def calendar_of_def unsigned_of_int take_bit_int_eq_self del: of_int_add)
  then have "transportTimestamp W n t w = utc_text ?y ?mo (tm_mday x) (tm_hour x) (tm_min x) (tm_sec x)"
    using y assms(2) calendar_utc_text [OF v] by (simp add: transportTimestamp_def recent_def)
  then show ?thesis
    using uint_epoch_of_fields(1) [OF v] epoch_utc_text [OF v] assms(3) by (simp add: tm_of_def)
qed

text \<open>
  C32: The timestamp of a record carries the time: when the clock is synchronised, the queue's parser
  reads the epoch the record was stamped with from its text, to the second; a record stamped without
  network time, or with a time before 2024, has no epoch, whatever the local clock says.
\<close>

theorem transport_time_roundtrip:
  assumes "\<forall>x. ck_gmtime W (ck_time W w) = Some x \<longrightarrow> tm_of (ck_time W w) x \<and> tm_year x + 1900 \<le> 2099"
  shows "uint (epoch (Some (transportTimestamp W uptimeMs t w))) = (if synced W t w then ck_time W w else 0)"
proof (cases "synced W t w")
  case True
  then obtain x where "ck_gmtime W (ck_time W w) = Some x" by (auto simp: synced_def recent_def split: option.splits)
  then show ?thesis using transport_epoch [OF True, of x] assms True by simp
next
  case False
  then have "transportTimestamp W uptimeMs t w = fallbackTimestamp uptimeMs"
    by (auto simp: synced_def transportTimestamp_def split: option.splits)
  then show ?thesis using False by (simp add: epoch_fallback)
qed

definition noon :: tm where
  "noon = \<lparr>tm_year = 126, tm_mon = 1, tm_mday = 28, tm_hour = 12, tm_min = 0, tm_sec = 0\<rparr>"

definition still_clock :: "unit clock_ops" where
  "still_clock = \<lparr>tw_write = (\<lambda>a bs stop w. (0, w)), tw_request = (\<lambda>a n w. (replicate n 0, w)), ds_begin = (\<lambda>w. (False, w)),
     ds_lostPower = (\<lambda>w. (True, w)), ds_now = (\<lambda>w. (calendar_of noon, w)), ds_adjust = (\<lambda>t w. w),
     ck_time = (\<lambda>w. 1772280000), ck_localtime = (\<lambda>e. Some noon), ck_gmtime = (\<lambda>e. Some noon)\<rparr>"

theorem transport_time_roundtrip_witness:
  "uint (epoch (Some (transportTimestamp still_clock 7 (fresh_timekeeper\<lparr>tk_networkReady := True\<rparr>) ()))) = 1772280000 \<and>
   uint (epoch (Some (transportTimestamp still_clock 7 fresh_timekeeper ()))) = 0"
proof -
  have "calendar_seconds 2026 2 28 12 0 0 = 1772280000" "days_in_month 2026 2 = 28" by code_simp+
  then have 1: "\<forall>x. ck_gmtime still_clock (ck_time still_clock ()) = Some x \<longrightarrow>
      tm_of (ck_time still_clock ()) x \<and> tm_year x + 1900 \<le> 2099"
    by (simp add: still_clock_def tm_of_def noon_def)
  have "synced still_clock (fresh_timekeeper\<lparr>tk_networkReady := True\<rparr>) ()" "\<not> synced still_clock fresh_timekeeper ()"
    "ck_time still_clock () = 1772280000"
    by (simp_all add: synced_def fresh_timekeeper_def still_clock_def recent_def noon_def)
  then show ?thesis
    using transport_time_roundtrip [OF 1, of 7 "fresh_timekeeper\<lparr>tk_networkReady := True\<rparr>"]
      transport_time_roundtrip [OF 1, of 7 fresh_timekeeper] by simp
qed

end
