(* ===== verification/CsvLogger.thy ===== *)
theory CsvLogger
  imports LiveUpload Timekeeper Flash "HOL-Library.Sublist"
begin

section \<open>CsvLogger: one CSV file per day on the microSD card\<close>

text \<open>
  \<open>logger/firmware/src/CsvLogger.cpp\<close>: opening the file of the day, its header, one row per sample,
  flushing, the listing and the opening of a file for download. The card is the file system interface
  of theory \<open>Flash\<close> (both are the Arduino \<open>fs::FS\<close>); the conversion of a reading to text, whether the
  card mounts and its directory are parameters.
\<close>

subsection \<open>State\<close>

record CsvLogger =
  cl_ready :: bool
  cl_currentFileName :: string
  cl_lastError :: string
  cl_file :: "string option"
  cl_lastFlushMs :: u32
  cl_rowsSinceFlush :: u16
  cl_rowsWritten :: u32
  cl_lastWriteMs :: u32
  cl_incompleteRow :: bool

definition fresh_csv :: CsvLogger where
  "fresh_csv = \<lparr>cl_ready = False, cl_currentFileName = [], cl_lastError = [], cl_file = None, cl_lastFlushMs = 0,
     cl_rowsSinceFlush = 0, cl_rowsWritten = 0, cl_lastWriteMs = 0, cl_incompleteRow = False\<rparr>"

abbreviation csv_error :: "string \<Rightarrow> CsvLogger \<Rightarrow> CsvLogger" where
  "csv_error e c \<equiv> c\<lparr>cl_lastError := e\<rparr>"

definition csv_disable :: "CsvLogger \<Rightarrow> CsvLogger" where
  "csv_disable c = c\<lparr>cl_ready := False, cl_currentFileName := [], cl_lastError := ''microSD logging disabled'',
     cl_file := None\<rparr>"

definition csv_begin :: "bool \<Rightarrow> CsvLogger \<Rightarrow> bool \<times> CsvLogger" where
  "csv_begin mounted c =
     (if \<not> mounted then (False, c\<lparr>cl_ready := False, cl_lastError := ''microSD mount failed''\<rparr>)
      else (True, c\<lparr>cl_ready := True, cl_lastError := []\<rparr>))"

definition csv_lastWriteAgeMs :: "u32 \<Rightarrow> CsvLogger \<Rightarrow> u32" where
  "csv_lastWriteAgeMs now c = (if cl_rowsWritten c \<noteq> 0 then now - cl_lastWriteMs c else 4294967295)"

subsection \<open>Header and rows\<close>

definition csv_header :: "'f SensorSnapshot list \<Rightarrow> string" where
  "csv_header sensors = ''timestamp,uptime_ms'' @ concat (map (\<lambda>s. '','' @ ss_id s @ ''_value'' @ '','' @ ss_id s @ ''_mA'' @
     '','' @ ss_id s @ ''_fault'') sensors)"

definition csv_row :: "('f \<Rightarrow> string) \<Rightarrow> string \<Rightarrow> u32 \<Rightarrow> 'f SensorSnapshot list \<Rightarrow> string" where
  "csv_row text3 timestamp uptimeMs sensors = timestamp @ '','' @ u32_text uptimeMs @
     concat (map (\<lambda>s. '','' @ text3 (ss_filteredValue s) @ '','' @ text3 (ss_loopCurrentmA s) @ '','' @
       sensorFaultToString (ss_activeFault s)) sensors) @ [CHR 0x0A]"

text \<open>\<open>println\<close> is a write of the text and one of the line end.\<close>

definition print_line :: "'fs lfs_ops \<Rightarrow> string \<Rightarrow> string \<Rightarrow> 'fs \<Rightarrow> nat \<times> 'fs" where
  "print_line L path text fs =
     (case f_write L path (raw text) fs of (n, fs) \<Rightarrow>
      case f_write L path [0x0D, 0x0A] fs of (m, fs) \<Rightarrow> (n + m, fs))"

definition writeHeaderIfNeeded ::
  "'fs lfs_ops \<Rightarrow> 'f SensorSnapshot list \<Rightarrow> CsvLogger \<Rightarrow> 'fs \<Rightarrow> bool \<times> CsvLogger \<times> 'fs" where
  "writeHeaderIfNeeded L sensors c fs =
     (case cl_file c of
        None \<Rightarrow> (False, csv_error ''CSV header write failed'' c, fs)
      | Some path \<Rightarrow>
          (case print_line L path (csv_header sensors) fs of (n, fs) \<Rightarrow>
             if n \<noteq> length (csv_header sensors) + 2 then (False, csv_error ''CSV header write failed'' c, fs)
             else (True, c\<lparr>cl_lastFlushMs := 0, cl_rowsSinceFlush := 0\<rparr>, fs)))"

definition csv_path :: "string \<Rightarrow> string" where
  "csv_path date = ''/logs-'' @ date @ ''.csv''"

text \<open>The file was empty before a header that failed: it is removed, or logging stops.\<close>

definition drop_header :: "'fs lfs_ops \<Rightarrow> string \<Rightarrow> CsvLogger \<Rightarrow> 'fs \<Rightarrow> bool \<times> CsvLogger \<times> 'fs" where
  "drop_header L path c fs =
     (let c = c\<lparr>cl_file := None, cl_currentFileName := []\<rparr> in
      case lfs_remove L path fs of
        (True, fs) \<Rightarrow> (False, c, fs)
      | (False, fs) \<Rightarrow> (False, c\<lparr>cl_ready := False,
          cl_lastError := ''CSV header write failed; incomplete file could not be removed''\<rparr>, fs))"

definition ensureFileOpen ::
  "'fs lfs_ops \<Rightarrow> string \<Rightarrow> 'f SensorSnapshot list \<Rightarrow> CsvLogger \<Rightarrow> 'fs \<Rightarrow> bool \<times> CsvLogger \<times> 'fs" where
  "ensureFileOpen L date sensors c fs =
     (let path = csv_path date in
      if cl_file c \<noteq> None \<and> cl_currentFileName c = path then (True, c, fs)
      else let newFile = (\<not> lfs_exists L path fs) in
        case open_append L path fs of
          (False, fs) \<Rightarrow> (False, c\<lparr>cl_file := None, cl_lastError := ''Open log file failed''\<rparr>, fs)
        | (True, fs) \<Rightarrow>
            let c = c\<lparr>cl_file := Some path, cl_currentFileName := path\<rparr> in
            if newFile \<or> f_size L path fs = 0
            then case writeHeaderIfNeeded L sensors c fs of
                (True, c, fs) \<Rightarrow> (True, c, fs)
              | (False, c, fs) \<Rightarrow> drop_header L path c fs
            else (True, c, fs))"

text \<open>A torn row is ended before the next one is tried.\<close>

definition end_torn_row :: "'fs lfs_ops \<Rightarrow> string \<Rightarrow> CsvLogger \<Rightarrow> 'fs \<Rightarrow> bool \<times> CsvLogger \<times> 'fs" where
  "end_torn_row L path c fs =
     (if \<not> cl_incompleteRow c then (True, c, fs)
      else case f_write L path [0x0A] fs of (n, fs) \<Rightarrow>
        if n \<noteq> 1 then (False, csv_error ''CSV write failed'' c, fs)
        else (True, c\<lparr>cl_incompleteRow := False\<rparr>, fs))"

definition write_row ::
  "'fs lfs_ops \<Rightarrow> string \<Rightarrow> bytes \<Rightarrow> u32 \<Rightarrow> CsvLogger \<Rightarrow> 'fs \<Rightarrow> bool \<times> CsvLogger \<times> 'fs" where
  "write_row L path row uptimeMs c fs =
     (case end_torn_row L path c fs of
        (False, c, fs) \<Rightarrow> (False, c, fs)
      | (True, c, fs) \<Rightarrow>
          (case f_write L path row fs of (n, fs) \<Rightarrow>
             if n \<noteq> length row
             then (False, c\<lparr>cl_incompleteRow := True, cl_lastError := ''CSV write failed''\<rparr>, fs)
             else (True, c\<lparr>cl_rowsSinceFlush := cl_rowsSinceFlush c + 1,
                 cl_rowsWritten := (if cl_rowsWritten c \<noteq> 4294967295 then cl_rowsWritten c + 1 else cl_rowsWritten c),
                 cl_lastWriteMs := uptimeMs, cl_lastError := []\<rparr>, fs)))"

text \<open>\<open>logRow\<close> once the time has been read: the file of the date, then the row.\<close>

definition log_dated ::
  "'fs lfs_ops \<Rightarrow> ('f \<Rightarrow> string) \<Rightarrow> string \<Rightarrow> string \<Rightarrow> u32 \<Rightarrow> 'f SensorSnapshot list \<Rightarrow> CsvLogger \<Rightarrow> 'fs \<Rightarrow>
   bool \<times> CsvLogger \<times> 'fs" where
  "log_dated L text3 date timestamp uptimeMs sensors c fs =
     (if \<not> cl_ready c
      then (False, if cl_lastError c = [] then csv_error ''microSD logging disabled'' c else c, fs)
      else case ensureFileOpen L date sensors c fs of
        (False, c, fs) \<Rightarrow> (False, c, fs)
      | (True, c, fs) \<Rightarrow> write_row L (csv_path date) (raw (csv_row text3 timestamp uptimeMs sensors)) uptimeMs c fs)"

definition logRow ::
  "'fs lfs_ops \<Rightarrow> 'w clock_ops \<Rightarrow> ('f \<Rightarrow> string) \<Rightarrow> Timekeeper \<Rightarrow> u32 \<Rightarrow> 'f SensorSnapshot list \<Rightarrow> CsvLogger \<Rightarrow> 'fs \<Rightarrow> 'w \<Rightarrow>
   bool \<times> CsvLogger \<times> 'fs \<times> 'w" where
  "logRow L W text3 t uptimeMs sensors c fs w =
     (if \<not> cl_ready c
      then (False, if cl_lastError c = [] then csv_error ''microSD logging disabled'' c else c, fs, w)
      else case dateStamp W t w of (date, w) \<Rightarrow>
        case ensureFileOpen L date sensors c fs of
          (False, c, fs) \<Rightarrow> (False, c, fs, w)
        | (True, c, fs) \<Rightarrow>
            (case logTimestamp W uptimeMs t w of (timestamp, w) \<Rightarrow>
             case write_row L (csv_path date) (raw (csv_row text3 timestamp uptimeMs sensors)) uptimeMs c fs of
               (ok, c, fs) \<Rightarrow> (ok, c, fs, w)))"

definition flushIfNeeded :: "u32 \<Rightarrow> u16 \<Rightarrow> u32 \<Rightarrow> CsvLogger \<Rightarrow> CsvLogger" where
  "flushIfNeeded flushIntervalMs flushRows uptimeMs c =
     (if \<not> cl_ready c \<or> cl_file c = None then c
      else if flushIntervalMs \<le> since uptimeMs (cl_lastFlushMs c) \<or> flushRows \<le> cl_rowsSinceFlush c
      then c\<lparr>cl_lastFlushMs := uptimeMs, cl_rowsSinceFlush := 0\<rparr> else c)"

subsection \<open>Listing and reading\<close>

text \<open>The root directory as a list of names, whether each is a directory, and sizes; \<open>None\<close> if it does not open.\<close>

definition listFilesJson :: "(string \<times> bool \<times> nat) list option \<Rightarrow> CsvLogger \<Rightarrow> string" where
  "listFilesJson root c =
     (case root of Some entries \<Rightarrow>
          if cl_ready c
          then ''['' @ comma_join (map (\<lambda>(name, _, n). ''{'' @ jkey ''name'' @ quoted name @ '','' @ jkey ''size'' @ dec n @ ''}'')
            (filter (\<lambda>(name, dir, _). \<not> dir \<and> ends_with ''.csv'' name) entries)) @ '']''
          else ''[]''
      | None \<Rightarrow> ''[]'')"

definition openReadOnly :: "'fs lfs_ops \<Rightarrow> string \<Rightarrow> CsvLogger \<Rightarrow> 'fs \<Rightarrow> string option" where
  "openReadOnly L userVisibleName c fs =
     (let normalized = normalizeLogFileName userVisibleName in
      if \<not> cl_ready c \<or> normalized = [] then None
      else if open_read L normalized fs then Some normalized else None)"

lemma logRow_dated:
  assumes "cl_ready c" "dateStamp W t w = (date, w1)" "logTimestamp W uptimeMs t w1 = (timestamp, w2)"
  shows "(case logRow L W text3 t uptimeMs sensors c fs w of (ok, c', fs', _) \<Rightarrow> (ok, c', fs')) =
    log_dated L text3 date timestamp uptimeMs sensors c fs"
  using assms by (simp add: logRow_def log_dated_def split: prod.splits bool.splits)

subsection \<open>The lines of a file\<close>

fun text_lines :: "bytes \<Rightarrow> bytes list" where
  "text_lines [] = [[]]"
| "text_lines (b # bs) = (if b = 0x0A then [] # text_lines bs
     else (case text_lines bs of [] \<Rightarrow> [[b]] | l # ls \<Rightarrow> (b # l) # ls))"

lemma text_lines_not_Nil [simp]: "text_lines bs \<noteq> []"
  by (cases bs) (auto split: list.splits)

lemma text_lines_plain: "0x0A \<notin> set r \<Longrightarrow> text_lines r = [r]"
  by (induction r) auto

lemma text_lines_append:
  assumes "text_lines a = ls @ [t]"
  shows "text_lines (a @ b) = ls @ (t @ hd (text_lines b)) # tl (text_lines b)"
  using assms
proof (induction a arbitrary: ls t)
  case (Cons x a)
  obtain ms u where a: "text_lines a = ms @ [u]" by (metis rev_exhaust text_lines_not_Nil)
  note IH = Cons.IH [OF a]
  show ?case
  proof (cases "x = 0x0A")
    case True
    then have "ls = [] # ms" "t = u" using Cons.prems a by (auto simp: append_eq_Cons_conv)
    then show ?thesis using True IH by simp
  next
    case False
    show ?thesis
    proof (cases ms)
      case Nil
      then have "ls = []" "t = x # u" using Cons.prems a False by auto
      then show ?thesis using False IH Nil by simp
    next
      case (Cons m ns)
      then have "ls = (x # m) # ns" "t = u" using Cons.prems a False by auto
      then show ?thesis using False IH Cons by simp
    qed
  qed
qed simp

lemma text_lines_extend: "text_lines a = ls @ [t] \<Longrightarrow> 0x0A \<notin> set r \<Longrightarrow> text_lines (a @ r) = ls @ [t @ r]"
  by (simp add: text_lines_append text_lines_plain)

lemma text_lines_end: "text_lines a = ls @ [t] \<Longrightarrow> text_lines (a @ [0x0A]) = ls @ [t, []]"
  by (simp add: text_lines_append)

text \<open>A row without its line end.\<close>

definition csv_line :: "('f \<Rightarrow> string) \<Rightarrow> string \<times> u32 \<times> 'f SensorSnapshot list \<Rightarrow> bytes" where
  "csv_line text3 x = (case x of (timestamp, uptimeMs, sensors) \<Rightarrow> raw (butlast (csv_row text3 timestamp uptimeMs sensors)))"

lemma csv_row_line: "raw (csv_row text3 timestamp uptimeMs sensors) = csv_line text3 (timestamp, uptimeMs, sensors) @ [0x0A]"
  by (simp add: csv_line_def csv_row_def raw_def butlast_append code_def)

text \<open>
  Attempts of one day: the lines of the rows reported as written, in order. A file \<open>holds_rows\<close> if
  behind the lines of a header its lines contain these rows in order, each line is a prefix of a row
  that was tried, and the last one is empty unless a torn row is known.
\<close>

fun csv_run ::
  "'fs lfs_ops \<Rightarrow> ('f \<Rightarrow> string) \<Rightarrow> string \<Rightarrow> (string \<times> u32 \<times> 'f SensorSnapshot list) list \<Rightarrow> CsvLogger \<Rightarrow> 'fs \<Rightarrow>
   bytes list \<times> CsvLogger \<times> 'fs" where
  "csv_run L text3 date [] c fs = ([], c, fs)"
| "csv_run L text3 date (x # xs) c fs =
     (case log_dated L text3 date (fst x) (fst (snd x)) (snd (snd x)) c fs of
        (ok, c, fs) \<Rightarrow> (case csv_run L text3 date xs c fs of
          (rows, c, fs) \<Rightarrow> (if ok then csv_line text3 x # rows else rows, c, fs)))"

definition holds_rows :: "bytes \<Rightarrow> bytes list \<Rightarrow> bytes set \<Rightarrow> bool \<Rightarrow> bool" where
  "holds_rows content rows tried torn_row \<longleftrightarrow>
     (\<exists>header ls t. text_lines content = text_lines header @ ls @ [t] \<and> subseq rows ls \<and>
        (\<forall>l\<in>set (ls @ [t]). l = [] \<or> (\<exists>r\<in>tried. prefix l r)) \<and> (\<not> torn_row \<longrightarrow> t = []))"

lemma holds_header: "holds_rows (h @ [0x0A]) [] tried False"
proof -
  obtain ls t where "text_lines h = ls @ [t]" by (metis rev_exhaust text_lines_not_Nil)
  then show ?thesis unfolding holds_rows_def
    by - (rule exI [of _ h], rule exI [of _ "[]"], rule exI [of _ "[]"], simp add: text_lines_end)
qed

lemma holds_torn:
  assumes "holds_rows c rows tried False" "prefix f r" "0x0A \<notin> set r" "r \<in> tried"
  shows "holds_rows (c @ f) rows tried True"
proof -
  obtain header ls where h: "text_lines c = text_lines header @ ls @ [[]]" "subseq rows ls"
    "\<forall>l\<in>set ls. l = [] \<or> (\<exists>r\<in>tried. prefix l r)" using assms(1) by (auto simp: holds_rows_def)
  have "text_lines c = (text_lines header @ ls) @ [[]]" using h(1) by simp
  moreover have "0x0A \<notin> set f" using assms(2,3) by (auto dest: set_mono_prefix)
  ultimately have "text_lines (c @ f) = text_lines header @ ls @ [f]" using text_lines_extend by fastforce
  then show ?thesis unfolding holds_rows_def using h assms(2,4)
    by - (rule exI [of _ header], rule exI [of _ ls], rule exI [of _ f], auto)
qed

lemma holds_ended:
  assumes "holds_rows c rows tried b"
  shows "holds_rows (c @ [0x0A]) rows tried False"
proof -
  obtain header ls t where h: "text_lines c = text_lines header @ ls @ [t]" "subseq rows ls"
    "\<forall>l\<in>set (ls @ [t]). l = [] \<or> (\<exists>r\<in>tried. prefix l r)" using assms by (auto simp: holds_rows_def)
  have "text_lines (c @ [0x0A]) = text_lines header @ (ls @ [t]) @ [[]]"
    using text_lines_end [of c "text_lines header @ ls" t] h(1) by simp
  moreover have "subseq rows (ls @ [t])" using h(2) by (rule subseq_rev_drop_many)
  ultimately show ?thesis unfolding holds_rows_def using h(3)
    by - (rule exI [of _ header], rule exI [of _ "ls @ [t]"], rule exI [of _ "[]"], simp)
qed

lemma holds_row:
  assumes "holds_rows c rows tried False" "0x0A \<notin> set r" "r \<in> tried"
  shows "holds_rows (c @ r @ [0x0A]) (rows @ [r]) tried False"
proof -
  obtain header ls where h: "text_lines c = text_lines header @ ls @ [[]]" "subseq rows ls"
    "\<forall>l\<in>set ls. l = [] \<or> (\<exists>r\<in>tried. prefix l r)" using assms(1) by (auto simp: holds_rows_def)
  have "text_lines (c @ r) = (text_lines header @ ls) @ [r]"
    using text_lines_extend [of c "text_lines header @ ls" "[]" r] h(1) assms(2) by simp
  then have "text_lines ((c @ r) @ [0x0A]) = text_lines header @ (ls @ [r]) @ [[]]"
    using text_lines_end [of "c @ r" "text_lines header @ ls" r] by simp
  moreover have "subseq (rows @ [r]) (ls @ [r])" using h(2) by (rule list_emb_append_mono) simp
  ultimately show ?thesis unfolding holds_rows_def using h(3) assms(3)
    by - (rule exI [of _ header], rule exI [of _ "ls @ [r]"], rule exI [of _ "[]"], auto)
qed

text \<open>
  Either the file is not there and nothing has been written, or it is open and holds the rows; when
  a header cannot be removed, logging has stopped before any row.
\<close>

definition csv_inv :: "(string \<Rightarrow> bytes option) \<Rightarrow> string \<Rightarrow> bytes set \<Rightarrow> CsvLogger \<Rightarrow> bytes list \<Rightarrow> bool" where
  "csv_inv F path tried c rows \<longleftrightarrow>
     (F path = None \<and> rows = [] \<and> \<not> (cl_file c \<noteq> None \<and> cl_currentFileName c = path) \<and> \<not> cl_incompleteRow c) \<or>
     (cl_file c \<noteq> None \<and> cl_currentFileName c = path \<and>
        (\<exists>b. F path = Some b \<and> holds_rows b rows tried (cl_incompleteRow c))) \<or>
     (\<not> cl_ready c \<and> rows = [])"

lemma opened_ready: "ensureFileOpen L date sensors c fs = (True, c', fs') \<Longrightarrow> cl_ready c' = cl_ready c"
  by (auto simp: ensureFileOpen_def writeHeaderIfNeeded_def drop_header_def Let_def split: if_splits prod.splits bool.splits option.splits)

context flash
begin

lemma print_line_law:
  assumes "files fs p = Some c" "print_line L p text fs = (n, fs')" "n = length text + 2"
  shows "files fs' = (files fs)(p := Some (c @ raw text @ [0x0D, 0x0A]))"
proof -
  obtain k f where a: "f_write L p (raw text) fs = (k, f)" by fastforce
  obtain m g where b: "f_write L p [0x0D, 0x0A] f = (m, g)" by fastforce
  have A: "k \<le> length text" "files f = (files fs)(p := Some (c @ take k (raw text)))"
    using write_law [OF assms(1) a] by (simp_all add: raw_def)
  have B: "m \<le> 2" "files g = (files f)(p := Some ((c @ take k (raw text)) @ take m [0x0D, 0x0A]))"
    using write_law [OF _ b, of "c @ take k (raw text)"] A(2) by simp_all
  have "k = length text" "m = 2" "fs' = g" using assms(2,3) A(1) B(1) by (auto simp: print_line_def a b)
  then show ?thesis using A B by (simp add: raw_def)
qed

lemma print_line_frame:
  assumes "files fs p = Some c" "print_line L p text fs = (n, fs')"
  shows "\<exists>d. files fs' p = Some d"
proof -
  obtain k f where a: "f_write L p (raw text) fs = (k, f)" by fastforce
  obtain m g where b: "f_write L p [0x0D, 0x0A] f = (m, g)" by fastforce
  have "files f p = Some (c @ take k (raw text))" using write_law [OF assms(1) a] by simp
  from write_law [OF this b] show ?thesis using assms(2) by (auto simp: print_line_def a b)
qed

lemma ensure_law:
  assumes "csv_inv (files fs) (csv_path date) tried c rows" "cl_ready c"
    and "ensureFileOpen L date sensors c fs = (ok, c', fs')"
  shows "csv_inv (files fs') (csv_path date) tried c' rows" "ok \<Longrightarrow> cl_file c' \<noteq> None \<and> cl_currentFileName c' = csv_path date"
proof -
  let ?p = "csv_path date"
  have "csv_inv (files fs') ?p tried c' rows \<and> (ok \<longrightarrow> cl_file c' \<noteq> None \<and> cl_currentFileName c' = ?p)"
  proof (cases "cl_file c \<noteq> None \<and> cl_currentFileName c = ?p")
    case True
    then show ?thesis using assms(1,3) by (auto simp: ensureFileOpen_def Let_def)
  next
    case False
    have F: "files fs ?p = None" "rows = []" "\<not> cl_incompleteRow c" using assms(1,2) False by (auto simp: csv_inv_def)
    obtain o1 f1 where a: "open_append L ?p fs = (o1, f1)" by fastforce
    show ?thesis
    proof (cases o1)
      case False
      then show ?thesis
        using assms(3) \<open>\<not> (cl_file c \<noteq> None \<and> cl_currentFileName c = ?p)\<close> F open_append_law [OF a]
        by (auto simp: ensureFileOpen_def Let_def a csv_inv_def)
    next
      case True
      have f1: "files f1 ?p = Some []" using open_append_law [OF a] True F(1) by simp
      define d where "d = c\<lparr>cl_file := Some ?p, cl_currentFileName := ?p\<rparr>"
      obtain n f2 where h: "print_line L ?p (csv_header sensors) f1 = (n, f2)" by fastforce
      have new: "\<not> lfs_exists L ?p fs" using exists_law F(1) by simp
      show ?thesis
      proof (cases "n = length (csv_header sensors) + 2")
        case True
        then have r: "ok" "c' = d\<lparr>cl_lastFlushMs := 0, cl_rowsSinceFlush := 0\<rparr>" "fs' = f2"
          using assms(3) \<open>\<not> (cl_file c \<noteq> None \<and> cl_currentFileName c = ?p)\<close> \<open>o1\<close> h new
          by (auto simp: ensureFileOpen_def Let_def a writeHeaderIfNeeded_def d_def)
        have "files f2 ?p = Some ((raw (csv_header sensors) @ [0x0D]) @ [0x0A])"
          using print_line_law [OF f1 h True] by simp
        then show ?thesis
          using holds_header [of "raw (csv_header sensors) @ [0x0D]" tried] F(2,3) by (auto simp: r csv_inv_def d_def)
      next
        case False
        obtain r f3 where m: "lfs_remove L ?p f2 = (r, f3)" by fastforce
        have "ok = False \<and> fs' = f3 \<and> c' = (if r then id else (\<lambda>c. c\<lparr>cl_ready := False,
            cl_lastError := ''CSV header write failed; incomplete file could not be removed''\<rparr>))
            ((csv_error ''CSV header write failed'' d)\<lparr>cl_file := None, cl_currentFileName := []\<rparr>)"
          using assms(3) \<open>\<not> (cl_file c \<noteq> None \<and> cl_currentFileName c = ?p)\<close> \<open>o1\<close> h new False
          by (auto simp: ensureFileOpen_def Let_def a writeHeaderIfNeeded_def d_def drop_header_def m split: if_splits bool.splits)
        then show ?thesis using remove_law [OF m] F(2,3) by (auto simp: csv_inv_def d_def)
      qed
    qed
  qed
  then show "csv_inv (files fs') ?p tried c' rows" "ok \<Longrightarrow> cl_file c' \<noteq> None \<and> cl_currentFileName c' = ?p" by blast+
qed

lemma write_row_law:
  assumes "files fs p = Some b" "holds_rows b rows tried (cl_incompleteRow c)" "0x0A \<notin> set r" "r \<in> tried"
    and "write_row L p (r @ [0x0A]) up c fs = (ok, c', fs')"
  shows "\<exists>b'. files fs' p = Some b' \<and> holds_rows b' (if ok then rows @ [r] else rows) tried (cl_incompleteRow c')"
    "cl_file c' = cl_file c \<and> cl_currentFileName c' = cl_currentFileName c \<and> cl_ready c' = cl_ready c"
proof -
  obtain o1 c1 f1 where e: "end_torn_row L p c fs = (o1, c1, f1)" by (metis prod.exhaust)
  have E: "cl_file c1 = cl_file c \<and> cl_currentFileName c1 = cl_currentFileName c \<and> cl_ready c1 = cl_ready c"
    "\<exists>b1. files f1 p = Some b1 \<and> holds_rows b1 rows tried (cl_incompleteRow c1) \<and> (o1 \<longrightarrow> \<not> cl_incompleteRow c1)"
  proof -
    obtain n f where w: "f_write L p [0x0A] fs = (n, f)" by fastforce
    note W = write_law [OF assms(1) w]
    show "cl_file c1 = cl_file c \<and> cl_currentFileName c1 = cl_currentFileName c \<and> cl_ready c1 = cl_ready c"
      using e by (auto simp: end_torn_row_def w split: if_splits)
    show "\<exists>b1. files f1 p = Some b1 \<and> holds_rows b1 rows tried (cl_incompleteRow c1) \<and> (o1 \<longrightarrow> \<not> cl_incompleteRow c1)"
    proof (cases "cl_incompleteRow c")
      case True
      show ?thesis
      proof (cases "n = 1")
        case one: True
        then show ?thesis using e True W holds_ended [OF assms(2)] by (auto simp: end_torn_row_def w)
      next
        case False
        then have "n = 0" using W by simp
        then show ?thesis using e True W assms(2) by (auto simp: end_torn_row_def w)
      qed
    qed (use e assms(1,2) in \<open>auto simp: end_torn_row_def\<close>)
  qed
  obtain b1 where b1: "files f1 p = Some b1" "holds_rows b1 rows tried (cl_incompleteRow c1)" "o1 \<longrightarrow> \<not> cl_incompleteRow c1"
    using E(2) by blast
  obtain n f where w: "f_write L p (r @ [0x0A]) f1 = (n, f)" by fastforce
  note W = write_law [OF b1(1) w]
  show "cl_file c' = cl_file c \<and> cl_currentFileName c' = cl_currentFileName c \<and> cl_ready c' = cl_ready c"
    using assms(5) E(1) by (auto simp: write_row_def e w split: if_splits bool.splits)
  show "\<exists>b'. files fs' p = Some b' \<and> holds_rows b' (if ok then rows @ [r] else rows) tried (cl_incompleteRow c')"
  proof (cases "o1")
    case False
    then show ?thesis using assms(5) b1 by (auto simp: write_row_def e)
  next
    case True
    show ?thesis
    proof (cases "n = length (r @ [0x0A])")
      case full: True
      then have "ok" "fs' = f" "\<not> cl_incompleteRow c'" using assms(5) True b1(3) by (auto simp: write_row_def e w)
      then show ?thesis using W full b1(2,3) True holds_row [of b1 rows tried r] assms(3,4) by auto
    next
      case False
      then have s: "\<not> ok" "fs' = f" "cl_incompleteRow c'" "n \<le> length r"
        using assms(5) True W by (auto simp: write_row_def e w)
      have "holds_rows (b1 @ take n r) rows tried True"
        using b1(2,3) True by (intro holds_torn [OF _ take_is_prefix assms(3,4)]) simp
      then show ?thesis using W s by simp
    qed
  qed
qed

lemma csv_run_law:
  assumes "csv_inv (files fs) (csv_path date) tried c rows" "\<forall>x\<in>set xs. 0x0A \<notin> set (csv_line text3 x) \<and> csv_line text3 x \<in> tried"
    and "csv_run L text3 date xs c fs = (new, c', fs')"
  shows "csv_inv (files fs') (csv_path date) tried c' (rows @ new)"
  using assms
proof (induction xs arbitrary: c fs rows new)
  case (Cons x xs)
  obtain ok c1 f1 where l: "log_dated L text3 date (fst x) (fst (snd x)) (snd (snd x)) c fs = (ok, c1, f1)"
    by (metis prod.exhaust)
  obtain rest where r: "csv_run L text3 date xs c1 f1 = (rest, c', fs')" "new = (if ok then csv_line text3 x # rest else rest)"
    using Cons.prems(3) by (auto simp: l split: prod.splits)
  have "csv_inv (files f1) (csv_path date) tried c1 (if ok then rows @ [csv_line text3 x] else rows)"
  proof (cases "cl_ready c")
    case False
    then have "\<not> ok" "f1 = fs" "c1 = c \<or> c1 = csv_error ''microSD logging disabled'' c"
      using l by (auto simp: log_dated_def split: if_splits)
    then show ?thesis using Cons.prems(1) by (auto simp: csv_inv_def)
  next
    case True
    obtain o1 c2 f2 where e: "ensureFileOpen L date (snd (snd x)) c fs = (o1, c2, f2)" by (metis prod.exhaust)
    note E = ensure_law [OF Cons.prems(1) True e]
    show ?thesis
    proof (cases o1)
      case False
      then show ?thesis using l True e E(1) by (auto simp: log_dated_def)
    next
      case True
      have opn: "cl_file c2 \<noteq> None" "cl_currentFileName c2 = csv_path date" using E(2) True by auto
      have w: "write_row L (csv_path date) (csv_line text3 x @ [0x0A]) (fst (snd x)) c2 f2 = (ok, c1, f1)"
        using l \<open>cl_ready c\<close> e True by (simp add: log_dated_def csv_row_line)
      consider b where "files f2 (csv_path date) = Some b" "holds_rows b rows tried (cl_incompleteRow c2)"
        | "\<not> cl_ready c2" "rows = []" using E(1) opn by (auto simp: csv_inv_def)
      then show ?thesis
      proof cases
        case 1
        have "0x0A \<notin> set (csv_line text3 x)" "csv_line text3 x \<in> tried" using Cons.prems(2) by simp_all
        from write_row_law [OF 1 this w] opn show ?thesis unfolding csv_inv_def by auto
      next
        case 2
        then show ?thesis using opened_ready [of L date "snd (snd x)" c fs c2 f2] e True \<open>cl_ready c\<close> by simp
      qed
    qed
  qed
  from Cons.IH [OF this _ r(1)] Cons.prems(2) show ?case by (auto simp: r(2))
qed simp

end

subsection \<open>What a day's file holds\<close>


text \<open>Two rows on a fresh card; \<open>tearing\<close> makes the card cut the next write after three bytes.\<close>

definition probe :: "unit SensorSnapshot" where
  "probe = \<lparr>ss_id = ''p'', ss_name = [], ss_units = [], ss_rawVoltage = (), ss_loopCurrentmA = (),
     ss_engineeringValue = (), ss_filteredValue = (), ss_minValue = (), ss_maxValue = (), ss_warnLow = (),
     ss_warnHigh = (), ss_engMin = (), ss_engMax = (), ss_activeFault = FaultNone, ss_latchedFault = FaultNone,
     ss_hasValidSample = True\<rparr>"

definition still_text :: "unit \<Rightarrow> string" where
  "still_text x = ''0.000''"

definition ready_csv :: CsvLogger where
  "ready_csv = snd (csv_begin True fresh_csv)"

definition tearing :: "fake_fs \<Rightarrow> fake_fs" where
  "tearing fs = fs\<lparr>fs_writeLimit := Some 3\<rparr>"

definition two_rows :: "(string \<times> u32 \<times> unit SensorSnapshot list) list" where
  "two_rows = [(''12:00:00'', 5, [probe]), (''12:00:01'', 6, [probe])]"


text \<open>
  \<open>incompleteRow_\<close> belongs to the logger, not to the file. A row torn in the file of one date, a row in
  the file of another (the clock can be read again, or is set), and a third in the first file: the
  separator is spent on the second file, and the third row, reported as written, continues the torn one.
\<close>

lemma torn_row_merged:
  "(let (ok1, c, fs) = log_dated fake_lfs still_text ''boot'' ''t'' 1 [probe] ready_csv (blank_volume 100);
        (ok2, c, fs) = log_dated fake_lfs still_text ''boot'' ''t'' 2 [probe] c (tearing fs);
        (ok3, c, fs) = log_dated fake_lfs still_text ''2026-02-28'' ''12:00:01'' 3 [probe] c fs;
        (ok4, c, fs) = log_dated fake_lfs still_text ''boot'' ''t'' 4 [probe] c fs
    in (ok1, ok2, ok3, ok4) = (True, False, True, True) \<and>
      (case fs_content fs (csv_path ''boot'') of None \<Rightarrow> False
       | Some b \<Rightarrow> csv_line still_text (''t'', 4, [probe]) \<notin> set (text_lines b)))"
  by code_simp

end
