(* ===== verification/SystemLog.thy ===== *)
theory SystemLog
  imports SystemEvents Json Flash Timekeeper "HOL-Library.Sublist"
begin

section \<open>SystemLog: the event log of the logger and of the dash\<close>

text \<open>
  \<open>logger/firmware/src/SystemLog.cpp\<close>: events of the logger and those the dash sends over BLE wait in
  one queue of 64, each with its line of JSON, until the loop appends them to files on the microSD
  card. An event of the dash is acknowledged only once its line is on the card. The card is the file system
  of theory \<open>Flash\<close>; \<open>dir\<close> lists its root directory (names, and whether each is a directory), and
  the JSON library is that of theory \<open>Json\<close>. \<open>received\<close> is the text of \<open>transportTimestamp\<close>.
\<close>

subsection \<open>State\<close>

record SystemLog =
  sl_timed :: bool
  sl_identity :: string
  sl_pending :: "Event ring"
  sl_devices :: "string list"
  sl_lines :: "string list"
  sl_pushed :: u32
  sl_popped :: u32
  sl_boot :: u32
  sl_seq :: u32
  sl_lastDrain :: u32
  sl_dashBoot :: u32
  sl_dashSeq :: u32
  sl_dashPendingBoot :: u32
  sl_dashPendingSeq :: u32
  sl_dashDevice :: string
  sl_ready :: bool
  sl_error :: string
  sl_detailed :: bool
  sl_detailedStarted :: u32
  sl_lastHttpCode :: string
  sl_lastHttpMs :: u32
  sl_httpRepeated :: u32
  sl_lastHttpStatus :: u16
  sl_recent :: "string list"
  sl_recentCount :: u32
  sl_active :: "string list"
  sl_segment :: "u32 list"

definition fresh_log :: SystemLog where
  "fresh_log = \<lparr>sl_timed = False, sl_identity = [], sl_pending = fresh_ring 64 empty_event, sl_devices = replicate 64 [],
     sl_lines = replicate 64 [], sl_pushed = 0, sl_popped = 0, sl_boot = 0, sl_seq = 0, sl_lastDrain = 0, sl_dashBoot = 0,
     sl_dashSeq = 0, sl_dashPendingBoot = 0, sl_dashPendingSeq = 0, sl_dashDevice = [], sl_ready = False, sl_error = [],
     sl_detailed = False, sl_detailedStarted = 0, sl_lastHttpCode = [], sl_lastHttpMs = 0, sl_httpRepeated = 0,
     sl_lastHttpStatus = 0, sl_recent = replicate 64 [], sl_recentCount = 0, sl_active = [[], []], sl_segment = [0, 0]\<rparr>"

definition log_slot :: "u32 \<Rightarrow> nat" where
  "log_slot n = unat (n mod 64)"

subsection \<open>Recording an event\<close>

definition received_at :: "'w clock_ops \<Rightarrow> u32 \<Rightarrow> Timekeeper \<Rightarrow> SystemLog \<Rightarrow> 'w \<Rightarrow> string" where
  "received_at W now t s w = (if sl_timed s then transportTimestamp W now t w else ''unsynced'')"

text \<open>\<open>strlcpy\<close> into the 32 zeroed bytes of \<open>code\<close>, and their reading as a C string.\<close>

definition code_field :: "string \<Rightarrow> bytes" where
  "code_field s = (let b = take 31 (raw s) in b @ replicate (32 - length b) 0)"

definition code_text :: "Event \<Rightarrow> string" where
  "code_text e = unraw (takeWhile (\<lambda>b. b \<noteq> 0) (ev_code e))"

definition severity_text :: "byte \<Rightarrow> string" where
  "severity_text n = (if n = 2 then ''WARN'' else if n = 3 then ''ERROR'' else ''INFO'')"

text \<open>The document of 512 bytes holds these members.\<close>

definition event_line :: "'d json_ops \<Rightarrow> string \<Rightarrow> string \<Rightarrow> Event \<Rightarrow> string \<Rightarrow> string" where
  "event_line J identity received e device = serialize J
     ([(''received_at'', JStr received), (''device'', JStr device), (''boot'', JNum (ev_boot e)),
       (''seq'', JNum (ev_seq e)), (''logger_id'', JStr identity), (''uptime_ms'', JNum (ev_ms e)),
       (''severity'', JStr (severity_text (ev_severity e))), (''event'', JStr (code_text e)),
       (''value'', JNum (ev_value e))] @
      (if ev_httpStatus e \<noteq> 0
       then [(''http_status'', JNum (ucast (ev_httpStatus e))), (''method'', JNum (ucast (ev_method e))),
             (''duration_ms'', JNum (ev_durationMs e))]
       else []))"

definition remember :: "'d json_ops \<Rightarrow> string \<Rightarrow> Event \<Rightarrow> string \<Rightarrow> SystemLog \<Rightarrow> SystemLog" where
  "remember J received e device s =
     (let line = event_line J (sl_identity s) received e device; k = log_slot (sl_pushed s) in
      s\<lparr>sl_devices := (sl_devices s)[k := device], sl_lines := (sl_lines s)[k := line], sl_pushed := sl_pushed s + 1,
        sl_recent := (sl_recent s)[log_slot (sl_recentCount s) := line], sl_recentCount := sl_recentCount s + 1\<rparr>)"

text \<open>\<open>if(pending_.push(e)) remember(e, device)\<close>.\<close>

definition push_event :: "'d json_ops \<Rightarrow> string \<Rightarrow> Event \<Rightarrow> string \<Rightarrow> SystemLog \<Rightarrow> bool \<times> SystemLog" where
  "push_event J received e device s =
     (case ring_push e (sl_pending s) of
        (True, q) \<Rightarrow> (True, remember J received e device (s\<lparr>sl_pending := q\<rparr>))
      | (False, q) \<Rightarrow> (False, s\<lparr>sl_pending := q\<rparr>))"

definition log_add :: "'d json_ops \<Rightarrow> u32 \<Rightarrow> string \<Rightarrow> string \<Rightarrow> u32 \<Rightarrow> byte \<Rightarrow> SystemLog \<Rightarrow> SystemLog" where
  "log_add J now received event_code value severity s =
     (if \<not> safeCode event_code then s
      else let s = s\<lparr>sl_seq := sl_seq s + 1\<rparr>;
               e = \<lparr>ev_boot = sl_boot s, ev_seq = sl_seq s, ev_ms = now, ev_value = value, ev_severity = severity,
                    ev_code = code_field event_code, ev_durationMs = 0, ev_httpStatus = 0, ev_method = 0, ev_version = 1\<rparr>
           in snd (push_event J received e ''logger'' s))"

definition log_begin :: "'d json_ops \<Rightarrow> u32 \<Rightarrow> u32 \<Rightarrow> string \<Rightarrow> string \<Rightarrow> SystemLog \<Rightarrow> SystemLog" where
  "log_begin J random now received identity s =
     log_add J now received ''boot'' 0 1 (s\<lparr>sl_timed := True, sl_identity := identity, sl_boot := random\<rparr>)"

definition set_detailed :: "u32 \<Rightarrow> bool \<Rightarrow> SystemLog \<Rightarrow> SystemLog" where
  "set_detailed now enabled s = s\<lparr>sl_detailedStarted := now, sl_detailed := enabled\<rparr>"

definition detailedRequests :: "u32 \<Rightarrow> SystemLog \<Rightarrow> bool" where
  "detailedRequests now s \<longleftrightarrow> sl_detailed s \<and> since now (sl_detailedStarted s) < 600000"

definition log_http ::
  "'d json_ops \<Rightarrow> u32 \<Rightarrow> string \<Rightarrow> string \<Rightarrow> byte \<Rightarrow> u16 \<Rightarrow> u32 \<Rightarrow> SystemLog \<Rightarrow> SystemLog" where
  "log_http J now received route method status duration s =
     (if \<not> detailedRequests now s \<and> sl_lastHttpCode s = route \<and> sl_lastHttpStatus s = status \<and>
         since now (sl_lastHttpMs s) < 10000
      then s\<lparr>sl_httpRepeated := sl_httpRepeated s + 1\<rparr>
      else let s = (if sl_httpRepeated s \<noteq> 0
                    then (log_add J now received ''http_repeat_summary'' (sl_httpRepeated s) 1 s)\<lparr>sl_httpRepeated := 0\<rparr>
                    else s);
               s = s\<lparr>sl_lastHttpCode := route, sl_lastHttpStatus := status, sl_lastHttpMs := now, sl_seq := sl_seq s + 1\<rparr>;
               e = \<lparr>ev_boot = sl_boot s, ev_seq = sl_seq s, ev_ms = now, ev_value = 0,
                    ev_severity = (if 400 \<le> status then 2 else 1), ev_code = code_field route, ev_durationMs = duration,
                    ev_httpStatus = status, ev_method = method, ev_version = 1\<rparr>
           in snd (push_event J received e ''logger'' s))"

subsection \<open>Events of the dash\<close>

definition last_index :: "char \<Rightarrow> string \<Rightarrow> nat option" where
  "last_index c s = (if c \<in> set s then Some (length s - 1 - length (takeWhile (\<lambda>x. x \<noteq> c) (rev s))) else None)"

text \<open>The last complete line of the end of a file.\<close>

definition tail_record :: "string \<Rightarrow> string option" where
  "tail_record t =
     (case last_index (CHR 0x0A) t of
        None \<Rightarrow> None
      | Some e \<Rightarrow> if e = 0 then None
          else Some (case last_index (CHR 0x0A) (take e t) of None \<Rightarrow> take e t | Some k \<Rightarrow> drop (Suc k) (take e t)))"

definition bare_name :: "string \<Rightarrow> string" where
  "bare_name name = (case name of c # cs \<Rightarrow> if c = CHR ''/'' then cs else name | [] \<Rightarrow> [])"

definition dash_device :: "string \<Rightarrow> string" where
  "dash_device device = ''dash-'' @ device"

definition is_dash_log :: "string \<Rightarrow> string \<times> bool \<Rightarrow> bool" where
  "is_dash_log device entry \<longleftrightarrow> \<not> snd entry \<and> starts_with (dash_device device @ ''-'') (bare_name (fst entry)) \<and>
     ends_with ''.log'' (bare_name (fst entry))"

definition tail_of :: "'fs lfs_ops \<Rightarrow> string \<Rightarrow> 'fs \<Rightarrow> bytes" where
  "tail_of L path fs =
     (let n = f_size L path fs; k = nat (min 1024 (int n))
      in f_read L path (if f_seek L path (n - k) fs then n - k else 0) k fs)"

definition tail_pair :: "'fs lfs_ops \<Rightarrow> 'd json_ops \<Rightarrow> 'fs \<Rightarrow> string \<times> bool \<Rightarrow> (u32 \<times> u32) option" where
  "tail_pair L J fs entry =
     (let bs = tail_of L (CHR ''/'' # bare_name (fst entry)) fs in
      if bs = [] then None
      else case tail_record (unraw (takeWhile (\<lambda>b. b \<noteq> 0) bs)) of
        None \<Rightarrow> None
      | Some record_text \<Rightarrow> (case deserialize J 512 None record_text of
          None \<Rightarrow> None
        | Some d \<Rightarrow> Some (to_unsigned J (member J d ''boot''), to_unsigned J (member J d ''seq''))))"

definition recover_entry ::
  "'fs lfs_ops \<Rightarrow> 'd json_ops \<Rightarrow> 'fs \<Rightarrow> Event \<Rightarrow> string \<Rightarrow> string \<times> bool \<Rightarrow> SystemLog \<Rightarrow> SystemLog" where
  "recover_entry L J fs e device entry s =
     (if \<not> is_dash_log device entry then s
      else case tail_pair L J fs entry of
        None \<Rightarrow> s
      | Some (boot, seq) \<Rightarrow> if boot = ev_boot e then s\<lparr>sl_dashBoot := boot, sl_dashSeq := max (sl_dashSeq s) seq\<rparr> else s)"

definition recover_dash ::
  "'fs lfs_ops \<Rightarrow> 'd json_ops \<Rightarrow> (string \<times> bool) list \<Rightarrow> 'fs \<Rightarrow> Event \<Rightarrow> string \<Rightarrow> SystemLog \<Rightarrow> SystemLog" where
  "recover_dash L J listing fs e device s =
     (if device = sl_dashDevice s then s
      else (fold (recover_entry L J fs e device) listing s)\<lparr>sl_dashDevice := device\<rparr>)"

definition acceptDash ::
  "'fs lfs_ops \<Rightarrow> 'd json_ops \<Rightarrow> ('fs \<Rightarrow> (string \<times> bool) list) \<Rightarrow> string \<Rightarrow> Event \<Rightarrow> string \<Rightarrow> 'fs \<Rightarrow> SystemLog \<Rightarrow>
   bool \<times> SystemLog" where
  "acceptDash L J dir received e device fs s =
     (if ev_version e \<noteq> 1 \<or> \<not> safeCode (code_text e) \<or> ev_seq e = 0 then (False, s)
      else if \<not> sl_ready s then (False, s)
      else let s = recover_dash L J (dir fs) fs e device s in
        if device = sl_dashDevice s \<and> ev_boot e = sl_dashBoot s \<and> ev_seq e \<le> sl_dashSeq s then (True, s)
        else if sl_dashPendingSeq s \<noteq> 0 then (False, s)
        else case push_event J received e (dash_device device) s of
          (False, s) \<Rightarrow> (False, s)
        | (True, s) \<Rightarrow> (False, s\<lparr>sl_dashDevice := device, sl_dashPendingBoot := ev_boot e, sl_dashPendingSeq := ev_seq e\<rparr>))"

subsection \<open>Writing to the card\<close>

fun text_less :: "string \<Rightarrow> string \<Rightarrow> bool" where
  "text_less [] t \<longleftrightarrow> t \<noteq> []"
| "text_less (a # s) [] \<longleftrightarrow> False"
| "text_less (a # s) (b # t) \<longleftrightarrow> code a < code b \<or> (a = b \<and> text_less s t)"

definition log_files :: "string \<Rightarrow> (string \<times> bool) list \<Rightarrow> string list" where
  "log_files device listing = map (\<lambda>x. bare_name (fst x)) (filter (\<lambda>x. \<not> snd x \<and>
     starts_with (device @ ''-'') (bare_name (fst x)) \<and> ends_with ''.log'' (bare_name (fst x)) \<and>
     safeName (bare_name (fst x))) listing)"

definition older :: "string \<Rightarrow> string \<Rightarrow> string \<Rightarrow> string" where
  "older path name oldest =
     (if CHR ''/'' # name \<noteq> path \<and> (oldest = [] \<or> text_less name oldest) then name else oldest)"

definition prune_logs ::
  "'fs lfs_ops \<Rightarrow> ('fs \<Rightarrow> (string \<times> bool) list) \<Rightarrow> string \<Rightarrow> string \<Rightarrow> 'fs \<Rightarrow> 'fs" where
  "prune_logs L dir device path fs =
     (let names = log_files device (dir fs); oldest = fold (older path) names [] in
      if 16 < length names \<and> oldest \<noteq> [] then snd (lfs_remove L (CHR ''/'' # oldest) fs) else fs)"

definition log_path :: "string \<Rightarrow> u32 \<Rightarrow> string" where
  "log_path name_prefix segment = ''/'' @ name_prefix @ snprintf 16 (fmt_u 8 (unat segment)) @ ''.log''"

text \<open>After a complete line: a dash event becomes acknowledged, the event leaves the queue.\<close>

definition drained :: "nat \<Rightarrow> string \<Rightarrow> SystemLog \<Rightarrow> SystemLog" where
  "drained src path s =
     (let s = s\<lparr>sl_error := [], sl_active := (sl_active s)[src := path]\<rparr>;
          s = (if src \<noteq> 0 then s\<lparr>sl_dashBoot := sl_dashPendingBoot s, sl_dashSeq := sl_dashPendingSeq s, sl_dashPendingSeq := 0\<rparr>
               else s)
      in s\<lparr>sl_pending := ring_pop (sl_pending s), sl_lines := (sl_lines s)[log_slot (sl_popped s) := []],
           sl_popped := sl_popped s + 1\<rparr>)"

definition write_line ::
  "'fs lfs_ops \<Rightarrow> ('fs \<Rightarrow> (string \<times> bool) list) \<Rightarrow> string \<Rightarrow> string \<Rightarrow> nat \<Rightarrow> string \<Rightarrow> SystemLog \<Rightarrow> 'fs \<Rightarrow> SystemLog \<times> 'fs" where
  "write_line L dir device line src path s fs =
     (case open_append L path fs of (opened, fs) \<Rightarrow>
        if opened \<and> 256 * 1024 \<le> int (f_size L path fs)
        then (s\<lparr>sl_segment := (sl_segment s)[src := sl_segment s ! src + 1], sl_active := (sl_active s)[src := path]\<rparr>, fs)
        else if \<not> opened then (s\<lparr>sl_error := ''System log open failed''\<rparr>, fs)
        else let output = line @ [CHR 0x0A] in
          case f_write L path (raw output) fs of (n, fs) \<Rightarrow>
            if n \<noteq> length output then (s\<lparr>sl_error := ''System log write failed''\<rparr>, fs)
            else let rotated = (sl_active s ! src \<noteq> path) in
              (drained src path s, if \<not> rotated then fs else prune_logs L dir device path fs))"

definition log_loop ::
  "'fs lfs_ops \<Rightarrow> ('fs \<Rightarrow> (string \<times> bool) list) \<Rightarrow> u32 \<Rightarrow> string \<Rightarrow> bool \<Rightarrow> SystemLog \<Rightarrow> 'fs \<Rightarrow> SystemLog \<times> 'fs" where
  "log_loop L dir now date sdReady s fs =
     (let s = s\<lparr>sl_ready := sdReady\<rparr> in
      if since now (sl_lastDrain s) < 250 then (s, fs)
      else let s = s\<lparr>sl_lastDrain := now\<rparr> in
        case ring_front (sl_pending s) of
          None \<Rightarrow> (s, fs)
        | Some _ \<Rightarrow>
            let device = sl_devices s ! log_slot (sl_popped s); line = sl_lines s ! log_slot (sl_popped s) in
            if \<not> sl_ready s then (s\<lparr>sl_error := ''microSD unavailable; events buffered in RAM''\<rparr>, fs)
            else let src = (if starts_with ''dash-'' device then 1 else 0);
                     name_prefix = device @ ''-'' @ date @ ''-'';
                     s = (if \<not> starts_with (''/'' @ name_prefix) (sl_active s ! src)
                          then s\<lparr>sl_segment := (sl_segment s)[src := 0]\<rparr> else s)
                 in write_line L dir device line src (log_path name_prefix (sl_segment s ! src)) s fs)"

subsection \<open>Reading\<close>

definition recent_lines :: "SystemLog \<Rightarrow> string list" where
  "recent_lines s =
     (let n = (if unat (sl_recentCount s) < 64 then unat (sl_recentCount s) else 64)
      in map (\<lambda>i. sl_recent s ! log_slot (sl_recentCount s - of_nat n + of_nat i)) [0..<n])"

definition log_list :: "'fs lfs_ops \<Rightarrow> (string \<times> bool) list \<Rightarrow> SystemLog \<Rightarrow> 'fs \<Rightarrow> (string \<times> nat) list" where
  "log_list L listing s fs =
     (if \<not> sl_ready s then []
      else take 128 (map (\<lambda>name. (name, f_size L (CHR ''/'' # name) fs))
        (filter safeName (map (\<lambda>x. bare_name (fst x)) (filter (\<lambda>x. \<not> snd x) listing)))))"

definition log_open :: "'fs lfs_ops \<Rightarrow> string \<Rightarrow> SystemLog \<Rightarrow> 'fs \<Rightarrow> string option" where
  "log_open L name s fs =
     (if \<not> sl_ready s \<or> \<not> safeName name then None
      else if open_read L (CHR ''/'' # name) fs then Some (CHR ''/'' # name) else None)"

subsection \<open>The queue and its two arrays are one queue of triples\<close>

text \<open>
  The events wait in the ring, their device and line in the slots counted by \<open>pushed_\<close> and
  \<open>popped_\<close>. \<open>backlog\<close> is what waits, oldest first.
\<close>

definition backlog :: "SystemLog \<Rightarrow> (Event \<times> string \<times> string) list" where
  "backlog s = map (\<lambda>i. (ring_contents (sl_pending s) ! i, sl_devices s ! log_slot (sl_popped s + of_nat i),
     sl_lines s ! log_slot (sl_popped s + of_nat i))) [0..<count (sl_pending s)]"

definition log_ok :: "SystemLog \<Rightarrow> bool" where
  "log_ok s \<longleftrightarrow> ring_ok (sl_pending s) \<and> length (entries (sl_pending s)) = 64 \<and> length (sl_devices s) = 64 \<and>
     length (sl_lines s) = 64 \<and> length (sl_active s) = 2 \<and> length (sl_segment s) = 2 \<and>
     sl_pushed s = sl_popped s + of_nat (count (sl_pending s))"

lemma log_slot_less [simp]: "log_slot n < 64"
proof -
  have "n mod 64 < 64" by (rule word_mod_less_divisor) simp
  then show ?thesis by (simp add: log_slot_def word_less_nat_alt)
qed

lemma log_slot_add: "log_slot (n + of_nat i) = (unat n + i) mod 64"
proof -
  have "(unat n + i) mod 2 ^ 32 mod 64 = (unat n + i) mod 64"
    by (rule mod_mod_cancel) simp
  then show ?thesis
    by (simp add: log_slot_def unat_mod unat_word_ariths(1) unat_of_nat take_bit_eq_mod mod_add_right_eq)
qed

lemma log_slot_window: "i < 64 \<Longrightarrow> j < 64 \<Longrightarrow> log_slot (n + of_nat i) = log_slot (n + of_nat j) \<Longrightarrow> i = j"
  using mod_window_inj [of i 64 j "unat n"] by (simp add: log_slot_add)

lemma length_backlog [simp]: "length (backlog s) = count (sl_pending s)"
  by (simp add: backlog_def)

lemma length_ring_contents [simp]: "length (ring_contents q) = count q"
  by (simp add: ring_contents_def)

lemma fresh_log_ok: "log_ok fresh_log" "backlog fresh_log = []"
  by (simp_all add: log_ok_def fresh_log_def fresh_ring_def ring_ok_def backlog_def)

lemma push_event_law:
  assumes "log_ok s" "push_event J received e device s = (b, s')"
  shows "log_ok s'" "b \<longleftrightarrow> length (backlog s) < 64"
    "backlog s' = (if b then backlog s @ [(e, device, event_line J (sl_identity s) received e device)] else backlog s)"
proof -
  obtain b' q where r: "ring_push e (sl_pending s) = (b', q)" by fastforce
  have ok: "ring_ok (sl_pending s)" "length (entries (sl_pending s)) = 64" using assms(1) by (auto simp: log_ok_def)
  note R = ring_push_law [OF ok(1) r]
  have b: "b = b'" using assms(2) by (auto simp: push_event_def r split: bool.splits)
  show full: "b \<longleftrightarrow> length (backlog s) < 64" using R ok(2) b by simp
  have cnt: "count q = (if b then Suc (count (sl_pending s)) else count (sl_pending s))"
    using R b by (metis length_append_singleton length_ring_contents)
  show "log_ok s'" using assms R b cnt ok
    by (auto simp: push_event_def r log_ok_def remember_def Let_def split: bool.splits)
  show "backlog s' = (if b then backlog s @ [(e, device, event_line J (sl_identity s) received e device)] else backlog s)"
  proof (cases b)
    case False
    then have "s' = s\<lparr>sl_pending := q\<rparr>" using assms(2) b by (simp add: push_event_def r)
    then show ?thesis using R b False cnt by (simp add: backlog_def)
  next
    case True
    define n where "n = count (sl_pending s)"
    define line where "line = event_line J (sl_identity s) received e device"
    have n: "n < 64" using full True by (simp add: n_def)
    have k: "log_slot (sl_pushed s) = log_slot (sl_popped s + of_nat n)" using assms(1) by (simp add: log_ok_def n_def)
    have s': "sl_pending s' = q" "sl_devices s' = (sl_devices s)[log_slot (sl_popped s + of_nat n) := device]"
        "sl_lines s' = (sl_lines s)[log_slot (sl_popped s + of_nat n) := line]" "sl_popped s' = sl_popped s"
      using assms(2) True b by (auto simp: push_event_def r remember_def Let_def k line_def)
    have len: "length (sl_devices s) = 64" "length (sl_lines s) = 64" using assms(1) by (auto simp: log_ok_def)
    have other: "log_slot (sl_popped s + of_nat n) \<noteq> log_slot (sl_popped s + of_nat i)" if "i < n" for i
      using log_slot_window [of n i "sl_popped s"] that n by auto
    have "map (\<lambda>i. (ring_contents q ! i, sl_devices s' ! log_slot (sl_popped s + of_nat i),
        sl_lines s' ! log_slot (sl_popped s + of_nat i))) [0..<n] = backlog s"
      unfolding backlog_def n_def [symmetric]
      by (rule map_cong) (use R b True other in \<open>simp_all add: s' nth_append flip: n_def\<close>)
    then show ?thesis
      using cnt True R b len by (simp add: backlog_def s' n_def [symmetric] line_def nth_append)
  qed
qed

lemma log_pop_law:
  assumes "log_ok s" "0 < count (sl_pending s)"
  shows "log_ok (drained src path s)" "backlog (drained src path s) = tl (backlog s)"
proof -
  have ok: "ring_ok (sl_pending s)" "length (entries (sl_pending s)) = 64" "length (sl_lines s) = 64"
    using assms(1) by (auto simp: log_ok_def)
  define d where "d = drained src path s"
  have d: "sl_pending d = ring_pop (sl_pending s)" "sl_devices d = sl_devices s"
      "sl_lines d = (sl_lines s)[log_slot (sl_popped s) := []]" "sl_popped d = sl_popped s + 1" "sl_pushed d = sl_pushed s"
      "length (sl_active d) = length (sl_active s)" "sl_segment d = sl_segment s"
    by (simp_all add: d_def drained_def Let_def)
  have R: "ring_ok (ring_pop (sl_pending s))" "length (entries (ring_pop (sl_pending s))) = 64"
      "ring_contents (ring_pop (sl_pending s)) = tl (ring_contents (sl_pending s))"
      "count (ring_pop (sl_pending s)) = count (sl_pending s) - 1"
    using ring_pop_law [OF ok(1)] ok(2) by (auto simp: ring_pop_def)
  show "log_ok (drained src path s)"
    unfolding d_def [symmetric] using assms R by (simp add: log_ok_def d of_nat_diff)
  have slot: "log_slot (sl_popped s + 1 + of_nat i) = log_slot (sl_popped s + of_nat (Suc i))" for i by (simp add: algebra_simps)
  have other: "log_slot (sl_popped s) \<noteq> log_slot (sl_popped s + of_nat (Suc i))" if "Suc i < count (sl_pending s)" for i
    using log_slot_window [of "Suc i" 0 "sl_popped s"] that ok by (auto simp: ring_ok_def)
  show "backlog (drained src path s) = tl (backlog s)"
    unfolding d_def [symmetric]
  proof (rule nth_equalityI)
    show "length (backlog d) = length (tl (backlog s))" by (simp add: d R)
    fix i assume "i < length (backlog d)"
    then have i: "Suc i < count (sl_pending s)" "i < count (sl_pending s) - 1" by (simp_all add: d R)
    then show "backlog d ! i = tl (backlog s) ! i"
      using other [OF i(1)] by (simp add: backlog_def d R nth_tl slot)
  qed
qed

lemma backlog_front:
  assumes "ring_front (sl_pending s) = Some e"
  shows "0 < count (sl_pending s)"
    "backlog s \<noteq> []" "hd (backlog s) = (ring_contents (sl_pending s) ! 0, sl_devices s ! log_slot (sl_popped s), sl_lines s ! log_slot (sl_popped s))"
proof -
  show c: "0 < count (sl_pending s)" using assms by (simp add: ring_front_def split: if_splits)
  then show "backlog s \<noteq> []" by (simp flip: length_greater_0_conv)
  then have "hd (backlog s) = backlog s ! 0" by (simp add: hd_conv_nth)
  then show "hd (backlog s) = (ring_contents (sl_pending s) ! 0, sl_devices s ! log_slot (sl_popped s), sl_lines s ! log_slot (sl_popped s))"
    using c by (simp add: backlog_def)
qed

subsection \<open>What an acknowledgement to the dash means\<close>

text \<open>
  The events whose line some file of the dash ends with, their pairs of boot and sequence number, and
  the pairs the tails of the dash's files are read as.
\<close>

definition line_on_card :: "'d json_ops \<Rightarrow> (string \<Rightarrow> bytes option) \<Rightarrow> string \<Rightarrow> string \<Rightarrow> Event \<Rightarrow> bool" where
  "line_on_card J F identity device e \<longleftrightarrow> (\<exists>path c received. F path = Some c \<and>
     starts_with (''/'' @ dash_device device @ ''-'') path \<and>
     suffix (raw (event_line J identity received e (dash_device device) @ [CHR 0x0A])) c)"

definition on_card :: "'d json_ops \<Rightarrow> (string \<Rightarrow> bytes option) \<Rightarrow> string \<Rightarrow> string \<Rightarrow> (u32 \<times> u32) set" where
  "on_card J F identity device = {(boot, seq). \<exists>e. ev_boot e = boot \<and> ev_seq e = seq \<and> line_on_card J F identity device e}"

definition tails_found ::
  "'fs lfs_ops \<Rightarrow> 'd json_ops \<Rightarrow> (string \<times> bool) list \<Rightarrow> 'fs \<Rightarrow> string \<Rightarrow> (u32 \<times> u32) set" where
  "tails_found L J listing fs device =
     {p. \<exists>entry\<in>set listing. is_dash_log device entry \<and> tail_pair L J fs entry = Some p}"

text \<open>
  A logger that has started and serves one dash; the card may be any at every step. \<open>K\<close> collects what
  the card held after each pass of the loop, and what was found on it.
\<close>

inductive log_reach ::
  "'fs lfs_ops \<Rightarrow> 'd json_ops \<Rightarrow> ('fs \<Rightarrow> (string \<times> bool) list) \<Rightarrow> ('fs \<Rightarrow> string \<Rightarrow> bytes option) \<Rightarrow> string \<Rightarrow> string \<Rightarrow>
   SystemLog \<Rightarrow> (u32 \<times> u32) set \<Rightarrow> bool"
  for L :: "'fs lfs_ops" and J :: "'d json_ops" and dir files identity device where
  start: "log_reach L J dir files identity device (log_begin J random now received identity fresh_log) {}"
| add: "log_reach L J dir files identity device s K \<Longrightarrow>
    log_reach L J dir files identity device (log_add J now received event_code value severity s) K"
| http: "log_reach L J dir files identity device s K \<Longrightarrow>
    log_reach L J dir files identity device (log_http J now received route mtd status duration s) K"
| detail: "log_reach L J dir files identity device s K \<Longrightarrow>
    log_reach L J dir files identity device (set_detailed now enabled s) K"
| accept: "log_reach L J dir files identity device s K \<Longrightarrow> acceptDash L J dir received e device fs s = (b, s') \<Longrightarrow>
    log_reach L J dir files identity device s' (K \<union> tails_found L J (dir fs) fs device)"
| loop: "log_reach L J dir files identity device s K \<Longrightarrow> log_loop L dir now date sdReady s fs = (s', fs') \<Longrightarrow>
    log_reach L J dir files identity device s' (K \<union> on_card J (files fs') identity device)"

definition backlog_inv :: "'d json_ops \<Rightarrow> string \<Rightarrow> string \<Rightarrow> SystemLog \<Rightarrow> bool" where
  "backlog_inv J identity device s \<longleftrightarrow> log_ok s \<and> sl_identity s = identity \<and>
     (\<forall>(e, d, l)\<in>set (backlog s). (d = ''logger'' \<or> d = dash_device device) \<and> (\<exists>r. l = event_line J identity r e d)) \<and>
     map (\<lambda>(e, d, l). (ev_boot e, ev_seq e)) (filter (\<lambda>(e, d, l). d = dash_device device) (backlog s)) =
       (if sl_dashPendingSeq s = 0 then [] else [(sl_dashPendingBoot s, sl_dashPendingSeq s)])"

definition ack_inv :: "string \<Rightarrow> SystemLog \<Rightarrow> (u32 \<times> u32) set \<Rightarrow> bool" where
  "ack_inv device s K \<longleftrightarrow> (sl_dashSeq s = 0 \<or> (sl_dashBoot s, sl_dashSeq s) \<in> K) \<and>
     (sl_dashDevice s = device \<or> (sl_dashSeq s = 0 \<and> sl_dashPendingSeq s = 0))"

lemma ack_inv_mono: "ack_inv device s K \<Longrightarrow> K \<subseteq> K' \<Longrightarrow> ack_inv device s K'"
  by (auto simp: ack_inv_def)

text \<open>Fields outside the queue do not matter to what waits.\<close>

lemma backlog_inv_cong:
  assumes "backlog_inv J identity device s" "sl_pending s' = sl_pending s" "sl_devices s' = sl_devices s" "sl_lines s' = sl_lines s"
    "sl_popped s' = sl_popped s" "sl_pushed s' = sl_pushed s" "sl_identity s' = sl_identity s"
    "length (sl_active s') = length (sl_active s)" "length (sl_segment s') = length (sl_segment s)"
    "sl_dashPendingSeq s' = sl_dashPendingSeq s" "sl_dashPendingBoot s' = sl_dashPendingBoot s"
  shows "backlog_inv J identity device s'"
proof -
  have "backlog s' = backlog s" by (simp add: backlog_def assms)
  then show ?thesis using assms by (simp add: backlog_inv_def log_ok_def)
qed

lemma not_dash [simp]: "''logger'' \<noteq> dash_device device" "starts_with ''dash-'' (dash_device device)" "\<not> starts_with ''dash-'' ''logger''"
  by (simp_all add: dash_device_def starts_with_def)

lemma push_event_rest:
  assumes "push_event J received e d s = (b, s')"
  shows "sl_identity s' = sl_identity s" "sl_dashPendingSeq s' = sl_dashPendingSeq s" "sl_dashPendingBoot s' = sl_dashPendingBoot s"
    "sl_dashSeq s' = sl_dashSeq s" "sl_dashBoot s' = sl_dashBoot s" "sl_dashDevice s' = sl_dashDevice s"
  using assms by (auto simp: push_event_def remember_def Let_def split: prod.splits bool.splits)

lemma push_logger_inv:
  assumes "backlog_inv J identity device s" "push_event J received e ''logger'' s = (b, s')"
  shows "backlog_inv J identity device s'"
proof -
  have ok: "log_ok s" using assms(1) by (simp add: backlog_inv_def)
  show ?thesis using push_event_law [OF ok assms(2)] push_event_rest [OF assms(2)] assms(1)
    by (auto simp: backlog_inv_def)
qed

lemma log_add_inv:
  assumes "backlog_inv J identity device s"
  shows "backlog_inv J identity device (log_add J now received event_code value severity s)"
    "ack_inv device (log_add J now received event_code value severity s) K = ack_inv device s K"
proof -
  define e where "e = \<lparr>ev_boot = sl_boot s, ev_seq = sl_seq s + 1, ev_ms = now, ev_value = value, ev_severity = severity,
      ev_code = code_field event_code, ev_durationMs = 0, ev_httpStatus = 0, ev_method = 0, ev_version = 1\<rparr>"
  define s1 where "s1 = s\<lparr>sl_seq := sl_seq s + 1\<rparr>"
  obtain b s2 where p: "push_event J received e ''logger'' s1 = (b, s2)" by fastforce
  have a: "log_add J now received event_code value severity s = (if safeCode event_code then s2 else s)"
    using p by (simp add: log_add_def Let_def e_def s1_def)
  have "backlog_inv J identity device s1" by (rule backlog_inv_cong [OF assms]) (simp_all add: s1_def)
  from push_logger_inv [OF this p] push_event_rest [OF p] assms
  show "backlog_inv J identity device (log_add J now received event_code value severity s)"
    "ack_inv device (log_add J now received event_code value severity s) K = ack_inv device s K"
    by (simp_all add: a ack_inv_def s1_def)
qed

lemma log_http_inv:
  assumes "backlog_inv J identity device s"
  shows "backlog_inv J identity device (log_http J now received route mtd status duration s)"
    "ack_inv device (log_http J now received route mtd status duration s) K = ack_inv device s K"
proof -
  define s1 where "s1 = (if sl_httpRepeated s \<noteq> 0
      then (log_add J now received ''http_repeat_summary'' (sl_httpRepeated s) 1 s)\<lparr>sl_httpRepeated := 0\<rparr> else s)"
  define s2 where "s2 = s1\<lparr>sl_lastHttpCode := route, sl_lastHttpStatus := status, sl_lastHttpMs := now, sl_seq := sl_seq s1 + 1\<rparr>"
  define e where "e = \<lparr>ev_boot = sl_boot s2, ev_seq = sl_seq s2, ev_ms = now, ev_value = 0,
      ev_severity = (if 400 \<le> status then 2 else 1), ev_code = code_field route, ev_durationMs = duration,
      ev_httpStatus = status, ev_method = mtd, ev_version = 1\<rparr>"
  obtain b s3 where p: "push_event J received e ''logger'' s2 = (b, s3)" by fastforce
  have h: "log_http J now received route mtd status duration s =
      (if \<not> detailedRequests now s \<and> sl_lastHttpCode s = route \<and> sl_lastHttpStatus s = status \<and>
         since now (sl_lastHttpMs s) < 10000
       then s\<lparr>sl_httpRepeated := sl_httpRepeated s + 1\<rparr> else s3)"
    using p unfolding log_http_def s1_def [symmetric] Let_def s2_def [symmetric] e_def [symmetric]
    by (simp add: e_def s2_def s1_def)
  have r: "backlog_inv J identity device (s\<lparr>sl_httpRepeated := n\<rparr>)" for n
    by (rule backlog_inv_cong [OF assms]) simp_all
  have a: "backlog_inv J identity device (log_add J now received ''http_repeat_summary'' (sl_httpRepeated s) 1 s)"
    by (rule log_add_inv(1) [OF assms])
  have s1: "backlog_inv J identity device s1" "ack_inv device s1 K = ack_inv device s K"
    using assms log_add_inv(2) [OF assms, of now received _ _ _ K] backlog_inv_cong [OF a, of s1]
    by (auto simp: s1_def ack_inv_def)
  have "backlog_inv J identity device s2" by (rule backlog_inv_cong [OF s1(1)]) (simp_all add: s2_def)
  from push_logger_inv [OF this p] push_event_rest [OF p] s1 r
  show "backlog_inv J identity device (log_http J now received route mtd status duration s)"
    "ack_inv device (log_http J now received route mtd status duration s) K = ack_inv device s K"
    by (simp_all add: h ack_inv_def s2_def)
qed

text \<open>Recovery reads the tails of the dash's files, and only this boot's count.\<close>

lemma recover_fold:
  assumes "sl_dashSeq s = 0 \<or> (sl_dashBoot s = ev_boot e \<and> (sl_dashBoot s, sl_dashSeq s) \<in> A)"
    and "\<forall>entry\<in>set xs. \<forall>p. is_dash_log device entry \<and> tail_pair L J fs entry = Some p \<longrightarrow> p \<in> A"
  shows "sl_dashSeq (fold (recover_entry L J fs e device) xs s) = 0 \<or>
    (sl_dashBoot (fold (recover_entry L J fs e device) xs s), sl_dashSeq (fold (recover_entry L J fs e device) xs s)) \<in> A"
  using assms
proof (induction xs arbitrary: s)
  case (Cons x xs)
  define s1 where "s1 = recover_entry L J fs e device x s"
  have "sl_dashSeq s1 = 0 \<or> (sl_dashBoot s1 = ev_boot e \<and> (sl_dashBoot s1, sl_dashSeq s1) \<in> A)"
    using Cons.prems unfolding s1_def recover_entry_def
    by (auto simp: max_def split: option.splits if_splits)
  from Cons.IH [OF this] Cons.prems(2) show ?case by (simp add: s1_def)
qed auto

lemma recover_fold_rest:
  "\<exists>b q. fold (recover_entry L J fs e device) xs s = s\<lparr>sl_dashBoot := b, sl_dashSeq := q\<rparr>"
proof (induction xs arbitrary: s)
  case Nil
  show ?case by (rule exI [of _ "sl_dashBoot s"], rule exI [of _ "sl_dashSeq s"]) simp
next
  case (Cons x xs)
  have "\<exists>b q. recover_entry L J fs e device x s = s\<lparr>sl_dashBoot := b, sl_dashSeq := q\<rparr>"
  proof (cases "\<exists>q. is_dash_log device x \<and> tail_pair L J fs x = Some (ev_boot e, q)")
    case True
    then show ?thesis by (auto simp: recover_entry_def) blast
  next
    case False
    then have "recover_entry L J fs e device x s = s" by (auto simp: recover_entry_def split: option.splits)
    then show ?thesis by - (rule exI [of _ "sl_dashBoot s"], rule exI [of _ "sl_dashSeq s"], simp)
  qed
  then obtain b q where 1: "recover_entry L J fs e device x s = s\<lparr>sl_dashBoot := b, sl_dashSeq := q\<rparr>" by blast
  obtain b' q' where "fold (recover_entry L J fs e device) xs (s\<lparr>sl_dashBoot := b, sl_dashSeq := q\<rparr>) =
      s\<lparr>sl_dashBoot := b, sl_dashSeq := q\<rparr>\<lparr>sl_dashBoot := b', sl_dashSeq := q'\<rparr>" using Cons by blast
  then show ?case by (simp add: 1) blast
qed

lemma recover_inv:
  assumes "backlog_inv J identity device s" "ack_inv device s K"
    and "s' = recover_dash L J listing fs e device s"
  shows "backlog_inv J identity device s'" "ack_inv device s' (K \<union> tails_found L J listing fs device)"
    "sl_dashDevice s' = device" "sl_dashPendingSeq s' = sl_dashPendingSeq s"
proof -
  have "backlog_inv J identity device s' \<and> ack_inv device s' (K \<union> tails_found L J listing fs device) \<and>
      sl_dashDevice s' = device \<and> sl_dashPendingSeq s' = sl_dashPendingSeq s"
  proof (cases "device = sl_dashDevice s")
    case True
    then show ?thesis using assms ack_inv_mono [OF assms(2)] by (auto simp: recover_dash_def)
  next
    case False
    let ?f = "fold (recover_entry L J fs e device) listing s"
    obtain b q where f: "?f = s\<lparr>sl_dashBoot := b, sl_dashSeq := q\<rparr>"
      using recover_fold_rest [of L J fs e device listing s] by blast
    have s': "s' = s\<lparr>sl_dashBoot := b, sl_dashSeq := q, sl_dashDevice := device\<rparr>"
      using False assms(3) by (simp add: recover_dash_def f)
    have "sl_dashSeq s = 0" using assms(2) False by (auto simp: ack_inv_def)
    then have "sl_dashSeq ?f = 0 \<or> (sl_dashBoot ?f, sl_dashSeq ?f) \<in> K \<union> tails_found L J listing fs device"
      by (intro recover_fold) (auto simp: tails_found_def)
    moreover have "backlog_inv J identity device s'" by (rule backlog_inv_cong [OF assms(1)]) (simp_all add: s')
    ultimately show ?thesis by (simp add: s' f ack_inv_def)
  qed
  then show "backlog_inv J identity device s'" "ack_inv device s' (K \<union> tails_found L J listing fs device)"
    "sl_dashDevice s' = device" "sl_dashPendingSeq s' = sl_dashPendingSeq s" by blast+
qed

lemma push_dash_inv:
  assumes "backlog_inv J identity device s" "push_event J received e (dash_device device) s = (True, s')"
    and "sl_dashPendingSeq s = 0" "ev_seq e \<noteq> 0"
  shows "backlog_inv J identity device (s'\<lparr>sl_dashDevice := device, sl_dashPendingBoot := ev_boot e, sl_dashPendingSeq := ev_seq e\<rparr>)"
proof -
  let ?t = "s'\<lparr>sl_dashDevice := device, sl_dashPendingBoot := ev_boot e, sl_dashPendingSeq := ev_seq e\<rparr>"
  have ok: "log_ok s" using assms(1) by (simp add: backlog_inv_def)
  note P = push_event_law [OF ok assms(2)] push_event_rest [OF assms(2)]
  have "backlog ?t = backlog s'" "log_ok ?t = log_ok s'" by (simp_all add: backlog_def log_ok_def)
  then show ?thesis using assms P by (auto simp: backlog_inv_def)
qed

lemma acceptDash_inv:
  assumes "backlog_inv J identity device s" "ack_inv device s K"
    and "acceptDash L J dir received e device fs s = (b, s')"
  shows "backlog_inv J identity device s'" "ack_inv device s' (K \<union> tails_found L J (dir fs) fs device)"
    "b \<Longrightarrow> ev_seq e \<noteq> 0 \<and> ev_boot e = sl_dashBoot s' \<and> ev_seq e \<le> sl_dashSeq s'"
proof -
  define s1 where "s1 = recover_dash L J (dir fs) fs e device s"
  note R = recover_inv [OF assms(1,2) s1_def]
  have K: "ack_inv device s (K \<union> tails_found L J (dir fs) fs device)" by (rule ack_inv_mono [OF assms(2)]) simp
  obtain b2 s2 where p: "push_event J received e (dash_device device) s1 = (b2, s2)" by fastforce
  have n: "backlog_inv J identity device s2" if "\<not> b2"
  proof -
    have ok: "log_ok s1" using R(1) by (simp add: backlog_inv_def)
    show ?thesis using push_event_law [OF ok p] push_event_rest [OF p] that R(1) by (simp add: backlog_inv_def)
  qed
  have y: "backlog_inv J identity device (s2\<lparr>sl_dashDevice := device, sl_dashPendingBoot := ev_boot e, sl_dashPendingSeq := ev_seq e\<rparr>)"
    if b2 "sl_dashPendingSeq s1 = 0" "ev_seq e \<noteq> 0"
    using push_dash_inv [OF R(1) _ that(2,3), of received s2] p that(1) by simp
  have k2: "ack_inv device s2 (K \<union> tails_found L J (dir fs) fs device)"
    "ack_inv device (s2\<lparr>sl_dashDevice := device, sl_dashPendingBoot := ev_boot e, sl_dashPendingSeq := ev_seq e\<rparr>)
      (K \<union> tails_found L J (dir fs) fs device)"
    using R push_event_rest [OF p] by (auto simp: ack_inv_def)
  show "backlog_inv J identity device s'" "ack_inv device s' (K \<union> tails_found L J (dir fs) fs device)"
    "b \<Longrightarrow> ev_seq e \<noteq> 0 \<and> ev_boot e = sl_dashBoot s' \<and> ev_seq e \<le> sl_dashSeq s'"
    using assms(1,3) K R(1,2,3) n y k2 unfolding acceptDash_def s1_def [symmetric] Let_def p
    by (auto split: if_splits bool.splits)
qed

text \<open>Draining: the head of the backlog leaves it, and a dash event becomes the acknowledged one.\<close>

lemma drained_inv:
  assumes "backlog_inv J identity device s" "ring_front (sl_pending s) = Some ev" "ack_inv device s K"
    and "hd (backlog s) = (e, d, l)" "src = (if starts_with ''dash-'' d then 1 else 0)"
    and "d = dash_device device \<Longrightarrow> (ev_boot e, ev_seq e) \<in> K"
  shows "backlog_inv J identity device (drained src path s)" "ack_inv device (drained src path s) K"
proof -
  have ok: "log_ok s" using assms(1) by (simp add: backlog_inv_def)
  note F = backlog_front [OF assms(2)]
  note P = log_pop_law [OF ok F(1), of src path]
  obtain bs where b: "backlog s = (e, d, l) # bs" using F(2) assms(4) by (cases "backlog s") auto
  have d: "d = ''logger'' \<or> d = dash_device device" using assms(1) b by (auto simp: backlog_inv_def)
  have same: "sl_dashPendingBoot (drained src path s) = sl_dashPendingBoot s" "sl_identity (drained src path s) = sl_identity s"
    "sl_dashDevice (drained src path s) = sl_dashDevice s"
    "sl_dashPendingSeq (drained src path s) = (if d = dash_device device then 0 else sl_dashPendingSeq s)"
    "sl_dashSeq (drained src path s) = (if d = dash_device device then sl_dashPendingSeq s else sl_dashSeq s)"
    "sl_dashBoot (drained src path s) = (if d = dash_device device then sl_dashPendingBoot s else sl_dashBoot s)"
    using d assms(5) by (auto simp: drained_def Let_def)
  have pend: "sl_dashPendingSeq s \<noteq> 0 \<and> ev_boot e = sl_dashPendingBoot s \<and> ev_seq e = sl_dashPendingSeq s"
    if "d = dash_device device"
    using assms(1) b that by (auto simp: backlog_inv_def split: if_splits)
  show "backlog_inv J identity device (drained src path s)"
    using assms(1) P d by (auto simp: backlog_inv_def b same split: if_splits)
  show "ack_inv device (drained src path s) K"
    using assms(3,6) pend by (auto simp: ack_inv_def same)
qed

definition same_queue :: "SystemLog \<Rightarrow> SystemLog \<Rightarrow> bool" where
  "same_queue s s' \<longleftrightarrow> sl_pending s' = sl_pending s \<and> sl_devices s' = sl_devices s \<and> sl_lines s' = sl_lines s \<and>
     sl_popped s' = sl_popped s \<and> sl_pushed s' = sl_pushed s \<and> sl_identity s' = sl_identity s \<and>
     length (sl_active s') = length (sl_active s) \<and> length (sl_segment s') = length (sl_segment s) \<and>
     sl_dashPendingSeq s' = sl_dashPendingSeq s \<and> sl_dashPendingBoot s' = sl_dashPendingBoot s \<and>
     sl_dashSeq s' = sl_dashSeq s \<and> sl_dashBoot s' = sl_dashBoot s \<and> sl_dashDevice s' = sl_dashDevice s"

lemma same_queue_inv: "backlog_inv J identity device s \<Longrightarrow> same_queue s s' \<Longrightarrow> backlog_inv J identity device s'"
  by (rule backlog_inv_cong) (simp_all add: same_queue_def)

lemma same_queue_backlog: "same_queue s s' \<Longrightarrow> backlog s' = backlog s"
  by (simp add: same_queue_def backlog_def)

lemma line_ends_file:
  "F path = Some (c @ raw (l @ [CHR 0x0A])) \<Longrightarrow> starts_with (''/'' @ d @ ''-'') path \<Longrightarrow> l = event_line J identity r e d \<Longrightarrow>
   d = dash_device device \<Longrightarrow> line_on_card J F identity device e"
  unfolding line_on_card_def by (rule exI [of _ path], rule exI [of _ "c @ raw (l @ [CHR 0x0A])"], rule exI [of _ r])
    (simp add: suffixI)

lemma fold_older: "oldest = [] \<or> CHR ''/'' # oldest \<noteq> path \<Longrightarrow>
    fold (older path) names oldest = [] \<or> CHR ''/'' # fold (older path) names oldest \<noteq> path"
proof (induction names arbitrary: oldest)
  case (Cons n names)
  have "older path n oldest = [] \<or> CHR ''/'' # older path n oldest \<noteq> path" using Cons.prems by (auto simp: older_def)
  from Cons.IH [OF this] show ?case by simp
qed simp

context flash
begin

lemma prune_keeps: "files (prune_logs L dir device path fs) path = files fs path"
proof -
  define oldest where "oldest = fold (older path) (log_files device (dir fs)) []"
  have "oldest = [] \<or> CHR ''/'' # oldest \<noteq> path" unfolding oldest_def by (rule fold_older) simp
  then show ?thesis
    using remove_law [of "CHR ''/'' # oldest" fs] unfolding prune_logs_def oldest_def [symmetric] Let_def
    by (cases "lfs_remove L (CHR ''/'' # oldest) fs") auto
qed

text \<open>A pass either leaves the backlog alone or ends its file with the oldest line and drops it.\<close>

lemma write_line_law:
  assumes "write_line L dir device line src path s fs = (s', fs')"
  shows "(s' = drained src path s \<and> (\<exists>c. files fs' path = Some (c @ raw (line @ [CHR 0x0A])))) \<or>
    (s' = s\<lparr>sl_segment := sl_segment s', sl_active := sl_active s', sl_error := sl_error s'\<rparr> \<and>
      length (sl_segment s') = length (sl_segment s) \<and> length (sl_active s') = length (sl_active s))"
proof -
  obtain opened f1 where o: "open_append L path fs = (opened, f1)" by fastforce
  obtain n f2 where w: "f_write L path (raw (line @ [CHR 0x0A])) f1 = (n, f2)" by fastforce
  show ?thesis
  proof (cases "\<not> opened \<or> 256 * 1024 \<le> int (f_size L path f1) \<or> n \<noteq> length (line @ [CHR 0x0A])")
    case True
    then show ?thesis using assms by (intro disjI2) (auto simp: write_line_def o w Let_def split: if_splits)
  next
    case False
    obtain c where c: "files f1 path = Some c" using open_append_law [OF o] False by auto
    have "files f2 path = Some (c @ raw (line @ [CHR 0x0A]))"
      using write_law [OF c w] False by (simp add: raw_def)
    then show ?thesis using assms False prune_keeps [of dir device path f2]
      by (auto simp: write_line_def o w Let_def split: if_splits)
  qed
qed

text \<open>A pass of the loop leaves the queue alone, or ends a file with the oldest line and drops it.\<close>

lemma log_loop_law:
  assumes "log_loop L dir now date sdReady s fs = (s', fs')"
  obtains "same_queue s s'"
    | s2 ev e d l src path c where "same_queue s s2" "ring_front (sl_pending s2) = Some ev" "hd (backlog s2) = (e, d, l)"
      "src = (if starts_with ''dash-'' d then 1 else 0)" "s' = drained src path s2" "starts_with (''/'' @ d @ ''-'') path"
      "files fs' path = Some (c @ raw (l @ [CHR 0x0A]))"
proof -
  define d where "d = sl_devices s ! log_slot (sl_popped s)"
  define l where "l = sl_lines s ! log_slot (sl_popped s)"
  define src :: nat where "src = (if starts_with ''dash-'' d then 1 else 0)"
  define name_prefix where "name_prefix = d @ ''-'' @ date @ ''-''"
  define s1 where "s1 = s\<lparr>sl_ready := sdReady, sl_lastDrain := now\<rparr>"
  define s2 where "s2 = (if \<not> starts_with (''/'' @ name_prefix) (sl_active s1 ! src)
      then s1\<lparr>sl_segment := (sl_segment s1)[src := 0]\<rparr> else s1)"
  define path where "path = log_path name_prefix (sl_segment s2 ! src)"
  have eq: "log_loop L dir now date sdReady s fs =
      (if since now (sl_lastDrain s) < 250 then (s\<lparr>sl_ready := sdReady\<rparr>, fs)
       else case ring_front (sl_pending s) of None \<Rightarrow> (s1, fs)
         | Some _ \<Rightarrow> if \<not> sdReady then (s1\<lparr>sl_error := ''microSD unavailable; events buffered in RAM''\<rparr>, fs)
             else write_line L dir d l src path s2 fs)"
    unfolding log_loop_def Let_def
    by (simp add: s1_def d_def l_def src_def name_prefix_def s2_def path_def split: option.splits)
  have q2: "same_queue s s2" by (simp add: s2_def s1_def same_queue_def)
  show thesis
  proof (cases "since now (sl_lastDrain s) < 250 \<or> ring_front (sl_pending s) = None \<or> \<not> sdReady")
    case True
    then have "s' = s\<lparr>sl_ready := sdReady\<rparr> \<or> s' = s1 \<or> s' = s1\<lparr>sl_error := ''microSD unavailable; events buffered in RAM''\<rparr>"
      using assms unfolding eq by (auto split: if_splits option.splits)
    then have "same_queue s s'" by (elim disjE; simp only:) (simp_all add: s1_def same_queue_def)
    then show thesis by (rule that(1))
  next
    case False
    then obtain ev where ev: "ring_front (sl_pending s) = Some ev" by auto
    have w: "write_line L dir d l src path s2 fs = (s', fs')" using assms False unfolding eq ev by simp
    have p: "starts_with (''/'' @ d @ ''-'') path" by (simp add: path_def log_path_def name_prefix_def starts_with_def)
    have f: "ring_front (sl_pending s2) = Some ev" using ev q2 by (simp add: same_queue_def)
    obtain e where h: "hd (backlog s2) = (e, d, l)"
      using backlog_front(3) [OF f] q2 by (simp add: d_def l_def same_queue_def)
    from write_line_law [OF w] consider c where "s' = drained src path s2" "files fs' path = Some (c @ raw (l @ [CHR 0x0A]))"
      | a b er where "s' = s2\<lparr>sl_segment := a, sl_active := b, sl_error := er\<rparr>" "length a = length (sl_segment s2)"
          "length b = length (sl_active s2)" by blast
    then show thesis
    proof cases
      case 1
      then show thesis using that(2) [OF q2 f h src_def _ p] by blast
    next
      case 2
      then have "same_queue s s'" using q2 by (simp add: same_queue_def)
      then show thesis by (rule that(1))
    qed
  qed
qed

lemma log_loop_inv:
  assumes "backlog_inv J identity device s" "ack_inv device s K" "log_loop L dir now date sdReady s fs = (s', fs')"
  shows "backlog_inv J identity device s' \<and> ack_inv device s' (K \<union> on_card J (files fs') identity device)"
  using assms(3)
proof (cases rule: log_loop_law)
  case 1
  then show ?thesis using same_queue_inv [OF assms(1)] assms(2) by (auto simp: ack_inv_def same_queue_def)
next
  case (2 s2 ev e d l src path c)
  let ?K = "K \<union> on_card J (files fs') identity device"
  have I2: "backlog_inv J identity device s2" "ack_inv device s2 ?K"
    using same_queue_inv [OF assms(1) 2(1)] assms(2) 2(1) by (auto simp: ack_inv_def same_queue_def)
  have "(e, d, l) \<in> set (backlog s2)" using 2(3) backlog_front(2) [OF 2(2)] by (metis list.set_sel(1))
  then obtain r where r: "l = event_line J identity r e d" using I2(1) by (auto simp: backlog_inv_def)
  have "(ev_boot e, ev_seq e) \<in> ?K" if dd: "d = dash_device device"
    using line_ends_file [where F = "files fs'", OF 2(7,6) r dd] by (auto simp: on_card_def)
  from drained_inv [OF I2(1) 2(2) I2(2) 2(3,4) this] show ?thesis by (simp add: 2(5))
qed

lemma log_reach_inv:
  "log_reach L J dir files identity device s K \<Longrightarrow> backlog_inv J identity device s \<and> ack_inv device s K"
proof (induction rule: log_reach.induct)
  case (start random now received)
  define s0 where "s0 = fresh_log\<lparr>sl_timed := True, sl_identity := identity, sl_boot := random\<rparr>"
  have "log_ok s0 = log_ok fresh_log" "backlog s0 = backlog fresh_log" by (simp_all add: log_ok_def backlog_def s0_def)
  then have b: "backlog_inv J identity device s0" using fresh_log_ok by (simp add: backlog_inv_def) (simp add: s0_def fresh_log_def)
  have "ack_inv device s0 {}" by (simp add: ack_inv_def s0_def fresh_log_def)
  then show ?case using log_add_inv [OF b] by (simp add: log_begin_def s0_def [symmetric])
next
  case (add s K)
  then show ?case by (simp add: log_add_inv(1) log_add_inv(2) [of J identity device s])
next
  case (http s K)
  then show ?case by (simp add: log_http_inv(1) log_http_inv(2) [of J identity device s])
next
  case (detail s K now enabled)
  then have "backlog_inv J identity device (set_detailed now enabled s)"
    using backlog_inv_cong [of J identity device s "set_detailed now enabled s"] by (simp add: set_detailed_def)
  then show ?case using detail by (simp add: set_detailed_def ack_inv_def)
next
  case (accept s K received e fs b s')
  then show ?case using acceptDash_inv(1,2) [OF _ _ accept(2), of identity K] by simp
next
  case (loop s K now date sdReady fs s' fs')
  then show ?case using log_loop_inv [OF _ _ loop(2), of J identity device K] by simp
qed

end

subsection \<open>Properties\<close>


text \<open>
  One dash event on a fresh card: queued, not acknowledged, written by the second pass of the loop
  (the first writes the logger's own start), then acknowledged when it is sent again.
\<close>

definition card_dir :: "fake_fs \<Rightarrow> (string \<times> bool) list" where
  "card_dir fs = map (\<lambda>f. (fst f, False)) (fs_files fs)"

definition dash_event :: "u32 \<Rightarrow> u32 \<Rightarrow> Event" where
  "dash_event boot seq = \<lparr>ev_boot = boot, ev_seq = seq, ev_ms = 1, ev_value = 0, ev_severity = 1, ev_code = code_field ''wifi_up'',
     ev_durationMs = 0, ev_httpStatus = 0, ev_method = 0, ev_version = 1\<rparr>"

text \<open>A JSON library that keeps the boot and the sequence number, one digit each.\<close>

definition demo_json :: "sample_doc json_ops" where
  "demo_json = (sample_json [])\<lparr>
     serialize := (\<lambda>kvs. case (map_of kvs ''boot'', map_of kvs ''seq'') of
        (Some (JNum b), Some (JNum q)) \<Rightarrow> [digit_char (unat b), digit_char (unat q)] | _ \<Rightarrow> []),
     deserialize := (\<lambda>_ _ t. case t of [a, b] \<Rightarrow>
        Some (SObj [(''boot'', SNum (int (code a - 48))), (''seq'', SNum (int (code b - 48)))]) | _ \<Rightarrow> None)\<rparr>"

definition demo_loop :: "u32 \<Rightarrow> SystemLog \<times> fake_fs \<Rightarrow> SystemLog \<times> fake_fs" where
  "demo_loop now c = (case c of (s, fs) \<Rightarrow> log_loop fake_lfs card_dir now ''2026-02-28'' True s fs)"

definition demo_accept :: "u32 \<Rightarrow> u32 \<Rightarrow> string \<Rightarrow> SystemLog \<times> fake_fs \<Rightarrow> bool \<times> SystemLog \<times> fake_fs" where
  "demo_accept boot seq device c = (case c of (s, fs) \<Rightarrow>
     (case acceptDash fake_lfs demo_json card_dir ''t'' (dash_event boot seq) device fs s of (b, s) \<Rightarrow> (b, s, fs)))"

definition demo_started :: "SystemLog \<times> fake_fs" where
  "demo_started = demo_loop 300 (log_begin demo_json 9 100 ''t'' ''id'' fresh_log, blank_volume 100)"

definition demo_queued :: "bool \<times> SystemLog \<times> fake_fs" where
  "demo_queued = demo_accept 7 5 ''aa'' demo_started"

definition demo_stored :: "SystemLog \<times> fake_fs" where
  "demo_stored = demo_loop 600 (snd demo_queued)"

lemma demo_acknowledged: "\<not> fst demo_queued \<and> fst (demo_accept 7 5 ''aa'' demo_stored)"
  by code_simp


text \<open>
  With two dashes the counts mix: \<open>dashSeq_\<close> keeps the count of the dash served before when the tail
  of the next one is read. Here \<open>aa\<close> has stored 5 and \<open>bb\<close> nothing beyond 1; event 3 of \<open>bb\<close> is
  acknowledged, although nothing of it is stored or waits.
\<close>

definition demo_other :: "SystemLog \<times> fake_fs" where
  "demo_other = (case demo_started of (s, fs) \<Rightarrow>
     (s\<lparr>sl_dashDevice := ''aa'', sl_dashBoot := 7, sl_dashSeq := 5\<rparr>, fs_put ''/dash-bb-2026-02-28-00000000.log'' (raw (''81'' @ [CHR 0x0A])) fs))"

lemma other_dash_acknowledged:
  "case demo_accept 8 3 ''bb'' demo_other of (b, s, fs) \<Rightarrow> b \<and> count (sl_pending s) = 0 \<and> sl_dashSeq s = 5 \<and> sl_dashBoot s = 8"
  by code_simp

text \<open>
  A line cut short is not ended before it is written again: the retried line, then taken for stored
  and acknowledged, continues the torn one.
\<close>

lemma torn_log_line:
  "case demo_loop 600 (case snd demo_queued of (s, fs) \<Rightarrow> (s, fs\<lparr>fs_writeLimit := Some 1\<rparr>)) of (s, fs) \<Rightarrow>
     sl_error s = ''System log write failed'' \<and>
     (case demo_loop 900 (s, fs) of (s', fs') \<Rightarrow>
        fs_content fs' ''/dash-aa-2026-02-28-00000000.log'' = Some (raw (''7'' @ ''75'' @ [CHR 0x0A])) \<and>
        fst (demo_accept 7 5 ''aa'' (s', fs')))"
  by code_simp

end
