(* ===== verification/WebUi.thy ===== *)
theory WebUi
  imports LoggerState CsvLogger SystemLog
begin

section \<open>WebUi: the logger's web server\<close>

text \<open>
  \<open>logger/firmware/src/WebUi.cpp\<close>: joining the network, the routes and their handlers, the settings
  page and its form, the downloads, the access to the rejected uploads. A request is handled over the
  objects the server points to (the CSV logger, the settings, the authorization, the upload queue, the
  system log), each the model of its own theory. Parameters are the Wi-Fi library, the web library's
  check of the digest credentials, the JSON library, and the texts that are the same on every page (\<open>we_lit\<close>, the
  string literals of a page in the order of the source). Replies are appended to \<open>si_replies\<close>.
\<close>

subsection \<open>Texts\<close>

definition htmlEscape :: "string \<Rightarrow> string" where
  "htmlEscape value = concat (map (\<lambda>c. if c = CHR ''&'' then ''&amp;'' else if c = CHR ''<'' then ''&lt;''
     else if c = CHR ''>'' then ''&gt;'' else if c = CHR 0x22 then ''&quot;'' else if c = CHR 0x27 then ''&#39;'' else [c]) value)"

text \<open>\<open>String::replace\<close>: every occurrence, from the left.\<close>

fun replace_all :: "string \<Rightarrow> string \<Rightarrow> nat \<Rightarrow> string \<Rightarrow> string" where
  "replace_all a b 0 s = s"
| "replace_all a b (Suc n) s = (if starts_with a s \<and> a \<noteq> [] then b @ replace_all a b n (drop (length a) s)
     else case s of [] \<Rightarrow> [] | c # s' \<Rightarrow> c # replace_all a b n s')"

definition replace_text :: "string \<Rightarrow> string \<Rightarrow> string \<Rightarrow> string" where
  "replace_text a b s = replace_all a b (length s) s"

definition loggerBranding :: "string \<Rightarrow> string \<Rightarrow> string \<Rightarrow> string" where
  "loggerBranding brand_head brand_mark html =
     (let label = (\<lambda>t. ''<h1>'' @ brand_mark @ ''<span class='' @ [CHR 0x22] @ ''page-label'' @ [CHR 0x22] @ ''>'' @ t @ ''</span></h1>'')
      in replace_text ''<title>System logs</title>'' ''<title>ApexiLabs Logger System logs</title>''
        (replace_text ''<title>Apexi Logger'' ''<title>ApexiLabs Logger''
        (replace_text ''<h1>System logs</h1>'' (label ''System logs'')
        (replace_text ''<h1>Apexi Logger settings</h1>'' (label ''Settings'')
        (replace_text ''<h1>Apexi Logger Diagnostics</h1>'' (label ''Diagnostics'')
        (replace_text ''<h1>Apexi Logger</h1>'' (''<h1>'' @ brand_mark @ ''</h1>'')
        (replace_text ''</style>'' (''</style>'' @ brand_head) html)))))))"

text \<open>\<open>String::toInt\<close>: leading space, a sign, the digits, at most what a \<open>long\<close> of 32 bits holds.\<close>

definition arduino_toInt :: "string \<Rightarrow> int" where
  "arduino_toInt s =
     (let t = dropWhile is_space s;
          neg = (case t of c # _ \<Rightarrow> c = CHR ''-'' | [] \<Rightarrow> False);
          t = (case t of c # r \<Rightarrow> if c = CHR ''-'' \<or> c = CHR ''+'' then r else t | [] \<Rightarrow> []);
          n = int (val_of (takeWhile is_digit t))
      in if neg then max (- n) (- 2147483648) else min n 2147483647)"

subsection \<open>Requests, replies and the objects behind the server\<close>

text \<open>\<open>method\<close> is the library's number (1 for GET, 3 for POST).\<close>

record web_request =
  wr_method :: byte
  wr_uri :: string
  wr_args :: "(string \<times> string) list"
  wr_credentials :: string
  wr_now :: u32
  wr_received :: string

definition http_get :: byte where "http_get = 1"
definition http_post :: byte where "http_post = 3"

definition web_arg :: "string \<Rightarrow> web_request \<Rightarrow> string" where
  "web_arg k rq = (case map_of (wr_args rq) k of Some v \<Rightarrow> v | None \<Rightarrow> [])"

definition has_arg :: "string \<Rightarrow> web_request \<Rightarrow> bool" where
  "has_arg k rq \<longleftrightarrow> map_of (wr_args rq) k \<noteq> None"

datatype web_body = Text string | FileOf string | Challenge

record web_reply =
  wp_status :: nat
  wp_type :: string
  wp_body :: web_body
  wp_noStore :: bool

record WifiConfig =
  wc_station :: bool
  wc_apSsid :: string
  wc_apPassword :: string
  wc_apChannel :: byte
  wc_stationSsid :: string
  wc_stationPassword :: string
  wc_connectTimeoutSeconds :: byte
  wc_fallbackApEnabled :: bool

record 'w wifi_ops =
  wf_join :: "string \<Rightarrow> string \<Rightarrow> byte \<Rightarrow> 'w \<Rightarrow> bool \<times> 'w"
  wf_localIP :: "'w \<Rightarrow> string"
  wf_softAP :: "string \<Rightarrow> string option \<Rightarrow> byte \<Rightarrow> 'w \<Rightarrow> bool \<times> 'w"
  wf_softAPIP :: "'w \<Rightarrow> string"

record 'f WebUi =
  wu_ready :: bool
  wu_mode :: string
  wu_ipAddress :: string
  wu_pairingCode :: string
  wu_pairingExpires :: u32
  wu_hostname :: string
  wu_settingsPassword :: string
  wu_localSettingsEnabled :: bool
  wu_restartPending :: bool
  wu_restartRequestedMs :: u32
  wu_requestStartedMs :: u32
  wu_polls :: u32
  wu_lastPoll :: u32
  wu_state :: "'f LoggerState"

definition fresh_web :: "'f \<Rightarrow> 'f WebUi" where
  "fresh_web zero = \<lparr>wu_ready = False, wu_mode = [], wu_ipAddress = [], wu_pairingCode = [], wu_pairingExpires = 0, wu_hostname = [],
     wu_settingsPassword = [], wu_localSettingsEnabled = False, wu_restartPending = False, wu_restartRequestedMs = 0,
     wu_requestStartedMs = 0, wu_polls = 0, wu_lastPoll = 0, wu_state = empty_state zero\<rparr>"

record ('f, 'e, 'w, 'sd, 'fs) site =
  si_web :: "'f WebUi"
  si_csv :: "CsvLogger option"
  si_settings :: RuntimeSettings
  si_auth :: "LoggerAuthorization option"
  si_queue :: "Queue option"
  si_log :: SystemLog
  si_eeprom :: 'e
  si_world :: 'w
  si_card :: 'sd
  si_flash :: 'fs
  si_replies :: "web_reply list"
  si_restarted :: bool

record ('d, 'f, 'e, 'w, 'sd, 'fs) web_env =
  we_json :: "'d json_ops"
  we_sys :: "'w auth_ops"
  we_eeprom :: "'e eeprom_ops"
  we_card :: "'sd lfs_ops"
  we_flash :: "'fs lfs_ops"
  we_authenticate :: "string \<Rightarrow> string \<Rightarrow> web_request \<Rightarrow> bool"
  we_recentJson :: "SystemLog \<Rightarrow> string"
  we_filesJson :: "SystemLog \<Rightarrow> 'sd \<Rightarrow> string"
  we_root :: "'sd \<Rightarrow> (string \<times> bool \<times> nat) list option"
  we_text3 :: "'f \<Rightarrow> string"
  we_sensors :: "(string \<times> string) list"
  we_lit :: "nat \<Rightarrow> string"
  we_brandHead :: string
  we_brandMark :: string

abbreviation branded :: "('d, 'f, 'e, 'w, 'sd, 'fs) web_env \<Rightarrow> string \<Rightarrow> string" where
  "branded E \<equiv> loggerBranding (we_brandHead E) (we_brandMark E)"

subsection \<open>Joining the network\<close>

definition start_ap :: "'w wifi_ops \<Rightarrow> WifiConfig \<Rightarrow> 'f WebUi \<Rightarrow> 'w \<Rightarrow> 'f WebUi \<times> 'w" where
  "start_ap F c u w =
     (case wf_softAP F (wc_apSsid c) (if 8 \<le> length (wc_apPassword c) then Some (wc_apPassword c) else None)
         (if wc_apChannel c = 0 then 6 else wc_apChannel c) w of
        (ok, w) \<Rightarrow> (u\<lparr>wu_ready := ok, wu_mode := ''AP'', wu_ipAddress := wf_softAPIP F w\<rparr>, w))"

definition web_begin ::
  "'w wifi_ops \<Rightarrow> WifiConfig \<Rightarrow> string \<Rightarrow> string \<Rightarrow> bool \<Rightarrow> 'f WebUi \<Rightarrow> 'w \<Rightarrow> bool \<times> 'f WebUi \<times> 'w" where
  "web_begin F c hostname password localSettings u w =
     (let u = u\<lparr>wu_hostname := hostname, wu_settingsPassword := password, wu_localSettingsEnabled := localSettings\<rparr>;
          (u, w) = (if wc_station c \<and> wc_stationSsid c \<noteq> []
             then case wf_join F (wc_stationSsid c) (wc_stationPassword c) (wc_connectTimeoutSeconds c) w of
                 (True, w) \<Rightarrow> (u\<lparr>wu_ready := True, wu_mode := ''STA'', wu_ipAddress := wf_localIP F w\<rparr>, w)
               | (False, w) \<Rightarrow> (u\<lparr>wu_ready := False\<rparr>, w)
             else (u, w));
          off = (\<lambda>u. u\<lparr>wu_mode := ''OFF'', wu_ipAddress := ''0.0.0.0''\<rparr>)
      in if \<not> wu_ready u \<and> \<not> wc_fallbackApEnabled c then (False, off u, w)
         else let (u, w) = (if wu_ready u then (u, w) else start_ap F c u w)
           in if wu_ready u then (True, u, w) else (False, off u, w))"

definition publishState :: "'f LoggerState \<Rightarrow> 'f WebUi \<Rightarrow> 'f WebUi" where
  "publishState state u = u\<lparr>wu_state := state\<rparr>"

definition setManagementPairingCode :: "string \<Rightarrow> u32 \<Rightarrow> 'f WebUi \<Rightarrow> 'f WebUi" where
  "setManagementPairingCode pairing expiresInSeconds u = u\<lparr>wu_pairingCode := pairing, wu_pairingExpires := expiresInSeconds\<rparr>"

subsection \<open>Answering\<close>

definition web_log_add :: "('d, 'f, 'e, 'w, 'sd, 'fs) web_env \<Rightarrow> web_request \<Rightarrow> string \<Rightarrow> u32 \<Rightarrow> byte \<Rightarrow>
    ('f, 'e, 'w, 'sd, 'fs) site \<Rightarrow> ('f, 'e, 'w, 'sd, 'fs) site" where
  "web_log_add E rq c v sev s = s\<lparr>si_log := log_add (we_json E) (wr_now rq) (wr_received rq) c v sev (si_log s)\<rparr>"

definition reply :: "web_reply \<Rightarrow> ('f, 'e, 'w, 'sd, 'fs) site \<Rightarrow> ('f, 'e, 'w, 'sd, 'fs) site" where
  "reply r s = s\<lparr>si_replies := si_replies s @ [r]\<rparr>"

definition text_reply :: "bool \<Rightarrow> nat \<Rightarrow> string \<Rightarrow> string \<Rightarrow> web_reply" where
  "text_reply noStore status ctype body = \<lparr>wp_status = status, wp_type = ctype, wp_body = Text body, wp_noStore = noStore\<rparr>"

definition file_reply :: "bool \<Rightarrow> string \<Rightarrow> string \<Rightarrow> web_reply" where
  "file_reply noStore ctype path = \<lparr>wp_status = 200, wp_type = ctype, wp_body = FileOf path, wp_noStore = noStore\<rparr>"

definition route_code :: "string \<Rightarrow> string" where
  "route_code path = (if path = ''/'' then ''http_dashboard'' else if path = ''/settings'' then ''http_settings''
     else if path = ''/diagnostics'' then ''http_diagnostics'' else if path = ''/logs'' then ''http_logs'' else ''http_api'')"

definition sendLogged :: "('d, 'f, 'e, 'w, 'sd, 'fs) web_env \<Rightarrow> web_request \<Rightarrow> bool \<Rightarrow> nat \<Rightarrow> string \<Rightarrow> string \<Rightarrow>
    ('f, 'e, 'w, 'sd, 'fs) site \<Rightarrow> ('f, 'e, 'w, 'sd, 'fs) site" where
  "sendLogged E rq noStore status ctype body s =
     (let s = reply (text_reply noStore status ctype body) s; now = wr_now rq
      in if \<not> detailedRequests now (si_log s) \<and> status = 200 \<and> starts_with ''/api/'' (wr_uri rq)
         then let s = s\<lparr>si_web := (si_web s)\<lparr>wu_polls := wu_polls (si_web s) + 1\<rparr>\<rparr>
           in if since now (wu_lastPoll (si_web s)) < 60000 then s
              else (web_log_add E rq ''http_poll_summary'' (wu_polls (si_web s)) 1 s)\<lparr>si_web :=
                (si_web s)\<lparr>wu_polls := 0, wu_lastPoll := now\<rparr>\<rparr>
         else s\<lparr>si_log := log_http (we_json E) now (wr_received rq) (route_code (wr_uri rq)) (wr_method rq) (of_nat status)
           (since now (wu_requestStartedMs (si_web s))) (si_log s)\<rparr>)"

definition settingsAuthorized :: "('d, 'f, 'e, 'w, 'sd, 'fs) web_env \<Rightarrow> web_request \<Rightarrow>
    ('f, 'e, 'w, 'sd, 'fs) site \<Rightarrow> bool \<times> ('f, 'e, 'w, 'sd, 'fs) site" where
  "settingsAuthorized E rq s =
     (if wu_settingsPassword (si_web s) = []
      then (False, sendLogged E rq False 503 ''text/plain'' ''Configure APEXI_OTA_PASSWORD before using settings'' s)
      else if \<not> we_authenticate E ''admin'' (wu_settingsPassword (si_web s)) rq
      then (False, web_log_add E rq ''http_auth_challenge'' 401 2
        (reply \<lparr>wp_status = 401, wp_type = [], wp_body = Challenge, wp_noStore = False\<rparr> s))
      else (True, s))"

text \<open>\<open>if(!settingsAuthorized()) return;\<close>\<close>

definition authorized :: "('d, 'f, 'e, 'w, 'sd, 'fs) web_env \<Rightarrow> web_request \<Rightarrow>
    (('f, 'e, 'w, 'sd, 'fs) site \<Rightarrow> ('f, 'e, 'w, 'sd, 'fs) site) \<Rightarrow> ('f, 'e, 'w, 'sd, 'fs) site \<Rightarrow> ('f, 'e, 'w, 'sd, 'fs) site" where
  "authorized E rq h s = (case settingsAuthorized E rq s of (False, s) \<Rightarrow> s | (True, s) \<Rightarrow> h s)"

subsection \<open>Pages\<close>

text \<open>The cards of the compiled-in sensors, each an identifier and a name.\<close>

definition sensorCardsHtml :: "(string \<times> string) list \<Rightarrow> string" where
  "sensorCardsHtml sensors = concat (map (\<lambda>(i, name).
     let q = [CHR 0x22] in
     ''<div class='' @ q @ ''card sensor-card'' @ q @ '' data-sensor-id='' @ q @ i @ q @ ''>'' @
     ''<div class='' @ q @ ''label'' @ q @ ''>'' @ name @ ''</div>'' @
     ''<div class='' @ q @ ''value'' @ q @ '' id='' @ q @ ''sensor-value-'' @ i @ q @ ''>--</div>'' @
     ''<div class='' @ q @ ''status'' @ q @ ''><span id='' @ q @ ''sensor-loop-'' @ i @ q @ ''>--</span><span id='' @ q @
     ''sensor-fault-'' @ i @ q @ ''>--</span></div>'' @ ''</div>'') sensors)"

definition handleIndex where
  "handleIndex E rq s =
     sendLogged E rq False 200 ''text/html'' (branded E (we_lit E 0 @ sensorCardsHtml (we_sensors E) @ we_lit E 1)) s"

definition handleDiagnostics where
  "handleDiagnostics E rq s = sendLogged E rq False 200 ''text/html'' (branded E (we_lit E 2)) s"

definition handleLiveJson where
  "handleLiveJson E rq s = sendLogged E rq False 200 ''application/json'' (liveJson (we_text3 E) (wu_state (si_web s))) s"

definition handleFilesJson where
  "handleFilesJson E rq s =
     (case si_csv s of None \<Rightarrow> sendLogged E rq False 503 ''application/json'' ''[]'' s
      | Some c \<Rightarrow> sendLogged E rq False 200 ''application/json'' (listFilesJson (we_root E (si_card s)) c) s)"

definition handleDownload where
  "handleDownload E rq s =
     (case si_csv s of
        Some c \<Rightarrow>
          if starts_with ''/download/'' (wr_uri rq)
          then case openReadOnly (we_card E) (drop (length ''/download/'') (wr_uri rq)) c (si_card s) of
              None \<Rightarrow> sendLogged E rq False 404 ''text/plain'' ''File not found'' s
            | Some path \<Rightarrow> reply (file_reply False ''text/csv'' path) s
          else sendLogged E rq False 404 ''text/plain'' ''Not found'' (web_log_add E rq ''http_not_found'' 404 2 s)
      | None \<Rightarrow> sendLogged E rq False 404 ''text/plain'' ''Not found'' (web_log_add E rq ''http_not_found'' 404 2 s))"

text \<open>The form: what it shows of the settings and of the authorization. The two secrets appear only as set or not.\<close>

definition authorization_html :: "('d, 'f, 'e, 'w, 'sd, 'fs) web_env \<Rightarrow> LoggerAuthorization \<Rightarrow> string" where
  "authorization_html E a = we_lit E 10 @ htmlEscape (la_hardwareId a) @ we_lit E 11 @ htmlEscape (la_status a) @ we_lit E 12 @
     htmlEscape (la_error a) @ we_lit E 13 @ htmlEscape (la_userCode a) @ we_lit E 14 @ htmlEscape (la_csrf a) @ we_lit E 15"

definition configured_text :: "string \<Rightarrow> string" where
  "configured_text v = (if v \<noteq> [] then ''Configured '' @ [CHR 0xE2, CHR 0x80, CHR 0x94] @ '' leave blank to keep'' else ''Not configured'')"

definition settings_html :: "('d, 'f, 'e, 'w, 'sd, 'fs) web_env \<Rightarrow> ('f, 'e, 'w, 'sd, 'fs) site \<Rightarrow> string" where
  "settings_html E s =
     (let r = si_settings s; c = rs_config r; https = (ud_protocol c = 1); u = si_web s;
          supported = (case si_auth s of None \<Rightarrow> None | Some a \<Rightarrow> if la_status a = ''unsupported'' then None else Some a)
      in we_lit E 3 @ (if https then we_lit E 4 else we_lit E 5) @ ''<p>Protocol: <strong>'' @ (if https then ''HTTPS'' else ''MQTT'') @
        ''</strong></p>'' @ (case supported of Some a \<Rightarrow> if https then authorization_html E a else [] | None \<Rightarrow> []) @
        we_lit E 16 @ (if rs_uploadEnabled r then '' checked'' else []) @
        we_lit E 17 @ (if rs_remoteManagementEnabled r then '' checked'' else []) @ we_lit E 18 @
        (if (\<not> https \<or> supported = None) \<and> rs_remoteManagementEnabled r \<and> wu_pairingCode u \<noteq> []
         then we_lit E 19 @ htmlEscape (wu_pairingCode u) @ we_lit E 20 @ u32_text (wu_pairingExpires u) @ we_lit E 21 @ we_lit E 22
         else []) @
        we_lit E 23 @ htmlEscape (ud_mqttHost c) @ we_lit E 24 @ (if https then ''HTTPS port'' else ''MQTT port'') @
        we_lit E 25 @ dec (unat (ud_mqttPort c)) @ we_lit E 26 @
        (if https then we_lit E 27 @ htmlEscape (configured_text (ud_clientId c)) @ we_lit E 28 @
           htmlEscape (configured_text (ud_clientSecret c)) @ we_lit E 29 else []) @
        we_lit E 30 @ htmlEscape (rs_ntpPrimary r) @ we_lit E 31 @ htmlEscape (rs_ntpSecondary r) @ we_lit E 32 @
        htmlEscape (rs_timeZoneRule r) @ we_lit E 33 @ htmlEscape (rs_timeZoneLabel r) @ we_lit E 34)"

definition handleSettings where
  "handleSettings E rq s =
     (if \<not> wu_localSettingsEnabled (si_web s)
      then reply (text_reply False 410 ''text/plain'' ''Local settings are disabled; use provisioned device management.'') s
      else authorized E rq (\<lambda>s. sendLogged E rq True 200 ''text/html'' (branded E (settings_html E s)) s) s)"

subsection \<open>What a client may change\<close>

definition save_form ::
  "('d, 'f, 'e, 'w, 'sd, 'fs) web_env \<Rightarrow> web_request \<Rightarrow> ('f, 'e, 'w, 'sd, 'fs) site \<Rightarrow> bool \<times> ('f, 'e, 'w, 'sd, 'fs) site" where
  "save_form E rq s =
     (let port = arduino_toInt (web_arg ''port'' rq)
      in if port < 1 \<or> 65535 < port then (False, s)
         else case settings_save (we_eeprom E) (web_arg ''host'' rq) (word_of_int port) (has_arg ''enabled'' rq)
             (web_arg ''ntp_primary'' rq) (web_arg ''ntp_secondary'' rq) (web_arg ''tz_rule'' rq) (web_arg ''tz_label'' rq)
             (has_arg ''remote_management'' rq) (rs_appliedConfigVersion (si_settings s))
             (web_arg ''cf_access_client_id'' rq) (web_arg ''cf_access_client_secret'' rq) (si_settings s) (si_eeprom s) of
           (ok, r, e) \<Rightarrow> (ok, s\<lparr>si_settings := r, si_eeprom := e\<rparr>))"

definition handleSettingsSave where
  "handleSettingsSave E rq s =
     (if \<not> wu_localSettingsEnabled (si_web s)
      then reply (text_reply False 410 ''text/plain'' ''Local settings are disabled; use provisioned device management.'') s
      else authorized E rq (\<lambda>s.
        if has_arg ''remote_management'' rq \<and> \<not> has_arg ''enabled'' rq
        then sendLogged E rq False 400 ''text/plain'' ''Remote management requires live upload'' s
        else case save_form E rq s of
            (False, s) \<Rightarrow> sendLogged E rq False 400 ''text/plain'' ''Invalid settings'' s
          | (True, s) \<Rightarrow>
              let s = sendLogged E rq False 200 ''text/html'' (we_lit E 35) s
              in s\<lparr>si_web := (si_web s)\<lparr>wu_restartPending := True, wu_restartRequestedMs := wr_now rq\<rparr>\<rparr>) s)"

definition authorization_status where
  "authorization_status E rq = authorized E rq (\<lambda>s.
     case si_auth s of
       None \<Rightarrow> sendLogged E rq True 503 ''application/json'' ''{}'' s
     | Some a \<Rightarrow> sendLogged E rq True 200 ''application/json''
         (''{'' @ comma_join [js ''status'' (la_status a), js ''error'' (la_error a), js ''user_code'' (la_userCode a),
            ju ''expires_in'' (authz_expiresIn (wr_now rq) a)] @ ''}'') s)"

definition authorization_start where
  "authorization_start E rq s =
     (if \<not> wu_localSettingsEnabled (si_web s) then reply (text_reply False 410 ''text/plain'' ''Local authorization disabled'') s
      else authorized E rq (\<lambda>s.
        case si_auth s of
          None \<Rightarrow> sendLogged E rq True 403 ''application/json'' (we_lit E 36) s
        | Some a \<Rightarrow>
            if web_arg ''csrf'' rq \<noteq> la_csrf a \<or> la_csrf a = []
            then sendLogged E rq True 403 ''application/json'' (we_lit E 36) s
            else case requestAuthorization (we_sys E) (we_json E) a (si_world s) of
              (ok, a, w) \<Rightarrow> sendLogged E rq True (if ok then 202 else 409) ''application/json'' ''{}''
                (s\<lparr>si_auth := Some a, si_world := w\<rparr>)) s)"

definition set_logging where
  "set_logging E rq = authorized E rq (\<lambda>s.
     let J = we_json E; body = web_arg ''plain'' rq;
         bad = sendLogged E rq False 400 ''text/plain'' ''Expected a JSON detailed boolean'' s
     in if \<not> has_arg ''plain'' rq \<or> 128 < length body then bad
        else case deserialize J 128 None body of
          None \<Rightarrow> bad
        | Some doc \<Rightarrow> (case as_bool J (member J doc ''detailed'') of
            None \<Rightarrow> bad
          | Some b \<Rightarrow> sendLogged E rq False 200 ''application/json'' (we_lit E 37)
              (s\<lparr>si_log := set_detailed (wr_now rq) b (si_log s)\<rparr>)))"

subsection \<open>Recovery of rejected uploads\<close>

definition upload_rejections where
  "upload_rejections E rq = authorized E rq (\<lambda>s.
     case si_queue s of
       None \<Rightarrow> sendLogged E rq False 503 ''text/plain'' ''Upload recovery unavailable'' s
     | Some q \<Rightarrow>
         if has_arg ''slot'' rq
         then case List.find (\<lambda>i. web_arg ''slot'' rq = dec i) [0..<kRejectedSlots] of
             None \<Rightarrow> sendLogged E rq True 400 ''text/plain'' ''Invalid recovery slot'' s
           | Some slot \<Rightarrow> (case readRejected (we_flash E) slot q (si_flash s) of
               None \<Rightarrow> sendLogged E rq True 404 ''text/plain'' ''Recovery record unavailable or corrupt'' s
             | Some (bs, status) \<Rightarrow> sendLogged E rq True 200 ''application/json''
                 (''{'' @ comma_join [jv ''http_status'' (fmt_d 1 status), js ''payload'' (unraw bs)] @ ''}'') s)
         else let present = filter (\<lambda>i. rejectedSlotPresent (we_flash E) i q (si_flash s)) [0..<kRejectedSlots]
           in sendLogged E rq True 200 ''application/json''
             (''{'' @ comma_join [jn ''count'' (q_rejectedRecords q), jv ''slots'' (''['' @ comma_join (map dec present) @ '']'')] @ ''}'') s)"

subsection \<open>Routes\<close>

definition log_download where
  "log_download E rq = authorized E rq (\<lambda>s.
     case log_open (we_card E) (web_arg ''name'' rq) (si_log s) (si_card s) of
       None \<Rightarrow> sendLogged E rq False 404 ''text/plain'' ''Log unavailable'' s
     | Some path \<Rightarrow> web_log_add E rq ''log_download'' 0 1 (reply (file_reply True ''text/plain'' path) s))"

definition system_events where
  "system_events E rq s = authorized E rq (\<lambda>s. sendLogged E rq False 200 ''application/json'' (we_recentJson E (si_log s)) s) s"

definition log_file_list where
  "log_file_list E rq s =
     authorized E rq (\<lambda>s. sendLogged E rq False 200 ''application/json'' (we_filesJson E (si_log s) (si_card s)) s) s"

definition logs_page where
  "logs_page E rq s = authorized E rq (\<lambda>s. sendLogged E rq False 200 ''text/html'' (branded E (we_lit E 38)) s) s"

definition dispatch where
  "dispatch E rq s =
     (let m = wr_method rq; p = wr_uri rq in
      if m = http_get \<and> p = ''/api/authorization'' then authorization_status E rq s
      else if m = http_post \<and> p = ''/api/authorization/start'' then authorization_start E rq s
      else if m = http_post \<and> p = ''/api/logging'' then set_logging E rq s
      else if m = http_get \<and> p = ''/api/system-events'' then system_events E rq s
      else if m = http_get \<and> p = ''/api/log-files'' then log_file_list E rq s
      else if m = http_get \<and> p = ''/system-log-download'' then log_download E rq s
      else if m = http_get \<and> p = ''/logs'' then logs_page E rq s
      else if m = http_get \<and> p = ''/'' then handleIndex E rq (web_log_add E rq ''http_get_dashboard'' 0 1 s)
      else if m = http_get \<and> p = ''/diagnostics'' then handleDiagnostics E rq (web_log_add E rq ''http_get_diagnostics'' 0 1 s)
      else if m = http_get \<and> p = ''/api/live'' then handleLiveJson E rq s
      else if m = http_get \<and> p = ''/api/files'' then handleFilesJson E rq s
      else if m = http_get \<and> p = ''/api/upload-rejections'' then upload_rejections E rq s
      else if m = http_get \<and> p = ''/settings'' then handleSettings E rq (web_log_add E rq ''http_get_settings'' 0 1 s)
      else if m = http_post \<and> p = ''/settings'' then handleSettingsSave E rq (web_log_add E rq ''http_post_settings'' 0 1 s)
      else handleDownload E rq s)"

text \<open>One turn: the library hands over at most one request; \<open>later\<close> is the clock behind it.\<close>

definition handleClient where
  "handleClient E started (rq :: web_request option) later s =
     (if \<not> wu_ready (si_web s) then s
      else let s = s\<lparr>si_web := (si_web s)\<lparr>wu_requestStartedMs := started\<rparr>\<rparr>;
               s = (case rq of None \<Rightarrow> s | Some rq \<Rightarrow> dispatch E rq s)
        in if wu_restartPending (si_web s) \<and> 750 \<le> since later (wu_restartRequestedMs (si_web s)) then s\<lparr>si_restarted := True\<rparr> else s)"

subsection \<open>What an answer touches\<close>

lemma push_event_detailed [simp]: "sl_detailed (snd (push_event J received e d s)) = sl_detailed s"
  by (simp add: push_event_def remember_def Let_def split: prod.split bool.split)

lemma log_add_detailed [simp]: "sl_detailed (log_add J now received c v sev s) = sl_detailed s"
  by (simp add: log_add_def Let_def)

lemma log_http_detailed [simp]: "sl_detailed (log_http J now received route m status d s) = sl_detailed s"
  by (simp add: log_http_def Let_def)

lemma web_log_add_fields [simp]:
  "si_web (web_log_add E rq c v sev s) = si_web s" "si_csv (web_log_add E rq c v sev s) = si_csv s"
  "si_settings (web_log_add E rq c v sev s) = si_settings s" "si_auth (web_log_add E rq c v sev s) = si_auth s"
  "si_queue (web_log_add E rq c v sev s) = si_queue s" "si_eeprom (web_log_add E rq c v sev s) = si_eeprom s"
  "si_world (web_log_add E rq c v sev s) = si_world s" "si_card (web_log_add E rq c v sev s) = si_card s"
  "si_flash (web_log_add E rq c v sev s) = si_flash s" "si_replies (web_log_add E rq c v sev s) = si_replies s"
  "si_restarted (web_log_add E rq c v sev s) = si_restarted s"
  "sl_detailed (si_log (web_log_add E rq c v sev s)) = sl_detailed (si_log s)"
  by (simp_all add: web_log_add_def)

lemma reply_fields [simp]:
  "si_web (reply r s) = si_web s" "si_csv (reply r s) = si_csv s"
  "si_settings (reply r s) = si_settings s" "si_auth (reply r s) = si_auth s"
  "si_queue (reply r s) = si_queue s" "si_eeprom (reply r s) = si_eeprom s"
  "si_world (reply r s) = si_world s" "si_card (reply r s) = si_card s"
  "si_flash (reply r s) = si_flash s" "si_replies (reply r s) = si_replies s @ [r]"
  "si_restarted (reply r s) = si_restarted s" "si_log (reply r s) = si_log s"
  by (simp_all add: reply_def)

lemma sendLogged_fields [simp]:
  "si_csv (sendLogged E rq ns st ty b s) = si_csv s"
  "si_settings (sendLogged E rq ns st ty b s) = si_settings s" "si_auth (sendLogged E rq ns st ty b s) = si_auth s"
  "si_queue (sendLogged E rq ns st ty b s) = si_queue s" "si_eeprom (sendLogged E rq ns st ty b s) = si_eeprom s"
  "si_world (sendLogged E rq ns st ty b s) = si_world s" "si_card (sendLogged E rq ns st ty b s) = si_card s"
  "si_flash (sendLogged E rq ns st ty b s) = si_flash s"
  "si_replies (sendLogged E rq ns st ty b s) = si_replies s @ [text_reply ns st ty b]"
  "si_restarted (sendLogged E rq ns st ty b s) = si_restarted s"
  "sl_detailed (si_log (sendLogged E rq ns st ty b s)) = sl_detailed (si_log s)"
  "wu_restartPending (si_web (sendLogged E rq ns st ty b s)) = wu_restartPending (si_web s)"
  "wu_settingsPassword (si_web (sendLogged E rq ns st ty b s)) = wu_settingsPassword (si_web s)"
  by (simp_all add: sendLogged_def Let_def)

lemma text_reply_fields [simp]:
  "wp_status (text_reply ns st ty b) = st" "wp_body (text_reply ns st ty b) = Text b"
  "wp_status (file_reply ns ty p) = 200" "wp_body (file_reply ns ty p) = FileOf p"
  by (simp_all add: text_reply_def file_reply_def)

text \<open>Everything but the log, the server's own counters and the replies.\<close>

definition untouched :: "('f, 'e, 'w, 'sd, 'fs) site \<Rightarrow> ('f, 'e, 'w, 'sd, 'fs) site \<Rightarrow> bool" where
  "untouched s s' \<longleftrightarrow> si_settings s' = si_settings s \<and> si_eeprom s' = si_eeprom s \<and> si_auth s' = si_auth s \<and>
     si_world s' = si_world s \<and> si_queue s' = si_queue s \<and> si_flash s' = si_flash s \<and> si_csv s' = si_csv s \<and>
     si_card s' = si_card s \<and> si_restarted s' = si_restarted s \<and> sl_detailed (si_log s') = sl_detailed (si_log s) \<and>
     wu_restartPending (si_web s') = wu_restartPending (si_web s)"

definition one_reply :: "('f, 'e, 'w, 'sd, 'fs) site \<Rightarrow> ('f, 'e, 'w, 'sd, 'fs) site \<Rightarrow> bool" where
  "one_reply s s' \<longleftrightarrow> (\<exists>r. si_replies s' = si_replies s @ [r])"

lemma authorized_denied:
  assumes "wu_settingsPassword (si_web s) = [] \<or> \<not> we_authenticate E ''admin'' (wu_settingsPassword (si_web s)) rq"
  shows "untouched s (authorized E rq h s) \<and> (\<exists>r. si_replies (authorized E rq h s) = si_replies s @ [r] \<and> wp_status r \<in> {401, 503})"
  using assms by (auto simp: authorized_def settingsAuthorized_def untouched_def)

lemma authorized_allowed:
  assumes "wu_settingsPassword (si_web s) \<noteq> []" "we_authenticate E ''admin'' (wu_settingsPassword (si_web s)) rq"
  shows "authorized E rq h s = h s"
  using assms by (simp add: authorized_def settingsAuthorized_def)

lemma authorized_one_reply:
  assumes "one_reply s (h s)"
  shows "one_reply s (authorized E rq h s)"
  using assms by (auto simp: authorized_def settingsAuthorized_def one_reply_def)

lemmas web_handlers = handleIndex_def handleDiagnostics_def handleLiveJson_def handleFilesJson_def handleDownload_def
  handleSettings_def handleSettingsSave_def authorization_status_def authorization_start_def set_logging_def
  upload_rejections_def log_download_def

lemma save_form_replies [simp]: "si_replies (snd (save_form E rq s)) = si_replies s"
  by (simp add: save_form_def Let_def split: prod.split)

lemma set_logging_reply: "one_reply s (set_logging E rq s)"
  unfolding set_logging_def by (rule authorized_one_reply) (simp add: one_reply_def Let_def split: option.split)

lemma rejections_reply: "one_reply s (upload_rejections E rq s)"
  unfolding upload_rejections_def by (rule authorized_one_reply) (simp add: one_reply_def Let_def split: option.split prod.split)

lemma save_reply: "one_reply s (handleSettingsSave E rq s)"
proof (cases "wu_localSettingsEnabled (si_web s)")
  case True
  have "one_reply s (case save_form E rq s of (False, s) \<Rightarrow> sendLogged E rq False 400 ''text/plain'' ''Invalid settings'' s
     | (True, s) \<Rightarrow> let s = sendLogged E rq False 200 ''text/html'' (we_lit E 35) s
         in s\<lparr>si_web := (si_web s)\<lparr>wu_restartPending := True, wu_restartRequestedMs := wr_now rq\<rparr>\<rparr>)"
    using save_form_replies [of E rq s] by (cases "save_form E rq s") (simp add: one_reply_def Let_def split: bool.split)
  then show ?thesis using True unfolding handleSettingsSave_def
    by (simp, intro authorized_one_reply) (simp add: one_reply_def)
qed (simp add: handleSettingsSave_def one_reply_def)

lemma start_reply: "one_reply s (authorization_start E rq s)"
proof (cases "wu_localSettingsEnabled (si_web s)")
  case True
  then show ?thesis unfolding authorization_start_def
    by (simp, intro authorized_one_reply) (simp add: one_reply_def split: option.split prod.split)
qed (simp add: authorization_start_def one_reply_def)

lemma one_reply_if: "one_reply s a \<Longrightarrow> one_reply s b \<Longrightarrow> one_reply s (if c then a else b)"
  by simp

lemma one_reply_logged: "one_reply (web_log_add E rq c v sev s) s' \<Longrightarrow> one_reply s s'"
  by (simp add: one_reply_def)

lemma page_replies:
  "one_reply s (handleIndex E rq s)" "one_reply s (handleDiagnostics E rq s)" "one_reply s (handleLiveJson E rq s)"
  "one_reply s (handleFilesJson E rq s)" "one_reply s (handleDownload E rq s)"
  by (simp_all add: web_handlers one_reply_def split: option.split)

lemma answered_reply: "one_reply s (authorized E rq (\<lambda>s. sendLogged E rq ns st t (b s) s) s)"
  by (rule authorized_one_reply) (simp add: one_reply_def)

lemma settings_reply: "one_reply s (handleSettings E rq s)"
  using answered_reply [of s E rq True 200 "''text/html''" "\<lambda>s. branded E (settings_html E s)"]
  by (simp add: handleSettings_def one_reply_def)

lemma status_reply: "one_reply s (authorization_status E rq s)" "one_reply s (log_download E rq s)"
  unfolding authorization_status_def log_download_def
  by (rule authorized_one_reply, simp add: one_reply_def split: option.split)+

lemma dispatch_one_reply: "one_reply s (dispatch E rq s)"
  unfolding dispatch_def Let_def system_events_def log_file_list_def logs_page_def
  by (intro one_reply_if page_replies answered_reply status_reply start_reply set_logging_reply rejections_reply
      page_replies [THEN one_reply_logged] settings_reply [THEN one_reply_logged] save_reply [THEN one_reply_logged])

text \<open>What a page shows of a text cannot end an attribute or open a tag; nothing of it is lost.\<close>

lemma htmlEscape_safe: "c \<in> set (htmlEscape v) \<Longrightarrow> c \<noteq> CHR ''<'' \<and> c \<noteq> CHR ''>'' \<and> c \<noteq> CHR 0x22 \<and> c \<noteq> CHR 0x27"
  by (auto simp: htmlEscape_def split: if_splits)

text \<open>The settings page does not depend on the two secrets beyond whether they are set, nor on any credential of the authorization.\<close>

lemma settings_page_hides_secrets:
  assumes "ud_clientId (rs_config (si_settings s)) = [] \<longleftrightarrow> cid = []" "ud_clientSecret (rs_config (si_settings s)) = [] \<longleftrightarrow> secret = []"
  shows "settings_html E (s\<lparr>si_settings := (si_settings s)\<lparr>rs_config := (rs_config (si_settings s))\<lparr>ud_clientId := cid, ud_clientSecret := secret\<rparr>\<rparr>,
      si_auth := map_option (\<lambda>a. a\<lparr>la_activeToken := t1, la_storedToken := t2, la_bootstrapToken := t3, la_candidate := t4,
        la_installationSecret := t5, la_deviceCode := t6, la_config := (la_config a)\<lparr>ac_token := t7\<rparr>\<rparr>) (si_auth s)\<rparr>) = settings_html E s"
  using assms by (simp add: settings_html_def Let_def configured_text_def authorization_html_def split: option.split)

subsection \<open>Properties\<close>

text \<open>The routes that are behind the password.\<close>

definition protected_routes :: "(byte \<times> string) list" where
  "protected_routes = [(http_get, ''/api/authorization''), (http_post, ''/api/authorization/start''), (http_post, ''/api/logging''),
     (http_get, ''/api/system-events''), (http_get, ''/api/log-files''), (http_get, ''/system-log-download''),
     (http_get, ''/logs''), (http_get, ''/api/upload-rejections''), (http_get, ''/settings''), (http_post, ''/settings'')]"

lemma denied_handlers:
  assumes "wu_settingsPassword (si_web s) = [] \<or> \<not> we_authenticate E ''admin'' (wu_settingsPassword (si_web s)) rq"
  shows "untouched s (authorization_status E rq s)" "untouched s (authorization_start E rq s)" "untouched s (set_logging E rq s)"
    "untouched s (upload_rejections E rq s)" "untouched s (log_download E rq s)" "untouched s (handleSettings E rq s)"
    "untouched s (handleSettingsSave E rq s)"
  using authorized_denied [OF assms]
  by (simp_all add: authorization_status_def authorization_start_def set_logging_def upload_rejections_def log_download_def
      handleSettings_def handleSettingsSave_def) (simp_all add: untouched_def)

lemma public_handlers:
  "untouched s (handleIndex E rq s)" "untouched s (handleDiagnostics E rq s)" "untouched s (handleLiveJson E rq s)"
  "untouched s (handleFilesJson E rq s)" "untouched s (handleDownload E rq s)"
  by (simp_all add: web_handlers untouched_def split: option.split)

lemma untouched_logged: "untouched (web_log_add E rq c v sev s) s' = untouched s s'"
  by (simp add: untouched_def)

lemma denied_status:
  assumes "wu_settingsPassword (si_web s) = [] \<or> \<not> we_authenticate E ''admin'' (wu_settingsPassword (si_web s)) rq"
    and "(wr_method rq, wr_uri rq) \<in> set protected_routes"
  shows "\<exists>r. si_replies (dispatch E rq s) = si_replies s @ [r] \<and> wp_status r \<in> {401, 410, 503}"
proof -
  have A: "\<exists>r. si_replies (authorized E rq h s) = si_replies s @ [r] \<and> wp_status r \<in> {401, 410, 503}" for h
    using authorized_denied [OF assms(1), of h] by auto
  have B: "\<exists>r. si_replies (authorized E rq h (web_log_add E rq c v sev s)) = si_replies s @ [r] \<and> wp_status r \<in> {401, 410, 503}"
    for h c v sev using authorized_denied [of "web_log_add E rq c v sev s" E rq h] assms(1) by auto
  show ?thesis using assms(2) A B
    by (auto simp: protected_routes_def dispatch_def http_get_def http_post_def authorization_status_def authorization_start_def
        set_logging_def log_download_def upload_rejections_def handleSettings_def handleSettingsSave_def system_events_def
        log_file_list_def logs_page_def)
qed

text \<open>
  C17: nothing behind the password happens without it. Whatever a client sends, when the digest
  credentials are wrong (or no password is set) the request gets exactly one answer, an answer of a
  protected route is the challenge or a refusal, and the settings, the EEPROM, the authorization, the upload
  queue, the card, the detail of the log and the pending restart are left as they were.
\<close>

theorem unauthenticated_request_changes_nothing:
  assumes "wu_settingsPassword (si_web s) = [] \<or> \<not> we_authenticate E ''admin'' (wu_settingsPassword (si_web s)) rq"
  shows "untouched s (dispatch E rq s) \<and> one_reply s (dispatch E rq s) \<and>
    ((wr_method rq, wr_uri rq) \<in> set protected_routes \<longrightarrow>
       (\<exists>r. si_replies (dispatch E rq s) = si_replies s @ [r] \<and> wp_status r \<in> {401, 410, 503}))"
proof -
  have "untouched s (dispatch E rq s)"
    using denied_handlers [OF assms] public_handlers [of s E rq] public_handlers [of "web_log_add E rq c v sev s" E rq for c v sev]
      denied_handlers(6,7) [of "web_log_add E rq c v sev s" E rq for c v sev] authorized_denied [OF assms] assms
    by (simp add: dispatch_def Let_def untouched_logged system_events_def log_file_list_def logs_page_def)
  then show ?thesis using dispatch_one_reply [of s E rq] denied_status [OF assms] by blast
qed

text \<open>What a save of the form that succeeded holds in memory.\<close>

lemma saved_fields:
  assumes "settings_save E host port enabled n1 n2 rule label remote version cid secret s e = (True, s1, e1)"
  shows "ud_mqttHost (rs_config s1) = host" "ud_mqttPort (rs_config s1) = port" "rs_uploadEnabled s1 = enabled"
    "rs_remoteManagementEnabled s1 = remote" "rs_ntpPrimary s1 = n1" "rs_ntpSecondary s1 = n2" "rs_timeZoneRule s1 = rule"
    "rs_timeZoneLabel s1 = label" "ud_clientId (rs_config s1) = (if cid = [] then ud_clientId (rs_config s) else cid)"
    "ud_clientSecret (rs_config s1) = (if secret = [] then ud_clientSecret (rs_config s) else secret)"
  using assms unfolding settings_save_def
  by (auto simp: Let_def apply_record_def split: if_splits prod.splits bool.splits)

lemma restart_only_saved:
  assumes "\<not> wu_restartPending (si_web s)" "wu_restartPending (si_web (handleSettingsSave E rq s))"
  shows "wu_settingsPassword (si_web s) \<noteq> []" "we_authenticate E ''admin'' (wu_settingsPassword (si_web s)) rq"
    "has_arg ''remote_management'' rq \<longrightarrow> has_arg ''enabled'' rq"
    "1 \<le> arduino_toInt (web_arg ''port'' rq)" "arduino_toInt (web_arg ''port'' rq) \<le> 65535"
    "\<exists>s1 e1. settings_save (we_eeprom E) (web_arg ''host'' rq) (word_of_int (arduino_toInt (web_arg ''port'' rq)))
        (has_arg ''enabled'' rq) (web_arg ''ntp_primary'' rq) (web_arg ''ntp_secondary'' rq) (web_arg ''tz_rule'' rq)
        (web_arg ''tz_label'' rq) (has_arg ''remote_management'' rq) (rs_appliedConfigVersion (si_settings s))
        (web_arg ''cf_access_client_id'' rq) (web_arg ''cf_access_client_secret'' rq) (si_settings s) (si_eeprom s) = (True, s1, e1) \<and>
      si_settings (handleSettingsSave E rq s) = s1 \<and> si_eeprom (handleSettingsSave E rq s) = e1"
proof -
  have auth: "wu_settingsPassword (si_web s) \<noteq> [] \<and> we_authenticate E ''admin'' (wu_settingsPassword (si_web s)) rq"
    using denied_handlers(7) [of s E rq] assms by (auto simp: untouched_def)
  then show "wu_settingsPassword (si_web s) \<noteq> []" "we_authenticate E ''admin'' (wu_settingsPassword (si_web s)) rq" by auto
  have h: "handleSettingsSave E rq s = (if has_arg ''remote_management'' rq \<and> \<not> has_arg ''enabled'' rq
        then sendLogged E rq False 400 ''text/plain'' ''Remote management requires live upload'' s
        else case save_form E rq s of
            (False, s) \<Rightarrow> sendLogged E rq False 400 ''text/plain'' ''Invalid settings'' s
          | (True, s) \<Rightarrow> (let s = sendLogged E rq False 200 ''text/html'' (we_lit E 35) s
              in s\<lparr>si_web := (si_web s)\<lparr>wu_restartPending := True, wu_restartRequestedMs := wr_now rq\<rparr>\<rparr>))"
    using assms auth by (auto simp: handleSettingsSave_def authorized_allowed)
  obtain ok s2 where f: "save_form E rq s = (ok, s2)" by fastforce
  have same: "si_web s2 = si_web s" using f by (auto simp: save_form_def Let_def split: if_splits prod.splits)
  then have ok: "ok" "has_arg ''remote_management'' rq \<longrightarrow> has_arg ''enabled'' rq"
    using assms h f by (auto split: if_splits bool.splits)
  then show "has_arg ''remote_management'' rq \<longrightarrow> has_arg ''enabled'' rq" by simp
  show "1 \<le> arduino_toInt (web_arg ''port'' rq)" "arduino_toInt (web_arg ''port'' rq) \<le> 65535"
    using f ok(1) by (auto simp: save_form_def Let_def split: if_splits prod.splits)
  then show "\<exists>s1 e1. settings_save (we_eeprom E) (web_arg ''host'' rq) (word_of_int (arduino_toInt (web_arg ''port'' rq)))
        (has_arg ''enabled'' rq) (web_arg ''ntp_primary'' rq) (web_arg ''ntp_secondary'' rq) (web_arg ''tz_rule'' rq)
        (web_arg ''tz_label'' rq) (has_arg ''remote_management'' rq) (rs_appliedConfigVersion (si_settings s))
        (web_arg ''cf_access_client_id'' rq) (web_arg ''cf_access_client_secret'' rq) (si_settings s) (si_eeprom s) = (True, s1, e1) \<and>
      si_settings (handleSettingsSave E rq s) = s1 \<and> si_eeprom (handleSettingsSave E rq s) = e1"
    using f ok h by (auto simp: save_form_def Let_def split: prod.splits)
qed

text \<open>
  C18: the form is what runs after the restart it causes. A restart is asked for only after a request with
  the right password whose form was accepted and saved, and the settings read back at the next
  start-up are the form's: the server, the port (a number from 1 to 65535), the switches, the time
  settings, and each Cloudflare secret, or the old one where its field was left empty.
\<close>

theorem saved_form_runs_after_restart:
  assumes "eeprom (we_eeprom E) rom" "wf_settings (si_settings s)"
    and "\<not> wu_restartPending (si_web s)" "handleSettingsSave E rq s = s'" "wu_restartPending (si_web s')"
    and "rom e2 = rom (si_eeprom s')"
    and "settings_begin (we_eeprom E) (rs_defaults (si_settings s)) u m s0 e2 = (s2, e3)"
  shows "we_authenticate E ''admin'' (wu_settingsPassword (si_web s)) rq \<and> s2 = si_settings s' \<and>
    ud_mqttHost (rs_config s2) = web_arg ''host'' rq \<and>
    uint (ud_mqttPort (rs_config s2)) = arduino_toInt (web_arg ''port'' rq) \<and> ud_mqttPort (rs_config s2) \<noteq> 0 \<and>
    rs_uploadEnabled s2 = has_arg ''enabled'' rq \<and> rs_remoteManagementEnabled s2 = has_arg ''remote_management'' rq \<and>
    rs_ntpPrimary s2 = web_arg ''ntp_primary'' rq \<and> rs_ntpSecondary s2 = web_arg ''ntp_secondary'' rq \<and>
    rs_timeZoneRule s2 = web_arg ''tz_rule'' rq \<and> rs_timeZoneLabel s2 = web_arg ''tz_label'' rq \<and>
    ud_clientId (rs_config s2) = (if web_arg ''cf_access_client_id'' rq = [] then ud_clientId (rs_config (si_settings s))
      else web_arg ''cf_access_client_id'' rq) \<and>
    ud_clientSecret (rs_config s2) = (if web_arg ''cf_access_client_secret'' rq = [] then ud_clientSecret (rs_config (si_settings s))
      else web_arg ''cf_access_client_secret'' rq)"
proof -
  note R = restart_only_saved [OF assms(3) assms(5) [folded assms(4)], unfolded assms(4)]
  let ?p = "arduino_toInt (web_arg ''port'' rq)"
  obtain s1 e1 where v: "settings_save (we_eeprom E) (web_arg ''host'' rq) (word_of_int ?p) (has_arg ''enabled'' rq)
      (web_arg ''ntp_primary'' rq) (web_arg ''ntp_secondary'' rq) (web_arg ''tz_rule'' rq) (web_arg ''tz_label'' rq)
      (has_arg ''remote_management'' rq) (rs_appliedConfigVersion (si_settings s)) (web_arg ''cf_access_client_id'' rq)
      (web_arg ''cf_access_client_secret'' rq) (si_settings s) (si_eeprom s) = (True, s1, e1)"
    and s': "si_settings s' = s1" "si_eeprom s' = e1" using R(6) by blast
  obtain r where r: "filled_record r" "s1 = apply_record r (si_settings s)" "rom e1 = encode_record r"
    using save_cases [OF assms(1,2) v] by auto
  then have "s2 = apply_record r (s0\<lparr>rs_defaults := rs_defaults (si_settings s)\<rparr>)"
    using eeprom.begin_boots [OF assms(1,7)] assms(6) s' by (auto simp: boot_encode)
  then have s2: "s2 = s1" using r(2) apply_record_same [of "s0\<lparr>rs_defaults := rs_defaults (si_settings s)\<rparr>" "si_settings s" r] by simp
  have p: "uint (word_of_int ?p :: u16) = ?p" using R(4,5) by (simp add: uint_word_of_int)
  have "(word_of_int ?p :: u16) \<noteq> 0"
  proof
    assume "(word_of_int ?p :: u16) = 0"
    then have "uint (word_of_int ?p :: u16) = 0" by simp
    then show False using p R(4) by simp
  qed
  then show ?thesis using saved_fields [OF v] R(2) p by (simp add: s2 s')
qed

text \<open>A small logger: the password is \<open>p\<close>, and the credentials of a request are compared with it.\<close>

definition demo_env :: "(sample_doc, u32, fake_eeprom, fake_prefs, fake_fs, fake_fs) web_env" where
  "demo_env = \<lparr>we_json = sample_json [], we_sys = small_ops, we_eeprom = fake_eeprom_ops, we_card = fake_lfs, we_flash = fake_lfs,
     we_authenticate = (\<lambda>u p rq. u = ''admin'' \<and> p = wr_credentials rq), we_recentJson = (\<lambda>_. ''[]''), we_filesJson = (\<lambda>_ _. ''[]''),
     we_root = (\<lambda>_. None), we_text3 = (\<lambda>_. ''0.000''), we_sensors = [], we_lit = (\<lambda>_. []), we_brandHead = [], we_brandMark = []\<rparr>"

definition demo_site :: "(u32, fake_eeprom, fake_prefs, fake_fs, fake_fs) site" where
  "demo_site = \<lparr>si_web = (fresh_web 0)\<lparr>wu_ready := True, wu_settingsPassword := ''p'', wu_localSettingsEnabled := True\<rparr>,
     si_csv = Some fresh_csv, si_settings = small_settings, si_auth = Some small_device, si_queue = Some new_queue, si_log = fresh_log,
     si_eeprom = blank_eeprom, si_world = small_flash, si_card = blank_volume 100, si_flash = blank_volume 100,
     si_replies = [], si_restarted = False\<rparr>"

definition demo_form :: "string \<Rightarrow> web_request" where
  "demo_form credentials = \<lparr>wr_method = http_post, wr_uri = ''/settings'', wr_args = [(''host'', ''h''), (''port'', ''8080''),
     (''enabled'', ''1''), (''ntp_primary'', ''a''), (''ntp_secondary'', ''b''), (''tz_rule'', ''c''), (''tz_label'', ''d'')],
     wr_credentials = credentials, wr_now = 5, wr_received = ''t''\<rparr>"

theorem unauthenticated_request_changes_nothing_witness:
  "untouched demo_site (dispatch demo_env (demo_form ''q'') demo_site) \<and>
   (\<exists>r. si_replies (dispatch demo_env (demo_form ''q'') demo_site) = [r] \<and> wp_status r \<in> {401, 410, 503})"
proof -
  have "wu_settingsPassword (si_web demo_site) = [] \<or> \<not> we_authenticate demo_env ''admin'' (wu_settingsPassword (si_web demo_site)) (demo_form ''q'')"
    by (simp add: demo_env_def demo_site_def demo_form_def)
  from unauthenticated_request_changes_nothing [OF this] show ?thesis
    by (simp add: demo_form_def protected_routes_def) (simp add: demo_site_def)
qed

lemma demo_port: "arduino_toInt ''8080'' = 8080"
  by code_simp

lemma demo_saved: "wu_restartPending (si_web (handleSettingsSave demo_env (demo_form ''p'') demo_site))"
proof -
  have a: "wu_settingsPassword (si_web demo_site) \<noteq> []"
    "we_authenticate demo_env ''admin'' (wu_settingsPassword (si_web demo_site)) (demo_form ''p'')"
    by (simp_all add: demo_env_def demo_site_def demo_form_def)
  have "fst (save_form demo_env (demo_form ''p'') demo_site)"
    by (simp add: save_form_def demo_form_def web_arg_def has_arg_def demo_port demo_env_def demo_site_def settings_save_def
        settings_validText_def capacities code_def fake_eeprom_ops_def blank_eeprom_def Let_def)
  moreover have "wu_localSettingsEnabled (si_web demo_site)" "\<not> has_arg ''remote_management'' (demo_form ''p'')"
    by (simp_all add: demo_site_def has_arg_def demo_form_def)
  ultimately show ?thesis using authorized_allowed [OF a]
    by (cases "save_form demo_env (demo_form ''p'') demo_site") (simp add: handleSettingsSave_def Let_def)
qed

theorem saved_form_runs_after_restart_witness:
  "\<exists>s2 e3. settings_begin fake_eeprom_ops small_defaults True True fresh_settings
      (si_eeprom (handleSettingsSave demo_env (demo_form ''p'') demo_site)) = (s2, e3) \<and>
     uint (ud_mqttPort (rs_config s2)) = 8080 \<and> rs_uploadEnabled s2"
proof -
  let ?s = "handleSettingsSave demo_env (demo_form ''p'') demo_site"
  have E: "we_eeprom demo_env = fake_eeprom_ops" "si_settings demo_site = small_settings" "rs_defaults small_settings = small_defaults"
    by (simp_all add: demo_env_def demo_site_def small_settings_def)
  have f: "eeprom (we_eeprom demo_env) fe_content" "wf_settings (si_settings demo_site)"
    unfolding E by (rule fake_flash.eeprom_axioms, rule small_settings_wf)
  have n: "\<not> wu_restartPending (si_web demo_site)" by (simp add: demo_site_def fresh_web_def)
  obtain s2 e3 where b: "settings_begin (we_eeprom demo_env) (rs_defaults (si_settings demo_site)) True True fresh_settings (si_eeprom ?s) = (s2, e3)"
    by fastforce
  have "arduino_toInt (web_arg ''port'' (demo_form ''p'')) = 8080" "has_arg ''enabled'' (demo_form ''p'')"
    by (simp_all add: demo_form_def web_arg_def has_arg_def demo_port)
  with saved_form_runs_after_restart [OF f n refl demo_saved refl b] have "uint (ud_mqttPort (rs_config s2)) = 8080 \<and> rs_uploadEnabled s2"
    by metis
  with b show ?thesis unfolding E by blast
qed

end
