(* ===== verification/Float32.thy ===== *)
theory Float32
  imports Prelude
begin

section \<open>Comparing floats by their bits\<close>

text \<open>
  A \<open>float\<close> is the 32 bits of its IEEE 754 single precision encoding. Comparisons are decided by the
  encoding alone: a NaN compares false with everything, and otherwise sign and magnitude order the
  values, with the two zeros equal. Theory \<open>FloatArith\<close> has the
  arithmetic.
\<close>

definition f_nan :: "u32 \<Rightarrow> bool" where
  "f_nan x \<longleftrightarrow> 0x7F800000 < x AND 0x7FFFFFFF"

definition f_key :: "u32 \<Rightarrow> int" where
  "f_key x = (let m = uint (x AND 0x7FFFFFFF) in if bit x 31 then - m else m)"

definition f_less :: "u32 \<Rightarrow> u32 \<Rightarrow> bool" where
  "f_less a b \<longleftrightarrow> \<not> f_nan a \<and> \<not> f_nan b \<and> f_key a < f_key b"

definition f_le :: "u32 \<Rightarrow> u32 \<Rightarrow> bool" where
  "f_le a b \<longleftrightarrow> \<not> f_nan a \<and> \<not> f_nan b \<and> f_key a \<le> f_key b"

text \<open>\<open>std::min\<close> and \<open>std::max\<close>: the first argument unless the second is strictly beyond it.\<close>

definition f_min :: "u32 \<Rightarrow> u32 \<Rightarrow> u32" where
  "f_min a b = (if f_less b a then b else a)"

definition f_max :: "u32 \<Rightarrow> u32 \<Rightarrow> u32" where
  "f_max a b = (if f_less a b then b else a)"

text \<open>\<open>std::clamp\<close>.\<close>

definition f_clamp :: "u32 \<Rightarrow> u32 \<Rightarrow> u32 \<Rightarrow> u32" where
  "f_clamp v lo hi = (if f_less v lo then lo else if f_less hi v then hi else v)"

lemma f_le_refl: "f_le a a \<longleftrightarrow> \<not> f_nan a"
  by (simp add: f_le_def)

lemma f_le_trans: "f_le a b \<Longrightarrow> f_le b c \<Longrightarrow> f_le a c"
  by (auto simp: f_le_def)

lemma f_not_less: "\<not> f_nan a \<Longrightarrow> \<not> f_nan b \<Longrightarrow> \<not> f_less a b \<longleftrightarrow> f_le b a"
  by (auto simp: f_less_def f_le_def)

lemma f_less_le: "f_less a b \<Longrightarrow> f_le a b"
  by (auto simp: f_less_def f_le_def)

lemma f_min_le:
  assumes "\<not> f_nan a" "\<not> f_nan b"
  shows "f_le (f_min a b) a" "f_le (f_min a b) b" "\<not> f_nan (f_min a b)"
  using assms by (auto simp: f_min_def f_le_def f_less_def)

lemma f_max_le:
  assumes "\<not> f_nan a" "\<not> f_nan b"
  shows "f_le a (f_max a b)" "f_le b (f_max a b)" "\<not> f_nan (f_max a b)"
  using assms by (auto simp: f_max_def f_le_def f_less_def)

lemma f_clamp_bounds:
  assumes "\<not> f_nan v" "f_le lo hi"
  shows "f_le lo (f_clamp v lo hi)" "f_le (f_clamp v lo hi) hi"
  using assms by (auto simp: f_clamp_def f_le_def f_less_def)

end
