(* ===== verification/DashLink.thy ===== *)
theory DashLink
  imports LiveUpload UploadPolicy DashProtocols SystemLog Float32
begin

section \<open>DashLink: the logger's end of the link to the dash\<close>

text \<open>
  \<open>logger/firmware/src/DashLink.cpp\<close> on the ESP32: looking for the dash, the connection and its
  handshake, the telemetry and upload-status frames sent to it, and the event frames it sends back,
  which go to \<open>SystemLog\<close> and are acknowledged. The BLE library is a parameter. A \<open>float\<close> is its 32 bits.
\<close>

subsection \<open>The BLE client\<close>

text \<open>
  A scan lists whether each device advertises the dash's service, and its address. \<open>bl_handshake\<close> is
  looking the service and its handshake characteristic up and writing the handshake text with a response.
\<close>

datatype BleChar = TelemetryChar | UploadStatusChar | EventChar

record 'w ble_ops =
  bl_isConnected :: "'w \<Rightarrow> bool"
  bl_isScanning :: "'w \<Rightarrow> bool"
  bl_start :: "u32 \<Rightarrow> 'w \<Rightarrow> bool \<times> 'w"
  bl_results :: "'w \<Rightarrow> (bool \<times> string) list option"
  bl_clearResults :: "'w \<Rightarrow> 'w"
  bl_connect :: "string \<Rightarrow> 'w \<Rightarrow> bool \<times> 'w"
  bl_handshake :: "string \<Rightarrow> 'w \<Rightarrow> bool \<times> 'w"
  bl_disconnect :: "'w \<Rightarrow> 'w"
  bl_has :: "BleChar \<Rightarrow> 'w \<Rightarrow> bool"
  bl_subscribe :: "'w \<Rightarrow> 'w"
  bl_canWrite :: "BleChar \<Rightarrow> 'w \<Rightarrow> bool"
  bl_write :: "BleChar \<Rightarrow> bytes \<Rightarrow> 'w \<Rightarrow> bool \<times> 'w"

definition kHandshake :: string where "kHandshake = ''mda-logger/1''"

subsection \<open>State\<close>

record DashLinkConfig =
  lc_enabled :: bool
  lc_retryIntervalMs :: u32
  lc_scanDurationSeconds :: u32

record DashLink =
  lk_config :: DashLinkConfig
  lk_initialized :: bool
  lk_connected :: bool
  lk_scanComplete :: bool
  lk_lastAttemptMs :: u32
  lk_status :: string
  lk_telemetry :: bool
  lk_events :: bool
  lk_uploadStatus :: bool
  lk_lastUploadStatusMs :: u32
  lk_lastEventMs :: u32
  lk_eventReceiver :: Receiver
  lk_receivedEvent :: Event
  lk_eventReady :: bool
  lk_dashIdentity :: string
  lk_lastFrameMs :: u32
  lk_sensorIndex :: byte
  lk_frameKind :: byte

definition fresh_link :: DashLink where
  "fresh_link = \<lparr>lk_config = \<lparr>lc_enabled = False, lc_retryIntervalMs = 0, lc_scanDurationSeconds = 0\<rparr>,
     lk_initialized = False, lk_connected = False, lk_scanComplete = False, lk_lastAttemptMs = 0, lk_status = ''disabled'',
     lk_telemetry = False, lk_events = False, lk_uploadStatus = False, lk_lastUploadStatusMs = 0, lk_lastEventMs = 0,
     lk_eventReceiver = fresh_receiver, lk_receivedEvent = empty_event, lk_eventReady = False, lk_dashIdentity = [],
     lk_lastFrameMs = 0, lk_sensorIndex = 0, lk_frameKind = 1\<rparr>"

subsection \<open>Finding the dash\<close>

definition link_begin :: "DashLinkConfig \<Rightarrow> u32 \<Rightarrow> DashLink \<Rightarrow> DashLink" where
  "link_begin config now k =
     (let k = k\<lparr>lk_config := config\<rparr> in
      if \<not> lc_enabled config then k\<lparr>lk_status := ''disabled''\<rparr>
      else k\<lparr>lk_initialized := True, lk_status := ''waiting'', lk_lastAttemptMs := now - lc_retryIntervalMs config\<rparr>)"

text \<open>The callbacks of the client and of the scan.\<close>

definition onConnect :: "DashLink \<Rightarrow> DashLink" where
  "onConnect k = k\<lparr>lk_connected := True\<rparr>"

definition onDisconnect :: "DashLink \<Rightarrow> DashLink" where
  "onDisconnect k = k\<lparr>lk_connected := False\<rparr>"

definition onScanComplete :: "DashLink \<Rightarrow> DashLink" where
  "onScanComplete k = k\<lparr>lk_scanComplete := True\<rparr>"

definition attemptConnection :: "'w ble_ops \<Rightarrow> DashLink \<Rightarrow> 'w \<Rightarrow> DashLink \<times> 'w" where
  "attemptConnection B k w =
     (let k = k\<lparr>lk_status := ''scanning'', lk_scanComplete := False\<rparr> in
      case bl_start B (lc_scanDurationSeconds (lk_config k)) w of
        (True, w) \<Rightarrow> (k, w)
      | (False, w) \<Rightarrow> (k\<lparr>lk_status := ''scan failed''\<rparr>, w))"

definition link_established :: "'w ble_ops \<Rightarrow> u32 \<Rightarrow> string \<Rightarrow> DashLink \<Rightarrow> 'w \<Rightarrow> DashLink \<times> 'w" where
  "link_established B now address k w =
     (let k = k\<lparr>lk_connected := True, lk_telemetry := bl_has B TelemetryChar w, lk_uploadStatus := bl_has B UploadStatusChar w,
              lk_lastUploadStatusMs := now - 1000, lk_events := bl_has B EventChar w, lk_eventReady := False,
              lk_eventReceiver := fresh_receiver, lk_dashIdentity := filter (\<lambda>c. c \<noteq> CHR '':'') address,
              lk_sensorIndex := 0, lk_frameKind := 1, lk_status := ''connected''\<rparr>;
          w = (if lk_events k then bl_subscribe B w else w)
      in (k, bl_clearResults B w))"

definition finishScan :: "'w ble_ops \<Rightarrow> u32 \<Rightarrow> DashLink \<Rightarrow> 'w \<Rightarrow> DashLink \<times> 'w" where
  "finishScan B now k w =
     (case bl_results B w of
        None \<Rightarrow> (k\<lparr>lk_status := ''scan failed''\<rparr>, w)
      | Some results \<Rightarrow>
          (case List.find fst results of
             None \<Rightarrow> (k\<lparr>lk_status := ''not found''\<rparr>, bl_clearResults B w)
           | Some (_, address) \<Rightarrow>
               let k = k\<lparr>lk_status := ''connecting'', lk_telemetry := False, lk_uploadStatus := False\<rparr> in
               (case bl_connect B address w of
                  (False, w) \<Rightarrow> (k\<lparr>lk_status := ''connect failed''\<rparr>, bl_clearResults B w)
                | (True, w) \<Rightarrow>
                    (case bl_handshake B kHandshake w of
                       (False, w) \<Rightarrow> (k\<lparr>lk_status := ''handshake failed''\<rparr>, bl_clearResults B (bl_disconnect B w))
                     | (True, w) \<Rightarrow> link_established B now address k w))))"

definition link_loop :: "'w ble_ops \<Rightarrow> u32 \<Rightarrow> DashLink \<Rightarrow> 'w \<Rightarrow> DashLink \<times> 'w" where
  "link_loop B nowMs k w =
     (if \<not> lk_initialized k then (k, w)
      else if bl_isConnected B w then (k\<lparr>lk_connected := True, lk_status := ''connected''\<rparr>, w)
      else let k = k\<lparr>lk_connected := False\<rparr> in
        if lk_scanComplete k then finishScan B nowMs (k\<lparr>lk_scanComplete := False\<rparr>) w
        else if bl_isScanning B w then (k, w)
        else if \<not> retryDue nowMs (lk_lastAttemptMs k) (lc_retryIntervalMs (lk_config k)) then (k, w)
        else attemptConnection B (k\<lparr>lk_lastAttemptMs := nowMs\<rparr>) w)"

subsection \<open>Events of the dash\<close>

definition onEvent :: "bytes \<Rightarrow> DashLink \<Rightarrow> DashLink" where
  "onEvent d k =
     (case rx_accept d (lk_eventReceiver k) of
        ((True, Some e), r) \<Rightarrow> k\<lparr>lk_eventReceiver := r, lk_receivedEvent := e, lk_eventReady := True\<rparr>
      | (_, r) \<Rightarrow> k\<lparr>lk_eventReceiver := r\<rparr>)"

definition terminated :: "Event \<Rightarrow> Event" where
  "terminated e = e\<lparr>ev_code := (ev_code e)[31 := 0]\<rparr>"

text \<open>The result is the acknowledgement written back, if any: boot and sequence number.\<close>

definition take_event ::
  "'fs lfs_ops \<Rightarrow> 'd json_ops \<Rightarrow> ('fs \<Rightarrow> (string \<times> bool) list) \<Rightarrow> string \<Rightarrow> u32 \<Rightarrow> 'fs \<Rightarrow> DashLink \<Rightarrow> SystemLog \<Rightarrow>
   (u32 \<times> u32) option \<times> DashLink \<times> SystemLog" where
  "take_event L J dir received nowMs fs k s =
     (if lk_connected k \<and> lk_events k \<and> 1000 \<le> since nowMs (lk_lastEventMs k)
      then let ready = lk_eventReady k; k = k\<lparr>lk_lastEventMs := nowMs, lk_eventReady := False\<rparr> in
        if ready
        then let e = terminated (lk_receivedEvent k) in
          (case acceptDash L J dir received e (lk_dashIdentity k) fs s of
             (True, s) \<Rightarrow> (Some (ev_boot e, ev_seq e), k, s)
           | (False, s) \<Rightarrow> (None, k, s))
        else (None, k, s)
      else (None, k, s))"

definition ack_bytes :: "u32 \<times> u32 \<Rightarrow> bytes" where
  "ack_bytes p = put32 (fst p) @ put32 (snd p)"

subsection \<open>Frames for the dash\<close>

definition evidence_state :: "Evidence \<Rightarrow> UpState" where
  "evidence_state v = (case v of Unknown \<Rightarrow> UpUnknown | Disabled \<Rightarrow> UpDisabled | Failed \<Rightarrow> UpFailed
     | ServerAccepted \<Rightarrow> UpServerAccepted | TransportSent \<Rightarrow> UpTransportSent)"

definition publishUploadStatus :: "'w ble_ops \<Rightarrow> EvidenceStatus \<Rightarrow> u32 \<Rightarrow> DashLink \<Rightarrow> 'w \<Rightarrow> DashLink \<times> 'w" where
  "publishUploadStatus B st nowMs k w =
     (if \<not> lk_connected k \<or> \<not> bl_isConnected B w \<or> \<not> lk_uploadStatus k \<or> \<not> bl_canWrite B UploadStatusChar w \<or>
         since nowMs (lk_lastUploadStatusMs k) < 1000
      then (k, w)
      else (k\<lparr>lk_lastUploadStatusMs := nowMs\<rparr>,
        snd (bl_write B UploadStatusChar (up_encode_raw (up_code (evidence_state (evState st))) (evTransport st)
          (evAgeMs st) (evIntervalMs st)) w)))"

definition telemetry_frame :: "byte \<Rightarrow> byte \<Rightarrow> byte \<Rightarrow> u32 SensorSnapshot \<Rightarrow> bytes" where
  "telemetry_frame kind index n s =
     (if kind = 4
      then sample_frame index n (ss_filteredValue s) (ss_hasValidSample s) (ss_activeFault s)
        (f_less (ss_filteredValue s) (ss_warnLow s) \<or> f_less (ss_warnHigh s) (ss_filteredValue s))
      else if kind = 1 then text_frame KId index n (raw (ss_id s))
      else if kind = 2 then text_frame KName index n (raw (ss_name s))
      else text_frame KUnits index n (raw (ss_units s)))"

definition next_frame :: "nat \<Rightarrow> DashLink \<Rightarrow> DashLink" where
  "next_frame n k =
     (if 4 < lk_frameKind k + 1
      then k\<lparr>lk_frameKind := 1, lk_sensorIndex := (lk_sensorIndex k + 1) mod of_nat n\<rparr>
      else k\<lparr>lk_frameKind := lk_frameKind k + 1\<rparr>)"

definition publish_telemetry ::
  "'w ble_ops \<Rightarrow> u32 SensorSnapshot list \<Rightarrow> u32 \<Rightarrow> DashLink \<Rightarrow> 'w \<Rightarrow> DashLink \<times> 'w" where
  "publish_telemetry B sensor_list nowMs k w =
     (if \<not> lk_connected k \<or> \<not> bl_isConnected B w \<or> \<not> lk_telemetry k then (k, w)
      else if since nowMs (lk_lastFrameMs k) < of_nat (250 div (length sensor_list * 4)) then (k, w)
      else let k = k\<lparr>lk_lastFrameMs := nowMs\<rparr>; s = sensor_list ! unat (lk_sensorIndex k) in
        if 15 < length (ss_id s) then (k, w)
        else case bl_write B TelemetryChar (telemetry_frame (lk_frameKind k) (lk_sensorIndex k)
            (of_nat (length sensor_list)) s) w of
          (False, w) \<Rightarrow> (k, w)
        | (True, w) \<Rightarrow> (next_frame (length sensor_list) k, w))"

definition link_publish ::
  "'fs lfs_ops \<Rightarrow> 'd json_ops \<Rightarrow> ('fs \<Rightarrow> (string \<times> bool) list) \<Rightarrow> 'w ble_ops \<Rightarrow> string \<Rightarrow> u32 SensorSnapshot list \<Rightarrow> u32 \<Rightarrow>
   'fs \<Rightarrow> DashLink \<Rightarrow> SystemLog \<Rightarrow> 'w \<Rightarrow> DashLink \<times> SystemLog \<times> 'w" where
  "link_publish L J dir B received sensor_list nowMs fs k s w =
     (case take_event L J dir received nowMs fs k s of (ack, k, s) \<Rightarrow>
      case (case ack of None \<Rightarrow> w | Some p \<Rightarrow> snd (bl_write B EventChar (ack_bytes p) w)) of w \<Rightarrow>
      case publish_telemetry B sensor_list nowMs k w of (k, w) \<Rightarrow> (k, s, w))"

end
