(* ===== verification/DashEvents.thy ===== *)
theory DashEvents
  imports DashLink
begin

section \<open>The dash's events and their delivery to the logger's card\<close>

text \<open>
  The event side of \<open>dash/firmware/src/dash_main.cpp\<close> (\<open>dashEvent\<close>, \<open>EventCallbacks\<close>,
  \<open>serviceSystemEvents\<close>), and the composition of the two devices: events queued on the dash, their
  frames over a link that loses notifications, the logger's receiver, its log and card, and the
  acknowledgements on the way back.
\<close>

subsection \<open>The dash's queue\<close>

text \<open>\<open>dq_last\<close>, \<open>dq_part\<close>, \<open>dq_previousSeq\<close> are the static locals of \<open>serviceSystemEvents\<close>.\<close>

record DashQueue =
  dq_events :: "Event ring"
  dq_boot :: u32
  dq_seq :: u32
  dq_last :: u32
  dq_part :: nat
  dq_previousSeq :: u32

definition fresh_dash :: "u32 \<Rightarrow> DashQueue" where
  "fresh_dash boot = \<lparr>dq_events = fresh_ring 64 empty_event, dq_boot = boot, dq_seq = 0, dq_last = 0, dq_part = 0,
     dq_previousSeq = 0\<rparr>"

definition dash_new_event :: "u32 \<Rightarrow> string \<Rightarrow> u32 \<Rightarrow> byte \<Rightarrow> DashQueue \<Rightarrow> Event" where
  "dash_new_event now event_code value severity q =
     \<lparr>ev_boot = dq_boot q, ev_seq = dq_seq q + 1, ev_ms = now, ev_value = value, ev_severity = severity,
      ev_code = code_field event_code, ev_durationMs = 0, ev_httpStatus = 0, ev_method = 0, ev_version = 1\<rparr>"

definition dashEvent :: "u32 \<Rightarrow> string \<Rightarrow> u32 \<Rightarrow> byte \<Rightarrow> DashQueue \<Rightarrow> bool \<times> DashQueue" where
  "dashEvent now event_code value severity q =
     (case ring_push (dash_new_event now event_code value severity q) (dq_events q) of
        (b, r) \<Rightarrow> (b, q\<lparr>dq_seq := dq_seq q + 1, dq_events := r\<rparr>))"

text \<open>\<open>EventCallbacks::onWrite\<close>.\<close>

definition onAck :: "bytes \<Rightarrow> DashQueue \<Rightarrow> DashQueue" where
  "onAck d q =
     (if length d \<noteq> 8 then q
      else case ring_front (dq_events q) of
        None \<Rightarrow> q
      | Some e \<Rightarrow> if ev_boot e = get32 d \<and> ev_seq e = get32 (drop 4 d) then q\<lparr>dq_events := ring_pop (dq_events q)\<rparr> else q)"

definition serviceSystemEvents :: "bool \<Rightarrow> u32 \<Rightarrow> DashQueue \<Rightarrow> bytes option \<times> DashQueue" where
  "serviceSystemEvents linked now q =
     (if \<not> linked then (None, q)
      else if since now (dq_last q) < (if dq_part q \<noteq> 0 then 40 else 1000) then (None, q)
      else let q = q\<lparr>dq_last := now\<rparr> in
        case ring_front (dq_events q) of
          None \<Rightarrow> (None, q)
        | Some event \<Rightarrow>
            let q = (if dq_previousSeq q \<noteq> ev_seq event then q\<lparr>dq_part := 0, dq_previousSeq := ev_seq event\<rparr> else q)
            in (Some (frame event (dq_part q)), q\<lparr>dq_part := (dq_part q + 1) mod 4\<rparr>))"

subsection \<open>The two devices and the link between them\<close>

text \<open>
  \<open>air\<close> holds the notifications on the way to the logger, oldest first, \<open>acks\<close> the acknowledgements on
  the way to the dash. \<open>queued\<close>, \<open>done_events\<close> and \<open>stored\<close> only observe: the events the dash's queue took,
  those it has let go after an acknowledgement, and those whose line ended a file of the card after a
  pass of the logger's loop.
\<close>

record delivery =
  de_dash :: DashQueue
  de_air :: "bytes list"
  de_acks :: "bytes list"
  de_link :: DashLink
  de_log :: SystemLog
  de_queued :: "Event list"
  de_done :: "Event list"
  de_stored :: "Event set"

text \<open>What the logger's link does besides taking events.\<close>

inductive link_step :: "'w ble_ops \<Rightarrow> DashLink \<Rightarrow> DashLink \<Rightarrow> bool" for B :: "'w ble_ops" where
  begin_step: "link_step B k (link_begin config now k)"
| loop_step: "link_loop B now k w = (k', w') \<Longrightarrow> link_step B k k'"
| connect_step: "link_step B k (onConnect k)"
| disconnect_step: "link_step B k (onDisconnect k)"
| scan_step: "link_step B k (onScanComplete k)"
| telemetry_step: "publish_telemetry B sensor_list now k w = (k', w') \<Longrightarrow> link_step B k k'"
| status_step: "publishUploadStatus B st now k w = (k', w') \<Longrightarrow> link_step B k k'"

text \<open>
  One dash (address \<open>device\<close>, one boot, at most 2 to the power 32 minus 1 events) and one logger. The card may
  change in any way between steps, but no file of the dash is read as having this boot when the
  logger first meets it.
\<close>

inductive deliver ::
  "'fs lfs_ops \<Rightarrow> 'd json_ops \<Rightarrow> 'w ble_ops \<Rightarrow> ('fs \<Rightarrow> (string \<times> bool) list) \<Rightarrow> ('fs \<Rightarrow> string \<Rightarrow> bytes option) \<Rightarrow>
   string \<Rightarrow> string \<Rightarrow> u32 \<Rightarrow> delivery \<Rightarrow> bool"
  for L :: "'fs lfs_ops" and J :: "'d json_ops" and B :: "'w ble_ops" and dir files identity device boot where
  start: "deliver L J B dir files identity device boot
    \<lparr>de_dash = fresh_dash boot, de_air = [], de_acks = [], de_link = fresh_link,
     de_log = log_begin J random now received identity fresh_log, de_queued = [], de_done = [], de_stored = {}\<rparr>"
| event: "deliver L J B dir files identity device boot z \<Longrightarrow> dq_seq (de_dash z) + 1 \<noteq> 0 \<Longrightarrow>
    dashEvent now event_code value severity (de_dash z) = (b, q) \<Longrightarrow>
    deliver L J B dir files identity device boot (z\<lparr>de_dash := q,
      de_queued := (if b then de_queued z @ [dash_new_event now event_code value severity (de_dash z)] else de_queued z)\<rparr>)"
| send: "deliver L J B dir files identity device boot z \<Longrightarrow> serviceSystemEvents linked now (de_dash z) = (r, q) \<Longrightarrow>
    deliver L J B dir files identity device boot (z\<lparr>de_dash := q, de_air := de_air z @ (case r of None \<Rightarrow> [] | Some d \<Rightarrow> [d])\<rparr>)"
| lose: "deliver L J B dir files identity device boot z \<Longrightarrow> de_air z = a @ d # b \<Longrightarrow>
    deliver L J B dir files identity device boot (z\<lparr>de_air := a @ b\<rparr>)"
| receive: "deliver L J B dir files identity device boot z \<Longrightarrow> de_air z = d # b \<Longrightarrow>
    deliver L J B dir files identity device boot (z\<lparr>de_air := b, de_link := onEvent d (de_link z)\<rparr>)"
| link: "deliver L J B dir files identity device boot z \<Longrightarrow> link_step B (de_link z) k \<Longrightarrow>
    deliver L J B dir files identity device boot (z\<lparr>de_link := k\<rparr>)"
| take: "deliver L J B dir files identity device boot z \<Longrightarrow> lk_dashIdentity (de_link z) = device \<Longrightarrow>
    (\<And>p. sl_dashDevice (de_log z) \<noteq> device \<Longrightarrow> p \<in> tails_found L J (dir fs) fs device \<Longrightarrow> fst p \<noteq> boot) \<Longrightarrow>
    take_event L J dir received now fs (de_link z) (de_log z) = (r, k, s) \<Longrightarrow>
    deliver L J B dir files identity device boot (z\<lparr>de_link := k, de_log := s,
      de_acks := de_acks z @ (case r of None \<Rightarrow> [] | Some p \<Rightarrow> [ack_bytes p])\<rparr>)"
| ack_lost: "deliver L J B dir files identity device boot z \<Longrightarrow> de_acks z = a @ d # b \<Longrightarrow>
    deliver L J B dir files identity device boot (z\<lparr>de_acks := a @ b\<rparr>)"
| ack: "deliver L J B dir files identity device boot z \<Longrightarrow> de_acks z = a @ d # b \<Longrightarrow>
    deliver L J B dir files identity device boot (z\<lparr>de_acks := a @ b, de_dash := onAck d (de_dash z),
      de_done := (if onAck d (de_dash z) = de_dash z then de_done z
                  else de_done z @ [the (ring_front (dq_events (de_dash z)))])\<rparr>)"
| add: "deliver L J B dir files identity device boot z \<Longrightarrow>
    deliver L J B dir files identity device boot (z\<lparr>de_log := log_add J now received event_code value severity (de_log z)\<rparr>)"
| http: "deliver L J B dir files identity device boot z \<Longrightarrow>
    deliver L J B dir files identity device boot (z\<lparr>de_log := log_http J now received route mtd status duration (de_log z)\<rparr>)"
| detail: "deliver L J B dir files identity device boot z \<Longrightarrow>
    deliver L J B dir files identity device boot (z\<lparr>de_log := set_detailed now enabled (de_log z)\<rparr>)"
| drain: "deliver L J B dir files identity device boot z \<Longrightarrow> log_loop L dir now date sdReady (de_log z) fs = (s, fs') \<Longrightarrow>
    deliver L J B dir files identity device boot (z\<lparr>de_log := s,
      de_stored := de_stored z \<union> {e. line_on_card J (files fs') identity device e}\<rparr>)"

subsection \<open>The radio\<close>

text \<open>
  \<open>C\<close> is the events the dash has finished with and the one it is sending, \<open>D\<close> the highest number the
  logger's log has acknowledged or may acknowledge. What arrives is one of these events, whole,
  unless its number is not above \<open>D\<close>: parts of two events can be mixed only behind the head of an
  event that is stored already.
\<close>

definition same_head :: "Event \<Rightarrow> bytes \<Rightarrow> bool" where
  "same_head e bs \<longleftrightarrow> take 12 bs = take 12 (event_bytes e)"

definition arrives :: "u32 \<Rightarrow> Event \<Rightarrow> Event \<Rightarrow> bool" where
  "arrives D e ev \<longleftrightarrow> ev_boot ev = ev_boot e \<and> ev_seq ev = ev_seq e \<and> (ev = e \<or> ev_seq e \<le> D)"

definition part_of :: "u32 \<Rightarrow> Event \<Rightarrow> Receiver \<Rightarrow> bool" where
  "part_of D e r \<longleftrightarrow> same_head e (rx_bytes r) \<and> rx_sequence r = ucast (ev_seq e) \<and>
     (take (rx_next r * 17) (rx_bytes r) = take (rx_next r * 17) (event_bytes e) \<or> ev_seq e \<le> D)"

definition radio_inv :: "Event set \<Rightarrow> u32 \<Rightarrow> (Event \<times> nat) list \<Rightarrow> Receiver \<Rightarrow> bool \<Rightarrow> Event \<Rightarrow> bool" where
  "radio_inv C D evs r ready ev \<longleftrightarrow> sorted (map (\<lambda>x. ev_seq (fst x)) evs) \<and> (\<forall>x\<in>set evs. fst x \<in> C \<and> snd x < 4) \<and>
     length (rx_bytes r) = 60 \<and> rx_next r < 4 \<and>
     (rx_next r = 0 \<or> (\<exists>e\<in>C. part_of D e r \<and> (\<forall>x\<in>set evs. ev_seq e \<le> ev_seq (fst x)))) \<and>
     (ready \<longrightarrow> (\<exists>e\<in>C. arrives D e ev))"

definition events_ok :: "Event set \<Rightarrow> bool" where
  "events_ok C \<longleftrightarrow> (\<forall>e\<in>C. length (ev_code e) = 32 \<and> ev_version e = 1)"

text \<open>An event above \<open>D\<close> is the last one.\<close>

definition newest_open :: "Event set \<Rightarrow> u32 \<Rightarrow> bool" where
  "newest_open C D \<longleftrightarrow> (\<forall>e\<in>C. \<forall>e'\<in>C. \<not> ev_seq e \<le> D \<longrightarrow> ev_seq e \<le> ev_seq e' \<longrightarrow> e' = e)"

lemma radio_inv_mono: "radio_inv C D evs r ready ev \<Longrightarrow> C \<subseteq> C' \<Longrightarrow> D \<le> D' \<Longrightarrow> radio_inv C' D' evs r ready ev"
  unfolding radio_inv_def part_of_def arrives_def by (meson order_trans subsetD)

lemma same_head_fields:
  assumes "same_head e bs" "length bs = 60" "length (ev_code e) = 32"
  shows "ev_boot (parse_event bs) = ev_boot e" "ev_seq (parse_event bs) = ev_seq e"
proof -
  have t: "take 12 bs = take 12 (event_bytes e)" using assms(1) by (simp add: same_head_def)
  have len: "length (event_bytes e) = 60" by (rule length_event_bytes [OF assms(3)])
  have "take 4 (drop 4 bs) = take 4 (drop 4 (event_bytes e))" "take 4 (drop 8 bs) = take 4 (drop 8 (event_bytes e))"
    using arg_cong [OF t, of "\<lambda>x. take 4 (drop 4 x)"] arg_cong [OF t, of "\<lambda>x. take 4 (drop 8 x)"] by (simp_all add: drop_take)
  then have "get32 (drop 4 bs) = get32 (drop 4 (event_bytes e))" "get32 (drop 8 bs) = get32 (drop 8 (event_bytes e))"
    using get32_take [of "drop 4 bs"] get32_take [of "drop 8 bs"] get32_take [of "drop 4 (event_bytes e)"]
      get32_take [of "drop 8 (event_bytes e)"] assms(2) len by simp_all
  moreover have "parse_event (event_bytes e) = e" by (rule parse_event_bytes [OF assms(3)])
  ultimately show "ev_boot (parse_event bs) = ev_boot e" "ev_seq (parse_event bs) = ev_seq e"
    unfolding parse_event_def by (metis Event.select_convs(1), metis Event.select_convs(2))
qed

lemma store_part_head: "0 < k \<Longrightarrow> length bs = 60 \<Longrightarrow> k < 4 \<Longrightarrow> take 17 (store_part k d bs) = take 17 bs"
  by (auto simp: store_part_def Let_def min_def)

lemma take_12_17: "take 17 xs = take 17 ys \<Longrightarrow> take 12 xs = take 12 ys"
  by (drule arg_cong [of _ _ "take 12"]) simp

text \<open>A frame in the middle of a record either continues it or is refused.\<close>

lemma rx_accept_cont:
  assumes "length (ev_code e') = 32" "0 < i" "i < 4" "length (rx_bytes r) = 60"
  shows "rx_accept (frame e' i) r =
    (if i \<noteq> rx_next r \<or> ucast (ev_seq e') \<noteq> rx_sequence r then ((False, None), r\<lparr>rx_next := 0\<rparr>)
     else if i \<noteq> 3 then ((False, None), r\<lparr>rx_bytes := store_part i (frame e' i) (rx_bytes r), rx_next := Suc i\<rparr>)
     else let bs = store_part 3 (frame e' 3) (rx_bytes r); ev = parse_event bs
       in ((ev_version ev = 1 \<and> ucast (ev_seq ev) = rx_sequence r, Some ev), r\<lparr>rx_bytes := bs, rx_next := 0\<rparr>))"
proof -
  have len: "length (frame e' i) = 20" using assms(1,3) length_event_bytes [OF assms(1)] by (auto simp: frame_def Let_def)
  have "i = 1 \<or> i = 2 \<or> i = 3" using assms(2,3) by auto
  then have h: "frame e' i ! 0 = 0xe1" "frame e' i ! 1 = of_nat i" "frame e' i ! 2 = ucast (ev_seq e')"
    "unat (of_nat i :: byte) = i" "\<not> 3 < (of_nat i :: byte)" "(of_nat i :: byte) \<noteq> 0"
    by (auto simp: frame_def)
  show ?thesis using len h \<open>i = 1 \<or> i = 2 \<or> i = 3\<close> by (auto simp: rx_accept_def Let_def)
qed

definition heard :: "(bool \<times> Event option) \<Rightarrow> bool \<Rightarrow> Event \<Rightarrow> bool \<times> Event" where
  "heard v ready ev = (case v of (True, Some x) \<Rightarrow> (True, x) | _ \<Rightarrow> (ready, ev))"

lemma radio_head_dropped: "radio_inv C D (x # evs) r ready ev \<Longrightarrow> radio_inv C D evs r ready ev"
  by (auto simp: radio_inv_def)

lemma radio_reset: "radio_inv C D evs r ready ev \<Longrightarrow> radio_inv C D evs (r\<lparr>rx_next := 0\<rparr>) ready ev"
  by (simp add: radio_inv_def)

lemma radio_started:
  assumes "events_ok C" "radio_inv C D ((e', 0) # evs) r ready ev"
  shows "radio_inv C D evs \<lparr>rx_bytes = store_part 0 (frame e' 0) (rx_bytes r), rx_next = Suc 0, rx_sequence = ucast (ev_seq e')\<rparr>
    ready ev"
proof -
  have e': "e' \<in> C" "length (ev_code e') = 32" "length (rx_bytes r) = 60" "\<forall>x\<in>set evs. ev_seq e' \<le> ev_seq (fst x)"
    using assms by (auto simp: radio_inv_def events_ok_def)
  have "take (min 60 (Suc 0 * 17)) (store_part 0 (frame e' 0) (rx_bytes r)) = take (min 60 (Suc 0 * 17)) (event_bytes e')"
    "length (store_part 0 (frame e' 0) (rx_bytes r)) = 60" by (rule store_frame; use e' in simp)+
  then have "part_of D e' \<lparr>rx_bytes = store_part 0 (frame e' 0) (rx_bytes r), rx_next = Suc 0, rx_sequence = ucast (ev_seq e')\<rparr>"
    "length (store_part 0 (frame e' 0) (rx_bytes r)) = 60" using take_12_17 by (auto simp: part_of_def same_head_def)
  then show ?thesis using radio_head_dropped [OF assms(2)] e' by (auto simp: radio_inv_def)
qed

text \<open>A later part: behind an event that is still open it can only be a part of the same event.\<close>

lemma radio_continued:
  assumes "events_ok C" "newest_open C D" "radio_inv C D ((e', i) # evs) r ready ev" "0 < i" "i = rx_next r"
  defines "bs \<equiv> store_part i (frame e' i) (rx_bytes r)"
  shows "\<exists>e\<in>C. length bs = 60 \<and> same_head e bs \<and> rx_sequence r = ucast (ev_seq e) \<and>
    (\<forall>x\<in>set evs. ev_seq e \<le> ev_seq (fst x)) \<and>
    (take (min 60 (Suc i * 17)) bs = take (min 60 (Suc i * 17)) (event_bytes e) \<or> ev_seq e \<le> D)"
proof -
  have e': "e' \<in> C" "length (ev_code e') = 32" "length (rx_bytes r) = 60" "i < 4" "length (event_bytes e') = 60"
    using assms(1,3) by (auto simp: radio_inv_def events_ok_def length_event_bytes)
  obtain e where e: "e \<in> C" "part_of D e r" "ev_seq e \<le> ev_seq e'" "\<forall>x\<in>set evs. ev_seq e \<le> ev_seq (fst x)"
    using assms(3-5) by (auto simp: radio_inv_def)
  have len: "length bs = 60"
    unfolding bs_def by (rule store_part_take(1)) (use e' in \<open>auto simp: frame_def Let_def\<close>)
  have hd: "same_head e bs"
    using e(2) store_part_head [OF assms(4) e'(3,4)] take_12_17 unfolding bs_def part_of_def same_head_def by metis
  have "take (min 60 (Suc i * 17)) bs = take (min 60 (Suc i * 17)) (event_bytes e) \<or> ev_seq e \<le> D"
  proof (cases "ev_seq e \<le> D")
    case False
    then have "e' = e" using assms(2) e(1,3) e'(1) by (auto simp: newest_open_def)
    moreover have "take (i * 17) (rx_bytes r) = take (i * 17) (event_bytes e)" using e(2) False assms(5) by (auto simp: part_of_def)
    ultimately show ?thesis using store_frame(1) [OF e'(2,4,3)] unfolding bs_def by simp
  qed simp
  then show ?thesis using e len hd unfolding part_of_def by blast
qed

lemma receive_law:
  assumes "events_ok C" "newest_open C D" "radio_inv C D ((e', i) # evs) r ready ev" "rx_accept (frame e' i) r = (v, r')"
  shows "radio_inv C D evs r' (fst (heard v ready ev)) (snd (heard v ready ev))"
proof (cases "i = 0")
  case True
  have e': "length (ev_code e') = 32" "length (rx_bytes r) = 60" using assms(1,3) by (auto simp: radio_inv_def events_ok_def)
  have "v = (False, None) \<and> r' = \<lparr>rx_bytes = store_part 0 (frame e' 0) (rx_bytes r), rx_next = Suc 0, rx_sequence = ucast (ev_seq e')\<rparr>"
    using accept_frame [of e' 0 r] e' assms(4) True by simp
  then show ?thesis using radio_started [OF assms(1)] assms(3) True by (simp add: heard_def)
next
  case False
  then have i: "0 < i" "i < 4" "length (ev_code e') = 32" "length (rx_bytes r) = 60"
    using assms(1,3) by (auto simp: radio_inv_def events_ok_def)
  note A = rx_accept_cont [OF i(3,1,2,4)]
  note drop = radio_head_dropped [OF assms(3)]
  show ?thesis
  proof (cases "i \<noteq> rx_next r \<or> ucast (ev_seq e') \<noteq> rx_sequence r")
    case True
    then have "v = (False, None)" "r' = r\<lparr>rx_next := 0\<rparr>" using assms(4) unfolding A by auto
    then show ?thesis using radio_reset [OF drop] by (simp add: heard_def)
  next
    case go: False
    then have ni: "i = rx_next r" by simp
    define bs where "bs = store_part i (frame e' i) (rx_bytes r)"
    obtain e where e: "e \<in> C" "length bs = 60" "same_head e bs" "rx_sequence r = ucast (ev_seq e)"
        "\<forall>x\<in>set evs. ev_seq e \<le> ev_seq (fst x)"
        "take (min 60 (Suc i * 17)) bs = take (min 60 (Suc i * 17)) (event_bytes e) \<or> ev_seq e \<le> D"
      using radio_continued [OF assms(1-3) i(1) ni] unfolding bs_def by blast
    have ec: "length (ev_code e) = 32" "length (event_bytes e) = 60"
      using assms(1) e(1) by (auto simp: events_ok_def length_event_bytes)
    show ?thesis
    proof (cases "i = 3")
      case False
      then have v: "v = (False, None)" "r' = r\<lparr>rx_bytes := bs, rx_next := Suc i\<rparr>" using assms(4) go unfolding A bs_def by auto
      have "part_of D e r'" using e(3,4,6) False i(2) by (auto simp: part_of_def v same_head_def min_def split: if_splits)
      then show ?thesis using drop e(1,2,5) i(2) False by (auto simp: radio_inv_def v heard_def)
    next
      case True
      define x where "x = parse_event bs"
      have v: "v = (ev_version x = 1 \<and> ucast (ev_seq x) = rx_sequence r, Some x)" "r' = r\<lparr>rx_bytes := bs, rx_next := 0\<rparr>"
        using assms(4) go True unfolding A bs_def x_def by (auto simp: Let_def)
      have "ev_boot x = ev_boot e \<and> ev_seq x = ev_seq e" using same_head_fields [OF e(3,2) ec(1)] by (simp add: x_def)
      moreover have "x = e \<or> ev_seq e \<le> D"
        using e(2,6) True ec parse_event_bytes [OF ec(1)] by (auto simp: x_def)
      ultimately have "arrives D e x" by (simp add: arrives_def)
      then show ?thesis using drop e(1,2) by (auto simp: radio_inv_def v heard_def split: bool.splits)
    qed
  qed
qed

lemma radio_sent:
  assumes "radio_inv C D evs r ready ev" "e \<in> C" "i < 4" "\<forall>x\<in>C. ev_seq x \<le> ev_seq e"
  shows "radio_inv C D (evs @ [(e, i)]) r ready ev"
  using assms by (auto simp: radio_inv_def sorted_append)

lemma radio_lost:
  assumes "radio_inv C D (a @ x # b) r ready ev"
  shows "radio_inv C D (a @ b) r ready ev"
  using assms by (auto simp: radio_inv_def sorted_append)

subsection \<open>What the logger's own events leave alone\<close>

definition dash_waiting :: "string \<Rightarrow> SystemLog \<Rightarrow> Event list" where
  "dash_waiting device s = map fst (filter (\<lambda>x. fst (snd x) = dash_device device) (backlog s))"

definition same_dash :: "string \<Rightarrow> SystemLog \<Rightarrow> SystemLog \<Rightarrow> bool" where
  "same_dash device s s' \<longleftrightarrow> dash_waiting device s' = dash_waiting device s \<and> sl_dashSeq s' = sl_dashSeq s \<and>
     sl_dashBoot s' = sl_dashBoot s \<and> sl_dashDevice s' = sl_dashDevice s \<and> sl_dashPendingSeq s' = sl_dashPendingSeq s"

lemma same_dash_trans: "same_dash device s t \<Longrightarrow> same_dash device t u \<Longrightarrow> same_dash device s u"
  by (simp add: same_dash_def)

lemma same_queue_dash: "same_queue s s' \<Longrightarrow> same_dash device s s'"
  by (simp add: same_dash_def dash_waiting_def same_queue_backlog) (simp add: same_queue_def)

lemma push_logger_dash:
  assumes "backlog_inv J identity device s" "push_event J received e ''logger'' s = (b, s')"
  shows "same_dash device s s'"
proof -
  have ok: "log_ok s" using assms(1) by (simp add: backlog_inv_def)
  show ?thesis using push_event_law [OF ok assms(2)] push_event_rest [OF assms(2)]
    by (simp add: same_dash_def dash_waiting_def)
qed

lemma dash_cong:
  assumes "sl_pending s' = sl_pending s" "sl_devices s' = sl_devices s" "sl_lines s' = sl_lines s" "sl_popped s' = sl_popped s"
    "sl_dashSeq s' = sl_dashSeq s" "sl_dashBoot s' = sl_dashBoot s" "sl_dashDevice s' = sl_dashDevice s"
    "sl_dashPendingSeq s' = sl_dashPendingSeq s"
  shows "same_dash device s s'"
  using assms by (simp add: same_dash_def dash_waiting_def backlog_def)

lemma log_add_dash:
  assumes "backlog_inv J identity device s"
  shows "same_dash device s (log_add J now received event_code value severity s)"
proof -
  define s1 where "s1 = s\<lparr>sl_seq := sl_seq s + 1\<rparr>"
  define e where "e = \<lparr>ev_boot = sl_boot s, ev_seq = sl_seq s + 1, ev_ms = now, ev_value = value, ev_severity = severity,
      ev_code = code_field event_code, ev_durationMs = 0, ev_httpStatus = 0, ev_method = 0, ev_version = 1\<rparr>"
  obtain b s2 where p: "push_event J received e ''logger'' s1 = (b, s2)" by fastforce
  have a: "log_add J now received event_code value severity s = (if safeCode event_code then s2 else s)"
    using p by (simp add: log_add_def Let_def e_def s1_def)
  have "backlog_inv J identity device s1" by (rule backlog_inv_cong [OF assms]) (simp_all add: s1_def)
  from push_logger_dash [OF this p] have "same_dash device s1 s2" .
  moreover have "same_dash device s s1" by (rule dash_cong) (simp_all add: s1_def)
  ultimately show ?thesis using same_dash_trans dash_cong [of s s] by (auto simp: a)
qed

lemma log_http_dash:
  assumes "backlog_inv J identity device s"
  shows "same_dash device s (log_http J now received route mtd status duration s)"
proof (cases "\<not> detailedRequests now s \<and> sl_lastHttpCode s = route \<and> sl_lastHttpStatus s = status \<and>
    since now (sl_lastHttpMs s) < 10000")
  case True
  then show ?thesis by (auto simp: log_http_def intro: dash_cong)
next
  case False
  define s1 where "s1 = (if sl_httpRepeated s \<noteq> 0
      then (log_add J now received ''http_repeat_summary'' (sl_httpRepeated s) 1 s)\<lparr>sl_httpRepeated := 0\<rparr> else s)"
  define s2 where "s2 = s1\<lparr>sl_lastHttpCode := route, sl_lastHttpStatus := status, sl_lastHttpMs := now, sl_seq := sl_seq s1 + 1\<rparr>"
  define e where "e = \<lparr>ev_boot = sl_boot s2, ev_seq = sl_seq s2, ev_ms = now, ev_value = 0,
      ev_severity = (if 400 \<le> status then 2 else 1), ev_code = code_field route, ev_durationMs = duration,
      ev_httpStatus = status, ev_method = mtd, ev_version = 1\<rparr>"
  obtain b s3 where p: "push_event J received e ''logger'' s2 = (b, s3)" by fastforce
  have h: "log_http J now received route mtd status duration s = s3"
    using p False unfolding log_http_def s1_def [symmetric] Let_def s2_def [symmetric] e_def [symmetric]
    by (simp add: e_def s2_def s1_def) blast
  have A: "backlog_inv J identity device (log_add J now received ''http_repeat_summary'' (sl_httpRepeated s) 1 s)"
    "same_dash device s (log_add J now received ''http_repeat_summary'' (sl_httpRepeated s) 1 s)"
    by (rule log_add_inv(1) [OF assms], rule log_add_dash [OF assms])
  have 1: "backlog_inv J identity device s1" "same_dash device s s1"
    using backlog_inv_cong [OF A(1), of s1] assms same_dash_trans [OF A(2) dash_cong, of s1] dash_cong [of s s] by (auto simp: s1_def)
  have "backlog_inv J identity device s2" by (rule backlog_inv_cong [OF 1(1)]) (simp_all add: s2_def)
  from push_logger_dash [OF this p] have "same_dash device s2 s3" .
  moreover have "same_dash device s1 s2" by (rule dash_cong) (simp_all add: s2_def)
  ultimately show ?thesis unfolding h using 1(2) same_dash_trans by blast
qed

lemma detail_dash: "same_dash device s (set_detailed now enabled s)"
  by (rule dash_cong) (simp_all add: set_detailed_def)

lemma detail_inv: "backlog_inv J identity device s \<Longrightarrow> backlog_inv J identity device (set_detailed now enabled s)"
  by (erule backlog_inv_cong) (simp_all add: set_detailed_def)

lemma link_step_radio:
  "link_step B k k' \<Longrightarrow>
     (lk_eventReceiver k' = lk_eventReceiver k \<and> lk_eventReady k' = lk_eventReady k \<and> lk_receivedEvent k' = lk_receivedEvent k) \<or>
     (lk_eventReceiver k' = fresh_receiver \<and> \<not> lk_eventReady k')"
proof (induction rule: link_step.induct)
  case (loop_step now k w k' w')
  then show ?case
    by (auto simp: link_loop_def attemptConnection_def finishScan_def link_established_def Let_def
        split: if_splits option.splits prod.splits bool.splits)
next
  case (telemetry_step sensor_list now k w k' w')
  then show ?case by (auto simp: publish_telemetry_def next_frame_def Let_def split: if_splits prod.splits bool.splits)
qed (auto simp: link_begin_def onConnect_def onDisconnect_def onScanComplete_def publishUploadStatus_def Let_def split: if_splits)

end
