(* ===== verification/DashDelivery.thy ===== *)
theory DashDelivery
  imports DashEvents
begin

section \<open>An event the dash lets go of is on the logger's card\<close>

text \<open>
  The invariant of the composition of theory \<open>DashEvents\<close>, in four parts (the dash's queue, the logger's
  log, the radio, the acknowledgements), its preservation step by step, and what follows from it.
\<close>

subsection \<open>The invariant\<close>

definition dash_inv :: "u32 \<Rightarrow> DashQueue \<Rightarrow> Event list \<Rightarrow> Event list \<Rightarrow> bool" where
  "dash_inv boot q queued gone \<longleftrightarrow> ring_ok (dq_events q) \<and> length (entries (dq_events q)) = 64 \<and> dq_boot q = boot \<and>
     dq_part q < 4 \<and> queued = gone @ ring_contents (dq_events q) \<and> sorted_wrt (<) (map ev_seq queued) \<and>
     (\<forall>e\<in>set queued. ev_boot e = boot \<and> ev_seq e \<noteq> 0 \<and> ev_seq e \<le> dq_seq q \<and> length (ev_code e) = 32 \<and>
        ev_code e ! 31 = 0 \<and> ev_version e = 1)"

definition card_inv ::
  "'d json_ops \<Rightarrow> string \<Rightarrow> string \<Rightarrow> u32 \<Rightarrow> DashQueue \<Rightarrow> Event list \<Rightarrow> Event list \<Rightarrow> Event set \<Rightarrow> SystemLog \<Rightarrow> bool" where
  "card_inv J identity device boot q queued gone kept s \<longleftrightarrow> backlog_inv J identity device s \<and>
     (sl_dashSeq s = 0 \<or> sl_dashBoot s = boot) \<and>
     (sl_dashDevice s = device \<or> (sl_dashSeq s = 0 \<and> sl_dashPendingSeq s = 0)) \<and>
     (\<forall>e\<in>set queued. ev_seq e \<le> sl_dashSeq s \<longrightarrow> e \<in> kept) \<and> (\<forall>e\<in>set gone. ev_seq e \<le> sl_dashSeq s) \<and>
     (\<forall>e. ring_front (dq_events q) = Some e \<longrightarrow> sl_dashSeq s \<le> ev_seq e) \<and> sl_dashSeq s \<le> dq_seq q \<and>
     (\<forall>e\<in>set (dash_waiting device s). ring_front (dq_events q) = Some e) \<and>
     (sl_dashPendingSeq s \<noteq> 0 \<longrightarrow> sl_dashSeq s < sl_dashPendingSeq s)"

definition current :: "DashQueue \<Rightarrow> Event list \<Rightarrow> Event set" where
  "current q gone = set gone \<union> set_option (ring_front (dq_events q))"

definition air_inv :: "Event set \<Rightarrow> u32 \<Rightarrow> bytes list \<Rightarrow> DashLink \<Rightarrow> bool" where
  "air_inv C D air k \<longleftrightarrow> (\<exists>evs. air = map (\<lambda>x. frame (fst x) (snd x)) evs \<and>
     radio_inv C D evs (lk_eventReceiver k) (lk_eventReady k) (lk_receivedEvent k))"

definition acks_inv :: "u32 \<Rightarrow> bytes list \<Rightarrow> bool" where
  "acks_inv D acks \<longleftrightarrow> (\<forall>d\<in>set acks. \<exists>b n. d = ack_bytes (b, n) \<and> n \<le> D)"

definition delivery_inv :: "'d json_ops \<Rightarrow> string \<Rightarrow> string \<Rightarrow> u32 \<Rightarrow> delivery \<Rightarrow> bool" where
  "delivery_inv J identity device boot z \<longleftrightarrow> dash_inv boot (de_dash z) (de_queued z) (de_done z) \<and>
     card_inv J identity device boot (de_dash z) (de_queued z) (de_done z) (de_stored z) (de_log z) \<and>
     air_inv (current (de_dash z) (de_done z)) (sl_dashSeq (de_log z)) (de_air z) (de_link z) \<and>
     acks_inv (sl_dashSeq (de_log z)) (de_acks z)"

subsection \<open>The front of the queue\<close>

lemma front_contents: "ring_ok q \<Longrightarrow> ring_front q = (case ring_contents q of [] \<Rightarrow> None | x # xs \<Rightarrow> Some x)"
  by (rule event_ring.front_law)

lemma front_SomeD:
  assumes "dash_inv boot q queued gone" "ring_front (dq_events q) = Some e"
  obtains rest where "ring_contents (dq_events q) = e # rest" "queued = gone @ e # rest"
  using assms front_contents [of "dq_events q"] by (auto simp: dash_inv_def split: list.splits)

lemma current_queued: "dash_inv boot q queued gone \<Longrightarrow> current q gone \<subseteq> set queued"
  using front_contents [of "dq_events q"] by (auto simp: current_def dash_inv_def split: list.splits)

lemma current_events_ok: "dash_inv boot q queued gone \<Longrightarrow> events_ok (current q gone)"
  using current_queued [of boot q queued gone] unfolding dash_inv_def events_ok_def by blast

lemma front_highest:
  assumes "dash_inv boot q queued gone" "ring_front (dq_events q) = Some e" "x \<in> current q gone"
  shows "ev_seq x \<le> ev_seq e"
proof -
  obtain rest where r: "queued = gone @ e # rest" using front_SomeD [OF assms(1,2)] by blast
  have "sorted_wrt (<) (map ev_seq (gone @ e # rest))" using assms(1) unfolding dash_inv_def r [symmetric] by blast
  then show ?thesis using assms(2,3) by (auto simp: current_def sorted_wrt_append)
qed

lemma current_newest:
  assumes "dash_inv boot q queued gone" "card_inv J identity device boot q queued gone kept s"
  shows "newest_open (current q gone) (sl_dashSeq s)"
proof -
  have "\<forall>e\<in>set gone. ev_seq e \<le> sl_dashSeq s" using assms(2) by (simp add: card_inv_def)
  then show ?thesis unfolding newest_open_def current_def by (auto simp: not_le)
qed

subsection \<open>The dash: a new event, a frame, an acknowledgement\<close>

lemma word_succ_less: "(n :: u32) + 1 \<noteq> 0 \<Longrightarrow> n < n + 1"
  using unatSuc [of n] by (simp add: word_less_nat_alt add.commute)

lemma code_field_ok: "length (code_field c) = 32" "code_field c ! 31 = 0"
  by (simp_all add: code_field_def Let_def nth_append)

lemma dashEvent_inv:
  assumes "dash_inv boot q queued gone" "dq_seq q + 1 \<noteq> 0" "dashEvent now c v sev q = (b, q')"
  defines "e \<equiv> dash_new_event now c v sev q"
  defines "queued' \<equiv> (if b then queued @ [e] else queued)"
  shows "dash_inv boot q' queued' gone" "dq_seq q' = dq_seq q + 1" "dq_seq q < dq_seq q'"
    "ring_front (dq_events q') = (case ring_front (dq_events q) of Some x \<Rightarrow> Some x | None \<Rightarrow> if b then Some e else None)"
    "set queued' \<subseteq> insert e (set queued)" "ev_seq e = dq_seq q + 1"
proof -
  obtain b' r where p: "ring_push e (dq_events q) = (b', r)" by fastforce
  have q': "b' = b" "q' = q\<lparr>dq_seq := dq_seq q + 1, dq_events := r\<rparr>"
    using assms(3) by (simp_all add: dashEvent_def flip: e_def) (simp_all add: p)
  have ok: "ring_ok (dq_events q)" using assms(1) by (simp add: dash_inv_def)
  note R = ring_push_law [OF ok p]
  show lt: "dq_seq q < dq_seq q'" using assms(2) by (simp add: q' word_succ_less)
  show s: "dq_seq q' = dq_seq q + 1" "ev_seq e = dq_seq q + 1" by (simp_all add: q' e_def dash_new_event_def)
  show "set queued' \<subseteq> insert e (set queued)" by (auto simp: queued'_def)
  have e: "ev_boot e = boot" "ev_seq e \<noteq> 0" "length (ev_code e) = 32" "ev_code e ! 31 = 0" "ev_version e = 1"
    using assms(1,2) by (auto simp: e_def dash_new_event_def dash_inv_def code_field_ok)
  have "\<forall>x\<in>set queued. ev_seq x \<le> dq_seq q" using assms(1) by (simp add: dash_inv_def)
  then have old: "\<forall>x\<in>set queued. ev_seq x < ev_seq e" using lt s by auto
  show "dash_inv boot q' queued' gone"
    using assms(1) R e lt s old unfolding dash_inv_def queued'_def
    by (auto simp: q' sorted_wrt_append intro: order_trans [OF _ less_imp_le])
  show "ring_front (dq_events q') = (case ring_front (dq_events q) of Some x \<Rightarrow> Some x | None \<Rightarrow> if b then Some e else None)"
    using front_contents [OF ok] front_contents [of r] R by (auto simp: q' split: list.splits)
qed

lemma service_law:
  assumes "dash_inv boot q queued gone" "serviceSystemEvents linked now q = (r, q')"
  shows "dash_inv boot q' queued gone" "dq_events q' = dq_events q" "dq_seq q' = dq_seq q"
    "r = Some d \<Longrightarrow> \<exists>e i. ring_front (dq_events q) = Some e \<and> i < 4 \<and> d = frame e i"
proof -
  show "dash_inv boot q' queued gone" "dq_events q' = dq_events q" "dq_seq q' = dq_seq q"
    using assms by (auto simp: serviceSystemEvents_def dash_inv_def Let_def split: if_splits option.splits)
  assume d: "r = Some d"
  then obtain e where e: "ring_front (dq_events q) = Some e"
    using assms(2) by (auto simp: serviceSystemEvents_def Let_def split: if_splits option.splits)
  then have "d = frame e 0 \<or> d = frame e (dq_part q)"
    using assms(2) d by (auto simp: serviceSystemEvents_def Let_def split: if_splits)
  moreover have "dq_part q < 4" using assms(1) by (simp add: dash_inv_def)
  ultimately show "\<exists>e i. ring_front (dq_events q) = Some e \<and> i < 4 \<and> d = frame e i"
    using e by (metis zero_less_numeral)
qed

lemma onAck_law:
  assumes "dash_inv boot q queued gone" "card_inv J identity device boot q queued gone kept s" "d = ack_bytes (b, n)" "n \<le> sl_dashSeq s"
  shows "onAck d q = q \<or> (\<exists>e. ring_front (dq_events q) = Some e \<and> onAck d q = q\<lparr>dq_events := ring_pop (dq_events q)\<rparr> \<and>
      ev_seq e \<le> sl_dashSeq s \<and> onAck d q \<noteq> q \<and> dash_inv boot (onAck d q) queued (gone @ [e]))"
proof (cases "onAck d q = q")
  case False
  have len: "length d = 8" "get32 d = b" "get32 (drop 4 d) = n" by (simp_all add: assms(3) ack_bytes_def le_simps)
  then obtain e where e: "ring_front (dq_events q) = Some e" "ev_seq e = n"
      "onAck d q = q\<lparr>dq_events := ring_pop (dq_events q)\<rparr>"
    using False by (auto simp: onAck_def split: option.splits if_splits)
  obtain rest where r: "ring_contents (dq_events q) = e # rest" "queued = gone @ e # rest" using front_SomeD [OF assms(1) e(1)] by blast
  have ok: "ring_ok (dq_events q)" using assms(1) by (simp add: dash_inv_def)
  have "dash_inv boot (onAck d q) queued (gone @ [e])"
    using assms(1) ring_pop_law [OF ok] r by (simp add: dash_inv_def e(3))
  then show ?thesis using e assms(4) False by auto
qed simp

subsection \<open>The log and the card\<close>

lemma waiting_pending:
  "backlog_inv J identity device s \<Longrightarrow> map (\<lambda>e. (ev_boot e, ev_seq e)) (dash_waiting device s) =
     (if sl_dashPendingSeq s = 0 then [] else [(sl_dashPendingBoot s, sl_dashPendingSeq s)])"
  by (simp add: backlog_inv_def dash_waiting_def case_prod_unfold comp_def cong: filter_cong)

lemma card_same:
  assumes "card_inv J identity device boot q queued gone kept s" "backlog_inv J identity device s'" "same_dash device s s'" "kept \<subseteq> kept'"
  shows "card_inv J identity device boot q queued gone kept' s'"
  using assms unfolding card_inv_def same_dash_def by auto

lemma card_queue:
  assumes "card_inv J identity device boot q queued gone kept s" "dq_events q' = dq_events q" "dq_seq q' = dq_seq q"
  shows "card_inv J identity device boot q' queued gone kept s"
  using assms by (simp add: card_inv_def)

lemma card_event:
  assumes "card_inv J identity device boot q queued gone kept s" "dq_seq q < dq_seq q'" "ev_seq e = dq_seq q'"
    and "ring_front (dq_events q') = (case ring_front (dq_events q) of Some x \<Rightarrow> Some x | None \<Rightarrow> if b then Some e else None)"
    and "set queued' \<subseteq> insert e (set queued)"
  shows "card_inv J identity device boot q' queued' gone kept s"
proof -
  have "sl_dashSeq s \<le> dq_seq q" using assms(1) unfolding card_inv_def by blast
  then have D: "sl_dashSeq s < dq_seq q'" using assms(2) by (rule le_less_trans)
  then show ?thesis using assms(1,3,4,5) unfolding card_inv_def by (auto split: option.splits if_splits)
qed

lemma card_ack:
  assumes "dash_inv boot q queued gone" "card_inv J identity device boot q queued gone kept s"
    and "ring_front (dq_events q) = Some e" "q' = q\<lparr>dq_events := ring_pop (dq_events q)\<rparr>" "ev_seq e \<le> sl_dashSeq s"
    and "dash_inv boot q' queued (gone @ [e])"
  shows "card_inv J identity device boot q' queued (gone @ [e]) kept s"
proof -
  have b: "backlog_inv J identity device s" "\<forall>x\<in>set (dash_waiting device s). x = e"
    "sl_dashPendingSeq s \<noteq> 0 \<longrightarrow> sl_dashSeq s < sl_dashPendingSeq s" "sl_dashSeq s \<le> ev_seq e"
    using assms(2,3) by (auto simp: card_inv_def)
  have w: "dash_waiting device s = []"
  proof (rule ccontr)
    assume "dash_waiting device s \<noteq> []"
    then obtain x xs where x: "dash_waiting device s = x # xs" by (cases "dash_waiting device s") auto
    then have "sl_dashPendingSeq s \<noteq> 0 \<and> ev_seq x = sl_dashPendingSeq s" using waiting_pending [OF b(1)] by (auto split: if_splits)
    then show False using b x assms(5) by auto
  qed
  have n: "sl_dashSeq s \<le> ev_seq x" if f: "ring_front (dq_events q') = Some x" for x
  proof -
    obtain rest where "queued = (gone @ [e]) @ x # rest" using front_SomeD [OF assms(6) f] by blast
    moreover have "sorted_wrt (<) (map ev_seq queued)" using assms(6) unfolding dash_inv_def by blast
    ultimately have "ev_seq e < ev_seq x" by (auto simp: sorted_wrt_append)
    then show ?thesis using b(4) by simp
  qed
  show ?thesis using assms(2,5) w n unfolding card_inv_def by (auto simp: assms(4))
qed

lemma recover_nothing:
  "\<forall>entry\<in>set xs. \<forall>p. is_dash_log device entry \<longrightarrow> tail_pair L J fs entry = Some p \<longrightarrow> fst p \<noteq> ev_boot e \<Longrightarrow>
   fold (recover_entry L J fs e device) xs s = s"
proof (induction xs)
  case (Cons x xs)
  then have "recover_entry L J fs e device x s = s" by (auto simp: recover_entry_def split: option.splits)
  with Cons show ?case by simp
qed simp

lemma card_recovered:
  assumes "card_inv J identity device boot q queued gone kept s" "ev_boot e = boot"
    and "\<And>p. sl_dashDevice s \<noteq> device \<Longrightarrow> p \<in> tails_found L J (dir fs) fs device \<Longrightarrow> fst p \<noteq> boot"
  defines "s1 \<equiv> recover_dash L J (dir fs) fs e device s"
  shows "card_inv J identity device boot q queued gone kept s1" "sl_dashSeq s1 = sl_dashSeq s" "sl_dashDevice s1 = device"
proof -
  have "s1 = s\<lparr>sl_dashDevice := device\<rparr>"
  proof (cases "device = sl_dashDevice s")
    case False
    have "fst p \<noteq> ev_boot e" if "entry \<in> set (dir fs)" "is_dash_log device entry" "tail_pair L J fs entry = Some p" for entry p
      using assms(2) assms(3) [of p] False that by (auto simp: tails_found_def)
    then have "fold (recover_entry L J fs e device) (dir fs) s = s" by (intro recover_nothing) blast
    then show ?thesis using False by (simp add: s1_def recover_dash_def)
  qed (simp add: s1_def recover_dash_def)
  moreover have "backlog_inv J identity device (s\<lparr>sl_dashDevice := device\<rparr>)" "dash_waiting device (s\<lparr>sl_dashDevice := device\<rparr>) = dash_waiting device s"
    using assms(1) backlog_inv_cong [of J identity device s "s\<lparr>sl_dashDevice := device\<rparr>"]
    by (auto simp: card_inv_def dash_waiting_def backlog_def)
  ultimately show "card_inv J identity device boot q queued gone kept s1" "sl_dashSeq s1 = sl_dashSeq s" "sl_dashDevice s1 = device"
    using assms(1) by (auto simp: card_inv_def)
qed

text \<open>What the log takes for new is the event at the front of the dash's queue.\<close>

lemma open_is_front:
  assumes "dash_inv boot q queued gone" "card_inv J identity device boot q queued gone kept s"
    and "e \<in> current q gone" "arrives (sl_dashSeq s) e ev" "\<not> ev_seq ev \<le> sl_dashSeq s"
  shows "ring_front (dq_events q) = Some e" "terminated ev = e"
proof -
  have e: "ev = e" "\<not> ev_seq e \<le> sl_dashSeq s" using assms(4,5) by (auto simp: arrives_def)
  then have "e \<notin> set gone" using assms(2) by (auto simp: card_inv_def)
  then show "ring_front (dq_events q) = Some e" using assms(3) by (auto simp: current_def)
  have "e \<in> set queued" using current_queued [OF assms(1)] assms(3) by blast
  then have "ev_code e ! 31 = 0" "length (ev_code e) = 32" using assms(1) by (auto simp: dash_inv_def)
  then have "(ev_code e)[31 := 0] = ev_code e" by (metis list_update_id)
  then show "terminated ev = e" by (simp add: e terminated_def)
qed

lemma card_pushed:
  assumes "card_inv J identity device boot q queued gone kept s" "push_event J received e (dash_device device) s = (b, s1)"
    and "ring_front (dq_events q) = Some e" "sl_dashDevice s = device" "sl_dashPendingSeq s = 0" "sl_dashSeq s < ev_seq e"
  defines "s2 \<equiv> if b then s1\<lparr>sl_dashDevice := device, sl_dashPendingBoot := ev_boot e, sl_dashPendingSeq := ev_seq e\<rparr> else s1"
  shows "card_inv J identity device boot q queued gone kept s2 \<and> sl_dashSeq s2 = sl_dashSeq s"
proof -
  have inv: "backlog_inv J identity device s" using assms(1) by (simp add: card_inv_def)
  then have ok: "log_ok s" by (simp add: backlog_inv_def)
  note P = push_event_law [OF ok assms(2)] push_event_rest [OF assms(2)]
  have none: "dash_waiting device s = []" using waiting_pending [OF inv] assms(5) by simp
  show ?thesis
  proof (cases b)
    case True
    have "ev_seq e \<noteq> 0" using assms(6) by auto
    then have "backlog_inv J identity device s2" using push_dash_inv [OF inv _ assms(5)] assms(2) True by (simp add: s2_def)
    moreover have "backlog s2 = backlog s1" by (simp add: s2_def backlog_def)
    then have "dash_waiting device s2 = [e]" using P(3) True none by (simp add: dash_waiting_def)
    ultimately show ?thesis using assms(1,3,6) P True by (auto simp: card_inv_def s2_def)
  next
    case False
    then have "backlog_inv J identity device s2" "dash_waiting device s2 = dash_waiting device s"
      using P inv by (simp_all add: s2_def backlog_inv_def dash_waiting_def)
    then show ?thesis using assms(1) P False by (simp add: card_inv_def s2_def)
  qed
qed

lemma card_accept:
  assumes "dash_inv boot q queued gone" "card_inv J identity device boot q queued gone kept s"
    and "e \<in> current q gone" "arrives (sl_dashSeq s) e ev"
    and "\<And>p. sl_dashDevice s \<noteq> device \<Longrightarrow> p \<in> tails_found L J (dir fs) fs device \<Longrightarrow> fst p \<noteq> boot"
    and "acceptDash L J dir received (terminated ev) device fs s = (b, s')"
  shows "card_inv J identity device boot q queued gone kept s' \<and> sl_dashSeq s' = sl_dashSeq s \<and> (b \<longrightarrow> ev_seq ev \<le> sl_dashSeq s)"
proof -
  let ?t = "terminated ev"
  have "e \<in> set queued" using current_queued [OF assms(1)] assms(3) by blast
  then have t: "ev_boot ?t = boot" "ev_seq ?t = ev_seq ev" "ev_seq ev = ev_seq e" "ev_seq e \<noteq> 0"
    using assms(1,4) by (auto simp: dash_inv_def arrives_def terminated_def)
  define s1 where "s1 = recover_dash L J (dir fs) fs ?t device s"
  note R = card_recovered [where L = L and dir = dir and fs = fs, OF assms(2) t(1) assms(5), folded s1_def]
  show ?thesis
  proof (cases "ev_version ?t \<noteq> 1 \<or> \<not> safeCode (code_text ?t) \<or> ev_seq ?t = 0 \<or> \<not> sl_ready s")
    case True
    then have "acceptDash L J dir received ?t device fs s = (False, s)" unfolding acceptDash_def by auto
    then show ?thesis using assms(2,6) by simp
  next
    case go: False
    obtain b2 s2 where p: "push_event J received ?t (dash_device device) s1 = (b2, s2)" by fastforce
    have a: "(b, s') = (if device = sl_dashDevice s1 \<and> ev_boot ?t = sl_dashBoot s1 \<and> ev_seq ?t \<le> sl_dashSeq s1 then (True, s1)
        else if sl_dashPendingSeq s1 \<noteq> 0 then (False, s1)
        else (False, if b2 then s2\<lparr>sl_dashDevice := device, sl_dashPendingBoot := ev_boot ?t, sl_dashPendingSeq := ev_seq ?t\<rparr> else s2))"
      using assms(6) go unfolding acceptDash_def s1_def [symmetric] Let_def p by (auto split: bool.splits)
    show ?thesis
    proof (cases "ev_seq ev \<le> sl_dashSeq s")
      case True
      then have "sl_dashSeq s \<noteq> 0" using t(3,4) by auto
      then have "sl_dashSeq s1 \<noteq> 0" by (simp add: R(2))
      then have "sl_dashBoot s1 = boot" using R(1) by (auto simp: card_inv_def)
      then have "b \<and> s' = s1" using a True R(2,3) t(1,2) by auto
      then show ?thesis using R True by simp
    next
      case False
      note F = open_is_front [OF assms(1-4) False]
      have n: "\<not> ev_seq ?t \<le> sl_dashSeq s1" using False R(2) t(2) by simp
      show ?thesis
      proof (cases "sl_dashPendingSeq s1 = 0")
        case False
        then show ?thesis using a n R by auto
      next
        case True
        have "sl_dashSeq s1 < ev_seq e" using n by (simp add: F(2))
        then show ?thesis
          using card_pushed [OF R(1) p [unfolded F(2)] F(1) R(3) True] a n True R(2) by (auto simp: F(2))
      qed
    qed
  qed
qed

subsection \<open>Step by step\<close>

lemma current_mono:
  assumes "ring_front (dq_events q') = (case ring_front (dq_events q) of Some x \<Rightarrow> Some x | None \<Rightarrow> y)"
  shows "current q gone \<subseteq> current q' gone"
  using assms by (auto simp: current_def split: option.splits)

lemma air_inv_weaken:
  assumes "air_inv C D air k"
    and "\<And>evs. radio_inv C D evs (lk_eventReceiver k) (lk_eventReady k) (lk_receivedEvent k) \<Longrightarrow>
      radio_inv C' D' evs (lk_eventReceiver k') (lk_eventReady k') (lk_receivedEvent k')"
  shows "air_inv C' D' air k'"
  using assms unfolding air_inv_def by blast

lemma air_inv_mono: "air_inv C D air k \<Longrightarrow> C \<subseteq> C' \<Longrightarrow> D \<le> D' \<Longrightarrow> air_inv C' D' air k"
  by (erule air_inv_weaken) (rule radio_inv_mono)

lemma acks_inv_mono: "acks_inv D acks \<Longrightarrow> D \<le> D' \<Longrightarrow> acks_inv D' acks"
  unfolding acks_inv_def by (meson order_trans)

lemma air_sent:
  assumes "air_inv C D air k" "e \<in> C" "i < 4" "\<And>x. x \<in> C \<Longrightarrow> ev_seq x \<le> ev_seq e"
  shows "air_inv C D (air @ [frame e i]) k"
proof -
  obtain evs where "air = map (\<lambda>x. frame (fst x) (snd x)) evs"
    "radio_inv C D evs (lk_eventReceiver k) (lk_eventReady k) (lk_receivedEvent k)"
    using assms(1) unfolding air_inv_def by blast
  with radio_sent [OF this(2) assms(2,3)] assms(4) show ?thesis
    unfolding air_inv_def by (intro exI [of _ "evs @ [(e, i)]"]) simp
qed

lemma air_lost:
  assumes "air_inv C D (a @ d # b) k"
  shows "air_inv C D (a @ b) k"
proof -
  obtain evs where e: "map (\<lambda>x. frame (fst x) (snd x)) evs = a @ d # b"
    "radio_inv C D evs (lk_eventReceiver k) (lk_eventReady k) (lk_receivedEvent k)"
    using assms unfolding air_inv_def by metis
  obtain ea x eb where "evs = ea @ x # eb" "a = map (\<lambda>x. frame (fst x) (snd x)) ea" "b = map (\<lambda>x. frame (fst x) (snd x)) eb"
    using e(1) by (auto simp: map_eq_append_conv map_eq_Cons_conv)
  with radio_lost [OF e(2) [unfolded this(1)]] show ?thesis
    unfolding air_inv_def by (intro exI [of _ "ea @ eb"]) simp
qed

lemma air_received:
  assumes "events_ok C" "newest_open C D" "air_inv C D (d # b) k"
  shows "air_inv C D b (onEvent d k)"
proof -
  obtain evs' where e: "map (\<lambda>x. frame (fst x) (snd x)) evs' = d # b"
    "radio_inv C D evs' (lk_eventReceiver k) (lk_eventReady k) (lk_receivedEvent k)"
    using assms(3) unfolding air_inv_def by metis
  obtain x evs where x: "evs' = x # evs" "d = frame (fst x) (snd x)" "b = map (\<lambda>x. frame (fst x) (snd x)) evs"
    using e(1) by (auto simp: map_eq_Cons_conv)
  obtain v r where a: "rx_accept d (lk_eventReceiver k) = (v, r)" by fastforce
  have "radio_inv C D evs r (fst (heard v (lk_eventReady k) (lk_receivedEvent k)))
      (snd (heard v (lk_eventReady k) (lk_receivedEvent k)))"
    by (rule receive_law [OF assms(1,2), of "fst x" "snd x"]) (use x e(2) a in simp_all)
  moreover have "onEvent d k = k\<lparr>lk_eventReceiver := r, lk_receivedEvent := snd (heard v (lk_eventReady k) (lk_receivedEvent k)),
      lk_eventReady := fst (heard v (lk_eventReady k) (lk_receivedEvent k))\<rparr>"
    by (simp add: onEvent_def heard_def a split: bool.split option.split prod.split)
  ultimately show ?thesis using x(3) unfolding air_inv_def by (intro exI [of _ evs]) simp
qed

lemma air_link:
  assumes "air_inv C D air k" "link_step B k k'"
  shows "air_inv C D air k'"
  using assms(1)
proof (rule air_inv_weaken)
  fix evs assume "radio_inv C D evs (lk_eventReceiver k) (lk_eventReady k) (lk_receivedEvent k)"
  then show "radio_inv C D evs (lk_eventReceiver k') (lk_eventReady k') (lk_receivedEvent k')"
    using link_step_radio [OF assms(2)] by (auto simp: radio_inv_def fresh_receiver_def)
qed

lemma card_take:
  assumes "dash_inv boot q queued gone" "card_inv J identity (lk_dashIdentity k) boot q queued gone kept s"
    and "air_inv (current q gone) (sl_dashSeq s) air k"
    and "\<And>p. sl_dashDevice s \<noteq> lk_dashIdentity k \<Longrightarrow> p \<in> tails_found L J (dir fs) fs (lk_dashIdentity k) \<Longrightarrow> fst p \<noteq> boot"
    and "take_event L J dir received now fs k s = (r, k', s')"
  shows "card_inv J identity (lk_dashIdentity k) boot q queued gone kept s'" "sl_dashSeq s' = sl_dashSeq s"
    "air_inv (current q gone) (sl_dashSeq s) air k'" "\<forall>p. r = Some p \<longrightarrow> snd p \<le> sl_dashSeq s"
proof -
  let ?goal = "card_inv J identity (lk_dashIdentity k) boot q queued gone kept s' \<and> sl_dashSeq s' = sl_dashSeq s \<and>
    air_inv (current q gone) (sl_dashSeq s) air k' \<and> (\<forall>p. r = Some p \<longrightarrow> snd p \<le> sl_dashSeq s)"
  have heard: "air_inv (current q gone) (sl_dashSeq s) air (k\<lparr>lk_lastEventMs := now, lk_eventReady := False\<rparr>)"
    using assms(3) by (rule air_inv_weaken) (simp add: radio_inv_def)
  have ?goal
  proof (cases "lk_connected k \<and> lk_events k \<and> 1000 \<le> since now (lk_lastEventMs k) \<and> lk_eventReady k")
    case True
    obtain b t where a: "acceptDash L J dir received (terminated (lk_receivedEvent k)) (lk_dashIdentity k) fs s = (b, t)" by fastforce
    obtain e where e: "e \<in> current q gone" "arrives (sl_dashSeq s) e (lk_receivedEvent k)"
      using assms(3) True by (auto simp: air_inv_def radio_inv_def)
    have t: "k' = k\<lparr>lk_lastEventMs := now, lk_eventReady := False\<rparr>" "s' = t"
      "r = (if b then Some (ev_boot (terminated (lk_receivedEvent k)), ev_seq (lk_receivedEvent k)) else None)"
      using assms(5) True a by (auto simp: take_event_def Let_def terminated_def split: bool.splits)
    show ?thesis using card_accept [OF assms(1,2) e assms(4) a] heard by (auto simp: t)
  next
    case False
    then have "r = None" "s' = s" "k' = k \<or> k' = k\<lparr>lk_lastEventMs := now, lk_eventReady := False\<rparr>"
      using assms(5) by (auto simp: take_event_def Let_def split: if_splits)
    then show ?thesis using assms(2,3) heard by auto
  qed
  then show "card_inv J identity (lk_dashIdentity k) boot q queued gone kept s'" "sl_dashSeq s' = sl_dashSeq s"
    "air_inv (current q gone) (sl_dashSeq s) air k'" "\<forall>p. r = Some p \<longrightarrow> snd p \<le> sl_dashSeq s" by blast+
qed

lemma delivery_started: "delivery_inv J identity device boot
    \<lparr>de_dash = fresh_dash boot, de_air = [], de_acks = [], de_link = fresh_link,
     de_log = log_begin J random now received identity fresh_log, de_queued = [], de_done = [], de_stored = {}\<rparr>"
proof -
  define s0 where "s0 = fresh_log\<lparr>sl_timed := True, sl_identity := identity, sl_boot := random\<rparr>"
  have "backlog s0 = [] \<and> log_ok s0 = log_ok fresh_log" using fresh_log_ok(2) by (simp add: s0_def backlog_def log_ok_def)
  then have b: "backlog_inv J identity device s0" using fresh_log_ok by (simp add: backlog_inv_def) (simp add: s0_def fresh_log_def)
  have d: "dash_inv boot (fresh_dash boot) [] []"
    by (simp add: dash_inv_def fresh_dash_def fresh_ring_def ring_ok_def ring_contents_def)
  have f: "ring_front (dq_events (fresh_dash boot)) = None" by (simp add: ring_front_def fresh_dash_def fresh_ring_def)
  have "card_inv J identity device boot (fresh_dash boot) [] [] {} s0"
    using b fresh_log_ok(2) f by (simp add: card_inv_def dash_waiting_def) (simp add: s0_def fresh_log_def backlog_def fresh_ring_def)
  then have "card_inv J identity device boot (fresh_dash boot) [] [] {} (log_add J now received ''boot'' 0 1 s0)"
    by (rule card_same [OF _ log_add_inv(1) [OF b] log_add_dash [OF b]]) simp
  moreover have "air_inv C D [] fresh_link" for C D
    by (simp add: air_inv_def radio_inv_def fresh_link_def fresh_receiver_def)
  ultimately show ?thesis using d by (simp add: delivery_inv_def log_begin_def acks_inv_def flip: s0_def)
qed

lemma delivery_backlog: "delivery_inv J identity device boot z \<Longrightarrow> backlog_inv J identity device (de_log z)"
  by (simp add: delivery_inv_def card_inv_def)

lemma delivery_log:
  assumes "delivery_inv J identity device boot z" "backlog_inv J identity device s" "same_dash device (de_log z) s"
  shows "delivery_inv J identity device boot (z\<lparr>de_log := s\<rparr>)"
proof -
  have "sl_dashSeq s = sl_dashSeq (de_log z)" using assms(3) by (simp add: same_dash_def)
  then show ?thesis using assms(1) card_same [OF _ assms(2,3) order_refl] by (simp add: delivery_inv_def)
qed

context flash
begin

lemma card_drain:
  assumes "dash_inv boot q queued gone" "card_inv J identity device boot q queued gone kept s"
    and "log_loop L dir now date sdReady s fs = (s', fs')"
  shows "card_inv J identity device boot q queued gone (kept \<union> {e. line_on_card J (files fs') identity device e}) s' \<and>
    sl_dashSeq s \<le> sl_dashSeq s'"
  using assms(3)
proof (cases rule: log_loop_law)
  case 1
  have "backlog_inv J identity device s" using assms(2) by (simp add: card_inv_def)
  then have "backlog_inv J identity device s'" using 1 by (rule same_queue_inv)
  from card_same [OF assms(2) this same_queue_dash [OF 1]] show ?thesis using 1 by (simp add: same_queue_def)
next
  case (2 s2 ev e d l src path c)
  let ?kept = "kept \<union> {e. line_on_card J (files fs') identity device e}"
  have "backlog_inv J identity device s" using assms(2) by (simp add: card_inv_def)
  then have b2: "backlog_inv J identity device s2" using 2(1) by (rule same_queue_inv)
  have C2: "card_inv J identity device boot q queued gone ?kept s2" by (rule card_same [OF assms(2) b2 same_queue_dash [OF 2(1)]]) simp
  have a2: "ack_inv device s2 UNIV" using C2 by (auto simp: ack_inv_def card_inv_def)
  have b': "backlog_inv J identity device s'" using drained_inv(1) [OF b2 2(2) a2 2(3,4)] by (simp add: 2(5))
  obtain bs where bl: "backlog s2 = (e, d, l) # bs" using backlog_front(2) [OF 2(2)] 2(3) by (cases "backlog s2") auto
  then have d: "d = ''logger'' \<or> d = dash_device device" and "\<exists>r. l = event_line J identity r e d"
    using b2 by (auto simp: backlog_inv_def)
  then obtain r where r: "l = event_line J identity r e d" by blast
  have tl: "backlog s' = bs" using log_pop_law(2) [of s2 src path] b2 backlog_front(1) [OF 2(2)] bl by (simp add: backlog_inv_def 2(5))
  show ?thesis
  proof (cases "d = dash_device device")
    case False
    then have "same_dash device s2 s'"
      using d tl bl 2(4) by (auto simp: same_dash_def dash_waiting_def 2(5) drained_def Let_def)
    then show ?thesis using card_same [OF C2 b'] 2(1) by (auto simp: same_dash_def same_queue_def)
  next
    case True
    have w: "dash_waiting device s2 = e # dash_waiting device s'" using True bl tl by (simp add: dash_waiting_def)
    then have pd: "dash_waiting device s' = []" "sl_dashPendingSeq s2 = ev_seq e" "sl_dashPendingBoot s2 = ev_boot e" "ev_seq e \<noteq> 0"
      using waiting_pending [OF b2] by (auto split: if_splits)
    have f: "ring_front (dq_events q) = Some e" using C2 w by (auto simp: card_inv_def)
    have s': "sl_dashSeq s' = ev_seq e" "sl_dashBoot s' = ev_boot e" "sl_dashPendingSeq s' = 0" "sl_dashDevice s' = sl_dashDevice s2"
      using True 2(4) pd by (auto simp: 2(5) drained_def Let_def)
    have D: "sl_dashSeq s2 < ev_seq e" using C2 pd by (auto simp: card_inv_def)
    obtain rest where q: "queued = gone @ e # rest" using front_SomeD [OF assms(1) f] by blast
    have srt: "sorted_wrt (<) (map ev_seq (gone @ e # rest))" using assms(1) unfolding dash_inv_def q [symmetric] by blast
    have card: "e \<in> ?kept" using line_ends_file [where F = "files fs'", OF 2(7,6) r True] by simp
    have boot: "ev_boot e = boot" "ev_seq e \<le> dq_seq q" using assms(1) by (auto simp: dash_inv_def q)
    have "x \<in> ?kept" if "x \<in> set queued" "ev_seq x \<le> ev_seq e" for x
    proof -
      have "x \<in> set gone \<or> x = e" using that srt by (auto simp: q sorted_wrt_append)
      then show ?thesis
      proof
        assume "x \<in> set gone"
        then show ?thesis using C2 q by (auto simp: card_inv_def)
      qed (use card in simp)
    qed
    moreover have "\<forall>x\<in>set gone. ev_seq x \<le> ev_seq e" using srt by (auto simp: sorted_wrt_append)
    moreover have "sl_dashDevice s2 = device" using C2 pd by (auto simp: card_inv_def)
    ultimately show ?thesis
      using b' pd(1) s' boot f D 2(1) by (auto simp: card_inv_def same_queue_def)
  qed
qed

lemma delivery_preserved:
  assumes "deliver L J B dir files identity device boot z"
  shows "delivery_inv J identity device boot z"
  using assms
proof (induction rule: deliver.induct)
  case start
  show ?case by (rule delivery_started)
next
  case (event z now c v sev b q)
  define e where "e = dash_new_event now c v sev (de_dash z)"
  have d: "dash_inv boot (de_dash z) (de_queued z) (de_done z)"
    and c: "card_inv J identity device boot (de_dash z) (de_queued z) (de_done z) (de_stored z) (de_log z)"
    using event.IH by (auto simp: delivery_inv_def)
  note E = dashEvent_inv [OF d event.hyps(2,3), folded e_def]
  have "ev_seq e = dq_seq q" using E(2,6) by simp
  from card_event [OF c E(3) this E(4,5)] E(1) air_inv_mono [OF _ current_mono [OF E(4)] order_refl] event.IH
  show ?case by (cases b) (simp_all add: delivery_inv_def flip: e_def)
next
  case (send z linked now r q)
  have d: "dash_inv boot (de_dash z) (de_queued z) (de_done z)"
    and c: "card_inv J identity device boot (de_dash z) (de_queued z) (de_done z) (de_stored z) (de_log z)"
    and a: "air_inv (current (de_dash z) (de_done z)) (sl_dashSeq (de_log z)) (de_air z) (de_link z)"
    using send.IH by (auto simp: delivery_inv_def)
  note S = service_law [OF d send.hyps(2)]
  have cur: "current q (de_done z) = current (de_dash z) (de_done z)" using S(2) by (simp add: current_def)
  have "air_inv (current q (de_done z)) (sl_dashSeq (de_log z)) (de_air z @ (case r of None \<Rightarrow> [] | Some d \<Rightarrow> [d])) (de_link z)"
  proof (cases r)
    case (Some x)
    then obtain e i where e: "ring_front (dq_events (de_dash z)) = Some e" "i < 4" "x = frame e i" using S(4) by blast
    have "e \<in> current (de_dash z) (de_done z)" using e(1) by (simp add: current_def)
    from air_sent [OF a this e(2)] front_highest [OF d e(1)] show ?thesis by (simp add: Some cur e(3))
  qed (use a cur in simp)
  then show ?case using S(1) card_queue [OF c S(2,3)] send.IH by (simp add: delivery_inv_def)
next
  case (lose z a d b)
  then show ?case using air_lost by (auto simp: delivery_inv_def)
next
  case (receive z d b)
  then show ?case using air_received [OF current_events_ok current_newest] by (auto simp: delivery_inv_def)
next
  case (link z k)
  then show ?case using air_link by (auto simp: delivery_inv_def)
next
  case (take z fs received now r k s)
  have I: "dash_inv boot (de_dash z) (de_queued z) (de_done z)"
    "card_inv J identity (lk_dashIdentity (de_link z)) boot (de_dash z) (de_queued z) (de_done z) (de_stored z) (de_log z)"
    "air_inv (current (de_dash z) (de_done z)) (sl_dashSeq (de_log z)) (de_air z) (de_link z)"
    "acks_inv (sl_dashSeq (de_log z)) (de_acks z)"
    using take.IH take.hyps(2) by (simp_all add: delivery_inv_def)
  note T = card_take [where L = L and dir = dir and fs = fs, OF I(1-3) take.hyps(3) [folded take.hyps(2)] take.hyps(4)]
  show ?case using T I by (auto simp: delivery_inv_def acks_inv_def take.hyps(2) split: option.splits)
next
  case (ack_lost z a d b)
  then show ?case by (auto simp: delivery_inv_def acks_inv_def)
next
  case (ack z a d b)
  have I: "dash_inv boot (de_dash z) (de_queued z) (de_done z)"
    "card_inv J identity device boot (de_dash z) (de_queued z) (de_done z) (de_stored z) (de_log z)"
    "air_inv (current (de_dash z) (de_done z)) (sl_dashSeq (de_log z)) (de_air z) (de_link z)"
    "acks_inv (sl_dashSeq (de_log z)) (a @ b)"
    using ack.IH ack.hyps(2) by (auto simp: delivery_inv_def acks_inv_def)
  obtain bt n where d: "d = ack_bytes (bt, n)" "n \<le> sl_dashSeq (de_log z)"
    using ack.IH ack.hyps(2) by (auto simp: delivery_inv_def acks_inv_def)
  from onAck_law [OF I(1,2) d] show ?case
  proof
    assume "onAck d (de_dash z) = de_dash z"
    then show ?thesis using I by (simp add: delivery_inv_def)
  next
    assume "\<exists>e. ring_front (dq_events (de_dash z)) = Some e \<and> onAck d (de_dash z) = de_dash z\<lparr>dq_events := ring_pop (dq_events (de_dash z))\<rparr> \<and>
      ev_seq e \<le> sl_dashSeq (de_log z) \<and> onAck d (de_dash z) \<noteq> de_dash z \<and> dash_inv boot (onAck d (de_dash z)) (de_queued z) (de_done z @ [e])"
    then obtain e where e: "ring_front (dq_events (de_dash z)) = Some e"
      "onAck d (de_dash z) = de_dash z\<lparr>dq_events := ring_pop (dq_events (de_dash z))\<rparr>" "ev_seq e \<le> sl_dashSeq (de_log z)"
      "onAck d (de_dash z) \<noteq> de_dash z" "dash_inv boot (onAck d (de_dash z)) (de_queued z) (de_done z @ [e])" by blast
    have "current (de_dash z) (de_done z) \<subseteq> current (onAck d (de_dash z)) (de_done z @ [e])" using e(1) by (auto simp: current_def)
    from air_inv_mono [OF I(3) this order_refl] card_ack [OF I(1,2) e(1-3,5)] show ?thesis
      using I(4) e by (simp add: delivery_inv_def)
  qed
next
  case (add z now received c v sev)
  show ?case by (rule delivery_log [OF add.IH log_add_inv(1) log_add_dash]) (rule delivery_backlog [OF add.IH])+
next
  case (http z now received rt md st dur)
  show ?case by (rule delivery_log [OF http.IH log_http_inv(1) log_http_dash]) (rule delivery_backlog [OF http.IH])+
next
  case (detail z now enabled)
  show ?case by (rule delivery_log [OF detail.IH detail_inv detail_dash]) (rule delivery_backlog [OF detail.IH])
next
  case (drain z now date sdReady fs s fs')
  have I: "dash_inv boot (de_dash z) (de_queued z) (de_done z)"
    "card_inv J identity device boot (de_dash z) (de_queued z) (de_done z) (de_stored z) (de_log z)"
    using drain.IH by (simp_all add: delivery_inv_def)
  from card_drain [OF I drain.hyps(2)] show ?case
    using drain.IH air_inv_mono [OF _ order_refl] acks_inv_mono by (auto simp: delivery_inv_def)
qed

end

subsection \<open>Properties\<close>

text \<open>
  C5: the dash lets go of an event only after the logger has it on its card. Whatever frames and
  acknowledgements are lost, whenever the link is torn down, whatever the logger logs of its own and
  whatever the card does, every event the dash's queue took is either still in that queue, in order, or
  its line ended a file of this dash on the card after some pass of the logger's loop.
\<close>

theorem dash_events_delivered:
  assumes "flash L files" "deliver L J B dir files identity device boot z"
  shows "de_queued z = de_done z @ ring_contents (dq_events (de_dash z)) \<and> set (de_done z) \<subseteq> de_stored z"
proof -
  have I: "delivery_inv J identity device boot z" by (rule flash.delivery_preserved [OF assms])
  then have "dash_inv boot (de_dash z) (de_queued z) (de_done z)"
    "card_inv J identity device boot (de_dash z) (de_queued z) (de_done z) (de_stored z) (de_log z)"
    by (simp_all add: delivery_inv_def)
  then show ?thesis by (auto simp: dash_inv_def card_inv_def)
qed

text \<open>
  A whole run on a fresh card: the link is made, the event crosses in four frames, is queued by the log
  and written by the second pass of its loop; sent again, it is acknowledged and the dash lets it go.
\<close>

definition demo_ble :: "unit ble_ops" where
  "demo_ble = \<lparr>bl_isConnected = \<lambda>_. False, bl_isScanning = \<lambda>_. False, bl_start = \<lambda>_ w. (True, w),
     bl_results = \<lambda>_. Some [(False, ''b:b''), (True, ''a:a'')], bl_clearResults = id, bl_connect = \<lambda>_ w. (True, w),
     bl_handshake = \<lambda>_ w. (True, w), bl_disconnect = id, bl_has = \<lambda>_ _. True, bl_subscribe = id,
     bl_canWrite = \<lambda>_ _. True, bl_write = \<lambda>_ _ w. (True, w)\<rparr>"

definition demo_link :: "DashLink \<Rightarrow> DashLink" where
  "demo_link k = fst (link_loop demo_ble 0 (onScanComplete (fst (link_loop demo_ble 0
     (link_begin \<lparr>lc_enabled = True, lc_retryIntervalMs = 0, lc_scanDurationSeconds = 1\<rparr> 0 k) ()))) ())"

datatype demo_op = OEvent | OLink | OSend u32 | OReceive | OTake u32 | ODrain u32 | OAck

text \<open>The run leaves \<open>de_stored\<close>, a set that no step reads, alone.\<close>

fun demo_do :: "demo_op \<Rightarrow> delivery \<times> fake_fs \<Rightarrow> delivery \<times> fake_fs" where
  "demo_do OEvent (z, fs) = (case dashEvent 1 ''wifi_up'' 0 1 (de_dash z) of (b, q) \<Rightarrow>
     if dq_seq (de_dash z) = 0
     then (z\<lparr>de_dash := q, de_queued := (if b then de_queued z @ [dash_new_event 1 ''wifi_up'' 0 1 (de_dash z)] else de_queued z)\<rparr>, fs)
     else (z, fs))"
| "demo_do OLink (z, fs) = (z\<lparr>de_link := demo_link (de_link z)\<rparr>, fs)"
| "demo_do (OSend now) (z, fs) = (case serviceSystemEvents True now (de_dash z) of (r, q) \<Rightarrow>
     (z\<lparr>de_dash := q, de_air := de_air z @ (case r of None \<Rightarrow> [] | Some d \<Rightarrow> [d])\<rparr>, fs))"
| "demo_do OReceive (z, fs) = (case de_air z of [] \<Rightarrow> (z, fs) | d # b \<Rightarrow> (z\<lparr>de_air := b, de_link := onEvent d (de_link z)\<rparr>, fs))"
| "demo_do (OTake now) (z, fs) =
     (if lk_dashIdentity (de_link z) = ''aa'' \<and> (sl_dashDevice (de_log z) = ''aa'' \<or> filter (is_dash_log ''aa'') (card_dir fs) = [])
      then case take_event fake_lfs demo_json card_dir ''t'' now fs (de_link z) (de_log z) of (r, k, s) \<Rightarrow>
        (z\<lparr>de_link := k, de_log := s, de_acks := de_acks z @ (case r of None \<Rightarrow> [] | Some p \<Rightarrow> [ack_bytes p])\<rparr>, fs)
      else (z, fs))"
| "demo_do (ODrain now) (z, fs) = (case log_loop fake_lfs card_dir now ''2026-02-28'' True (de_log z) fs of (s, fs') \<Rightarrow>
     (z\<lparr>de_log := s\<rparr>, fs'))"
| "demo_do OAck (z, fs) = (case de_acks z of [] \<Rightarrow> (z, fs) | d # b \<Rightarrow>
     (z\<lparr>de_acks := b, de_dash := onAck d (de_dash z),
        de_done := (if onAck d (de_dash z) = de_dash z then de_done z
                    else de_done z @ [the (ring_front (dq_events (de_dash z)))])\<rparr>, fs))"

definition demo_start :: delivery where
  "demo_start = \<lparr>de_dash = fresh_dash 7, de_air = [], de_acks = [], de_link = fresh_link,
     de_log = log_begin demo_json 9 100 ''t'' ''id'' fresh_log, de_queued = [], de_done = [], de_stored = {}\<rparr>"

definition demo_ops :: "demo_op list" where
  "demo_ops = [OEvent, ODrain 300, OLink, OSend 1000, OReceive, OSend 1040, OReceive, OSend 1080, OReceive, OSend 1120, OReceive,
     OTake 2000, ODrain 2100, OSend 2200, OReceive, OSend 2240, OReceive, OSend 2280, OReceive, OSend 2320, OReceive, OTake 3200, OAck]"

definition demo_end :: "delivery \<times> fake_fs" where
  "demo_end = fold demo_do demo_ops (demo_start, blank_volume 100)"

lemma demo_done: "de_done (fst demo_end) = [dash_event 7 1]"
  by code_simp

abbreviation demo_deliver :: "delivery \<Rightarrow> bool" where
  "demo_deliver z \<equiv> \<exists>X. deliver fake_lfs demo_json demo_ble card_dir fs_content ''id'' ''aa'' 7 (z\<lparr>de_stored := X\<rparr>)"

lemma stored_last:
  "z\<lparr>de_stored := X\<rparr>\<lparr>de_dash := q\<rparr> = z\<lparr>de_dash := q\<rparr>\<lparr>de_stored := X\<rparr>"
  "z\<lparr>de_stored := X\<rparr>\<lparr>de_air := air\<rparr> = z\<lparr>de_air := air\<rparr>\<lparr>de_stored := X\<rparr>"
  "z\<lparr>de_stored := X\<rparr>\<lparr>de_acks := acks\<rparr> = z\<lparr>de_acks := acks\<rparr>\<lparr>de_stored := X\<rparr>"
  "z\<lparr>de_stored := X\<rparr>\<lparr>de_link := k\<rparr> = z\<lparr>de_link := k\<rparr>\<lparr>de_stored := X\<rparr>"
  "z\<lparr>de_stored := X\<rparr>\<lparr>de_log := s\<rparr> = z\<lparr>de_log := s\<rparr>\<lparr>de_stored := X\<rparr>"
  "z\<lparr>de_stored := X\<rparr>\<lparr>de_queued := es\<rparr> = z\<lparr>de_queued := es\<rparr>\<lparr>de_stored := X\<rparr>"
  "z\<lparr>de_stored := X\<rparr>\<lparr>de_done := es\<rparr> = z\<lparr>de_done := es\<rparr>\<lparr>de_stored := X\<rparr>"
  by simp_all

lemma demo_link_step:
  assumes "demo_deliver z" "link_step demo_ble (de_link z) k"
  shows "demo_deliver (z\<lparr>de_link := k\<rparr>)"
proof -
  obtain X where X: "deliver fake_lfs demo_json demo_ble card_dir fs_content ''id'' ''aa'' 7 (z\<lparr>de_stored := X\<rparr>)" using assms(1) by blast
  show ?thesis using deliver.link [OF X, of k] assms(2) unfolding stored_last by auto
qed

lemma demo_loop_step: "demo_deliver z \<Longrightarrow> demo_deliver (z\<lparr>de_link := fst (link_loop demo_ble 0 (de_link z) ())\<rparr>)"
  by (rule demo_link_step, assumption, rule loop_step, rule prod.collapse [symmetric])

lemma demo_link_delivers:
  assumes "demo_deliver z"
  shows "demo_deliver (z\<lparr>de_link := demo_link (de_link z)\<rparr>)"
proof -
  note 1 = demo_link_step [OF assms begin_step]
  note 2 = demo_loop_step [OF 1]
  note 3 = demo_link_step [OF 2 scan_step]
  show ?thesis using demo_loop_step [OF 3] by (simp add: demo_link_def)
qed

lemma demo_do_delivers:
  assumes "demo_deliver z"
  shows "demo_deliver (fst (demo_do a (z, fs)))"
proof -
  obtain X where X: "deliver fake_lfs demo_json demo_ble card_dir fs_content ''id'' ''aa'' 7 (z\<lparr>de_stored := X\<rparr>)" using assms by blast
  show ?thesis
  proof (cases a)
    case OEvent
    obtain b q where e: "dashEvent 1 ''wifi_up'' 0 1 (de_dash z) = (b, q)" by fastforce
    show ?thesis using deliver.event [OF X, of 1 "''wifi_up''" 0 1 b q] assms e
      unfolding stored_last by (auto simp: OEvent)
  next
    case OLink
    then show ?thesis using demo_link_delivers [OF assms] by simp
  next
    case (OSend now)
    obtain r q where e: "serviceSystemEvents True now (de_dash z) = (r, q)" by fastforce
    show ?thesis using deliver.send [OF X, of True now r q] e unfolding stored_last by (auto simp: OSend)
  next
    case OReceive
    show ?thesis
    proof (cases "de_air z")
      case (Cons d b)
      then show ?thesis using deliver.receive [OF X, of d b] unfolding stored_last by (auto simp: OReceive)
    qed (use assms in \<open>simp add: OReceive\<close>)
  next
    case (OTake now)
    obtain r k s where t: "take_event fake_lfs demo_json card_dir ''t'' now fs (de_link z) (de_log z) = (r, k, s)" by (metis prod_cases3)
    show ?thesis
    proof (cases "lk_dashIdentity (de_link z) = ''aa'' \<and> (sl_dashDevice (de_log z) = ''aa'' \<or> filter (is_dash_log ''aa'') (card_dir fs) = [])")
      case True
      then have "fst p \<noteq> 7" if "sl_dashDevice (de_log z) \<noteq> ''aa''" "p \<in> tails_found fake_lfs demo_json (card_dir fs) fs ''aa''" for p
        using that by (auto simp: tails_found_def filter_empty_conv)
      then have "deliver fake_lfs demo_json demo_ble card_dir fs_content ''id'' ''aa'' 7 (z\<lparr>de_stored := X\<rparr>\<lparr>de_link := k, de_log := s,
          de_acks := de_acks (z\<lparr>de_stored := X\<rparr>) @ (case r of None \<Rightarrow> [] | Some p \<Rightarrow> [ack_bytes p])\<rparr>)"
        using True t by (intro deliver.take [OF X, where fs = fs and now = now and received = "''t''"]) auto
      then show ?thesis using True t unfolding stored_last by (auto simp: OTake)
    next
      case False
      then show ?thesis unfolding OTake demo_do.simps if_not_P [OF False] using assms by simp
    qed
  next
    case (ODrain now)
    obtain s fs' where e: "log_loop fake_lfs card_dir now ''2026-02-28'' True (de_log z) fs = (s, fs')" by fastforce
    show ?thesis using deliver.drain [OF X, of now "''2026-02-28''" True fs s fs'] e by (auto simp: ODrain)
  next
    case OAck
    show ?thesis
    proof (cases "de_acks z")
      case (Cons d b)
      then show ?thesis using deliver.ack [OF X, of "[]" d b] unfolding stored_last by (auto simp: OAck)
    qed (use assms in \<open>simp add: OAck\<close>)
  qed
qed

lemma demo_delivers: "demo_deliver (fst demo_end)"
proof -
  have "demo_deliver (fst c) \<Longrightarrow> demo_deliver (fst (fold demo_do as c))" for as c
  proof (induction as arbitrary: c)
    case (Cons a as)
    from demo_do_delivers [OF Cons.prems, of a "snd c"] show ?case using Cons.IH by simp
  qed simp
  moreover have "demo_deliver demo_start" using deliver.start by (fastforce simp: demo_start_def)
  ultimately show ?thesis by (simp add: demo_end_def)
qed

theorem dash_events_delivered_witness:
  "\<exists>z. deliver fake_lfs demo_json demo_ble card_dir fs_content ''id'' ''aa'' 7 z \<and>
     de_done z = [dash_event 7 1] \<and> dash_event 7 1 \<in> de_stored z"
proof -
  obtain X where X: "deliver fake_lfs demo_json demo_ble card_dir fs_content ''id'' ''aa'' 7 (fst demo_end\<lparr>de_stored := X\<rparr>)"
    using demo_delivers by blast
  from dash_events_delivered [OF fake_volume.flash_axioms X] X demo_done show ?thesis
    by (intro exI [of _ "fst demo_end\<lparr>de_stored := X\<rparr>"]) simp
qed

end
