(* ===== verification/FloatArith.thy ===== *)
theory FloatArith
  imports Float32
begin

section \<open>Arithmetic on floats\<close>

text \<open>
  The operations of IEEE 754 single precision on the encodings of theory \<open>Float32\<close>, rounded to nearest
  with ties to even, one rounding for each operation of the source. The value of a finite float is a
  whole number of units of 2 to the power -149, so a result is the rounding of a fraction of two whole
  numbers. A NaN result is the canonical quiet one: no source reads the payload of a NaN. A compiler
  that contracts a product and a sum into one instruction rounds once where the definitions round twice.
\<close>

definition f_mag :: "u32 \<Rightarrow> int" where
  "f_mag x = uint (x AND 0x7FFFFFFF)"

definition f_finite :: "u32 \<Rightarrow> bool" where
  "f_finite x \<longleftrightarrow> f_mag x < 0x7F800000"

definition f_inf :: "u32 \<Rightarrow> bool" where
  "f_inf x \<longleftrightarrow> f_mag x = 0x7F800000"

definition f_neg :: "u32 \<Rightarrow> u32" where
  "f_neg x = x XOR 0x80000000"

definition qnan :: u32 where
  "qnan = 0x7FC00000"

text \<open>Powers of two, with equations that evaluate them in few steps.\<close>

definition pow2 :: "nat \<Rightarrow> int" where
  pow2_power [simp]: "pow2 k = 2 ^ k"

definition f_unit :: int where
  f_unit_power [simp]: "f_unit = 2 ^ 149"

lemma pow2_code [code]: "pow2 k = (if k < 8 then [1, 2, 4, 8, 16, 32, 64, 128] ! k else 256 * pow2 (k - 8))"
proof (cases "k < 8")
  case True
  then have "k \<in> {0, 1, 2, 3, 4, 5, 6, 7}" by auto
  then show ?thesis by auto
next
  case False
  then have "k = 8 + (k - 8)" by simp
  then have "(2 :: int) ^ k = 2 ^ 8 * 2 ^ (k - 8)" by (metis power_add)
  then show ?thesis using False by simp
qed

lemma f_unit_code [code]: "f_unit = 713623846352979940529142984724747568191373312"
  by simp

definition mag_val :: "int \<Rightarrow> int" where
  "mag_val m = (let e = m div 8388608; f = m mod 8388608
     in if e = 0 then f else (8388608 + f) * pow2 (nat e - 1))"

definition f_val :: "u32 \<Rightarrow> int" where
  "f_val x = (if bit x 31 then - mag_val (f_mag x) else mag_val (f_mag x))"

definition rne :: "int \<Rightarrow> int \<Rightarrow> int" where
  "rne n d = (let q = n div d; r = n mod d in if d < 2 * r \<or> 2 * r = d \<and> odd q then q + 1 else q)"

function (sequential) f_shift :: "int \<Rightarrow> nat" where
  "f_shift q = (if q < 16777216 then 0 else Suc (f_shift (q div 2)))"
  by auto
termination by (relation "measure nat") auto

declare f_shift.simps [simp del]

definition round_mag :: "int \<Rightarrow> int \<Rightarrow> int" where
  "round_mag n d = (let k = f_shift (n div d) in min 0x7F800000 (rne n (d * pow2 k) + int k * 8388608))"

definition f_of :: "bool \<Rightarrow> int \<Rightarrow> u32" where
  "f_of neg m = word_of_int (if neg then m + 2147483648 else m)"

definition f_round :: "bool \<Rightarrow> int \<Rightarrow> int \<Rightarrow> u32" where
  "f_round zero_neg n d = (if n = 0 then f_of zero_neg 0 else f_of (n < 0) (round_mag \<bar>n\<bar> d))"

definition f_add :: "u32 \<Rightarrow> u32 \<Rightarrow> u32" where
  "f_add a b = (if f_nan a \<or> f_nan b then qnan
     else if f_inf a then (if f_inf b \<and> bit a 31 \<noteq> bit b 31 then qnan else a)
     else if f_inf b then b
     else f_round (bit a 31 \<and> bit b 31) (f_val a + f_val b) 1)"

definition f_sub :: "u32 \<Rightarrow> u32 \<Rightarrow> u32" where
  "f_sub a b = f_add a (f_neg b)"

definition f_mul :: "u32 \<Rightarrow> u32 \<Rightarrow> u32" where
  "f_mul a b = (let neg = (bit a 31 \<noteq> bit b 31)
     in if f_nan a \<or> f_nan b \<or> f_inf a \<and> f_mag b = 0 \<or> f_inf b \<and> f_mag a = 0 then qnan
        else if f_inf a \<or> f_inf b then f_of neg 0x7F800000
        else f_round neg (f_val a * f_val b) f_unit)"

definition f_div :: "u32 \<Rightarrow> u32 \<Rightarrow> u32" where
  "f_div a b = (let neg = (bit a 31 \<noteq> bit b 31)
     in if f_nan a \<or> f_nan b \<or> f_inf a \<and> f_inf b \<or> f_mag a = 0 \<and> f_mag b = 0 then qnan
        else if f_inf a \<or> f_mag b = 0 then f_of neg 0x7F800000
        else if f_inf b then f_of neg 0
        else f_round neg (f_val a * sgn (f_val b) * f_unit) \<bar>f_val b\<bar>)"

text \<open>An integer as a float, and a decimal literal of the source.\<close>

definition f_int :: "int \<Rightarrow> u32" where
  "f_int n = f_round False (n * f_unit) 1"

definition f_lit :: "int \<Rightarrow> int \<Rightarrow> u32" where
  "f_lit n d = f_round False (n * f_unit) d"

text \<open>The conversion to an unsigned integer, which drops the fraction, and \<open>std::lround\<close>.\<close>

definition f_trunc :: "u32 \<Rightarrow> int" where
  "f_trunc x = sgn (f_val x) * (\<bar>f_val x\<bar> div f_unit)"

definition f_lround :: "u32 \<Rightarrow> int" where
  "f_lround x = sgn (f_val x) * ((2 * \<bar>f_val x\<bar> + f_unit) div (2 * f_unit))"

subsection \<open>Rounding is monotone and leaves representable values alone\<close>

lemma rne_bounds: "0 < d \<Longrightarrow> n div d \<le> rne n d \<and> rne n d \<le> n div d + 1"
  by (simp add: rne_def Let_def)

lemma rne_mono:
  assumes d: "0 < d" "0 < e" and le: "n * e \<le> m * d"
  shows "rne n d \<le> rne m e"
proof -
  have "n div d \<le> m div e"
  proof -
    have "n div d = (n * e) div (d * e)"
      using d by simp
    also have "\<dots> \<le> (m * d) div (d * e)"
      using d le by (intro zdiv_mono1) auto
    also have "\<dots> = m div e"
      using d by (simp add: mult.commute)
    finally show ?thesis .
  qed
  then consider "n div d < m div e" | "n div d = m div e"
    by linarith
  then show ?thesis
  proof cases
    case 1
    then show ?thesis using rne_bounds [OF d(1), of n] rne_bounds [OF d(2), of m] by linarith
  next
    case 2
    define q where "q = n div d"
    have n: "n = q * d + n mod d" and m: "m = q * e + m mod e"
      using div_mult_mod_eq [of n d] div_mult_mod_eq [of m e] 2 by (simp_all add: q_def)
    have "(q * d + n mod d) * e \<le> (q * e + m mod e) * d"
      using le by (simp only: flip: n m)
    then have r: "(n mod d) * e \<le> (m mod e) * d"
      by (simp add: algebra_simps)
    have "e < 2 * (m mod e)" if "d < 2 * (n mod d)"
    proof -
      have "d * e < 2 * (n mod d) * e" using that d by simp
      also have "\<dots> \<le> (2 * (m mod e)) * d" using r by simp
      finally show ?thesis using d by (simp add: mult.commute)
    qed
    moreover have "e \<le> 2 * (m mod e)" if "2 * (n mod d) = d"
    proof -
      have "d * e = 2 * (n mod d) * e" using that by simp
      also have "\<dots> \<le> (2 * (m mod e)) * d" using r by simp
      finally show ?thesis using d by (simp add: mult.commute)
    qed
    ultimately show ?thesis
      using 2 by (auto simp: rne_def Let_def)
  qed
qed

lemma f_shift_small: "q < 2 ^ 24 \<Longrightarrow> f_shift q = 0"
  by (subst f_shift.simps) simp

lemma f_shift_large: "2 ^ 24 \<le> q \<Longrightarrow> f_shift q = Suc (f_shift (q div 2))"
  by (subst f_shift.simps) simp

lemma f_shift_skip: "2 ^ (23 + n) \<le> q \<Longrightarrow> f_shift q = n + f_shift (q div 2 ^ n)"
proof (induction n arbitrary: q)
  case (Suc n)
  have "(2 :: int) ^ 24 \<le> 2 ^ (23 + Suc n)" by (rule power_increasing) auto
  also have "\<dots> \<le> q" by (rule Suc.prems)
  finally have "f_shift q = Suc (f_shift (q div 2))" by (rule f_shift_large)
  moreover have "f_shift (q div 2) = n + f_shift (q div 2 div 2 ^ n)"
    using Suc.prems by (intro Suc.IH) (simp add: power_add)
  ultimately show ?case by (simp add: zdiv_zmult2_eq)
qed simp

lemma f_shift_code [code]:
  "f_shift q = (if q < 16777216 then 0
     else if 36028797018963968 \<le> q then 32 + f_shift (q div 4294967296)
     else if 2147483648 \<le> q then 8 + f_shift (q div 256) else Suc (f_shift (q div 2)))"
  using f_shift_skip [of 32 q] f_shift_skip [of 8 q] f_shift_small [of q] f_shift_large [of q] by auto

lemma f_shift_range:
  "q div 2 ^ f_shift q < 2 ^ 24 \<and> (0 < f_shift q \<longrightarrow> 2 ^ 23 \<le> q div 2 ^ f_shift q)"
proof (induction q rule: f_shift.induct)
  case (1 q)
  show ?case
  proof (cases "q < 2 ^ 24")
    case True
    then show ?thesis by (simp add: f_shift_small)
  next
    case False
    then have ih: "q div 2 div 2 ^ f_shift (q div 2) < 2 ^ 24 \<and>
        (0 < f_shift (q div 2) \<longrightarrow> 2 ^ 23 \<le> q div 2 div 2 ^ f_shift (q div 2))"
      using 1 by simp
    have e: "q div 2 ^ f_shift q = q div 2 div 2 ^ f_shift (q div 2)"
      using False by (simp add: f_shift_large zdiv_zmult2_eq)
    show ?thesis
    proof (cases "f_shift (q div 2)")
      case 0
      have "(2 :: int) ^ 23 \<le> q div 2" using False by simp
      then show ?thesis using ih e 0 by simp
    next
      case (Suc k)
      then show ?thesis using ih e by simp
    qed
  qed
qed

lemma f_shift_mono: "p \<le> q \<Longrightarrow> f_shift p \<le> f_shift q"
proof (induction q arbitrary: p rule: f_shift.induct)
  case (1 q)
  show ?case
  proof (cases "p < 2 ^ 24")
    case True
    then show ?thesis by (simp add: f_shift_small)
  next
    case False
    then have "\<not> q < 2 ^ 24" using "1.prems" by simp
    moreover have "f_shift (p div 2) \<le> f_shift (q div 2)"
      using 1 calculation by (auto intro: zdiv_mono1)
    ultimately show ?thesis using False by (simp add: f_shift_large)
  qed
qed

lemma div_times_pow: "n div (d * 2 ^ k) = n div d div 2 ^ k" for n :: int
  by (simp add: zdiv_zmult2_eq)

lemma round_mag_mono:
  assumes d: "0 < d" "0 < e" and le: "n * e \<le> m * d"
  shows "round_mag n d \<le> round_mag m e"
proof -
  define j k where "j = f_shift (n div d)" and "k = f_shift (m div e)"
  have q: "n div d \<le> m div e"
  proof -
    have "n div d = (n * e) div (d * e)" using d by simp
    also have "\<dots> \<le> (m * d) div (d * e)" using d le by (intro zdiv_mono1) auto
    also have "\<dots> = m div e" using d by (simp add: mult.commute)
    finally show ?thesis .
  qed
  then have jk: "j \<le> k" by (simp add: j_def k_def f_shift_mono)
  have "rne n (d * 2 ^ j) + int j * 2 ^ 23 \<le> rne m (e * 2 ^ k) + int k * 2 ^ 23"
  proof (cases "j = k")
    case True
    have "n * (e * 2 ^ k) \<le> m * (d * 2 ^ j)"
      using mult_right_mono [OF le, of "2 ^ k"] True by (simp add: algebra_simps)
    then show ?thesis using rne_mono [of "d * 2 ^ j" "e * 2 ^ k" n m] d True by simp
  next
    case False
    then have "j < k" using jk by simp
    have "rne n (d * 2 ^ j) \<le> 2 ^ 24"
      using rne_bounds [of "d * 2 ^ j" n] d f_shift_range [of "n div d"] by (simp add: div_times_pow j_def)
    moreover have "2 ^ 23 \<le> rne m (e * 2 ^ k)"
      using rne_bounds [of "e * 2 ^ k" m] d f_shift_range [of "m div e"] \<open>j < k\<close> by (simp add: div_times_pow k_def)
    ultimately show ?thesis using \<open>j < k\<close> by simp
  qed
  then show ?thesis
    by (simp add: round_mag_def Let_def flip: j_def k_def)
qed

lemma round_mag_range:
  assumes "0 < d" "0 \<le> n"
  shows "0 \<le> round_mag n d" "round_mag n d \<le> 0x7F800000"
proof -
  have "0 \<le> n div (d * 2 ^ f_shift (n div d))" using assms by (simp add: pos_imp_zdiv_nonneg_iff)
  then show "0 \<le> round_mag n d"
    using rne_bounds [of "d * 2 ^ f_shift (n div d)" n] assms by (simp add: round_mag_def Let_def)
  show "round_mag n d \<le> 0x7F800000"
    by (simp add: round_mag_def Let_def)
qed

subsection \<open>The order of the results\<close>

lemma low31: "x AND 0x7FFFFFFF = take_bit 31 (x :: u32)"
proof -
  have "(0x7FFFFFFF :: u32) = mask 31" by (simp add: mask_eq_exp_minus_1)
  then show ?thesis by (simp only: take_bit_eq_mask)
qed

lemma f_of_key:
  assumes "0 \<le> m" "m \<le> 0x7F800000"
  shows "f_key (f_of neg m) = (if neg then - m else m)" "\<not> f_nan (f_of neg m)"
    "f_mag (f_of neg m) = m" "m = 0 \<or> bit (f_of neg m) 31 = neg"
proof -
  have low: "uint (f_of neg m AND 0x7FFFFFFF) = m"
  proof -
    have "uint (f_of neg m AND 0x7FFFFFFF) = take_bit 31 (take_bit 32 (if neg then m + 2 ^ 31 else m))"
      unfolding low31 by (simp only: f_of_def unsigned_take_bit_eq unsigned_of_int) simp
    also have "\<dots> = m"
      using assms by (auto simp: take_bit_eq_mod)
    finally show ?thesis .
  qed
  have top: "bit (f_of neg m) 31 = neg"
  proof -
    have "bit (f_of neg m) 31 = bit (if neg then m + 2 ^ 31 else m) 31"
      by (simp add: f_of_def bit_word_of_int_iff del: of_int_add)
    also have "\<dots> = neg"
    proof -
      have low: "m div 2147483648 = 0"
        using assms by (simp add: div_pos_pos_trivial)
      then have "(m + 2147483648) div 2147483648 = 1"
        using div_add_self2 [of 2147483648 m] by simp
      with low show ?thesis by (simp add: bit_iff_odd)
    qed
    finally show ?thesis .
  qed
  show "f_key (f_of neg m) = (if neg then - m else m)"
    using low top by (simp add: f_key_def Let_def)
  show "\<not> f_nan (f_of neg m)"
    using low assms by (simp add: f_nan_def word_less_def)
  show "f_mag (f_of neg m) = m"
    using low by (simp add: f_mag_def)
  show "m = 0 \<or> bit (f_of neg m) 31 = neg"
    using top by simp
qed

lemma f_round_key:
  assumes "0 < d"
  shows "f_key (f_round z n d) = (if n < 0 then - round_mag (- n) d else round_mag n d)" "\<not> f_nan (f_round z n d)"
proof -
  have 0: "round_mag 0 d = 0"
    using assms by (simp add: round_mag_def f_shift_small rne_def)
  show "f_key (f_round z n d) = (if n < 0 then - round_mag (- n) d else round_mag n d)"
    using assms 0 round_mag_range [OF assms, of "\<bar>n\<bar>"] by (auto simp: f_round_def f_of_key)
  show "\<not> f_nan (f_round z n d)"
    using assms round_mag_range [OF assms, of "\<bar>n\<bar>"] by (auto simp: f_round_def f_of_key)
qed

lemma f_round_mono:
  assumes d: "0 < d" "0 < e" and le: "n * e \<le> m * d"
  shows "f_le (f_round y n d) (f_round z m e)"
proof -
  have "\<not> (0 \<le> n \<and> m < 0)"
    using d le mult_nonneg_nonneg [of n e] mult_neg_pos [of m d] by linarith
  then consider "n < 0" "m < 0" | "n < 0" "0 \<le> m" | "0 \<le> n" "0 \<le> m"
    by linarith
  then show ?thesis
  proof cases
    case 1
    have "- m * d \<le> - n * e" using le by simp
    then have "round_mag (- m) e \<le> round_mag (- n) d" using d by (intro round_mag_mono)
    then show ?thesis using 1 d by (simp add: f_le_def f_round_key)
  next
    case 2
    then show ?thesis
      using d round_mag_range [of d "- n"] round_mag_range [of e m] by (simp add: f_le_def f_round_key)
  next
    case 3
    then show ?thesis using d le round_mag_mono by (simp add: f_le_def f_round_key)
  qed
qed

subsection \<open>Values follow the order of the encodings\<close>

lemma mag_val_mono:
  assumes "0 \<le> m" "m \<le> n"
  shows "mag_val m \<le> mag_val n"
proof -
  define e f g h where "e = m div 2 ^ 23" and "f = n div 2 ^ 23" and "g = m mod 2 ^ 23" and "h = n mod 2 ^ 23"
  have ef: "0 \<le> e" "e \<le> f" using assms by (simp_all add: e_def f_def zdiv_mono1)
  have gh: "0 \<le> g" "g < 2 ^ 23" "0 \<le> h" by (simp_all add: g_def h_def)
  have mv: "mag_val m = (if e = 0 then g else (2 ^ 23 + g) * 2 ^ (nat e - 1))"
    "mag_val n = (if f = 0 then h else (2 ^ 23 + h) * 2 ^ (nat f - 1))"
    by (simp_all add: mag_val_def Let_def e_def f_def g_def h_def)
  consider "e = f" | "e < f" using ef by linarith
  then show ?thesis
  proof cases
    case 1
    then have "g \<le> h" using assms
      by (simp add: e_def f_def g_def h_def flip: minus_div_mult_eq_mod)
    then show ?thesis using 1 by (simp add: mv)
  next
    case 2
    have "mag_val m \<le> 2 ^ 23 * 2 ^ (nat f - 1)"
    proof (cases "e = 0")
      case True
      have "g \<le> 2 ^ 23 * 1" using gh by simp
      also have "\<dots> \<le> 2 ^ 23 * 2 ^ (nat f - 1)" by (intro mult_left_mono) auto
      finally show ?thesis using True by (simp add: mv)
    next
      case False
      have "(2 ^ 23 + g) * 2 ^ (nat e - 1) \<le> (2 ^ 24 :: int) * 2 ^ (nat e - 1)"
        using gh by (intro mult_right_mono) auto
      also have "\<dots> = 2 ^ 23 * 2 ^ nat e"
        using False ef by (cases "nat e") auto
      also have "\<dots> \<le> 2 ^ 23 * 2 ^ (nat f - 1)"
        using 2 ef by (intro mult_left_mono power_increasing) auto
      finally show ?thesis using False by (simp add: mv)
    qed
    also have "\<dots> \<le> mag_val n"
      using 2 ef gh by (simp add: mv)
    finally show ?thesis .
  qed
qed

lemma f_mag_range: "0 \<le> f_mag x"
  by (simp add: f_mag_def)

lemma f_key_mag: "f_key x = (if bit x 31 then - f_mag x else f_mag x)"
  by (simp add: f_key_def f_mag_def Let_def)

lemma f_nan_mag: "f_nan x \<longleftrightarrow> 0x7F800000 < f_mag x"
  by (simp add: f_nan_def f_mag_def word_less_def)

lemma f_finite_cases: "f_finite x \<longleftrightarrow> \<not> f_nan x \<and> \<not> f_inf x"
  by (auto simp: f_finite_def f_nan_mag f_inf_def)

lemma mag_val_nonneg: "0 \<le> m \<Longrightarrow> 0 \<le> mag_val m"
  using mag_val_mono [of 0 m] by (simp add: mag_val_def)

lemma f_le_val:
  assumes "f_le a b"
  shows "f_val a \<le> f_val b"
proof -
  have k: "f_key a \<le> f_key b" using assms by (simp add: f_le_def)
  show ?thesis
  proof (cases "bit b 31 \<and> \<not> bit a 31")
    case True
    then have "f_mag a = 0" "f_mag b = 0"
      using k f_mag_range [of a] f_mag_range [of b] by (auto simp: f_key_mag)
    then show ?thesis by (simp add: f_val_def mag_val_def)
  next
    case False
    then show ?thesis
      using k mag_val_mono [of "f_mag a" "f_mag b"] mag_val_mono [of "f_mag b" "f_mag a"]
        mag_val_nonneg [OF f_mag_range, of a] mag_val_nonneg [OF f_mag_range, of b] f_mag_range [of a] f_mag_range [of b]
      by (auto simp: f_key_mag f_val_def split: if_splits)
  qed
qed

lemma f_finite_between:
  assumes "f_le a x" "f_le x b" "f_finite a" "f_finite b"
  shows "f_finite x"
  using assms f_mag_range [of a] f_mag_range [of b]
  by (auto simp: f_le_def f_key_mag f_finite_def split: if_splits)

subsection \<open>Monotone operations\<close>

lemma f_add_mono:
  assumes "f_le a a'" "f_le b b'" "f_finite a" "f_finite a'" "f_finite b" "f_finite b'"
  shows "f_le (f_add a b) (f_add a' b')"
  using assms f_le_val [OF assms(1)] f_le_val [OF assms(2)]
  by (auto simp: f_add_def f_finite_cases intro!: f_round_mono)

lemma f_mul_mono:
  assumes "f_le a b" "f_finite a" "f_finite b" "f_finite c" "0 \<le> f_val c"
  shows "f_le (f_mul c a) (f_mul c b)"
  using assms mult_left_mono [OF f_le_val [OF assms(1)] assms(5)]
  by (auto simp: f_mul_def f_finite_cases Let_def intro!: f_round_mono)

lemma f_div_mono:
  assumes "f_le a b" "f_finite a" "f_finite b" "f_finite c" "0 < f_val c"
  shows "f_le (f_div a c) (f_div b c)"
proof -
  have "f_mag c \<noteq> 0"
    using assms(5) by (auto simp: f_val_def mag_val_def split: if_splits)
  then show ?thesis
    using assms f_le_val [OF assms(1)]
    by (auto simp: f_div_def f_finite_cases Let_def intro!: f_round_mono mult_right_mono)
qed

subsection \<open>When a result is a number\<close>

lemma f_of_inf_not_nan: "\<not> f_nan (f_of neg 0x7F800000)" and f_of_zero_not_nan: "\<not> f_nan (f_of neg 0)"
  by (auto simp: f_of_key)

lemma f_mul_commute: "f_mul a b = f_mul b a"
proof -
  have "(f_nan a \<or> f_nan b \<or> f_inf a \<and> f_mag b = 0 \<or> f_inf b \<and> f_mag a = 0) =
      (f_nan b \<or> f_nan a \<or> f_inf b \<and> f_mag a = 0 \<or> f_inf a \<and> f_mag b = 0)"
    "(f_inf a \<or> f_inf b) = (f_inf b \<or> f_inf a)" "(bit a 31 \<noteq> bit b 31) = (bit b 31 \<noteq> bit a 31)"
    "f_val a * f_val b = f_val b * f_val a"
    by (auto simp: mult.commute)
  then show ?thesis unfolding f_mul_def Let_def by (simp only:)
qed

lemma f_neg_simps: "f_nan (f_neg x) = f_nan x" "f_inf (f_neg x) = f_inf x" "f_finite (f_neg x) = f_finite x"
proof -
  have "f_neg x AND 0x7FFFFFFF = x AND 0x7FFFFFFF"
    by (simp add: f_neg_def bit.conj_xor_distrib2)
  then show "f_nan (f_neg x) = f_nan x" "f_inf (f_neg x) = f_inf x" "f_finite (f_neg x) = f_finite x"
    by (simp_all add: f_nan_mag f_inf_def f_finite_def f_mag_def)
qed

lemma f_add_not_nan: "f_finite a \<Longrightarrow> f_finite b \<Longrightarrow> \<not> f_nan (f_add a b)"
  by (simp add: f_add_def f_finite_cases f_round_key)

lemma f_sub_not_nan: "f_finite a \<Longrightarrow> f_finite b \<Longrightarrow> \<not> f_nan (f_sub a b)"
  by (simp add: f_sub_def f_add_not_nan f_neg_simps)

lemma f_sub_mono:
  assumes "f_le a b" "f_finite a" "f_finite b" "f_finite c"
  shows "f_le (f_sub a c) (f_sub b c)"
  unfolding f_sub_def
  by (rule f_add_mono) (use assms in \<open>auto simp: f_neg_simps f_le_refl f_finite_cases\<close>)

lemma f_mul_not_nan: "\<not> f_nan a \<Longrightarrow> f_finite c \<Longrightarrow> f_mag c \<noteq> 0 \<Longrightarrow> \<not> f_nan (f_mul a c)"
  by (auto simp: f_mul_def Let_def f_finite_cases f_round_key f_of_inf_not_nan)

lemma f_div_not_nan: "\<not> f_nan a \<Longrightarrow> f_finite c \<Longrightarrow> f_mag c \<noteq> 0 \<Longrightarrow> \<not> f_nan (f_div a c)"
proof -
  assume a: "\<not> f_nan a" "f_finite c" "f_mag c \<noteq> 0"
  have "1 \<le> mag_val (f_mag c)"
    using mag_val_mono [of 1 "f_mag c"] a(3) f_mag_range [of c] by (simp add: mag_val_def)
  then have "0 < \<bar>f_val c\<bar>"
    by (auto simp: f_val_def)
  then show ?thesis
    using a by (auto simp: f_div_def Let_def f_finite_cases f_round_key f_of_inf_not_nan f_of_zero_not_nan)
qed

subsection \<open>Equations for evaluation\<close>

lemma rne_scale: "0 < c \<Longrightarrow> 0 < d \<Longrightarrow> rne (n * c) (d * c) = rne n d"
proof -
  assume c: "0 < c" "0 < d"
  have eqs: "(n * c) div (d * c) = n div d" "(n * c) mod (d * c) = (n mod d) * c"
    using c by (simp_all add: mod_mult_mult2)
  have cmp: "d * c < 2 * (n mod d * c) \<longleftrightarrow> d < 2 * (n mod d)" "2 * (n mod d * c) = d * c \<longleftrightarrow> 2 * (n mod d) = d"
    using c mult_less_cancel_right_pos [of c d "2 * (n mod d)"] by (simp_all flip: mult.assoc)
  show ?thesis
    unfolding rne_def Let_def eqs cmp ..
qed

lemma round_mag_scale: "0 < c \<Longrightarrow> 0 < d \<Longrightarrow> round_mag (n * c) (d * c) = round_mag n d"
proof -
  assume c: "0 < c" "0 < d"
  have "(n * c) div (d * c) = n div d" using c by simp
  moreover have "rne (n * c) (d * c * 2 ^ k) = rne n (d * 2 ^ k)" for k
    using rne_scale [of c "d * 2 ^ k" n] c by (simp add: ac_simps)
  ultimately show ?thesis by (simp add: round_mag_def Let_def)
qed

lemma f_round_scale: "0 < c \<Longrightarrow> 0 < d \<Longrightarrow> f_round z (n * c) (d * c) = f_round z n d"
  using round_mag_scale [of c d "\<bar>n\<bar>"] by (simp add: f_round_def abs_mult mult_less_0_iff)

text \<open>A magnitude as a mantissa of 24 bits and a power of two.\<close>

definition mant :: "int \<Rightarrow> int" where
  "mant m = (if m < 8388608 then m else 8388608 + m mod 8388608)"

definition expo :: "int \<Rightarrow> nat" where
  "expo m = nat (m div 8388608) - 1"

lemma mag_val_split: "0 \<le> m \<Longrightarrow> mag_val m = mant m * 2 ^ expo m"
  by (auto simp: mag_val_def mant_def expo_def Let_def div_pos_pos_trivial dest: zdiv_mono1 [of 8388608 m 8388608])

lemma mant_nonneg: "0 \<le> m \<Longrightarrow> 0 \<le> mant m"
  by (simp add: mant_def)

lemma f_mag_code [code]: "f_mag x = uint x mod 2147483648"
  unfolding f_mag_def low31 unsigned_take_bit_eq by (simp add: take_bit_eq_mod)

lemma top_bit: "bit (x :: u32) 31 \<longleftrightarrow> 2147483648 \<le> uint x"
proof -
  have r: "0 \<le> uint x" "uint x < 4294967296"
    using uint_lt2p [of x] by simp_all
  have "bit x 31 = bit (uint x) 31"
    by (simp add: bit_uint_iff)
  also have "\<dots> = odd (uint x div 2147483648)"
    by (simp add: bit_iff_odd)
  also have "\<dots> = (2147483648 \<le> uint x)"
  proof (cases "2147483648 \<le> uint x")
    case True
    then have "uint x div 2147483648 = 1 + (uint x - 2147483648) div 2147483648"
      using div_add_self2 [of 2147483648 "uint x - 2147483648"] by simp
    also have "(uint x - 2147483648) div 2147483648 = 0"
      using True r by (simp add: div_pos_pos_trivial)
    finally show ?thesis using True by simp
  next
    case False
    then show ?thesis using r by (simp add: div_pos_pos_trivial)
  qed
  finally show ?thesis .
qed

lemma rne_code [code]: "rne n d = (let q = n div d; r = 2 * (n - q * d) in if d < r \<or> r = d \<and> odd q then q + 1 else q)"
  by (simp add: rne_def Let_def flip: minus_div_mult_eq_mod)

lemma f_val_code [code]:
  "f_val x = (let v = mag_val (f_mag x) in if 2147483648 \<le> uint x then - v else v)"
  by (simp add: f_val_def top_bit)

lemma f_nan_code [code]: "f_nan x \<longleftrightarrow> 0x7F800000 < f_mag x"
  by (rule f_nan_mag)

lemma f_key_code [code]: "f_key x = (let m = f_mag x in if 2147483648 \<le> uint x then - m else m)"
  by (simp add: f_key_mag top_bit)

lemma f_add_code [code]: "f_add a b = (let m = f_mag a; n = f_mag b; s = (2147483648 \<le> uint a); t = (2147483648 \<le> uint b)
   in if 0x7F800000 < m \<or> 0x7F800000 < n then qnan
      else if m = 0x7F800000 then (if n = 0x7F800000 \<and> s \<noteq> t then qnan else a)
      else if n = 0x7F800000 then b
      else f_round (s \<and> t) ((if s then - mag_val m else mag_val m) + (if t then - mag_val n else mag_val n)) 1)"
  by (simp add: f_add_def f_nan_mag f_inf_def f_val_def top_bit Let_def)

lemma pow_shift: "i \<le> j \<Longrightarrow> (p :: int) * 2 ^ j = p * 2 ^ (j - i) * 2 ^ i"
  by (metis le_add_diff_inverse2 mult.assoc power_add)

text \<open>A product and a quotient of finite floats from their mantissas, with the common powers of two cancelled.\<close>

definition f_product :: "bool \<Rightarrow> int \<Rightarrow> int \<Rightarrow> u32" where
  "f_product neg m n = (let p = (if neg then - (mant m * mant n) else mant m * mant n); x = expo m + expo n
     in if 149 \<le> x then f_round neg (p * pow2 (x - 149)) 1 else f_round neg p (pow2 (149 - x)))"

definition f_quotient :: "bool \<Rightarrow> int \<Rightarrow> int \<Rightarrow> u32" where
  "f_quotient neg m n = (let p = (if neg then - mant m else mant m); x = expo m + 149
     in if expo n \<le> x then f_round neg (p * pow2 (x - expo n)) (mant n)
        else f_round neg p (mant n * pow2 (expo n - x)))"

lemma f_product:
  assumes "0 \<le> m" "0 \<le> n"
  shows "f_round neg (if neg then - (mag_val m * mag_val n) else mag_val m * mag_val n) f_unit = f_product neg m n"
proof -
  define p x where "p = (if neg then - (mant m * mant n) else mant m * mant n)" and "x = expo m + expo n"
  have "(if neg then - (mag_val m * mag_val n) else mag_val m * mag_val n) = p * 2 ^ x"
    by (simp add: mag_val_split assms p_def x_def power_add)
  moreover have "f_round neg (p * 2 ^ x) (2 ^ 149) =
      (if 149 \<le> x then f_round neg (p * 2 ^ (x - 149)) 1 else f_round neg p (2 ^ (149 - x)))"
  proof (cases "149 \<le> x")
    case True
    then have "f_round neg (p * 2 ^ x) (2 ^ 149) = f_round neg (p * 2 ^ (x - 149) * 2 ^ 149) (1 * 2 ^ 149)"
      by (simp only: mult_1_left pow_shift)
    also have "\<dots> = f_round neg (p * 2 ^ (x - 149)) 1"
      by (rule f_round_scale) simp_all
    finally show ?thesis using True by (simp only: if_True)
  next
    case False
    then have "f_round neg (p * 2 ^ x) (2 ^ 149) = f_round neg (p * 2 ^ x) (2 ^ (149 - x) * 2 ^ x)"
      using pow_shift [of x 149 1] by (simp only: mult_1_left)
    also have "\<dots> = f_round neg p (2 ^ (149 - x))"
      by (rule f_round_scale) simp_all
    finally show ?thesis using False by (simp only: if_False)
  qed
  ultimately show ?thesis
    by (simp only: f_product_def Let_def p_def x_def f_unit_power pow2_power)
qed

lemma f_quotient:
  assumes "0 \<le> m" "0 < n"
  shows "f_round neg ((if neg then - mag_val m else mag_val m) * f_unit) (mag_val n) = f_quotient neg m n"
proof -
  define p x where "p = (if neg then - mant m else mant m)" and "x = expo m + 149"
  have "(if neg then - mag_val m else mag_val m) * f_unit = p * 2 ^ x" "mag_val n = mant n * 2 ^ expo n"
    using assms by (simp_all add: mag_val_split p_def x_def power_add)
  moreover have pos: "0 < mant n"
  proof -
    have "0 \<le> n mod 8388608" by simp
    then have "0 < 8388608 + n mod 8388608" by linarith
    then show ?thesis using assms by (auto simp: mant_def)
  qed
  have "f_round neg (p * 2 ^ x) (mant n * 2 ^ expo n) =
      (if expo n \<le> x then f_round neg (p * 2 ^ (x - expo n)) (mant n) else f_round neg p (mant n * 2 ^ (expo n - x)))"
  proof (cases "expo n \<le> x")
    case True
    then have "f_round neg (p * 2 ^ x) (mant n * 2 ^ expo n) =
        f_round neg (p * 2 ^ (x - expo n) * 2 ^ expo n) (mant n * 2 ^ expo n)"
      by (simp only: pow_shift)
    also have "\<dots> = f_round neg (p * 2 ^ (x - expo n)) (mant n)"
      using pos by (intro f_round_scale) simp_all
    finally show ?thesis using True by (simp only: if_True)
  next
    case False
    then have "mant n * 2 ^ expo n = mant n * 2 ^ (expo n - x) * 2 ^ x"
      by (intro pow_shift) simp
    then have "f_round neg (p * 2 ^ x) (mant n * 2 ^ expo n) = f_round neg (p * 2 ^ x) (mant n * 2 ^ (expo n - x) * 2 ^ x)"
      by (simp only:)
    also have "\<dots> = f_round neg p (mant n * 2 ^ (expo n - x))"
      using pos by (intro f_round_scale) simp_all
    finally show ?thesis using False by (simp only: if_False)
  qed
  ultimately show ?thesis
    by (simp only: f_quotient_def Let_def p_def x_def pow2_power)
qed

lemma f_mul_code [code]: "f_mul a b = (let m = f_mag a; n = f_mag b; neg = ((2147483648 \<le> uint a) \<noteq> (2147483648 \<le> uint b))
   in if 0x7F800000 < m \<or> 0x7F800000 < n \<or> m = 0x7F800000 \<and> n = 0 \<or> n = 0x7F800000 \<and> m = 0 then qnan
      else if m = 0x7F800000 \<or> n = 0x7F800000 then f_of neg 0x7F800000
      else f_product neg m n)"
proof -
  have "f_val a * f_val b = (if (2147483648 \<le> uint a) \<noteq> (2147483648 \<le> uint b)
      then - (mag_val (f_mag a) * mag_val (f_mag b)) else mag_val (f_mag a) * mag_val (f_mag b))"
    by (simp add: f_val_def top_bit)
  then show ?thesis
    by (simp only: f_mul_def f_nan_mag f_inf_def top_bit Let_def f_product [OF f_mag_range f_mag_range])
qed

lemma f_div_code [code]: "f_div a b = (let m = f_mag a; n = f_mag b; neg = ((2147483648 \<le> uint a) \<noteq> (2147483648 \<le> uint b))
   in if 0x7F800000 < m \<or> 0x7F800000 < n \<or> m = 0x7F800000 \<and> n = 0x7F800000 \<or> m = 0 \<and> n = 0 then qnan
      else if m = 0x7F800000 \<or> n = 0 then f_of neg 0x7F800000
      else if n = 0x7F800000 then f_of neg 0
      else f_quotient neg m n)"
proof (cases "f_mag b = 0")
  case True
  then show ?thesis by (simp add: f_div_def f_nan_mag f_inf_def top_bit Let_def)
next
  case False
  then have b: "0 < f_mag b" using f_mag_range [of b] by linarith
  then have "0 < mag_val (f_mag b)"
    using mag_val_mono [of 1 "f_mag b"] by (simp add: mag_val_def)
  then have "f_val a * sgn (f_val b) * f_unit = (if (2147483648 \<le> uint a) \<noteq> (2147483648 \<le> uint b)
      then - mag_val (f_mag a) else mag_val (f_mag a)) * f_unit" "\<bar>f_val b\<bar> = mag_val (f_mag b)"
    by (auto simp: f_val_def top_bit sgn_if)
  then show ?thesis
    by (simp only: f_div_def f_nan_mag f_inf_def top_bit Let_def f_quotient [OF f_mag_range b])
qed

end
