(* ===== verification/SensorChannel.thy ===== *)
theory SensorChannel
  imports FloatArith LiveUpload
begin

section \<open>Sensor channels\<close>

text \<open>
  \<open>logger/firmware/src/SensorChannel.cpp\<close> with the floating-point helpers of \<open>Logic.cpp\<close> and the sensors
  of \<open>AppConfig.h\<close>: from the voltage across the shunt to a filtered engineering value with its extremes,
  an active and a latched fault. Floats are those of theory \<open>FloatArith\<close>.
\<close>

subsection \<open>The helpers of Logic.cpp\<close>

definition currentFromVoltage :: "u32 \<Rightarrow> u32 \<Rightarrow> u32" where
  "currentFromVoltage voltage shunt = (if f_le shunt (f_int 0) then f_int 0
     else f_mul (f_div voltage shunt) (f_int 1000))"

definition determineSensorFault :: "u32 \<Rightarrow> u32 \<Rightarrow> bool \<Rightarrow> SensorFault" where
  "determineSensorFault voltage currentmA adcAvailable =
    (if \<not> adcAvailable then AdcUnavailable
     else if f_le (f_lit 328 100) voltage then AdcSaturation
     else if f_less currentmA (f_lit 36 10) then Underrange
     else if f_less (f_lit 208 10) currentmA then Overrange
     else FaultNone)"

definition scaleEngineeringValue :: "u32 \<Rightarrow> u32 \<Rightarrow> u32 \<Rightarrow> u32 \<Rightarrow> u32 \<Rightarrow> u32" where
  "scaleEngineeringValue currentmA currentMin currentMax engMin engMax =
    (if f_le currentMax currentMin then engMin
     else let normalized = f_div (f_sub currentmA currentMin) (f_sub currentMax currentMin);
              clamped = f_clamp normalized (f_int 0) (f_int 1)
          in f_add engMin (f_mul clamped (f_sub engMax engMin)))"

definition applyLowPassFilter :: "u32 \<Rightarrow> u32 \<Rightarrow> u32 \<Rightarrow> u32" where
  "applyLowPassFilter previousValue currentValue alpha =
    (let clampedAlpha = f_clamp alpha (f_int 0) (f_int 1)
     in f_add (f_mul clampedAlpha currentValue) (f_mul (f_sub (f_int 1) clampedAlpha) previousValue))"

subsection \<open>The configured sensors\<close>

record SensorConfig =
  sc_id :: string
  sc_name :: string
  sc_adsChannel :: byte
  sc_currentMinmA :: u32
  sc_currentMaxmA :: u32
  sc_engMin :: u32
  sc_engMax :: u32
  sc_units :: string
  sc_warnLow :: u32
  sc_warnHigh :: u32
  sc_filterAlpha :: u32

definition kShuntResistanceOhms :: u32 where
  "kShuntResistanceOhms = f_int 120"

definition kSensorConfigs :: "SensorConfig list" where
  "kSensorConfigs =
    [\<lparr>sc_id = ''oil_pressure'', sc_name = ''Oil Pressure'', sc_adsChannel = 0, sc_currentMinmA = f_int 4,
      sc_currentMaxmA = f_int 20, sc_engMin = f_int 0, sc_engMax = f_int 8, sc_units = ''bar'',
      sc_warnLow = f_lit 15 10, sc_warnHigh = f_lit 75 10, sc_filterAlpha = f_lit 18 100\<rparr>,
     \<lparr>sc_id = ''oil_temperature'', sc_name = ''Oil Temp'', sc_adsChannel = 1, sc_currentMinmA = f_int 4,
      sc_currentMaxmA = f_int 20, sc_engMin = f_int 0, sc_engMax = f_int 150, sc_units = ''C'',
      sc_warnLow = f_int 70, sc_warnHigh = f_int 125, sc_filterAlpha = f_lit 18 100\<rparr>]"

subsection \<open>A channel\<close>

record SensorChannel =
  ch_config :: "SensorConfig option"
  ch_rawVoltage :: u32
  ch_currentmA :: u32
  ch_engineeringValue :: u32
  ch_filteredValue :: u32
  ch_minValue :: u32
  ch_maxValue :: u32
  ch_hasValidSample :: bool
  ch_activeFault :: SensorFault
  ch_latchedFault :: SensorFault

definition new_channel :: SensorChannel where
  "new_channel = \<lparr>ch_config = None, ch_rawVoltage = f_int 0, ch_currentmA = f_int 0, ch_engineeringValue = f_int 0,
     ch_filteredValue = f_int 0, ch_minValue = f_int 0, ch_maxValue = f_int 0, ch_hasValidSample = False,
     ch_activeFault = FaultNone, ch_latchedFault = FaultNone\<rparr>"

definition ch_configure :: "SensorConfig \<Rightarrow> SensorChannel \<Rightarrow> SensorChannel" where
  "ch_configure config c = c\<lparr>ch_config := Some config\<rparr>"

definition ch_update :: "u32 \<Rightarrow> bool \<Rightarrow> SensorChannel \<Rightarrow> SensorChannel" where
  "ch_update sensedVoltage adcAvailable c = (case ch_config c of None \<Rightarrow> c | Some config \<Rightarrow>
    (let current = currentFromVoltage sensedVoltage kShuntResistanceOhms;
         fault = determineSensorFault sensedVoltage current adcAvailable;
         c = c\<lparr>ch_rawVoltage := sensedVoltage, ch_currentmA := current, ch_activeFault := fault\<rparr>
     in if fault \<noteq> FaultNone then
          (let c = c\<lparr>ch_latchedFault := fault\<rparr>
           in if \<not> ch_hasValidSample c
              then c\<lparr>ch_engineeringValue := sc_engMin config, ch_filteredValue := sc_engMin config,
                     ch_minValue := sc_engMin config, ch_maxValue := sc_engMax config\<rparr>
              else c)
        else
          (let value = scaleEngineeringValue current (sc_currentMinmA config) (sc_currentMaxmA config)
                         (sc_engMin config) (sc_engMax config)
           in if \<not> ch_hasValidSample c
              then c\<lparr>ch_engineeringValue := value, ch_filteredValue := value, ch_minValue := value,
                     ch_maxValue := value, ch_hasValidSample := True\<rparr>
              else
                (let filtered = applyLowPassFilter (ch_filteredValue c) value (sc_filterAlpha config)
                 in c\<lparr>ch_engineeringValue := value, ch_filteredValue := filtered,
                      ch_minValue := f_min (ch_minValue c) filtered,
                      ch_maxValue := f_max (ch_maxValue c) filtered\<rparr>))))"

definition clearLatchedFault :: "SensorChannel \<Rightarrow> SensorChannel" where
  "clearLatchedFault c = c\<lparr>ch_latchedFault := ch_activeFault c\<rparr>"

definition snapshot :: "SensorChannel \<Rightarrow> u32 SensorSnapshot" where
  "snapshot c = (let of_config = (\<lambda>f none. case ch_config c of None \<Rightarrow> none | Some config \<Rightarrow> f config)
     in \<lparr>ss_id = (case ch_config c of None \<Rightarrow> '''' | Some config \<Rightarrow> sc_id config),
         ss_name = (case ch_config c of None \<Rightarrow> '''' | Some config \<Rightarrow> sc_name config),
         ss_units = (case ch_config c of None \<Rightarrow> '''' | Some config \<Rightarrow> sc_units config),
         ss_rawVoltage = ch_rawVoltage c, ss_loopCurrentmA = ch_currentmA c,
         ss_engineeringValue = ch_engineeringValue c, ss_filteredValue = ch_filteredValue c,
         ss_minValue = ch_minValue c, ss_maxValue = ch_maxValue c,
         ss_warnLow = of_config sc_warnLow (f_int 0), ss_warnHigh = of_config sc_warnHigh (f_int 0),
         ss_engMin = of_config sc_engMin (f_int 0), ss_engMax = of_config sc_engMax (f_int 0),
         ss_activeFault = ch_activeFault c, ss_latchedFault = ch_latchedFault c,
         ss_hasValidSample = ch_hasValidSample c\<rparr>)"

subsection \<open>The filter stays within the range of the sensor\<close>

text \<open>
  What a configuration must satisfy, rounding included: the range is finite, the clamped filter weight
  and its complement are not negative, and neither scaling nor filtering leaves the ends of the range.
\<close>

definition scaled_between :: "u32 \<Rightarrow> u32 \<Rightarrow> bool" where
  "scaled_between lo hi \<longleftrightarrow> (let span = f_sub hi lo in
     f_finite span \<and> 0 \<le> f_val span \<and> f_finite (f_mul (f_int 0) span) \<and> f_finite (f_mul (f_int 1) span) \<and>
     f_le lo (f_add lo (f_mul (f_int 0) span)) \<and> f_le (f_add lo (f_mul (f_int 1) span)) hi)"

definition filtered_between :: "u32 \<Rightarrow> u32 \<Rightarrow> u32 \<Rightarrow> bool" where
  "filtered_between alpha lo hi \<longleftrightarrow> (let a = f_clamp alpha (f_int 0) (f_int 1); b = f_sub (f_int 1) a in
     f_finite a \<and> 0 \<le> f_val a \<and> f_finite b \<and> 0 \<le> f_val b \<and>
     f_finite (f_mul a lo) \<and> f_finite (f_mul a hi) \<and> f_finite (f_mul b lo) \<and> f_finite (f_mul b hi) \<and>
     f_le lo (f_add (f_mul a lo) (f_mul b lo)) \<and> f_le (f_add (f_mul a hi) (f_mul b hi)) hi)"

definition config_ok :: "SensorConfig \<Rightarrow> bool" where
  "config_ok c \<longleftrightarrow> f_finite (sc_currentMinmA c) \<and> f_finite (sc_currentMaxmA c) \<and>
     (f_le (sc_currentMaxmA c) (sc_currentMinmA c) \<or>
       f_finite (f_sub (sc_currentMaxmA c) (sc_currentMinmA c)) \<and> f_mag (f_sub (sc_currentMaxmA c) (sc_currentMinmA c)) \<noteq> 0) \<and>
     f_finite (sc_engMin c) \<and> f_finite (sc_engMax c) \<and> f_le (sc_engMin c) (sc_engMax c) \<and>
     scaled_between (sc_engMin c) (sc_engMax c) \<and>
     filtered_between (sc_filterAlpha c) (sc_engMin c) (sc_engMax c)"

lemma configured_sensors_ok: "list_all config_ok kSensorConfigs"
  by code_simp

lemma constants_values:
  "f_finite (f_int 0) \<and> f_finite (f_int 1) \<and> f_le (f_int 0) (f_int 1) \<and> f_finite (f_lit 36 10) \<and>
   f_finite (f_lit 208 10) \<and> f_finite (f_int 1000) \<and> f_mag (f_int 1000) \<noteq> 0 \<and> f_finite (f_int 120) \<and>
   f_mag (f_int 120) \<noteq> 0 \<and> \<not> f_nan (f_lit 36 10) \<and> \<not> f_nan (f_lit 208 10) \<and>
   \<not> f_le (f_int 120) (f_int 0) \<and> \<not> f_nan (f_int 0) \<and> f_nan qnan"
  by code_simp

lemma constants_finite [simp]:
  "f_finite (f_int 0)" "f_finite (f_int 1)" "f_le (f_int 0) (f_int 1)" "f_finite (f_lit 36 10)" "f_finite (f_lit 208 10)"
  "f_finite (f_int 1000)" "f_mag (f_int 1000) \<noteq> 0" "f_finite (f_int 120)" "f_mag (f_int 120) \<noteq> 0"
  "\<not> f_nan (f_lit 36 10)" "\<not> f_nan (f_lit 208 10)" "\<not> f_le (f_int 120) (f_int 0)" "\<not> f_nan (f_int 0)" "f_nan qnan"
  using constants_values by blast+

lemma current_not_nan: "\<not> f_nan v \<Longrightarrow> \<not> f_nan (currentFromVoltage v kShuntResistanceOhms)"
  by (simp add: currentFromVoltage_def kShuntResistanceOhms_def f_mul_not_nan f_div_not_nan)

lemma no_fault_current:
  assumes "determineSensorFault v i adc = FaultNone" "\<not> f_nan i"
  shows "f_finite i"
proof (rule f_finite_between)
  show "f_le (f_lit 36 10) i" "f_le i (f_lit 208 10)"
    using assms by (auto simp: determineSensorFault_def f_not_less split: if_splits)
qed simp_all

lemma scaled_range:
  assumes "scaled_between lo hi" "f_finite lo" "f_finite hi" "f_le lo hi" "f_finite i" "f_finite cmin" "f_finite cmax"
    "f_le cmax cmin \<or> f_finite (f_sub cmax cmin) \<and> f_mag (f_sub cmax cmin) \<noteq> 0"
  shows "f_le lo (scaleEngineeringValue i cmin cmax lo hi) \<and> f_le (scaleEngineeringValue i cmin cmax lo hi) hi"
proof (cases "f_le cmax cmin")
  case True
  then show ?thesis using assms by (simp add: scaleEngineeringValue_def f_le_refl f_finite_cases)
next
  case False
  define n where "n = f_clamp (f_div (f_sub i cmin) (f_sub cmax cmin)) (f_int 0) (f_int 1)"
  define span where "span = f_sub hi lo"
  have "\<not> f_nan (f_div (f_sub i cmin) (f_sub cmax cmin))"
    using assms False by (intro f_div_not_nan) (auto simp: f_sub_not_nan)
  then have n: "f_le (f_int 0) n" "f_le n (f_int 1)"
    unfolding n_def by (simp_all add: f_clamp_bounds)
  then have fn: "f_finite n" by (rule f_finite_between) simp_all
  have span: "f_finite span" "0 \<le> f_val span" "f_finite (f_mul span (f_int 0))" "f_finite (f_mul span (f_int 1))"
    "f_le lo (f_add lo (f_mul span (f_int 0)))" "f_le (f_add lo (f_mul span (f_int 1))) hi"
    using assms(1) by (simp_all add: scaled_between_def span_def Let_def f_mul_commute [of _ "f_sub hi lo"])
  have m: "f_le (f_mul span (f_int 0)) (f_mul span n)" "f_le (f_mul span n) (f_mul span (f_int 1))"
    using n fn span by (auto intro!: f_mul_mono)
  then have fm: "f_finite (f_mul span n)"
    using span(3,4) by (rule f_finite_between)
  have "f_le (f_add lo (f_mul span (f_int 0))) (f_add lo (f_mul span n))"
    "f_le (f_add lo (f_mul span n)) (f_add lo (f_mul span (f_int 1)))"
    using m fm span assms(2) by (auto intro!: f_add_mono simp: f_le_refl f_finite_cases)
  moreover have "scaleEngineeringValue i cmin cmax lo hi = f_add lo (f_mul span n)"
    using False by (simp add: scaleEngineeringValue_def n_def span_def Let_def f_mul_commute)
  ultimately show ?thesis
    using f_le_trans span(5,6) by metis
qed

lemma filtered_range:
  assumes "filtered_between alpha lo hi" "f_finite lo" "f_finite hi"
    "f_le lo p" "f_le p hi" "f_le lo v" "f_le v hi"
  shows "f_le lo (applyLowPassFilter p v alpha) \<and> f_le (applyLowPassFilter p v alpha) hi"
proof -
  define a b where "a = f_clamp alpha (f_int 0) (f_int 1)" and "b = f_sub (f_int 1) a"
  have ab: "f_finite a" "0 \<le> f_val a" "f_finite b" "0 \<le> f_val b"
    "f_finite (f_mul a lo)" "f_finite (f_mul a hi)" "f_finite (f_mul b lo)" "f_finite (f_mul b hi)"
    "f_le lo (f_add (f_mul a lo) (f_mul b lo))" "f_le (f_add (f_mul a hi) (f_mul b hi)) hi"
    using assms(1) by (simp_all add: filtered_between_def Let_def a_def b_def)
  have pv: "f_finite p" "f_finite v"
    using assms f_finite_between by blast+
  have m: "f_le (f_mul a lo) (f_mul a v)" "f_le (f_mul a v) (f_mul a hi)"
    "f_le (f_mul b lo) (f_mul b p)" "f_le (f_mul b p) (f_mul b hi)"
    using assms ab pv by (auto intro!: f_mul_mono)
  then have fm: "f_finite (f_mul a v)" "f_finite (f_mul b p)"
    using ab f_finite_between by blast+
  have "f_le (f_add (f_mul a lo) (f_mul b lo)) (f_add (f_mul a v) (f_mul b p))"
    "f_le (f_add (f_mul a v) (f_mul b p)) (f_add (f_mul a hi) (f_mul b hi))"
    using m fm ab by (auto intro!: f_add_mono)
  moreover have "applyLowPassFilter p v alpha = f_add (f_mul a v) (f_mul b p)"
    by (simp add: applyLowPassFilter_def Let_def a_def b_def)
  ultimately show ?thesis
    using f_le_trans ab(9,10) by metis
qed

subsection \<open>Histories of a channel\<close>

datatype ChannelOp = Sense u32 bool | ClearFaults

primrec channel_step :: "ChannelOp \<Rightarrow> SensorChannel \<Rightarrow> SensorChannel" where
  "channel_step (Sense v adc) c = ch_update v adc c"
| "channel_step ClearFaults c = clearLatchedFault c"

primrec op_number :: "ChannelOp \<Rightarrow> bool" where
  "op_number (Sense v adc) = (\<not> f_nan v)"
| "op_number ClearFaults = True"

definition channel_run :: "SensorConfig \<Rightarrow> ChannelOp list \<Rightarrow> SensorChannel" where
  "channel_run config ops = fold channel_step ops (ch_configure config new_channel)"

text \<open>What holds of the values once a channel has a valid sample.\<close>

definition in_range :: "SensorConfig \<Rightarrow> SensorChannel \<Rightarrow> bool" where
  "in_range config c \<longleftrightarrow> f_le (sc_engMin config) (ch_minValue c) \<and> f_le (ch_minValue c) (ch_filteredValue c) \<and>
     f_le (ch_filteredValue c) (ch_maxValue c) \<and> f_le (ch_maxValue c) (sc_engMax config) \<and>
     f_le (sc_engMin config) (ch_engineeringValue c) \<and> f_le (ch_engineeringValue c) (sc_engMax config)"

lemma f_le_not_nan: "f_le a b \<Longrightarrow> \<not> f_nan a \<and> \<not> f_nan b"
  by (simp add: f_le_def)

lemma update_in_range:
  assumes ok: "config_ok config" and v: "\<not> f_nan v" and c: "ch_config c = Some config"
    and inv: "ch_hasValidSample c \<Longrightarrow> in_range config c" and valid: "ch_hasValidSample (ch_update v adc c)"
  shows "in_range config (ch_update v adc c)"
proof -
  define i where "i = currentFromVoltage v kShuntResistanceOhms"
  define eng where "eng = scaleEngineeringValue i (sc_currentMinmA config) (sc_currentMaxmA config)
    (sc_engMin config) (sc_engMax config)"
  show ?thesis
  proof (cases "determineSensorFault v i adc = FaultNone")
    case False
    then show ?thesis
      using inv valid c by (auto simp: ch_update_def Let_def in_range_def simp flip: i_def split: if_splits)
  next
    case True
    then have "f_finite i"
      using current_not_nan [OF v] by (intro no_fault_current) (auto simp: i_def)
    then have eng: "f_le (sc_engMin config) eng" "f_le eng (sc_engMax config)"
      using ok scaled_range unfolding config_ok_def eng_def by blast+
    show ?thesis
    proof (cases "ch_hasValidSample c")
      case first: False
      then show ?thesis
        using True c eng f_le_not_nan [OF eng(1)]
        by (simp add: ch_update_def Let_def in_range_def f_le_refl flip: i_def eng_def)
    next
      case again: True
      define filtered where "filtered = applyLowPassFilter (ch_filteredValue c) eng (sc_filterAlpha config)"
      have old: "f_le (sc_engMin config) (ch_filteredValue c)" "f_le (ch_filteredValue c) (sc_engMax config)"
        using inv [OF again] f_le_trans unfolding in_range_def by blast+
      then have filtered: "f_le (sc_engMin config) filtered" "f_le filtered (sc_engMax config)"
        using ok eng filtered_range unfolding config_ok_def filtered_def by blast+
      have upd: "ch_update v adc c = c\<lparr>ch_rawVoltage := v, ch_currentmA := i, ch_activeFault := FaultNone,
          ch_engineeringValue := eng, ch_filteredValue := filtered, ch_minValue := f_min (ch_minValue c) filtered,
          ch_maxValue := f_max (ch_maxValue c) filtered\<rparr>"
        using True again c by (simp add: ch_update_def Let_def filtered_def flip: i_def eng_def)
      have "f_le (sc_engMin config) (f_min (ch_minValue c) filtered)" "f_le (f_min (ch_minValue c) filtered) filtered"
        "f_le filtered (f_max (ch_maxValue c) filtered)" "f_le (f_max (ch_maxValue c) filtered) (sc_engMax config)"
        using inv [OF again] filtered by (auto simp: in_range_def f_min_def f_max_def f_le_def f_less_def)
      then show ?thesis
        using eng by (simp add: upd in_range_def)
    qed
  qed
qed

lemma update_config [simp]: "ch_config (ch_update v adc c) = ch_config c"
  by (simp add: ch_update_def Let_def split: option.splits)

lemma step_in_range:
  assumes "config_ok config" "op_number op" "ch_config c = Some config" "ch_hasValidSample c \<Longrightarrow> in_range config c"
  shows "ch_config (channel_step op c) = Some config \<and>
    (ch_hasValidSample (channel_step op c) \<longrightarrow> in_range config (channel_step op c))"
proof (cases op)
  case (Sense v adc)
  then show ?thesis using assms update_in_range by auto
next
  case ClearFaults
  then show ?thesis using assms by (simp add: clearLatchedFault_def in_range_def)
qed

lemma fold_in_range:
  assumes "config_ok config" "\<forall>op \<in> set ops. op_number op" "ch_config c = Some config"
    "ch_hasValidSample c \<longrightarrow> in_range config c"
  shows "ch_hasValidSample (fold channel_step ops c) \<longrightarrow> in_range config (fold channel_step ops c)"
  using assms
proof (induction ops arbitrary: c)
  case (Cons op ops)
  have "ch_config (channel_step op c) = Some config \<and>
      (ch_hasValidSample (channel_step op c) \<longrightarrow> in_range config (channel_step op c))"
    using Cons.prems by (intro step_in_range) auto
  then show ?case using Cons by simp
qed simp

text \<open>
  C0: Whatever the channel of a configured sensor senses, as long as no voltage is a NaN: once it has a
  valid sample, the engineering value and the filtered value are numbers within the range of the sensor,
  rounding included, and the filtered value lies between the extremes recorded.
\<close>

theorem channel_stays_in_range:
  assumes "config \<in> set kSensorConfigs" "\<forall>op \<in> set ops. op_number op"
    "ch_hasValidSample (channel_run config ops)"
  shows "in_range config (channel_run config ops)"
proof -
  have "config_ok config" using assms(1) configured_sensors_ok by (auto simp: list_all_iff)
  then show ?thesis
    using fold_in_range [of config ops "ch_configure config new_channel"] assms(2,3)
    by (simp add: channel_run_def ch_configure_def new_channel_def)
qed

text \<open>Half scale, a broken wire, and full scale, on the pressure sensor.\<close>

definition some_samples :: "ChannelOp list" where
  "some_samples = [Sense (f_lit 144 100) True, Sense (f_int 0) True, ClearFaults, Sense (f_lit 24 10) True]"

lemma some_samples_run:
  "list_all op_number some_samples \<and> ch_hasValidSample (channel_run (hd kSensorConfigs) some_samples) \<and>
   ch_filteredValue (channel_run (hd kSensorConfigs) some_samples) \<noteq> f_int 0"
  by code_simp

lemma channel_stays_in_range_witness:
  "in_range (hd kSensorConfigs) (channel_run (hd kSensorConfigs) some_samples) \<and>
   ch_filteredValue (channel_run (hd kSensorConfigs) some_samples) \<noteq> f_int 0"
  using channel_stays_in_range [of "hd kSensorConfigs" some_samples] some_samples_run
  by (simp add: list_all_iff kSensorConfigs_def)

text \<open>A NaN voltage passes every check of \<open>determineSensorFault\<close>, and the filter keeps it.\<close>

lemma nan_voltage_no_fault:
  "f_nan v \<Longrightarrow> determineSensorFault v (currentFromVoltage v kShuntResistanceOhms) True = FaultNone"
proof -
  assume v: "f_nan v"
  have "f_div v (f_int 120) = qnan" using v by (simp add: f_div_def)
  then have "currentFromVoltage v kShuntResistanceOhms = qnan"
    by (simp add: currentFromVoltage_def kShuntResistanceOhms_def f_mul_def)
  then show ?thesis
    using v by (simp add: determineSensorFault_def f_le_def f_less_def)
qed

end
