(* ===== verification/Spec2Isabelle.thy ===== *)
theory Spec2Isabelle
  imports RejectedArchive AppBearerRotation QueueAge UploadPolicy HttpsTransport OwnerReset SignedOtaEsp32 SystemEvents DashProtocols
    RuntimeSettings Provisioning LoggerAuthorization LiveUploadHistory RemoteManagement
    WebUi DashDelivery SensorChannel
begin

text \<open>
  Verification library for the Apexi logger and dash firmware.
\<close>

end
